(* ===== verification/Prelude.thy ===== *)
theory Prelude
  imports Main "HOL-Library.Word"
begin

text \<open>
  Shared vocabulary of the development: the machine integers of the code as words, octet
  strings as lists of 8-bit words, the big-endian value of an octet string with its inverse, the
  faults a model reports where the code reads outside the bytes it was given, and the collections
  of facts (\<open>wire\<close> for codecs, \<open>kept\<close> for invariants) the component theories extend.
\<close>

unbundle bit_operations_syntax

section \<open>Machine integers and octet strings\<close>

type_synonym byte = "8 word"
type_synonym u16 = "16 word"
type_synonym u32 = "32 word"
type_synonym u64 = "64 word"
type_synonym octets = "byte list"

named_theorems wire "equations of readers applied to what writers produced"
named_theorems kept "preservation facts of the component invariants"

text \<open>
  Where the code dereferences a pointer past the octets it has received, the model stops with
  \<open>OverRead\<close>; where it hits an \<open>assert\<close>, with \<open>AssertFailed\<close>; where it divides by zero, with
  \<open>DivByZero\<close>; where an \<open>int\<close> is shifted by its width or overflows, with \<open>UndefinedShift\<close> and
  \<open>SignedOverflow\<close>; where it uses an object after its deletion, with \<open>UseAfterFree\<close>; where nothing catches an exception, with \<open>UncaughtException\<close>; and a loop that never
  ends is \<open>NoReturn\<close>.
\<close>

datatype fault = OverRead | AssertFailed | DivByZero | UndefinedShift | SignedOverflow
  | UseAfterFree | NoReturn | UncaughtException

text \<open>
  Readers pass the input on: a step takes the reader's state to a fault, or to a value and
  the state after it. \<open>reads p b x\<close> says that on any state whose remaining input starts with \<open>b\<close> the
  step consumes just that and gives \<open>x\<close>; the remaining input is what \<open>rest_of\<close> shows of a state.
\<close>

type_synonym ('s, 'a) step = "'s \<Rightarrow> fault + 'a \<times> 's"

definition give :: "'a \<Rightarrow> ('s, 'a) step" where "give x s = Inr (x, s)"

definition chain :: "('s, 'a) step \<Rightarrow> ('a \<Rightarrow> ('s, 'b) step) \<Rightarrow> ('s, 'b) step" where
  "chain p f s = (case p s of Inl e \<Rightarrow> Inl e | Inr (x, s') \<Rightarrow> f x s')"

definition reads :: "('s \<Rightarrow> 'i list) \<Rightarrow> ('s, 'a) step \<Rightarrow> 'i list \<Rightarrow> 'a \<Rightarrow> bool" where
  "reads rest_of p b x \<longleftrightarrow>
     (\<forall>s tl. rest_of s = b @ tl \<longrightarrow> (\<exists>s'. p s = Inr (x, s') \<and> rest_of s' = tl))"

lemma reads_give: "reads rest_of (give x) [] x"
  by (simp add: reads_def give_def)

lemma reads_chain: "reads rest_of p b x \<Longrightarrow> reads rest_of (f x) c y \<Longrightarrow> reads rest_of (chain p f) (b @ c) y"
  unfolding reads_def chain_def by (fastforce split: sum.split)

lemma reads_chain_end: "reads rest_of p b x \<Longrightarrow> reads rest_of (f x) [] y \<Longrightarrow> reads rest_of (chain p f) b y"
  using reads_chain [of rest_of p b x f "[]" y] by simp

section \<open>Big-endian values\<close>

fun be_val :: "octets \<Rightarrow> nat" where
  "be_val [] = 0"
| "be_val (b # bs) = unat b * 256 ^ length bs + be_val bs"

fun be_bytes :: "nat \<Rightarrow> nat \<Rightarrow> octets" where
  "be_bytes 0 v = []"
| "be_bytes (Suc n) v = word_of_nat (v div 256 ^ n) # be_bytes n v"

lemma unat_byte_less [simp]: "unat (b :: byte) < 256"
  using unsigned_less [of b] by simp

lemma unat_u16_less: "unat (v :: u16) < 2 ^ 16" and unat_u32_less: "unat (w :: u32) < 2 ^ 32"
  and unat_u64_less: "unat (x :: u64) < 2 ^ 64"
  using unsigned_less [of v] unsigned_less [of w] unsigned_less [of x] by simp_all

lemma unat_byte_of_nat [simp]: "unat (word_of_nat n :: byte) = n mod 256"
  by (simp add: unat_of_nat)

lemma byte_of_nat_cong:
  "m mod 256 = n mod 256 \<Longrightarrow> (word_of_nat m :: byte) = word_of_nat n"
  by (simp add: word_eq_iff_unsigned [where ?'a = nat])

lemma be_bytes_numeral:
  "be_bytes 2 v = [word_of_nat (v div 256), word_of_nat v]"
  "be_bytes 3 v = [word_of_nat (v div 65536), word_of_nat (v div 256), word_of_nat v]"
  "be_bytes 4 v = [word_of_nat (v div 16777216), word_of_nat (v div 65536), word_of_nat (v div 256), word_of_nat v]"
  by (simp_all add: numeral_2_eq_2 numeral_3_eq_3 numeral_eq_Suc [of "Num.Bit0 (Num.Bit0 Num.One)"])

lemma length_be_bytes [simp]: "length (be_bytes n v) = n"
  by (induction n) auto

lemma be_val_less: "be_val bs < 256 ^ length bs"
proof (induction bs)
  case (Cons b bs)
  have "unat b * 256 ^ length bs + be_val bs < Suc (unat b) * 256 ^ length bs"
    using Cons by simp
  also have "\<dots> \<le> 256 * 256 ^ length bs"
    by (rule mult_right_mono) (use unat_byte_less [of b] in linarith, simp)
  finally show ?case by simp
qed simp

lemma be_val_append: "be_val (xs @ ys) = be_val xs * 256 ^ length ys + be_val ys"
  by (induction xs) (auto simp: power_add algebra_simps)

lemma be_val_be_bytes: "be_val (be_bytes n v) = v mod 256 ^ n"
proof (induction n)
  case (Suc n)
  have "v mod 256 ^ Suc n = (v div 256 ^ n mod 256) * 256 ^ n + v mod 256 ^ n"
    by (metis mod_mult2_eq mult.commute power_Suc power_commutes)
  with Suc show ?case by simp
qed simp

lemma be_val_be_bytes_id [wire]: "v < 256 ^ n \<Longrightarrow> be_val (be_bytes n v) = v"
  by (simp add: be_val_be_bytes)

lemma be_bytes_add_mult: "n \<le> m \<Longrightarrow> be_bytes n (a * 256 ^ m + v) = be_bytes n v"
proof (induction n)
  case (Suc n)
  then obtain k where m: "m = n + Suc k" by (metis add_Suc_right less_eqE add_Suc)
  have "a * 256 ^ m = 256 ^ n * (a * 256 ^ Suc k)"
    by (simp add: m power_add mult_ac)
  then have "(a * 256 ^ m + v) div 256 ^ n = a * 256 ^ Suc k + v div 256 ^ n"
    by (simp only: div_mult_self4 [of "256 ^ n"] power_not_zero zero_neq_numeral not_False_eq_True)
  also have "a * 256 ^ Suc k = 256 * (a * 256 ^ k)" by simp
  finally have "((a * 256 ^ m + v) div 256 ^ n) mod 256 = (v div 256 ^ n) mod 256"
    by (simp only: mod_mult_self4)
  then have "(word_of_nat ((a * 256 ^ m + v) div 256 ^ n) :: byte) = word_of_nat (v div 256 ^ n)"
    by (rule byte_of_nat_cong)
  with Suc show ?case by simp
qed simp

lemma be_bytes_be_val: "be_bytes (length bs) (be_val bs) = bs"
proof (induction bs)
  case (Cons b bs)
  have "(unat b * 256 ^ length bs + be_val bs) div 256 ^ length bs = unat b"
    using be_val_less [of bs] by simp
  with Cons show ?case by (simp add: be_bytes_add_mult)
qed simp


section \<open>Words\<close>

lemma word_and_mask_unat:
  "unat (x AND (push_bit k 1 - 1)) = unat x mod 2 ^ k" for x :: "'a::len word"
proof -
  have "x AND (push_bit k 1 - 1) = take_bit k x"
    by (simp add: take_bit_eq_mask mask_eq_exp_minus_1 push_bit_eq_mult)
  then have "unat (x AND (push_bit k 1 - 1)) = take_bit k (unat x)"
    by (simp only: unsigned_take_bit_eq)
  then show ?thesis by (simp only: take_bit_eq_mod)
qed

lemma unat_take_bit: "unat (take_bit k x) = unat x mod 2 ^ k" for x :: "'a::len word"
proof -
  have "unat (take_bit k x) = take_bit k (unat x)" by (rule unsigned_take_bit_eq)
  then show ?thesis by (simp only: take_bit_eq_mod)
qed

lemma unat_drop_bit: "unat (drop_bit k x) = unat x div 2 ^ k" for x :: "'a::len word"
proof -
  have "unat (drop_bit k x) = drop_bit k (unat x)"
    by (simp only: unsigned_drop_bit_eq take_bit_nat_eq_self [OF unsigned_less])
  then show ?thesis by (simp only: drop_bit_eq_div)
qed

lemma word_0xFF_mask: "(0xFF :: 'a::len word) = mask 8"
  by (simp add: mask_eq_exp_minus_1)

lemma unat_and_0xFF: "unat (x AND 0xFF) = unat x mod 256" for x :: "'a::len word"
proof -
  have "x AND 0xFF = take_bit 8 x"
    by (simp only: take_bit_eq_mask word_0xFF_mask)
  then have "unat (x AND 0xFF) = take_bit 8 (unat x)"
    by (simp only: unsigned_take_bit_eq)
  then show ?thesis by (simp only: take_bit_eq_mod) simp
qed

lemma ucast_octet: "(ucast (drop_bit (8 * k) x AND 0xFF) :: byte) = word_of_nat (unat x div 256 ^ k)"
  for x :: "'a::len word"
proof -
  have "unat (drop_bit (8 * k) x AND 0xFF) = (unat x div 256 ^ k) mod 256"
    by (simp only: unat_and_0xFF unat_drop_bit power_mult) simp
  then show ?thesis
    by (simp add: word_eq_iff_unsigned [where ?'a = nat] unsigned_ucast_eq take_bit_eq_mod)
qed

lemma unat_ucast_octet: "unat (ucast (b :: byte) :: u64) = unat b"
proof -
  have "unat b < 2 ^ 64" by (rule less_le_trans [OF unat_byte_less]) simp
  then have "take_bit 64 (unat b) = unat b" by (rule take_bit_nat_eq_self)
  then show ?thesis by (simp add: unsigned_ucast_eq)
qed

lemma shift_or_nat: "b < 2 ^ n \<Longrightarrow> push_bit n a OR b = a * 2 ^ n + b" for a b :: nat
proof -
  assume "b < 2 ^ n"
  then have b: "take_bit n b = b" by (simp add: take_bit_nat_eq_self_iff)
  have "push_bit n a AND take_bit n b = 0"
    by (rule bit_eqI) (auto simp: bit_simps)
  then have "push_bit n a AND b = 0" by (simp only: b)
  then have "push_bit n a OR b = push_bit n a + b"
    by (rule disjunctive_add_eq_or [symmetric])
  then show ?thesis by (simp add: push_bit_eq_mult)
qed

text \<open>The shift-and-or step every big-endian accumulation loop of the code performs.\<close>

lemma unat_shift_or:
  fixes v :: "'a::len word" and b :: byte
  assumes "unat v < 2 ^ (LENGTH('a) - 8)" and "8 \<le> LENGTH('a)"
  shows "unat (push_bit 8 v OR ucast b) = unat v * 256 + unat b"
proof -
  have "(2::nat) ^ LENGTH('a) = 2 ^ (LENGTH('a) - 8) * 2 ^ 8"
    using assms(2) by (metis le_add_diff_inverse2 power_add)
  then have v: "unat v * 256 < 2 ^ LENGTH('a)" using assms(1) by simp
  have "(2::nat) ^ 8 \<le> 2 ^ LENGTH('a)" using assms(2) by (rule power_increasing) simp
  then have "(256::nat) \<le> 2 ^ LENGTH('a)" by (simp only: power_numeral_even power_numeral_odd) simp
  with unat_byte_less [of b] have b: "unat b < 2 ^ LENGTH('a)" by (rule less_le_trans)
  have "unat (push_bit 8 v) = push_bit 8 (unat v)"
    using v by (simp only: unsigned_push_bit_eq) (simp add: push_bit_eq_mult take_bit_nat_eq_self)
  moreover have "unat (ucast b :: 'a word) = unat b"
    using b by (simp add: unsigned_ucast_eq take_bit_nat_eq_self_iff)
  ultimately have "unat (push_bit 8 v OR ucast b) = push_bit 8 (unat v) OR unat b"
    by (simp only: unsigned_or_eq)
  then show ?thesis using shift_or_nat [of "unat b" 8 "unat v"] by simp
qed

lemma unat_accumulate:
  fixes v :: u64
  assumes "unat v * 256 ^ length bs + be_val bs < 2 ^ 64"
  shows "unat (foldl (\<lambda>v b. push_bit 8 v OR ucast b) v (bs :: octets))
    = unat v * 256 ^ length bs + be_val bs"
  using assms
proof (induction bs arbitrary: v)
  case (Cons b bs)
  have "unat v * 256 ^ 1 \<le> unat v * 256 ^ length (b # bs)"
    by (rule mult_left_mono, rule power_increasing) auto
  also have "\<dots> < 2 ^ 64" using Cons.prems by (rule add_lessD1)
  finally have step: "unat (push_bit 8 v OR ucast b) = unat v * 256 + unat b"
    by (intro unat_shift_or) auto
  have "(unat v * 256 + unat b) * 256 ^ length bs + be_val bs
      = unat v * 256 ^ length (b # bs) + be_val (b # bs)"
    by (simp add: algebra_simps)
  with Cons.IH [of "push_bit 8 v OR ucast b"] Cons.prems step show ?case by simp
qed simp

end
