(* ===== verification/Byte_Stream.thy ===== *)
theory Byte_Stream
  imports Prelude
begin

text \<open>
  The fixed-width integer readers and writers of \<open>moqlivecast/utils/byte_stream.hpp\<close>
  (class \<open>ByteStream\<close>), on a little-endian host: a reader assembles the octets of its result one
  by one, so it is the big-endian (or, for the \<open>Le\<close> variants, the little-endian) value of the
  octets read; \<open>None\<close> marks a read past the end of the octets at hand. Writers return the octets
  they store. The lemmas are the round trips of every width and the padding arithmetic.
\<close>

definition read_be :: "nat \<Rightarrow> octets \<Rightarrow> nat option" where
  "read_be n data = (if length data < n then None else Some (be_val (take n data)))"

definition read_le :: "nat \<Rightarrow> octets \<Rightarrow> nat option" where
  "read_le n data = (if length data < n then None else Some (be_val (rev (take n data))))"

definition Read8Bytes :: "octets \<Rightarrow> u64 option" where
  "Read8Bytes data = map_option word_of_nat (read_be 8 data)"

definition Read8BytesLe :: "octets \<Rightarrow> u64 option" where
  "Read8BytesLe data = map_option word_of_nat (read_le 8 data)"

definition Read4Bytes :: "octets \<Rightarrow> u32 option" where
  "Read4Bytes data = map_option word_of_nat (read_be 4 data)"

definition Read4BytesLe :: "octets \<Rightarrow> u32 option" where
  "Read4BytesLe data = map_option word_of_nat (read_le 4 data)"

definition Read3Bytes :: "octets \<Rightarrow> u32 option" where
  "Read3Bytes data = map_option word_of_nat (read_be 3 data)"

definition Read3BytesLe :: "octets \<Rightarrow> u32 option" where
  "Read3BytesLe data = map_option word_of_nat (read_le 3 data)"

definition Read2Bytes :: "octets \<Rightarrow> u16 option" where
  "Read2Bytes data = map_option word_of_nat (read_be 2 data)"

definition Read2BytesLe :: "octets \<Rightarrow> u16 option" where
  "Read2BytesLe data = map_option word_of_nat (read_le 2 data)"

definition Write8Bytes :: "u64 \<Rightarrow> octets" where
  "Write8Bytes value = be_bytes 8 (unat value)"

definition Write8Bytes_le :: "u64 \<Rightarrow> octets" where
  "Write8Bytes_le value = rev (be_bytes 8 (unat value))"

definition Write4Bytes :: "u32 \<Rightarrow> octets" where
  "Write4Bytes value = be_bytes 4 (unat value)"

definition Write2Bytes_le :: "u32 \<Rightarrow> octets" where
  "Write2Bytes_le value = rev (be_bytes 2 (unat value))"

definition Write4Bytes_le :: "u32 \<Rightarrow> octets" where
  "Write4Bytes_le value = rev (be_bytes 4 (unat value))"

definition Write3Bytes :: "u32 \<Rightarrow> octets" where
  "Write3Bytes value = be_bytes 3 (unat value)"

definition Write2Bytes :: "u16 \<Rightarrow> octets" where
  "Write2Bytes value = be_bytes 2 (unat value)"

text \<open>\<open>BytesIsEqual\<close> compares the first \<open>len\<close> characters of two arrays.\<close>

fun BytesIsEqual :: "octets \<Rightarrow> octets \<Rightarrow> nat \<Rightarrow> bool option" where
  "BytesIsEqual p1 p2 0 = Some True"
| "BytesIsEqual (a # p1) (b # p2) (Suc len) =
     (if a \<noteq> b then Some False else BytesIsEqual p1 p2 len)"
| "BytesIsEqual _ _ (Suc len) = None"

definition PadTo4Bytes16 :: "u16 \<Rightarrow> u16" where
  "PadTo4Bytes16 sz = (if sz AND 0x03 \<noteq> 0 then (sz AND 0xFFFC) + 4 else sz)"

definition PadTo4Bytes32 :: "u32 \<Rightarrow> u32" where
  "PadTo4Bytes32 sz = (if sz AND 0x03 \<noteq> 0 then (sz AND 0xFFFFFFFC) + 4 else sz)"

section \<open>Round trips\<close>

lemma read_be_bytes [wire]: "read_be n (be_bytes n v @ r) = Some (v mod 256 ^ n)"
  by (simp add: read_be_def be_val_be_bytes)

lemma read_le_bytes [wire]: "read_le n (rev (be_bytes n v) @ r) = Some (v mod 256 ^ n)"
  by (simp add: read_le_def be_val_be_bytes)

lemma read_be_None: "read_be n data = None \<longleftrightarrow> length data < n"
  by (simp add: read_be_def)

lemma Read2_Write2 [wire]: "Read2Bytes (Write2Bytes v @ r) = Some v"
  by (simp add: Read2Bytes_def Write2Bytes_def read_be_bytes
      mod_less [OF unsigned_less [of v, simplified]])

lemma Read3_Write3 [wire]:
  "Read3Bytes (Write3Bytes v @ r) = Some (word_of_nat (unat v mod 2 ^ 24))"
  by (simp add: Read3Bytes_def Write3Bytes_def read_be_bytes)

lemma Read4_Write4 [wire]: "Read4Bytes (Write4Bytes v @ r) = Some v"
  by (simp add: Read4Bytes_def Write4Bytes_def read_be_bytes
      mod_less [OF unsigned_less [of v, simplified]])

lemma Read8_Write8 [wire]: "Read8Bytes (Write8Bytes v @ r) = Some v"
  by (simp add: Read8Bytes_def Write8Bytes_def read_be_bytes
      mod_less [OF unsigned_less [of v, simplified]])

lemma Read4Le_Write4Le [wire]: "Read4BytesLe (Write4Bytes_le v @ r) = Some v"
  by (simp add: Read4BytesLe_def Write4Bytes_le_def read_le_bytes
      mod_less [OF unsigned_less [of v, simplified]])

lemma Read8Le_Write8Le [wire]: "Read8BytesLe (Write8Bytes_le v @ r) = Some v"
  by (simp add: Read8BytesLe_def Write8Bytes_le_def read_le_bytes
      mod_less [OF unsigned_less [of v, simplified]])

lemma length_writes [simp]:
  "length (Write2Bytes a) = 2" "length (Write3Bytes b) = 3" "length (Write4Bytes c) = 4"
  "length (Write8Bytes d) = 8" "length (Write2Bytes_le e) = 2" "length (Write4Bytes_le f) = 4"
  "length (Write8Bytes_le g) = 8"
  by (simp_all add: Write2Bytes_def Write3Bytes_def Write4Bytes_def Write8Bytes_def
      Write2Bytes_le_def Write4Bytes_le_def Write8Bytes_le_def)

lemma BytesIsEqual_iff:
  "len \<le> length p1 \<Longrightarrow> len \<le> length p2 \<Longrightarrow>
    BytesIsEqual p1 p2 len = Some (take len p1 = take len p2)"
  by (induction p1 p2 len rule: BytesIsEqual.induct) auto

text \<open>
  Every integer the byte-stream writers store is read back by the reader of the same width
  and byte order, whatever octets follow; the three-octet pair keeps the low 24 bits.
\<close>

theorem byte_stream_round_trip:
  "Read2Bytes (Write2Bytes a @ r) = Some a \<and>
   Read3Bytes (Write3Bytes b @ r) = Some (b AND 0xFFFFFF) \<and>
   Read4Bytes (Write4Bytes b @ r) = Some b \<and>
   Read8Bytes (Write8Bytes c @ r) = Some c \<and>
   Read4BytesLe (Write4Bytes_le b @ r) = Some b \<and>
   Read8BytesLe (Write8Bytes_le c @ r) = Some c \<and>
   Read2BytesLe (Write2Bytes_le b @ r) = Some (ucast b)"
proof -
  have "word_of_nat (unat b mod 2 ^ 24) = b AND 0xFFFFFF"
    using word_and_mask_unat [of b 24]
    by (simp add: word_eq_iff_unsigned [where ?'a = nat] unat_of_nat)
  moreover have "Read2BytesLe (Write2Bytes_le b @ r) = Some (ucast b)"
    by (simp add: Read2BytesLe_def Write2Bytes_le_def read_le_bytes
        word_eq_iff_unsigned [where ?'a = nat] unat_of_nat unsigned_ucast_eq take_bit_eq_mod)
  ultimately show ?thesis by (simp add: wire)
qed

end
