(* ===== verification/Moq_Varint.thy ===== *)
theory Moq_Varint
  imports Prelude
begin

text \<open>
  The variable-length integers of MOQT, \<open>moqlivecast/moq/moq_varint.hpp\<close>: the number of leading
  one bits of the first octet gives the length (1 to 9 octets). A reader takes the buffer and an
  offset and returns the value, the new offset and the \<open>non_minimal\<close> hint, or \<open>None\<close> where the
  octets do not suffice (the offset is then left alone). Lemmas: the two loops compute what the
  layout says, the round trip, minimality of the writer, and that a reader never changes its mind
  when more octets arrive.
\<close>

function lead_ones :: "byte \<Rightarrow> nat \<Rightarrow> nat" where
  "lead_ones first lead =
     (if lead < 8 \<and> first AND drop_bit lead 0x80 \<noteq> 0 then lead_ones first (Suc lead) else lead)"
  by pat_completeness auto
termination by (relation "measure (\<lambda>(first, lead). 8 - lead)") auto

declare lead_ones.simps [simp del]

definition MoqReadVi64 :: "octets \<Rightarrow> nat \<Rightarrow> (u64 \<times> nat \<times> bool) option" where
  "MoqReadVi64 p off =
     (if off \<ge> length p then None
      else let first = p ! off; n = lead_ones first 0 + 1 in
        if off + n > length p then None
        else let v0 = (if n \<le> 8 then ucast first AND (push_bit (8 - n) 1 - 1) else 0 :: u64);
                 v = foldl (\<lambda>v b. push_bit 8 v OR ucast b) v0 (take (n - 1) (drop (off + 1) p))
             in Some (v, off + n, n \<ge> 2 \<and> v < push_bit (7 * (n - 1)) 1))"

function vi64_len :: "u64 \<Rightarrow> nat \<Rightarrow> nat" where
  "vi64_len v n = (if n \<le> 8 \<and> v \<ge> push_bit (7 * n) 1 then vi64_len v (Suc n) else n)"
  by pat_completeness auto
termination by (relation "measure (\<lambda>(v, n). 9 - n)") auto

declare vi64_len.simps [simp del]

definition MoqAppendVi64 :: "octets \<Rightarrow> u64 \<Rightarrow> octets" where
  "MoqAppendVi64 o0 v =
     (let n = vi64_len v 1;
          head = (if n \<le> 8
                  then let lead = n - 1;
                           mask = (if lead = 0 then 0 else ucast (push_bit (8 - lead) (0xFF :: u32)))
                       in mask OR ucast (drop_bit (8 * (n - 1)) v AND (push_bit (8 - n) 1 - 1))
                  else 0xFF :: byte)
      in o0 @ head # map (\<lambda>i. ucast (drop_bit (8 * (n - 1 - i)) v AND 0xFF)) [1..<n])"

definition MoqReadU16 :: "octets \<Rightarrow> nat \<Rightarrow> (u16 \<times> nat) option" where
  "MoqReadU16 p off =
     (if off + 2 > length p then None
      else Some (push_bit 8 (ucast (p ! off)) OR ucast (p ! (off + 1)), off + 2))"

definition MoqAppendU16 :: "octets \<Rightarrow> u16 \<Rightarrow> octets" where
  "MoqAppendU16 o0 v = o0 @ [ucast (drop_bit 8 v), ucast (v AND 0xFF)]"

definition MoqAppendBytes :: "octets \<Rightarrow> octets \<Rightarrow> octets" where
  "MoqAppendBytes o0 p = (if p = [] then o0 else o0 @ p)"

section \<open>The loops\<close>

lemma lead_ones_eq_aux:
  "j \<le> k \<Longrightarrow> k \<le> 8 \<Longrightarrow> (\<forall>i. j \<le> i \<longrightarrow> i < k \<longrightarrow> bit b (7 - i)) \<Longrightarrow> (k < 8 \<longrightarrow> \<not> bit b (7 - k))
    \<Longrightarrow> lead_ones b j = k"
proof (induction b j rule: lead_ones.induct)
  case (1 b j)
  have test: "b AND drop_bit j 0x80 \<noteq> 0 \<longleftrightarrow> bit b (7 - j)" if "j < 8"
  proof -
    have "j = 0 \<or> j = 1 \<or> j = 2 \<or> j = 3 \<or> j = 4 \<or> j = 5 \<or> j = 6 \<or> j = 7"
      using that by arith
    then have "drop_bit j (0x80 :: byte) = push_bit (7 - j) 1" by (elim disjE) simp_all
    then show ?thesis by (simp add: bit_iff_and_push_bit_not_eq_0)
  qed
  show ?case
  proof (cases "j < k")
    case True
    with 1 test show ?thesis by (subst lead_ones.simps) auto
  next
    case False
    with 1 test show ?thesis by (subst lead_ones.simps) auto
  qed
qed

lemma lead_ones_eq:
  "k \<le> 8 \<Longrightarrow> (\<forall>i<k. bit b (7 - i)) \<Longrightarrow> (k < 8 \<longrightarrow> \<not> bit b (7 - k)) \<Longrightarrow> lead_ones b 0 = k"
  by (rule lead_ones_eq_aux) auto

lemma lead_ones_le: "j \<le> 8 \<Longrightarrow> lead_ones b j \<le> 8"
  by (induction b j rule: lead_ones.induct) (subst lead_ones.simps, auto)

lemma unat_push_1: "k < 64 \<Longrightarrow> unat (push_bit k 1 :: u64) = 2 ^ k"
  by (simp only: unsigned_push_bit_eq) (simp add: take_bit_nat_eq_self)

lemma vi64_len_spec:
  assumes "1 \<le> n" "n \<le> 9" "n \<ge> 2 \<longrightarrow> 2 ^ (7 * (n - 1)) \<le> unat v"
  shows "n \<le> vi64_len v n \<and> vi64_len v n \<le> 9
    \<and> (vi64_len v n \<le> 8 \<longrightarrow> unat v < 2 ^ (7 * vi64_len v n))
    \<and> (vi64_len v n \<ge> 2 \<longrightarrow> 2 ^ (7 * (vi64_len v n - 1)) \<le> unat v)"
  using assms
proof (induction v n rule: vi64_len.induct)
  case (1 v n)
  have test: "v \<ge> push_bit (7 * n) 1 \<longleftrightarrow> 2 ^ (7 * n) \<le> unat v" if "n \<le> 8"
    using that unat_push_1 [of "7 * n"] by (simp add: word_le_nat_alt)
  show ?case
  proof (cases "n \<le> 8 \<and> v \<ge> push_bit (7 * n) 1")
    case True
    with "1.IH" test show ?thesis by (subst (1 2 3 4 5 6) vi64_len.simps) auto
  next
    case False
    then have "vi64_len v n = n" by (subst vi64_len.simps) auto
    with False test "1.prems" show ?thesis by auto
  qed
qed

section \<open>The octets of the writer\<close>

definition vi64_head :: "u64 \<Rightarrow> nat \<Rightarrow> byte" where
  "vi64_head v n =
     (let lead = n - 1;
          mask = (if lead = 0 then 0 else ucast (push_bit (8 - lead) (0xFF :: u32)))
      in mask OR ucast (drop_bit (8 * (n - 1)) v AND (push_bit (8 - n) 1 - 1)))"

lemma bit_0xFF: "bit (0xFF :: u32) k \<longleftrightarrow> k < 8"
  by (simp only: word_0xFF_mask bit_mask_iff) auto

lemma bit_vi64_head:
  assumes "1 \<le> n" "n \<le> 8"
  shows "bit (vi64_head v n) i \<longleftrightarrow> i < 8 \<and> (9 - n \<le> i \<or> i < 8 - n \<and> bit v (8 * (n - 1) + i))"
proof -
  have "push_bit (8 - n) 1 - 1 = (mask (8 - n) :: u64)"
    by (simp add: mask_eq_exp_minus_1)
  then have x: "bit (ucast (drop_bit (8 * (n - 1)) v AND (push_bit (8 - n) 1 - 1)) :: byte) i
      \<longleftrightarrow> i < 8 \<and> i < 8 - n \<and> bit v (8 * (n - 1) + i)"
    by (simp only: bit_simps) auto
  have m: "bit (ucast (push_bit (8 - (n - 1)) (0xFF :: u32)) :: byte) i \<longleftrightarrow> i < 8 \<and> 9 - n \<le> i"
    using assms by (simp only: bit_simps bit_0xFF) auto
  show ?thesis
  proof (cases "n = 1")
    case True
    then have "vi64_head v n = ucast (drop_bit (8 * (n - 1)) v AND (push_bit (8 - n) 1 - 1))"
      by (simp add: vi64_head_def)
    with x True show ?thesis by auto
  next
    case False
    then have "\<not> n - 1 = 0" using assms by simp
    then show ?thesis
      using x m by (simp only: vi64_head_def Let_def if_False bit_or_iff) auto
  qed
qed

lemma lead_ones_vi64_head: "1 \<le> n \<Longrightarrow> n \<le> 8 \<Longrightarrow> lead_ones (vi64_head v n) 0 = n - 1"
  by (rule lead_ones_eq) (auto simp: bit_vi64_head)

lemma unat_vi64_head_mod:
  assumes "1 \<le> n" "n \<le> 8" "unat v < 2 ^ (7 * n)"
  shows "unat (vi64_head v n) mod 2 ^ (8 - n) = unat v div 256 ^ (n - 1)"
proof -
  have "take_bit (8 - n) (vi64_head v n) = ucast (take_bit (8 - n) (drop_bit (8 * (n - 1)) v))"
    using assms(1,2) by (intro bit_eqI) (auto simp: bit_simps bit_vi64_head)
  then have "unat (take_bit (8 - n) (vi64_head v n))
      = unat (ucast (take_bit (8 - n) (drop_bit (8 * (n - 1)) v)) :: byte)" by simp
  then have e: "unat (vi64_head v n) mod 2 ^ (8 - n)
      = take_bit 8 (take_bit (8 - n) (unat v div 2 ^ (8 * (n - 1))))"
    by (simp only: unsigned_take_bit_eq unsigned_ucast_eq unat_drop_bit flip: take_bit_eq_mod) simp
  have "(2::nat) ^ (7 * n) = 2 ^ (8 - n) * 2 ^ (8 * (n - 1))"
    using assms by (simp add: mult.commute flip: power_add)
  with assms have "unat v div 2 ^ (8 * (n - 1)) < 2 ^ (8 - n)"
    by (simp add: less_mult_imp_div_less)
  then have "take_bit (8 - n) (unat v div 2 ^ (8 * (n - 1))) = unat v div 2 ^ (8 * (n - 1))"
    by (rule take_bit_nat_eq_self)
  moreover have "unat v div 2 ^ (8 * (n - 1)) < 2 ^ 8"
    using \<open>unat v div 2 ^ (8 * (n - 1)) < 2 ^ (8 - n)\<close>
    by (rule less_le_trans) (rule power_increasing, auto)
  ultimately show ?thesis
    using e by (simp add: take_bit_nat_eq_self power_mult)
qed

lemma vi64_tail:
  "map (\<lambda>i. ucast (drop_bit (8 * (n - 1 - i)) v AND 0xFF)) [1..<n] = be_bytes (n - 1) (unat v)"
proof (induction n)
  case (Suc n)
  have "map (\<lambda>i. ucast (drop_bit (8 * (Suc n - 1 - i)) v AND 0xFF)) [1..<Suc n]
      = map (\<lambda>j. word_of_nat (unat v div 256 ^ (n - j)) :: byte) [1..<Suc n]"
    by (simp add: ucast_octet)
  also have "\<dots> = be_bytes n (unat v)"
  proof (induction n)
    case (Suc n)
    have "map (\<lambda>j. word_of_nat (unat v div 256 ^ (Suc n - j)) :: byte) [1..<Suc (Suc n)]
        = word_of_nat (unat v div 256 ^ n)
          # map (\<lambda>j. word_of_nat (unat v div 256 ^ (Suc n - j))) (map Suc [1..<Suc n])"
      by (simp only: upt_conv_Cons map_Suc_upt) simp
    also have "\<dots> = be_bytes (Suc n) (unat v)"
      using Suc by (simp del: upt_Suc add: comp_def)
    finally show ?case .
  qed simp
  finally show ?case by simp
qed simp

lemma MoqAppendVi64_octets:
  "MoqAppendVi64 o0 v = (let n = vi64_len v 1 in
     o0 @ (if n \<le> 8 then vi64_head v n else 0xFF) # be_bytes (n - 1) (unat v))"
  by (simp only: MoqAppendVi64_def vi64_head_def Let_def vi64_tail)

section \<open>What the reader returns\<close>

definition vi64_val :: "nat \<Rightarrow> byte \<Rightarrow> octets \<Rightarrow> nat" where
  "vi64_val n first rest =
     (if n \<le> 8 then unat first mod 2 ^ (8 - n) else 0) * 256 ^ (n - 1) + be_val rest"

lemma vi64_val_less:
  assumes "1 \<le> n" "n \<le> 9" "length rest = n - 1"
  shows "vi64_val n first rest < (if n \<le> 8 then 2 ^ (7 * n) else 2 ^ 64)"
proof (cases "n \<le> 8")
  case True
  let ?h = "unat first mod 2 ^ (8 - n)"
  have "?h * 256 ^ (n - 1) + be_val rest < Suc ?h * 256 ^ (n - 1)"
    using be_val_less [of rest] assms(3) by simp
  also have "\<dots> \<le> 2 ^ (8 - n) * 256 ^ (n - 1)"
    by (intro mult_right_mono) (simp_all add: Suc_le_eq)
  also have "\<dots> = 2 ^ (8 - n) * 2 ^ (8 * (n - 1))" by (simp add: power_mult)
  also have "\<dots> = 2 ^ (7 * n)" using True assms(1) by (simp flip: power_add)
  finally show ?thesis using True by (simp add: vi64_val_def)
next
  case False
  then have "n = 9" using assms by simp
  then show ?thesis using be_val_less [of rest] assms(3) by (simp add: vi64_val_def)
qed

lemma MoqReadVi64_Some:
  "MoqReadVi64 p off = Some (v, off', nm) \<longleftrightarrow>
    (let n = lead_ones (p ! off) 0 + 1 in
      off + n \<le> length p \<and> off' = off + n \<and>
      unat v = vi64_val n (p ! off) (take (n - 1) (drop (off + 1) p)) \<and>
      nm = (2 \<le> n \<and> unat v < 2 ^ (7 * (n - 1))))"
proof -
  define n where "n = lead_ones (p ! off) 0 + 1"
  define rest where "rest = take (n - 1) (drop (off + 1) p)"
  define v0 :: u64 where
    "v0 = (if n \<le> 8 then ucast (p ! off) AND (push_bit (8 - n) 1 - 1) else 0)"
  define w where "w = foldl (\<lambda>v b. push_bit 8 v OR ucast b) v0 rest"
  have n: "1 \<le> n" "n \<le> 9" using lead_ones_le [of 0 "p ! off"] by (simp_all add: n_def)
  have v0: "unat v0 = (if n \<le> 8 then unat (p ! off) mod 2 ^ (8 - n) else 0)"
    by (simp only: v0_def word_and_mask_unat unat_ucast_octet split: if_split) simp
  have eq: "MoqReadVi64 p off = (if off + n > length p then None
      else Some (w, off + n, n \<ge> 2 \<and> w < push_bit (7 * (n - 1)) 1))"
    using n by (auto simp only: MoqReadVi64_def Let_def n_def v0_def w_def rest_def) auto
  have w: "unat w = vi64_val n (p ! off) rest" if "off + n \<le> length p"
  proof -
    have len: "length rest = n - 1" using that by (simp add: rest_def)
    have "(2::nat) ^ (7 * n) \<le> 2 ^ 64" if "n \<le> 8"
      using that by (intro power_increasing) auto
    then have "vi64_val n (p ! off) rest < 2 ^ 64"
      using vi64_val_less [OF n len, of "p ! off"] by (cases "n \<le> 8") (auto intro: less_le_trans)
    then show ?thesis
      unfolding w_def vi64_val_def using unat_accumulate [of v0 rest] v0 len by simp
  qed
  have lim: "w < push_bit (7 * (n - 1)) 1 \<longleftrightarrow> unat w < 2 ^ (7 * (n - 1))"
    using n unat_push_1 [of "7 * (n - 1)"] by (simp add: word_less_nat_alt)
  show ?thesis
  proof (cases "off + n \<le> length p")
    case True
    have "v = w \<longleftrightarrow> unat v = unat w" by (simp add: word_eq_iff_unsigned [where ?'a = nat])
    with True w lim show ?thesis
      unfolding eq Let_def n_def [symmetric] rest_def [symmetric] by auto
  next
    case False
    then show ?thesis unfolding eq Let_def n_def [symmetric] by simp
  qed
qed

section \<open>Properties\<close>

lemma MoqAppendVi64_append: "MoqAppendVi64 o0 v = o0 @ MoqAppendVi64 [] v"
  by (simp add: MoqAppendVi64_octets Let_def)

lemma length_MoqAppendVi64 [simp]: "length (MoqAppendVi64 o0 v) = length o0 + vi64_len v 1"
  using vi64_len_spec [of 1 v] by (simp add: MoqAppendVi64_octets Let_def)

text \<open>
  C28. Whatever the buffer held before and whatever follows, the reader positioned at the start of
  an appended vi64 returns exactly the appended value, steps over exactly the octets written and
  does not report a non-minimal form. This holds for every 64-bit value.
\<close>

theorem vi64_round_trip:
  "MoqReadVi64 (MoqAppendVi64 pre v @ post) (length pre)
    = Some (v, length (MoqAppendVi64 pre v), False)"
proof -
  define n where "n = vi64_len v 1"
  have n: "1 \<le> n" "n \<le> 9" "n \<le> 8 \<Longrightarrow> unat v < 2 ^ (7 * n)"
      "2 \<le> n \<Longrightarrow> 2 ^ (7 * (n - 1)) \<le> unat v"
    using vi64_len_spec [of 1 v] by (simp_all add: n_def)
  define h where "h = (if n \<le> 8 then vi64_head v n else 0xFF)"
  let ?p = "pre @ h # be_bytes (n - 1) (unat v) @ post"
  have p: "MoqAppendVi64 pre v @ post = ?p" by (simp add: MoqAppendVi64_octets h_def n_def Let_def)
  have lead: "lead_ones h 0 + 1 = n"
  proof (cases "n \<le> 8")
    case True
    with n show ?thesis by (simp add: h_def lead_ones_vi64_head)
  next
    case False
    have "bit (0xFF :: byte) (7 - i)" if "i < 8" for i
      using that by (simp only: word_0xFF_mask bit_mask_iff) simp
    then have "lead_ones 0xFF 0 = 8" by (intro lead_ones_eq) auto
    with False n show ?thesis by (simp add: h_def)
  qed
  have val: "vi64_val n h (be_bytes (n - 1) (unat v)) = unat v"
  proof (cases "n \<le> 8")
    case True
    with n have "unat h mod 2 ^ (8 - n) = unat v div 256 ^ (n - 1)"
      by (simp only: h_def if_True unat_vi64_head_mod)
    with True show ?thesis by (simp add: vi64_val_def be_val_be_bytes div_mult_mod_eq)
  next
    case False
    with n have "n = 9" by simp
    then show ?thesis
      using unat_u64_less [of v] by (simp add: vi64_val_def be_val_be_bytes)
  qed
  have "MoqReadVi64 ?p (length pre) = Some (v, length pre + n, False)"
    unfolding MoqReadVi64_Some Let_def
    using lead val n by (auto simp: nth_append)
  then show ?thesis by (simp add: p n_def)
qed

text \<open>
  The writer is minimal and the \<open>non_minimal\<close> hint is exact: whatever octets a value was
  read from, the writer needs no more of them, and the hint is set exactly when it needs fewer.
\<close>

theorem vi64_minimal:
  assumes "MoqReadVi64 p off = Some (v, off', nm)"
  shows "length (MoqAppendVi64 [] v) \<le> off' - off \<and>
    (nm \<longleftrightarrow> length (MoqAppendVi64 [] v) < off' - off)"
proof -
  define n where "n = lead_ones (p ! off) 0 + 1"
  have n: "1 \<le> n" "n \<le> 9" using lead_ones_le [of 0 "p ! off"] by (simp_all add: n_def)
  from assms have r: "off + n \<le> length p" "off' = off + n"
      "unat v = vi64_val n (p ! off) (take (n - 1) (drop (off + 1) p))"
      "nm = (2 \<le> n \<and> unat v < 2 ^ (7 * (n - 1)))"
    by (simp_all add: MoqReadVi64_Some Let_def n_def)
  define m where "m = vi64_len v 1"
  have m: "1 \<le> m" "m \<le> 9" "m \<le> 8 \<Longrightarrow> unat v < 2 ^ (7 * m)"
      "2 \<le> m \<Longrightarrow> 2 ^ (7 * (m - 1)) \<le> unat v"
    using vi64_len_spec [of 1 v] by (simp_all add: m_def)
  have up: "m \<le> k" if "unat v < 2 ^ (7 * k)" "1 \<le> k" for k
  proof (rule ccontr)
    assume "\<not> m \<le> k"
    then have "(2::nat) ^ (7 * k) \<le> 2 ^ (7 * (m - 1))" "2 \<le> m"
      using that by (auto intro: power_increasing)
    with m(4) that show False by linarith
  qed
  have "length (take (n - 1) (drop (off + 1) p)) = n - 1" using r by simp
  from vi64_val_less [OF n this, of "p ! off"] have "n \<le> 8 \<Longrightarrow> unat v < 2 ^ (7 * n)"
    by (simp add: r)
  then have le: "m \<le> n" using up n m by (cases "n \<le> 8") auto
  have "nm \<longleftrightarrow> m < n"
  proof
    assume nm
    then have "2 \<le> n" "m \<le> n - 1" using r up [of "n - 1"] by auto
    then show "m < n" by linarith
  next
    assume "m < n"
    then have "m \<le> 8" "m \<le> n - 1" "2 \<le> n" using n m by auto
    then have "unat v < 2 ^ (7 * m)" "(2::nat) ^ (7 * m) \<le> 2 ^ (7 * (n - 1))"
      using m by (auto intro: power_increasing)
    then show nm using r \<open>2 \<le> n\<close> by linarith
  qed
  with le show ?thesis by (simp add: r m_def)
qed

theorem vi64_minimal_witness:
  "length (MoqAppendVi64 [] 0) \<le> 2 - 0 \<and> (True \<longleftrightarrow> length (MoqAppendVi64 [] 0) < 2 - 0)"
proof -
  have "lead_ones 0x80 0 = 1"
    by (rule lead_ones_eq) simp_all
  then have "MoqReadVi64 [0x80, 0x00] 0 = Some (0, 2, True)"
    by (simp add: MoqReadVi64_Some vi64_val_def)
  then show ?thesis by (rule vi64_minimal)
qed

text \<open>
  The reader is safe on a stream that arrives in pieces: a value read from the octets so far
  is the value read when more have arrived, and a failure only ever means that octets are missing
  (some continuation makes the read succeed).
\<close>

theorem vi64_incremental:
  "(\<forall>r. MoqReadVi64 p off = Some r \<longrightarrow> MoqReadVi64 (p @ q) off = Some r) \<and>
   (off \<le> length p \<longrightarrow> MoqReadVi64 p off = None \<longrightarrow> (\<exists>q r. MoqReadVi64 (p @ q) off = Some r))"
proof (intro conjI allI impI)
  fix r
  assume r: "MoqReadVi64 p off = Some r"
  obtain v off' nm where [simp]: "r = (v, off', nm)" by (cases r)
  from r have "off < length p" by (auto simp: MoqReadVi64_def split: if_splits)
  with r show "MoqReadVi64 (p @ q) off = Some r"
    by (auto simp: MoqReadVi64_Some Let_def nth_append)
next
  assume "off \<le> length p" "MoqReadVi64 p off = None"
  let ?p = "p @ replicate 9 0"
  have "off < length ?p" using \<open>off \<le> length p\<close> by simp
  have "off + (lead_ones (?p ! off) 0 + 1) \<le> length ?p"
    using lead_ones_le [of 0 "?p ! off"] \<open>off \<le> length p\<close> by simp
  with \<open>off < length ?p\<close> have "\<exists>r. MoqReadVi64 ?p off = Some r"
    by (auto simp: MoqReadVi64_def Let_def)
  then show "\<exists>q r. MoqReadVi64 (p @ q) off = Some r" by blast
qed

theorem vi64_incremental_witness:
  "MoqReadVi64 ([0x2A] @ [0x01]) 0 = Some (42, 1, False) \<and>
   (\<exists>q r. MoqReadVi64 ([0xC0] @ q) 0 = Some r)"
proof -
  have "lead_ones 0x2A 0 = 0" by (rule lead_ones_eq) simp_all
  then have a: "MoqReadVi64 [0x2A] 0 = Some (42, 1, False)"
    by (simp add: MoqReadVi64_Some vi64_val_def)
  have "lead_ones 0xC0 0 = 2"
    by (rule lead_ones_eq) (auto simp: less_Suc_eq numeral_eq_Suc)
  then have b: "MoqReadVi64 [0xC0] 0 = None" by (simp add: MoqReadVi64_def)
  show ?thesis
    using a b vi64_incremental [of "[0x2A]" 0 "[0x01]"] vi64_incremental [of "[0xC0]" 0] by simp
qed

text \<open>
  The fixed two-octet field used as message length round-trips as well: reading back an
  appended value returns it and steps over two octets.
\<close>

theorem moq_u16_round_trip:
  "MoqReadU16 (MoqAppendU16 pre v @ post) (length pre) = Some (v, length pre + 2)"
proof -
  have "push_bit 8 (ucast (ucast (drop_bit 8 v) :: byte)) OR ucast (ucast (v AND 0xFF) :: byte) = v"
    by (rule bit_eqI) (auto simp: bit_simps word_0xFF_mask)
  then show ?thesis by (simp add: MoqReadU16_def MoqAppendU16_def nth_append)
qed

end
