(* ===== verification/Moq_Lite_Wire.thy ===== *)
theory Moq_Lite_Wire
  imports Prelude
begin

text \<open>
  The wire helpers of moq-lite, \<open>moqlivecast/moq/moq_lite_wire.hpp\<close>, on top of the QUIC variable-length
  integers of \<open>quic/quic_packet.c\<close>. Writers take the output vector and return it with the C++
  result flag (a failing writer leaves what it had appended so far); readers take the buffer, its
  length bound and the offset. Lemmas: the integer, zigzag, string, message and frame round trips,
  the exact truncation the range guard prevents, and the three-way status of the message reader.
\<close>

section \<open>QUIC variable-length integers\<close>

definition quic_varint_len :: "u64 \<Rightarrow> nat" where
  "quic_varint_len v =
     (if v \<le> 63 then 1 else if v \<le> 16383 then 2 else if v \<le> 1073741823 then 4 else 8)"

definition quic_varint_encode :: "nat \<Rightarrow> u64 \<Rightarrow> octets option" where
  "quic_varint_encode cap v =
     (let len = quic_varint_len v in
      if cap < len then None
      else let tag = (if len = 1 then 0 else if len = 2 then 0x40 else if len = 4 then 0x80 else 0xC0)
           in case be_bytes len (unat v) of b # bs \<Rightarrow> Some ((b OR tag) # bs) | [] \<Rightarrow> Some [])"

definition quic_varint_decode :: "octets \<Rightarrow> (u64 \<times> nat) option" where
  "quic_varint_decode data =
     (case data of [] \<Rightarrow> None
      | first # rest \<Rightarrow>
          let vlen = 2 ^ unat (drop_bit 6 first AND 0x3) in
          if length data < vlen then None
          else Some (word_of_nat (be_val ((if vlen = 1 then first else first AND 0x3F)
                                          # take (vlen - 1) rest)), vlen))"

section \<open>Integers\<close>

definition kMlVarintMax :: u64 where "kMlVarintMax = push_bit 62 1 - 1"

definition MlWriteVarint :: "octets \<Rightarrow> u64 \<Rightarrow> octets \<times> bool" where
  "MlWriteVarint out v =
     (if v > kMlVarintMax then (out, False)
      else case quic_varint_encode 8 v of None \<Rightarrow> (out, False) | Some tmp \<Rightarrow> (out @ tmp, True))"

definition MlAppendVarint :: "octets \<Rightarrow> u64 \<Rightarrow> octets" where
  "MlAppendVarint out v = fst (MlWriteVarint out v)"

definition MlReadVarint :: "octets \<Rightarrow> nat \<Rightarrow> nat \<Rightarrow> (u64 \<times> nat) option" where
  "MlReadVarint p len off =
     (if off \<ge> len then None
      else case quic_varint_decode (take (len - off) (drop off p)) of
             None \<Rightarrow> None | Some (v, n) \<Rightarrow> Some (v, off + n))"

definition MlSkipVarint :: "octets \<Rightarrow> nat \<Rightarrow> nat \<Rightarrow> nat option" where
  "MlSkipVarint p len off = map_option snd (MlReadVarint p len off)"

definition MlVarintLen :: "u64 \<Rightarrow> nat" where "MlVarintLen v = quic_varint_len v"

section \<open>Messages\<close>

definition kMlMaxMessageSize :: u64 where "kMlMaxMessageSize = 64 * 1024 * 1024"

datatype ml_msg_status = kMlMsgOk nat nat | kMlMsgNeedMore | kMlMsgTooLarge

text \<open>\<open>kMlMsgOk off body_len\<close> carries the two out-parameters of the C++ function.\<close>

definition MlReadMessage :: "octets \<Rightarrow> nat \<Rightarrow> nat \<Rightarrow> ml_msg_status" where
  "MlReadMessage p len off =
     (case MlReadVarint p len off of
        None \<Rightarrow> kMlMsgNeedMore
      | Some (n, o1) \<Rightarrow>
          if n > kMlMaxMessageSize then kMlMsgTooLarge
          else if unat n > len - o1 then kMlMsgNeedMore
          else kMlMsgOk o1 (unat n))"

definition MlBuildMessage :: "octets \<Rightarrow> bool \<Rightarrow> u64 \<Rightarrow> octets \<Rightarrow> octets \<times> bool" where
  "MlBuildMessage out typed type body =
     (let (out1, ok) = (if typed then MlWriteVarint out type else (out, True)) in
      if \<not> ok then (out1, False)
      else let (out2, ok2) = MlWriteVarint out1 (word_of_nat (length body)) in
           if \<not> ok2 then (out2, False) else (out2 @ body, True))"

section \<open>Zigzag and strings\<close>

definition kMlZigzagMin :: int where "kMlZigzagMin = - (2 ^ 61)"
definition kMlZigzagMax :: int where "kMlZigzagMax = 2 ^ 61 - 1"

definition MlZigzagEncode :: "u64 \<Rightarrow> u64 option" where
  "MlZigzagEncode v =
     (if sint v < kMlZigzagMin \<or> sint v > kMlZigzagMax then None
      else Some (push_bit 1 v XOR signed_drop_bit 63 v))"

definition MlZigzagDecode :: "u64 \<Rightarrow> u64" where
  "MlZigzagDecode v = drop_bit 1 v XOR (- (v AND 1))"

definition MlWriteString :: "octets \<Rightarrow> octets \<Rightarrow> octets \<times> bool" where
  "MlWriteString out s =
     (let (out1, ok) = MlWriteVarint out (word_of_nat (length s)) in
      if \<not> ok then (out1, False) else (out1 @ s, True))"

text \<open>
  \<open>MlReadString\<close> moves the offset past the length even when the string itself is not complete:
  the result carries the offset in both cases.
\<close>

definition MlReadString :: "octets \<Rightarrow> nat \<Rightarrow> nat \<Rightarrow> octets option \<times> nat" where
  "MlReadString p len off =
     (case MlReadVarint p len off of
        None \<Rightarrow> (None, off)
      | Some (n, o1) \<Rightarrow>
          if unat n > len - o1 then (None, o1)
          else (Some (take (unat n) (drop o1 p)), o1 + unat n))"

section \<open>Messages of the publisher role\<close>

text \<open>A run of \<open>if (!MlWriteVarint(body, x)) return false;\<close> lines.\<close>

fun write_varints :: "octets \<Rightarrow> u64 list \<Rightarrow> octets option" where
  "write_varints body [] = Some body"
| "write_varints body (x # xs) =
     (case MlWriteVarint body x of (b, True) \<Rightarrow> write_varints b xs | (b, False) \<Rightarrow> None)"

definition MlBuildTrackInfo :: "octets \<Rightarrow> byte \<Rightarrow> u64 \<Rightarrow> u64 \<Rightarrow> octets \<times> bool" where
  "MlBuildTrackInfo out priority max_age_ms timescale =
     (case write_varints [priority] [max_age_ms, timescale] of
        None \<Rightarrow> (out, False) | Some body \<Rightarrow> MlBuildMessage out False 0 body)"

definition MlBuildAnnounceOk :: "octets \<Rightarrow> u64 \<Rightarrow> u64 \<Rightarrow> octets \<times> bool" where
  "MlBuildAnnounceOk out origin active =
     (case write_varints [] [origin, active] of
        None \<Rightarrow> (out, False) | Some body \<Rightarrow> MlBuildMessage out False 0 body)"

definition MlAppendAnnounceStart :: "octets \<Rightarrow> octets \<Rightarrow> u64 \<Rightarrow> u64 \<Rightarrow> octets \<times> bool" where
  "MlAppendAnnounceStart out suffix warm cold =
     (case MlWriteString [] suffix of
        (_, False) \<Rightarrow> (out, False)
      | (body, True) \<Rightarrow>
          (case write_varints body [0, warm, cold] of
             None \<Rightarrow> (out, False) | Some b \<Rightarrow> MlBuildMessage out True 0 b))"

definition MlAppendAnnounceEnd :: "octets \<Rightarrow> u64 \<Rightarrow> octets \<times> bool" where
  "MlAppendAnnounceEnd out i =
     (case write_varints [] [i] of
        None \<Rightarrow> (out, False) | Some body \<Rightarrow> MlBuildMessage out True 1 body)"

definition MlBuildSubscribeStart :: "octets \<Rightarrow> u64 \<Rightarrow> octets \<times> bool" where
  "MlBuildSubscribeStart out grp =
     (case write_varints [] [grp] of
        None \<Rightarrow> (out, False) | Some body \<Rightarrow> MlBuildMessage out True 0 body)"

definition MlBuildSubscribeEnd :: "octets \<Rightarrow> u64 \<Rightarrow> octets \<times> bool" where
  "MlBuildSubscribeEnd out grp =
     (case write_varints [] [grp] of
        None \<Rightarrow> (out, False) | Some body \<Rightarrow> MlBuildMessage out True 1 body)"

definition MlBuildGroupHeader :: "octets \<Rightarrow> u64 \<Rightarrow> u64 \<Rightarrow> u64 \<Rightarrow> octets \<times> bool" where
  "MlBuildGroupHeader out sub_id seq frame_start =
     (case write_varints [] [sub_id, seq, frame_start] of
        None \<Rightarrow> (out, False) | Some body \<Rightarrow> MlBuildMessage out False 0 body)"

definition MlAppendFrame :: "octets \<Rightarrow> u64 \<Rightarrow> octets \<Rightarrow> octets \<times> bool" where
  "MlAppendFrame out ts_delta payload =
     (case MlZigzagEncode ts_delta of
        None \<Rightarrow> (out, False)
      | Some zz \<Rightarrow>
          let (out1, ok) = MlWriteVarint out zz in
          if \<not> ok then (out1, False)
          else let (out2, ok2) = MlWriteVarint out1 (word_of_nat (length payload)) in
               if \<not> ok2 then (out2, False) else (out2 @ payload, True))"

section \<open>The integer codec\<close>

lemma quic_varint_len_cases:
  "quic_varint_len v = 1 \<or> quic_varint_len v = 2 \<or> quic_varint_len v = 4 \<or> quic_varint_len v = 8"
  by (simp add: quic_varint_len_def)

lemma quic_varint_len_ge1: "1 \<le> quic_varint_len v" and quic_varint_len_le8: "quic_varint_len v \<le> 8"
  by (simp_all add: quic_varint_len_def)

lemma quic_varint_len_bound:
  "quic_varint_len v < 8 \<Longrightarrow> unat v < 2 ^ (8 * quic_varint_len v - 2)"
  by (auto simp: quic_varint_len_def word_le_nat_alt split: if_splits)

text \<open>The two tag bits of the first octet.\<close>

lemma tag_bits:
  "drop_bit 6 (take_bit 6 b OR push_bit 6 c) AND 0x3 = c AND 0x3"
  "(b OR push_bit 6 c) AND 0x3F = b AND 0x3F" for b c :: byte
proof -
  have m: "(0x3 :: byte) = mask 2" "(0x3F :: byte) = mask 6" by (simp_all add: mask_eq_exp_minus_1)
  show "drop_bit 6 (take_bit 6 b OR push_bit 6 c) AND 0x3 = c AND 0x3"
    unfolding m by (rule bit_eqI) (auto simp: bit_simps)
  show "(b OR push_bit 6 c) AND 0x3F = b AND 0x3F"
    unfolding m by (rule bit_eqI) (auto simp: bit_simps)
qed

lemma varint_tag:
  fixes b :: byte
  assumes "len \<in> {1, 2, 4, 8 :: nat}" "len = 8 \<or> unat b < 64"
  defines "tag \<equiv> (if len = 1 then 0 else if len = 2 then 0x40 else if len = 4 then 0x80 else 0xC0 :: byte)"
  shows "(2::nat) ^ unat (drop_bit 6 (b OR tag) AND 0x3) = len"
    and "(b OR tag) AND 0x3F = b AND 0x3F"
proof -
  have c: "(0x40 :: byte) = push_bit 6 1" "(0x80 :: byte) = push_bit 6 2" "(0xC0 :: byte) = push_bit 6 3"
    "(0 :: byte) = push_bit 6 0"
    by simp_all
  define k where "k = (if len = 1 then 0 else if len = 2 then 1 else if len = 4 then 2 else 3 :: byte)"
  have tag: "tag = push_bit 6 k" by (simp add: tag_def k_def)
  show "(b OR tag) AND 0x3F = b AND 0x3F" unfolding tag by (rule tag_bits)
  have "drop_bit 6 (b OR push_bit 6 k) AND 0x3 = k AND 0x3"
  proof (cases "unat b < 64")
    case True
    then have "take_bit 6 b = b"
      by (simp add: word_eq_iff_unsigned [where ?'a = nat] unsigned_take_bit_eq take_bit_nat_eq_self)
    then show ?thesis using tag_bits(1) [of b k] by simp
  next
    case False
    with assms(2) have "k = 3" by (simp add: k_def)
    have m: "(0x3 :: byte) = mask 2" by (simp add: mask_eq_exp_minus_1)
    show ?thesis unfolding \<open>k = 3\<close> m by (rule bit_eqI) (auto simp: bit_simps)
  qed
  then show "(2::nat) ^ unat (drop_bit 6 (b OR tag) AND 0x3) = len"
    using assms(1) by (auto simp: tag k_def)
qed

lemma quic_varint_encode_Some:
  "quic_varint_encode 8 v = Some ((hd (be_bytes (quic_varint_len v) (unat v)) OR
     (if quic_varint_len v = 1 then 0 else if quic_varint_len v = 2 then 0x40
      else if quic_varint_len v = 4 then 0x80 else 0xC0))
     # tl (be_bytes (quic_varint_len v) (unat v)))"
  using quic_varint_len_le8 [of v] quic_varint_len_ge1 [of v]
  by (cases "quic_varint_len v") (simp_all add: quic_varint_encode_def Let_def)

definition ml_enc :: "u64 \<Rightarrow> octets" where
  "ml_enc v = the (quic_varint_encode 8 v)"

lemma quic_varint_encode_ml_enc: "quic_varint_encode 8 v = Some (ml_enc v)"
  by (simp add: ml_enc_def quic_varint_encode_Some)

lemma length_ml_enc: "length (ml_enc v) = quic_varint_len v"
  using quic_varint_len_ge1 [of v] by (simp add: ml_enc_def quic_varint_encode_Some)

lemma unat_and_0x3F: "unat (b AND 0x3F :: byte) = unat b mod 64"
  using word_and_mask_unat [of b 6] by simp

lemma quic_decode_ml_enc:
  "quic_varint_decode (ml_enc v @ r) = Some (take_bit 62 v, quic_varint_len v)"
proof -
  obtain k where len: "quic_varint_len v = Suc k"
    using quic_varint_len_ge1 [of v] by (metis Suc_le_D One_nat_def)
  define b :: byte where "b = word_of_nat (unat v div 256 ^ k)"
  define tag where "tag = (if quic_varint_len v = 1 then 0 else if quic_varint_len v = 2 then 0x40
      else if quic_varint_len v = 4 then 0x80 else 0xC0 :: byte)"
  have e: "ml_enc v = (b OR tag) # be_bytes k (unat v)"
    by (simp add: ml_enc_def quic_varint_encode_Some len b_def tag_def del: of_nat_div)
  have k: "Suc k \<in> {1, 2, 4, 8}" using quic_varint_len_cases [of v] len by auto
  have vlt: "Suc k < 8 \<Longrightarrow> unat v < 64 * 256 ^ k"
  proof -
    assume "Suc k < 8"
    then have "unat v < 2 ^ (6 + 8 * k)"
      using quic_varint_len_bound [of v] len by simp
    then show "unat v < 64 * 256 ^ k" by (simp only: power_add power_mult) simp
  qed
  then have b64: "Suc k = 8 \<or> unat b < 64"
    using k by (auto simp: b_def less_mult_imp_div_less simp del: of_nat_div)
  note tagged = varint_tag [of "Suc k" b, folded len, folded tag_def, unfolded len, OF k b64]
  have val: "be_val ((if Suc k = 1 then b OR tag else (b OR tag) AND 0x3F) # be_bytes k (unat v))
      = unat v mod 2 ^ 62"
  proof (cases "Suc k = 8")
    case True
    have "unat v div 256 ^ 7 mod 256 mod 64 * 256 ^ 7 + unat v mod 256 ^ 7 = unat v mod 2 ^ 62"
    proof -
      have "unat v mod (256 ^ 7 * 64) = 256 ^ 7 * (unat v div 256 ^ 7 mod 64) + unat v mod 256 ^ 7"
        by (rule mod_mult2_eq)
      then show ?thesis by (simp add: mod_mod_cancel)
    qed
    moreover have "unat ((b OR tag) AND 0x3F) = unat b mod 64"
      by (simp only: tagged unat_and_0x3F)
    ultimately show ?thesis
      using True by (simp add: be_val_be_bytes b_def del: of_nat_div)
  next
    case False
    with b64 have "unat b < 64" by simp
    then have "b AND 0x3F = b"
      by (simp add: word_eq_iff_unsigned [where ?'a = nat] unat_and_0x3F)
    moreover have "Suc k = 1 \<Longrightarrow> tag = 0" by (simp add: tag_def len)
    ultimately have h: "(if Suc k = 1 then b OR tag else (b OR tag) AND 0x3F) = b"
      using tagged by auto
    have lt: "unat v < 64 * 256 ^ k" using vlt False k by auto
    then have "unat v div 256 ^ k < 256" by (simp add: less_mult_imp_div_less)
    then have "be_val (b # be_bytes k (unat v)) = unat v"
      by (simp add: b_def be_val_be_bytes div_mult_mod_eq del: of_nat_div)
    moreover have "64 * 256 ^ k \<le> (64::nat) * 256 ^ 7"
      using k by (intro mult_left_mono power_increasing) auto
    with lt have "unat v < 2 ^ 62" by simp
    ultimately have "be_val (b # be_bytes k (unat v)) = unat v mod 2 ^ 62" by simp
    then show ?thesis by (simp only: h)
  qed
  have "word_of_nat (unat v mod 2 ^ 62) = take_bit 62 v"
    by (simp only: word_eq_iff_unsigned [where ?'a = nat] unat_take_bit)
       (simp add: unat_of_nat take_bit_nat_eq_self mod_less [OF less_trans [OF mod_less_divisor]])
  moreover have "quic_varint_decode (f # bs @ r)
      = Some (word_of_nat (be_val ((if Suc k = 1 then f else f AND 0x3F) # bs)), Suc k)"
    if "(2::nat) ^ unat (drop_bit 6 f AND 0x3) = Suc k" "length bs = k" for f bs
    by (simp only: quic_varint_decode_def list.case Let_def that(1)) (simp add: that(2))
  from this [OF tagged(1)] have "quic_varint_decode (ml_enc v @ r)
      = Some (word_of_nat (unat v mod 2 ^ 62), Suc k)"
    by (simp only: e append_Cons length_be_bytes val)
  ultimately show ?thesis by (simp only: len)
qed

lemma quic_decode_strict_prefix:
  "k < quic_varint_len v \<Longrightarrow> quic_varint_decode (take k (ml_enc v)) = None"
proof -
  assume k: "k < quic_varint_len v"
  obtain f rest where e: "ml_enc v = f # rest"
    using length_ml_enc [of v] quic_varint_len_ge1 [of v] by (cases "ml_enc v") auto
  have "(2::nat) ^ unat (drop_bit 6 f AND 0x3) = quic_varint_len v"
    using quic_decode_ml_enc [of v "[]"] length_ml_enc [of v] e
    by (simp add: quic_varint_decode_def Let_def split: if_splits)
  with k show ?thesis
    using length_ml_enc [of v] e
    by (cases k) (simp_all add: quic_varint_decode_def Let_def)
qed

lemma unat_kMlVarintMax: "unat kMlVarintMax = 2 ^ 62 - 1"
  by (simp add: kMlVarintMax_def)

lemma le_kMlVarintMax_iff: "v \<le> kMlVarintMax \<longleftrightarrow> unat v < 2 ^ 62"
  by (simp add: word_le_nat_alt unat_kMlVarintMax) linarith

lemma take_bit_62_id: "v \<le> kMlVarintMax \<longleftrightarrow> take_bit 62 v = v"
proof -
  have "take_bit 62 v = v \<longleftrightarrow> unat v mod 2 ^ 62 = unat v"
    by (simp only: word_eq_iff_unsigned [where ?'a = nat] unat_take_bit)
  also have "\<dots> \<longleftrightarrow> unat v < 2 ^ 62" by (metis mod_less mod_less_divisor zero_less_numeral zero_less_power)
  finally show ?thesis by (simp add: le_kMlVarintMax_iff)
qed

lemma MlWriteVarint_eq:
  "MlWriteVarint out v = (if v \<le> kMlVarintMax then (out @ ml_enc v, True) else (out, False))"
  by (auto simp: MlWriteVarint_def quic_varint_encode_ml_enc)

lemma MlReadVarint_ml_enc [wire]:
  assumes "drop off p = ml_enc v @ post" "off + quic_varint_len v \<le> len" "v \<le> kMlVarintMax"
  shows "MlReadVarint p len off = Some (v, off + quic_varint_len v)"
proof -
  have "take (len - off) (drop off p) = ml_enc v @ take (len - off - quic_varint_len v) post"
    using assms(1,2) by (simp add: length_ml_enc)
  then show ?thesis
    using assms quic_varint_len_ge1 [of v] quic_decode_ml_enc [of v]
    by (simp add: MlReadVarint_def take_bit_62_id)
qed

lemma MlReadVarint_short:
  assumes "drop off p = take k (ml_enc v)" "k < quic_varint_len v"
  shows "MlReadVarint p (length p) off = None"
proof -
  have "take (length p - off) (drop off p) = drop off p" by simp
  then show ?thesis
    using assms quic_decode_strict_prefix [of k v] by (simp only: MlReadVarint_def) simp
qed

lemma drop_after_ml_enc: "drop off p = ml_enc v @ post \<Longrightarrow> drop (off + quic_varint_len v) p = post"
  by (metis add.commute append_eq_conv_conj drop_drop length_ml_enc)

text \<open>
  The moq-lite integer writer refuses exactly the values above \<open>2^62 - 1\<close>, leaving the
  output alone; every value it accepts is read back, whatever surrounds it, with the offset moved
  over exactly the octets written.
\<close>

theorem ml_varint_round_trip:
  "(snd (MlWriteVarint pre v) \<longleftrightarrow> unat v < 2 ^ 62) \<and>
   (if snd (MlWriteVarint pre v)
    then MlReadVarint (fst (MlWriteVarint pre v) @ post)
           (length (fst (MlWriteVarint pre v) @ post)) (length pre)
         = Some (v, length (fst (MlWriteVarint pre v)))
    else fst (MlWriteVarint pre v) = pre)"
proof (cases "v \<le> kMlVarintMax")
  case True
  then have "MlReadVarint (pre @ ml_enc v @ post) (length (pre @ ml_enc v @ post)) (length pre)
      = Some (v, length pre + quic_varint_len v)"
    by (intro MlReadVarint_ml_enc) (auto simp: length_ml_enc)
  moreover from True have "unat v < 2 ^ 62" by (simp only: le_kMlVarintMax_iff)
  ultimately show ?thesis using True by (simp add: MlWriteVarint_eq length_ml_enc add.assoc)
next
  case False
  then have "MlWriteVarint pre v = (pre, False)" by (simp add: MlWriteVarint_eq)
  with False show ?thesis by (metis fst_conv le_kMlVarintMax_iff snd_conv)
qed

text \<open>
  The range guard is what keeps values intact: the QUIC encoder underneath never fails for
  eight octets of room, and what comes back is the value cut to 62 bits, so it is the value itself
  exactly when the guard lets it through.
\<close>

theorem quic_varint_truncates:
  "\<exists>e. quic_varint_encode 8 v = Some e \<and>
     quic_varint_decode (e @ r) = Some (take_bit 62 v, length e) \<and>
     (take_bit 62 v = v \<longleftrightarrow> v \<le> kMlVarintMax)"
  by (simp add: quic_varint_encode_ml_enc quic_decode_ml_enc length_ml_enc take_bit_62_id)

section \<open>Zigzag\<close>

definition zz_word :: "u64 \<Rightarrow> u64" where
  "zz_word v = push_bit 1 v XOR signed_drop_bit 63 v"

lemma MlZigzagEncode_eq:
  "MlZigzagEncode v =
     (if sint v < kMlZigzagMin \<or> sint v > kMlZigzagMax then None else Some (zz_word v))"
  by (simp only: MlZigzagEncode_def zz_word_def)

lemma bit_zz_word: "bit (zz_word v) i \<longleftrightarrow> i < 64 \<and> ((1 \<le> i \<and> bit v (i - 1)) \<noteq> bit v 63)"
proof (cases "i < 64")
  case True
  then have "bit (signed_drop_bit 63 v) i = bit v 63"
    by (cases "i = 0") (simp_all add: bit_signed_drop_bit_iff)
  moreover have "bit (push_bit 1 v) i \<longleftrightarrow> 1 \<le> i \<and> bit v (i - 1)"
    using True by (simp only: bit_push_bit_iff) simp
  ultimately show ?thesis using True by (simp only: zz_word_def bit_xor_iff) simp
next
  case False
  then show ?thesis using bit_imp_le_length [of "zz_word v" i] by auto
qed

lemma zigzag_decode_encode: "MlZigzagDecode (zz_word v) = v"
proof -
  have "odd (zz_word v) \<longleftrightarrow> bit v 63"
    using bit_zz_word [of v 0] by (simp add: bit_0)
  then have one: "zz_word v AND 1 = of_bool (bit v 63)"
    by (cases "bit v 63") (auto simp: and_one_eq mod2_eq_if)
  have all: "bit (- (zz_word v AND 1)) i \<longleftrightarrow> i < 64 \<and> bit v 63" for i
    by (simp only: one) (cases "bit v 63", simp_all)
  show ?thesis
  proof (rule bit_eqI)
    fix i
    assume "possible_bit TYPE(64 word) i"
    then have i: "i < 64" by simp
    have "bit (MlZigzagDecode (zz_word v)) i \<longleftrightarrow> bit (zz_word v) (Suc i) \<noteq> bit v 63"
      using i by (simp only: MlZigzagDecode_def bit_xor_iff all bit_drop_bit_eq o_def) simp
    also have "\<dots> \<longleftrightarrow> bit v i"
      using i by (cases "i = 63") (auto simp: bit_zz_word)
    finally show "bit (MlZigzagDecode (zz_word v)) i \<longleftrightarrow> bit v i" .
  qed
qed

lemma zigzag_fits:
  assumes "kMlZigzagMin \<le> sint v" "sint v \<le> kMlZigzagMax"
  shows "zz_word v \<le> kMlVarintMax"
proof -
  have hi: "bit v i = bit v 63" if "61 \<le> i" "i < 64" for i
  proof -
    have s: "signed_take_bit 61 (sint v) = sint v"
      using assms by (simp add: signed_take_bit_int_eq_self_iff kMlZigzagMin_def kMlZigzagMax_def)
    have "bit (sint v) i = bit (sint v) 63"
      using that by (subst (1 2) s [symmetric]) (simp add: bit_signed_take_bit_iff min_def)
    then show ?thesis using that by (simp add: bit_sint_iff min_def)
  qed
  have "bit (take_bit 62 (zz_word v)) i \<longleftrightarrow> bit (zz_word v) i" for i
    using hi [of "i - 1"] by (auto simp only: bit_take_bit_iff bit_zz_word)
  then have "take_bit 62 (zz_word v) = zz_word v" by (intro bit_eqI)
  then show ?thesis by (simp only: take_bit_62_id)
qed

text \<open>
  The zigzag codec covers exactly the range \<open>[-2^61, 2^61 - 1]\<close>: inside it the encoded value
  decodes back and always fits the moq-lite integer; outside it encoding fails.
\<close>

theorem zigzag_round_trip:
  "case MlZigzagEncode v of
     None \<Rightarrow> sint v < - (2 ^ 61) \<or> 2 ^ 61 \<le> sint v
   | Some zz \<Rightarrow> - (2 ^ 61) \<le> sint v \<and> sint v < 2 ^ 61 \<and> MlZigzagDecode zz = v \<and> snd (MlWriteVarint out zz)"
proof (cases "MlZigzagEncode v")
  case None
  then show ?thesis
    by (auto simp: MlZigzagEncode_def kMlZigzagMin_def kMlZigzagMax_def split: if_splits)
next
  case (Some zz)
  then have r: "kMlZigzagMin \<le> sint v" "sint v \<le> kMlZigzagMax"
    and zz: "zz = zz_word v"
    by (auto simp: MlZigzagEncode_eq split: if_splits)
  have "zz \<le> kMlVarintMax" unfolding zz by (rule zigzag_fits [OF r])
  with r Some show ?thesis
    by (simp add: zz zigzag_decode_encode MlWriteVarint_eq kMlZigzagMin_def kMlZigzagMax_def)
qed

section \<open>Strings, messages and frames\<close>

lemma size_fits: "n < 2 ^ 62 \<Longrightarrow> word_of_nat n \<le> kMlVarintMax"
  by (simp only: le_kMlVarintMax_iff unat_of_nat) (simp add: mod_less_eq_dividend le_less_trans)

lemma unat_size: "n < 2 ^ 62 \<Longrightarrow> unat (word_of_nat n :: u64) = n"
  by (simp add: unat_of_nat)

lemma MlWriteString_eq:
  "length s < 2 ^ 62 \<Longrightarrow> MlWriteString out s = (out @ ml_enc (word_of_nat (length s)) @ s, True)"
  using size_fits [of "length s"] by (simp add: MlWriteString_def MlWriteVarint_eq)

text \<open>
  A string written with its length is read back verbatim with the offset moved past it,
  wherever it stands in the buffer; its octets are arbitrary (a zero octet does not end it).
\<close>

theorem ml_string_round_trip:
  assumes "length s < 2 ^ 62"
  shows "MlReadString (fst (MlWriteString pre s) @ post) (length (fst (MlWriteString pre s) @ post))
      (length pre) = (Some s, length (fst (MlWriteString pre s)))"
proof -
  let ?n = "word_of_nat (length s) :: u64"
  let ?p = "pre @ ml_enc ?n @ s @ post"
  have "MlReadVarint ?p (length ?p) (length pre) = Some (?n, length pre + quic_varint_len ?n)"
    using size_fits [OF assms] by (intro MlReadVarint_ml_enc) (auto simp: length_ml_enc)
  moreover have "drop (length pre + quic_varint_len ?n) ?p = s @ post"
    by (rule drop_after_ml_enc) simp
  ultimately show ?thesis
    using assms by (simp add: MlWriteString_eq MlReadString_def unat_size length_ml_enc)
qed

theorem ml_string_round_trip_witness:
  "MlReadString (fst (MlWriteString [] [0, 1]) @ [7]) (length (fst (MlWriteString [] [0, 1]) @ [7]))
     (length ([] :: octets)) = (Some [0, 1], length (fst (MlWriteString [] [0, 1])))"
  by (rule ml_string_round_trip) simp

lemma MlBuildMessage_eq:
  "length body < 2 ^ 62 \<Longrightarrow> type \<le> kMlVarintMax \<Longrightarrow>
   MlBuildMessage out typed type body
     = (out @ (if typed then ml_enc type else []) @ ml_enc (word_of_nat (length body)) @ body, True)"
  using size_fits [of "length body"] by (simp add: MlBuildMessage_def MlWriteVarint_eq)

lemma unat_kMlMaxMessageSize: "unat kMlMaxMessageSize = 2 ^ 26"
  by (simp add: kMlMaxMessageSize_def)

lemma MlReadMessage_ml_enc:
  assumes "drop off p = ml_enc (word_of_nat n) @ post" "n < 2 ^ 62"
  shows "MlReadMessage p (length p) off =
    (if 2 ^ 26 < n then kMlMsgTooLarge
     else if length post < n then kMlMsgNeedMore
     else kMlMsgOk (off + quic_varint_len (word_of_nat n)) n)"
proof -
  let ?w = "word_of_nat n :: u64"
  have len: "length p = off + quic_varint_len ?w + length post"
    using arg_cong [OF assms(1), of length] quic_varint_len_ge1 [of ?w]
    by (simp add: length_ml_enc)
  then have "MlReadVarint p (length p) off = Some (?w, off + quic_varint_len ?w)"
    using assms size_fits [of n] by (intro MlReadVarint_ml_enc) auto
  moreover have "?w > kMlMaxMessageSize \<longleftrightarrow> 2 ^ 26 < n"
    using assms(2) by (simp only: word_less_nat_alt unat_kMlMaxMessageSize unat_size)
  moreover have "unat ?w = n" using assms(2) by (rule unat_size)
  ultimately show ?thesis by (simp add: MlReadMessage_def len)
qed

text \<open>
  The three-way status of the message reader on a stream: with any part of a message missing
  it asks for more and with the whole message there it returns the body's place and length, unless
  the body is above 64 MiB, which is reported as soon as the length field is complete.
\<close>

theorem ml_message_status:
  assumes "length body < 2 ^ 62" "k \<le> length (fst (MlBuildMessage [] False 0 body))"
  shows "let p = pre @ take k (fst (MlBuildMessage [] False 0 body)) in
    MlReadMessage p (length p) (length pre) =
      (if k < quic_varint_len (word_of_nat (length body)) then kMlMsgNeedMore
       else if 2 ^ 26 < length body then kMlMsgTooLarge
       else if k < length (fst (MlBuildMessage [] False 0 body)) then kMlMsgNeedMore
       else kMlMsgOk (length p - length body) (length body))"
proof -
  let ?w = "word_of_nat (length body) :: u64"
  let ?m = "ml_enc ?w @ body"
  let ?p = "pre @ take k ?m"
  have m: "fst (MlBuildMessage [] False 0 body) = ?m"
    using assms(1) by (simp add: MlBuildMessage_eq kMlVarintMax_def)
  show ?thesis
  proof (cases "k < quic_varint_len ?w")
    case True
    then have "drop (length pre) ?p = take k (ml_enc ?w)" by (simp add: length_ml_enc)
    from MlReadVarint_short [OF this True] True show ?thesis
      by (simp add: m Let_def MlReadMessage_def)
  next
    case False
    define j where "j = k - quic_varint_len ?w"
    have take: "take k ?m = ml_enc ?w @ take j body"
      using False by (simp only: take_append length_ml_enc j_def) (simp add: length_ml_enc)
    have k: "k = quic_varint_len ?w + j" using False by (simp add: j_def)
    have j: "j \<le> length body" using assms(2) by (simp add: m length_ml_enc k)
    have "drop (length pre) ?p = ml_enc ?w @ take j body" by (simp only: take) simp
    from MlReadMessage_ml_enc [OF this assms(1)]
    have "MlReadMessage ?p (length ?p) (length pre) =
      (if 2 ^ 26 < length body then kMlMsgTooLarge
       else if j < length body then kMlMsgNeedMore
       else kMlMsgOk (length pre + quic_varint_len ?w) (length body))"
      using j by (simp add: min_def)
    moreover have "length ?p = length pre + quic_varint_len ?w + j"
      using j by (simp only: take) (simp add: length_ml_enc)
    ultimately show ?thesis
      using j by (simp only: m Let_def) (simp add: length_ml_enc k)
  qed
qed

theorem ml_message_status_witness:
  "let p = [9] @ take 3 (fst (MlBuildMessage [] False 0 [5, 6])) in
    MlReadMessage p (length p) (length [9 :: byte]) =
      (if 3 < quic_varint_len (word_of_nat (length [5, 6 :: byte])) then kMlMsgNeedMore
       else if 2 ^ 26 < length [5, 6 :: byte] then kMlMsgTooLarge
       else if 3 < length (fst (MlBuildMessage [] False 0 [5, 6])) then kMlMsgNeedMore
       else kMlMsgOk (length p - length [5, 6 :: byte]) (length [5, 6 :: byte]))"
  by (rule ml_message_status)
     (simp_all add: MlBuildMessage_eq kMlVarintMax_def length_ml_enc quic_varint_len_def)

section \<open>The publisher's messages\<close>

lemma write_varints_eq:
  "write_varints body xs =
     (if \<forall>x \<in> set xs. x \<le> kMlVarintMax then Some (body @ concat (map ml_enc xs)) else None)"
  by (induction xs arbitrary: body) (auto simp: MlWriteVarint_eq)

text \<open>A receiver reading \<open>n\<close> consecutive integers.\<close>

fun read_varints :: "octets \<Rightarrow> nat \<Rightarrow> nat \<Rightarrow> nat \<Rightarrow> (u64 list \<times> nat) option" where
  "read_varints p len off 0 = Some ([], off)"
| "read_varints p len off (Suc n) =
     (case MlReadVarint p len off of
        None \<Rightarrow> None
      | Some (v, o1) \<Rightarrow> map_option (\<lambda>(vs, o2). (v # vs, o2)) (read_varints p len o1 n))"

lemma read_varints_ml_enc:
  assumes "drop off p = concat (map ml_enc xs) @ post" "\<forall>x \<in> set xs. x \<le> kMlVarintMax"
    "off + length (concat (map ml_enc xs)) \<le> len"
  shows "read_varints p len off (length xs) = Some (xs, off + length (concat (map ml_enc xs)))"
  using assms
proof (induction xs arbitrary: off)
  case (Cons x xs)
  have d: "drop off p = ml_enc x @ concat (map ml_enc xs) @ post" using Cons.prems(1) by simp
  have r: "MlReadVarint p len off = Some (x, off + quic_varint_len x)"
    using Cons.prems by (intro MlReadVarint_ml_enc [OF d]) (auto simp: length_ml_enc)
  have "read_varints p len (off + quic_varint_len x) (length xs)
      = Some (xs, off + quic_varint_len x + length (concat (map ml_enc xs)))"
    using Cons.prems drop_after_ml_enc [OF d] by (intro Cons.IH) (auto simp: length_ml_enc)
  with r show ?case by (simp add: length_ml_enc)
qed simp

lemma length_concat_ml_enc: "length (concat (map ml_enc xs)) \<le> 8 * length xs"
proof (induction xs)
  case (Cons x xs)
  then show ?case using quic_varint_len_le8 [of x] by (simp add: length_ml_enc)
qed simp

text \<open>
  The GROUP header that opens every media stream carries its three fields: when they fit the
  moq-lite integer, the message reader finds a body of exactly their encodings, and reading three
  integers from it gives subscribe id, group sequence and frame start, ending where the next
  message starts.
\<close>

theorem ml_group_header_round_trip:
  assumes "sub_id \<le> kMlVarintMax" "seq \<le> kMlVarintMax" "frame_start \<le> kMlVarintMax"
  shows "\<exists>msg o1 n.
    MlBuildGroupHeader pre sub_id seq frame_start = (pre @ msg, True) \<and>
    MlReadMessage (pre @ msg @ post) (length (pre @ msg @ post)) (length pre) = kMlMsgOk o1 n \<and>
    read_varints (pre @ msg @ post) (o1 + n) o1 3 = Some ([sub_id, seq, frame_start], o1 + n) \<and>
    o1 + n = length (pre @ msg)"
proof -
  let ?xs = "[sub_id, seq, frame_start]"
  define b where "b = concat (map ml_enc ?xs)"
  let ?w = "word_of_nat (length b) :: u64"
  let ?p = "pre @ ml_enc ?w @ b @ post"
  have small: "length b \<le> 24" using length_concat_ml_enc [of ?xs] by (simp only: b_def) simp
  have lt: "length b < 2 ^ 62" by (rule le_less_trans [OF small]) simp
  have "write_varints [] ?xs = Some b" using assms by (simp add: write_varints_eq b_def)
  then have w: "MlBuildGroupHeader pre sub_id seq frame_start = (pre @ ml_enc ?w @ b, True)"
    unfolding MlBuildGroupHeader_def using MlBuildMessage_eq [OF lt, of 0 pre False]
    by (simp add: kMlVarintMax_def)
  have d: "drop (length pre) ?p = ml_enc ?w @ b @ post" by simp
  have m: "MlReadMessage ?p (length ?p) (length pre) = kMlMsgOk (length pre + quic_varint_len ?w) (length b)"
    using small by (simp only: MlReadMessage_ml_enc [OF d lt]) simp
  have three: "length ?xs = 3" by simp
  have "read_varints ?p (length pre + quic_varint_len ?w + length b)
      (length pre + quic_varint_len ?w) (length ?xs)
      = Some (?xs, length pre + quic_varint_len ?w + length b)"
    unfolding b_def using assms
    by (intro read_varints_ml_enc [OF drop_after_ml_enc [OF d [unfolded b_def]]]) auto
  note r = this [unfolded three]
  show ?thesis
    by (rule exI [of _ "ml_enc ?w @ b"], rule exI [of _ "length pre + quic_varint_len ?w"],
        rule exI [of _ "length b"]) (use w m r in \<open>simp add: length_ml_enc\<close>)
qed

theorem ml_group_header_round_trip_witness:
  "\<exists>msg o1 n.
    MlBuildGroupHeader [0] 1 2 0 = ([0] @ msg, True) \<and>
    MlReadMessage ([0] @ msg @ []) (length ([0] @ msg @ [])) (length [0 :: byte]) = kMlMsgOk o1 n \<and>
    read_varints ([0] @ msg @ []) (o1 + n) o1 3 = Some ([1, 2, 0], o1 + n) \<and>
    o1 + n = length ([0] @ msg)"
  by (rule ml_group_header_round_trip) (simp_all add: kMlVarintMax_def)

text \<open>
  A FRAME carries a signed timestamp difference and a payload: reading the difference, undoing
  the zigzag and reading the message that follows gives both back, and the next frame starts right
  behind the payload. A difference outside the zigzag range is refused with nothing written.
\<close>

theorem ml_frame_round_trip:
  assumes "length payload \<le> 2 ^ 26"
  shows "case MlAppendFrame pre ts payload of
      (out, False) \<Rightarrow> out = pre \<and> (sint ts < - (2 ^ 61) \<or> 2 ^ 61 \<le> sint ts)
    | (out, True) \<Rightarrow> \<exists>zz o1 o2.
        MlReadVarint (out @ post) (length (out @ post)) (length pre) = Some (zz, o1) \<and>
        MlZigzagDecode zz = ts \<and>
        MlReadMessage (out @ post) (length (out @ post)) o1 = kMlMsgOk o2 (length payload) \<and>
        take (length payload) (drop o2 (out @ post)) = payload \<and>
        o2 + length payload = length out"
proof (cases "MlZigzagEncode ts")
  case None
  then have "sint ts < - (2 ^ 61) \<or> 2 ^ 61 \<le> sint ts"
    by (auto simp: MlZigzagEncode_eq kMlZigzagMin_def kMlZigzagMax_def split: if_splits)
  with None show ?thesis by (simp add: MlAppendFrame_def)
next
  case (Some zz)
  then have zz: "zz = zz_word ts" "zz \<le> kMlVarintMax"
    by (auto simp: MlZigzagEncode_eq zigzag_fits split: if_splits)
  let ?w = "word_of_nat (length payload) :: u64"
  have lt: "length payload < 2 ^ 62" by (rule le_less_trans [OF assms]) simp
  let ?out = "pre @ ml_enc zz @ ml_enc ?w @ payload"
  have a: "MlAppendFrame pre ts payload = (?out, True)"
    using Some zz size_fits [OF lt] by (simp add: MlAppendFrame_def MlWriteVarint_eq)
  let ?p = "?out @ post"
  have d: "drop (length pre) ?p = ml_enc zz @ ml_enc ?w @ payload @ post" by simp
  have d1: "drop (length pre + quic_varint_len zz) ?p = ml_enc ?w @ payload @ post"
    by (rule drop_after_ml_enc [OF d])
  have r: "MlReadVarint ?p (length ?p) (length pre) = Some (zz, length pre + quic_varint_len zz)"
    using zz by (intro MlReadVarint_ml_enc [OF d]) (auto simp: length_ml_enc)
  have m: "MlReadMessage ?p (length ?p) (length pre + quic_varint_len zz)
      = kMlMsgOk (length pre + quic_varint_len zz + quic_varint_len ?w) (length payload)"
    using assms by (simp only: MlReadMessage_ml_enc [OF d1 lt]) simp
  have d2: "drop (length pre + quic_varint_len zz + quic_varint_len ?w) ?p = payload @ post"
    by (rule drop_after_ml_enc [OF d1])
  have z: "MlZigzagDecode zz = ts" by (simp add: zz zigzag_decode_encode)
  have "\<exists>zz o1 o2.
        MlReadVarint ?p (length ?p) (length pre) = Some (zz, o1) \<and> MlZigzagDecode zz = ts \<and>
        MlReadMessage ?p (length ?p) o1 = kMlMsgOk o2 (length payload) \<and>
        take (length payload) (drop o2 ?p) = payload \<and> o2 + length payload = length ?out"
    by (rule exI [of _ zz], rule exI [of _ "length pre + quic_varint_len zz"],
        rule exI [of _ "length pre + quic_varint_len zz + quic_varint_len ?w"])
       (simp only: r m d2 z, simp add: length_ml_enc)
  then show ?thesis by (simp only: a prod.case bool.case)
qed

theorem ml_frame_round_trip_witness:
  "case MlAppendFrame [] 5 [1, 2, 3] of
      (out, False) \<Rightarrow> out = [] \<and> (sint (5 :: u64) < - (2 ^ 61) \<or> 2 ^ 61 \<le> sint (5 :: u64))
    | (out, True) \<Rightarrow> \<exists>zz o1 o2.
        MlReadVarint (out @ []) (length (out @ [])) (length ([] :: octets)) = Some (zz, o1) \<and>
        MlZigzagDecode zz = 5 \<and>
        MlReadMessage (out @ []) (length (out @ [])) o1 = kMlMsgOk o2 (length [1, 2, 3 :: byte]) \<and>
        take (length [1, 2, 3 :: byte]) (drop o2 (out @ [])) = [1, 2, 3] \<and>
        o2 + length [1, 2, 3 :: byte] = length out"
  by (rule ml_frame_round_trip) simp

text \<open>The octets measured for ANNOUNCE_END with id 42, as the source's comment gives them.\<close>

lemma announce_end_42: "MlAppendAnnounceEnd [] 42 = ([0x01, 0x01, 0x2A], True)"
  by (simp add: MlAppendAnnounceEnd_def write_varints_eq MlBuildMessage_eq kMlVarintMax_def
      ml_enc_def quic_varint_encode_def quic_varint_len_def)

lemma announce_start_empty:
  "MlAppendAnnounceStart [] [] 0 0 = ([0x00, 0x04, 0x00, 0x00, 0x00, 0x00], True)"
  by (simp add: MlAppendAnnounceStart_def MlWriteString_eq write_varints_eq MlBuildMessage_eq
      kMlVarintMax_def ml_enc_def quic_varint_encode_def quic_varint_len_def)

end
