(* ===== verification/Data_Buffer.thy ===== *)
theory Data_Buffer
  imports Prelude
begin

text \<open>
  The receive and media buffer of the server, class \<open>DataBuffer\<close> of
  \<open>moqlivecast/utils/data_buffer.hpp\<close>: a heap block with 200 octets of head room, a window
  \<open>[start, end)\<close> of valid octets, growth by reallocation and compaction, consumption from the front
  (or, with a negative length, reclaiming head room). The heap block is an octet list; a copy outside
  it is \<open>HeapOverflow\<close> and a \<open>memcpy\<close> of overlapping regions \<open>OverlapCopy\<close>. \<open>size_t\<close> arithmetic is
  at 64 bits where it can wrap (\<open>buffer_size - 200\<close>); the \<open>int\<close> counters are integers, which is
  what they are as long as a buffer holds less than 2 GiB. The locale \<open>byte_fifo\<close> is the interface
  the parsers rely on: octets come out in the order they went in.
\<close>

datatype buf_fault = HeapOverflow | OverlapCopy

record data_buffer =
  sent_flag :: bool
  dst_ip :: string
  dst_port :: u16
  buffer :: octets
  buffer_size :: nat
  data_len :: int
  start_pos :: int
  end_pos :: int

definition EXTRA_LEN :: int where "EXTRA_LEN = 10 * 1024"
definition PRE_RESERVE_HEADER_SIZE :: int where "PRE_RESERVE_HEADER_SIZE = 200"

lemmas buf_consts = EXTRA_LEN_def PRE_RESERVE_HEADER_SIZE_def

definition new_DataBuffer :: "nat \<Rightarrow> data_buffer" where
  "new_DataBuffer data_size =
     \<lparr>sent_flag = False, dst_ip = [], dst_port = 0,
      buffer = replicate (data_size + nat PRE_RESERVE_HEADER_SIZE) 0, buffer_size = data_size,
      data_len = 0, start_pos = PRE_RESERVE_HEADER_SIZE, end_pos = PRE_RESERVE_HEADER_SIZE\<rparr>"

text \<open>The octets \<open>Data()\<close> points at, \<open>DataLen()\<close> of them.\<close>

definition contents :: "data_buffer \<Rightarrow> octets" where
  "contents d = take (nat (data_len d)) (drop (nat (start_pos d)) (buffer d))"

definition DataLen :: "data_buffer \<Rightarrow> int" where "DataLen d = data_len d"

definition Require :: "data_buffer \<Rightarrow> nat \<Rightarrow> bool" where
  "Require d len \<longleftrightarrow> int len \<le> data_len d"

definition Reset :: "data_buffer \<Rightarrow> data_buffer" where
  "Reset d = d\<lparr>start_pos := PRE_RESERVE_HEADER_SIZE, end_pos := PRE_RESERVE_HEADER_SIZE, data_len := 0\<rparr>"

definition GetNewSize :: "int \<Rightarrow> int" where
  "GetNewSize new_len =
     (if new_len \<le> 50 * 1024 then 50 * 1024
      else if new_len > 50 * 1024 \<and> new_len \<le> 100 * 1024 then 100 * 1024
      else if new_len > 100 * 1024 \<and> new_len \<le> 200 * 1024 then 200 * 1024
      else if new_len > 200 * 1024 \<and> new_len \<le> 500 * 1024 then 500 * 1024
      else new_len + 10 * 1024)"

text \<open>\<open>memcpy\<close> into and out of the block, with the bounds of the block.\<close>

definition peek :: "octets \<Rightarrow> int \<Rightarrow> int \<Rightarrow> buf_fault + octets" where
  "peek buf at len =
     (if at < 0 \<or> len < 0 \<or> at + len > int (length buf) then Inl HeapOverflow
      else Inr (take (nat len) (drop (nat at) buf)))"

definition poke :: "octets \<Rightarrow> int \<Rightarrow> octets \<Rightarrow> buf_fault + octets" where
  "poke buf at xs =
     (if at < 0 \<or> at + int (length xs) > int (length buf) then Inl HeapOverflow
      else Inr (take (nat at) buf @ xs @ drop (nat at + length xs) buf))"

fun andthen :: "'e + 'a \<Rightarrow> ('a \<Rightarrow> 'e + 'b) \<Rightarrow> 'e + 'b" where
  "andthen (Inl e) f = Inl e"
| "andthen (Inr x) f = f x"

text \<open>\<open>buffer_size_ - PRE_RESERVE_HEADER_SIZE\<close> on \<open>size_t\<close>.\<close>

definition room :: "data_buffer \<Rightarrow> int" where
  "room d = (int (buffer_size d) - PRE_RESERVE_HEADER_SIZE) mod 2 ^ 64"

definition AppendData :: "data_buffer \<Rightarrow> octets \<Rightarrow> buf_fault + data_buffer \<times> int" where
  "AppendData d input =
     (if input = [] then Inr (d, 0)
      else let len = int (length input); n = data_len d + len; H = PRE_RESERVE_HEADER_SIZE in
        if end_pos d + len > room d then
          (if n \<ge> room d then
             let new_len = GetNewSize (n + EXTRA_LEN) in
             andthen (peek (buffer d) (start_pos d) (data_len d)) (\<lambda>old.
             andthen (poke (replicate (nat new_len) 0) H old) (\<lambda>b1.
             andthen (poke b1 (H + data_len d) input) (\<lambda>b2.
               Inr (d\<lparr>buffer := b2, buffer_size := nat new_len, data_len := n, start_pos := H, end_pos := H + n\<rparr>,
                    n))))
           else if data_len d < start_pos d \<and> start_pos d \<noteq> H \<and> \<bar>start_pos d - H\<bar> < data_len d then Inl OverlapCopy
           else
             andthen (peek (buffer d) (start_pos d) (data_len d)) (\<lambda>old.
             andthen (poke (buffer d) H old) (\<lambda>b1.
             andthen (poke b1 (H + data_len d) input) (\<lambda>b2.
               Inr (d\<lparr>buffer := b2, data_len := n, start_pos := H, end_pos := H + n\<rparr>, n)))))
        else
          andthen (poke (buffer d) (end_pos d) input) (\<lambda>b.
            Inr (d\<lparr>buffer := b, data_len := n, end_pos := end_pos d + len\<rparr>, n)))"

text \<open>\<open>ConsumeData\<close> returns \<open>nullptr\<close> (\<open>False\<close>) without touching the buffer on a bad length.\<close>

definition ConsumeData :: "data_buffer \<Rightarrow> int \<Rightarrow> data_buffer \<times> bool" where
  "ConsumeData d consume_len =
     (if consume_len > data_len d then (d, False)
      else if consume_len < 0 \<and> start_pos d + consume_len < 0 then (d, False)
      else let d1 = d\<lparr>start_pos := start_pos d + consume_len, data_len := data_len d - consume_len\<rparr>
           in (if data_len d1 = 0 then Reset d1 else d1, True))"

text \<open>
  The copy constructor: a new block of the same size, all counters copied, and the first
  \<open>data_len\<close> octets of the source block. \<open>junk\<close> stands for the uninitialised octets of the new block.
\<close>

definition copy_DataBuffer :: "byte \<Rightarrow> data_buffer \<Rightarrow> buf_fault + data_buffer" where
  "copy_DataBuffer junk d =
     andthen (peek (buffer d) 0 (data_len d)) (\<lambda>src.
     andthen (poke (replicate (buffer_size d + nat PRE_RESERVE_HEADER_SIZE) junk) 0 src) (\<lambda>b.
       Inr (d\<lparr>buffer := b\<rparr>)))"

section \<open>Invariant\<close>

definition db_inv :: "data_buffer \<Rightarrow> bool" where
  "db_inv d \<longleftrightarrow> 0 \<le> start_pos d \<and> 0 \<le> data_len d \<and> end_pos d = start_pos d + data_len d
     \<and> end_pos d \<le> int (length (buffer d)) \<and> PRE_RESERVE_HEADER_SIZE \<le> int (buffer_size d)
     \<and> buffer_size d \<le> length (buffer d) \<and> buffer_size d < 2 ^ 64"

lemma room_eq: "db_inv d \<Longrightarrow> room d = int (buffer_size d) - PRE_RESERVE_HEADER_SIZE"
  by (simp add: room_def db_inv_def PRE_RESERVE_HEADER_SIZE_def)

lemma GetNewSize_ge: "n \<le> GetNewSize n" and GetNewSize_min: "50 * 1024 \<le> GetNewSize n"
  by (simp_all add: GetNewSize_def)

lemma GetNewSize_le: "n \<le> m \<Longrightarrow> 50 * 1024 \<le> m \<Longrightarrow> GetNewSize n \<le> 10 * m"
  by (simp add: GetNewSize_def)

lemma peek_contents: "db_inv d \<Longrightarrow> peek (buffer d) (start_pos d) (data_len d) = Inr (contents d)"
  by (simp add: peek_def contents_def db_inv_def)

lemma length_contents: "db_inv d \<Longrightarrow> int (length (contents d)) = data_len d"
  by (auto simp: contents_def db_inv_def)

lemma poke_Inr:
  "poke buf at xs = Inr b \<longleftrightarrow> 0 \<le> at \<and> at + int (length xs) \<le> int (length buf)
    \<and> b = take (nat at) buf @ xs @ drop (nat at + length xs) buf"
  by (auto simp: poke_def)

lemma window_poke:
  assumes "s + n = e" "e + length xs \<le> length buf"
  shows "take (n + length xs) (drop s (take e buf @ xs @ drop (e + length xs) buf))
    = take n (drop s buf) @ xs"
proof -
  have "drop s (take e buf @ xs @ drop (e + length xs) buf)
      = take n (drop s buf) @ xs @ drop (e + length xs) buf"
    using assms by (simp add: drop_take flip: assms(1))
  moreover have "length (take n (drop s buf)) = n" using assms by simp
  ultimately show ?thesis by simp
qed

text \<open>Both slow paths of \<open>AppendData\<close> move the old octets behind the head room and append there.\<close>

lemma rebuild:
  assumes "int (length old) = dl" "PRE_RESERVE_HEADER_SIZE + dl + int (length input) \<le> int (length blk)"
  shows "\<exists>b. andthen (poke blk PRE_RESERVE_HEADER_SIZE old)
      (\<lambda>b1. andthen (poke b1 (PRE_RESERVE_HEADER_SIZE + dl) input) k) = k b
    \<and> length b = length blk
    \<and> take (nat dl + length input) (drop (nat PRE_RESERVE_HEADER_SIZE) b) = old @ input"
proof -
  let ?H = "nat PRE_RESERVE_HEADER_SIZE"
  let ?b1 = "take ?H blk @ old @ drop (?H + length old) blk"
  have H: "?H = 200" by (simp add: PRE_RESERVE_HEADER_SIZE_def)
  have fit: "?H + length old + length input \<le> length blk"
    using assms by (simp add: PRE_RESERVE_HEADER_SIZE_def)
  have p1: "poke blk PRE_RESERVE_HEADER_SIZE old = Inr ?b1"
    using fit by (simp add: poke_Inr PRE_RESERVE_HEADER_SIZE_def)
  have l1: "length ?b1 = length blk" using fit by simp
  let ?b2 = "take (?H + length old) ?b1 @ input @ drop (?H + length old + length input) ?b1"
  have at: "nat (PRE_RESERVE_HEADER_SIZE + dl) = ?H + length old"
    using assms by (simp add: PRE_RESERVE_HEADER_SIZE_def)
  have p2: "poke ?b1 (PRE_RESERVE_HEADER_SIZE + dl) input = Inr ?b2"
    unfolding poke_Inr at l1 using assms fit by (simp add: PRE_RESERVE_HEADER_SIZE_def)
  have dl: "nat dl = length old" using assms by simp
  have "take (length old + length input) (drop ?H ?b2) = take (length old) (drop ?H ?b1) @ input"
    using fit l1 by (intro window_poke) simp_all
  moreover have "take (length old) (drop ?H ?b1) = old" using fit by simp
  moreover have "length ?b2 = length blk" using fit l1 by simp
  ultimately have "andthen (poke blk PRE_RESERVE_HEADER_SIZE old)
      (\<lambda>b1. andthen (poke b1 (PRE_RESERVE_HEADER_SIZE + dl) input) k) = k ?b2
    \<and> length ?b2 = length blk \<and> take (nat dl + length input) (drop ?H ?b2) = old @ input"
    by (simp only: p1 p2 andthen.simps dl simp_thms)
  then show ?thesis by (rule exI)
qed

section \<open>Refinement of an octet queue\<close>

text \<open>The \<open>int\<close> counters do not overflow while the buffer is below 2 GiB (less the growth step).\<close>

definition fits :: "data_buffer \<Rightarrow> octets \<Rightarrow> bool" where
  "fits d xs \<longleftrightarrow> data_len d + int (length xs) + 20 * 1024 < 2 ^ 31"

definition overlaps :: "data_buffer \<Rightarrow> octets \<Rightarrow> bool" where
  "overlaps d xs \<longleftrightarrow> int (buffer_size d) - 200 < end_pos d + int (length xs)
     \<and> data_len d + int (length xs) < int (buffer_size d) - 200
     \<and> data_len d < start_pos d \<and> start_pos d \<noteq> 200 \<and> \<bar>start_pos d - 200\<bar> < data_len d"

lemma AppendData_ok:
  assumes inv: "db_inv d" and fits: "fits d xs" and no: "\<not> overlaps d xs"
  shows "\<exists>d'. AppendData d xs = Inr (d', if xs = [] then 0 else data_len d')
    \<and> db_inv d' \<and> contents d' = contents d @ xs"
proof (cases "xs = []")
  case True
  with inv show ?thesis by (simp add: AppendData_def)
next
  case ne: False
  let ?n = "data_len d + int (length xs)"
  note room = room_eq [OF inv] and peek = peek_contents [OF inv] and len = length_contents [OF inv]
  note H = PRE_RESERVE_HEADER_SIZE_def
  have inv': "0 \<le> start_pos d" "0 \<le> data_len d" "end_pos d = start_pos d + data_len d"
      "end_pos d \<le> int (length (buffer d))" "200 \<le> int (buffer_size d)"
      "buffer_size d \<le> length (buffer d)" "buffer_size d < 2 ^ 64"
    using inv by (auto simp: db_inv_def H)
  consider (grow) "end_pos d + int (length xs) > room d" "?n \<ge> room d"
    | (move) "end_pos d + int (length xs) > room d" "\<not> ?n \<ge> room d"
    | (here) "\<not> end_pos d + int (length xs) > room d" by blast
  then show ?thesis
  proof cases
    case grow
    define L where "L = nat (GetNewSize (?n + EXTRA_LEN))"
    have L: "?n + EXTRA_LEN \<le> int L" "int L < 2 ^ 64"
      using GetNewSize_ge [of "?n + EXTRA_LEN"] fits GetNewSize_le [of "?n + EXTRA_LEN" "2 ^ 31"]
      by (auto simp: L_def fits_def EXTRA_LEN_def)
    have "PRE_RESERVE_HEADER_SIZE + data_len d + int (length xs) \<le> int (length (replicate L (0 :: byte)))"
      using L by (simp add: H EXTRA_LEN_def)
    from rebuild [OF len this, where k = "\<lambda>b2. Inr (d\<lparr>buffer := b2, buffer_size := L, data_len := ?n,
        start_pos := PRE_RESERVE_HEADER_SIZE, end_pos := PRE_RESERVE_HEADER_SIZE + ?n\<rparr>, ?n)"]
    obtain b where b: "length b = L"
        "take (nat (data_len d) + length xs) (drop (nat PRE_RESERVE_HEADER_SIZE) b) = contents d @ xs"
      and eq: "AppendData d xs = Inr (d\<lparr>buffer := b, buffer_size := L, data_len := ?n,
        start_pos := PRE_RESERVE_HEADER_SIZE, end_pos := PRE_RESERVE_HEADER_SIZE + ?n\<rparr>, ?n)"
      using grow ne by (auto simp: AppendData_def Let_def peek L_def)
    show ?thesis
      using b L inv' ne eq
      by (auto simp: db_inv_def contents_def H EXTRA_LEN_def nat_add_distrib)
  next
    case move
    have no': "\<not> (data_len d < start_pos d \<and> start_pos d \<noteq> PRE_RESERVE_HEADER_SIZE
        \<and> \<bar>start_pos d - PRE_RESERVE_HEADER_SIZE\<bar> < data_len d)"
      using no move by (auto simp: overlaps_def room H)
    have "PRE_RESERVE_HEADER_SIZE + data_len d + int (length xs) \<le> int (length (buffer d))"
      using move inv' by (simp add: room H)
    from rebuild [OF len this, where k = "\<lambda>b2. Inr (d\<lparr>buffer := b2, data_len := ?n,
        start_pos := PRE_RESERVE_HEADER_SIZE, end_pos := PRE_RESERVE_HEADER_SIZE + ?n\<rparr>, ?n)"]
    obtain b where b: "length b = length (buffer d)"
        "take (nat (data_len d) + length xs) (drop (nat PRE_RESERVE_HEADER_SIZE) b) = contents d @ xs"
      and eq: "AppendData d xs = Inr (d\<lparr>buffer := b, data_len := ?n,
        start_pos := PRE_RESERVE_HEADER_SIZE, end_pos := PRE_RESERVE_HEADER_SIZE + ?n\<rparr>, ?n)"
      using move ne no' by (auto simp: AppendData_def Let_def peek)
    show ?thesis
      using b inv' ne eq move
      by (auto simp: db_inv_def contents_def H room nat_add_distrib)
  next
    case here
    let ?b = "take (nat (end_pos d)) (buffer d) @ xs @ drop (nat (end_pos d) + length xs) (buffer d)"
    have fit: "end_pos d + int (length xs) \<le> int (length (buffer d))"
      using here inv' by (simp add: room H)
    then have "poke (buffer d) (end_pos d) xs = Inr ?b"
      using inv' by (simp add: poke_Inr)
    then have eq: "AppendData d xs = Inr (d\<lparr>buffer := ?b, data_len := ?n,
        end_pos := end_pos d + int (length xs)\<rparr>, ?n)"
      using here ne by (simp add: AppendData_def Let_def)
    have "take (nat (data_len d) + length xs) (drop (nat (start_pos d)) ?b)
        = take (nat (data_len d)) (drop (nat (start_pos d)) (buffer d)) @ xs"
      using inv' fit by (intro window_poke) auto
    with eq show ?thesis
      using inv' fit ne by (auto simp: db_inv_def contents_def H nat_add_distrib)
  qed
qed

text \<open>Without the precondition the slow path can only fault by overlap, never by leaving the block.\<close>

lemma AppendData_overlap:
  assumes "db_inv d" "xs \<noteq> []" "overlaps d xs"
  shows "AppendData d xs = Inl OverlapCopy"
  using assms by (auto simp: AppendData_def Let_def overlaps_def room_eq PRE_RESERVE_HEADER_SIZE_def)

lemma new_DataBuffer_inv:
  "200 \<le> n \<Longrightarrow> n < 2 ^ 64 \<Longrightarrow> db_inv (new_DataBuffer n)" and
  new_DataBuffer_contents: "contents (new_DataBuffer n) = []"
  by (auto simp: db_inv_def new_DataBuffer_def contents_def PRE_RESERVE_HEADER_SIZE_def)

lemma Reset_inv [kept]: "db_inv d \<Longrightarrow> db_inv (Reset d)"
  and Reset_contents: "contents (Reset d) = []"
  by (auto simp: db_inv_def Reset_def contents_def PRE_RESERVE_HEADER_SIZE_def)

lemma ConsumeData_ok:
  assumes inv: "db_inv d" and n: "n \<le> length (contents d)"
  shows "\<exists>d'. ConsumeData d (int n) = (d', True) \<and> db_inv d' \<and> contents d' = drop n (contents d)"
proof -
  have dl: "data_len d = int (length (contents d))" using length_contents [OF inv] by simp
  have i: "0 \<le> start_pos d" "end_pos d = start_pos d + data_len d"
      "end_pos d \<le> int (length (buffer d))"
    using inv by (auto simp: db_inv_def)
  let ?d = "d\<lparr>start_pos := start_pos d + int n, data_len := data_len d - int n\<rparr>"
  have d1: "db_inv ?d" using inv n dl by (auto simp: db_inv_def)
  have "contents ?d = drop n (contents d)"
    using i by (simp add: contents_def drop_take nat_add_distrib nat_diff_distrib add.commute nat_minus_as_int)
  with d1 n dl show ?thesis
    by (auto simp: ConsumeData_def Let_def Reset_contents intro: Reset_inv)
qed

lemma ConsumeData_refuses:
  "data_len d < n \<Longrightarrow> ConsumeData d n = (d, False)"
  by (simp add: ConsumeData_def)

section \<open>The queue interface and its client\<close>

text \<open>
  What a parser relies on: appending what fits puts octets at the back, consuming what is
  there removes them from the front. A client runs any interleaving of the two.
\<close>

datatype 'a fifo_op = Put "'a list" | Take nat

fun puts :: "'a fifo_op list \<Rightarrow> 'a list" where
  "puts [] = []"
| "puts (Put xs # ops) = xs @ puts ops"
| "puts (Take n # ops) = puts ops"

fun takes :: "'a fifo_op list \<Rightarrow> nat" where
  "takes [] = 0"
| "takes (Put xs # ops) = takes ops"
| "takes (Take n # ops) = n + takes ops"

locale byte_fifo =
  fixes inv :: "'s \<Rightarrow> bool" and view :: "'s \<Rightarrow> 'a list"
    and accepts :: "'s \<Rightarrow> 'a list \<Rightarrow> bool"
    and put :: "'s \<Rightarrow> 'a list \<Rightarrow> 's option" and drops :: "'s \<Rightarrow> nat \<Rightarrow> 's option"
  assumes put_ok: "inv s \<Longrightarrow> accepts s xs \<Longrightarrow> \<exists>s'. put s xs = Some s' \<and> inv s' \<and> view s' = view s @ xs"
    and drop_ok: "inv s \<Longrightarrow> n \<le> length (view s) \<Longrightarrow> \<exists>s'. drops s n = Some s' \<and> inv s' \<and> view s' = drop n (view s)"
begin

fun run :: "'s \<Rightarrow> 'a fifo_op list \<Rightarrow> 's option" where
  "run s [] = Some s"
| "run s (Put xs # ops) = (case put s xs of None \<Rightarrow> None | Some s' \<Rightarrow> run s' ops)"
| "run s (Take n # ops) = (case drops s n of None \<Rightarrow> None | Some s' \<Rightarrow> run s' ops)"

fun runnable :: "'s \<Rightarrow> 'a fifo_op list \<Rightarrow> bool" where
  "runnable s [] \<longleftrightarrow> True"
| "runnable s (Put xs # ops) \<longleftrightarrow> accepts s xs \<and> (case put s xs of None \<Rightarrow> False | Some s' \<Rightarrow> runnable s' ops)"
| "runnable s (Take n # ops) \<longleftrightarrow> n \<le> length (view s)
     \<and> (case drops s n of None \<Rightarrow> False | Some s' \<Rightarrow> runnable s' ops)"

lemma fifo_order:
  assumes "inv s" "runnable s ops"
  shows "\<exists>s'. run s ops = Some s' \<and> inv s' \<and> view s' = drop (takes ops) (view s @ puts ops)"
  using assms
proof (induction ops arbitrary: s rule: puts.induct)
  case (2 xs ops)
  from put_ok [OF 2(2)] 2(3) obtain t where t: "put s xs = Some t" "inv t" "view t = view s @ xs"
    by auto
  with 2(3) 2(1) [of t] show ?case by auto
next
  case (3 n ops)
  from drop_ok [OF 3(2)] 3(3) obtain t where t: "drops s n = Some t" "inv t" "view t = drop n (view s)"
    by auto
  moreover have "n \<le> length (view s)" using 3(3) by simp
  ultimately show ?case using 3(3) 3(1) [of t] by (auto simp: add.commute)
qed auto

end

definition append_op :: "data_buffer \<Rightarrow> octets \<Rightarrow> data_buffer option" where
  "append_op d xs = (case AppendData d xs of Inl _ \<Rightarrow> None | Inr (d', _) \<Rightarrow> Some d')"

definition consume_op :: "data_buffer \<Rightarrow> nat \<Rightarrow> data_buffer option" where
  "consume_op d n = (case ConsumeData d (int n) of (d', ok) \<Rightarrow> if ok then Some d' else None)"

definition appendable :: "data_buffer \<Rightarrow> octets \<Rightarrow> bool" where
  "appendable d xs \<longleftrightarrow> fits d xs \<and> \<not> overlaps d xs"

interpretation buf: byte_fifo db_inv contents appendable append_op consume_op
proof unfold_locales
  fix s xs assume "db_inv s" "appendable s xs"
  with AppendData_ok [of s xs]
  show "\<exists>s'. append_op s xs = Some s' \<and> db_inv s' \<and> contents s' = contents s @ xs"
    by (auto simp: append_op_def appendable_def)
next
  fix s n assume "db_inv s" "n \<le> length (contents s)"
  from ConsumeData_ok [OF this]
  show "\<exists>s'. consume_op s n = Some s' \<and> db_inv s' \<and> contents s' = drop n (contents s)"
    by (auto simp: consume_op_def)
qed

section \<open>Properties\<close>

text \<open>
  C13. Any interleaving of \<open>AppendData\<close> and \<open>ConsumeData\<close> calls on a fresh buffer of at
  least 200 octets, each append below the \<open>int\<close> range and not a copy of overlapping regions, succeeds,
  keeps the window inside the heap block, and the buffer then holds exactly the appended octets
  in order, less the consumed ones from the front.
\<close>

theorem data_buffer_is_a_fifo:
  assumes "200 \<le> n" "n < 2 ^ 64" "buf.runnable (new_DataBuffer n) ops"
  shows "\<exists>d. buf.run (new_DataBuffer n) ops = Some d \<and> db_inv d \<and> contents d = drop (takes ops) (puts ops)"
  using buf.fifo_order [OF new_DataBuffer_inv [OF assms(1,2)] assms(3)]
  by (simp add: new_DataBuffer_contents)

theorem data_buffer_is_a_fifo_witness:
  "\<exists>d. buf.run (new_DataBuffer 1000) [Put [1, 2, 3], Take 2, Put []] = Some d \<and> db_inv d \<and> contents d = [3]"
proof -
  have ok: "db_inv (new_DataBuffer 1000)" by (rule new_DataBuffer_inv) simp_all
  define xs :: octets where "xs = [1, 2, 3]"
  have a: "appendable (new_DataBuffer 1000) xs"
    by (simp add: appendable_def fits_def overlaps_def new_DataBuffer_def xs_def)
  obtain d where d: "append_op (new_DataBuffer 1000) xs = Some d"
    and p: "start_pos d = 200" "data_len d = 3" "end_pos d = 203" "buffer_size d = 1000"
    by (simp add: append_op_def AppendData_def room_def new_DataBuffer_def xs_def poke_def
        PRE_RESERVE_HEADER_SIZE_def)
  from buf.put_ok [OF ok a] d have c: "contents d = xs" by (auto simp: new_DataBuffer_contents)
  obtain d' where d': "consume_op d 2 = Some d'" and p': "start_pos d' = 202" "data_len d' = 1" "end_pos d' = 203"
      "buffer_size d' = 1000"
    using p by (auto simp: consume_op_def ConsumeData_def Let_def)
  have a': "appendable d' []" using p' by (simp add: appendable_def fits_def overlaps_def)
  have e: "append_op d' [] = Some d'" by (simp add: append_op_def AppendData_def)
  have "buf.runnable (new_DataBuffer 1000) [Put xs, Take 2, Put []]"
    using a d c d' a' e by (simp add: xs_def)
  from data_buffer_is_a_fifo [OF _ _ this] show ?thesis by (simp add: xs_def)
qed

text \<open>
  A buffer created with fewer than 200 octets (the callers pass the length of the data they
  are about to append) has no effective bound: \<open>buffer_size_ - PRE_RESERVE_HEADER_SIZE\<close> wraps
  around on \<open>size_t\<close>, so an append longer than the requested size is written past the heap block
  instead of growing it; exactly the appends up to the requested size stay inside.
\<close>

theorem small_buffer_overflow:
  assumes "n < 200" "int (length xs) < 2 ^ 31"
  shows "AppendData (new_DataBuffer n) xs = Inl HeapOverflow \<longleftrightarrow> n < length xs"
proof -
  have "room (new_DataBuffer n) = 2 ^ 64 + int n - 200"
  proof -
    have "(int n - 200) mod 2 ^ 64 = (int n - 200 + 2 ^ 64) mod 2 ^ 64" by (rule mod_add_self2 [symmetric])
    also have "\<dots> = int n - 200 + 2 ^ 64" using assms by (intro mod_pos_pos_trivial) auto
    finally show ?thesis by (simp add: room_def new_DataBuffer_def PRE_RESERVE_HEADER_SIZE_def)
  qed
  with assms show ?thesis
    by (auto simp: AppendData_def Let_def poke_def new_DataBuffer_def PRE_RESERVE_HEADER_SIZE_def)
qed

theorem small_buffer_overflow_witness:
  "AppendData (new_DataBuffer 2) [1, 2, 3] = Inl HeapOverflow"
  using small_buffer_overflow [of 2 "[1, 2, 3]"] by simp

text \<open>
  The copy constructor and the assignment of \<open>DataBuffer\<close> are meant to be deep copies, but
  they copy the first \<open>data_len_\<close> octets of the heap block and not the window: as long as the window
  does not reach into the part copied, every octet the copy shows is uninitialised memory,
  whatever the original held.
\<close>

theorem copy_loses_contents:
  assumes "db_inv d" "data_len d \<le> start_pos d" "end_pos d \<le> int (buffer_size d) + 200"
  shows "map_sum id contents (copy_DataBuffer junk d) = Inr (replicate (length (contents d)) junk)"
proof -
  have i: "0 \<le> start_pos d" "0 \<le> data_len d" "end_pos d = start_pos d + data_len d"
      "end_pos d \<le> int (length (buffer d))"
    using assms by (auto simp: db_inv_def)
  have len: "length (contents d) = nat (data_len d)"
    using length_contents [OF assms(1)] by simp
  let ?b = "take (nat (data_len d)) (buffer d) @ replicate (buffer_size d + 200 - nat (data_len d)) junk"
  have 1: "copy_DataBuffer junk d = Inr (d\<lparr>buffer := ?b\<rparr>)"
    using i assms by (auto simp: copy_DataBuffer_def peek_def poke_def PRE_RESERVE_HEADER_SIZE_def)
  have "take (nat (data_len d)) (drop (nat (start_pos d)) ?b) = replicate (nat (data_len d)) junk"
    using i assms by (auto simp: min_def nat_add_distrib)
  with 1 len show ?thesis by (simp add: contents_def)
qed

theorem copy_loses_contents_witness:
  "\<exists>d. append_op (new_DataBuffer 1000) [1, 2, 3] = Some d
     \<and> map_sum id contents (copy_DataBuffer 0xAA d) = Inr [0xAA, 0xAA, 0xAA]"
proof -
  have ok: "db_inv (new_DataBuffer 1000)" by (rule new_DataBuffer_inv) simp_all
  define xs :: octets where "xs = [1, 2, 3]"
  obtain d where d: "append_op (new_DataBuffer 1000) xs = Some d"
    and p: "start_pos d = 200" "data_len d = 3" "end_pos d = 203" "buffer_size d = 1000"
    by (simp add: append_op_def AppendData_def room_def new_DataBuffer_def xs_def poke_def
        PRE_RESERVE_HEADER_SIZE_def)
  have "appendable (new_DataBuffer 1000) xs"
    by (simp add: appendable_def fits_def overlaps_def new_DataBuffer_def xs_def)
  from buf.put_ok [OF ok this] d have "db_inv d" "contents d = xs"
    by (auto simp: new_DataBuffer_contents)
  with copy_loses_contents [of d "0xAA"] p have
    "map_sum id contents (copy_DataBuffer 0xAA d) = Inr [0xAA, 0xAA, 0xAA]"
    by (simp add: xs_def numeral_eq_Suc)
  with d show ?thesis by (auto simp: xs_def)
qed

end
