(* ===== verification/Media.thy ===== *)
theory Media
  imports Data_Buffer
begin

text \<open>
  Media packets and the GOP cache: the enumerations of \<open>utils/av/av.hpp\<close>, class
  \<open>Media_Packet\<close> of \<open>utils/av/media_packet.hpp\<close> (its payload is the octets its \<open>DataBuffer\<close> holds;
  the MP4 box and reader pointers and the never initialised \<open>metadata_type_\<close> are left out), the
  writer interface \<open>AvWriterInterface\<close> as a record of operations over any writer state, and
  \<open>GopCache\<close> of \<open>gop_cache.cpp\<close>. The locale \<open>av_writer\<close> states what the code assumes of a writer: its key
  and its id do not change, and the init flag is what it was set to.
\<close>

datatype MEDIA_PKT_TYPE = MEDIA_UNKNOWN_TYPE | MEDIA_VIDEO_TYPE | MEDIA_AUDIO_TYPE
  | MEDIA_MOVBOX_TYPE | MEDIA_METADATA_TYPE

datatype MEDIA_CODEC_TYPE = MEDIA_CODEC_UNKNOWN | MEDIA_CODEC_H264 | MEDIA_CODEC_H265
  | MEDIA_CODEC_H266 | MEDIA_CODEC_VP8 | MEDIA_CODEC_VP9 | MEDIA_CODEC_AV1
  | MEDIA_CODEC_AAC | MEDIA_CODEC_OPUS | MEDIA_CODEC_MP3

datatype MEDIA_FORMAT_TYPE = MEDIA_FORMAT_UNKOWN | MEDIA_FORMAT_RAW | MEDIA_FORMAT_FLV
  | MEDIA_FORMAT_MPEGTS

datatype NALU_FORMAT_TYPE = NALU_FORMAT_UNKNOWN | NALU_FORMAT_ANNEXB | NALU_FORMAT_AVCC

definition avtype_tostring :: "MEDIA_PKT_TYPE \<Rightarrow> string" where
  "avtype_tostring t = (case t of
     MEDIA_VIDEO_TYPE \<Rightarrow> ''video'' | MEDIA_AUDIO_TYPE \<Rightarrow> ''audio''
   | MEDIA_METADATA_TYPE \<Rightarrow> ''metadata'' | _ \<Rightarrow> ''unkown'')"

definition codectype_tostring :: "MEDIA_CODEC_TYPE \<Rightarrow> string" where
  "codectype_tostring t = (case t of
     MEDIA_CODEC_H264 \<Rightarrow> ''h264'' | MEDIA_CODEC_H265 \<Rightarrow> ''h265'' | MEDIA_CODEC_VP8 \<Rightarrow> ''vp8''
   | MEDIA_CODEC_VP9 \<Rightarrow> ''vp9'' | MEDIA_CODEC_AAC \<Rightarrow> ''aac'' | MEDIA_CODEC_OPUS \<Rightarrow> ''opus''
   | MEDIA_CODEC_MP3 \<Rightarrow> ''mp3'' | _ \<Rightarrow> ''unknown'')"

definition formattype_tostring :: "MEDIA_FORMAT_TYPE \<Rightarrow> string" where
  "formattype_tostring t = (case t of
     MEDIA_FORMAT_RAW \<Rightarrow> ''raw'' | MEDIA_FORMAT_FLV \<Rightarrow> ''flv'' | MEDIA_FORMAT_MPEGTS \<Rightarrow> ''mpegts''
   | _ \<Rightarrow> ''unkown'')"

definition ASC_TYPE_AAC_LC :: byte where "ASC_TYPE_AAC_LC = 2"

record media_packet =
  av_type :: MEDIA_PKT_TYPE
  codec_type :: MEDIA_CODEC_TYPE
  fmt_type :: MEDIA_FORMAT_TYPE
  nalu_fmt_type :: NALU_FORMAT_TYPE
  dts :: int
  pts :: int
  is_key_frame :: bool
  is_seq_hdr :: bool
  has_flv_audio_asc :: bool
  payload :: octets
  metadata :: "(string \<times> string) list"
  sample_rate :: int
  sample_size :: int
  channel :: byte
  aac_asc_type :: byte
  pkt_key :: string
  vhost :: string
  app :: string
  streamname :: string
  streamid :: u32
  typeid :: byte
  flv_offset :: nat

definition new_Media_Packet :: media_packet where
  "new_Media_Packet =
     \<lparr>av_type = MEDIA_UNKNOWN_TYPE, codec_type = MEDIA_CODEC_UNKNOWN, fmt_type = MEDIA_FORMAT_UNKOWN,
      nalu_fmt_type = NALU_FORMAT_UNKNOWN, dts = -1, pts = -1, is_key_frame = False,
      is_seq_hdr = False, has_flv_audio_asc = False, payload = [], metadata = [],
      sample_rate = 44100, sample_size = 1, channel = 2, aac_asc_type = ASC_TYPE_AAC_LC,
      pkt_key = [], vhost = [], app = [], streamname = [], streamid = 0, typeid = 0, flv_offset = 0\<rparr>"

definition copy_properties :: "media_packet \<Rightarrow> media_packet \<Rightarrow> media_packet" where
  "copy_properties this pkt = this\<lparr>
     av_type := av_type pkt, codec_type := codec_type pkt, fmt_type := fmt_type pkt,
     dts := dts pkt, pts := pts pkt, is_key_frame := is_key_frame pkt, is_seq_hdr := is_seq_hdr pkt,
     pkt_key := pkt_key pkt, vhost := vhost pkt, app := app pkt, streamname := streamname pkt,
     streamid := streamid pkt, typeid := typeid pkt, flv_offset := flv_offset pkt\<rparr>"

text \<open>
  \<open>copy\<close> on the packet, and the copy of its buffer: a fresh \<open>DataBuffer\<close> of the length plus
  1024 octets, one \<open>AppendData\<close>. \<open>copy_payload_ok\<close> is the reason the packet level may keep octets.
\<close>

definition copy_payload :: "data_buffer \<Rightarrow> buf_fault + data_buffer \<times> int" where
  "copy_payload d = AppendData (new_DataBuffer (nat (DataLen d) + 1024)) (contents d)"

definition copy_packet :: "media_packet \<Rightarrow> media_packet" where
  "copy_packet p = (copy_properties new_Media_Packet p)\<lparr>payload := payload p\<rparr>"

text \<open>
  \<open>Media_Packet::copy\<close> really copies the payload: from a well-formed buffer it builds, with no
  fault, a well-formed buffer whose window holds the same octets (the pitfalls of small and of
  copied \<open>DataBuffer\<close>s do not reach it).
\<close>

theorem copy_payload_ok:
  assumes "db_inv d" "data_len d < 2 ^ 31 - 30000"
  shows "\<exists>d' n. copy_payload d = Inr (d', n) \<and> db_inv d' \<and> contents d' = contents d"
proof -
  have dl: "int (length (contents d)) = data_len d" "0 \<le> data_len d"
    using assms length_contents by (auto simp: db_inv_def)
  let ?n = "new_DataBuffer (nat (DataLen d) + 1024)"
  have "db_inv ?n" using assms dl by (intro new_DataBuffer_inv) (auto simp: DataLen_def)
  moreover have "fits ?n (contents d)" "\<not> overlaps ?n (contents d)"
    using assms dl by (auto simp: fits_def overlaps_def new_DataBuffer_def)
  ultimately show ?thesis
    using AppendData_ok [of ?n "contents d"] by (auto simp: copy_payload_def new_DataBuffer_contents)
qed

theorem copy_payload_ok_witness:
  "\<exists>d n. copy_payload (new_DataBuffer 500) = Inr (d, n) \<and> contents d = []"
proof -
  have "db_inv (new_DataBuffer 500)" by (rule new_DataBuffer_inv) simp_all
  from copy_payload_ok [OF this] show ?thesis
    by (auto simp: new_DataBuffer_contents new_DataBuffer_def contents_def)
qed

lemma copy_packet_simps [simp]:
  "av_type (copy_packet p) = av_type p" "is_key_frame (copy_packet p) = is_key_frame p"
  "is_seq_hdr (copy_packet p) = is_seq_hdr p" "payload (copy_packet p) = payload p"
  "dts (copy_packet p) = dts p" "pts (copy_packet p) = pts p"
  "copy_packet (copy_packet p) = copy_packet p"
  by (simp_all add: copy_packet_def copy_properties_def)

section \<open>Writers\<close>

record 'w av_ops =
  WritePacket :: "'w \<Rightarrow> media_packet \<Rightarrow> 'w \<times> int"
  GetKey :: "'w \<Rightarrow> string"
  GetWriterId :: "'w \<Rightarrow> string"
  CloseWriter :: "'w \<Rightarrow> 'w"
  IsInited :: "'w \<Rightarrow> bool"
  SetInitFlag :: "'w \<Rightarrow> bool \<Rightarrow> 'w"

locale av_writer =
  fixes V :: "'w av_ops"
  assumes key_write: "GetKey V (fst (WritePacket V w p)) = GetKey V w"
    and id_write: "GetWriterId V (fst (WritePacket V w p)) = GetWriterId V w"
    and inited_write: "IsInited V (fst (WritePacket V w p)) = IsInited V w"
    and key_init: "GetKey V (SetInitFlag V w b) = GetKey V w"
    and id_init: "GetWriterId V (SetInitFlag V w b) = GetWriterId V w"
    and inited_init: "IsInited V (SetInitFlag V w b) = b"
    and key_close: "GetKey V (CloseWriter V w) = GetKey V w"
    and id_close: "GetWriterId V (CloseWriter V w) = GetWriterId V w"

section \<open>GOP cache\<close>

record gop_cache =
  packets :: "media_packet list"
  audio_hdr :: "media_packet option"
  video_hdr :: "media_packet option"

definition new_GopCache :: gop_cache where
  "new_GopCache = \<lparr>packets = [], audio_hdr = None, video_hdr = None\<rparr>"

definition opens_gop :: "media_packet \<Rightarrow> bool" where
  "opens_gop pkt \<longleftrightarrow> av_type pkt = MEDIA_VIDEO_TYPE \<and> is_key_frame pkt"

fun Input :: "gop_cache \<Rightarrow> media_packet option \<Rightarrow> gop_cache" where
  "Input g None = g"
| "Input g (Some pkt) =
     (if is_seq_hdr pkt then
        if av_type pkt = MEDIA_AUDIO_TYPE then g\<lparr>audio_hdr := Some (copy_packet pkt)\<rparr>
        else if av_type pkt = MEDIA_VIDEO_TYPE then g\<lparr>video_hdr := Some (copy_packet pkt)\<rparr>
        else g
      else
        let g1 = (if opens_gop pkt then g\<lparr>packets := []\<rparr> else g)
        in g1\<lparr>packets := packets g1 @ [copy_packet pkt]\<rparr>)"

definition InsertPacket :: "gop_cache \<Rightarrow> media_packet option \<Rightarrow> gop_cache \<times> nat" where
  "InsertPacket g pkt = (let g' = Input g pkt in (g', length (packets g')))"

definition Clear :: "gop_cache \<Rightarrow> gop_cache" where
  "Clear g = g\<lparr>packets := [], audio_hdr := None, video_hdr := None\<rparr>"

fun write_all :: "'w av_ops \<Rightarrow> 'w \<Rightarrow> media_packet list \<Rightarrow> int \<Rightarrow> 'w \<times> int" where
  "write_all V w [] ret = (w, ret)"
| "write_all V w (p # ps) ret =
     (case WritePacket V w p of (w', r) \<Rightarrow> if r < 0 then (w', r) else write_all V w' ps r)"

fun write_hdr :: "'w av_ops \<Rightarrow> 'w \<Rightarrow> media_packet option \<Rightarrow> int \<Rightarrow> 'w \<times> int" where
  "write_hdr V w None ret = (w, ret)"
| "write_hdr V w (Some h) ret = (if payload h \<noteq> [] then WritePacket V w h else (w, ret))"

fun WriterGop :: "'w av_ops \<Rightarrow> gop_cache \<Rightarrow> 'w option \<Rightarrow> 'w option \<times> int" where
  "WriterGop V g None = (None, -1)"
| "WriterGop V g (Some w) =
     (case write_hdr V w (video_hdr g) 0 of (w1, r1) \<Rightarrow>
        if r1 < 0 then (Some w1, r1)
        else case write_hdr V w1 (audio_hdr g) r1 of (w2, r2) \<Rightarrow>
          if r2 < 0 then (Some w2, r2)
          else map_prod Some id (write_all V w2 (packets g) r2))"

section \<open>What the cache holds\<close>

definition nonempty_hdr :: "media_packet option \<Rightarrow> media_packet list" where
  "nonempty_hdr h = (case h of None \<Rightarrow> [] | Some p \<Rightarrow> if payload p \<noteq> [] then [p] else [])"

definition replay :: "gop_cache \<Rightarrow> media_packet list" where
  "replay g = nonempty_hdr (video_hdr g) @ nonempty_hdr (audio_hdr g) @ packets g"

lemma write_all_append:
  "write_all V w (xs @ ys) ret =
     (case write_all V w xs ret of (w', r) \<Rightarrow> if xs \<noteq> [] \<and> r < 0 then (w', r) else write_all V w' ys r)"
proof (induction xs arbitrary: w ret)
  case (Cons x xs)
  then show ?case by (cases "xs = []") (auto split: prod.splits)
qed simp

lemma write_hdr_eq: "write_hdr V w h ret = write_all V w (nonempty_hdr h) ret"
  by (cases h) (auto simp: nonempty_hdr_def split: prod.splits)

lemma write_all_nil_ret: "write_all V w (nonempty_hdr h) r = (w', r') \<Longrightarrow> 0 \<le> r \<Longrightarrow> r' < 0 \<Longrightarrow> nonempty_hdr h \<noteq> []"
  by (cases "nonempty_hdr h") auto

lemma WriterGop_replays_raw: "WriterGop V g (Some w) = map_prod Some id (write_all V w (replay g) 0)"
  by (auto simp: replay_def write_hdr_eq write_all_append split: prod.splits
      dest: write_all_nil_ret [where r = 0])

text \<open>
  Replaying a GOP sends a player the video sequence header, the audio sequence header (each
  only when it has octets) and then the cached frames in arrival order, and stops with the
  error of the first packet the writer refuses.
\<close>

theorem WriterGop_replays: "WriterGop V g (Some w) = map_prod Some id (write_all V w (replay g) 0)"
  by (rule WriterGop_replays_raw)

text \<open>The reference: everything but sequence headers from the last video key frame on.\<close>

definition frames :: "media_packet list \<Rightarrow> media_packet list" where
  "frames ps = filter (\<lambda>p. \<not> is_seq_hdr p) ps"

fun last_gop :: "media_packet list \<Rightarrow> media_packet list" where
  "last_gop [] = []"
| "last_gop (p # ps) = (if \<exists>q\<in>set ps. opens_gop q then last_gop ps else p # ps)"

definition last_hdr :: "MEDIA_PKT_TYPE \<Rightarrow> media_packet list \<Rightarrow> media_packet option" where
  "last_hdr t ps = fold (\<lambda>p h. if is_seq_hdr p \<and> av_type p = t then Some p else h) ps None"

definition feed :: "gop_cache \<Rightarrow> media_packet list \<Rightarrow> gop_cache" where
  "feed g ps = foldl (\<lambda>g p. Input g (Some p)) g ps"

lemma last_gop_snoc:
  "last_gop (ps @ [p]) = (if opens_gop p then [p] else last_gop ps @ [p])"
  by (induction ps) auto

lemma feed_snoc: "feed g (ps @ [p]) = Input (feed g ps) (Some p)"
  by (simp add: feed_def)

lemma packets_feed:
  "packets (feed new_GopCache ps) = map copy_packet (last_gop (frames ps))"
proof (induction ps rule: rev_induct)
  case (snoc p ps)
  then show ?case by (auto simp: feed_snoc frames_def last_gop_snoc Let_def)
qed (simp add: feed_def new_GopCache_def frames_def)

lemma hdrs_feed:
  "video_hdr (feed new_GopCache ps) = map_option copy_packet (last_hdr MEDIA_VIDEO_TYPE ps)"
  "audio_hdr (feed new_GopCache ps) = map_option copy_packet (last_hdr MEDIA_AUDIO_TYPE ps)"
proof (induction ps rule: rev_induct)
  case (snoc p ps)
  case 1 then show ?case using snoc by (auto simp: feed_snoc last_hdr_def Let_def)
  case 2 then show ?case using snoc by (auto simp: feed_snoc last_hdr_def Let_def)
qed (simp_all add: feed_def new_GopCache_def last_hdr_def)

lemma opens_gop_copy [simp]: "opens_gop (copy_packet p) = opens_gop p"
  by (simp add: opens_gop_def)

lemma last_gop_opens:
  "\<exists>p\<in>set ps. opens_gop p \<Longrightarrow> \<exists>k rest. last_gop ps = k # rest \<and> opens_gop k \<and> (\<forall>q\<in>set rest. \<not> opens_gop q)"
  by (induction ps) auto

text \<open>
  C19. Whatever packets came in, the cache holds the latest sequence header of each kind and
  exactly the frames from the last video key frame on, in order; an audio frame never resets it,
  although audio frames are flagged as key frames too.
\<close>

theorem gop_cache_contents:
  "feed new_GopCache ps =
     \<lparr>packets = map copy_packet (last_gop (frames ps)),
      audio_hdr = map_option copy_packet (last_hdr MEDIA_AUDIO_TYPE ps),
      video_hdr = map_option copy_packet (last_hdr MEDIA_VIDEO_TYPE ps)\<rparr>"
  by (rule gop_cache.equality) (simp_all add: packets_feed hdrs_feed)

text \<open>
  Once a video key frame has arrived, a replay starts with one: the cached frames are a
  key frame followed by frames none of which is a video key frame.
\<close>

theorem gop_starts_with_key_frame:
  assumes "p \<in> set ps" "opens_gop p" "\<not> is_seq_hdr p"
  shows "\<exists>k rest. packets (feed new_GopCache ps) = k # rest \<and> opens_gop k
    \<and> (\<forall>q\<in>set rest. \<not> opens_gop q)"
proof -
  have "\<exists>p\<in>set (frames ps). opens_gop p" using assms by (auto simp: frames_def)
  from last_gop_opens [OF this] show ?thesis by (auto simp: packets_feed)
qed

theorem gop_starts_with_key_frame_witness:
  "\<exists>k rest. packets (feed new_GopCache
      [new_Media_Packet\<lparr>av_type := MEDIA_AUDIO_TYPE\<rparr>,
       new_Media_Packet\<lparr>av_type := MEDIA_VIDEO_TYPE, is_key_frame := True\<rparr>]) = k # rest
    \<and> opens_gop k \<and> (\<forall>q\<in>set rest. \<not> opens_gop q)"
  by (rule gop_starts_with_key_frame
      [where p = "new_Media_Packet\<lparr>av_type := MEDIA_VIDEO_TYPE, is_key_frame := True\<rparr>"])
    (simp_all add: opens_gop_def new_Media_Packet_def)

end
