(* ===== verification/Stream_Manager.thy ===== *)
theory Stream_Manager
  imports Media "HOL-Library.AList"
begin

text \<open>
  The process-wide table of live streams, \<open>utils/av/media_stream_manager.cpp\<close>: who
  publishes a stream, who plays it, its GOP cache, catalogue and clock. A stream table is an
  association list by stream key and \<open>writer_map_\<close> one by writer id (the code's
  \<open>unordered_map\<close>s; nothing proved depends on the order). Writers live in a heap of pointers and are
  reached through the operations of \<open>av_ops\<close>. Callbacks are events in order, and the clock is an argument.
\<close>

type_synonym ptr = nat

record media_stream =
  stream_key :: string
  publisher_exist :: bool
  clock_reset_pending :: bool
  publisher_id :: string
  claim_window_ms :: int
  claim_takeovers :: int
  last_in_video_dts :: int
  last_in_audio_dts :: int
  last_in_dts :: int
  last_out_dts :: int
  ts_shift :: int
  skew_warn_s :: int
  gop :: gop_cache
  writer_map :: "(string \<times> ptr) list"
  catalog_json :: string
  catalog_rev :: nat

definition new_MediaStream :: media_stream where
  "new_MediaStream =
     \<lparr>stream_key = [], publisher_exist = False, clock_reset_pending = False, publisher_id = [],
      claim_window_ms = 0, claim_takeovers = 0, last_in_video_dts = -1, last_in_audio_dts = -1,
      last_in_dts = -1, last_out_dts = -1, ts_shift = 0, skew_warn_s = 0, gop = new_GopCache,
      writer_map = [], catalog_json = [], catalog_rev = 0\<rparr>"

section \<open>Timestamps\<close>

definition last_in_of :: "media_stream \<Rightarrow> MEDIA_PKT_TYPE \<Rightarrow> int" where
  "last_in_of s t = (if t = MEDIA_VIDEO_TYPE then last_in_video_dts s
     else if t = MEDIA_AUDIO_TYPE then last_in_audio_dts s else last_in_dts s)"

definition set_last_in :: "media_stream \<Rightarrow> MEDIA_PKT_TYPE \<Rightarrow> int \<Rightarrow> media_stream" where
  "set_last_in s t d = (if t = MEDIA_VIDEO_TYPE then s\<lparr>last_in_video_dts := d\<rparr>
     else if t = MEDIA_AUDIO_TYPE then s\<lparr>last_in_audio_dts := d\<rparr> else s\<lparr>last_in_dts := d\<rparr>)"

definition forget_tracks :: "media_stream \<Rightarrow> media_stream" where
  "forget_tracks s = s\<lparr>last_in_video_dts := -1, last_in_audio_dts := -1, last_in_dts := -1\<rparr>"

definition rebase :: "media_stream \<Rightarrow> media_packet \<Rightarrow> int \<Rightarrow> media_stream" where
  "rebase s pkt d =
     (if clock_reset_pending s \<and> last_out_dts s \<ge> 0 then
        forget_tracks (s\<lparr>ts_shift := last_out_dts s + 40 - d, clock_reset_pending := False\<rparr>)
      else if \<not> is_seq_hdr pkt \<and> last_in_of s (av_type pkt) \<ge> 0 \<and> d + 1000 < last_in_of s (av_type pkt) then
        forget_tracks (s\<lparr>ts_shift := (if last_out_dts s < 0 then 0 else last_out_dts s) + 40 - d\<rparr>)
      else s)"

definition warn_skew :: "int \<Rightarrow> media_stream \<Rightarrow> media_stream" where
  "warn_skew now_ms s =
     (if last_in_video_dts s \<ge> 0 \<and> last_in_audio_dts s \<ge> 0 then
        let skew = last_in_video_dts s - last_in_audio_dts s; now_s = now_ms div 1000 in
        if (skew > 1000 \<or> skew < -1000) \<and> now_s \<noteq> skew_warn_s s then s\<lparr>skew_warn_s := now_s\<rparr> else s
      else s)"

definition NormalizeDts :: "int \<Rightarrow> media_stream \<Rightarrow> media_packet \<Rightarrow> media_stream \<times> media_packet" where
  "NormalizeDts now_ms s pkt =
     (let d = (if dts pkt < 0 then 0 else dts pkt);
          p = (if pts pkt < 0 then d else pts pkt);
          cts = p - d;
          s1 = (rebase s pkt d)\<lparr>clock_reset_pending := False\<rparr>;
          s2 = (if \<not> is_seq_hdr pkt then set_last_in s1 (av_type pkt) d else s1);
          s3 = warn_skew now_ms s2;
          d1 = (let x = d + ts_shift s3 in if x < 0 then 0 else x);
          p1 = (let x = d1 + cts in if x < 0 then d1 else x);
          s4 = (if \<not> is_seq_hdr pkt then s3\<lparr>last_out_dts := d1\<rparr> else s3)
      in (s4, pkt\<lparr>dts := d1, pts := p1\<rparr>))"

section \<open>The table\<close>

datatype event = OnPublish nat string string | OnUnpublish nat string string
  | Play string | CatalogUpdated nat string nat

record 'w manager =
  streams :: "(string \<times> media_stream) list"
  cb_vec :: "nat list"
  catalog_updated_cbs :: "nat list"
  hls_writer :: "ptr option"
  r2r_writer :: "ptr option"
  play_cb :: bool
  heap :: "ptr \<Rightarrow> 'w"
  events :: "event list"

definition find_stream :: "'w manager \<Rightarrow> string \<Rightarrow> media_stream option" where
  "find_stream m k = map_of (streams m) k"

definition put_stream :: "string \<Rightarrow> media_stream \<Rightarrow> 'w manager \<Rightarrow> 'w manager" where
  "put_stream k s m = m\<lparr>streams := AList.update k s (streams m)\<rparr>"

definition erase_stream :: "string \<Rightarrow> 'w manager \<Rightarrow> 'w manager" where
  "erase_stream k m = m\<lparr>streams := AList.delete k (streams m)\<rparr>"

definition emit :: "event list \<Rightarrow> 'w manager \<Rightarrow> 'w manager" where
  "emit es m = m\<lparr>events := events m @ es\<rparr>"

definition set_writer :: "ptr \<Rightarrow> 'w \<Rightarrow> 'w manager \<Rightarrow> 'w manager" where
  "set_writer p w m = m\<lparr>heap := (heap m)(p := w)\<rparr>"

definition GetAppStreamname :: "string \<Rightarrow> (string \<times> string) option" where
  "GetAppStreamname k =
     (if CHR ''/'' \<in> set k
      then Some (takeWhile (\<lambda>c. c \<noteq> CHR ''/'') k, tl (dropWhile (\<lambda>c. c \<noteq> CHR ''/'') k))
      else None)"

definition notify_publish :: "string \<Rightarrow> 'w manager \<Rightarrow> 'w manager" where
  "notify_publish k m = (case GetAppStreamname k of None \<Rightarrow> m
     | Some (a, n) \<Rightarrow> emit (map (\<lambda>cb. OnPublish cb a n) (cb_vec m)) m)"

definition notify_unpublish :: "string \<Rightarrow> 'w manager \<Rightarrow> 'w manager" where
  "notify_unpublish k m = (case GetAppStreamname k of None \<Rightarrow> m
     | Some (a, n) \<Rightarrow> emit (map (\<lambda>cb. OnUnpublish cb a n) (cb_vec m)) m)"

definition HasGopMedia :: "'w manager \<Rightarrow> string \<Rightarrow> bool" where
  "HasGopMedia m k = (case find_stream m k of None \<Rightarrow> False
     | Some s \<Rightarrow> video_hdr (gop s) \<noteq> None \<or> audio_hdr (gop s) \<noteq> None \<or> packets (gop s) \<noteq> [])"

definition HasPublisher :: "'w manager \<Rightarrow> string \<Rightarrow> bool" where
  "HasPublisher m k = (case find_stream m k of None \<Rightarrow> False | Some s \<Rightarrow> publisher_exist s)"

definition PlayerCount :: "'w manager \<Rightarrow> string \<Rightarrow> nat" where
  "PlayerCount m k = (case find_stream m k of None \<Rightarrow> 0 | Some s \<Rightarrow> length (writer_map s))"

definition ListPublisherKeys :: "'w manager \<Rightarrow> string list" where
  "ListPublisherKeys m = map fst (filter (\<lambda>(k, s). publisher_exist s) (streams m))"

section \<open>Players\<close>

definition RemovePlayer :: "'w av_ops \<Rightarrow> ptr \<Rightarrow> 'w manager \<Rightarrow> 'w manager" where
  "RemovePlayer V p m =
     (let k = GetKey V (heap m p); wid = GetWriterId V (heap m p) in
      case find_stream m k of None \<Rightarrow> m
      | Some s \<Rightarrow>
          let stale = (case map_of (writer_map s) wid of Some q \<Rightarrow> q \<noteq> p | None \<Rightarrow> False);
              s1 = s\<lparr>writer_map := AList.delete wid (writer_map s)\<rparr> in
          if stale then m
          else if writer_map s1 = [] \<and> \<not> publisher_exist s1 then erase_stream k m
          else put_stream k s1 m)"

definition AddPlayer :: "'w av_ops \<Rightarrow> ptr option \<Rightarrow> 'w manager \<Rightarrow> 'w manager \<times> int" where
  "AddPlayer V wp m =
     (case wp of None \<Rightarrow> (m, 0)
      | Some p \<Rightarrow>
        let k = GetKey V (heap m p); wid = GetWriterId V (heap m p) in
        case find_stream m k of
          None \<Rightarrow>
            let m1 = put_stream k (new_MediaStream\<lparr>stream_key := k, writer_map := [(wid, p)]\<rparr>) m
            in (if play_cb m then emit [Play k] m1 else m1, 1)
        | Some s \<Rightarrow>
            let s1 = s\<lparr>writer_map := AList.update wid p (writer_map s)\<rparr>;
                m1 = put_stream k s1 m;
                m2 = (if \<not> publisher_exist s1 \<and> play_cb m then emit [Play k] m1 else m1) in
            if HasGopMedia m2 k \<and> \<not> IsInited V (heap m2 p) then
              let w1 = SetInitFlag V (heap m2 p) True in
              (case WriterGop V (gop s1) (Some w1) of (w2, r) \<Rightarrow>
                 let m3 = set_writer p (the w2) m2 in
                 if r < 0 then (RemovePlayer V p (set_writer p (CloseWriter V (the w2)) m3), 0)
                 else (m3, int (length (writer_map s1))))
            else (m2, int (length (writer_map s1))))"

section \<open>Publishers\<close>

definition AddPublisher :: "string \<Rightarrow> 'w manager \<Rightarrow> 'w manager \<times> media_stream" where
  "AddPublisher k m =
     (case find_stream m k of
        None \<Rightarrow> let s = new_MediaStream\<lparr>publisher_exist := True, stream_key := k\<rparr>
                in (notify_publish k (put_stream k s m), s)
      | Some s \<Rightarrow> let s1 = s\<lparr>publisher_exist := True\<rparr> in (put_stream k s1 m, s1))"

definition RemovePublisher :: "string \<Rightarrow> 'w manager \<Rightarrow> 'w manager" where
  "RemovePublisher k m =
     (case find_stream m k of None \<Rightarrow> m
      | Some s \<Rightarrow>
          let s1 = s\<lparr>publisher_exist := False, publisher_id := [], clock_reset_pending := True,
                     gop := Clear (gop s)\<rparr>;
              m1 = (if writer_map s1 = [] then erase_stream k m else put_stream k s1 m)
          in notify_unpublish k m1)"

datatype PublishClaim = kCreated | kReused | kTakeOver | kRejected

definition kTakeOverWindowMs :: int where "kTakeOverWindowMs = 10000"
definition kMaxTakeOverPerWindow :: int where "kMaxTakeOverPerWindow = 3"

text \<open>The take-over branch of \<open>ClaimPublisher\<close>: the debounce, then the change of owner.\<close>

definition take_over :: "int \<Rightarrow> media_stream \<Rightarrow> string \<Rightarrow> media_stream \<times> PublishClaim" where
  "take_over now s owner =
     (let within = claim_window_ms s \<noteq> 0 \<and> now - claim_window_ms s \<le> kTakeOverWindowMs;
          s1 = (if within then s\<lparr>claim_takeovers := claim_takeovers s + 1\<rparr>
                else s\<lparr>claim_window_ms := now, claim_takeovers := 1\<rparr>) in
      if within \<and> claim_takeovers s1 > kMaxTakeOverPerWindow then (s1, kRejected)
      else (s1\<lparr>publisher_id := owner, publisher_exist := True, gop := Clear (gop s1)\<rparr>, kTakeOver))"

definition ClaimPublisher ::
  "int \<Rightarrow> string \<Rightarrow> string \<Rightarrow> 'w manager \<Rightarrow> 'w manager \<times> PublishClaim \<times> string" where
  "ClaimPublisher now k owner m =
     (case find_stream m k of
        None \<Rightarrow>
          (notify_publish k (put_stream k
             (new_MediaStream\<lparr>publisher_exist := True, publisher_id := owner, stream_key := k\<rparr>) m),
           kCreated, [])
      | Some s \<Rightarrow>
          if publisher_id s = [] \<or> publisher_id s = owner then
            (put_stream k (s\<lparr>publisher_exist := True,
               publisher_id := (if publisher_id s = [] then owner else publisher_id s)\<rparr>) m, kReused, [])
          else case take_over now s owner of (s1, a) \<Rightarrow> (put_stream k s1 m, a, publisher_id s))"

definition IsPublisherOwner :: "'w manager \<Rightarrow> string \<Rightarrow> string \<Rightarrow> bool" where
  "IsPublisherOwner m k owner = (case find_stream m k of None \<Rightarrow> False
     | Some s \<Rightarrow> publisher_id s = [] \<or> publisher_id s = owner)"

definition ReleasePublisher :: "string \<Rightarrow> string \<Rightarrow> 'w manager \<Rightarrow> 'w manager \<times> bool" where
  "ReleasePublisher k owner m =
     (case find_stream m k of None \<Rightarrow> (m, False)
      | Some s \<Rightarrow> if publisher_id s \<noteq> [] \<and> publisher_id s \<noteq> owner then (m, False)
                  else (RemovePublisher k m, True))"

section \<open>Catalogue\<close>

definition SetCatalogJson :: "string \<Rightarrow> string \<Rightarrow> string \<Rightarrow> 'w manager \<Rightarrow> 'w manager \<times> bool" where
  "SetCatalogJson k owner json m =
     (if json = [] then (m, False)
      else case find_stream m k of None \<Rightarrow> (m, False)
      | Some s \<Rightarrow>
          if publisher_id s \<noteq> [] \<and> publisher_id s \<noteq> owner then (m, False)
          else if catalog_json s = json then (m, True)
          else let rev = catalog_rev s + 1 in
            (emit (map (\<lambda>cb. CatalogUpdated cb k rev) (catalog_updated_cbs m))
               (put_stream k (s\<lparr>catalog_json := json, catalog_rev := rev\<rparr>) m), True))"

definition GetCatalogJson :: "'w manager \<Rightarrow> string \<Rightarrow> (string \<times> nat) option" where
  "GetCatalogJson m k = (case find_stream m k of None \<Rightarrow> None
     | Some s \<Rightarrow> if catalog_json s = [] then None else Some (catalog_json s, catalog_rev s))"

section \<open>Fan-out\<close>

fun fan_out :: "'w av_ops \<Rightarrow> gop_cache \<Rightarrow> media_packet \<Rightarrow> (string \<times> ptr) list
    \<Rightarrow> (ptr \<Rightarrow> 'w) \<Rightarrow> (ptr \<Rightarrow> 'w) \<times> ptr list \<times> int" where
  "fan_out V g pkt [] h = (h, [], 0)"
| "fan_out V g pkt ((wid, p) # ws) h =
     (case (if \<not> IsInited V (h p) then
              map_prod the id (WriterGop V g (Some (SetInitFlag V (h p) True)))
            else WritePacket V (h p) pkt) of (w, r) \<Rightarrow>
      case fan_out V g pkt ws (h(p := w)) of (h', rm, n) \<Rightarrow>
        if r < 0 then (h', p # rm, n) else (h', rm, n + 1))"

definition write_side :: "'w av_ops \<Rightarrow> ptr option \<Rightarrow> media_packet \<Rightarrow> (ptr \<Rightarrow> 'w) \<Rightarrow> ptr \<Rightarrow> 'w" where
  "write_side V wp pkt h = (case wp of None \<Rightarrow> h | Some p \<Rightarrow> h(p := fst (WritePacket V (h p) (copy_packet pkt))))"

definition packet_key :: "media_packet \<Rightarrow> media_packet" where
  "packet_key pkt = (if pkt_key pkt = [] \<and> app pkt \<noteq> [] \<and> streamname pkt \<noteq> []
     then pkt\<lparr>pkt_key := app pkt @ ''/'' @ streamname pkt\<rparr> else pkt)"

definition WriterMediaPacket ::
  "'w av_ops \<Rightarrow> int \<Rightarrow> media_packet option \<Rightarrow> 'w manager \<Rightarrow> 'w manager \<times> int" where
  "WriterMediaPacket V now pkt_opt m =
     (case pkt_opt of None \<Rightarrow> (m, -1)
      | Some pkt0 \<Rightarrow>
        let pkt1 = packet_key pkt0; k = pkt_key pkt1 in
        case AddPublisher k m of (m1, s) \<Rightarrow>
        case NormalizeDts now s pkt1 of (s1, pkt) \<Rightarrow>
        let s2 = s1\<lparr>gop := fst (InsertPacket (gop s1) (Some pkt))\<rparr>;
            m2 = put_stream k s2 m1 in
        case fan_out V (gop s2) pkt (writer_map s2) (heap m2) of (h, rm, n) \<Rightarrow>
        let h1 = write_side V (r2r_writer m2) pkt h;
            h2 = write_side V (hls_writer m2) pkt h1 in
        (foldl (\<lambda>m p. RemovePlayer V p m) (m2\<lparr>heap := h2\<rparr>) rm, n))"

definition AddStreamCallback :: "nat \<Rightarrow> 'w manager \<Rightarrow> 'w manager" where
  "AddStreamCallback cb m = m\<lparr>cb_vec := cb_vec m @ [cb]\<rparr>"

definition RemoveStreamCallback :: "nat \<Rightarrow> 'w manager \<Rightarrow> 'w manager" where
  "RemoveStreamCallback cb m = m\<lparr>cb_vec := remove1 cb (cb_vec m)\<rparr>"

definition SetCatalogUpdatedCallback :: "nat option \<Rightarrow> 'w manager \<Rightarrow> 'w manager" where
  "SetCatalogUpdatedCallback fn m = m\<lparr>catalog_updated_cbs := (case fn of None \<Rightarrow> [] | Some f \<Rightarrow> [f])\<rparr>"

definition AddCatalogUpdatedCallback :: "nat option \<Rightarrow> 'w manager \<Rightarrow> 'w manager" where
  "AddCatalogUpdatedCallback fn m =
     (case fn of None \<Rightarrow> m | Some f \<Rightarrow> m\<lparr>catalog_updated_cbs := catalog_updated_cbs m @ [f]\<rparr>)"

definition ClearCatalogUpdatedCallbacks :: "'w manager \<Rightarrow> 'w manager" where
  "ClearCatalogUpdatedCallbacks m = m\<lparr>catalog_updated_cbs := []\<rparr>"

section \<open>Timestamp facts\<close>

definition clamp :: "int \<Rightarrow> int" where "clamp x = (if x < 0 then 0 else x)"

lemma clamp_simps [simp]: "0 \<le> clamp x" "0 \<le> x \<Longrightarrow> clamp x = x"
  by (simp_all add: clamp_def)

lemma warn_skew_simps [simp]:
  "ts_shift (warn_skew n s) = ts_shift s" "last_out_dts (warn_skew n s) = last_out_dts s"
  "last_in_video_dts (warn_skew n s) = last_in_video_dts s"
  "last_in_audio_dts (warn_skew n s) = last_in_audio_dts s"
  "last_in_dts (warn_skew n s) = last_in_dts s"
  "clock_reset_pending (warn_skew n s) = clock_reset_pending s"
  by (simp_all add: warn_skew_def Let_def)

lemma set_last_in_simps [simp]:
  "ts_shift (set_last_in s t d) = ts_shift s" "last_out_dts (set_last_in s t d) = last_out_dts s"
  "clock_reset_pending (set_last_in s t d) = clock_reset_pending s"
  by (simp_all add: set_last_in_def)

lemma NormalizeDts_fields:
  fixes now s p
  defines "d \<equiv> clamp (dts p)"
  assumes "NormalizeDts now s p = (s', q)"
  shows "dts q = clamp (d + ts_shift (rebase s p d))"
    and "pts q = (let x = dts q + ((if pts p < 0 then d else pts p) - d) in if x < 0 then dts q else x)"
    and "ts_shift s' = ts_shift (rebase s p d)" and "\<not> clock_reset_pending s'"
    and "last_in_video_dts s' = last_in_video_dts (if is_seq_hdr p then rebase s p d else set_last_in (rebase s p d) (av_type p) d)"
    and "last_in_audio_dts s' = last_in_audio_dts (if is_seq_hdr p then rebase s p d else set_last_in (rebase s p d) (av_type p) d)"
    and "last_in_dts s' = last_in_dts (if is_seq_hdr p then rebase s p d else set_last_in (rebase s p d) (av_type p) d)"
proof -
  define r where "r = (rebase s p d)\<lparr>clock_reset_pending := False\<rparr>"
  define s3 where "s3 = warn_skew now (if \<not> is_seq_hdr p then set_last_in r (av_type p) d else r)"
  have eq: "NormalizeDts now s p =
     ((if \<not> is_seq_hdr p then s3\<lparr>last_out_dts := clamp (d + ts_shift s3)\<rparr> else s3),
      p\<lparr>dts := clamp (d + ts_shift s3),
        pts := (let x = clamp (d + ts_shift s3) + ((if pts p < 0 then d else pts p) - d)
                in if x < 0 then clamp (d + ts_shift s3) else x)\<rparr>)"
    unfolding NormalizeDts_def Let_def r_def s3_def d_def clamp_def ..
  have s3: "ts_shift s3 = ts_shift (rebase s p d)" "\<not> clock_reset_pending s3"
    by (simp_all add: s3_def r_def)
  have s': "s' = (if \<not> is_seq_hdr p then s3\<lparr>last_out_dts := clamp (d + ts_shift s3)\<rparr> else s3)"
    and q: "dts q = clamp (d + ts_shift s3)"
      "pts q = (let x = dts q + ((if pts p < 0 then d else pts p) - d) in if x < 0 then dts q else x)"
    using assms(2) unfolding eq by (auto simp: Let_def)
  show "dts q = clamp (d + ts_shift (rebase s p d))"
    "pts q = (let x = dts q + ((if pts p < 0 then d else pts p) - d) in if x < 0 then dts q else x)"
    "ts_shift s' = ts_shift (rebase s p d)" "\<not> clock_reset_pending s'"
    using s' q s3 by simp_all
  show "last_in_video_dts s' = last_in_video_dts (if is_seq_hdr p then rebase s p d else set_last_in (rebase s p d) (av_type p) d)"
    "last_in_audio_dts s' = last_in_audio_dts (if is_seq_hdr p then rebase s p d else set_last_in (rebase s p d) (av_type p) d)"
    "last_in_dts s' = last_in_dts (if is_seq_hdr p then rebase s p d else set_last_in (rebase s p d) (av_type p) d)"
    by (simp_all add: s' s3_def r_def set_last_in_def)
qed

definition track :: "MEDIA_PKT_TYPE \<Rightarrow> MEDIA_PKT_TYPE" where
  "track t = (if t = MEDIA_VIDEO_TYPE \<or> t = MEDIA_AUDIO_TYPE then t else MEDIA_UNKNOWN_TYPE)"

fun normalize_all :: "(int \<times> media_packet) list \<Rightarrow> media_stream \<Rightarrow> media_stream \<times> media_packet list" where
  "normalize_all [] s = (s, [])"
| "normalize_all ((now, p) # ps) s =
     (case NormalizeDts now s p of (s1, q) \<Rightarrow> map_prod id (\<lambda>qs. q # qs) (normalize_all ps s1))"

definition no_reset :: "media_stream \<Rightarrow> bool" where
  "no_reset s \<longleftrightarrow> \<not> (clock_reset_pending s \<and> 0 \<le> last_out_dts s)"

definition track_dts :: "MEDIA_PKT_TYPE \<Rightarrow> (int \<times> media_packet) list \<Rightarrow> int list" where
  "track_dts t ps = map (dts \<circ> snd) (filter (\<lambda>(_, p). \<not> is_seq_hdr p \<and> track (av_type p) = t) ps)"

text \<open>
  Every timestamp that leaves \<open>NormalizeDts\<close> is non-negative, and presentation minus decode time
  is what it was on input unless that would make the presentation time negative.
\<close>

theorem NormalizeDts_bounds:
  "case NormalizeDts now s pkt of (s', q) \<Rightarrow> 0 \<le> dts q \<and> 0 \<le> pts q
    \<and> (let cts = (if pts pkt < 0 then 0 else pts pkt - (if dts pkt < 0 then 0 else dts pkt))
       in pts q = (if dts q + cts < 0 then dts q else dts q + cts))
    \<and> \<not> clock_reset_pending s'"
proof (cases "NormalizeDts now s pkt")
  case (Pair s' q)
  from NormalizeDts_fields [OF this] show ?thesis by (auto simp: Pair Let_def clamp_def)
qed

lemma NormalizeDts_last_in:
  assumes "NormalizeDts now s p = (s', q)"
  shows "last_in_of s' t = (if \<not> is_seq_hdr p \<and> track (av_type p) = track t then clamp (dts p)
    else last_in_of (rebase s p (clamp (dts p))) t)"
  by (auto simp: last_in_of_def set_last_in_def track_def NormalizeDts_fields [OF assms])

lemma NormalizeDts_steady:
  assumes "NormalizeDts now s p = (s', q)" "no_reset s" "0 \<le> dts p"
    and "is_seq_hdr p \<or> last_in_of s (av_type p) \<le> dts p"
  shows "dts q = clamp (dts p + ts_shift s)" and "no_reset s'" and "ts_shift s' = ts_shift s"
    and "last_in_of s' t = (if \<not> is_seq_hdr p \<and> track (av_type p) = track t then dts p else last_in_of s t)"
proof -
  have "rebase s p (clamp (dts p)) = s" using assms(2-) by (auto simp: rebase_def no_reset_def)
  with assms NormalizeDts_fields [OF assms(1)] NormalizeDts_last_in [OF assms(1)]
  show "dts q = clamp (dts p + ts_shift s)" "no_reset s'" "ts_shift s' = ts_shift s"
    "last_in_of s' t = (if \<not> is_seq_hdr p \<and> track (av_type p) = track t then dts p else last_in_of s t)"
    by (simp_all add: no_reset_def)
qed

definition restarts :: "media_stream \<Rightarrow> media_packet \<Rightarrow> bool" where
  "restarts s p \<longleftrightarrow> 0 \<le> last_out_dts s \<and> (clock_reset_pending s
     \<or> \<not> is_seq_hdr p \<and> 0 \<le> last_in_of s (av_type p) \<and> clamp (dts p) + 1000 < last_in_of s (av_type p))"

lemma NormalizeDts_restart:
  assumes "NormalizeDts now s p = (s', q)" "restarts s p"
  shows "dts q = last_out_dts s + 40" and "no_reset s'"
    and "ts_shift s' = last_out_dts s + 40 - clamp (dts p)"
    and "last_in_of s' t = (if \<not> is_seq_hdr p \<and> track (av_type p) = track t then clamp (dts p) else -1)"
proof -
  have "ts_shift (rebase s p (clamp (dts p))) = last_out_dts s + 40 - clamp (dts p)"
    and "last_in_of (rebase s p (clamp (dts p))) t = -1" and "0 \<le> last_out_dts s"
    using assms(2) by (auto simp: rebase_def restarts_def forget_tracks_def last_in_of_def)
  with NormalizeDts_fields [OF assms(1)] NormalizeDts_last_in [OF assms(1)]
  show "dts q = last_out_dts s + 40" "no_reset s'"
    "ts_shift s' = last_out_dts s + 40 - clamp (dts p)"
    "last_in_of s' t = (if \<not> is_seq_hdr p \<and> track (av_type p) = track t then clamp (dts p) else -1)"
    by (simp_all add: no_reset_def)
qed

lemma normalize_all_steady:
  assumes "no_reset s" "\<forall>(_, p)\<in>set ps. 0 \<le> dts p"
    and "\<forall>t. sorted (last_in_of s t # track_dts (track t) ps)"
  shows "map dts (snd (normalize_all ps s)) = map (\<lambda>(_, p). clamp (dts p + ts_shift s)) ps"
  using assms
proof (induction ps arbitrary: s)
  case (Cons np ps)
  obtain now p where np: "np = (now, p)" by force
  obtain s' q where q: "NormalizeDts now s p = (s', q)" by force
  have srt: "sorted (last_in_of s t # track_dts (track t) (np # ps))" for t
    using Cons.prems(3) by blast
  have ok: "is_seq_hdr p \<or> last_in_of s (av_type p) \<le> dts p"
    using srt [of "av_type p"] by (cases "is_seq_hdr p") (simp_all add: np track_dts_def)
  from Cons.prems(2) have p: "0 \<le> dts p" by (simp add: np)
  note st = NormalizeDts_steady [OF q Cons.prems(1) p ok]
  have "sorted (last_in_of s' t # track_dts (track t) ps)" for t
    using srt [of t] by (cases "\<not> is_seq_hdr p \<and> track (av_type p) = track t")
      (auto simp: np st(4) track_dts_def)
  then have "map dts (snd (normalize_all ps s')) = map (\<lambda>(_, p). clamp (dts p + ts_shift s')) ps"
    using Cons.prems(2) by (intro Cons.IH st(2)) (simp_all add: np)
  then show ?case by (simp add: np q st prod.map_comp case_prod_beta)
qed simp

text \<open>
  The two tracks of a stream may run on unrelated clocks: as long as the times of each track
  by itself do not decrease, every packet is moved by one constant shift, whatever the
  interleaving and the distance between the two clocks, so playing time advances at the
  publisher's speed.
\<close>

theorem unrelated_track_clocks_are_kept:
  assumes "\<forall>(_, p)\<in>set ps. 0 \<le> dts p"
    and "\<forall>t\<in>{MEDIA_VIDEO_TYPE, MEDIA_AUDIO_TYPE, MEDIA_UNKNOWN_TYPE}. sorted (track_dts t ps)"
  shows "map dts (snd (normalize_all ps new_MediaStream)) = map (dts \<circ> snd) ps"
proof -
  have "sorted (last_in_of new_MediaStream t # track_dts (track t) ps)" for t
  proof -
    have "track t \<in> {MEDIA_VIDEO_TYPE, MEDIA_AUDIO_TYPE, MEDIA_UNKNOWN_TYPE}" by (simp add: track_def)
    then have "sorted (track_dts (track t) ps)" using assms(2) by blast
    moreover have "last_in_of new_MediaStream t = -1" by (simp add: last_in_of_def new_MediaStream_def)
    ultimately show ?thesis using assms(1) by (fastforce simp: track_dts_def)
  qed
  moreover have "no_reset new_MediaStream" by (simp add: no_reset_def new_MediaStream_def)
  ultimately show ?thesis
    using normalize_all_steady [of new_MediaStream ps] assms(1)
    by (auto simp: new_MediaStream_def)
qed

theorem unrelated_track_clocks_are_kept_witness:
  "map dts (snd (normalize_all
     [(0, new_Media_Packet\<lparr>av_type := MEDIA_VIDEO_TYPE, dts := 900000\<rparr>),
      (0, new_Media_Packet\<lparr>av_type := MEDIA_AUDIO_TYPE, dts := 10\<rparr>),
      (0, new_Media_Packet\<lparr>av_type := MEDIA_VIDEO_TYPE, dts := 900040\<rparr>)] new_MediaStream))
   = [900000, 10, 900040]"
  by (subst unrelated_track_clocks_are_kept) (simp_all add: track_dts_def track_def new_Media_Packet_def)

text \<open>
  A clock that starts over is spliced behind what was already sent: when a new publisher's
  first packet arrives, or a track jumps back by more than a second, that packet leaves
  40 ms after the last one, and the packets after it (each track by itself non-decreasing, the other
  track wherever its own clock stands) keep their distance to it, without a second splice.
\<close>

theorem clock_restart_is_spliced:
  assumes restart: "restarts s p"
    and nonneg: "\<forall>(_, q)\<in>set ((now, p) # ps). 0 \<le> dts q"
    and mono: "\<forall>t\<in>{MEDIA_VIDEO_TYPE, MEDIA_AUDIO_TYPE, MEDIA_UNKNOWN_TYPE}.
      sorted (track_dts t ((now, p) # ps))"
  shows "map dts (snd (normalize_all ((now, p) # ps) s)) = (last_out_dts s + 40)
    # map (\<lambda>(_, q). clamp (last_out_dts s + 40 + (dts q - dts p))) ps"
proof -
  obtain s' q where q: "NormalizeDts now s p = (s', q)" by force
  have p: "clamp (dts p) = dts p" using nonneg by simp
  note st = NormalizeDts_restart [OF q restart, unfolded p]
  have "sorted (last_in_of s' t # track_dts (track t) ps)" for t
  proof -
    have "track t \<in> {MEDIA_VIDEO_TYPE, MEDIA_AUDIO_TYPE, MEDIA_UNKNOWN_TYPE}" by (simp add: track_def)
    then have "sorted (track_dts (track t) ((now, p) # ps))" using mono by blast
    moreover have "\<forall>x\<in>set (track_dts (track t) ps). -1 \<le> x"
      using nonneg by (force simp: track_dts_def)
    ultimately show ?thesis by (auto simp: track_dts_def st(4))
  qed
  then have "map dts (snd (normalize_all ps s')) = map (\<lambda>(_, p). clamp (dts p + ts_shift s')) ps"
    using nonneg by (intro normalize_all_steady st(2)) simp_all
  then show ?thesis by (simp add: q st prod.map_comp case_prod_beta algebra_simps)
qed

theorem clock_restart_is_spliced_witness:
  "map dts (snd (normalize_all
     [(0, new_Media_Packet\<lparr>av_type := MEDIA_VIDEO_TYPE, dts := 7\<rparr>),
      (0, new_Media_Packet\<lparr>av_type := MEDIA_AUDIO_TYPE, dts := 9\<rparr>)]
     (new_MediaStream\<lparr>clock_reset_pending := True, last_out_dts := 1000\<rparr>))) = [1040, 1042]"
  by (subst clock_restart_is_spliced)
    (simp_all add: track_dts_def track_def new_Media_Packet_def new_MediaStream_def restarts_def)

section \<open>Invariant of the table\<close>

named_theorems table "simplification of table updates"

lemma find_put [table]: "find_stream (put_stream k s m) k' = (if k' = k then Some s else find_stream m k')"
  by (simp add: find_stream_def put_stream_def update_conv')

lemma find_erase [table]: "find_stream (erase_stream k m) k' = (if k' = k then None else find_stream m k')"
  by (simp add: find_stream_def erase_stream_def delete_conv')

lemma find_emit [table]: "find_stream (emit es m) k = find_stream m k"
  by (simp add: find_stream_def emit_def)

lemma find_set_writer [table]: "find_stream (set_writer p w m) k = find_stream m k"
  by (simp add: find_stream_def set_writer_def)

lemma find_heap [table]: "find_stream (m\<lparr>heap := h\<rparr>) k = find_stream m k"
  by (simp add: find_stream_def)

lemma find_notify [table]:
  "find_stream (notify_publish k' m) k = find_stream m k"
  "find_stream (notify_unpublish k' m) k = find_stream m k"
  by (auto simp: notify_publish_def notify_unpublish_def table split: option.splits)

definition keys_distinct :: "'w manager \<Rightarrow> bool" where
  "keys_distinct m \<longleftrightarrow> distinct (map fst (streams m))"

lemma keys_distinct_table [table]:
  "keys_distinct m \<Longrightarrow> keys_distinct (put_stream k s m)"
  "keys_distinct m \<Longrightarrow> keys_distinct (erase_stream k m)"
  "keys_distinct (emit es m) = keys_distinct m"
  "keys_distinct (set_writer p w m) = keys_distinct m"
  "keys_distinct (m\<lparr>heap := h\<rparr>) = keys_distinct m"
  by (auto simp: keys_distinct_def put_stream_def erase_stream_def emit_def set_writer_def
      distinct_update distinct_delete)

lemma keys_distinct_notify [table]:
  "keys_distinct (notify_publish k' m) = keys_distinct m"
  "keys_distinct (notify_unpublish k' m) = keys_distinct m"
  by (auto simp: notify_publish_def notify_unpublish_def table split: option.splits)

definition stream_ok :: "string \<Rightarrow> media_stream \<Rightarrow> bool" where
  "stream_ok k s \<longleftrightarrow> stream_key s = k \<and> (publisher_exist s \<or> writer_map s \<noteq> [])
     \<and> (publisher_id s \<noteq> [] \<longrightarrow> publisher_exist s) \<and> distinct (map fst (writer_map s))"

definition table_inv :: "'w manager \<Rightarrow> bool" where
  "table_inv m \<longleftrightarrow> keys_distinct m \<and> (\<forall>k s. find_stream m k = Some s \<longrightarrow> stream_ok k s)"

lemma inv_put: "table_inv m \<Longrightarrow> stream_ok k s \<Longrightarrow> table_inv (put_stream k s m)"
  by (auto simp: table_inv_def table)

lemma inv_erase: "table_inv m \<Longrightarrow> table_inv (erase_stream k m)"
  by (auto simp: table_inv_def table split: if_splits)

lemma inv_untouched [simp]:
  "table_inv (emit es m) = table_inv m" "table_inv (set_writer p w m) = table_inv m"
  "table_inv (m\<lparr>heap := h\<rparr>) = table_inv m" "table_inv (notify_publish k m) = table_inv m"
  "table_inv (notify_unpublish k m) = table_inv m"
  by (simp_all add: table_inv_def table)

lemma inv_find: "table_inv m \<Longrightarrow> find_stream m k = Some s \<Longrightarrow> stream_ok k s"
  by (simp add: table_inv_def)

lemma update_not_Nil [simp]: "AList.update k v al \<noteq> []"
  by (cases al) (auto split: if_splits)

lemma RemovePlayer_inv [kept]: "table_inv m \<Longrightarrow> table_inv (RemovePlayer V p m)"
  by (auto simp: RemovePlayer_def Let_def stream_ok_def distinct_delete split: option.splits
      dest: inv_find intro!: inv_put inv_erase)

lemma AddPlayer_inv [kept]: "table_inv m \<Longrightarrow> table_inv (fst (AddPlayer V wp m))"
proof (cases wp)
  case (Some p)
  let ?k = "GetKey V (heap m p)" and ?id = "GetWriterId V (heap m p)"
  assume inv: "table_inv m"
  show ?thesis
  proof (cases "find_stream m ?k")
    case None
    have "stream_ok ?k (new_MediaStream\<lparr>stream_key := ?k, writer_map := [(?id, p)]\<rparr>)"
      by (simp add: stream_ok_def new_MediaStream_def)
    with inv None show ?thesis by (simp add: AddPlayer_def Some Let_def inv_put)
  next
    case (Some s)
    have "stream_ok ?k (s\<lparr>writer_map := AList.update ?id p (writer_map s)\<rparr>)"
      using inv_find [OF inv Some] by (simp add: stream_ok_def distinct_update)
    with inv have "table_inv (put_stream ?k (s\<lparr>writer_map := AList.update ?id p (writer_map s)\<rparr>) m)"
      by (rule inv_put)
    with Some \<open>wp = _\<close> show ?thesis
      by (simp add: AddPlayer_def Let_def RemovePlayer_inv split: prod.split)
  qed
qed (simp add: AddPlayer_def)

lemma AddPublisher_inv [kept]: "table_inv m \<Longrightarrow> table_inv (fst (AddPublisher k m))"
  by (auto simp: AddPublisher_def Let_def stream_ok_def new_MediaStream_def
      split: option.splits dest: inv_find intro!: inv_put)

lemma RemovePublisher_inv [kept]: "table_inv m \<Longrightarrow> table_inv (RemovePublisher k m)"
  by (auto simp: RemovePublisher_def Let_def stream_ok_def split: option.splits
      dest: inv_find intro!: inv_put inv_erase)

lemma take_over_ok: "stream_ok k s \<Longrightarrow> stream_ok k (fst (take_over now s owner))"
  by (auto simp: take_over_def Let_def stream_ok_def)

lemma ClaimPublisher_inv [kept]: "table_inv m \<Longrightarrow> table_inv (fst (ClaimPublisher now k owner m))"
proof (cases "find_stream m k")
  case None
  assume "table_inv m"
  with None show ?thesis
    by (simp add: ClaimPublisher_def inv_put stream_ok_def new_MediaStream_def)
next
  case (Some s)
  assume inv: "table_inv m"
  have s: "stream_ok k s" using inv Some by (rule inv_find)
  have "stream_ok k (s\<lparr>publisher_exist := True,
      publisher_id := (if publisher_id s = [] then owner else publisher_id s)\<rparr>)"
    using s by (simp add: stream_ok_def)
  with inv take_over_ok [OF s, of now owner] show ?thesis
    by (cases "take_over now s owner") (simp add: ClaimPublisher_def Some inv_put)
qed

lemma ReleasePublisher_inv [kept]: "table_inv m \<Longrightarrow> table_inv (fst (ReleasePublisher k owner m))"
  by (auto simp: ReleasePublisher_def kept split: option.splits)

lemma SetCatalogJson_inv [kept]: "table_inv m \<Longrightarrow> table_inv (fst (SetCatalogJson k owner json m))"
  by (auto simp: SetCatalogJson_def Let_def stream_ok_def split: option.splits
      dest: inv_find intro!: inv_put)

lemma removals_inv: "table_inv m \<Longrightarrow> table_inv (foldl (\<lambda>m p. RemovePlayer V p m) m ps)"
  by (induction ps arbitrary: m) (auto simp: kept)

lemma untouched_by_clock [simp]:
  "publisher_exist (warn_skew n s) = publisher_exist s" "publisher_id (warn_skew n s) = publisher_id s"
  "writer_map (warn_skew n s) = writer_map s" "stream_key (warn_skew n s) = stream_key s"
  "gop (warn_skew n s) = gop s"
  "publisher_exist (set_last_in s t d) = publisher_exist s" "publisher_id (set_last_in s t d) = publisher_id s"
  "writer_map (set_last_in s t d) = writer_map s" "stream_key (set_last_in s t d) = stream_key s"
  "gop (set_last_in s t d) = gop s"
  "publisher_exist (rebase s p d) = publisher_exist s" "publisher_id (rebase s p d) = publisher_id s"
  "writer_map (rebase s p d) = writer_map s" "stream_key (rebase s p d) = stream_key s"
  "gop (rebase s p d) = gop s"
  by (simp_all add: warn_skew_def set_last_in_def rebase_def forget_tracks_def Let_def)

lemma NormalizeDts_keeps:
  assumes "NormalizeDts now s p = (s', q)"
  shows "publisher_exist s' = publisher_exist s \<and> publisher_id s' = publisher_id s
    \<and> writer_map s' = writer_map s \<and> stream_key s' = stream_key s \<and> gop s' = gop s"
proof -
  have "s' = fst (NormalizeDts now s p)" by (simp add: assms)
  then show ?thesis
    by (cases "is_seq_hdr p") (simp_all add: NormalizeDts_def Let_def)
qed

lemma WriterMediaPacket_inv [kept]:
  assumes "table_inv m"
  shows "table_inv (fst (WriterMediaPacket V now po m))"
proof (cases po)
  case (Some pkt0)
  define pkt1 where "pkt1 = packet_key pkt0"
  obtain m1 s where 1: "AddPublisher (pkt_key pkt1) m = (m1, s)" by force
  obtain s1 pkt where 2: "NormalizeDts now s pkt1 = (s1, pkt)" by force
  let ?s2 = "s1\<lparr>gop := fst (InsertPacket (gop s1) (Some pkt))\<rparr>"
  have m1: "table_inv m1" and f: "find_stream m1 (pkt_key pkt1) = Some s"
    using AddPublisher_inv [OF assms, of "pkt_key pkt1"] 1
    by (auto simp: AddPublisher_def Let_def table split: option.splits)
  have "stream_ok (pkt_key pkt1) ?s2"
    using inv_find [OF m1 f] NormalizeDts_keeps [OF 2] by (simp add: stream_ok_def)
  with m1 show ?thesis
    by (simp add: WriterMediaPacket_def Some Let_def 1 2 pkt1_def [symmetric] inv_put removals_inv
        split: prod.split)
qed (simp add: WriterMediaPacket_def assms)

section \<open>Reachable tables\<close>

text \<open>
  One step of the server on the table. \<open>env\<close> is anything the owners of the writers do to them
  between two calls.
\<close>

inductive manager_step :: "'w av_ops \<Rightarrow> 'w manager \<Rightarrow> 'w manager \<Rightarrow> bool" for V where
  add_player: "manager_step V m (fst (AddPlayer V wp m))"
| remove_player: "manager_step V m (RemovePlayer V p m)"
| add_publisher: "manager_step V m (fst (AddPublisher k m))"
| remove_publisher: "manager_step V m (RemovePublisher k m)"
| claim: "manager_step V m (fst (ClaimPublisher now k owner m))"
| release: "manager_step V m (fst (ReleasePublisher k owner m))"
| catalog: "manager_step V m (fst (SetCatalogJson k owner json m))"
| media: "manager_step V m (fst (WriterMediaPacket V now po m))"
| env: "manager_step V m (m\<lparr>heap := h\<rparr>)"

inductive reachable :: "'w av_ops \<Rightarrow> 'w manager \<Rightarrow> bool" for V where
  start: "streams m = [] \<Longrightarrow> reachable V m"
| step: "reachable V m \<Longrightarrow> manager_step V m m' \<Longrightarrow> reachable V m'"

inductive_cases manager_stepE: "manager_step V m m'"

lemma step_inv: "manager_step V m m' \<Longrightarrow> table_inv m \<Longrightarrow> table_inv m'"
  by (erule manager_stepE) (simp_all add: kept)

lemma reachable_inv: "reachable V m \<Longrightarrow> table_inv m"
proof (induction rule: reachable.induct)
  case (start m)
  then show ?case by (simp add: table_inv_def keys_distinct_def find_stream_def)
qed (rule step_inv)

text \<open>
  C20. In every state the server can reach, each entry of the table is filed under its own key and
  is alive: it has a publisher or a player (no empty shells are left behind), a registered owner
  implies a publisher, and no writer id occurs twice among its players.
\<close>

theorem reachable_streams_are_alive:
  assumes "reachable V m" "find_stream m k = Some s"
  shows "stream_key s = k \<and> (publisher_exist s \<or> writer_map s \<noteq> [])
    \<and> (publisher_id s \<noteq> [] \<longrightarrow> publisher_exist s) \<and> distinct (map fst (writer_map s))"
  using inv_find [OF reachable_inv [OF assms(1)] assms(2)] by (simp add: stream_ok_def)

text \<open>A concrete writer for the examples: it keeps what it was sent, and refuses everything when broken.\<close>

record log_writer =
  lw_key :: string
  lw_id :: string
  lw_inited :: bool
  lw_broken :: bool
  lw_sent :: "media_packet list"

definition log_ops :: "log_writer av_ops" where
  "log_ops = \<lparr>WritePacket = (\<lambda>w p. if lw_broken w then (w, -1) else (w\<lparr>lw_sent := lw_sent w @ [p]\<rparr>, 0)),
     GetKey = lw_key, GetWriterId = lw_id, CloseWriter = id, IsInited = lw_inited,
     SetInitFlag = (\<lambda>w b. w\<lparr>lw_inited := b\<rparr>)\<rparr>"

definition example_writer :: log_writer where
  "example_writer = \<lparr>lw_key = ''a/s'', lw_id = ''w1'', lw_inited = False, lw_broken = False, lw_sent = []\<rparr>"

definition example_manager :: "log_writer manager" where
  "example_manager = \<lparr>streams = [], cb_vec = [0], catalog_updated_cbs = [7], hls_writer = None,
     r2r_writer = None, play_cb = False, heap = (\<lambda>_. example_writer), events = []\<rparr>"

lemmas example_defs = example_manager_def example_writer_def log_ops_def new_MediaStream_def
  new_GopCache_def

theorem reachable_streams_are_alive_witness:
  "\<exists>s. find_stream (fst (AddPlayer log_ops (Some 3) example_manager)) ''a/s'' = Some s
     \<and> (publisher_exist s \<or> writer_map s \<noteq> [])"
proof -
  have r: "reachable log_ops (fst (AddPlayer log_ops (Some 3) example_manager))"
    by (rule reachable.step [OF reachable.start add_player]) (simp add: example_manager_def)
  obtain s where s: "find_stream (fst (AddPlayer log_ops (Some 3) example_manager)) ''a/s'' = Some s"
    by (simp add: AddPlayer_def find_stream_def put_stream_def emit_def Let_def example_defs)
  from reachable_streams_are_alive [OF r s] s show ?thesis by blast
qed

section \<open>Ownership\<close>

lemma take_over_owner:
  "take_over now s owner = (s', a) \<Longrightarrow>
     (a = kRejected \<and> publisher_id s' = publisher_id s) \<or> (a = kTakeOver \<and> publisher_id s' = owner)"
  by (auto simp: take_over_def Let_def split: if_splits)

text \<open>
  C1. After a claim the stream has exactly one owner: the claimant, or, when the debounce rejects
  it, the session that owned it before; no other session id passes the owner check, and no
  other stream changes.
\<close>

theorem claim_leaves_one_owner:
  assumes "ClaimPublisher now k owner m = (m', a, prev)" "owner \<noteq> []"
  shows "(\<forall>who. IsPublisherOwner m' k who \<longleftrightarrow> who = (if a = kRejected then prev else owner))
    \<and> (\<forall>k'. k' \<noteq> k \<longrightarrow> find_stream m' k' = find_stream m k')"
proof (intro conjI allI impI)
  fix who k'
  have *: "a \<noteq> kRejected" if "find_stream m k = None"
    using assms that by (auto simp: ClaimPublisher_def)
  show "IsPublisherOwner m' k who \<longleftrightarrow> who = (if a = kRejected then prev else owner)"
  proof (cases "find_stream m k")
    case None
    with assms show ?thesis
      by (auto simp: ClaimPublisher_def IsPublisherOwner_def table new_MediaStream_def)
  next
    case (Some s)
    show ?thesis
    proof (cases "publisher_id s = [] \<or> publisher_id s = owner")
      case True
      with Some assms show ?thesis
        by (auto simp: ClaimPublisher_def IsPublisherOwner_def table)
    next
      case False
      obtain s1 b where t: "take_over now s owner = (s1, b)" by force
      from take_over_owner [OF t] False Some assms t show ?thesis
        by (auto simp: ClaimPublisher_def IsPublisherOwner_def table)
    qed
  qed
  show "find_stream m' k' = find_stream m k'" if "k' \<noteq> k"
    using assms that by (auto simp: ClaimPublisher_def table split: option.splits if_splits prod.splits)
qed

theorem claim_leaves_one_owner_witness:
  "IsPublisherOwner (fst (ClaimPublisher 5 ''a/s'' ''x'' example_manager)) ''a/s'' ''x''"
proof -
  obtain m' a p where c: "ClaimPublisher 5 ''a/s'' ''x'' example_manager = (m', a, p)"
    using prod_cases3 by blast
  have "a \<noteq> kRejected" using c by (auto simp: ClaimPublisher_def find_stream_def example_manager_def)
  with claim_leaves_one_owner [OF c] c show ?thesis by simp
qed

text \<open>
  C27. A session that lost its stream can no longer harm it: whoever fails the owner check changes
  nothing by releasing the stream or by storing a catalogue, and is told so.
\<close>

theorem stale_owner_is_harmless:
  assumes "\<not> IsPublisherOwner m k owner"
  shows "ReleasePublisher k owner m = (m, False) \<and> SetCatalogJson k owner json m = (m, False)"
  using assms
  by (auto simp: ReleasePublisher_def SetCatalogJson_def IsPublisherOwner_def split: option.splits)

theorem stale_owner_is_harmless_witness:
  "ReleasePublisher ''a/s'' ''old'' (fst (ClaimPublisher 5 ''a/s'' ''x'' example_manager))
    = (fst (ClaimPublisher 5 ''a/s'' ''x'' example_manager), False)"
proof -
  have "\<not> IsPublisherOwner (fst (ClaimPublisher 5 ''a/s'' ''x'' example_manager)) ''a/s'' ''old''"
    by (simp add: ClaimPublisher_def IsPublisherOwner_def table example_manager_def find_stream_def
        put_stream_def notify_publish_def GetAppStreamname_def emit_def new_MediaStream_def)
  from stale_owner_is_harmless [OF this] show ?thesis by blast
qed

fun claims :: "string \<Rightarrow> (int \<times> string) list \<Rightarrow> 'w manager \<Rightarrow> 'w manager \<times> PublishClaim list" where
  "claims k [] m = (m, [])"
| "claims k ((now, owner) # cs) m =
     (case ClaimPublisher now k owner m of (m1, a, _) \<Rightarrow> map_prod id (\<lambda>as. a # as) (claims k cs m1))"

definition budget :: "media_stream \<Rightarrow> int \<Rightarrow> nat" where
  "budget s t0 = (if claim_window_ms s = 0 \<or> t0 - claim_window_ms s > kTakeOverWindowMs then 3
     else nat (3 - claim_takeovers s))"

lemma take_over_budget:
  assumes "take_over now s owner = (s', a)" "0 < t0" "t0 \<le> now" "now \<le> t0 + kTakeOverWindowMs"
    and "claim_window_ms s = 0 \<or> t0 - claim_window_ms s > kTakeOverWindowMs \<or> t0 \<le> claim_window_ms s"
    and "claim_window_ms s \<le> t0 + kTakeOverWindowMs"
  shows "(if a = kTakeOver then 1 else 0) + budget s' t0 \<le> budget s t0
    \<and> (claim_window_ms s' = 0 \<or> t0 - claim_window_ms s' > kTakeOverWindowMs \<or> t0 \<le> claim_window_ms s')
    \<and> claim_window_ms s' \<le> t0 + kTakeOverWindowMs"
  using assms
  by (auto simp: take_over_def Let_def budget_def kTakeOverWindowMs_def kMaxTakeOverPerWindow_def
      split: if_splits)

lemma claims_budget:
  assumes "find_stream m k = Some s" "0 < t0" "\<forall>(now, _)\<in>set cs. t0 \<le> now \<and> now \<le> t0 + kTakeOverWindowMs"
    and "claim_window_ms s = 0 \<or> t0 - claim_window_ms s > kTakeOverWindowMs \<or> t0 \<le> claim_window_ms s"
    and "claim_window_ms s \<le> t0 + kTakeOverWindowMs"
  shows "length (filter (\<lambda>a. a = kTakeOver) (snd (claims k cs m))) \<le> budget s t0"
  using assms
proof (induction cs arbitrary: m s)
  case (Cons c cs)
  obtain now owner where c: "c = (now, owner)" by force
  have now: "t0 \<le> now" "now \<le> t0 + kTakeOverWindowMs" using Cons.prems(3) by (simp_all add: c)
  have rest: "\<forall>(now, _)\<in>set cs. t0 \<le> now \<and> now \<le> t0 + kTakeOverWindowMs"
    using Cons.prems(3) by simp
  show ?case
  proof (cases "publisher_id s = [] \<or> publisher_id s = owner")
    case True
    define s1 where "s1 = s\<lparr>publisher_exist := True,
      publisher_id := (if publisher_id s = [] then owner else publisher_id s)\<rparr>"
    have e: "ClaimPublisher now k owner m = (put_stream k s1 m, kReused, [])"
      using True Cons.prems(1) by (simp add: ClaimPublisher_def s1_def)
    have "length (filter (\<lambda>a. a = kTakeOver) (snd (claims k cs (put_stream k s1 m)))) \<le> budget s1 t0"
      using Cons.prems(2,4,5) rest by (intro Cons.IH) (simp_all add: table s1_def)
    moreover have "budget s1 t0 = budget s t0" by (simp add: budget_def s1_def)
    ultimately show ?thesis by (simp add: c e)
  next
    case False
    obtain s1 a where t: "take_over now s owner = (s1, a)" by force
    note b = take_over_budget [OF t Cons.prems(2) now Cons.prems(4,5)]
    have e: "ClaimPublisher now k owner m = (put_stream k s1 m, a, publisher_id s)"
      using False Cons.prems(1) t by (simp add: ClaimPublisher_def)
    have "length (filter (\<lambda>a. a = kTakeOver) (snd (claims k cs (put_stream k s1 m)))) \<le> budget s1 t0"
      using Cons.prems(2) rest b by (intro Cons.IH) (simp_all add: table)
    with b show ?thesis by (auto simp: c e split: if_splits)
  qed
qed simp

text \<open>
  Two publishers fighting for one name are stopped: however many claims arrive on a stream within
  ten seconds, starting with no take-over window open, at most three of them change the owner.
\<close>

theorem take_overs_are_bounded:
  assumes "find_stream m k = Some s" "0 < t0"
    and "claim_window_ms s = 0 \<or> t0 - claim_window_ms s > kTakeOverWindowMs"
    and "\<forall>(now, _)\<in>set cs. t0 \<le> now \<and> now \<le> t0 + kTakeOverWindowMs"
  shows "length (filter (\<lambda>a. a = kTakeOver) (snd (claims k cs m))) \<le> 3"
proof -
  have "claim_window_ms s \<le> t0 + kTakeOverWindowMs" using assms(2,3) by (auto simp: kTakeOverWindowMs_def)
  then have "length (filter (\<lambda>a. a = kTakeOver) (snd (claims k cs m))) \<le> budget s t0"
    using assms(3) by (intro claims_budget [OF assms(1,2,4)]) auto
  also have "budget s t0 = 3" using assms(3) by (simp add: budget_def)
  finally show ?thesis .
qed

theorem take_overs_are_bounded_witness:
  "length (filter (\<lambda>a. a = kTakeOver) (snd (claims ''k'' [(5, ''x''), (6, ''y''), (7, ''x''), (8, ''y''), (9, ''x'')]
     (put_stream ''k'' (new_MediaStream\<lparr>publisher_id := ''o''\<rparr>) example_manager)))) \<le> 3"
  by (rule take_overs_are_bounded [where ?t0.0 = 5 and s = "new_MediaStream\<lparr>publisher_id := ''o''\<rparr>"])
    (simp_all add: table new_MediaStream_def kTakeOverWindowMs_def)

section \<open>Catalogue\<close>

text \<open>
  Storing a catalogue: it succeeds for the owner (or on a stream with no registered owner) when the
  text is not empty, the text can then be read back exactly, the revision rises by one exactly when the
  text changed, and every listener hears of it once, in order of registration, exactly then.
\<close>

theorem catalog_is_stored:
  assumes "json \<noteq> []" "IsPublisherOwner m k owner" "find_stream m k = Some s"
    and "SetCatalogJson k owner json m = (m', ok)"
  shows "ok \<and> (let changed = catalog_json s \<noteq> json; rev = (if changed then catalog_rev s + 1 else catalog_rev s) in
     GetCatalogJson m' k = Some (json, rev)
     \<and> events m' = events m @ (if changed then map (\<lambda>cb. CatalogUpdated cb k rev) (catalog_updated_cbs m) else []))"
  using assms
  by (auto simp: SetCatalogJson_def GetCatalogJson_def IsPublisherOwner_def Let_def find_emit find_put
      emit_def put_stream_def)
   (simp_all add: find_stream_def update_conv')

theorem catalog_is_stored_witness:
  "GetCatalogJson (fst (SetCatalogJson ''k'' ''o'' ''{}''
     (put_stream ''k'' (new_MediaStream\<lparr>publisher_id := ''o''\<rparr>) example_manager))) ''k'' = Some (''{}'', 1)"
proof -
  define s where "s = new_MediaStream\<lparr>publisher_id := ''o''\<rparr>"
  define m where "m = put_stream ''k'' s example_manager"
  obtain m' ok where e: "SetCatalogJson ''k'' ''o'' ''{}'' m = (m', ok)" by force
  have f: "find_stream m ''k'' = Some s" by (simp add: m_def table)
  have "IsPublisherOwner m ''k'' ''o''" by (simp add: IsPublisherOwner_def f) (simp add: s_def)
  from catalog_is_stored [OF _ this f e] e show ?thesis
    by (simp add: m_def s_def new_MediaStream_def Let_def)
qed

text \<open>The owner leaves, a publisher returns and stores a catalogue.\<close>

definition leave_and_return ::
  "int \<Rightarrow> string \<Rightarrow> string \<Rightarrow> string \<Rightarrow> string \<Rightarrow> 'w manager \<Rightarrow> 'w manager" where
  "leave_and_return now k owner owner' json m =
     fst (SetCatalogJson k owner' json (fst (ClaimPublisher now k owner' (fst (ReleasePublisher k owner m)))))"

text \<open>
  A stream whose publisher left while players stayed keeps its catalogue, so when a publisher
  comes back with the same catalogue no listener is told: the withdrawal was announced
  (\<open>OnUnpublish\<close>), the return is not, neither by \<open>OnPublish\<close> nor by a catalogue update, although
  \<open>MoqLiteServer::OnPublish\<close> and \<open>ClusterManager::OnPublish\<close> leave it to the catalogue update.
\<close>

theorem republish_is_not_announced:
  assumes "find_stream m k = Some s" "writer_map s \<noteq> []" "publisher_id s = owner" "owner \<noteq> []"
    and "catalog_json s = json" "json \<noteq> []" "GetAppStreamname k = Some (a, n)"
  shows "events (leave_and_return now k owner owner' json m) = events m @ map (\<lambda>cb. OnUnpublish cb a n) (cb_vec m)
    \<and> HasPublisher (leave_and_return now k owner owner' json m) k
    \<and> map_option fst (GetCatalogJson (leave_and_return now k owner owner' json m) k) = Some json"
proof -
  let ?s1 = "s\<lparr>publisher_exist := False, publisher_id := [], clock_reset_pending := True, gop := Clear (gop s)\<rparr>"
  let ?s2 = "?s1\<lparr>publisher_exist := True, publisher_id := owner'\<rparr>"
  define m1 m2 m3 where "m1 = fst (ReleasePublisher k owner m)"
    and "m2 = fst (ClaimPublisher now k owner' m1)" and "m3 = fst (SetCatalogJson k owner' json m2)"
  note m_defs = this
  have m1: "m1 = emit (map (\<lambda>cb. OnUnpublish cb a n) (cb_vec m)) (put_stream k ?s1 m)"
    using assms(1-7) unfolding m_defs
    by (simp add: ReleasePublisher_def RemovePublisher_def Let_def notify_unpublish_def put_stream_def)
  have "find_stream m1 k = Some ?s1" by (simp add: m1 table)
  then have m2: "m2 = put_stream k ?s2 m1" by (simp add: m_defs(2) ClaimPublisher_def)
  then have f2: "find_stream m2 k = Some ?s2" by (simp add: table)
  then have "m3 = m2" using assms(5,6) by (auto simp: m_defs(3) SetCatalogJson_def)
  moreover have "events m2 = events m @ map (\<lambda>cb. OnUnpublish cb a n) (cb_vec m)"
    by (simp add: m2 m1 put_stream_def emit_def)
  moreover have "leave_and_return now k owner owner' json m = m3"
    by (simp add: leave_and_return_def m_defs)
  ultimately show ?thesis using f2 assms(5,6) by (simp add: HasPublisher_def GetCatalogJson_def)
qed

theorem republish_is_not_announced_witness:
  "events (leave_and_return 9 ''a/s'' ''o'' ''o'' ''{}'' (put_stream ''a/s'' (new_MediaStream\<lparr>publisher_exist := True,
       publisher_id := ''o'', catalog_json := ''{}'', writer_map := [(''w1'', 3)]\<rparr>) example_manager))
   = [OnUnpublish 0 ''a'' ''s'']"
  by (subst republish_is_not_announced [where a = "''a''" and n = "''s''"])
    (simp_all add: table GetAppStreamname_def, simp_all add: put_stream_def example_manager_def)

section \<open>Fan-out\<close>

definition deliver :: "'w av_ops \<Rightarrow> gop_cache \<Rightarrow> media_packet \<Rightarrow> 'w \<Rightarrow> 'w \<times> int" where
  "deliver V g pkt w =
     (if \<not> IsInited V w then write_all V (SetInitFlag V w True) (replay g) 0 else WritePacket V w pkt)"

text \<open>
  The fan-out hands a packet to every player exactly once, in whatever order the table is
  walked: a player that is already running gets the packet, a new one the whole GOP (which
  ends with the packet), nobody else is touched; the removal list names exactly the players that
  failed, and the count is the number of the others.
\<close>

lemma fan_out_serves_each_once:
  assumes "distinct (map snd ws)"
  shows "fan_out V g pkt ws h =
     ((\<lambda>p. if p \<in> snd ` set ws then fst (deliver V g pkt (h p)) else h p),
      filter (\<lambda>p. snd (deliver V g pkt (h p)) < 0) (map snd ws),
      int (length (filter (\<lambda>p. 0 \<le> snd (deliver V g pkt (h p))) (map snd ws))))"
  using assms
proof (induction ws arbitrary: h)
  case (Cons w ws)
  obtain wid p where w: "w = (wid, p)" by force
  obtain w1 r where d: "deliver V g pkt (h p) = (w1, r)" by force
  have step: "(if \<not> IsInited V (h p) then map_prod the id (WriterGop V g (Some (SetInitFlag V (h p) True)))
      else WritePacket V (h p) pkt) = (w1, r)"
    using d by (auto simp: deliver_def WriterGop_replays_raw simp del: WriterGop.simps)
  have away: "filter (\<lambda>q. P (snd (deliver V g pkt ((h(p := w1)) q)))) (map snd ws)
      = filter (\<lambda>q. P (snd (deliver V g pkt (h q)))) (map snd ws)" for P :: "int \<Rightarrow> bool"
    by (rule filter_cong) (use Cons.prems in \<open>auto simp: w\<close>)
  have rest: "(\<lambda>q. if q \<in> snd ` set ws then fst (deliver V g pkt ((h(p := w1)) q)) else (h(p := w1)) q)
      = (\<lambda>q. if q \<in> snd ` set ws then fst (deliver V g pkt (h q)) else (h(p := w1)) q)"
    using Cons.prems by (auto simp: w fun_eq_iff)
  have "distinct (map snd ws)" using Cons.prems by simp
  note IH = Cons.IH [OF this, of "h(p := w1)", unfolded rest away [of "\<lambda>r. r < 0"] away [of "\<lambda>r. 0 \<le> r"]]
  from Cons.prems d show ?case
    by (auto simp: w step IH fun_eq_iff)
qed auto

text \<open>Under the laws of a writer, a delivery changes neither its key nor its id.\<close>

definition bound :: "'w av_ops \<Rightarrow> (ptr \<Rightarrow> 'w) \<Rightarrow> string \<Rightarrow> (string \<times> ptr) list \<Rightarrow> bool" where
  "bound V h k ws \<longleftrightarrow> (\<forall>(wid, p)\<in>set ws. GetKey V (h p) = k \<and> GetWriterId V (h p) = wid)"

lemma distinct_snd: "distinct (map fst ws) \<Longrightarrow> bound V h k ws \<Longrightarrow> distinct (map snd ws)"
proof (induction ws)
  case (Cons w ws)
  have "snd w \<notin> snd ` set ws"
  proof
    assume "snd w \<in> snd ` set ws"
    then obtain x where x: "x \<in> set ws" "snd x = snd w" by auto
    then have "fst x = fst w" using Cons.prems(2) by (auto simp: bound_def)
    with x Cons.prems(1) show False by (auto intro: rev_image_eqI)
  qed
  with Cons show ?case by (auto simp: bound_def)
qed simp

lemma RemovePlayer_heap [simp]: "heap (RemovePlayer V p m) = heap m"
  by (simp add: RemovePlayer_def Let_def put_stream_def erase_stream_def split: option.split)

lemma RemovePlayer_elsewhere:
  "k \<noteq> GetKey V (heap m p) \<Longrightarrow> find_stream (RemovePlayer V p m) k = find_stream m k"
  by (auto simp: RemovePlayer_def Let_def table split: option.split)

lemma removals_heap: "heap (foldl (\<lambda>m p. RemovePlayer V p m) m ps) = heap m"
  by (induction ps arbitrary: m) simp_all

text \<open>What a fan-out does to the writers, whatever they answer to the questions for key and id.\<close>

lemma WriterMediaPacket_heap:
  assumes "find_stream m k = Some s" "distinct (map snd (writer_map s))" "pkt_key pkt = k" "k \<noteq> []"
    and n: "NormalizeDts now (s\<lparr>publisher_exist := True\<rparr>) pkt = (s1, q)"
    and "g = fst (InsertPacket (gop s) (Some q))" "hls_writer m = None" "r2r_writer m = None"
  shows "heap (fst (WriterMediaPacket V now (Some pkt) m)) p =
    (if p \<in> snd ` set (writer_map s) then fst (deliver V g q (heap m p)) else heap m p)"
proof -
  note keeps = NormalizeDts_keeps [OF n]
  have pk: "packet_key pkt = pkt" using assms(3,4) by (simp add: packet_key_def)
  have ap: "AddPublisher k m = (put_stream k (s\<lparr>publisher_exist := True\<rparr>) m, s\<lparr>publisher_exist := True\<rparr>)"
    using assms(1) by (simp add: AddPublisher_def Let_def)
  show ?thesis
    unfolding WriterMediaPacket_def option.case pk assms(3) Let_def ap prod.case n
    using keeps assms(6-8) by (simp add: fan_out_serves_each_once [OF assms(2)] removals_heap write_side_def put_stream_def)
qed

context av_writer
begin

lemma write_all_keeps:
  "GetKey V (fst (write_all V w ps r)) = GetKey V w \<and> GetWriterId V (fst (write_all V w ps r)) = GetWriterId V w"
proof (induction ps arbitrary: w r)
  case (Cons p ps)
  obtain w' r' where "WritePacket V w p = (w', r')" by force
  with Cons [of w' r'] key_write [of w p] id_write [of w p] show ?case by simp
qed simp

lemma deliver_keeps:
  "GetKey V (fst (deliver V g pkt w)) = GetKey V w" "GetWriterId V (fst (deliver V g pkt w)) = GetWriterId V w"
  using write_all_keeps [of "SetInitFlag V w True" "replay g" 0]
  by (simp_all add: deliver_def key_write id_write key_init id_init)

lemma write_side_keeps:
  "GetKey V (write_side V wp pkt h p) = GetKey V (h p)"
  "GetWriterId V (write_side V wp pkt h p) = GetWriterId V (h p)"
  by (auto simp: write_side_def key_write id_write split: option.splits)

lemma heap_put: "heap (put_stream k s m) = heap m"
  by (simp add: put_stream_def)

lemma heap_emit: "heap (emit es m) = heap m"
  by (simp add: emit_def)

lemma AddPlayer_elsewhere:
  assumes "k \<noteq> GetKey V (heap m p)"
  shows "find_stream (fst (AddPlayer V (Some p) m)) k = find_stream m k"
proof -
  have "GetKey V (CloseWriter V (fst (write_all V (SetInitFlag V (heap m p) True) ps 0))) = GetKey V (heap m p)" for ps
    using write_all_keeps [of "SetInitFlag V (heap m p) True" ps 0] by (simp add: key_close key_init)
  then have r: "find_stream (RemovePlayer V p (set_writer p (CloseWriter V (fst (write_all V (SetInitFlag V (heap m p) True) ps 0)))
      m')) k = find_stream m' k" for ps m'
    using assms by (subst RemovePlayer_elsewhere) (simp_all add: set_writer_def find_stream_def)
  show ?thesis
    unfolding AddPlayer_def option.case Let_def WriterGop_replays_raw
    using assms by (simp add: table r heap_emit heap_put case_prod_unfold split: option.split)
qed

lemma RemovePlayer_bound:
  assumes "find_stream m k = Some s" "publisher_exist s" "(wid, p) \<in> set (writer_map s)"
    and "distinct (map fst (writer_map s))" "bound V (heap m) k (writer_map s)"
  shows "RemovePlayer V p m = put_stream k (s\<lparr>writer_map := filter (\<lambda>x. snd x \<noteq> p) (writer_map s)\<rparr>) m"
proof -
  have wp: "GetKey V (heap m p) = k" "GetWriterId V (heap m p) = wid"
    using assms(3,5) by (auto simp: bound_def)
  have "map_of (writer_map s) wid = Some p" using assms(3,4) by simp
  moreover have "AList.delete wid (writer_map s) = filter (\<lambda>x. snd x \<noteq> p) (writer_map s)"
    unfolding AList.delete_eq
  proof (rule filter_cong)
    fix x assume x: "x \<in> set (writer_map s)"
    have "snd x = p" if "fst x = wid"
    proof -
      have "(wid, snd x) \<in> set (writer_map s)" using x by (simp flip: that)
      then show ?thesis using assms(3) by (rule eq_key_imp_eq_value [OF assms(4)])
    qed
    moreover have "fst x = wid" if "snd x = p"
    proof -
      have "GetWriterId V (heap m (snd x)) = fst x"
        using assms(5) x by (cases x) (simp only: bound_def snd_conv fst_conv, blast)
      then show ?thesis by (simp only: that wp)
    qed
    ultimately show "(case x of (k', v) \<Rightarrow> wid \<noteq> k') \<longleftrightarrow> snd x \<noteq> p" by (cases x) auto
  qed simp
  ultimately show ?thesis
    unfolding RemovePlayer_def wp Let_def assms(1) option.case using assms(2) by simp
qed

lemma removals:
  assumes "find_stream m k = Some s" "publisher_exist s" "set ps \<subseteq> snd ` set (writer_map s)" "distinct ps"
    and "distinct (map fst (writer_map s))" "bound V (heap m) k (writer_map s)"
  shows "find_stream (foldl (\<lambda>m p. RemovePlayer V p m) m ps) k' = (if k' = k
      then Some (s\<lparr>writer_map := filter (\<lambda>x. snd x \<notin> set ps) (writer_map s)\<rparr>) else find_stream m k')
    \<and> heap (foldl (\<lambda>m p. RemovePlayer V p m) m ps) = heap m"
  using assms
proof (induction ps arbitrary: m s)
  case (Cons p ps)
  let ?s = "s\<lparr>writer_map := filter (\<lambda>x. snd x \<noteq> p) (writer_map s)\<rparr>"
  obtain wid where wid: "(wid, p) \<in> set (writer_map s)" using Cons.prems(3) by auto
  have e: "RemovePlayer V p m = put_stream k ?s m"
    using Cons.prems by (intro RemovePlayer_bound [OF _ _ wid]) auto
  have d: "distinct (map fst (writer_map ?s))" using Cons.prems(5) by (simp add: distinct_map_filter)
  have b: "bound V (heap (put_stream k ?s m)) k (writer_map ?s)"
    using Cons.prems(6) by (auto simp: bound_def heap_put)
  have sub: "set ps \<subseteq> snd ` set (writer_map ?s)" using Cons.prems(3,4) by force
  note IH = Cons.IH [of "put_stream k ?s m" ?s, OF _ _ sub _ d b]
  have "filter (\<lambda>x. snd x \<notin> set ps) (writer_map ?s) = filter (\<lambda>x. snd x \<notin> set (p # ps)) (writer_map s)"
    by (auto intro: filter_cong)
  with IH Cons.prems(2,4) show ?case by (simp add: e find_put heap_put)
qed simp

lemma media_is_delivered:
  assumes inv: "table_inv m" and f: "find_stream m k = Some s" and b: "bound V (heap m) k (writer_map s)"
    and k: "pkt_key pkt = k" "k \<noteq> []"
    and n: "NormalizeDts now (s\<lparr>publisher_exist := True\<rparr>) pkt = (s1, q)"
    and g: "g = fst (InsertPacket (gop s) (Some q))"
    and out: "WriterMediaPacket V now (Some pkt) m = (m', cnt)"
  shows "find_stream m' k = Some (s1\<lparr>gop := g, writer_map :=
        filter (\<lambda>x. 0 \<le> snd (deliver V g q (heap m (snd x)))) (writer_map s)\<rparr>)
    \<and> cnt = int (length (filter (\<lambda>x. 0 \<le> snd (deliver V g q (heap m (snd x)))) (writer_map s)))
    \<and> (\<forall>k'. k' \<noteq> k \<longrightarrow> find_stream m' k' = find_stream m k')
    \<and> (\<forall>p. Some p \<noteq> hls_writer m \<and> Some p \<noteq> r2r_writer m
         \<longrightarrow> heap m' p = (if p \<in> snd ` set (writer_map s) then fst (deliver V g q (heap m p)) else heap m p))"
proof -
  let ?ok = "\<lambda>p. 0 \<le> snd (deliver V g q (heap m p))"
  let ?s2 = "s1\<lparr>gop := g\<rparr>"
  note keeps = NormalizeDts_keeps [OF n]
  have d: "distinct (map fst (writer_map s))" using inv_find [OF inv f] by (simp add: stream_ok_def)
  have dp: "distinct (map snd (writer_map s))" by (rule distinct_snd [OF d b])
  define m1 where "m1 = put_stream k (s\<lparr>publisher_exist := True\<rparr>) m"
  define m2 where "m2 = put_stream k ?s2 m1"
  have m2: "heap m2 = heap m" "hls_writer m2 = hls_writer m" "r2r_writer m2 = r2r_writer m"
    by (simp_all add: m2_def m1_def put_stream_def)
  define h where "h = (\<lambda>p. if p \<in> snd ` set (writer_map s) then fst (deliver V g q (heap m p)) else heap m p)"
  define h2 where "h2 = write_side V (hls_writer m) q (write_side V (r2r_writer m) q h)"
  define rm where "rm = filter (\<lambda>p. \<not> ?ok p) (map snd (writer_map s))"
  have "fan_out V g q (writer_map s) (heap m) =
      (h, rm, int (length (filter ?ok (map snd (writer_map s)))))"
    by (simp add: fan_out_serves_each_once [OF dp] h_def rm_def not_le)
  then have fo: "fan_out V g q (writer_map ?s2) (heap m2) =
      (h, rm, int (length (filter ?ok (map snd (writer_map s)))))"
    using keeps by (simp add: m2)
  have pk: "packet_key pkt = pkt" using k by (simp add: packet_key_def)
  have ap: "AddPublisher k m = (m1, s\<lparr>publisher_exist := True\<rparr>)"
    by (simp add: AddPublisher_def f m1_def Let_def)
  have s2: "s1\<lparr>gop := fst (InsertPacket (gop s1) (Some q))\<rparr> = ?s2" using g keeps by simp
  have res: "(m', cnt) = (foldl (\<lambda>m p. RemovePlayer V p m) (m2\<lparr>heap := h2\<rparr>) rm,
      int (length (filter ?ok (map snd (writer_map s)))))"
    unfolding out [symmetric] WriterMediaPacket_def option.case pk k(1) Let_def ap prod.case n s2
      m2_def [symmetric]
    using fo by (simp add: m2 h2_def)
  have hk: "GetKey V (h2 p) = GetKey V (heap m p)" "GetWriterId V (h2 p) = GetWriterId V (heap m p)" for p
    by (simp_all add: h2_def write_side_keeps h_def deliver_keeps)
  let ?fin = "foldl (\<lambda>m p. RemovePlayer V p m) (m2\<lparr>heap := h2\<rparr>) rm"
  have rem: "find_stream ?fin k' = (if k' = k
      then Some (?s2\<lparr>writer_map := filter (\<lambda>x. snd x \<notin> set rm) (writer_map ?s2)\<rparr>)
      else find_stream (m2\<lparr>heap := h2\<rparr>) k') \<and> heap ?fin = heap (m2\<lparr>heap := h2\<rparr>)" for k'
  proof (rule removals)
    show "find_stream (m2\<lparr>heap := h2\<rparr>) k = Some ?s2" by (simp add: m2_def m1_def table)
    show "publisher_exist ?s2" using keeps by simp
    show "set rm \<subseteq> snd ` set (writer_map ?s2)" using keeps by (auto simp: rm_def)
    show "distinct rm" using dp by (simp add: rm_def)
    show "distinct (map fst (writer_map ?s2))" using d keeps by simp
    show "bound V (heap (m2\<lparr>heap := h2\<rparr>)) k (writer_map ?s2)" using b hk keeps by (simp add: bound_def)
  qed
  have flt: "filter (\<lambda>x. snd x \<notin> set rm) (writer_map s) = filter (\<lambda>x. ?ok (snd x)) (writer_map s)"
    by (intro filter_cong) (auto simp: rm_def)
  have m': "m' = ?fin" and cnt: "cnt = int (length (filter (\<lambda>x. ?ok (snd x)) (writer_map s)))"
    using res by (simp_all add: filter_map comp_def)
  have "find_stream m' k = Some (s1\<lparr>gop := g, writer_map := filter (\<lambda>x. ?ok (snd x)) (writer_map s)\<rparr>)"
    using rem [of k] keeps by (simp add: m' flt)
  moreover have "\<forall>k'. k' \<noteq> k \<longrightarrow> find_stream m' k' = find_stream m k'"
    using rem by (simp add: m' m2_def m1_def table)
  moreover have "heap m' p = (if p \<in> snd ` set (writer_map s) then fst (deliver V g q (heap m p)) else heap m p)"
    if "Some p \<noteq> hls_writer m" "Some p \<noteq> r2r_writer m" for p
  proof -
    have "heap m' p = h2 p" using rem by (simp add: m')
    also have "h2 p = h p" using that by (auto simp: h2_def write_side_def split: option.splits)
    finally show ?thesis by (simp add: h_def)
  qed
  ultimately show ?thesis using cnt by blast
qed

end

end
