(* ===== verification/Flv.thy ===== *)
theory Flv
  imports Media Byte_Stream
begin

text \<open>
  FLV tag bodies: \<open>format/flv/flv_tag_body.cpp\<close> (splitting and making bodies), \<open>flv_pub.cpp\<close> (the
  parser every RTMP media message goes through, and the header writer) and the tag writer of
  \<open>flv_mux.cpp\<close>. A read outside the octets received is \<open>OverRead\<close>; log calls are left out.
\<close>

section \<open>Reading octets\<close>

definition rd :: "octets \<Rightarrow> nat \<Rightarrow> (byte \<Rightarrow> fault + 'b) \<Rightarrow> fault + 'b" where
  "rd d i k = (if i < length d then k (d ! i) else Inl OverRead)"

lemma rd_simps [simp]: "rd (x # xs) 0 k = k x" "rd (x # xs) (Suc i) k = rd xs i k" "rd [] i k = Inl OverRead"
  by (simp_all add: rd_def)

lemma rd_numeral [simp]: "rd (x # xs) (numeral n) k = rd xs (pred_numeral n) k"
  by (simp add: numeral_eq_Suc)

section \<open>Constants\<close>

definition FLV_TAG_AUDIO :: byte where "FLV_TAG_AUDIO = 8"
definition FLV_TAG_VIDEO :: byte where "FLV_TAG_VIDEO = 9"
definition FLV_TAG_META_DATA3 :: byte where "FLV_TAG_META_DATA3 = 15"
definition FLV_TAG_META_DATA0 :: byte where "FLV_TAG_META_DATA0 = 18"
definition FLV_TAG_AMF0 :: byte where "FLV_TAG_AMF0 = 20"
definition FLV_VIDEO_KEY_FLAG :: byte where "FLV_VIDEO_KEY_FLAG = 0x10"
definition FLV_VIDEO_INTER_FLAG :: byte where "FLV_VIDEO_INTER_FLAG = 0x20"
definition FLV_VIDEO_AVC_SEQHDR :: byte where "FLV_VIDEO_AVC_SEQHDR = 0"
definition FLV_VIDEO_AVC_NALU :: byte where "FLV_VIDEO_AVC_NALU = 1"
definition FLV_VIDEO_AVC_END :: byte where "FLV_VIDEO_AVC_END = 2"
definition FLV_VIDEO_H264_CODEC :: byte where "FLV_VIDEO_H264_CODEC = 7"
definition FLV_VIDEO_H265_CODEC :: byte where "FLV_VIDEO_H265_CODEC = 0x0c"
definition FLV_AUDIO_MP3_CODEC :: byte where "FLV_AUDIO_MP3_CODEC = 0x20"
definition FLV_AUDIO_EX_HEADER :: byte where "FLV_AUDIO_EX_HEADER = 0x90"
definition FLV_AUDIO_AAC_CODEC :: byte where "FLV_AUDIO_AAC_CODEC = 0xa0"

lemmas flv_consts = FLV_TAG_AUDIO_def FLV_TAG_VIDEO_def FLV_TAG_META_DATA3_def FLV_TAG_META_DATA0_def
  FLV_TAG_AMF0_def FLV_VIDEO_KEY_FLAG_def FLV_VIDEO_INTER_FLAG_def FLV_VIDEO_AVC_SEQHDR_def
  FLV_VIDEO_AVC_NALU_def FLV_VIDEO_AVC_END_def FLV_VIDEO_H264_CODEC_def FLV_VIDEO_H265_CODEC_def
  FLV_AUDIO_MP3_CODEC_def FLV_AUDIO_EX_HEADER_def FLV_AUDIO_AAC_CODEC_def

section \<open>Tag bodies (flv_tag_body.cpp)\<close>

record FlvBodyView =
  view_payload :: octets
  seq :: bool
  view_key :: bool

definition SplitFlvVideoBody :: "octets \<Rightarrow> FlvBodyView option" where
  "SplitFlvVideoBody body =
     (if length body \<le> 5 then None
      else let frame_type = drop_bit 4 (body ! 0); codec = body ! 0 AND 0x0f;
               s = (body ! 1 = FLV_VIDEO_AVC_SEQHDR) in
        if codec \<noteq> FLV_VIDEO_H264_CODEC then None
        else Some \<lparr>view_payload = drop 5 body, seq = s,
               view_key = (\<not> s \<and> frame_type = drop_bit 4 FLV_VIDEO_KEY_FLAG)\<rparr>)"

definition SplitFlvAudioBody :: "octets \<Rightarrow> FlvBodyView option" where
  "SplitFlvAudioBody body =
     (if length body \<le> 2 then None
      else if drop_bit 4 (body ! 0) \<noteq> drop_bit 4 FLV_AUDIO_AAC_CODEC then None
      else Some \<lparr>view_payload = drop 2 body, seq = (body ! 1 = 0), view_key = False\<rparr>)"

definition MakeFlvVideoPacket :: "int \<Rightarrow> bool \<Rightarrow> bool \<Rightarrow> octets \<Rightarrow> media_packet" where
  "MakeFlvVideoPacket dts_ms s k data = new_Media_Packet
     \<lparr>av_type := MEDIA_VIDEO_TYPE, codec_type := MEDIA_CODEC_H264, fmt_type := MEDIA_FORMAT_FLV,
      dts := dts_ms, pts := dts_ms, is_seq_hdr := s, is_key_frame := (\<not> s \<and> k),
      payload := [if s \<or> k then FLV_VIDEO_KEY_FLAG OR FLV_VIDEO_H264_CODEC
                  else FLV_VIDEO_INTER_FLAG OR FLV_VIDEO_H264_CODEC,
                  if s then FLV_VIDEO_AVC_SEQHDR else FLV_VIDEO_AVC_NALU, 0, 0, 0] @ data\<rparr>"

definition MakeFlvAudioPacket :: "int \<Rightarrow> bool \<Rightarrow> octets \<Rightarrow> media_packet" where
  "MakeFlvAudioPacket dts_ms s data = new_Media_Packet
     \<lparr>av_type := MEDIA_AUDIO_TYPE, codec_type := MEDIA_CODEC_AAC, fmt_type := MEDIA_FORMAT_FLV,
      dts := dts_ms, pts := dts_ms, is_seq_hdr := s, is_key_frame := s, has_flv_audio_asc := True,
      payload := [FLV_AUDIO_AAC_CODEC OR 0x0f, if s then 0 else 1] @ data\<rparr>"

text \<open>
  Splitting what the makers produce gives back the codec payload and its flags, for every non-empty
  payload; an empty payload is refused.
\<close>

theorem flv_body_round_trip:
  "SplitFlvVideoBody (payload (MakeFlvVideoPacket t s k data)) =
     (if data = [] then None else Some \<lparr>view_payload = data, seq = s, view_key = (\<not> s \<and> k)\<rparr>)
   \<and> SplitFlvAudioBody (payload (MakeFlvAudioPacket t s data)) =
     (if data = [] then None else Some \<lparr>view_payload = data, seq = s, view_key = False\<rparr>)"
  by (auto simp: SplitFlvVideoBody_def MakeFlvVideoPacket_def SplitFlvAudioBody_def
      MakeFlvAudioPacket_def flv_consts Let_def)

section \<open>Codec ids (flv_pub.cpp)\<close>

definition MAKE_TAG :: "byte \<Rightarrow> byte \<Rightarrow> byte \<Rightarrow> byte \<Rightarrow> u32" where
  "MAKE_TAG a b c d = push_bit 24 (ucast a) OR (push_bit 16 (ucast b) OR (push_bit 8 (ucast c) OR ucast d))"

definition GetAudioCodecIdByFlvCodec :: "u32 \<Rightarrow> MEDIA_CODEC_TYPE" where
  "GetAudioCodecIdByFlvCodec c =
     (if c = 0xa0 then MEDIA_CODEC_AAC else if c = 0x20 then MEDIA_CODEC_MP3
      else if c = MAKE_TAG 0x4f 0x70 0x75 0x73 then MEDIA_CODEC_OPUS else MEDIA_CODEC_UNKNOWN)"

definition GetVideoCodecIdByFlvCodec :: "u32 \<Rightarrow> MEDIA_CODEC_TYPE" where
  "GetVideoCodecIdByFlvCodec c =
     (if c = 0x07 \<or> c = MAKE_TAG 0x61 0x76 0x63 0x31 then MEDIA_CODEC_H264
      else if c = 0x0c \<or> c = MAKE_TAG 0x68 0x76 0x63 0x31 then MEDIA_CODEC_H265
      else if c = MAKE_TAG 0x76 0x70 0x30 0x38 then MEDIA_CODEC_VP8
      else if c = MAKE_TAG 0x76 0x70 0x30 0x39 then MEDIA_CODEC_VP9
      else if c = MAKE_TAG 0x61 0x76 0x31 0x30 then MEDIA_CODEC_AV1
      else MEDIA_CODEC_UNKNOWN)"

text \<open>Reads of a big-endian triple and of a FourCC inside the octets received.\<close>

definition rd24 :: "octets \<Rightarrow> nat \<Rightarrow> (u32 \<Rightarrow> fault + 'b) \<Rightarrow> fault + 'b" where
  "rd24 d i k = (case Read3Bytes (drop i d) of None \<Rightarrow> Inl OverRead | Some v \<Rightarrow> k v)"

definition rdTag :: "octets \<Rightarrow> nat \<Rightarrow> (u32 \<Rightarrow> fault + 'b) \<Rightarrow> fault + 'b" where
  "rdTag d i k = rd d i (\<lambda>a. rd d (i + 1) (\<lambda>b. rd d (i + 2) (\<lambda>c. rd d (i + 3) (\<lambda>e. k (MAKE_TAG a b c e)))))"

section \<open>Parsing a tag body (flv_pub.cpp)\<close>

text \<open>
  \<open>GetFlvMediaPacket\<close>: \<open>Inr None\<close> is \<open>nullptr\<close>. The reads whose only use is a log line are kept, since they
  happen whether or not anything is logged. \<open>finish_pkt\<close> is the common end of the function.
\<close>

definition finish_pkt :: "u32 \<Rightarrow> u32 \<Rightarrow> media_packet \<Rightarrow> fault + media_packet option" where
  "finish_pkt ts ts_delta pkt = Inr (Some (pkt\<lparr>dts := uint ts, pts := uint ts + uint ts_delta\<rparr>))"

definition legacy_video :: "u32 \<Rightarrow> octets \<Rightarrow> media_packet \<Rightarrow> fault + media_packet option" where
  "legacy_video ts data pkt0 =
     rd data 0 (\<lambda>b0.
       let codec = b0 AND 0x0f; pkt = pkt0\<lparr>flv_offset := 5\<rparr> in
       if codec \<noteq> FLV_VIDEO_H264_CODEC \<and> codec \<noteq> FLV_VIDEO_H265_CODEC then Inr None
       else let pkt1 = pkt\<lparr>codec_type := (if codec = FLV_VIDEO_H264_CODEC then MEDIA_CODEC_H264 else MEDIA_CODEC_H265)\<rparr>;
                frame_type = b0 AND 0xf0 in
         rd data 1 (\<lambda>nalu_type.
           if frame_type = FLV_VIDEO_KEY_FLAG then
             if nalu_type = FLV_VIDEO_AVC_SEQHDR then
               rd24 data 2 (\<lambda>d. finish_pkt ts d (pkt1\<lparr>is_seq_hdr := True\<rparr>))
             else if nalu_type = FLV_VIDEO_AVC_NALU then
               rd24 data 2 (\<lambda>d. finish_pkt ts d (pkt1\<lparr>is_key_frame := True\<rparr>))
             else if nalu_type = FLV_VIDEO_AVC_END then Inr None
             else Inr (Some pkt1)
           else rd24 data 2 (\<lambda>d. finish_pkt ts d
             (if frame_type = FLV_VIDEO_INTER_FLAG then pkt1\<lparr>is_key_frame := False\<rparr> else pkt1))))"

definition enhanced_video :: "u32 \<Rightarrow> octets \<Rightarrow> media_packet \<Rightarrow> fault + media_packet option" where
  "enhanced_video ts data pkt =
     rd data 0 (\<lambda>b0.
       let packet_type = b0 AND 0x0f; frame_type = drop_bit 4 (b0 AND 0x70); flag = drop_bit 4 (b0 AND 0x70) in
       if packet_type = 7 then Inr None
       else if packet_type \<noteq> 4 \<and> frame_type = 5 then Inr None
       else if packet_type = 6 then
         rd data 1 (\<lambda>b1.
           if drop_bit 4 (b1 AND 0xf0) = 2 then Inr None
           else rdTag data 2 (\<lambda>tag.
             let pkt1 = pkt\<lparr>codec_type := GetVideoCodecIdByFlvCodec tag\<rparr> in
             rdTag data 8 (\<lambda>_. finish_pkt ts 0 (pkt1\<lparr>flv_offset := 6\<rparr>))))
       else
         rdTag data 1 (\<lambda>tag.
           let pkt1 = pkt\<lparr>codec_type := GetVideoCodecIdByFlvCodec tag, flv_offset := 5\<rparr> in
           if packet_type = 4 then finish_pkt ts 0 (pkt1\<lparr>av_type := MEDIA_METADATA_TYPE\<rparr>)
           else if packet_type = 0 then finish_pkt ts 0 (pkt1\<lparr>is_seq_hdr := True\<rparr>)
           else if packet_type = 1 \<or> packet_type = 3 then
             finish_pkt ts 0 (if flag = 1 then pkt1\<lparr>is_key_frame := True\<rparr> else pkt1)
           else rdTag data 5 (\<lambda>_. finish_pkt ts 0 pkt1)))"

definition audio_tag :: "u32 \<Rightarrow> octets \<Rightarrow> media_packet \<Rightarrow> fault + media_packet option" where
  "audio_tag ts data pkt0 =
     rd data 0 (\<lambda>b0.
       let pkt = pkt0\<lparr>av_type := MEDIA_AUDIO_TYPE\<rparr>; frame_type = b0 AND 0xf0 in
       if frame_type = FLV_AUDIO_AAC_CODEC then
         rd data 1 (\<lambda>b1. finish_pkt ts 0
           (let pkt1 = pkt\<lparr>codec_type := MEDIA_CODEC_AAC, flv_offset := 2\<rparr> in
            if b1 = 0 then pkt1\<lparr>is_seq_hdr := True\<rparr>
            else if b1 = 1 then pkt1\<lparr>is_key_frame := False, is_seq_hdr := False\<rparr> else pkt1))
       else if frame_type = FLV_AUDIO_EX_HEADER then
         let packet_type = b0 AND 0x0f in
         if packet_type = 7 then Inr None
         else if packet_type = 5 then
           rd data 1 (\<lambda>b1.
             if drop_bit 4 (b1 AND 0xf0) = 2 then Inr None
             else rdTag data 2 (\<lambda>tag.
               finish_pkt ts 0 (pkt\<lparr>codec_type := GetAudioCodecIdByFlvCodec tag, flv_offset := 6\<rparr>)))
         else
           rdTag data 1 (\<lambda>tag.
             let pkt1 = pkt\<lparr>codec_type := GetAudioCodecIdByFlvCodec tag, flv_offset := 5\<rparr> in
             if packet_type = 0 then finish_pkt ts 0 (pkt1\<lparr>is_seq_hdr := True\<rparr>)
             else if packet_type = 1 then finish_pkt ts 0 pkt1
             else if packet_type = 4 then finish_pkt ts 0 (pkt1\<lparr>av_type := MEDIA_METADATA_TYPE\<rparr>)
             else Inr None)
       else Inr None)"

definition GetFlvMediaPacket :: "byte \<Rightarrow> u32 \<Rightarrow> octets \<Rightarrow> fault + media_packet option" where
  "GetFlvMediaPacket type_id ts data =
     (if data = [] then Inr None
      else let pkt = new_Media_Packet\<lparr>typeid := type_id, fmt_type := MEDIA_FORMAT_FLV\<rparr> in
        if type_id = FLV_TAG_VIDEO then
          rd data 0 (\<lambda>b0. if drop_bit 7 (b0 AND 0x80) \<noteq> 1
            then legacy_video ts data (pkt\<lparr>av_type := MEDIA_VIDEO_TYPE\<rparr>)
            else enhanced_video ts data (pkt\<lparr>av_type := MEDIA_VIDEO_TYPE\<rparr>))
        else if type_id = FLV_TAG_AUDIO then audio_tag ts data pkt
        else if type_id = FLV_TAG_META_DATA3 \<or> type_id = FLV_TAG_META_DATA0 \<or> type_id = FLV_TAG_AMF0 then
          finish_pkt ts 0 (pkt\<lparr>av_type := MEDIA_METADATA_TYPE\<rparr>)
        else Inr None)"

section \<open>Writing the media header (flv_pub.cpp)\<close>

text \<open>
  \<open>AddFlvMediaHeader\<close> grows the payload into the head room of its buffer. \<open>junk\<close> stands for what the head
  room held just before the payload, which stays visible on the error returns.
\<close>

definition cts_of :: "media_packet \<Rightarrow> u32" where
  "cts_of pkt = (if pts pkt > dts pkt then word_of_int (pts pkt - dts pkt) else 0)"

definition AddFlvMediaHeader :: "octets \<Rightarrow> media_packet \<Rightarrow> media_packet \<times> int" where
  "AddFlvMediaHeader junk pkt0 =
     (let pkt = pkt0\<lparr>fmt_type := MEDIA_FORMAT_FLV\<rparr> in
      if av_type pkt = MEDIA_AUDIO_TYPE then
        if codec_type pkt = MEDIA_CODEC_AAC then
          (pkt\<lparr>payload := [FLV_AUDIO_AAC_CODEC OR 0x0f, if is_seq_hdr pkt then 0 else 1] @ payload pkt\<rparr>, 0)
        else (pkt\<lparr>payload := drop (length junk - 2) junk @ payload pkt\<rparr>, -1)
      else if av_type pkt = MEDIA_VIDEO_TYPE then
        if codec_type pkt \<noteq> MEDIA_CODEC_H264 \<and> codec_type pkt \<noteq> MEDIA_CODEC_H265 then
          (pkt\<lparr>payload := 0 # drop (length junk - 4) junk @ payload pkt\<rparr>, -1)
        else
          let codec = (if codec_type pkt = MEDIA_CODEC_H264 then FLV_VIDEO_H264_CODEC else FLV_VIDEO_H265_CODEC);
              hdr = (if is_key_frame pkt \<or> is_seq_hdr pkt
                     then [codec OR FLV_VIDEO_KEY_FLAG, if is_seq_hdr pkt then 0 else 1]
                     else [codec OR FLV_VIDEO_INTER_FLAG, 1])
          in (pkt\<lparr>payload := hdr @ Write3Bytes (cts_of pkt) @ payload pkt\<rparr>, 0)
      else (pkt, 0))"

lemma rd24_Write3: "rd24 (Write3Bytes v @ r) 0 k = k (word_of_nat (unat v mod 2 ^ 24))"
  by (simp add: rd24_def wire)

lemma rd24_Cons [simp]: "rd24 (x # xs) (Suc i) k = rd24 xs i k"
  by (simp add: rd24_def)

lemma rd24_Cons_numeral [simp]: "rd24 (x # xs) (numeral n) k = rd24 xs (pred_numeral n) k"
  by (simp add: numeral_eq_Suc)

text \<open>The legacy video branch on the five header octets the writer produces.\<close>

lemma parse_video_header:
  fixes c :: u32 and r :: octets
  defines "pkt c' \<equiv> new_Media_Packet\<lparr>typeid := FLV_TAG_VIDEO, fmt_type := MEDIA_FORMAT_FLV,
    av_type := MEDIA_VIDEO_TYPE, flv_offset := 5, codec_type := c'\<rparr>"
    and "d \<equiv> word_of_nat (unat c mod 2 ^ 24)"
  shows "GetFlvMediaPacket FLV_TAG_VIDEO ts ([0x17, 0] @ Write3Bytes c @ r) = finish_pkt ts d (pkt MEDIA_CODEC_H264\<lparr>is_seq_hdr := True\<rparr>)"
    "GetFlvMediaPacket FLV_TAG_VIDEO ts ([0x17, 1] @ Write3Bytes c @ r) = finish_pkt ts d (pkt MEDIA_CODEC_H264\<lparr>is_key_frame := True\<rparr>)"
    "GetFlvMediaPacket FLV_TAG_VIDEO ts ([0x27, 1] @ Write3Bytes c @ r) = finish_pkt ts d (pkt MEDIA_CODEC_H264\<lparr>is_key_frame := False\<rparr>)"
    "GetFlvMediaPacket FLV_TAG_VIDEO ts ([0x1c, 0] @ Write3Bytes c @ r) = finish_pkt ts d (pkt MEDIA_CODEC_H265\<lparr>is_seq_hdr := True\<rparr>)"
    "GetFlvMediaPacket FLV_TAG_VIDEO ts ([0x1c, 1] @ Write3Bytes c @ r) = finish_pkt ts d (pkt MEDIA_CODEC_H265\<lparr>is_key_frame := True\<rparr>)"
    "GetFlvMediaPacket FLV_TAG_VIDEO ts ([0x2c, 1] @ Write3Bytes c @ r) = finish_pkt ts d (pkt MEDIA_CODEC_H265\<lparr>is_key_frame := False\<rparr>)"
  unfolding pkt_def d_def
  by (simp_all add: GetFlvMediaPacket_def legacy_video_def flv_consts rd24_Write3 Let_def)

lemma written_video_header:
  assumes "av_type p = MEDIA_VIDEO_TYPE" "codec_type p = MEDIA_CODEC_H264 \<or> codec_type p = MEDIA_CODEC_H265"
  shows "AddFlvMediaHeader junk p = (p\<lparr>fmt_type := MEDIA_FORMAT_FLV, payload :=
    [if is_key_frame p \<or> is_seq_hdr p then (if codec_type p = MEDIA_CODEC_H264 then 0x17 else 0x1c)
     else (if codec_type p = MEDIA_CODEC_H264 then 0x27 else 0x2c), if is_seq_hdr p then 0 else 1]
    @ Write3Bytes (cts_of p) @ payload p\<rparr>, 0)"
  using assms by (auto simp: AddFlvMediaHeader_def flv_consts Let_def cts_of_def)

text \<open>
  The parser undoes the header writer: for H.264, H.265 and AAC packets with non-negative 32-bit decode
  time, parsing the written body at that time gives back kind, codec, sequence-header and
  key-frame flags and decode time, the payload starts at the reported offset, and the composition
  offset survives below 2\<open>^\<close>24 ms (for audio it is dropped).
\<close>

theorem flv_header_round_trip:
  assumes "av_type p = MEDIA_VIDEO_TYPE \<and> codec_type p \<in> {MEDIA_CODEC_H264, MEDIA_CODEC_H265}
      \<and> \<not> (is_key_frame p \<and> is_seq_hdr p) \<and> type = FLV_TAG_VIDEO
    \<or> av_type p = MEDIA_AUDIO_TYPE \<and> codec_type p = MEDIA_CODEC_AAC \<and> \<not> is_key_frame p \<and> type = FLV_TAG_AUDIO"
  shows "snd (AddFlvMediaHeader junk p) = 0
    \<and> (\<exists>q. GetFlvMediaPacket type ts (payload (fst (AddFlvMediaHeader junk p))) = Inr (Some q)
      \<and> av_type q = av_type p \<and> codec_type q = codec_type p \<and> is_seq_hdr q = is_seq_hdr p
      \<and> is_key_frame q = is_key_frame p \<and> dts q = uint ts
      \<and> pts q = uint ts + (if av_type p = MEDIA_VIDEO_TYPE then int (unat (cts_of p) mod 2 ^ 24) else 0)
      \<and> drop (flv_offset q) (payload (fst (AddFlvMediaHeader junk p))) = payload p)"
  using assms
proof
  assume v: "av_type p = MEDIA_VIDEO_TYPE \<and> codec_type p \<in> {MEDIA_CODEC_H264, MEDIA_CODEC_H265}
      \<and> \<not> (is_key_frame p \<and> is_seq_hdr p) \<and> type = FLV_TAG_VIDEO"
  then have ty: "type = FLV_TAG_VIDEO" and ks: "\<not> (is_key_frame p \<and> is_seq_hdr p)" and
    c: "codec_type p = MEDIA_CODEC_H264 \<or> codec_type p = MEDIA_CODEC_H265" by auto
  have w: "AddFlvMediaHeader junk p = (p\<lparr>fmt_type := MEDIA_FORMAT_FLV, payload :=
    [if is_key_frame p \<or> is_seq_hdr p then (if codec_type p = MEDIA_CODEC_H264 then 0x17 else 0x1c)
     else (if codec_type p = MEDIA_CODEC_H264 then 0x27 else 0x2c), if is_seq_hdr p then 0 else 1]
    @ Write3Bytes (cts_of p) @ payload p\<rparr>, 0)"
    using v c by (intro written_video_header) auto
  let ?d = "word_of_nat (unat (cts_of p) mod 2 ^ 24) :: u32"
  have "unat (cts_of p) mod 2 ^ 24 < (2::nat) ^ 32" by (rule less_trans [of _ "2 ^ 24"]) simp_all
  then have "unat ?d = unat (cts_of p) mod 2 ^ 24" by (simp only: unat_of_nat take_bit_nat_eq_self) simp
  then have d: "uint ?d = int (unat (cts_of p) mod 2 ^ 24)" by (simp only: uint_nat)
  let ?q = "new_Media_Packet\<lparr>typeid := FLV_TAG_VIDEO, fmt_type := MEDIA_FORMAT_FLV,
    av_type := MEDIA_VIDEO_TYPE, flv_offset := 5, codec_type := codec_type p,
    is_seq_hdr := is_seq_hdr p, is_key_frame := is_key_frame p\<rparr>"
  have "GetFlvMediaPacket type ts (payload (fst (AddFlvMediaHeader junk p))) = finish_pkt ts ?d ?q"
    using c ks by (cases "is_key_frame p"; cases "is_seq_hdr p")
      (auto simp: w ty parse_video_header [simplified] new_Media_Packet_def)
  also have "\<dots> = Inr (Some (?q\<lparr>dts := uint ts, pts := uint ts + int (unat (cts_of p) mod 2 ^ 24)\<rparr>))"
    by (simp only: finish_pkt_def d)
  finally have "GetFlvMediaPacket type ts (payload (fst (AddFlvMediaHeader junk p))) = \<dots>" .
  moreover have "drop 5 (payload (fst (AddFlvMediaHeader junk p))) = payload p" "snd (AddFlvMediaHeader junk p) = 0"
    by (simp_all add: w)
  ultimately show ?thesis using v by (intro conjI exI) (assumption | simp)+
next
  assume "av_type p = MEDIA_AUDIO_TYPE \<and> codec_type p = MEDIA_CODEC_AAC \<and> \<not> is_key_frame p \<and> type = FLV_TAG_AUDIO"
  then show ?thesis
    by (cases "is_seq_hdr p") (simp_all add: AddFlvMediaHeader_def Let_def GetFlvMediaPacket_def audio_tag_def
      finish_pkt_def flv_consts new_Media_Packet_def)
qed

theorem flv_header_round_trip_witness:
  "\<exists>q. GetFlvMediaPacket FLV_TAG_AUDIO 70000 (payload (fst (AddFlvMediaHeader [] (new_Media_Packet
      \<lparr>av_type := MEDIA_AUDIO_TYPE, codec_type := MEDIA_CODEC_AAC, is_seq_hdr := True, payload := [0x12, 0x10]\<rparr>))))
     = Inr (Some q) \<and> is_seq_hdr q \<and> dts q = 70000"
proof -
  define p where "p = new_Media_Packet\<lparr>av_type := MEDIA_AUDIO_TYPE, codec_type := MEDIA_CODEC_AAC,
    is_seq_hdr := True, payload := [0x12, 0x10]\<rparr>"
  have "is_seq_hdr p" and h: "av_type p = MEDIA_AUDIO_TYPE \<and> codec_type p = MEDIA_CODEC_AAC \<and> \<not> is_key_frame p \<and> FLV_TAG_AUDIO = FLV_TAG_AUDIO"
    by (simp_all add: p_def new_Media_Packet_def)
  with flv_header_round_trip [OF disjI2 [OF h], where ts = 70000 and junk = "[]"] show ?thesis
    unfolding p_def [symmetric] by auto
qed

text \<open>
  Over-read on short messages: an RTMP session hands over any media message of at least two octets, and
  the legacy video branch reads three more without a length check. Exactly the key and inter frames of a known
  codec shorter than five octets (an end-of-sequence or an unknown packet type apart) read outside the message.
\<close>

theorem short_video_over_read:
  assumes "2 \<le> length data" "length data < 5" "data ! 0 AND 0x80 = 0"
    "data ! 0 AND 0x0f = 7 \<or> data ! 0 AND 0x0f = 0x0c"
  shows "GetFlvMediaPacket FLV_TAG_VIDEO ts data = Inl OverRead \<longleftrightarrow>
    (data ! 0 AND 0xf0 = 0x10 \<longrightarrow> data ! 1 = 0 \<or> data ! 1 = 1)"
proof -
  have o: "rd24 data 2 k = Inl OverRead" for k :: "u32 \<Rightarrow> fault + media_packet option"
  proof -
    have "length data - 2 < 3" using assms(2) by linarith
    then show ?thesis by (simp add: rd24_def Read3Bytes_def read_be_def)
  qed
  have e: "drop_bit 7 (b AND 0x80) = drop_bit 7 b AND 1" for b :: byte by simp
  have n: "drop_bit 7 (data ! 0) AND 1 \<noteq> 1" by (simp only: e [symmetric] assms(3)) simp
  show ?thesis
    using assms n by (auto simp: GetFlvMediaPacket_def legacy_video_def rd_def flv_consts Let_def o)
qed

theorem short_video_over_read_witness:
  "GetFlvMediaPacket FLV_TAG_VIDEO 0 [0x17, 0] = Inl OverRead"
  by (subst short_video_over_read) simp_all

section \<open>Tag writer (flv_mux.cpp)\<close>

record flv_muxer =
  header_ready :: bool
  mux_has_video :: bool
  mux_has_audio :: bool

definition new_FlvMuxer :: flv_muxer where
  "new_FlvMuxer = \<lparr>header_ready = False, mux_has_video = True, mux_has_audio = True\<rparr>"

text \<open>The effect of the options \<open>onlyvideo\<close> and \<open>onlyaudio\<close>.\<close>

definition mux_option :: "bool \<Rightarrow> bool \<Rightarrow> flv_muxer \<Rightarrow> flv_muxer" where
  "mux_option onlyvideo onlyaudio m =
     (let m1 = (if onlyvideo then m\<lparr>mux_has_video := True, mux_has_audio := False\<rparr> else m)
      in if onlyaudio then m1\<lparr>mux_has_video := False, mux_has_audio := True\<rparr> else m1)"

definition MuxFlvHeader :: "flv_muxer \<Rightarrow> octets" where
  "MuxFlvHeader m =
     (let flag = (if mux_has_video m then 0x01 else 0) OR (if mux_has_audio m then 0x04 else 0)
      in [0x46, 0x4c, 0x56, 0x01, flag, 0, 0, 0, 0x09, 0, 0, 0, 0])"

text \<open>
  \<open>tag_bytes\<close> is the tag for a packet, or \<open>None\<close> where the code reports an error and returns -1. \<open>data_size\<close> is
  a \<open>size_t\<close>, of which the low 24 (tag) or 32 (previous tag size) bits are written.
\<close>

definition tag_prefix :: "byte \<Rightarrow> nat \<Rightarrow> int \<Rightarrow> octets" where
  "tag_prefix type media_size d =
     (let base = word_of_int d AND 0xffffff; ext = drop_bit 24 (word_of_int d AND 0xffffff) AND 0xff
      in type # be_bytes 3 media_size @ Write3Bytes base @ [ucast (ext :: u32)] @ [0, 0, 1])"

definition tag_bytes :: "media_packet \<Rightarrow> octets option" where
  "tag_bytes pkt =
     (let n = length (payload pkt) in
      if av_type pkt = MEDIA_VIDEO_TYPE then
        let flags = (if is_seq_hdr pkt then [FLV_VIDEO_KEY_FLAG, FLV_VIDEO_AVC_SEQHDR]
                     else if is_key_frame pkt then [FLV_VIDEO_KEY_FLAG, FLV_VIDEO_AVC_NALU]
                     else [FLV_VIDEO_INTER_FLAG, FLV_VIDEO_AVC_NALU]) in
        (if codec_type pkt = MEDIA_CODEC_H264 \<or> codec_type pkt = MEDIA_CODEC_H265 then
           let codec = (if codec_type pkt = MEDIA_CODEC_H264 then FLV_VIDEO_H264_CODEC else FLV_VIDEO_H265_CODEC)
           in Some (tag_prefix FLV_TAG_VIDEO (2 + 3 + n) (dts pkt) @ [flags ! 0 OR codec, flags ! 1]
                @ Write3Bytes (cts_of pkt) @ payload pkt @ be_bytes 4 (11 + 5 + n))
         else None)
      else if av_type pkt = MEDIA_AUDIO_TYPE then
        (if codec_type pkt = MEDIA_CODEC_AAC then
           Some (tag_prefix FLV_TAG_AUDIO (2 + n) (dts pkt)
             @ [0x0f OR FLV_AUDIO_AAC_CODEC, if is_seq_hdr pkt then 0 else 1]
             @ payload pkt @ be_bytes 4 (11 + 2 + n))
         else None)
      else if av_type pkt = MEDIA_METADATA_TYPE then
        Some (tag_prefix FLV_TAG_META_DATA0 n (dts pkt) @ payload pkt @ be_bytes 4 (11 + n))
      else None)"

definition mux_InputPacket :: "flv_muxer \<Rightarrow> media_packet \<Rightarrow> flv_muxer \<times> media_packet option \<times> int" where
  "mux_InputPacket m pkt =
     (let hdr = (if \<not> header_ready m then MuxFlvHeader m else []); m1 = m\<lparr>header_ready := True\<rparr> in
      case tag_bytes pkt of
        None \<Rightarrow> (m1, None, -1)
      | Some tag \<Rightarrow>
          (m1, Some (new_Media_Packet\<lparr>av_type := av_type pkt, codec_type := codec_type pkt,
             fmt_type := MEDIA_FORMAT_FLV, dts := dts pkt, pts := pts pkt, payload := hdr @ tag\<rparr>), 0))"

fun mux_all :: "flv_muxer \<Rightarrow> media_packet list \<Rightarrow> octets" where
  "mux_all m [] = []"
| "mux_all m (p # ps) =
     (case mux_InputPacket m p of (m1, out, _) \<Rightarrow>
        (case out of None \<Rightarrow> [] | Some q \<Rightarrow> payload q) @ mux_all m1 ps)"

lemma mux_all_ready:
  "header_ready m \<Longrightarrow> mux_all m ps = concat (map (\<lambda>p. case tag_bytes p of None \<Rightarrow> [] | Some t \<Rightarrow> t) ps)"
  by (induction ps arbitrary: m) (auto simp: mux_InputPacket_def Let_def split: option.splits)

text \<open>
  The file header is lost with the first packet when the muxer rejects that packet: the stream that comes
  out is the plain concatenation of the tags of the accepted packets, and it begins with the header
  exactly when the first packet was accepted.
\<close>

theorem mux_header_lost_on_error:
  "mux_all new_FlvMuxer (p # ps) =
     (if tag_bytes p = None then [] else MuxFlvHeader new_FlvMuxer)
     @ concat (map (\<lambda>p. case tag_bytes p of None \<Rightarrow> [] | Some t \<Rightarrow> t) (p # ps))"
  by (auto simp: mux_InputPacket_def mux_all_ready Let_def new_FlvMuxer_def split: option.splits)

end
