(* ===== verification/Amf0.thy ===== *)
theory Amf0
  imports Data_Buffer Byte_Stream
begin

text \<open>
  AMF0 values, \<open>format/amf/amf0.hpp\<close>: the encoder and decoder of RTMP commands. An \<open>AMF_ITERM\<close> is a
  tagged value; a \<open>double\<close> is its 64 bits (the code moves it through \<open>uint64_t\<close> unchanged), a
  \<open>std::string\<close> its octets, a \<open>std::map\<close> an association list (lookup is by key, and the encoder's callers
  list the entries in key order). A decoder call works on the octets left in the message and the
  counter \<open>left_len\<close>; \<open>OverRead\<close> is a read past the message. Recursion is bounded by fuel, and \<open>None\<close>
  means the fuel ran out: \<open>Decode_total\<close> shows that twice the length of the message is enough.
\<close>

datatype amf = AmfUnknown | AmfNumber u64 | AmfBool bool | AmfString octets
  | AmfObject "(octets \<times> amf) list" | AmfNull | AmfUndefined | AmfArray "amf list"
  | AmfDate u64 | AmfLongString octets

section \<open>Encoder\<close>

definition EncodeNumber :: "u64 \<Rightarrow> octets" where "EncodeNumber num = 0x00 # Write8Bytes num"
definition EncodeNull :: octets where "EncodeNull = [0x05]"
definition EncodeBool :: "bool \<Rightarrow> octets" where "EncodeBool flag = [0x01, if flag then 0x01 else 0x00]"

definition EncodeString :: "octets \<Rightarrow> bool \<Rightarrow> octets" where
  "EncodeString str skip_marker =
     (if length str > 0xffff
      then (if \<not> skip_marker then [0x0c] else []) @ Write4Bytes (word_of_nat (length str)) @ str
      else (if \<not> skip_marker then [0x02] else []) @ Write2Bytes (word_of_nat (length str)) @ str)"

definition EncodeOnlyType :: "byte \<Rightarrow> octets" where "EncodeOnlyType t = [t]"

text \<open>One object entry: \<open>None\<close> is the early \<open>return -1\<close>, and the \<open>TODO\<close> cases write the key only.\<close>

fun encode_value :: "amf \<Rightarrow> octets option" where
  "encode_value (AmfNumber n) = Some (EncodeNumber n)"
| "encode_value (AmfBool b) = Some (EncodeBool b)"
| "encode_value (AmfString s) = Some (EncodeString s False)"
| "encode_value AmfNull = Some (EncodeOnlyType 0x05)"
| "encode_value AmfUndefined = Some (EncodeOnlyType 0x06)"
| "encode_value (AmfArray _) = Some []"
| "encode_value (AmfDate _) = Some []"
| "encode_value (AmfLongString s) = Some (EncodeString s False)"
| "encode_value (AmfObject _) = None"
| "encode_value AmfUnknown = None"

fun encode_entries :: "(octets \<times> amf) list \<Rightarrow> octets \<times> int" where
  "encode_entries [] = (EncodeString [] True @ [0x09], 0)"
| "encode_entries ((k, v) # es) =
     (case encode_value v of
        None \<Rightarrow> (EncodeString k True, -1)
      | Some bs \<Rightarrow> map_prod (\<lambda>rest. EncodeString k True @ bs @ rest) id (encode_entries es))"

definition EncodeObject :: "(octets \<times> amf) list \<Rightarrow> octets \<times> int" where
  "EncodeObject obj = map_prod (\<lambda>bs. 0x03 # bs) id (encode_entries obj)"

section \<open>Decoder\<close>

type_synonym 'a amf_result = "(fault + octets \<times> int \<times> int \<times> 'a) option"

definition ret :: "octets \<Rightarrow> int \<Rightarrow> int \<Rightarrow> 'a \<Rightarrow> 'a amf_result" where
  "ret d len r x = Some (Inr (d, len, r, x))"

definition fail :: "fault \<Rightarrow> 'a amf_result" where "fail e = Some (Inl e)"

fun bind :: "'a amf_result \<Rightarrow> (octets \<Rightarrow> int \<Rightarrow> int \<Rightarrow> 'a \<Rightarrow> 'b amf_result) \<Rightarrow> 'b amf_result" where
  "bind None k = None"
| "bind (Some (Inl e)) k = Some (Inl e)"
| "bind (Some (Inr (d, len, r, x))) k = k d len r x"

text \<open>\<open>std::string desc((char*)data, n)\<close> and the move behind it.\<close>

definition take_str :: "octets \<Rightarrow> int \<Rightarrow> nat \<Rightarrow> (octets \<Rightarrow> amf) \<Rightarrow> amf amf_result" where
  "take_str d len n c = (if length d < n then fail OverRead else ret (drop n d) (len - int n) 0 (c (take n d)))"

definition insert_key :: "octets \<Rightarrow> amf \<Rightarrow> (octets \<times> amf) list \<Rightarrow> (octets \<times> amf) list" where
  "insert_key k v obj = (if map_of obj k = None then obj @ [(k, v)] else obj)"

text \<open>The cases of \<open>Decode\<close> without recursion, after the type octet.\<close>

definition decode_scalar :: "byte \<Rightarrow> octets \<Rightarrow> int \<Rightarrow> amf amf_result" where
  "decode_scalar type d l =
     (if type = 0x00 then
        (case Read8Bytes d of None \<Rightarrow> fail OverRead | Some v \<Rightarrow> ret (drop 8 d) (l - 8) 0 (AmfNumber v))
      else if type = 0x01 then
        (case d of [] \<Rightarrow> fail OverRead | b # d1 \<Rightarrow> ret d1 (l - 1) 0 (AmfBool (b \<noteq> 0)))
      else if type = 0x02 then
        (case Read2Bytes d of None \<Rightarrow> fail OverRead
         | Some k \<Rightarrow> take_str (drop 2 d) (l - 2) (unat k) AmfString)
      else if type = 0x05 then ret d l 0 AmfNull
      else if type = 0x06 then ret d l 0 AmfUndefined
      else if type = 0x07 then fail AssertFailed
      else if type = 0x0b then
        (case Read8Bytes d of None \<Rightarrow> fail OverRead | Some v \<Rightarrow> ret (drop 10 d) (l - 10) 0 (AmfDate v))
      else if type = 0x0c then
        (case Read4Bytes d of None \<Rightarrow> fail OverRead
         | Some k \<Rightarrow> take_str (drop 4 d) (l - 4) (unat k) AmfLongString)
      else if type = 0x0d then ret d l 0 (AmfLongString [])
      else ret d l (-1) AmfUnknown)"

text \<open>The head of the loop of \<open>DecodeAmfObject\<close>: the key, or \<open>None\<close> at the empty key before the end marker.\<close>

definition read_key :: "octets \<Rightarrow> int \<Rightarrow> octets option amf_result" where
  "read_key d len =
     (case Read2Bytes d of None \<Rightarrow> fail OverRead
      | Some key_len \<Rightarrow>
        let d1 = drop 2 d; l1 = len - 2 in
        if key_len = 0 then
          (case d1 of [] \<Rightarrow> fail OverRead
           | b # _ \<Rightarrow> if b = 0x09 then ret d1 l1 0 None else fail AssertFailed)
        else if length d1 \<le> unat key_len then fail OverRead
        else ret (drop (unat key_len) d1) (l1 - int (unat key_len))
               (if d1 ! unat key_len > 0x0d then -1 else 0) (Some (take (unat key_len) d1)))"

function (sequential) Decode :: "nat \<Rightarrow> octets \<Rightarrow> int \<Rightarrow> amf amf_result"
and DecodeAmfObject :: "nat \<Rightarrow> octets \<Rightarrow> int \<Rightarrow> (octets \<times> amf) list \<Rightarrow> (octets \<times> amf) list amf_result"
and DecodeAmfArray :: "nat \<Rightarrow> octets \<Rightarrow> int \<Rightarrow> nat \<Rightarrow> amf list \<Rightarrow> amf list amf_result" where
  "Decode 0 data left_len = None"
| "Decode (Suc n) data left_len =
     (case data of [] \<Rightarrow> fail OverRead
      | type # d \<Rightarrow>
        if type > 0x0d then ret data left_len (-1) AmfUnknown
        else if type = 0x03 then
          bind (DecodeAmfObject n d (left_len - 1) []) (\<lambda>d1 l1 r obj. ret d1 l1 r (AmfObject obj))
        else if type = 0x08 then
          (case Read4Bytes d of None \<Rightarrow> fail OverRead
           | Some _ \<Rightarrow> bind (DecodeAmfObject n (drop 4 d) (left_len - 5) [])
                            (\<lambda>d1 l1 r obj. ret d1 l1 r (AmfObject obj)))
        else if type = 0x0a then
          (case Read4Bytes d of None \<Rightarrow> fail OverRead
           | Some k \<Rightarrow> bind (DecodeAmfArray n (drop 4 d) (left_len - 5) (unat k) [])
                            (\<lambda>d1 l1 r arr. ret d1 l1 0 (AmfArray arr)))
        else decode_scalar type d (left_len - 1))"
| "DecodeAmfObject 0 d len obj = None"
| "DecodeAmfObject (Suc n) d len obj =
     (if \<not> 0 < len then ret d len 0 obj
      else bind (read_key d len) (\<lambda>d1 l1 r key.
        case key of None \<Rightarrow> ret d1 l1 0 obj
        | Some k \<Rightarrow>
            if r \<noteq> 0 then ret d1 l1 r obj
            else bind (Decode n d1 l1) (\<lambda>d2 l2 r2 v.
              if r2 \<noteq> 0 then ret d2 l2 r2 obj else DecodeAmfObject n d2 l2 (insert_key k v obj))))"
| "DecodeAmfArray 0 d len k arr = None"
| "DecodeAmfArray (Suc n) d len k arr =
     (if k = 0 then ret d len 0 arr
      else bind (Decode n d len) (\<lambda>d1 l1 r v.
        if r \<noteq> 0 then ret d1 l1 r arr else DecodeAmfArray n d1 l1 (k - 1) (arr @ [v])))"
  by pat_completeness auto
termination
  by (relation "measure (\<lambda>x. case x of Inl (n, _) \<Rightarrow> n | Inr (Inl (n, _)) \<Rightarrow> n | Inr (Inr (n, _)) \<Rightarrow> n)") simp_all

text \<open>
  The loop of \<open>HandleClientCommandMessage\<close> and \<open>HandleServerCommandMessage\<close>: items are collected while octets are
  left, the result of \<open>Decode\<close> is not looked at. \<open>fuel\<close> counts its rounds.
\<close>

fun decode_command :: "nat \<Rightarrow> octets \<Rightarrow> int \<Rightarrow> amf list \<Rightarrow> (fault + amf list) option" where
  "decode_command 0 d len acc = None"
| "decode_command (Suc n) d len acc =
     (if \<not> 0 < len then Some (Inr acc)
      else case Decode (2 * length d + 2) d len of
        None \<Rightarrow> None
      | Some (Inl e) \<Rightarrow> Some (Inl e)
      | Some (Inr (d1, l1, _, v)) \<Rightarrow> decode_command n d1 l1 (acc @ [v]))"

section \<open>The decoder terminates\<close>

lemma bind_None: "bind m k = None \<longleftrightarrow> m = None \<or> (\<exists>d l r x. m = ret d l r x \<and> k d l r x = None)"
  by (cases "(m, k)" rule: bind.cases) (auto simp: ret_def)

lemma bind_ret [simp]: "bind (ret d l r x) k = k d l r x"
  by (simp add: ret_def)

lemma bind_Inr: "bind m k = ret d l r y \<longleftrightarrow> (\<exists>d1 l1 r1 x. m = ret d1 l1 r1 x \<and> k d1 l1 r1 x = ret d l r y)"
  by (cases "(m, k)" rule: bind.cases) (auto simp: ret_def)

lemma ret_eq [simp]: "ret d l r x = ret d' l' r' x' \<longleftrightarrow> d = d' \<and> l = l' \<and> r = r' \<and> x = x'"
  "ret d l r x \<noteq> fail e" "fail e \<noteq> ret d l r x" "ret d l r x \<noteq> None" "fail e \<noteq> None" "None \<noteq> ret d l r x" "None \<noteq> fail e"
  by (auto simp: ret_def fail_def)

lemma decode_scalar_shrink:
  "decode_scalar t d l = ret d' l' r v \<Longrightarrow> length d' \<le> length d"
  by (auto simp: decode_scalar_def take_str_def split: if_splits option.splits list.splits)

lemma decode_scalar_total [simp]: "decode_scalar t d l = None \<longleftrightarrow> False"
  unfolding decode_scalar_def take_str_def ret_def fail_def by (simp split: option.split list.split)

lemma read_key_shrink: "read_key d l = ret d' l' r k \<Longrightarrow> length d' < length d"
  by (auto simp: read_key_def Read2Bytes_def read_be_def Let_def split: if_splits option.splits list.splits)

lemma read_key_total [simp]: "read_key d l = None \<longleftrightarrow> False"
  unfolding read_key_def Let_def ret_def fail_def by (simp split: option.split list.split)

lemma shrink:
  "Decode n d len = ret d' len' r v \<Longrightarrow> length d' \<le> length d \<and> (r = 0 \<longrightarrow> length d' < length d)"
  "DecodeAmfObject n d len obj = ret d1' len1' r1 v1 \<Longrightarrow> length d1' \<le> length d"
  "DecodeAmfArray n d len k arr = ret d2' len2' r2 v2 \<Longrightarrow> length d2' \<le> length d"
proof (induction n d len and n d len obj and n d len k arr arbitrary: d' len' r v and d1' len1' r1 v1
    and d2' len2' r2 v2 rule: Decode_DecodeAmfObject_DecodeAmfArray.induct)
  case (2 n data left_len)
  show ?case
  proof (cases data)
    case (Cons type d)
    note p = 2(4) [unfolded Cons Decode.simps list.case]
    show ?thesis
    proof (cases "type > 13")
      case False
      consider "type = 3" | "type = 8" | "type = 10" | "type \<noteq> 3" "type \<noteq> 8" "type \<noteq> 10" by blast
      then show ?thesis
      proof cases
        case 1
        with p obtain obj where "DecodeAmfObject n d (left_len - 1) [] = ret d' len' r obj"
          by (auto simp: bind_Inr)
        from 2(1) [OF Cons False 1 this] show ?thesis by (simp add: Cons)
      next
        case 2
        with p obtain w obj where w: "Read4Bytes d = Some w"
          and "DecodeAmfObject n (drop 4 d) (left_len - 5) [] = ret d' len' r obj"
          by (auto simp: bind_Inr split: option.splits)
        from "2.IH"(2) [OF Cons False _ 2 w this(2)] 2 show ?thesis by (auto simp: Cons)
      next
        case 3
        with p obtain w r1 arr where w: "Read4Bytes d = Some w"
          and "DecodeAmfArray n (drop 4 d) (left_len - 5) (unat w) [] = ret d' len' r1 arr"
          by (auto simp: bind_Inr split: option.splits)
        from "2.IH"(3) [OF Cons False _ _ 3 w this(2)] 3 show ?thesis by (auto simp: Cons)
      next
        case 4
        with p False have "decode_scalar type d (left_len - 1) = ret d' len' r v" by simp
        from decode_scalar_shrink [OF this] show ?thesis by (simp add: Cons)
      qed
    qed (use p Cons in simp)
  qed (use 2(4) in simp)
next
  case (4 n d len obj)
  show ?case
  proof (cases "0 < len")
    case True
    with "4.prems" obtain d1 l1 ra key where k: "read_key d len = ret d1 l1 ra key"
      and rest: "(case key of None \<Rightarrow> ret d1 l1 0 obj
        | Some k \<Rightarrow> if ra \<noteq> 0 then ret d1 l1 ra obj
            else bind (Decode n d1 l1) (\<lambda>d2 l2 r2 v.
              if r2 \<noteq> 0 then ret d2 l2 r2 obj else DecodeAmfObject n d2 l2 (insert_key k v obj)))
        = ret d1' len1' r1 v1"
      by (auto simp: bind_Inr)
    have s1: "length d1 < length d" by (rule read_key_shrink [OF k])
    consider "d1' = d1" | k' where "key = Some k'" "ra = 0"
      using rest by (auto split: option.splits if_splits)
    then show ?thesis
    proof cases
      case 2
      with rest obtain d2 l2 r2 v where dec: "Decode n d1 l1 = ret d2 l2 r2 v"
        and rest2: "(if r2 \<noteq> 0 then ret d2 l2 r2 obj else DecodeAmfObject n d2 l2 (insert_key k' v obj))
          = ret d1' len1' r1 v1"
        by (auto simp: bind_Inr)
      have s2: "length d2 \<le> length d1" using "4.IH"(1) dec True 2(2) by blast
      show ?thesis
      proof (cases "r2 = 0")
        case r2: True
        with rest2 have "DecodeAmfObject n d2 l2 (insert_key k' v obj) = ret d1' len1' r1 v1" by simp
        then have "length d1' \<le> length d2" using "4.IH"(2) True 2(2) r2 by blast
        with s1 s2 show ?thesis by simp
      qed (use rest2 s1 s2 in simp)
    qed (use s1 in simp)
  qed (use "4.prems" in simp)
next
  case (6 n d len k arr)
  show ?case
  proof (cases "k = 0")
    case False
    with "6.prems" obtain d1 l1 r v where dec: "Decode n d len = ret d1 l1 r v"
      and rest: "(if r \<noteq> 0 then ret d1 l1 r arr else DecodeAmfArray n d1 l1 (k - 1) (arr @ [v]))
        = ret d2' len2' r2 v2"
      by (auto simp: bind_Inr)
    have s1: "length d1 \<le> length d" using "6.IH"(1) dec False by blast
    show ?thesis
    proof (cases "r = 0")
      case True
      with rest have "DecodeAmfArray n d1 l1 (k - 1) (arr @ [v]) = ret d2' len2' r2 v2" by simp
      then have "length d2' \<le> length d1" using "6.IH"(2) False True by blast
      with s1 show ?thesis by simp
    qed (use rest s1 in simp)
  qed (use "6.prems" in simp)
qed auto

lemma decoder_total:
  "2 * length d + 1 \<le> n \<Longrightarrow> Decode n d len \<noteq> None"
  "2 * length d + 1 \<le> n \<Longrightarrow> DecodeAmfObject n d len obj \<noteq> None"
  "2 * length d + 2 \<le> n \<Longrightarrow> DecodeAmfArray n d len k arr \<noteq> None"
proof (induction n d len and n d len obj and n d len k arr rule: Decode_DecodeAmfObject_DecodeAmfArray.induct)
  case (2 n data left_len)
  show ?case
  proof (cases data)
    case (Cons type d)
    have f: "2 * length d + 2 \<le> n" "2 * length (drop 4 d) + 2 \<le> n" using "2.prems" Cons by auto
    have nb: "bind m k \<noteq> None" if "m \<noteq> None" "\<And>d l r x. k d l r x \<noteq> None" for m :: "'x amf_result" and k :: "octets \<Rightarrow> int \<Rightarrow> int \<Rightarrow> 'x \<Rightarrow> amf amf_result"
      using that bind_None [of m k] by blast
    show ?thesis
      unfolding Cons Decode.simps list.case
      using "2.IH"(1) [OF Cons] "2.IH"(2) [OF Cons] "2.IH"(3) [OF Cons] f
      by (auto simp: bind_None simp del: not_None_eq split: option.split)
  qed simp
next
  case (4 n d len obj)
  have "bind (read_key d len) (\<lambda>d1 l1 r key.
        case key of None \<Rightarrow> ret d1 l1 0 obj
        | Some k \<Rightarrow> if r \<noteq> 0 then ret d1 l1 r obj
            else bind (Decode n d1 l1) (\<lambda>d2 l2 r2 v.
              if r2 \<noteq> 0 then ret d2 l2 r2 obj else DecodeAmfObject n d2 l2 (insert_key k v obj))) \<noteq> None"
    if "0 < len"
  proof
    assume "bind (read_key d len) (\<lambda>d1 l1 r key.
        case key of None \<Rightarrow> ret d1 l1 0 obj
        | Some k \<Rightarrow> if r \<noteq> 0 then ret d1 l1 r obj
            else bind (Decode n d1 l1) (\<lambda>d2 l2 r2 v.
              if r2 \<noteq> 0 then ret d2 l2 r2 obj else DecodeAmfObject n d2 l2 (insert_key k v obj))) = None"
    then obtain d1 l1 k where key: "read_key d len = ret d1 l1 0 (Some k)"
      and rest: "bind (Decode n d1 l1) (\<lambda>d2 l2 r2 v.
              if r2 \<noteq> 0 then ret d2 l2 r2 obj else DecodeAmfObject n d2 l2 (insert_key k v obj)) = None"
      by (auto simp: bind_None split: option.splits if_splits)
    have s: "length d1 < length d" by (rule read_key_shrink [OF key])
    have "Decode n d1 l1 \<noteq> None" using "4.IH"(1) [of 0 d1 l1] that s "4.prems" by auto
    with rest obtain d2 l2 v where d: "Decode n d1 l1 = ret d2 l2 0 v"
      and none: "DecodeAmfObject n d2 l2 (insert_key k v obj) = None"
      by (auto simp: bind_None simp del: not_None_eq split: if_splits)
    from shrink(1) [OF d] s have "length d2 < length d" by simp
    with none "4.IH"(2) that "4.prems" show False by force
  qed
  then show ?case by (simp del: not_None_eq)
next
  case (6 n d len k arr)
  show ?case
  proof (cases "k = 0")
    case False
    have dec: "Decode n d len \<noteq> None" using "6.IH"(1) False "6.prems" by simp
    show ?thesis
    proof
      assume "DecodeAmfArray (Suc n) d len k arr = None"
      with False dec obtain d1 l1 v where d: "Decode n d len = ret d1 l1 0 v"
        and none: "DecodeAmfArray n d1 l1 (k - 1) (arr @ [v]) = None"
        by (auto simp: bind_None simp del: not_None_eq split: if_splits)
      from shrink(1) [OF d] "6.prems" have "2 * length d1 + 2 \<le> n" by simp
      with none "6.IH"(2) False show False by blast
    qed
  qed simp
qed simp_all

text \<open>
  C32. The decoder always comes back: on any octets and any counter, fuel of twice the number of octets plus two
  is enough for a value, an error code or a fault; no input makes it recurse for ever.
\<close>

theorem Decode_total: "\<exists>res. Decode (2 * length d + 2) d len = Some res"
  using decoder_total(1) [of d "2 * length d + 2" len] by auto

section \<open>Round trips\<close>

fun flat :: "amf \<Rightarrow> bool" where
  "flat (AmfNumber _) \<longleftrightarrow> True" | "flat (AmfBool _) \<longleftrightarrow> True" | "flat AmfNull \<longleftrightarrow> True"
| "flat AmfUndefined \<longleftrightarrow> True" | "flat (AmfString s) \<longleftrightarrow> length s \<le> 0xffff"
| "flat (AmfLongString s) \<longleftrightarrow> 0xffff < length s \<and> length s < 2 ^ 32"
| "flat _ \<longleftrightarrow> False"

lemma Read2_length: "n \<le> 0xffff \<Longrightarrow> Read2Bytes (Write2Bytes (word_of_nat n) @ r) = Some (word_of_nat n)"
  by (simp add: wire)

lemma unat16: "n \<le> 0xffff \<Longrightarrow> unat (word_of_nat n :: u16) = n"
  by (simp add: unat_of_nat)

lemma unat32: "n < 2 ^ 32 \<Longrightarrow> unat (word_of_nat n :: u32) = n"
  by (simp add: unat_of_nat)

lemma drop_Write: "drop 2 (Write2Bytes a @ r) = r" "drop 4 (Write4Bytes b @ r) = r" "drop 8 (Write8Bytes c @ r) = r"
  by simp_all

lemma Decode_value:
  assumes "encode_value v = Some bs" "flat v"
  shows "Decode (Suc n) (bs @ r) len = ret r (len - int (length bs)) 0 v"
  using assms
  by (cases v) (auto simp: EncodeNumber_def EncodeBool_def EncodeString_def EncodeOnlyType_def
      decode_scalar_def take_str_def Read2_length Read4_Write4 Read8_Write8 unat16 unat32 drop_Write)

lemma read_key_encoded:
  assumes "0 < length k" "length k \<le> 0xffff" "r \<noteq> []"
  shows "read_key (EncodeString k True @ r) len =
    ret r (len - 2 - int (length k)) (if hd r > 0x0d then -1 else 0) (Some k)"
proof -
  have "(word_of_nat (length k) :: u16) \<noteq> 0" using assms unat16 [of "length k"] by (metis less_irrefl unat_0)
  with assms show ?thesis
    by (simp add: read_key_def EncodeString_def Read2_length drop_Write unat16 Let_def nth_append hd_conv_nth)
qed

lemma encode_value_hd: "encode_value v = Some bs \<Longrightarrow> flat v \<Longrightarrow> bs \<noteq> [] \<and> \<not> hd bs > 0x0d"
  by (cases v) (auto simp: EncodeNumber_def EncodeBool_def EncodeString_def EncodeOnlyType_def)

definition flat_entries :: "(octets \<times> amf) list \<Rightarrow> bool" where
  "flat_entries es \<longleftrightarrow> distinct (map fst es)
     \<and> (\<forall>(k, v)\<in>set es. 0 < length k \<and> length k \<le> 0xffff \<and> flat v)"

lemma flat_encodes: "flat v \<Longrightarrow> \<exists>bs. encode_value v = Some bs"
  by (cases v) auto

lemma object_round_trip:
  assumes "flat_entries es" "fst ` set es \<inter> fst ` set obj = {}"
    and "int (length (fst (encode_entries es))) \<le> len" "length es < n"
  shows "DecodeAmfObject n (fst (encode_entries es) @ r) len obj =
    ret (0x09 # r) (len - int (length (fst (encode_entries es))) + 1) 0 (obj @ es)"
  using assms
proof (induction es arbitrary: n len obj)
  case Nil
  then obtain m where n: "n = Suc m" by (cases n) auto
  have "read_key (EncodeString [] True @ 0x09 # r) len = ret (0x09 # r) (len - 2) 0 None"
    by (simp add: read_key_def EncodeString_def Read2_Write2 drop_Write Let_def)
  moreover have "length (EncodeString [] True) = 2" by (simp add: EncodeString_def)
  ultimately show ?case using Nil n by simp
next
  case (Cons e es)
  obtain k v where e: "e = (k, v)" by force
  have kv: "0 < length k" "length k \<le> 0xffff" "flat v" using Cons.prems(1) by (auto simp: flat_entries_def e)
  obtain m where n: "n = Suc m" "length es < m" using Cons.prems(4) by (cases n) auto
  then obtain m' where m: "m = Suc m'" by (cases m) auto
  obtain bs where bs: "encode_value v = Some bs" using flat_encodes [OF kv(3)] by blast
  let ?rest = "fst (encode_entries es) @ r"
  have enc: "fst (encode_entries (e # es)) = EncodeString k True @ bs @ fst (encode_entries es)"
    by (simp add: e bs)
  have klen: "length (EncodeString k True) = 2 + length k" using kv by (simp add: EncodeString_def)
  have key: "read_key (EncodeString k True @ bs @ ?rest) len =
      ret (bs @ ?rest) (len - 2 - int (length k)) 0 (Some k)"
    using read_key_encoded [OF kv(1,2), of "bs @ ?rest"] encode_value_hd [OF bs kv(3)] by simp
  have new: "map_of obj k = None" using Cons.prems(2) by (auto simp: e map_of_eq_None_iff)
  have "DecodeAmfObject m ?rest (len - 2 - int (length k) - int (length bs)) (obj @ [(k, v)]) =
    ret (0x09 # r) (len - 2 - int (length k) - int (length bs) - int (length (fst (encode_entries es))) + 1)
      0 ((obj @ [(k, v)]) @ es)"
  proof (intro Cons.IH)
    show "int (length (fst (encode_entries es))) \<le> len - 2 - int (length k) - int (length bs)"
      using Cons.prems(3) unfolding enc by (simp add: klen)
  qed (use Cons.prems(1,2) n in \<open>auto simp: flat_entries_def e\<close>)
  moreover have "0 < len" using Cons.prems(3) unfolding enc by (simp add: klen)
  ultimately show ?case
    unfolding enc n(1) append_assoc
    by (simp add: key Decode_value [OF bs kv(3), of m', folded m] insert_key_def new klen e algebra_simps
        del: Decode.simps)
qed

text \<open>
  A flat object (distinct keys of 1 to 65535 octets, scalar values) written by the encoder is read back
  entry by entry, but the decoder stops in front of the end marker: the octet 9 stays in the
  input and is met again as if it were the next value.
\<close>

theorem object_leaves_end_marker:
  assumes "flat_entries es" "int (length (fst (EncodeObject es))) \<le> len" "length es + 1 < n"
  shows "Decode n (fst (EncodeObject es) @ r) len =
    ret (0x09 # r) (len - int (length (fst (EncodeObject es))) + 1) 0 (AmfObject es)"
proof -
  obtain m where n: "n = Suc m" using assms(3) by (cases n) auto
  have "DecodeAmfObject m (fst (encode_entries es) @ r) (len - 1) [] =
      ret (0x09 # r) (len - 1 - int (length (fst (encode_entries es))) + 1) 0 ([] @ es)"
    using assms n by (intro object_round_trip) (auto simp: EncodeObject_def)
  then show ?thesis by (simp add: n EncodeObject_def)
qed

theorem object_leaves_end_marker_witness:
  "Decode 20 (fst (EncodeObject [([0x61], AmfNumber 7), ([0x62], AmfBool True)])) 50 =
   ret [0x09] (50 - int (length (fst (EncodeObject [([0x61], AmfNumber 7), ([0x62], AmfBool True)]))) + 1) 0
     (AmfObject [([0x61], AmfNumber 7), ([0x62], AmfBool True)])"
  using object_leaves_end_marker [of "[([0x61], AmfNumber 7), ([0x62], AmfBool True)]" 50 20 "[]"]
  by (simp add: flat_entries_def EncodeObject_def EncodeString_def EncodeNumber_def EncodeBool_def del: Decode.simps)

text \<open>
  Because of it an object inside an object is not readable: the end marker of the inner object is
  taken as the high octet of the length of the next key, so the decoder asks for a key of at least 2304
  octets. Unless that many octets happen to follow, it reads past the message.
\<close>

theorem nested_object_over_read:
  assumes "0 < length k" "length k \<le> 0xffff" "flat_entries es" "r \<noteq> []" "length r \<le> 2305"
    and "length es + 4 < n"
    and "int (length (EncodeString k True @ fst (EncodeObject es) @ r)) \<le> len"
  shows "DecodeAmfObject n (EncodeString k True @ fst (EncodeObject es) @ r) len obj = fail OverRead"
proof -
  let ?X = "fst (EncodeObject es)"
  have "\<exists>m. n = Suc (Suc m)" using assms(6) by presburger
  then obtain m where n: "n = Suc (Suc m)" by blast
  have X: "?X \<noteq> []" "hd (?X @ r) = 0x03" by (simp_all add: EncodeObject_def)
  have klen: "length (EncodeString k True) = 2 + length k" using assms(2) by (simp add: EncodeString_def)
  define l1 where "l1 = len - 2 - int (length k)"
  define l2 where "l2 = l1 - int (length ?X) + 1"
  have l: "int (length ?X) \<le> l1" "0 < l2" "0 < len" using assms(7) klen by (auto simp: l1_def l2_def)
  have key: "read_key (EncodeString k True @ ?X @ r) len = ret (?X @ r) l1 0 (Some k)"
    using read_key_encoded [OF assms(1,2), of "?X @ r" len] X by (simp add: l1_def)
  have dec: "Decode (Suc m) (?X @ r) l1 = ret (0x09 # r) l2 0 (AmfObject es)"
    unfolding l2_def using assms(6) n by (intro object_leaves_end_marker assms(3) l(1)) simp
  obtain b r' where r: "r = b # r'" using assms(4) by (cases r) auto
  have kl: "Read2Bytes (0x09 # r) = Some (word_of_nat (2304 + unat b))"
    by (simp add: r Read2Bytes_def read_be_def)
  have "2304 + unat b \<le> 0xffff" using unat_byte_less [of b] by linarith
  then have u: "unat (word_of_nat (2304 + unat b) :: u16) = 2304 + unat b" by (rule unat16)
  then have nz: "(word_of_nat (2304 + unat b) :: u16) \<noteq> 0" by (metis add_is_0 unat_0 zero_neq_numeral)
  have "length r' \<le> unat (word_of_nat (2304 + unat b) :: u16)" using assms(5) unfolding u by (simp add: r)
  then have "read_key (0x09 # r) l2 = fail OverRead"
    unfolding read_key_def kl option.case Let_def using nz by (simp add: r)
  then have "DecodeAmfObject (Suc m) (0x09 # r) l2 (insert_key k (AmfObject es) obj) = fail OverRead"
    using l(2) by (simp add: fail_def)
  with dec key l(3) show ?thesis unfolding n by (simp add: fail_def del: Decode.simps)
qed

theorem nested_object_over_read_witness:
  "DecodeAmfObject 9 (EncodeString [0x61] True @ fst (EncodeObject []) @ [0x00, 0x00, 0x09]) 20 [] = fail OverRead"
  by (rule nested_object_over_read)
    (simp_all add: flat_entries_def EncodeObject_def EncodeString_def)

section \<open>The command loop\<close>

lemma decode_command_step:
  "0 < len \<Longrightarrow> Decode (2 * length d + 2) d len = ret d1 l1 r v \<Longrightarrow>
    decode_command (Suc n) d len acc = decode_command n d1 l1 (acc @ [v])"
  by (simp add: ret_def del: Decode.simps)

lemma decode_command_stuck:
  "0x0d < b \<Longrightarrow> 0 < len \<Longrightarrow> decode_command n (b # d) len acc = None"
  by (induction n arbitrary: acc) (auto simp: ret_def)

fun encode_all :: "amf list \<Rightarrow> octets" where
  "encode_all [] = []"
| "encode_all (v # vs) = (case encode_value v of None \<Rightarrow> [] | Some bs \<Rightarrow> bs) @ encode_all vs"

lemma Decode_progress:
  assumes "Decode n data len = ret d' l' r v"
  shows "length d' < length data \<or> (\<exists>b d. data = b # d \<and> b > 0x0d)"
proof (cases n)
  case (Suc k)
  show ?thesis
  proof (cases data)
    case (Cons b d)
    have "length d' \<le> length d" if "\<not> b > 0x0d"
      using assms that shrink(2) [of k] shrink(3) [of k] decode_scalar_shrink unfolding Suc Cons
      by (fastforce simp: bind_Inr split: if_splits option.splits)
    then show ?thesis by (auto simp: Cons)
  qed (use assms Suc in simp)
qed (use assms in simp)

text \<open>
  A command is gathered in at most one round per octet, or never: running out of \<open>length d + 1\<close> rounds
  means that the loop does not end.
\<close>

lemma decode_command_fuel:
  assumes "length d < n" "decode_command n d len acc = None"
  shows "decode_command k d len acc = None"
  using assms
proof (induction k arbitrary: n d len acc)
  case (Suc k)
  obtain m where n: "n = Suc m" using Suc.prems(1) by (cases n) auto
  have len: "0 < len" using Suc.prems(2) by (auto simp: n split: if_splits)
  obtain x where x: "Decode (2 * length d + 2) d len = Some x"
    using decoder_total(1) [of d "2 * length d + 2" len] by (auto simp del: Decode.simps)
  show ?case
  proof (cases x)
    case Inl
    with Suc.prems(2) len x show ?thesis by (simp add: n del: Decode.simps)
  next
    case (Inr y)
    obtain d1 l1 r v where y: "y = (d1, l1, r, v)" by (cases y) auto
    have s: "decode_command (Suc i) d len acc = decode_command i d1 l1 (acc @ [v])" for i
      using len x by (simp add: Inr y del: Decode.simps)
    have dec: "Decode (2 * length d + 2) d len = ret d1 l1 r v" using x by (simp add: Inr y ret_def)
    show ?thesis
    proof (cases "length d1 < length d")
      case True
      then show ?thesis using Suc.IH [of d1 m l1 "acc @ [v]"] Suc.prems n s by simp
    next
      case False
      then obtain b d' where d: "d = b # d'" "b > 0x0d" using Decode_progress [OF dec] by blast
      show ?thesis unfolding d(1) using d(2) len by (rule decode_command_stuck)
    qed
  qed
qed simp

text \<open>
  Whether the loop comes, with octets left, to a value whose type octet is above 13: such an octet is not consumed, every
  other value, and every refused one, is shorter by at least its type octet.
\<close>

definition next_value :: "octets \<Rightarrow> int \<Rightarrow> amf amf_result" where
  "next_value d len = Decode (2 * length d + 2) d len"

lemma next_value_total: "\<exists>res. next_value d len = Some res"
  using decoder_total(1) [of d "2 * length d + 2" len] by (auto simp: next_value_def)

lemma command_round:
  "decode_command (Suc n) d len acc = (if \<not> 0 < len then Some (Inr acc)
     else case next_value d len of None \<Rightarrow> None | Some (Inl e) \<Rightarrow> Some (Inl e)
       | Some (Inr (d1, l1, r, v)) \<Rightarrow> decode_command n d1 l1 (acc @ [v]))"
  unfolding decode_command.simps(2) next_value_def by (rule refl)

lemma next_value_Nil: "next_value [] len = fail OverRead"
  by (simp add: next_value_def)

lemma next_value_shorter:
  assumes "next_value (b # d) len = Some (Inr (d1, l1, r, v))" "\<not> 0x0d < b"
  shows "length d1 < length (b # d)"
proof -
  define n where "n = 2 * length d + 3"
  have "2 * length (b # d) + 2 = Suc n" by (simp add: n_def)
  then have p: "Decode (Suc n) (b # d) len = ret d1 l1 r v" using assms(1) by (simp only: next_value_def ret_def)
  consider "b = 3" | "b = 8" | "b = 10" | "b \<noteq> 3" "b \<noteq> 8" "b \<noteq> 10" by blast
  then have "length d1 \<le> length d"
  proof cases
    case 1
    with p assms(2) obtain obj where "DecodeAmfObject n d (len - 1) [] = ret d1 l1 r obj" by (auto simp: bind_Inr)
    from shrink(2) [OF this] show ?thesis .
  next
    case 2
    with p assms(2) obtain obj where "DecodeAmfObject n (drop 4 d) (len - 5) [] = ret d1 l1 r obj"
      by (auto simp: bind_Inr split: option.splits)
    from shrink(2) [OF this] show ?thesis by simp
  next
    case 3
    with p assms(2) obtain k r1 arr where "DecodeAmfArray n (drop 4 d) (len - 5) k [] = ret d1 l1 r1 arr"
      by (auto simp: bind_Inr split: option.splits)
    from shrink(3) [OF this] show ?thesis by simp
  next
    case 4
    with p assms(2) have "decode_scalar b d (len - 1) = ret d1 l1 r v" by simp
    from decode_scalar_shrink [OF this] show ?thesis .
  qed
  then show ?thesis by simp
qed

function meets_bad_type :: "octets \<Rightarrow> int \<Rightarrow> bool" where
  "meets_bad_type [] len \<longleftrightarrow> False"
| "meets_bad_type (b # d) len \<longleftrightarrow> 0 < len \<and> (if 0x0d < b then True
     else case next_value (b # d) len of Some (Inr (d1, l1, r, v)) \<Rightarrow> meets_bad_type d1 l1 | _ \<Rightarrow> False)"
  by pat_completeness auto
termination by (relation "measure (\<lambda>(d, len). length d)") (auto dest: next_value_shorter)

declare meets_bad_type.simps [simp del]

lemma command_ends_iff:
  "length d < rounds \<Longrightarrow> (decode_command rounds d len acc = None) = meets_bad_type d len"
proof (induction d len arbitrary: rounds acc rule: meets_bad_type.induct)
  case (1 len)
  then show ?case by (cases rounds) (simp_all add: command_round next_value_Nil fail_def meets_bad_type.simps(1) del: decode_command.simps(2))
next
  case (2 b d len)
  obtain n where n: "rounds = Suc n" using 2(2) by (cases rounds) auto
  obtain res where res: "next_value (b # d) len = Some res" using next_value_total by blast
  show ?case
  proof (cases "0 < len \<and> \<not> 0x0d < b")
    case True
    show ?thesis
    proof (cases res)
      case (Inr x)
      obtain d1 l1 r v where x: "x = (d1, l1, r, v)" by (cases x) auto
      have nv: "next_value (b # d) len = Some (Inr (d1, l1, r, v))" using res Inr x by simp
      have "length d1 < n" using next_value_shorter [OF nv] True 2(2) n by simp
      then have "(decode_command n d1 l1 (acc @ [v]) = None) = meets_bad_type d1 l1" using 2(1) nv True by blast
      then show ?thesis using True nv by (simp add: n command_round meets_bad_type.simps(2) del: decode_command.simps(2))
    qed (use True res in \<open>simp add: n command_round meets_bad_type.simps(2) del: decode_command.simps(2)\<close>)
  next
    case False
    show ?thesis
    proof (cases "0 < len")
      case True
      then have "0x0d < b" using False by blast
      from decode_command_stuck [OF this True] show ?thesis using True \<open>0x0d < b\<close> by (simp add: meets_bad_type.simps(2))
    qed (simp add: n meets_bad_type.simps(2))
  qed
qed

text \<open>More rounds never turn a result into none.\<close>

lemma command_more: "decode_command n d len acc = Some res \<Longrightarrow> n \<le> m \<Longrightarrow> decode_command m d len acc = Some res"
proof (induction n arbitrary: m d len acc)
  case (Suc n)
  obtain k where k: "m = Suc k" "n \<le> k" using Suc(3) by (cases m) auto
  show ?case using Suc(2) Suc(1) [OF _ k(2)]
    by (auto simp: k(1) command_round simp del: decode_command.simps(2) split: if_splits option.splits sum.splits prod.splits)
qed simp

text \<open>
  C25. The loop over the values of a command comes to an end exactly when, as long as octets are left, no value it comes to
  starts with a type octet above 13, and then within one round per octet and one more. Otherwise it never ends,
  in however many rounds: \<open>Decode\<close> refuses such an octet without consuming it and the refusal is ignored.
\<close>

theorem command_returns_iff:
  "((\<exists>rounds res. decode_command rounds d len acc = Some res) \<longleftrightarrow> \<not> meets_bad_type d len)
   \<and> ((\<exists>res. decode_command (Suc (length d)) d len acc = Some res) \<longleftrightarrow> \<not> meets_bad_type d len)"
proof -
  have one: "(\<exists>res. decode_command m d len acc = Some res) \<longleftrightarrow> \<not> meets_bad_type d len" if "length d < m" for m
    using command_ends_iff [OF that, of len acc] by (simp flip: not_None_eq)
  have "\<exists>res. decode_command (max n (Suc (length d))) d len acc = Some res" if "decode_command n d len acc = Some res" for n res
    using command_more [OF that] by auto
  then show ?thesis using one [of "Suc (length d)"] one [of "max n (Suc (length d))" for n] by (meson lessI max.strict_coboundedI2)
qed

text \<open>
  An octet above 13 where a value should start hangs the server: \<open>Decode\<close> refuses it without
  consuming anything, the loop of \<open>HandleClientCommandMessage\<close> ignores the refusal, so for no number of
  rounds does it come to an end, whatever values it read before (here a flat object and any
  scalar values); every round appends another item.
\<close>

theorem bad_type_octet_hangs:
  assumes "\<forall>v\<in>set vs. flat v" "0x0d < b"
    and "len = int (length (encode_all vs @ b # d))"
  shows "decode_command rounds (encode_all vs @ b # d) len acc = None"
  using assms
proof (induction vs arbitrary: rounds len acc)
  case Nil
  then show ?case by (simp add: decode_command_stuck)
next
  case (Cons v vs)
  obtain bs where bs: "encode_value v = Some bs" using flat_encodes Cons.prems(1) by (meson list.set_intros(1))
  have v: "flat v" using Cons.prems(1) by simp
  show ?case
  proof (cases rounds)
    case (Suc n)
    let ?d = "bs @ encode_all vs @ b # d"
    have "Decode (2 * length ?d + 2) ?d len = ret (encode_all vs @ b # d) (len - int (length bs)) 0 v"
      using Decode_value [OF bs v, of "Suc (2 * length ?d)"] by (simp del: Decode.simps)
    from decode_command_step [OF _ this] have
      "decode_command (Suc n) ?d len acc = decode_command n (encode_all vs @ b # d) (len - int (length bs)) (acc @ [v])"
      using Cons.prems(3) by simp
    moreover have "decode_command n (encode_all vs @ b # d) (len - int (length bs)) (acc @ [v]) = None"
      using Cons.prems by (intro Cons.IH) (simp_all add: bs)
    ultimately show ?thesis by (simp only: Suc encode_all.simps bs option.case append_assoc)
  qed simp
qed

theorem bad_type_octet_hangs_witness:
  "decode_command 1000 (encode_all [AmfNumber 1] @ [0xff]) 10 [] = None"
  by (rule bad_type_octet_hangs) (simp_all add: EncodeNumber_def)

end
