(* ===== verification/Rtmp_Chunk.thy ===== *)
theory Rtmp_Chunk
  imports Data_Buffer Byte_Stream "HOL-Library.AList"
begin

text \<open>
  The RTMP chunk layer: \<open>net/rtmp/chunk_stream.cpp\<close> (one chunk stream: reading message headers of
  the four formats and payloads, writing chunks) and the reader of \<open>rtmp_session_base.cpp\<close>, which finds
  the chunk stream a chunk belongs to. \<open>DataBuffer\<close>s are the octets they hold; a return value of
  1 is \<open>RTMP_NEED_READ_MORE\<close>. Every read is behind a \<open>Require\<close>, so \<open>u24\<close> and \<open>u32_at\<close> never see
  too few octets.
\<close>

datatype chunk_phase = CHUNK_STREAM_PHASE_HEADER | CHUNK_STREAM_PHASE_PAYLOAD

record chunk_stream =
  timestamp_delta :: u32
  timestamp32 :: u32
  msg_len :: u32
  type_id :: byte
  msg_stream_id :: u32
  remain :: int
  require_len :: int
  cs_chunk_size :: u32
  chunk_all :: octets
  chunk_data :: octets
  ext_ts_flag :: bool
  cs_fmt :: byte
  cs_csid :: u16
  cs_phase :: chunk_phase
  chunk_ready :: bool
  msg_count :: int

definition new_CoChunkStream :: "byte \<Rightarrow> u16 \<Rightarrow> u32 \<Rightarrow> chunk_stream" where
  "new_CoChunkStream fmt csid chunk_size =
     \<lparr>timestamp_delta = 0, timestamp32 = 0, msg_len = 0, type_id = 0, msg_stream_id = 0, remain = 0,
      require_len = 0, cs_chunk_size = chunk_size, chunk_all = [], chunk_data = [], ext_ts_flag = False,
      cs_fmt = fmt, cs_csid = csid, cs_phase = CHUNK_STREAM_PHASE_HEADER, chunk_ready = False, msg_count = 0\<rparr>"

definition RTMP_OK :: int where "RTMP_OK = 0"
definition RTMP_NEED_READ_MORE :: int where "RTMP_NEED_READ_MORE = 1"

definition u24 :: "octets \<Rightarrow> u32" where "u24 p = (case Read3Bytes p of None \<Rightarrow> 0 | Some v \<Rightarrow> v)"
definition u32_at :: "octets \<Rightarrow> u32" where "u32_at p = (case Read4Bytes p of None \<Rightarrow> 0 | Some v \<Rightarrow> v)"

section \<open>Message headers\<close>

type_synonym chunk_result = "chunk_stream \<times> octets \<times> int"

definition ReadMsgFormat0 :: "byte \<Rightarrow> u16 \<Rightarrow> chunk_stream \<Rightarrow> octets \<Rightarrow> chunk_result" where
  "ReadMsgFormat0 input_fmt input_csid cs0 buf =
     (if length buf < 11 then (cs0, buf, RTMP_NEED_READ_MORE)
      else let ts = u24 buf;
               cs1 = cs0\<lparr>cs_fmt := input_fmt, cs_csid := input_csid\<rparr>;
               cs = (if ts \<ge> 0xffffff then cs1\<lparr>ext_ts_flag := True\<rparr> else cs1) in
        if ts \<ge> 0xffffff \<and> length buf < 15 then (cs, buf, RTMP_NEED_READ_MORE)
        else let len = u24 (drop 3 buf); ty = buf ! 6; sid = u32_at (drop 7 buf); buf1 = drop 11 buf;
                 ts1 = (if ts \<ge> 0xffffff then u32_at buf1 else ts);
                 buf2 = (if ts \<ge> 0xffffff then drop 4 buf1 else buf1) in
          (cs\<lparr>timestamp32 := ts1, timestamp_delta := 0, msg_len := len, type_id := ty,
              msg_stream_id := sid, remain := uint len\<rparr>, buf2, RTMP_OK))"

definition ReadMsgFormat1 :: "byte \<Rightarrow> u16 \<Rightarrow> chunk_stream \<Rightarrow> octets \<Rightarrow> chunk_result" where
  "ReadMsgFormat1 input_fmt input_csid cs0 buf =
     (if length buf < 7 then (cs0, buf, RTMP_NEED_READ_MORE)
      else let ts = u24 buf;
               cs1 = cs0\<lparr>cs_fmt := input_fmt, cs_csid := input_csid\<rparr>;
               cs = (if ts \<ge> 0xffffff then cs1\<lparr>ext_ts_flag := True\<rparr> else cs1) in
        if ts \<ge> 0xffffff \<and> length buf < 11 then (cs, buf, RTMP_NEED_READ_MORE)
        else let len = u24 (drop 3 buf); ty = buf ! 6; buf1 = drop 7 buf;
                 ts1 = (if ts \<ge> 0xffffff then u32_at buf1 else ts);
                 buf2 = (if ts \<ge> 0xffffff then drop 4 buf1 else buf1) in
          (cs\<lparr>timestamp_delta := ts1, timestamp32 := timestamp32 cs + ts1, msg_len := len, type_id := ty,
              remain := uint len\<rparr>, buf2, RTMP_OK))"

definition ReadMsgFormat2 :: "byte \<Rightarrow> u16 \<Rightarrow> chunk_stream \<Rightarrow> octets \<Rightarrow> chunk_result" where
  "ReadMsgFormat2 input_fmt input_csid cs0 buf =
     (if length buf < 3 then (cs0, buf, RTMP_NEED_READ_MORE)
      else let ts = u24 buf;
               cs1 = cs0\<lparr>cs_fmt := input_fmt, cs_csid := input_csid\<rparr>;
               cs = (if ts \<ge> 0xffffff then cs1\<lparr>ext_ts_flag := True\<rparr> else cs1) in
        if ts \<ge> 0xffffff \<and> length buf < 7 then (cs, buf, RTMP_NEED_READ_MORE)
        else let buf1 = drop 3 buf;
                 ts1 = (if ts \<ge> 0xffffff then u32_at buf1 else ts);
                 buf2 = (if ts \<ge> 0xffffff then drop 4 buf1 else buf1) in
          (cs\<lparr>timestamp_delta := ts1, timestamp32 := timestamp32 cs + ts1, remain := uint (msg_len cs)\<rparr>,
           buf2, RTMP_OK))"

definition ReadMsgFormat3 :: "byte \<Rightarrow> u16 \<Rightarrow> chunk_stream \<Rightarrow> octets \<Rightarrow> chunk_result" where
  "ReadMsgFormat3 input_fmt input_csid cs buf =
     (let need = ext_ts_flag cs \<and> (remain cs \<noteq> 0 \<or> cs_fmt cs = 0 \<or> cs_fmt cs = 1 \<or> cs_fmt cs = 2) in
      if need \<and> length buf < 4 then (cs, buf, RTMP_NEED_READ_MORE)
      else let done = (\<lambda>c b. (c\<lparr>cs_fmt := input_fmt, cs_csid := input_csid\<rparr>, b, RTMP_OK)) in
        if remain cs = 0 then
          let (cs1, buf1) =
            (if cs_fmt cs = 0 then
               (if ext_ts_flag cs then (cs\<lparr>timestamp32 := u32_at buf\<rparr>, drop 4 buf) else (cs, buf))
             else if cs_fmt cs = 1 \<or> cs_fmt cs = 2 then
               (if ext_ts_flag cs then (cs\<lparr>timestamp32 := timestamp32 cs + u32_at buf\<rparr>, drop 4 buf)
                else (cs\<lparr>timestamp32 := timestamp32 cs + timestamp_delta cs\<rparr>, buf))
             else (cs, buf))
          in done (cs1\<lparr>chunk_all := [], chunk_data := [], remain := uint (msg_len cs1), chunk_ready := False\<rparr>) buf1
        else done cs (if ext_ts_flag cs \<and> u32_at buf = timestamp32 cs then drop 4 buf else buf))"

definition ReadMessageHeader :: "byte \<Rightarrow> u16 \<Rightarrow> chunk_stream \<Rightarrow> octets \<Rightarrow> fault + chunk_result" where
  "ReadMessageHeader input_fmt input_csid cs buf =
     (if cs_phase cs \<noteq> CHUNK_STREAM_PHASE_HEADER then Inr (cs, buf, RTMP_OK)
      else if input_fmt > 3 then Inl AssertFailed
      else case (if input_fmt = 0 then ReadMsgFormat0 input_fmt input_csid cs buf
                 else if input_fmt = 1 then ReadMsgFormat1 input_fmt input_csid cs buf
                 else if input_fmt = 2 then ReadMsgFormat2 input_fmt input_csid cs buf
                 else ReadMsgFormat3 input_fmt input_csid cs buf) of (cs1, buf1, r) \<Rightarrow>
        if r \<noteq> RTMP_OK then Inr (cs1, buf1, r)
        else Inr (cs1\<lparr>msg_count := 0, cs_phase := CHUNK_STREAM_PHASE_PAYLOAD\<rparr>, buf1, RTMP_OK))"

definition ReadMessagePayload :: "chunk_stream \<Rightarrow> octets \<Rightarrow> chunk_result" where
  "ReadMessagePayload cs0 buf =
     (if cs_phase cs0 \<noteq> CHUNK_STREAM_PHASE_PAYLOAD then (cs0, buf, RTMP_OK)
      else let n = (if remain cs0 > uint (cs_chunk_size cs0) then uint (cs_chunk_size cs0) else remain cs0);
               cs = cs0\<lparr>require_len := n\<rparr> in
        if int (length buf) < n then (cs, buf, RTMP_NEED_READ_MORE)
        else let cs1 = cs\<lparr>chunk_data := chunk_data cs @ take (nat n) buf, remain := remain cs - n,
                          msg_count := msg_count cs + 1\<rparr>;
                 cs2 = (if remain cs1 \<le> 0 then cs1\<lparr>chunk_ready := True\<rparr> else cs1) in
          (cs2\<lparr>cs_phase := CHUNK_STREAM_PHASE_HEADER\<rparr>, drop (nat n) buf, RTMP_OK))"

definition chunk_Reset :: "chunk_stream \<Rightarrow> chunk_stream" where
  "chunk_Reset cs = cs\<lparr>cs_phase := CHUNK_STREAM_PHASE_HEADER, chunk_ready := False, chunk_all := [], chunk_data := []\<rparr>"

section \<open>Writing chunks\<close>

definition GenData :: "octets \<Rightarrow> chunk_stream \<Rightarrow> chunk_stream \<times> int" where
  "GenData data cs =
     (let basic = (if cs_csid cs < 64 then [push_bit 6 (cs_fmt cs) OR ucast (cs_csid cs AND 0x3f)]
                   else if uint (cs_csid cs) - 64 < 256
                   then [push_bit 6 (cs_fmt cs) AND 0xc0, ucast (cs_csid cs)]
                   else (push_bit 6 (cs_fmt cs) AND 0xc0 OR 0x01) # Write2Bytes (cs_csid cs));
          header = (if cs_fmt cs = 0 then Write3Bytes (timestamp32 cs) @ Write3Bytes (msg_len cs) @ [type_id cs]
                      @ Write4Bytes (msg_stream_id cs)
                    else if cs_fmt cs = 1 then Write3Bytes (timestamp32 cs) @ Write3Bytes (msg_len cs) @ [type_id cs]
                    else if cs_fmt cs = 2 then Write3Bytes (timestamp32 cs) else [])
      in (cs\<lparr>chunk_all := chunk_all cs @ basic @ header @ data\<rparr>, RTMP_OK))"

definition GenControlMessage :: "byte \<Rightarrow> u32 \<Rightarrow> u32 \<Rightarrow> chunk_stream \<Rightarrow> chunk_stream \<times> int" where
  "GenControlMessage ctrl_type sz v cs0 =
     (let cs = cs0\<lparr>cs_fmt := 0, type_id := ctrl_type, msg_stream_id := 0, msg_len := sz\<rparr>;
          data = (if sz = 1 then Some [ucast v]
                  else if sz = 2 then Some (Write2Bytes (ucast v))
                  else if sz = 3 then Some (Write3Bytes v)
                  else if sz = 4 then Some (Write4Bytes v)
                  else if sz = 5 then Some (Write4Bytes v @ [2]) else None)
      in case data of None \<Rightarrow> (cs, -1) | Some d \<Rightarrow> (fst (GenData d cs), RTMP_OK))"

definition user_control :: "byte \<Rightarrow> chunk_stream \<Rightarrow> chunk_stream" where
  "user_control event cs = fst (GenData [0, event, 0, 0, 0, 1]
     (cs\<lparr>cs_fmt := 0, cs_csid := 2, type_id := 4, msg_stream_id := 1, msg_len := 6\<rparr>))"

definition GenSetRecordedMessage :: "chunk_stream \<Rightarrow> chunk_stream" where
  "GenSetRecordedMessage cs = user_control 4 cs"

definition GenSetBeginMessage :: "chunk_stream \<Rightarrow> chunk_stream" where
  "GenSetBeginMessage cs = user_control 0 cs"

text \<open>
  \<open>WriteDataByChunkStream\<close>: the chunks of one message, in order. The number of chunks is computed in \<open>int\<close>
  (a chunk size of 2\<open>^\<close>31 or more counts as negative), and a chunk size of zero divides by zero.
\<close>

definition chunk_count :: "nat \<Rightarrow> u32 \<Rightarrow> int" where
  "chunk_count len chunk_size =
     (let q = (if 0 < sint chunk_size then int len div sint chunk_size else - (int len div - sint chunk_size))
      in if len mod unat chunk_size > 0 then q + 1 else q)"

definition chunk_slice :: "octets \<Rightarrow> nat \<Rightarrow> int \<Rightarrow> nat \<Rightarrow> octets" where
  "chunk_slice data c cnt i =
     (let len = (if int i = cnt - 1 then (if length data mod c > 0 then length data mod c else c) else c)
      in take len (drop (i * c) data))"

definition message_chunks :: "u16 \<Rightarrow> u32 \<Rightarrow> byte \<Rightarrow> u32 \<Rightarrow> u32 \<Rightarrow> octets \<Rightarrow> fault + octets list" where
  "message_chunks csid timestamp type msid chunk_size data =
     (if chunk_size = 0 then Inl DivByZero
      else let cnt = chunk_count (length data) chunk_size in
        Inr (map (\<lambda>i. chunk_all (fst (GenData (chunk_slice data (unat chunk_size) cnt i)
               ((new_CoChunkStream (if i = 0 then 0 else 3) csid chunk_size)
                  \<lparr>timestamp32 := timestamp, msg_len := word_of_nat (length data), type_id := type,
                   msg_stream_id := msid\<rparr>))))
             [0..<nat cnt]))"

section \<open>The reader of a session\<close>

record rtmp_reader =
  recv :: octets
  fmt_ready :: bool
  rd_fmt :: byte
  rd_csid :: u16
  cs_map :: "(byte \<times> chunk_stream) list"
  chunk_size :: u32

definition ReadFmtCsid :: "'a rtmp_reader_scheme \<Rightarrow> 'a rtmp_reader_scheme \<times> int" where
  "ReadFmtCsid s =
     (case recv s of [] \<Rightarrow> (s, RTMP_NEED_READ_MORE)
      | b # buf \<Rightarrow>
        let s1 = s\<lparr>rd_fmt := drop_bit 6 b AND 0x3, rd_csid := ucast (b AND 0x3f), recv := buf\<rparr> in
        if rd_csid s1 = 0 then
          (case buf of [] \<Rightarrow> (s1, RTMP_NEED_READ_MORE)
           | x # buf1 \<Rightarrow> (s1\<lparr>recv := buf1, rd_csid := 64 + ucast x\<rparr>, RTMP_OK))
        else if rd_csid s1 = 1 then
          (case buf of x # y # buf1 \<Rightarrow> (s1\<lparr>recv := buf1, rd_csid := 64 + ucast x + ucast y\<rparr>, RTMP_OK)
           | _ \<Rightarrow> (s1, RTMP_NEED_READ_MORE))
        else (s1, RTMP_OK))"

text \<open>
  \<open>ReadChunkStream\<close> returns the key of the chunk stream it worked on (the code's \<open>cs_ptr\<close>), under which
  \<open>cs_map\<close> keeps the stream itself.
\<close>

definition ReadChunkStream ::
  "'a rtmp_reader_scheme \<Rightarrow> fault + 'a rtmp_reader_scheme \<times> byte option \<times> int" where
  "ReadChunkStream s0 =
     (case (if fmt_ready s0 then (s0, 0) else ReadFmtCsid s0) of (s, r0) \<Rightarrow>
      if r0 \<noteq> 0 then Inr (s, None, r0)
      else let s1 = s\<lparr>fmt_ready := True\<rparr>; key = ucast (rd_csid s1);
               cs = (case map_of (cs_map s1) key of
                       None \<Rightarrow> new_CoChunkStream (rd_fmt s1) (rd_csid s1) (chunk_size s1)
                     | Some c \<Rightarrow> c\<lparr>cs_chunk_size := chunk_size s1\<rparr>);
               put = (\<lambda>c buf. s1\<lparr>cs_map := AList.update key c (cs_map s1), recv := buf\<rparr>) in
        case ReadMessageHeader (rd_fmt s1) (rd_csid s1) cs (recv s1) of
          Inl e \<Rightarrow> Inl e
        | Inr (c1, buf1, r1) \<Rightarrow>
            if r1 < RTMP_OK \<or> r1 = RTMP_NEED_READ_MORE then Inr (put c1 buf1, Some key, r1)
            else case ReadMessagePayload c1 buf1 of (c2, buf2, r2) \<Rightarrow>
              if r2 = RTMP_OK then Inr ((put c2 buf2)\<lparr>fmt_ready := False\<rparr>, Some key, r2)
              else Inr (put c2 buf2, Some key, r2))"

text \<open>
  The part of \<open>ReceiveChunkStream\<close> that gathers one message: chunks are read until a chunk stream is ready (\<open>Some\<close>)
  or the octets run out (\<open>None\<close>). A chunk consumes at least its first octet, so the fuel is the
  number of octets plus one.
\<close>

fun read_message :: "nat \<Rightarrow> 'a rtmp_reader_scheme \<Rightarrow> fault + 'a rtmp_reader_scheme \<times> (byte \<times> chunk_stream) option" where
  "read_message 0 s = Inr (s, None)"
| "read_message (Suc n) s =
     (case ReadChunkStream s of
        Inl e \<Rightarrow> Inl e
      | Inr (s1, key, r) \<Rightarrow>
          if r < RTMP_OK \<or> r = RTMP_NEED_READ_MORE then Inr (s1, None)
          else case key of None \<Rightarrow> Inr (s1, None)
          | Some k \<Rightarrow>
              case map_of (cs_map s1) k of None \<Rightarrow> Inr (s1, None)
              | Some c \<Rightarrow> if chunk_ready c then Inr (s1, Some (k, c))
                          else if recv s1 = [] then Inr (s1, None) else read_message n s1)"

section \<open>What the writer produces\<close>

fun slices :: "nat \<Rightarrow> octets \<Rightarrow> octets list" where
  "slices c data = (if c = 0 \<or> data = [] then [] else take c data # slices c (drop c data))"

declare slices.simps [simp del]

lemma slices_eq: "0 < c \<Longrightarrow> map (\<lambda>i. take c (drop (i * c) data)) [0..<(length data + c - 1) div c] = slices c data"
proof (induction c data rule: slices.induct)
  case (1 c data)
  show ?case
  proof (cases "data = []")
    case True
    with 1 show ?thesis by (simp add: slices.simps)
  next
    case False
    let ?k = "(length (drop c data) + c - 1) div c"
    have "(length data + c - 1) div c = Suc ?k"
    proof (cases "length data \<le> c")
      case True
      with False 1(2) have "(length data + c - 1) div c = 1"
        by (intro div_nat_eqI) (auto simp flip: length_greater_0_conv)
      moreover have "?k = 0" using True 1(2) by simp
      ultimately show ?thesis by simp
    next
      case False
      then have "length data + c - 1 = (length data - 1) + c" "length (drop c data) + c - 1 = length data - 1"
        using 1(2) by auto
      then show ?thesis using 1(2) by (simp only: div_add_self2)
    qed
    then have "map (\<lambda>i. take c (drop (i * c) data)) [0..<(length data + c - 1) div c]
        = take c data # map (\<lambda>i. take c (drop (i * c) (drop c data))) [0..<?k]"
      by (simp add: upt_conv_Cons map_Suc_upt [symmetric] del: upt_Suc) (simp add: add.commute)
    also have "\<dots> = slices c data"
      using 1 False by (simp add: slices.simps [of c data])
    finally show ?thesis .
  qed
qed

lemma sint_pos: "0 < sint w \<Longrightarrow> sint w = int (unat w)" for w :: u32
proof -
  assume "0 < sint w"
  moreover have "sint w < 2 ^ 31" using sint_lt [of w] by simp
  ultimately have "take_bit 32 (sint w) = sint w" by (intro take_bit_int_eq_self) simp_all
  then have "uint w = sint w" using uint_sint [of w] by simp
  then show ?thesis by simp
qed

lemma div_round_up: "0 < c \<Longrightarrow> (n + c - 1) div c = (if 0 < n mod c then n div c + 1 else n div c)" for n c :: nat
proof -
  assume c: "0 < c"
  define k m where "k = n div c" and "m = n mod c"
  have n: "n = k * c + m" and m: "m < c" using c by (simp_all add: k_def m_def)
  have "(n + c - 1) div c = (if 0 < m then k + 1 else k)"
  proof (cases "0 < m")
    case True
    have "(k + 1) * c = k * c + c" by simp
    then have "n + c - 1 = (k + 1) * c + (m - 1)" using n True by linarith
    moreover have "((k + 1) * c + (m - 1)) div c = k + 1" using m by (intro div_nat_eqI) auto
    ultimately show ?thesis using True by simp
  next
    case False
    then have "n + c - 1 = k * c + (c - 1)" using n c by linarith
    moreover have "(k * c + (c - 1)) div c = k" using c by (intro div_nat_eqI) (auto simp: mult.commute [of c k])
    ultimately show ?thesis using False by simp
  qed
  then show ?thesis by (simp add: k_def m_def)
qed

lemma chunk_count_eq:
  assumes "0 < sint cs"
  shows "chunk_count n cs = int ((n + unat cs - 1) div unat cs)"
proof -
  have c: "0 < unat cs" using assms sint_pos [OF assms] by linarith
  show ?thesis
    using sint_pos [OF assms] div_round_up [OF c, of n] assms
    by (simp add: chunk_count_def Let_def zdiv_int)
qed

lemma chunk_slice_eq:
  assumes "0 < c" "i < (length data + c - 1) div c"
  shows "chunk_slice data c (int ((length data + c - 1) div c)) i = take c (drop (i * c) data)"
proof (cases "i = (length data + c - 1) div c - 1 \<and> 0 < length data mod c")
  case True
  then have "length data div c = i" using div_round_up [OF assms(1), of "length data"] by simp
  then have "length (drop (i * c) data) = length data mod c"
    by (simp add: minus_mult_div_eq_mod mult.commute) (metis minus_mult_div_eq_mod mult.commute)
  then have "take c (drop (i * c) data) = drop (i * c) data" "take (length data mod c) (drop (i * c) data) = drop (i * c) data"
    using assms(1) mod_less_divisor [OF assms(1), of "length data"] by auto
  with True assms(2) show ?thesis by (auto simp: chunk_slice_def Let_def)
next
  case False
  with assms(2) show ?thesis by (auto simp: chunk_slice_def Let_def)
qed

section \<open>Reading back one message\<close>

lemma basic_header:
  fixes fmt :: byte and csid :: u16
  assumes "csid < 64" "fmt < 4"
  shows "drop_bit 6 (push_bit 6 fmt OR ucast (csid AND 0x3f)) AND 0x3 = fmt"
    and "ucast ((push_bit 6 fmt OR ucast (csid AND 0x3f)) AND 0x3f :: byte) = csid"
proof -
  have m: "(0x3f :: byte) = mask 6" "(0x3 :: byte) = mask 2" "(0x3f :: u16) = mask 6"
    by (simp_all add: mask_eq_exp_minus_1)
  have "unat csid < 64" using assms(1) by (simp add: word_less_nat_alt)
  then have c: "take_bit 6 csid = csid"
    by (intro word_eq_iff_unsigned [where ?'a = nat, THEN iffD2]) (simp add: unat_take_bit)
  have "unat fmt < 4" using assms(2) by (simp add: word_less_nat_alt)
  then have f: "take_bit 2 fmt = fmt"
    by (intro word_eq_iff_unsigned [where ?'a = nat, THEN iffD2]) (simp add: unat_take_bit)
  show "drop_bit 6 (push_bit 6 fmt OR ucast (csid AND 0x3f)) AND 0x3 = fmt"
    unfolding m by (subst (2) f [symmetric], rule bit_word_eqI) (auto simp: bit_simps)
  show "ucast ((push_bit 6 fmt OR ucast (csid AND 0x3f)) AND 0x3f :: byte) = csid"
    unfolding m by (subst (2) c [symmetric], rule bit_word_eqI) (auto simp: bit_simps)
qed

definition key_of :: "u16 \<Rightarrow> byte" where "key_of csid = ucast csid"

lemma ReadFmtCsid_small:
  assumes "2 \<le> csid" "csid < 64" "fmt < 4" "recv s = (push_bit 6 fmt OR ucast (csid AND 0x3f)) # buf"
  shows "ReadFmtCsid s = (s\<lparr>rd_fmt := fmt, rd_csid := csid, recv := buf\<rparr>, RTMP_OK)"
proof -
  have "csid \<noteq> 0" "csid \<noteq> 1" using assms(1) by (auto simp: word_le_nat_alt)
  then show ?thesis
    by (simp only: ReadFmtCsid_def assms(4) list.case Let_def basic_header [OF assms(2,3)]) simp
qed

text \<open>What the reader has to know of a chunk stream between two chunks.\<close>

definition core :: "chunk_stream \<Rightarrow> u32 \<times> byte \<times> u32 \<times> bool \<times> chunk_phase \<times> int \<times> octets \<times> bool" where
  "core cs = (timestamp32 cs, type_id cs, msg_stream_id cs, ext_ts_flag cs, cs_phase cs, remain cs,
     chunk_data cs, chunk_ready cs)"

lemma payload_step:
  assumes "cs_phase cs = CHUNK_STREAM_PHASE_PAYLOAD" "remain cs = int (length data)" "0 < unat (cs_chunk_size cs)"
    and "\<not> chunk_ready cs"
  shows "\<exists>cs'. ReadMessagePayload cs (take (unat (cs_chunk_size cs)) data @ rest) = (cs', rest, RTMP_OK)
    \<and> core cs' = (timestamp32 cs, type_id cs, msg_stream_id cs, ext_ts_flag cs, CHUNK_STREAM_PHASE_HEADER,
        int (length (drop (unat (cs_chunk_size cs)) data)),
        chunk_data cs @ take (unat (cs_chunk_size cs)) data, drop (unat (cs_chunk_size cs)) data = [])"
proof -
  define c where "c = unat (cs_chunk_size cs)"
  define n where "n = (if remain cs > uint (cs_chunk_size cs) then uint (cs_chunk_size cs) else remain cs)"
  have u: "uint (cs_chunk_size cs) = int c" by (simp add: c_def)
  have n: "nat n = length (take c data)" "0 \<le> n" "n = int (length (take c data))"
    using assms(2) unfolding n_def u by (auto simp: min_def)
  have len: "\<not> int (length (take c data @ rest)) < n" using n by simp
  have g: "take (length x) (x @ rest) = x" "drop (length x) (x @ rest) = rest" for x :: octets by simp_all
  have tk: "take (nat n) (take c data @ rest) = take c data" "drop (nat n) (take c data @ rest) = rest"
    unfolding n(1) by (rule g)+
  have r: "remain cs - n = int (length (drop c data))" using assms(2) n(3) by (simp add: min_def)
  show ?thesis unfolding c_def [symmetric]
    using assms(1,4) len
    unfolding ReadMessagePayload_def Let_def n_def [symmetric] tk
    by (auto simp: core_def r)
qed

lemma ReadChunkStream_first:
  assumes "\<not> fmt_ready s" "2 \<le> csid" "csid < 64" "fmt < 4"
    and "recv s = (push_bit 6 fmt OR ucast (csid AND 0x3f)) # buf"
  shows "ReadChunkStream s = ReadChunkStream (s\<lparr>rd_fmt := fmt, rd_csid := csid, recv := buf, fmt_ready := True\<rparr>)"
  using assms(1) by (simp add: ReadChunkStream_def ReadFmtCsid_small [OF assms(2-5)] RTMP_OK_def)

lemma ReadChunkStream_go:
  assumes "fmt_ready s"
    and "(case map_of (cs_map s) (key_of (rd_csid s)) of
        None \<Rightarrow> new_CoChunkStream (rd_fmt s) (rd_csid s) (chunk_size s)
      | Some c \<Rightarrow> c\<lparr>cs_chunk_size := chunk_size s\<rparr>) = cs"
    and "ReadMessageHeader (rd_fmt s) (rd_csid s) cs (recv s) = Inr (c1, b1, RTMP_OK)"
    and "ReadMessagePayload c1 b1 = (c2, b2, RTMP_OK)"
  shows "ReadChunkStream s = Inr (s\<lparr>cs_map := AList.update (key_of (rd_csid s)) c2 (cs_map s), recv := b2,
    fmt_ready := False\<rparr>, Some (key_of (rd_csid s)), RTMP_OK)"
proof -
  have s: "s\<lparr>fmt_ready := True\<rparr> = s" using assms(1) by (cases s) simp
  have c: "(case map_of (cs_map s) (ucast (rd_csid s)) of
        None \<Rightarrow> new_CoChunkStream (rd_fmt s) (rd_csid s) (chunk_size s)
      | Some c \<Rightarrow> c\<lparr>cs_chunk_size := chunk_size s\<rparr>) = cs"
    using assms(2) by (simp only: key_of_def)
  show ?thesis
    unfolding ReadChunkStream_def Let_def if_P [OF assms(1)] prod.case s c assms(3,4) sum.case key_of_def
    by (simp add: RTMP_OK_def RTMP_NEED_READ_MORE_def)
qed

lemma next_chunk:
  assumes s: "\<not> fmt_ready s" "map_of (cs_map s) (key_of csid) = Some cs" "unat (chunk_size s) = c" "0 < c"
    and csid: "2 \<le> csid" "csid < 64"
    and cs: "core cs = (ts, ty, sid, False, CHUNK_STREAM_PHASE_HEADER, int (length data), acc, False)" "data \<noteq> []"
    and buf: "recv s = (push_bit 6 3 OR ucast (csid AND 0x3f)) # take c data @ rest"
  shows "\<exists>s' cs'. ReadChunkStream s = Inr (s', Some (key_of csid), RTMP_OK) \<and> \<not> fmt_ready s' \<and> recv s' = rest
    \<and> chunk_size s' = chunk_size s \<and> map_of (cs_map s') (key_of csid) = Some cs'
    \<and> core cs' = (ts, ty, sid, False, CHUNK_STREAM_PHASE_HEADER, int (length (drop c data)), acc @ take c data,
        drop c data = [])"
proof -
  let ?cs = "cs\<lparr>cs_chunk_size := chunk_size s\<rparr>"
  let ?cs1 = "?cs\<lparr>cs_fmt := 3, cs_csid := csid, msg_count := 0, cs_phase := CHUNK_STREAM_PHASE_PAYLOAD\<rparr>"
  have h: "ReadMessageHeader 3 csid ?cs (take c data @ rest) = Inr (?cs1, take c data @ rest, RTMP_OK)"
    using cs by (auto simp: ReadMessageHeader_def ReadMsgFormat3_def core_def Let_def)
  have "\<exists>cs'. ReadMessagePayload ?cs1 (take c data @ rest) = (cs', rest, RTMP_OK)
    \<and> core cs' = (timestamp32 ?cs1, type_id ?cs1, msg_stream_id ?cs1, ext_ts_flag ?cs1, CHUNK_STREAM_PHASE_HEADER,
        int (length (drop c data)), chunk_data ?cs1 @ take c data, drop c data = [])"
    using payload_step [of ?cs1 data rest] cs(1) s(3,4) by (simp add: core_def)
  then obtain cs' where p: "ReadMessagePayload ?cs1 (take c data @ rest) = (cs', rest, RTMP_OK)"
    and c: "core cs' = (ts, ty, sid, False, CHUNK_STREAM_PHASE_HEADER, int (length (drop c data)), acc @ take c data,
        drop c data = [])"
    using cs(1) by (auto simp: core_def)
  show ?thesis
    using ReadChunkStream_first [OF s(1) csid, of 3 "take c data @ rest"] buf h p c s(2)
    by (auto simp: ReadChunkStream_def key_of_def RTMP_OK_def RTMP_NEED_READ_MORE_def update_conv' Let_def)
qed

lemma read_message_step:
  assumes "ReadChunkStream s = Inr (s1, Some k, RTMP_OK)" "map_of (cs_map s1) k = Some c"
  shows "read_message (Suc n) s = (if chunk_ready c then Inr (s1, Some (k, c))
    else if recv s1 = [] then Inr (s1, None) else read_message n s1)"
  using assms by (simp add: RTMP_OK_def RTMP_NEED_READ_MORE_def)

definition tail_chunks :: "u16 \<Rightarrow> nat \<Rightarrow> octets \<Rightarrow> octets" where
  "tail_chunks csid c data = concat (map (\<lambda>p. (push_bit 6 3 OR ucast (csid AND 0x3f)) # p) (slices c data))"

lemma read_tail:
  assumes "\<not> fmt_ready s" "map_of (cs_map s) (key_of csid) = Some cs" "unat (chunk_size s) = c" "0 < c"
    and "2 \<le> csid" "csid < 64"
    and "core cs = (ts, ty, sid, False, CHUNK_STREAM_PHASE_HEADER, int (length data), acc, False)" "data \<noteq> []"
    and "recv s = tail_chunks csid c data @ rest" "length data \<le> n"
  shows "\<exists>s' cs'. read_message n s = Inr (s', Some (key_of csid, cs')) \<and> recv s' = rest \<and> \<not> fmt_ready s'
    \<and> core cs' = (ts, ty, sid, False, CHUNK_STREAM_PHASE_HEADER, 0, acc @ data, True)"
  using assms
proof (induction n arbitrary: s cs data acc)
  case (Suc n)
  let ?more = "tail_chunks csid c (drop c data) @ rest"
  have "tail_chunks csid c data = (push_bit 6 3 OR ucast (csid AND 0x3f)) # take c data @ tail_chunks csid c (drop c data)"
    using Suc.prems(4,8) by (simp add: tail_chunks_def slices.simps [of c data])
  then have buf: "recv s = (push_bit 6 3 OR ucast (csid AND 0x3f)) # take c data @ ?more"
    using Suc.prems(9) by simp
  from next_chunk [OF Suc.prems(1-8) buf] obtain s1 c1 where s1:
    "ReadChunkStream s = Inr (s1, Some (key_of csid), RTMP_OK)" "\<not> fmt_ready s1" "recv s1 = ?more"
    "chunk_size s1 = chunk_size s" "map_of (cs_map s1) (key_of csid) = Some c1"
    "core c1 = (ts, ty, sid, False, CHUNK_STREAM_PHASE_HEADER, int (length (drop c data)), acc @ take c data, drop c data = [])"
    by blast
  note step = read_message_step [OF s1(1,5), of n]
  show ?case
  proof (cases "drop c data = []")
    case True
    then have "chunk_ready c1" "take c data = data" "?more = rest"
      using s1(6) by (auto simp: core_def tail_chunks_def slices.simps)
    with s1 step True show ?thesis by auto
  next
    case False
    then have "\<not> chunk_ready c1" "recv s1 \<noteq> []"
      unfolding s1(3) using s1(6) Suc.prems(4) by (auto simp: core_def tail_chunks_def slices.simps [of c "drop c data"])
    then have "read_message (Suc n) s = read_message n s1"
      using step by (simp only: if_False)
    moreover have "\<exists>s' cs'. read_message n s1 = Inr (s', Some (key_of csid, cs')) \<and> recv s' = rest \<and> \<not> fmt_ready s'
      \<and> core cs' = (ts, ty, sid, False, CHUNK_STREAM_PHASE_HEADER, 0, (acc @ take c data) @ drop c data, True)"
      using s1 Suc.prems(3,4,5,6,8,10) False
      by (intro Suc.IH [of s1 c1 "drop c data" "acc @ take c data"]) auto
    ultimately show ?thesis by simp
  qed
qed simp

text \<open>The first chunk of a message, format 0.\<close>

definition head_chunk :: "u16 \<Rightarrow> u32 \<Rightarrow> byte \<Rightarrow> u32 \<Rightarrow> nat \<Rightarrow> octets" where
  "head_chunk csid ts ty sid n = (push_bit 6 0 OR ucast (csid AND 0x3f))
     # Write3Bytes ts @ Write3Bytes (word_of_nat n) @ [ty] @ Write4Bytes sid"

lemma u24_Write3: "unat v < 2 ^ 24 \<Longrightarrow> u24 (Write3Bytes v @ r) = v"
  by (simp add: u24_def Read3_Write3)

lemma drop_chunk_header:
  "drop 3 (Write3Bytes a @ r) = r" "drop 7 (Write3Bytes a @ Write3Bytes b @ x # r) = r"
  "(Write3Bytes a @ Write3Bytes b @ x # r) ! 6 = x"
  "drop 11 (Write3Bytes a @ Write3Bytes b @ x # Write4Bytes d @ r) = r"
  by (simp_all add: nth_append)

lemma read_format0:
  assumes "ts < 0xffffff" "n < 2 ^ 24"
  shows "ReadMsgFormat0 0 csid cs (Write3Bytes ts @ Write3Bytes (word_of_nat n) @ [ty] @ Write4Bytes sid @ r) =
    (cs\<lparr>cs_fmt := 0, cs_csid := csid, timestamp32 := ts, timestamp_delta := 0, msg_len := word_of_nat n,
        type_id := ty, msg_stream_id := sid, remain := int n\<rparr>, r, RTMP_OK)"
proof -
  have ts: "unat ts < 2 ^ 24" "\<not> ts \<ge> 0xffffff" using assms(1) by (auto simp: word_less_nat_alt not_le)
  have n: "unat (word_of_nat n :: u32) = n" using assms(2) by (simp add: unat_of_nat)
  then have n24: "unat (word_of_nat n :: u32) < 2 ^ 24" using assms(2) by simp
  have u: "uint (word_of_nat n :: u32) = int n" using n by (simp only: uint_nat)
  show ?thesis
    unfolding ReadMsgFormat0_def Let_def append.simps append_assoc u24_Write3 [OF ts(1)] drop_chunk_header
      u24_Write3 [OF n24] u
    using ts(2) by (simp add: u32_at_def Read4_Write4)
qed

lemma GenData_first:
  "csid < 64 \<Longrightarrow> chunk_all (fst (GenData d ((new_CoChunkStream 0 csid cz)
     \<lparr>timestamp32 := ts, msg_len := word_of_nat n, type_id := ty, msg_stream_id := sid\<rparr>)))
   = head_chunk csid ts ty sid n @ d"
  by (simp add: GenData_def new_CoChunkStream_def head_chunk_def Let_def)

lemma GenData_next:
  "csid < 64 \<Longrightarrow> chunk_all (fst (GenData d ((new_CoChunkStream 3 csid cz)
     \<lparr>timestamp32 := ts, msg_len := word_of_nat n, type_id := ty, msg_stream_id := sid\<rparr>)))
   = (push_bit 6 3 OR ucast (csid AND 0x3f)) # d"
  by (simp add: GenData_def new_CoChunkStream_def Let_def)

lemma message_chunks_concat:
  assumes "0 < sint cz" "csid < 64" "data \<noteq> []"
  defines "c \<equiv> unat cz"
  shows "\<exists>cs. message_chunks csid ts ty sid cz data = Inr cs
    \<and> concat cs = head_chunk csid ts ty sid (length data) @ take c data @ tail_chunks csid c (drop c data)"
proof -
  let ?k = "(length data + c - 1) div c"
  let ?gen = "\<lambda>i. chunk_all (fst (GenData (take c (drop (i * c) data)) ((new_CoChunkStream (if i = 0 then 0 else 3) csid cz)
    \<lparr>timestamp32 := ts, msg_len := word_of_nat (length data), type_id := ty, msg_stream_id := sid\<rparr>)))"
  have c: "0 < c" "cz \<noteq> 0"
    using assms(1) sint_pos [OF assms(1)] unfolding c_def by (linarith, auto)
  have cnt: "chunk_count (length data) cz = int ?k" using chunk_count_eq [OF assms(1)] by (simp add: c_def)
  have "map (\<lambda>i. chunk_all (fst (GenData (chunk_slice data c (int ?k) i) ((new_CoChunkStream (if i = 0 then 0 else 3) csid cz)
      \<lparr>timestamp32 := ts, msg_len := word_of_nat (length data), type_id := ty, msg_stream_id := sid\<rparr>)))) [0..<?k]
    = map ?gen [0..<?k]"
    using chunk_slice_eq [OF c(1)] by (intro map_cong) auto
  then have mc: "message_chunks csid ts ty sid cz data = Inr (map ?gen [0..<?k])"
    using c(2) cnt by (simp add: message_chunks_def Let_def c_def)
  have sl: "slices c data = map (\<lambda>i. take c (drop (i * c) data)) [0..<?k]" using slices_eq [OF c(1)] by simp
  have "slices c data = take c data # slices c (drop c data)"
    using c(1) assms(3) by (simp add: slices.simps [of c data])
  then have tl: "slices c (drop c data) = map (\<lambda>i. take c (drop (i * c) data)) [1..<?k]" and k: "0 < ?k"
    using sl by (auto simp: upt_rec [of 0] split: if_splits)
  have "map ?gen [1..<?k] = map (\<lambda>i. (push_bit 6 3 OR ucast (csid AND 0x3f)) # take c (drop (i * c) data)) [1..<?k]"
  proof (rule map_cong)
    fix i assume "i \<in> set [1..<?k]"
    then have "i \<noteq> 0" by simp
    then show "?gen i = (push_bit 6 3 OR ucast (csid AND 0x3f)) # take c (drop (i * c) data)"
      by (simp only: if_False GenData_next [OF assms(2)])
  qed simp
  then have "concat (map ?gen [1..<?k]) = tail_chunks csid c (drop c data)"
    unfolding tail_chunks_def tl map_map comp_def by (rule arg_cong)
  moreover have "map ?gen [0..<?k] = (head_chunk csid ts ty sid (length data) @ take c data) # map ?gen [1..<?k]"
    using k by (simp add: upt_rec [of 0] GenData_first [OF assms(2)])
  ultimately show ?thesis using mc by simp
qed

definition idle :: "chunk_stream option \<Rightarrow> bool" where
  "idle co \<longleftrightarrow> (case co of None \<Rightarrow> True | Some c \<Rightarrow> cs_phase c = CHUNK_STREAM_PHASE_HEADER
     \<and> chunk_data c = [] \<and> \<not> chunk_ready c \<and> \<not> ext_ts_flag c)"

text \<open>The first chunk of a message.\<close>

lemma read_head:
  assumes "2 \<le> csid" "csid < 64" "ts < 0xffffff" "data \<noteq> []" "length data < 2 ^ 24" "0 < sint (chunk_size s)"
    and "\<not> fmt_ready s" "idle (map_of (cs_map s) (key_of csid))"
    and "message_chunks csid ts ty sid (chunk_size s) data = Inr cs" "recv s = concat cs @ rest"
    and c_def: "c = unat (chunk_size s)" and c0: "0 < c"
  shows "\<exists>s2 c2. ReadChunkStream s = Inr (s2, Some (key_of csid), RTMP_OK) \<and> \<not> fmt_ready s2
    \<and> map_of (cs_map s2) (key_of csid) = Some c2 \<and> unat (chunk_size s2) = c
    \<and> recv s2 = tail_chunks csid c (drop c data) @ rest
    \<and> core c2 = (ts, ty, sid, False, CHUNK_STREAM_PHASE_HEADER, int (length (drop c data)), take c data, drop c data = [])"
proof -
  let ?more = "tail_chunks csid c (drop c data) @ rest"
  let ?hdr = "Write3Bytes ts @ Write3Bytes (word_of_nat (length data)) @ [ty] @ Write4Bytes sid"
  have "concat cs = head_chunk csid ts ty sid (length data) @ take c data @ tail_chunks csid c (drop c data)"
    using message_chunks_concat [OF assms(6,2,4), of ts ty sid] assms(9) by (auto simp: c_def)
  then have buf: "recv s = (push_bit 6 0 OR ucast (csid AND 0x3f)) # ?hdr @ take c data @ ?more"
    using assms(10) by (simp add: head_chunk_def)
  define s1 where "s1 = s\<lparr>rd_fmt := 0, rd_csid := csid, recv := ?hdr @ take c data @ ?more, fmt_ready := True\<rparr>"
  have r1: "ReadChunkStream s = ReadChunkStream s1"
    unfolding s1_def by (rule ReadChunkStream_first [OF assms(7,1,2) _ buf]) simp
  define c0s where "c0s = (case map_of (cs_map s) (key_of csid) of None \<Rightarrow> new_CoChunkStream 0 csid (chunk_size s)
    | Some x \<Rightarrow> x\<lparr>cs_chunk_size := chunk_size s\<rparr>)"
  have i: "cs_phase c0s = CHUNK_STREAM_PHASE_HEADER" "chunk_data c0s = []" "\<not> chunk_ready c0s" "\<not> ext_ts_flag c0s"
      "cs_chunk_size c0s = chunk_size s"
    using assms(8) by (auto simp: idle_def c0s_def new_CoChunkStream_def split: option.splits)
  define c1 where "c1 = c0s\<lparr>cs_fmt := 0, cs_csid := csid, timestamp32 := ts, timestamp_delta := 0,
    msg_len := word_of_nat (length data), type_id := ty, msg_stream_id := sid, remain := int (length data),
    msg_count := 0, cs_phase := CHUNK_STREAM_PHASE_PAYLOAD\<rparr>"
  have h: "ReadMessageHeader 0 csid c0s (?hdr @ take c data @ ?more) = Inr (c1, take c data @ ?more, RTMP_OK)"
    using i(1) read_format0 [OF assms(3,5), of csid c0s ty sid "take c data @ ?more"]
    by (simp add: ReadMessageHeader_def c1_def)
  have "\<exists>cs'. ReadMessagePayload c1 (take c data @ ?more) = (cs', ?more, RTMP_OK)
    \<and> core cs' = (ts, ty, sid, False, CHUNK_STREAM_PHASE_HEADER, int (length (drop c data)), take c data, drop c data = [])"
    using payload_step [of c1 data ?more] i c0 by (simp add: c1_def c_def)
  then obtain c2 where p: "ReadMessagePayload c1 (take c data @ ?more) = (c2, ?more, RTMP_OK)"
    and c2: "core c2 = (ts, ty, sid, False, CHUNK_STREAM_PHASE_HEADER, int (length (drop c data)), take c data, drop c data = [])"
    by blast
  define s2 where "s2 = s1\<lparr>cs_map := AList.update (key_of csid) c2 (cs_map s1), recv := ?more, fmt_ready := False\<rparr>"
  have rd: "ReadChunkStream s = Inr (s2, Some (key_of csid), RTMP_OK)"
  proof -
    have "(case map_of (cs_map s1) (key_of (rd_csid s1)) of
        None \<Rightarrow> new_CoChunkStream (rd_fmt s1) (rd_csid s1) (chunk_size s1)
      | Some c \<Rightarrow> c\<lparr>cs_chunk_size := chunk_size s1\<rparr>) = c0s"
      by (simp add: s1_def c0s_def split: option.split)
    from ReadChunkStream_go [OF _ this _ p] h show ?thesis
      unfolding r1 s2_def by (simp add: s1_def)
  qed
  have s2: "\<not> fmt_ready s2" "map_of (cs_map s2) (key_of csid) = Some c2" "unat (chunk_size s2) = c" "recv s2 = ?more"
    by (simp_all add: s2_def s1_def c_def update_conv')
  show ?thesis using rd s2 c2 by blast
qed

text \<open>
  C12. What \<open>WriteDataByChunkStream\<close> sends, the session reader takes apart again: for chunk stream ids 2 to 63,
  timestamps below 0xffffff, messages of 1 to 2\<open>^\<close>24 - 1 octets and any chunk size from 1 to 2\<open>^\<close>31 - 1 used by
  both ends, the reader gathers exactly the message, with its timestamp, type and stream id,
  and leaves what follows it untouched.
\<close>

theorem chunk_round_trip:
  assumes "2 \<le> csid" "csid < 64" "ts < 0xffffff" "data \<noteq> []" "length data < 2 ^ 24" "0 < sint (chunk_size s)"
    and "\<not> fmt_ready s" "idle (map_of (cs_map s) (key_of csid))"
    and "message_chunks csid ts ty sid (chunk_size s) data = Inr cs" "recv s = concat cs @ rest"
  shows "\<exists>s' c. read_message (Suc (length data)) s = Inr (s', Some (key_of csid, c)) \<and> recv s' = rest
    \<and> chunk_data c = data \<and> timestamp32 c = ts \<and> type_id c = ty \<and> msg_stream_id c = sid"
proof -
  define c where "c = unat (chunk_size s)"
  have c0: "0 < c" using assms(6) sint_pos [OF assms(6)] unfolding c_def by linarith
  obtain s2 c2 where rd: "ReadChunkStream s = Inr (s2, Some (key_of csid), RTMP_OK)"
    and s2: "\<not> fmt_ready s2" "map_of (cs_map s2) (key_of csid) = Some c2" "unat (chunk_size s2) = c"
      "recv s2 = tail_chunks csid c (drop c data) @ rest"
    and c2: "core c2 = (ts, ty, sid, False, CHUNK_STREAM_PHASE_HEADER, int (length (drop c data)), take c data, drop c data = [])"
    using read_head [OF assms c_def c0] by blast
  note step = read_message_step [OF rd s2(2), of "length data"]
  show ?thesis
  proof (cases "drop c data = []")
    case True
    then show ?thesis
      using step c2 s2(4) by (auto simp: core_def tail_chunks_def slices.simps simp del: read_message.simps)
  next
    case False
    have "recv s2 \<noteq> []" unfolding s2(4) using c0 False by (simp add: tail_chunks_def slices.simps [of c "drop c data"])
    moreover have "\<not> chunk_ready c2" using c2 False by (simp add: core_def)
    ultimately have "read_message (Suc (length data)) s = read_message (length data) s2"
      using step by (simp only: if_False)
    moreover have "core c2 = (ts, ty, sid, False, CHUNK_STREAM_PHASE_HEADER, int (length (drop c data)), take c data, False)"
      using c2 False by simp
    ultimately show ?thesis
      using read_tail [OF s2(1,2,3) c0 assms(1,2) _ False s2(4), where n = "length data"]
      by (auto simp: core_def simp del: read_message.simps)
  qed
qed

definition example_reader :: "octets \<Rightarrow> u32 \<Rightarrow> rtmp_reader" where
  "example_reader buf cz = \<lparr>recv = buf, fmt_ready = False, rd_fmt = 0, rd_csid = 0, cs_map = [], chunk_size = cz\<rparr>"

lemma chunk_round_trip_witness:
  "\<exists>s' c. read_message 4 (example_reader [3, 0, 0, 9, 0, 0, 3, 8, 0, 0, 0, 1, 21, 22, 195, 23, 99] 2) = Inr (s', Some (3, c))
    \<and> recv s' = [99] \<and> chunk_data c = [21, 22, 23] \<and> timestamp32 c = 9 \<and> type_id c = 8 \<and> msg_stream_id c = 1"
proof -
  let ?s = "example_reader [3, 0, 0, 9, 0, 0, 3, 8, 0, 0, 0, 1, 21, 22, 195, 23, 99] 2"
  have w: "Write3Bytes 9 = [0, 0, 9]" "Write3Bytes 3 = [0, 0, 3]" "Write4Bytes 1 = [0, 0, 0, 1]"
    by (simp_all add: Write3Bytes_def Write4Bytes_def be_bytes_numeral)
  have mc: "message_chunks 3 9 8 1 (chunk_size ?s) [21, 22, 23] = Inr [[3, 0, 0, 9, 0, 0, 3, 8, 0, 0, 0, 1, 21, 22], [195, 23]]"
    by (simp add: message_chunks_def chunk_count_def chunk_slice_def GenData_def new_CoChunkStream_def example_reader_def
      w Let_def upt_rec)
  have "\<exists>s' c. read_message (Suc (length [21 :: byte, 22, 23])) ?s = Inr (s', Some (key_of 3, c)) \<and> recv s' = [99]
    \<and> chunk_data c = [21, 22, 23] \<and> timestamp32 c = 9 \<and> type_id c = 8 \<and> msg_stream_id c = 1"
    by (rule chunk_round_trip [OF _ _ _ _ _ _ _ _ mc]) (simp_all add: example_reader_def idle_def)
  moreover have "Suc (length [21 :: byte, 22, 23]) = 4" "key_of 3 = 3" by (simp_all add: key_of_def)
  ultimately show ?thesis by (simp only:)
qed

end
