(* ===== verification/Nal.thy ===== *)
theory Nal
  imports Byte_Stream "HOL-Library.Signed_Division"
begin

text \<open>
  Codec headers, \<open>moqlivecast/format/h264_h265_header.cpp\<close>: splitting of Annex B and AVCC streams into NAL
  units, the HEVC configuration record, and the bit reader with the parsers of the H.264 and
  H.265 sequence parameter sets that find the picture size. Text dumps are left out. \<open>None\<close> is the
  code's \<open>false\<close> or -1.
\<close>

section \<open>NAL units\<close>

record Hevc_Header =
  forbid :: byte
  nalu_type :: byte
  layer_id :: byte
  tid :: byte

definition GetHevcHeader :: "octets \<Rightarrow> fault + Hevc_Header" where
  "GetHevcHeader data =
     (case data of a # b # _ \<Rightarrow>
        Inr \<lparr>forbid = drop_bit 7 a AND 1, nalu_type = drop_bit 1 a AND 0x3f,
             layer_id = push_bit 6 (a AND 1) OR drop_bit 3 (b AND 0xf8), tid = b AND 7\<rparr>
      | _ \<Rightarrow> Inl OverRead)"

text \<open>The scan for start codes both Annex B functions make: position and length of each.\<close>

function start_codes :: "octets \<Rightarrow> nat \<Rightarrow> (nat \<times> nat) list" where
  "start_codes data i =
     (if i \<ge> length data then []
      else if length data - i \<ge> 4 \<and> take 4 (drop i data) = [0, 0, 0, 1] then (i, 4) # start_codes data (i + 4)
      else if length data - i \<ge> 3 \<and> take 3 (drop i data) = [0, 0, 1] then (i, 3) # start_codes data (i + 3)
      else start_codes data (i + 1))"
  by pat_completeness auto
termination by (relation "measure (\<lambda>(data, i). length data - i)") auto

declare start_codes.simps [simp del]

fun pieces :: "octets \<Rightarrow> nat list \<Rightarrow> octets list" where
  "pieces data [] = []"
| "pieces data [p] = [drop p data]"
| "pieces data (p # q # ps) = take (q - p) (drop p data) # pieces data (q # ps)"

definition AnnexB2Nalus :: "octets \<Rightarrow> octets list option" where
  "AnnexB2Nalus data = (if length data < 4 then None else Some (pieces data (map fst (start_codes data 0))))"

definition AnnexB2Avcc :: "octets \<Rightarrow> octets list option" where
  "AnnexB2Avcc data =
     (if length data < 4 then None
      else Some (map (\<lambda>n. Write4Bytes (word_of_nat (length n)) @ n)
                  (pieces data (map (\<lambda>(p, n). p + n) (start_codes data 0)))))"

function avcc_loop :: "octets \<Rightarrow> octets list \<Rightarrow> fault + octets list option" where
  "avcc_loop p nalus =
     (if p = [] then Inr (Some nalus)
      else case Read4Bytes p of
        None \<Rightarrow> Inl OverRead
      | Some nalu_len \<Rightarrow>
          if nalu_len > 10000000 then Inr None
          else let n = unat nalu_len; p1 = drop 4 p in
            if length p1 < n then Inl OverRead
            else avcc_loop (drop n p1) (nalus @ [[0, 0, 0, 1] @ take n p1]))"
  by pat_completeness auto
termination by (relation "measure (\<lambda>(p, nalus). length p)") (auto simp: Let_def simp flip: length_greater_0_conv)

declare avcc_loop.simps [simp del]

definition Avcc2Nalus :: "octets \<Rightarrow> fault + octets list option" where
  "Avcc2Nalus data = (if length data < 4 then Inr None else avcc_loop data [])"

text \<open>
  \<open>GetSpsPpsFromExtraData\<close> copies the two parameter sets out of an AVC configuration record; the caller's
  buffers are taken to be large enough, reads past the record are faults.
\<close>

definition octet_at :: "octets \<Rightarrow> nat \<Rightarrow> fault + nat" where
  "octet_at p i = (if i < length p then Inr (unat (p ! i)) else Inl OverRead)"

definition sized_at :: "octets \<Rightarrow> nat \<Rightarrow> fault + octets" where
  "sized_at body i =
     (case (octet_at body i, octet_at body (i + 1)) of
        (Inr a, Inr b) \<Rightarrow> if length body < i + 2 + (a * 256 + b) then Inl OverRead
                          else Inr (take (a * 256 + b) (drop (i + 2) body))
      | _ \<Rightarrow> Inl OverRead)"

definition GetSpsPpsFromExtraData :: "octets \<Rightarrow> fault + (octets \<times> octets) option" where
  "GetSpsPpsFromExtraData body =
     (if body = [] then Inr None
      else if length body = 5 \<and> body ! 4 = 0xff then Inl OverRead
      else if length body > 4 \<and> (body ! 4 \<noteq> 0xff \<or> body ! 5 \<noteq> 0xe1) then Inr None
      else case sized_at body 6 of Inl e \<Rightarrow> Inl e
      | Inr sps \<Rightarrow> case sized_at body (9 + length sps) of Inl e \<Rightarrow> Inl e
      | Inr pps \<Rightarrow> Inr (Some (sps, pps)))"

section \<open>The HEVC configuration record\<close>

record HEVC_NALUnit =
  array_completeness :: byte
  nal_unit_type :: byte
  num_nalus :: u16
  nal_data_vec :: "octets list"

record HEVC_DEC_CONF_RECORD =
  configuration_version :: byte
  general_profile_space :: byte
  general_tier_flag :: byte
  general_profile_idc :: byte
  general_profile_compatibility_flags :: u32
  general_constraint_indicator_flags :: u64
  general_level_idc :: byte
  min_spatial_segmentation_idc :: u16
  parallelism_type :: byte
  chroma_format :: byte
  bitdepth_lumaminus8 :: byte
  bitdepth_chromaminus8 :: byte
  avg_framerate :: u16
  constant_frameRate :: byte
  num_temporallayers :: byte
  temporalid_nested :: byte
  lengthsize_minusone :: byte
  nalu_vec :: "HEVC_NALUnit list"

definition octet :: "(octets, byte) step" where
  "octet p = (case p of [] \<Rightarrow> Inl OverRead | b # r \<Rightarrow> Inr (b, r))"

definition octet2 :: "(octets, u16) step" where
  "octet2 p = (case Read2Bytes p of None \<Rightarrow> Inl OverRead | Some v \<Rightarrow> Inr (v, drop 2 p))"

definition octet4 :: "(octets, u32) step" where
  "octet4 p = (case Read4Bytes p of None \<Rightarrow> Inl OverRead | Some v \<Rightarrow> Inr (v, drop 4 p))"

text \<open>The inner and the outer loop over the parameter sets; \<open>None\<close> is the early \<open>return -1\<close>.\<close>

fun hevc_nalus :: "nat \<Rightarrow> octets list \<Rightarrow> (octets, octets list option) step" where
  "hevc_nalus 0 acc = give (Some acc)"
| "hevc_nalus (Suc n) acc = chain octet2 (\<lambda>len p.
     if length p < unat len then Inr (None, p)
     else hevc_nalus n (acc @ [take (unat len) p]) (drop (unat len) p))"

fun hevc_units :: "nat \<Rightarrow> HEVC_NALUnit list \<Rightarrow> (octets, HEVC_NALUnit list option) step" where
  "hevc_units 0 acc = give (Some acc)"
| "hevc_units (Suc n) acc = (\<lambda>p.
     if length p < 5 then Inr (None, p)
     else chain octet (\<lambda>b. chain octet2 (\<lambda>cnt. chain (hevc_nalus (unat cnt) []) (\<lambda>ds.
       case ds of None \<Rightarrow> give None
       | Some l \<Rightarrow> hevc_units n (acc @ [\<lparr>array_completeness = drop_bit 7 b AND 1, nal_unit_type = b AND 0x3f,
                     num_nalus = cnt, nal_data_vec = l\<rparr>])))) p)"

definition hevc_fields :: "byte \<Rightarrow> (octets, HEVC_DEC_CONF_RECORD option) step" where
  "hevc_fields ver =
     chain octet (\<lambda>prof. chain octet4 (\<lambda>compat. chain octet4 (\<lambda>c4. chain octet2 (\<lambda>c2. chain octet (\<lambda>level.
     chain octet2 (\<lambda>spat. chain octet (\<lambda>par. chain octet (\<lambda>chroma. chain octet (\<lambda>luma8. chain octet (\<lambda>chroma8.
     chain octet2 (\<lambda>rate. chain octet (\<lambda>misc. chain octet (\<lambda>num. chain (hevc_units (unat num) []) (\<lambda>units.
       give (map_option (\<lambda>us.
         \<lparr>configuration_version = ver, general_profile_space = drop_bit 6 prof AND 3,
          general_tier_flag = drop_bit 5 prof AND 1, general_profile_idc = prof AND 0x1f,
          general_profile_compatibility_flags = compat,
          general_constraint_indicator_flags = push_bit 16 (ucast c4) OR ucast c2,
          general_level_idc = level, min_spatial_segmentation_idc = spat AND 0xfff,
          parallelism_type = par AND 3, chroma_format = chroma AND 3,
          bitdepth_lumaminus8 = luma8 AND 7, bitdepth_chromaminus8 = chroma8 AND 7,
          avg_framerate = rate, constant_frameRate = drop_bit 6 misc AND 3,
          num_temporallayers = drop_bit 3 misc AND 7, temporalid_nested = drop_bit 2 misc AND 1,
          lengthsize_minusone = misc AND 3, nalu_vec = us\<rparr>) units)))))))))))))))"

definition GetHevcDecInfoFromExtradata :: "(octets, HEVC_DEC_CONF_RECORD option) step" where
  "GetHevcDecInfoFromExtradata = chain octet (\<lambda>ver. if ver \<noteq> 1 then give None else hevc_fields ver)"

text \<open>\<open>nal_data_vec[0]\<close> of an empty vector is read out of bounds.\<close>

fun last_of_type :: "byte \<Rightarrow> HEVC_NALUnit list \<Rightarrow> octets \<Rightarrow> fault + octets" where
  "last_of_type ty [] found = Inr found"
| "last_of_type ty (u # us) found =
     (if nal_unit_type u = ty then
        (case nal_data_vec u of [] \<Rightarrow> Inl OverRead | d # _ \<Rightarrow> last_of_type ty us d)
      else last_of_type ty us found)"

definition GetVpsSpsPpsFromHevcDecInfo :: "HEVC_DEC_CONF_RECORD \<Rightarrow> fault + (octets \<times> octets \<times> octets) option" where
  "GetVpsSpsPpsFromHevcDecInfo h =
     (case (last_of_type 32 (nalu_vec h) [], last_of_type 33 (nalu_vec h) [], last_of_type 34 (nalu_vec h) []) of
        (Inr vps, Inr sps, Inr pps) \<Rightarrow>
          Inr (if vps = [] \<or> sps = [] \<or> pps = [] then None else Some (vps, sps, pps))
      | _ \<Rightarrow> Inl OverRead)"

section \<open>Bit reader\<close>

fun RemoveEmulationPreventionBytes :: "octets \<Rightarrow> octets" where
  "RemoveEmulationPreventionBytes (a # b # c # xs) =
     (if a = 0 \<and> b = 0 \<and> c = 3 then a # b # RemoveEmulationPreventionBytes xs
      else a # RemoveEmulationPreventionBytes (b # c # xs))"
| "RemoveEmulationPreventionBytes xs = xs"

record bit_reader =
  br_data :: octets
  bit_pos :: nat

definition InitBitReader :: "octets \<Rightarrow> bit_reader" where
  "InitBitReader data = \<lparr>br_data = data, bit_pos = 0\<rparr>"

definition cur_bit :: "bit_reader \<Rightarrow> bool" where
  "cur_bit r = (br_data r ! (bit_pos r div 8) AND drop_bit (bit_pos r mod 8) 0x80 \<noteq> 0)"

fun read_bits :: "nat \<Rightarrow> u32 \<Rightarrow> bit_reader \<Rightarrow> u32 \<times> bit_reader" where
  "read_bits 0 result r = (result, r)"
| "read_bits (Suc k) result r =
     read_bits k (if cur_bit r then result OR push_bit k 1 else result) (r\<lparr>bit_pos := bit_pos r + 1\<rparr>)"

definition ReadBits :: "nat \<Rightarrow> (bit_reader, u32) step" where
  "ReadBits n r = Inr (if bit_pos r + n > length (br_data r) * 8 then (0, r) else read_bits n 0 r)"

text \<open>
  The loop of \<open>ReadUe\<close> counts zeros up to 33; the argument \<open>k\<close> is what is left of them. \<open>None\<close> is its
  early return. After thirty-one zeros \<open>(1 << 31) - 1\<close> overflows, after thirty-two \<open>1 << 32\<close> is undefined.
\<close>

fun ue_zeros :: "nat \<Rightarrow> nat \<Rightarrow> bit_reader \<Rightarrow> nat option \<times> bit_reader" where
  "ue_zeros 0 z r = (None, r)"
| "ue_zeros (Suc k) z r =
     (if bit_pos r < length (br_data r) * 8 then
        (case ReadBits 1 r of Inl _ \<Rightarrow> (None, r)
         | Inr (b, r1) \<Rightarrow> if b = 0 then ue_zeros k (z + 1) r1 else (Some z, r1))
      else (Some z, r))"

definition ReadUe :: "(bit_reader, u32) step" where
  "ReadUe r =
     (case ue_zeros 33 0 r of
        (None, r1) \<Rightarrow> Inr (0, r1)
      | (Some z, r1) \<Rightarrow>
          if z = 0 then Inr (0, r1)
          else chain (ReadBits z) (\<lambda>value. if z > 31 then (\<lambda>_. Inl UndefinedShift)
                                         else if z = 31 then (\<lambda>_. Inl SignedOverflow)
                                         else give (push_bit z 1 - 1 + value)) r1)"

section \<open>Sequence parameter sets\<close>

definition in_int :: "int \<Rightarrow> bool" where "in_int x \<longleftrightarrow> - (2 ^ 31) \<le> x \<and> x < 2 ^ 31"

definition stop :: "fault \<Rightarrow> ('s, 'a) step" where "stop e = (\<lambda>_. Inl e)"

definition H264ReadSe :: "(bit_reader, int) step" where
  "H264ReadSe = chain ReadUe (\<lambda>ue. let v = sint (drop_bit 1 (ue + 1)) in
     give (if ue AND 1 \<noteq> 0 then v else - v))"

fun H264SkipScalingList :: "nat \<Rightarrow> int \<Rightarrow> int \<Rightarrow> (bit_reader, unit) step" where
  "H264SkipScalingList 0 lst nxt = give ()"
| "H264SkipScalingList (Suc j) lst nxt =
     (if nxt \<noteq> 0 then
        chain H264ReadSe (\<lambda>delta.
          if \<not> in_int (lst + delta) \<or> \<not> in_int (lst + delta + 256) then stop SignedOverflow
          else let nxt' = (lst + delta + 256) smod 256 in
            H264SkipScalingList j (if nxt' \<noteq> 0 then nxt' else lst) nxt')
      else H264SkipScalingList j lst nxt)"

fun repeat_step :: "nat \<Rightarrow> ('s, 'a) step \<Rightarrow> ('s, unit) step" where
  "repeat_step 0 p = give ()"
| "repeat_step (Suc n) p = chain p (\<lambda>_. repeat_step n p)"

fun scaling_lists :: "nat \<Rightarrow> nat \<Rightarrow> (bit_reader, unit) step" where
  "scaling_lists 0 i = give ()"
| "scaling_lists (Suc n) i = chain (ReadBits 1) (\<lambda>f.
     chain (if f \<noteq> 0 then H264SkipScalingList (if i < 6 then 16 else 64) 8 8 else give ()) (\<lambda>_.
     scaling_lists n (i + 1)))"

definition high_profiles :: "u32 list" where
  "high_profiles = [100, 110, 122, 244, 44, 83, 86, 118, 128, 138, 139, 134, 135]"

definition sps_chroma :: "u32 \<Rightarrow> (bit_reader, u32 \<times> bool) step" where
  "sps_chroma profile =
     (if profile \<in> set high_profiles then
        chain ReadUe (\<lambda>chroma.
        chain (if chroma = 3 then chain (ReadBits 1) (\<lambda>b. give (b \<noteq> 0)) else give False) (\<lambda>sep.
        chain ReadUe (\<lambda>_. chain ReadUe (\<lambda>_. chain (ReadBits 1) (\<lambda>_. chain (ReadBits 1) (\<lambda>m.
        chain (if m \<noteq> 0 then scaling_lists (if chroma \<noteq> 3 then 8 else 12) 0 else give ()) (\<lambda>_.
        give (chroma, sep))))))))
      else give (1, False))"

definition sps_poc :: "(bit_reader, unit) step" where
  "sps_poc = chain ReadUe (\<lambda>poc_type.
     if poc_type = 0 then chain ReadUe (\<lambda>_. give ())
     else if poc_type = 1 then
       chain (ReadBits 1) (\<lambda>_. chain H264ReadSe (\<lambda>_. chain H264ReadSe (\<lambda>_. chain ReadUe (\<lambda>cycle.
         repeat_step (min (unat cycle) 256) H264ReadSe))))
     else give ())"

definition sps_crop :: "(bit_reader, u32 \<times> u32 \<times> u32 \<times> u32) step" where
  "sps_crop = chain (ReadBits 1) (\<lambda>f.
     if f \<noteq> 0 then
       chain ReadUe (\<lambda>l. chain ReadUe (\<lambda>r. chain ReadUe (\<lambda>t. chain ReadUe (\<lambda>b. give (l, r, t, b)))))
     else give (0, 0, 0, 0))"

definition sps_size :: "u32 \<times> bool \<Rightarrow> u32 \<Rightarrow> u32 \<Rightarrow> u32 \<Rightarrow> u32 \<times> u32 \<times> u32 \<times> u32 \<Rightarrow> fault + (int \<times> int) option" where
  "sps_size cs width_mbs height_map_units frame_mbs_only crop =
     (case cs of (chroma, sep) \<Rightarrow> case crop of (l, r, t, b) \<Rightarrow>
      let array_type = (if sep then 0 else chroma);
          sub_w = (if array_type = 1 \<or> array_type = 2 then 2 else 1);
          sub_h = (if array_type = 1 then 2 else 1);
          w = sint (width_mbs * 16) - sint ((l + r) * sub_w);
          h = sint ((2 - frame_mbs_only) * height_map_units * 16) - sint ((t + b) * sub_h) in
      if \<not> in_int w \<or> \<not> in_int h then Inl SignedOverflow
      else Inr (if w \<le> 0 \<or> h \<le> 0 then None else Some (w, h)))"

definition sps_fields :: "(bit_reader, fault + (int \<times> int) option) step" where
  "sps_fields = chain (ReadBits 8) (\<lambda>_. chain (ReadBits 8) (\<lambda>profile. chain (ReadBits 8) (\<lambda>_. chain (ReadBits 8) (\<lambda>_.
     chain ReadUe (\<lambda>_. chain (sps_chroma profile) (\<lambda>cs. chain ReadUe (\<lambda>_. chain sps_poc (\<lambda>_.
     chain ReadUe (\<lambda>_. chain (ReadBits 1) (\<lambda>_. chain ReadUe (\<lambda>w. chain ReadUe (\<lambda>h. chain (ReadBits 1) (\<lambda>only.
     chain (if only = 0 then ReadBits 1 else give 0) (\<lambda>_. chain (ReadBits 1) (\<lambda>_. chain sps_crop (\<lambda>crop.
     give (sps_size cs (w + 1) (h + 1) only crop)))))))))))))))))"

definition ParseH264SpsDimensions :: "octets \<Rightarrow> fault + (int \<times> int) option" where
  "ParseH264SpsDimensions nalu_data =
     (if length nalu_data < 4 then Inr None
      else case sps_fields (InitBitReader (RemoveEmulationPreventionBytes nalu_data)) of
        Inl e \<Rightarrow> Inl e | Inr (res, _) \<Rightarrow> res)"

text \<open>The H.265 parser; the differences are stored through \<open>int*\<close>.\<close>

fun sub_layers :: "nat \<Rightarrow> (bit_reader, unit) step" where
  "sub_layers 0 = give ()"
| "sub_layers (Suc n) = chain (ReadBits 1) (\<lambda>p. chain (ReadBits 1) (\<lambda>l.
     chain (if p \<noteq> 0 then chain (ReadBits 32) (\<lambda>_. chain (ReadBits 32) (\<lambda>_. ReadBits 24)) else give 0) (\<lambda>_.
     chain (if l \<noteq> 0 then ReadBits 8 else give 0) (\<lambda>_. sub_layers n))))"

definition hevc_sps_fields :: "(bit_reader, int \<times> int) step" where
  "hevc_sps_fields =
     chain (ReadBits 16) (\<lambda>_. chain (ReadBits 4) (\<lambda>_. chain (ReadBits 3) (\<lambda>sub. chain (ReadBits 1) (\<lambda>_.
     chain (ReadBits 2) (\<lambda>_. chain (ReadBits 1) (\<lambda>_. chain (ReadBits 5) (\<lambda>_. chain (ReadBits 32) (\<lambda>_.
     chain (ReadBits 6) (\<lambda>_. chain (ReadBits 32) (\<lambda>_. chain (ReadBits 10) (\<lambda>_. chain (ReadBits 8) (\<lambda>_.
     chain (sub_layers (unat sub)) (\<lambda>_. chain ReadUe (\<lambda>_. chain ReadUe (\<lambda>chroma.
     chain (if chroma = 3 then ReadBits 1 else give 0) (\<lambda>_. chain ReadUe (\<lambda>w. chain ReadUe (\<lambda>h. chain sps_crop (\<lambda>crop.
     case crop of (l, r, t, b) \<Rightarrow>
     give (sint (w - (if chroma = 1 \<or> chroma = 2 then 2 else 1) * (l + r)),
           sint (h - (if chroma = 1 then 2 else 1) * (t + b))))))))))))))))))))))"

definition ParseHevcSpsFinal :: "octets \<Rightarrow> fault + (int \<times> int) option" where
  "ParseHevcSpsFinal nalu_data =
     (if length nalu_data < 15 then Inr None
      else case hevc_sps_fields (InitBitReader (RemoveEmulationPreventionBytes nalu_data)) of
        Inl e \<Rightarrow> Inl e | Inr (wh, _) \<Rightarrow> Inr (Some wh))"

section \<open>Emulation prevention\<close>

text \<open>What an encoder does before it writes a NAL unit: after two zeros, an octet up to 3 is preceded by 3.\<close>

fun emulate :: "nat \<Rightarrow> octets \<Rightarrow> octets" where
  "emulate z [] = []"
| "emulate z (x # xs) =
     (if 2 \<le> z \<and> x \<le> 3 then 3 # x # emulate (if x = 0 then 1 else 0) xs
      else x # emulate (if x = 0 then z + 1 else 0) xs)"

lemma strip_steps:
  "x \<noteq> 0 \<Longrightarrow> RemoveEmulationPreventionBytes (x # ys) = x # RemoveEmulationPreventionBytes ys"
  "x \<noteq> 0 \<Longrightarrow> RemoveEmulationPreventionBytes (0 # x # ys) = 0 # x # RemoveEmulationPreventionBytes ys"
  "x \<noteq> 0 \<Longrightarrow> x \<noteq> 3 \<Longrightarrow> RemoveEmulationPreventionBytes (0 # 0 # x # ys) = 0 # 0 # x # RemoveEmulationPreventionBytes ys"
proof -
  show 1: "x \<noteq> 0 \<Longrightarrow> RemoveEmulationPreventionBytes (x # ys) = x # RemoveEmulationPreventionBytes ys" for ys
    by (cases ys rule: RemoveEmulationPreventionBytes.cases) simp_all
  show 2: "x \<noteq> 0 \<Longrightarrow> RemoveEmulationPreventionBytes (0 # x # ys) = 0 # x # RemoveEmulationPreventionBytes ys"
    using 1 [of ys] by (cases ys) simp_all
  show "x \<noteq> 0 \<Longrightarrow> x \<noteq> 3 \<Longrightarrow> RemoveEmulationPreventionBytes (0 # 0 # x # ys) = 0 # 0 # x # RemoveEmulationPreventionBytes ys"
    using 2 by simp
qed

lemma strip_emulate:
  "z \<le> 2 \<Longrightarrow> RemoveEmulationPreventionBytes (replicate z 0 @ emulate z xs) = replicate z 0 @ xs"
proof (induction xs arbitrary: z)
  case Nil
  then have "z = 0 \<or> z = 1 \<or> z = 2" by linarith
  then show ?case by (auto simp: numeral_2_eq_2)
next
  case (Cons x xs)
  have z: "z = 0 \<or> z = 1 \<or> z = 2" using Cons.prems by linarith
  show ?case
  proof (cases "x = 0")
    case True
    have "RemoveEmulationPreventionBytes (0 # emulate 1 xs) = 0 # xs" using Cons.IH [of 1] by simp
    moreover have "RemoveEmulationPreventionBytes (0 # 0 # emulate 2 xs) = 0 # 0 # xs"
      using Cons.IH [of 2] by (simp add: numeral_2_eq_2)
    ultimately show ?thesis using z True by (auto simp: numeral_2_eq_2)
  next
    case False
    have "RemoveEmulationPreventionBytes (emulate 0 xs) = xs" using Cons.IH [of 0] by simp
    moreover have "\<not> x \<le> 3 \<Longrightarrow> x \<noteq> 3" by auto
    ultimately show ?thesis using z False by (auto simp: numeral_2_eq_2 strip_steps)
  qed
qed

text \<open>
  C30. Emulation prevention is undone exactly: whatever payload an encoder escaped, the parser's
  \<open>RemoveEmulationPreventionBytes\<close> gives it back.
\<close>

theorem emulation_prevention_round_trip: "RemoveEmulationPreventionBytes (emulate 0 xs) = xs"
  using strip_emulate [of 0 xs] by simp

section \<open>The bit reader on the bits ahead\<close>

definition bits_of :: "octets \<Rightarrow> bool list" where
  "bits_of data = concat (map (\<lambda>b. map (\<lambda>i. bit b (7 - i)) [0..<8]) data)"

definition bits_ahead :: "bit_reader \<Rightarrow> bool list" where
  "bits_ahead r = drop (bit_pos r) (bits_of (br_data r))"

lemma length_bits_of [simp]: "length (bits_of data) = length data * 8"
  by (induction data) (simp_all add: bits_of_def)

lemma nth_bits_of: "p < length data * 8 \<Longrightarrow> bits_of data ! p = bit (data ! (p div 8)) (7 - p mod 8)"
proof (induction data arbitrary: p)
  case (Cons b data)
  have c: "bits_of (b # data) = map (\<lambda>i. bit b (7 - i)) [0..<8] @ bits_of data" by (simp add: bits_of_def)
  show ?case
  proof (cases "p < 8")
    case True
    then show ?thesis by (simp add: c nth_append)
  next
    case False
    then obtain q where q: "p = q + 8" by (metis add.commute le_add_diff_inverse not_less)
    have "(q + 8) div 8 = Suc (q div 8)" by simp
    with q Cons.prems Cons.IH [of q] show ?thesis by (simp add: c nth_append)
  qed
qed simp

lemma mask_bit: "k < 8 \<Longrightarrow> (b AND drop_bit k 0x80 \<noteq> 0) = bit b (7 - k)" for b :: byte
proof -
  assume k: "k < 8"
  then have "k \<in> {0, 1, 2, 3, 4, 5, 6, 7}" by auto
  then have "drop_bit k (0x80 :: byte) = push_bit (7 - k) 1" by auto
  then show ?thesis by (simp add: bit_iff_and_push_bit_not_eq_0)
qed

lemma cur_bit_hd:
  assumes "bits_ahead r = b # bs"
  shows "cur_bit r = b" and "bit_pos r < length (br_data r) * 8" and "bits_ahead (r\<lparr>bit_pos := bit_pos r + 1\<rparr>) = bs"
proof -
  show p: "bit_pos r < length (br_data r) * 8"
    using assms by (metis bits_ahead_def drop_all length_bits_of list.distinct(1) not_less)
  have "bits_ahead r = bits_of (br_data r) ! bit_pos r # drop (Suc (bit_pos r)) (bits_of (br_data r))"
    using p by (simp add: bits_ahead_def Cons_nth_drop_Suc)
  with assms p show "cur_bit r = b" "bits_ahead (r\<lparr>bit_pos := bit_pos r + 1\<rparr>) = bs"
    by (simp_all add: cur_bit_def mask_bit nth_bits_of bits_ahead_def)
qed

text \<open>The value of a bit string, most significant bit first, as the reader's word and as a number.\<close>

fun bits_word :: "bool list \<Rightarrow> u32" where
  "bits_word [] = 0"
| "bits_word (b # bs) = (if b then push_bit (length bs) 1 OR bits_word bs else bits_word bs)"

fun bits_nat :: "bool list \<Rightarrow> nat" where
  "bits_nat [] = 0"
| "bits_nat (b # bs) = (if b then 2 ^ length bs + bits_nat bs else bits_nat bs)"

lemma bits_nat_less: "bits_nat bs < 2 ^ length bs"
  by (induction bs) auto

lemma bits_word_nat: "bits_word bs = word_of_nat (bits_nat bs)"
proof (induction bs)
  case (Cons b bs)
  have "push_bit (length bs) 1 OR bits_nat bs = 2 ^ length bs + bits_nat bs"
    using shift_or_nat [OF bits_nat_less [of bs], of 1] by simp
  moreover have "word_of_nat (push_bit (length bs) 1 OR bits_nat bs)
      = push_bit (length bs) (1 :: u32) OR word_of_nat (bits_nat bs)"
    by (simp add: of_nat_or_eq of_nat_push_bit)
  ultimately show ?case using Cons by simp
qed simp

lemma read_bits_ahead:
  "bits_ahead r = bs @ rest \<Longrightarrow>
    \<exists>r'. read_bits (length bs) acc r = (acc OR bits_word bs, r') \<and> bits_ahead r' = rest"
proof (induction bs arbitrary: r acc)
  case (Cons b bs)
  then have h: "bits_ahead r = b # bs @ rest" by simp
  note c = cur_bit_hd [OF h]
  from Cons.IH [OF c(3), of "if b then acc OR push_bit (length bs) 1 else acc"] c(1)
  show ?case by (cases b) (simp_all add: or.assoc)
qed simp

lemma reads_ReadBits: "n = length bs \<Longrightarrow> reads bits_ahead (ReadBits n) bs (bits_word bs)"
proof (unfold reads_def, intro allI impI)
  fix r rest assume n: "n = length bs" and a: "bits_ahead r = bs @ rest"
  from read_bits_ahead [OF a, of 0] n obtain r' where
    r': "read_bits n 0 r = (bits_word bs, r')" "bits_ahead r' = rest" by auto
  show "\<exists>r'. ReadBits n r = Inr (bits_word bs, r') \<and> bits_ahead r' = rest"
  proof (cases "bit_pos r + n > length (br_data r) * 8")
    case True
    have "length (bits_ahead r) = length (br_data r) * 8 - bit_pos r" by (simp add: bits_ahead_def)
    then have "bs = []" using a True n by (cases bs) auto
    then show ?thesis using True a by (simp add: ReadBits_def)
  next
    case False
    then show ?thesis using r' by (simp add: ReadBits_def)
  qed
qed

lemma ue_zeros_ahead:
  "bits_ahead r = replicate z False @ True # rest \<Longrightarrow> z < k \<Longrightarrow>
    \<exists>r'. ue_zeros k z0 r = (Some (z0 + z), r') \<and> bits_ahead r' = rest"
proof (induction z arbitrary: r k z0)
  case 0
  then obtain k' where k: "k = Suc k'" by (cases k) auto
  have h: "bits_ahead r = [True] @ rest" using 0 by simp
  from reads_ReadBits [of 1 "[True]"] h obtain r' where
    "ReadBits 1 r = Inr (1, r')" "bits_ahead r' = rest" by (auto simp: reads_def)
  moreover have "bit_pos r < length (br_data r) * 8" using cur_bit_hd(2) [of r True rest] 0 by simp
  ultimately show ?case by (simp add: k)
next
  case (Suc z)
  then obtain k' where k: "k = Suc k'" by (cases k) auto
  have h: "bits_ahead r = [False] @ replicate z False @ True # rest" using Suc by simp
  from reads_ReadBits [of 1 "[False]"] h obtain r' where
    r': "ReadBits 1 r = Inr (0, r')" "bits_ahead r' = replicate z False @ True # rest" by (auto simp: reads_def)
  moreover have "bit_pos r < length (br_data r) * 8"
    using cur_bit_hd(2) [of r False "replicate z False @ True # rest"] Suc.prems by simp
  moreover have "z < k'" using Suc.prems k by simp
  ultimately show ?case using Suc.IH [OF r'(2), of k' "z0 + 1"] by (simp add: k)
qed

text \<open>The Exp-Golomb code word of a number, and low-order bits, most significant first.\<close>

definition low_bits :: "nat \<Rightarrow> nat \<Rightarrow> bool list" where
  "low_bits n v = map (\<lambda>i. odd (v div 2 ^ (n - 1 - i))) [0..<n]"

fun ue_size :: "nat \<Rightarrow> nat" where
  "ue_size v = (if v = 0 then 0 else Suc (ue_size ((v - 1) div 2)))"

declare ue_size.simps [simp del]

definition ue_bits :: "nat \<Rightarrow> bool list" where
  "ue_bits v = replicate (ue_size v) False @ True # low_bits (ue_size v) (v + 1 - 2 ^ ue_size v)"

lemma low_bits_Suc: "low_bits (Suc n) v = odd (v div 2 ^ n) # low_bits n v"
  by (simp add: low_bits_def upt_conv_Cons map_Suc_upt [symmetric] del: upt_Suc)

lemma length_low_bits [simp]: "length (low_bits n v) = n" by (simp add: low_bits_def)

lemma bits_nat_low_bits: "bits_nat (low_bits n v) = v mod 2 ^ n"
proof (induction n)
  case (Suc n)
  have "v mod 2 ^ Suc n = (v div 2 ^ n mod 2) * 2 ^ n + v mod 2 ^ n"
    using mod_mult2_eq [of v "2 ^ n" 2] by (simp add: mult.commute)
  with Suc show ?case by (simp add: low_bits_Suc odd_iff_mod_2_eq_one)
qed (simp add: low_bits_def)

lemma ue_size: "2 ^ ue_size v \<le> v + 1" "v + 1 < 2 ^ Suc (ue_size v)"
proof (induction v rule: ue_size.induct)
  case (1 v)
  have h: "v \<noteq> 0 \<Longrightarrow> (v - 1) div 2 + 1 = (v + 1) div 2" by (cases v) auto
  {
    case 1
    then show ?case using \<open>v \<noteq> 0 \<Longrightarrow> 2 ^ ue_size ((v - 1) div 2) \<le> (v - 1) div 2 + 1\<close> h
      by (cases "v = 0") (auto simp: ue_size.simps [of v] ue_size.simps [of 0])
  next
    case 2
    then show ?case using \<open>v \<noteq> 0 \<Longrightarrow> (v - 1) div 2 + 1 < 2 ^ Suc (ue_size ((v - 1) div 2))\<close> h
      by (cases "v = 0") (auto simp: ue_size.simps [of v] ue_size.simps [of 0])
  }
qed

lemma reads_ReadUe:
  assumes "v < 2 ^ 31 - 1"
  shows "reads bits_ahead ReadUe (ue_bits v) (word_of_nat v)"
proof (unfold reads_def, intro allI impI)
  fix r rest assume a: "bits_ahead r = ue_bits v @ rest"
  define n where "n = ue_size v"
  define low where "low = low_bits n (v + 1 - 2 ^ n)"
  have sz: "2 ^ n \<le> v + 1" "v + 1 < 2 * 2 ^ n" using ue_size [of v] by (simp_all add: n_def)
  then have "(2 :: nat) ^ n < 2 ^ 31" using assms by linarith
  then have n: "n < 31" by (simp only: power_strict_increasing_iff)
  have "bits_ahead r = replicate n False @ True # low @ rest" using a by (simp add: ue_bits_def n_def low_def)
  from ue_zeros_ahead [OF this, of 33 0] n obtain r1 where
    r1: "ue_zeros 33 0 r = (Some n, r1)" "bits_ahead r1 = low @ rest" by auto
  show "\<exists>r'. ReadUe r = Inr (word_of_nat v, r') \<and> bits_ahead r' = rest"
  proof (cases "n = 0")
    case True
    then have "v = 0" "low = []" using sz by (simp_all add: low_def low_bits_def)
    with True r1 show ?thesis by (simp add: ReadUe_def)
  next
    case False
    from reads_ReadBits [of n low] r1(2) obtain r2 where
      r2: "ReadBits n r1 = Inr (bits_word low, r2)" "bits_ahead r2 = rest" by (auto simp: reads_def low_def)
    have "bits_nat low = v + 1 - 2 ^ n" using sz by (simp add: low_def bits_nat_low_bits)
    then have "push_bit n 1 - 1 + bits_word low = (word_of_nat (2 ^ n + (v + 1 - 2 ^ n)) - 1 :: u32)"
      by (simp add: bits_word_nat push_bit_eq_mult)
    also have "\<dots> = word_of_nat v" using sz by simp
    finally show ?thesis using False n r1 r2 by (simp add: ReadUe_def chain_def give_def)
  qed
qed

section \<open>Picture size\<close>

text \<open>
  The bits of a sequence parameter set as H.264 lays them out: any profile, with the chroma fields when it is one of
  the high profiles, any picture order count type, no scaling matrices. The size is the standard's: the cropping unit
  \<open>CropUnitY\<close> is \<open>SubHeightC * (2 - frame_mbs_only_flag)\<close>.
\<close>

datatype poc_spec = PocLsb nat | PocCycle bool int int "int list" | PocOutput

record sps_spec =
  sp_head :: "bool list"
  sp_profile :: nat
  sp_flags :: "bool list"
  sp_level :: "bool list"
  sp_id :: nat
  sp_chroma :: nat
  sp_separate :: bool
  sp_depths :: "nat \<times> nat"
  sp_bypass :: bool
  sp_log2_frame :: nat
  sp_poc :: poc_spec
  sp_refs :: nat
  sp_gaps :: bool
  sp_width_mbs :: nat
  sp_height_units :: nat
  sp_frame_only :: bool
  sp_mbaff :: bool
  sp_direct :: bool
  sp_crop :: "(nat \<times> nat \<times> nat \<times> nat) option"

definition se_bits :: "int \<Rightarrow> bool list" where
  "se_bits v = ue_bits (if 0 < v then nat (2 * v - 1) else nat (- 2 * v))"

definition has_chroma :: "sps_spec \<Rightarrow> bool" where
  "has_chroma s \<longleftrightarrow> sp_profile s \<in> {100, 110, 122, 244, 44, 83, 86, 118, 128, 138, 139, 134, 135}"

definition chroma_bits :: "sps_spec \<Rightarrow> bool list" where
  "chroma_bits s = (if has_chroma s then ue_bits (sp_chroma s) @ (if sp_chroma s = 3 then [sp_separate s] else [])
     @ ue_bits (fst (sp_depths s)) @ ue_bits (snd (sp_depths s)) @ [sp_bypass s] @ [False] else [])"

fun poc_bits :: "poc_spec \<Rightarrow> bool list" where
  "poc_bits (PocLsb l) = ue_bits 0 @ ue_bits l"
| "poc_bits (PocCycle z a b cs) =
     ue_bits 1 @ [z] @ se_bits a @ se_bits b @ ue_bits (length cs) @ concat (map se_bits cs)"
| "poc_bits PocOutput = ue_bits 2"

fun crop_bits :: "(nat \<times> nat \<times> nat \<times> nat) option \<Rightarrow> bool list" where
  "crop_bits None = [False]"
| "crop_bits (Some (l, r, t, b)) = True # ue_bits l @ ue_bits r @ ue_bits t @ ue_bits b"

definition sps_bits :: "sps_spec \<Rightarrow> bool list" where
  "sps_bits s = sp_head s @ low_bits 8 (sp_profile s) @ sp_flags s @ sp_level s @ ue_bits (sp_id s)
     @ chroma_bits s @ ue_bits (sp_log2_frame s) @ poc_bits (sp_poc s)
     @ ue_bits (sp_refs s) @ [sp_gaps s] @ ue_bits (sp_width_mbs s - 1) @ ue_bits (sp_height_units s - 1)
     @ [sp_frame_only s] @ (if sp_frame_only s then [] else [sp_mbaff s]) @ [sp_direct s] @ crop_bits (sp_crop s)"

definition crop_of :: "sps_spec \<Rightarrow> nat \<times> nat \<times> nat \<times> nat" where
  "crop_of s = (case sp_crop s of None \<Rightarrow> (0, 0, 0, 0) | Some c \<Rightarrow> c)"

text \<open>\<open>ChromaArrayType\<close>, and \<open>SubWidthC\<close> and \<open>SubHeightC\<close> of table 6-1 (1 where there is no chroma array).\<close>

definition array_type :: "sps_spec \<Rightarrow> nat" where
  "array_type s = (if \<not> has_chroma s then 1 else if sp_chroma s = 3 \<and> sp_separate s then 0 else sp_chroma s)"

definition sub_width :: "sps_spec \<Rightarrow> nat" where
  "sub_width s = (if array_type s = 1 \<or> array_type s = 2 then 2 else 1)"

definition sub_height :: "sps_spec \<Rightarrow> nat" where
  "sub_height s = (if array_type s = 1 then 2 else 1)"

definition fields_per_frame :: "sps_spec \<Rightarrow> nat" where
  "fields_per_frame s = (if sp_frame_only s then 1 else 2)"

fun poc_ok :: "poc_spec \<Rightarrow> bool" where
  "poc_ok (PocLsb l) = (l < 2 ^ 31 - 1)"
| "poc_ok (PocCycle z a b cs) = (length cs \<le> 255 \<and> (\<forall>v\<in>set (a # b # cs). \<bar>v\<bar> < 2 ^ 30))"
| "poc_ok PocOutput = True"

definition sps_ok :: "sps_spec \<Rightarrow> bool" where
  "sps_ok s \<longleftrightarrow> length (sp_head s) = 8 \<and> length (sp_flags s) = 8 \<and> length (sp_level s) = 8 \<and> sp_profile s < 256
     \<and> sp_chroma s \<le> 3 \<and> fst (sp_depths s) \<le> 6 \<and> snd (sp_depths s) \<le> 6
     \<and> (\<forall>v\<in>{sp_id s, sp_log2_frame s, sp_refs s}. v < 2 ^ 31 - 1) \<and> poc_ok (sp_poc s)
     \<and> 0 < sp_width_mbs s \<and> sp_width_mbs s < 2 ^ 16 \<and> 0 < sp_height_units s \<and> sp_height_units s < 2 ^ 16
     \<and> (case crop_of s of (l, r, t, b) \<Rightarrow> sub_width s * (l + r) < 16 * sp_width_mbs s
          \<and> sub_height s * (t + b) < 16 * sp_height_units s)"

definition sps_width :: "sps_spec \<Rightarrow> int" where
  "sps_width s = (case crop_of s of (l, r, t, b) \<Rightarrow> int (16 * sp_width_mbs s) - int (sub_width s * (l + r)))"

definition sps_height :: "sps_spec \<Rightarrow> int" where
  "sps_height s = (case crop_of s of (l, r, t, b) \<Rightarrow>
     int (fields_per_frame s * 16 * sp_height_units s) - int (sub_height s * fields_per_frame s * (t + b)))"

text \<open>What the parser does not take off: it leaves the factor \<open>2 - frame_mbs_only_flag\<close> out of the cropping unit.\<close>

definition crop_shortfall :: "sps_spec \<Rightarrow> int" where
  "crop_shortfall s = (case crop_of s of (l, r, t, b) \<Rightarrow> int ((fields_per_frame s - 1) * sub_height s * (t + b)))"

lemma reads_bit: "reads bits_ahead (ReadBits 1) [b] (if b then 1 else 0)"
  using reads_ReadBits [of 1 "[b]"] by (cases b) simp_all

lemma reads_se:
  assumes "\<bar>v\<bar> < 2 ^ 30"
  shows "\<exists>x. reads bits_ahead H264ReadSe (se_bits v) x"
proof -
  define u where "u = (if 0 < v then nat (2 * v - 1) else nat (- 2 * v))"
  have "u < 2 ^ 31 - 1" using assms by (auto simp: u_def nat_less_iff)
  note u = reads_ReadUe [OF this]
  show ?thesis
    unfolding se_bits_def u_def [symmetric] H264ReadSe_def Let_def
    by (rule exI, rule reads_chain_end [OF u], rule reads_give)
qed

lemma reads_se_list:
  "\<forall>v\<in>set cs. \<bar>v\<bar> < 2 ^ 30 \<Longrightarrow> reads bits_ahead (repeat_step (length cs) H264ReadSe) (concat (map se_bits cs)) ()"
proof (induction cs)
  case (Cons v cs)
  then obtain x where "reads bits_ahead H264ReadSe (se_bits v) x" using reads_se [of v] by auto
  then show ?case using Cons by (simp add: reads_chain)
qed (simp add: reads_give)

lemma reads_sps_poc:
  assumes "poc_ok poc"
  shows "reads bits_ahead sps_poc (poc_bits poc) ()"
proof (cases poc)
  case PocOutput
  show ?thesis unfolding sps_poc_def PocOutput poc_bits.simps
    by (rule reads_chain_end [OF reads_ReadUe]) (simp_all add: reads_give)
next
  case (PocLsb l)
  with assms have "reads bits_ahead (chain ReadUe (\<lambda>_. give ())) (ue_bits l) ()"
    by (intro reads_chain_end [OF reads_ReadUe] reads_give) simp
  then show ?thesis unfolding sps_poc_def PocLsb poc_bits.simps
    by (intro reads_chain [OF reads_ReadUe]) simp_all
next
  case (PocCycle z a b cs)
  with assms have ok: "length cs \<le> 255" "\<bar>a\<bar> < 2 ^ 30" "\<bar>b\<bar> < 2 ^ 30" "\<forall>v\<in>set cs. \<bar>v\<bar> < 2 ^ 30" by simp_all
  obtain xa xb where se: "reads bits_ahead H264ReadSe (se_bits a) xa" "reads bits_ahead H264ReadSe (se_bits b) xb"
    using reads_se ok by blast
  have "unat (word_of_nat (length cs) :: u32) = length cs" using ok(1) by (simp add: unat_of_nat)
  then have n: "reads bits_ahead (repeat_step (min (unat (word_of_nat (length cs) :: u32)) 256) H264ReadSe)
      (concat (map se_bits cs)) ()"
    using reads_se_list [OF ok(4)] ok(1) by (simp add: min_def)
  have "reads bits_ahead (chain (ReadBits 1) (\<lambda>_. chain H264ReadSe (\<lambda>_. chain H264ReadSe (\<lambda>_. chain ReadUe (\<lambda>cycle.
         repeat_step (min (unat cycle) 256) H264ReadSe))))) ([z] @ se_bits a @ se_bits b @ ue_bits (length cs) @ concat (map se_bits cs)) ()"
    by (intro reads_chain [OF reads_bit] reads_chain [OF se(1)] reads_chain [OF se(2)] reads_chain [OF reads_ReadUe] n)
      (use ok(1) in simp)
  then show ?thesis unfolding sps_poc_def PocCycle poc_bits.simps
    by (intro reads_chain [OF reads_ReadUe]) simp_all
qed

definition words4 :: "nat \<times> nat \<times> nat \<times> nat \<Rightarrow> u32 \<times> u32 \<times> u32 \<times> u32" where
  "words4 c = (case c of (l, r, t, b) \<Rightarrow> (word_of_nat l, word_of_nat r, word_of_nat t, word_of_nat b))"

lemma reads_sps_crop:
  assumes "case crop of None \<Rightarrow> True | Some (l, r, t, b) \<Rightarrow> l < 2 ^ 31 - 1 \<and> r < 2 ^ 31 - 1 \<and> t < 2 ^ 31 - 1 \<and> b < 2 ^ 31 - 1"
  shows "reads bits_ahead sps_crop
    (crop_bits crop) (words4 (case crop of None \<Rightarrow> (0, 0, 0, 0) | Some c \<Rightarrow> c))"
proof (cases crop)
  case None
  show ?thesis unfolding sps_crop_def None option.case crop_bits.simps
    by (rule reads_chain_end [OF reads_bit]) (simp add: reads_give words4_def)
next
  case (Some c)
  obtain l r t b where c: "c = (l, r, t, b)" by (cases c)
  note u = reads_ReadUe
  have "reads bits_ahead (chain ReadUe (\<lambda>l. chain ReadUe (\<lambda>r. chain ReadUe (\<lambda>t. chain ReadUe (\<lambda>b. give (l, r, t, b))))))
     (ue_bits l @ ue_bits r @ ue_bits t @ ue_bits b) (words4 c)"
    unfolding c words4_def prod.case using assms
    by (intro reads_chain [OF u] reads_chain_end [OF u] reads_give) (simp_all add: Some c)
  then have "reads bits_ahead sps_crop ([True] @ ue_bits l @ ue_bits r @ ue_bits t @ ue_bits b) (words4 c)"
    unfolding sps_crop_def by (intro reads_chain [OF reads_bit]) simp
  then show ?thesis by (simp add: Some c)
qed

lemma sint_small: "n < 2 ^ 31 \<Longrightarrow> sint (word_of_nat n :: u32) = int n"
  by (simp add: sint_uint uint_nat unat_of_nat signed_take_bit_eq_if_positive take_bit_int_eq_self bit_iff_odd)

lemma in_int_diff: "a < 2 ^ 31 \<Longrightarrow> b < 2 ^ 31 \<Longrightarrow> in_int (int a - int b)"
  by (simp add: in_int_def)

lemma reads_sps_chroma:
  assumes "sps_ok s"
  shows "\<exists>cs. reads bits_ahead (sps_chroma (bits_word (low_bits 8 (sp_profile s)))) (chroma_bits s) cs
    \<and> (if snd cs then 0 else fst cs) = word_of_nat (array_type s)"
proof -
  have p: "sp_profile s < 256" "sp_chroma s \<le> 3" "fst (sp_depths s) \<le> 6" "snd (sp_depths s) \<le> 6"
    using assms by (simp_all add: sps_ok_def)
  have "bits_word (low_bits 8 (sp_profile s)) = word_of_nat (sp_profile s)"
    using p(1) by (simp add: bits_word_nat bits_nat_low_bits)
  moreover have "word_of_nat (sp_profile s) = (word_of_nat n :: u32) \<longleftrightarrow> sp_profile s = n" if "n < 256" for n
    using p(1) that by (simp add: word_of_nat_eq_iff take_bit_nat_eq_self)
  from this [of 100] this [of 110] this [of 122] this [of 244] this [of 44] this [of 83] this [of 86] this [of 118]
    this [of 128] this [of 138] this [of 139] this [of 134] this [of 135]
  have "word_of_nat (sp_profile s) \<in> set high_profiles \<longleftrightarrow> has_chroma s"
    by (simp add: high_profiles_def has_chroma_def)
  ultimately have hp: "bits_word (low_bits 8 (sp_profile s)) \<in> set high_profiles \<longleftrightarrow> has_chroma s" by simp
  show ?thesis
  proof (cases "has_chroma s")
    case False
    then show ?thesis using hp by (intro exI [of _ "(1, False)"]) (simp add: sps_chroma_def chroma_bits_def array_type_def reads_give)
  next
    case True
    let ?c = "word_of_nat (sp_chroma s) :: u32"
    have c3: "?c = 3 \<longleftrightarrow> sp_chroma s = 3" using p(2) word_of_nat_eq_iff [of "sp_chroma s" 3, where 'a = 32]
      by (simp add: take_bit_nat_eq_self)
    have sep: "reads bits_ahead (if ?c = 3 then chain (ReadBits 1) (\<lambda>b. give (b \<noteq> 0)) else give False)
       (if sp_chroma s = 3 then [sp_separate s] else []) (sp_chroma s = 3 \<and> sp_separate s)"
    proof (cases "sp_chroma s = 3")
      case True
      have "reads bits_ahead (chain (ReadBits 1) (\<lambda>b. give (b \<noteq> 0))) [sp_separate s] ((if sp_separate s then 1 else 0) \<noteq> (0 :: u32))"
        by (rule reads_chain_end [OF reads_bit reads_give])
      then show ?thesis using True by (cases "sp_separate s") simp_all
    qed (simp add: reads_give c3)
    have m: "reads bits_ahead (if (if False then 1 else 0 :: u32) \<noteq> 0 then scaling_lists (if ?c \<noteq> 3 then 8 else 12) 0 else give ()) [] ()"
      by (simp add: reads_give)
    have "reads bits_ahead (sps_chroma (bits_word (low_bits 8 (sp_profile s))))
      (ue_bits (sp_chroma s) @ (if sp_chroma s = 3 then [sp_separate s] else [])
       @ ue_bits (fst (sp_depths s)) @ ue_bits (snd (sp_depths s)) @ [sp_bypass s] @ [False]) (?c, sp_chroma s = 3 \<and> sp_separate s)"
      unfolding sps_chroma_def using True hp
      by (simp only: if_True)
        (intro reads_chain [OF reads_ReadUe] reads_chain [OF sep] reads_chain [OF reads_bit] reads_chain_end [OF reads_bit]
          reads_chain_end [OF m] reads_give; use p in simp)
    then show ?thesis using True by (intro exI [of _ "(?c, sp_chroma s = 3 \<and> sp_separate s)"])
      (simp add: chroma_bits_def array_type_def)
  qed
qed

lemma sps_size_ok:
  assumes "sps_ok s" "(if snd cs then 0 else fst cs) = word_of_nat (array_type s)"
  shows "sps_size cs (word_of_nat (sp_width_mbs s - 1) + 1) (word_of_nat (sp_height_units s - 1) + 1)
    (if sp_frame_only s then 1 else 0) (words4 (crop_of s)) = Inr (Some (sps_width s, sps_height s + crop_shortfall s))"
proof -
  obtain l r t b where c: "crop_of s = (l, r, t, b)" by (cases "crop_of s")
  define k u v where "k = fields_per_frame s" and "u = sub_width s" and "v = sub_height s"
  define W H where "W = sp_width_mbs s" and "H = sp_height_units s"
  have ok: "0 < W" "W < 2 ^ 16" "0 < H" "H < 2 ^ 16" "u * (l + r) < 16 * W" "v * (t + b) < 16 * H" "sp_chroma s \<le> 3"
    using assms(1) by (simp_all add: sps_ok_def c W_def H_def u_def v_def)
  have k: "1 \<le> k" "k \<le> 2" by (simp_all add: k_def fields_per_frame_def)
  define K where "K = k * 16 * H"
  have "K \<le> 2 * 16 * H" "1 * 16 * H \<le> K" using k unfolding K_def by (intro mult_right_mono; simp)+
  moreover have "H < 65536" "W < 65536" using ok by simp_all
  ultimately have bounds: "K < 2 ^ 31" "16 * W < 2 ^ 31" "u * (l + r) < 2 ^ 31" "v * (t + b) < 2 ^ 31" and vK: "v * (t + b) < K"
    using ok(5,6) by simp_all
  have at: "(word_of_nat (array_type s) :: u32) = word_of_nat n \<longleftrightarrow> array_type s = n" if "n < 4" for n
    using that ok(7) word_of_nat_eq_iff [of "array_type s" n, where 'a = 32] by (simp add: array_type_def take_bit_nat_eq_self)
  have sub: "(if (word_of_nat (array_type s) :: u32) = 1 \<or> (word_of_nat (array_type s) :: u32) = 2 then 2 else 1) = (word_of_nat u :: u32)"
    "(if (word_of_nat (array_type s) :: u32) = 1 then 2 else 1) = (word_of_nat v :: u32)"
    using at [of 1] at [of 2] by (simp_all add: u_def v_def sub_width_def sub_height_def)
  have w: "(word_of_nat (W - 1) + 1) * 16 = (word_of_nat (16 * W) :: u32)"
    using ok(1) by (simp add: of_nat_diff)
  have h: "(2 - (if sp_frame_only s then 1 else 0)) * (word_of_nat (H - 1) + 1) * 16 = (word_of_nat K :: u32)"
    using ok(3) by (simp add: K_def k_def fields_per_frame_def of_nat_diff)
  have lr: "(word_of_nat l + word_of_nat r) * word_of_nat u = (word_of_nat (u * (l + r)) :: u32)"
    "(word_of_nat t + word_of_nat b) * word_of_nat v = (word_of_nat (v * (t + b)) :: u32)" by (simp_all add: mult.commute)
  note ints = in_int_diff [OF bounds(2,3)] in_int_diff [OF bounds(1,4)]
  have "sps_size cs (word_of_nat (W - 1) + 1) (word_of_nat (H - 1) + 1)
      (if sp_frame_only s then 1 else 0) (words4 (l, r, t, b))
    = Inr (Some (int (16 * W) - int (u * (l + r)), int K - int (v * (t + b))))"
    unfolding sps_size_def words4_def prod.case_eq_if Let_def assms(2) fst_conv snd_conv sub w h lr
      sint_small [OF bounds(1)] sint_small [OF bounds(2)] sint_small [OF bounds(3)] sint_small [OF bounds(4)]
    using ints ok(5) vK by (simp del: of_nat_mult of_nat_add)
  moreover have "int K - int (v * (t + b)) = sps_height s + crop_shortfall s"
    by (simp add: sps_height_def crop_shortfall_def c K_def k_def H_def v_def fields_per_frame_def)
  ultimately show ?thesis by (simp add: c W_def H_def sps_width_def u_def)
qed

lemma reads_sps_fields:
  assumes "sps_ok s"
  shows "reads bits_ahead sps_fields (sps_bits s) (Inr (Some (sps_width s, sps_height s + crop_shortfall s)))"
proof -
  obtain l r t b where c: "crop_of s = (l, r, t, b)" by (cases "crop_of s")
  have "sub_width s * (l + r) < 16 * sp_width_mbs s" "sub_height s * (t + b) < 16 * sp_height_units s"
    "sp_width_mbs s < 65536" "sp_height_units s < 65536" "0 < sp_width_mbs s" "0 < sp_height_units s"
    using assms by (simp_all add: sps_ok_def c)
  moreover have "l + r \<le> sub_width s * (l + r)" "t + b \<le> sub_height s * (t + b)"
    by (simp_all add: sub_width_def sub_height_def)
  ultimately have "l + r < 16 * 65536" "t + b < 16 * 65536" "sp_width_mbs s < 65536" "sp_height_units s < 65536" by linarith+
  then have small: "l < 2 ^ 31 - 1" "r < 2 ^ 31 - 1" "t < 2 ^ 31 - 1" "b < 2 ^ 31 - 1"
    "sp_width_mbs s - 1 < 2 ^ 31 - 1" "sp_height_units s - 1 < 2 ^ 31 - 1"
    by simp_all
  have crop: "reads bits_ahead sps_crop (crop_bits (sp_crop s)) (words4 (crop_of s))"
    unfolding crop_of_def using small c by (intro reads_sps_crop) (auto simp: crop_of_def split: option.splits)
  from reads_sps_chroma [OF assms] obtain cs where
    chroma: "reads bits_ahead (sps_chroma (bits_word (low_bits 8 (sp_profile s)))) (chroma_bits s) cs"
    and cs: "(if snd cs then 0 else fst cs) = word_of_nat (array_type s)" by blast
  have only: "reads bits_ahead (if (if sp_frame_only s then 1 else 0 :: u32) = 0 then ReadBits 1 else give 0)
      (if sp_frame_only s then [] else [sp_mbaff s]) (if sp_frame_only s then 0 else if sp_mbaff s then 1 else 0)"
    using reads_bit [of "sp_mbaff s"] by (simp add: reads_give)
  note step = reads_chain [where rest_of = bits_ahead]
  have "reads bits_ahead sps_fields (sps_bits s)
     (sps_size cs (word_of_nat (sp_width_mbs s - 1) + 1) (word_of_nat (sp_height_units s - 1) + 1)
       (if sp_frame_only s then 1 else 0) (words4 (crop_of s)))"
    unfolding sps_fields_def sps_bits_def
    by (intro step [OF reads_ReadBits] step [OF reads_ReadUe] step [OF chroma] step [OF reads_sps_poc]
        step [OF reads_bit] step [OF only] reads_chain_end [OF crop] reads_give)
      (use assms small in \<open>simp_all add: sps_ok_def\<close>)
  then show ?thesis by (simp only: sps_size_ok [OF assms cs])
qed

lemma parse_sps:
  assumes "sps_ok s" "bits_of clean = sps_bits s @ tail"
  shows "ParseH264SpsDimensions (emulate 0 clean) = Inr (Some (sps_width s, sps_height s + crop_shortfall s))"
proof -
  have "bits_ahead (InitBitReader clean) = sps_bits s @ tail"
    using assms(2) by (simp add: bits_ahead_def InitBitReader_def)
  with reads_sps_fields [OF assms(1)] obtain r' where
    "sps_fields (InitBitReader clean) = Inr (Inr (Some (sps_width s, sps_height s + crop_shortfall s)), r')"
    unfolding reads_def by blast
  moreover have "4 \<le> length (emulate 0 clean)"
  proof -
    have "length xs \<le> length (emulate z xs)" for z xs by (induction z xs rule: emulate.induct) auto
    from this [of clean 0] have "length clean \<le> length (emulate 0 clean)" .
    moreover have "32 \<le> length (bits_of clean)" unfolding assms(2) using assms(1) by (simp add: sps_bits_def sps_ok_def)
    ultimately show ?thesis by simp
  qed
  ultimately show ?thesis
    by (simp add: ParseH264SpsDimensions_def strip_emulate [of 0, simplified])
qed

text \<open>
  C31. The picture size that goes into the catalogue, against the size H.264 gives: for every sequence parameter set
  without scaling matrices, of any profile and picture order count type, with at most 65535 by 65535 macroblocks, a
  cropping window inside the picture and signed values below 2^30, \<open>ParseH264SpsDimensions\<close> gives the exact width, and a
  height that is exact when the stream is coded in frames only or not cropped vertically; for a field-coded stream
  it is too large by the rows of the cropping that the missing factor of the unit leaves, whatever follows and
  whatever emulation prevention was inserted.
\<close>

theorem sps_dimensions:
  assumes "sps_ok s" "bits_of clean = sps_bits s @ tail"
  shows "ParseH264SpsDimensions (emulate 0 clean) = Inr (Some (sps_width s, sps_height s +
    (if sp_frame_only s then 0 else case crop_of s of (l, r, t, b) \<Rightarrow> int (sub_height s * (t + b)))))"
  using parse_sps [OF assms] by (simp add: crop_shortfall_def fields_per_frame_def split: prod.splits)

text \<open>The sequence parameter sets of a 640 by 480 baseline stream, and of an interlaced 1920 by 1080 one.\<close>

definition vga_sps :: sps_spec where
  "vga_sps = \<lparr>sp_head = low_bits 8 0x67, sp_profile = 66, sp_flags = low_bits 8 0xC0, sp_level = low_bits 8 0x1E,
     sp_id = 0, sp_chroma = 1, sp_separate = False, sp_depths = (0, 0), sp_bypass = False,
     sp_log2_frame = 0, sp_poc = PocOutput, sp_refs = 1, sp_gaps = False, sp_width_mbs = 40,
     sp_height_units = 30, sp_frame_only = True, sp_mbaff = False, sp_direct = True, sp_crop = None\<rparr>"

definition interlaced_sps :: sps_spec where
  "interlaced_sps = \<lparr>sp_head = low_bits 8 0x67, sp_profile = 100, sp_flags = low_bits 8 0, sp_level = low_bits 8 40,
     sp_id = 0, sp_chroma = 1, sp_separate = False, sp_depths = (0, 0), sp_bypass = False,
     sp_log2_frame = 0, sp_poc = PocLsb 2, sp_refs = 4, sp_gaps = False, sp_width_mbs = 120,
     sp_height_units = 34, sp_frame_only = False, sp_mbaff = True, sp_direct = True, sp_crop = Some (0, 0, 0, 2)\<rparr>"

definition vga_octets :: octets where
  "vga_octets = [0x67, 0x42, 0xC0, 0x1E, 0xDA, 0x02, 0x80, 0xF6]"

lemma vga_octets_bits: "bits_of vga_octets = sps_bits vga_sps @ []"
proof -
  let ?L = "[False, True, True, False, False, True, True, True, False, True, False, False, False, False,
      True, False, True, True, False, False, False, False, False, False, False, False, False, True,
      True, True, True, False, True, True, False, True, True, False, True, False, False, False,
      False, False, False, False, True, False, True, False, False, False, False, False, False, False,
      True, True, True, True, False, True, True, False]"
  have "bits_of vga_octets = ?L" by (simp add: vga_octets_def bits_of_def upt_rec)
  moreover have "sps_bits vga_sps = ?L"
    by (simp add: sps_bits_def vga_sps_def chroma_bits_def has_chroma_def ue_bits_def ue_size.simps low_bits_def upt_rec)
  ultimately show ?thesis by simp
qed

definition interlaced_octets :: octets where
  "interlaced_octets = [0x67, 0x64, 0x00, 0x28, 0xAC, 0xD9, 0x40, 0x78, 0x04, 0x4F, 0xDC]"

lemma interlaced_octets_bits: "bits_of interlaced_octets = sps_bits interlaced_sps @ [True, False, False]"
proof -
  let ?L = "[False, True, True, False, False, True, True, True, False, True, True, False, False, True, False, False, False, False, False, False,
      False, False, False, False, False, False, True, False, True, False, False, False, True, False, True, False, True, True, False, False,
      True, True, False, True, True, False, False, True, False, True, False, False, False, False, False, False, False, True, True, True,
      True, False, False, False, False, False, False, False, False, True, False, False, False, True, False, False, True, True, True, True, True, True, False, True, True]"
  have "bits_of interlaced_octets = ?L @ [True, False, False]" by (simp add: interlaced_octets_def bits_of_def upt_rec)
  moreover have "sps_bits interlaced_sps = ?L"
    by (simp add: sps_bits_def interlaced_sps_def chroma_bits_def has_chroma_def ue_bits_def ue_size.simps low_bits_def upt_rec)
  ultimately show ?thesis by simp
qed

lemma example_sps_ok: "sps_ok vga_sps" "sps_ok interlaced_sps"
  by (simp_all add: sps_ok_def vga_sps_def interlaced_sps_def low_bits_def crop_of_def sub_width_def sub_height_def
      array_type_def has_chroma_def)

lemma example_sizes: "sps_width vga_sps = 640" "sps_height vga_sps = 480"
  "sps_width interlaced_sps = 1920" "sps_height interlaced_sps = 1080"
  by (simp_all add: sps_width_def sps_height_def crop_of_def vga_sps_def interlaced_sps_def sub_width_def sub_height_def
      array_type_def has_chroma_def fields_per_frame_def)

lemma emulate_examples: "emulate 0 vga_octets = vga_octets" "emulate 0 interlaced_octets = interlaced_octets"
  by (simp_all add: vga_octets_def interlaced_octets_def)

theorem sps_dimensions_witness:
  "ParseH264SpsDimensions [0x67, 0x42, 0xC0, 0x1E, 0xDA, 0x02, 0x80, 0xF6] = Inr (Some (640, 480))
   \<and> sps_height interlaced_sps = 1080 \<and> ParseH264SpsDimensions interlaced_octets = Inr (Some (1920, 1084))"
proof -
  have "ParseH264SpsDimensions vga_octets = Inr (Some (640, 480))"
    using sps_dimensions [OF example_sps_ok(1) vga_octets_bits] unfolding example_sizes emulate_examples
    by (simp add: vga_sps_def)
  moreover have "ParseH264SpsDimensions interlaced_octets = Inr (Some (1920, 1084))"
    using sps_dimensions [OF example_sps_ok(2) interlaced_octets_bits] unfolding example_sizes emulate_examples
    by (simp add: interlaced_sps_def crop_of_def sub_height_def array_type_def has_chroma_def)
  ultimately show ?thesis by (simp add: vga_octets_def example_sizes)
qed

section \<open>Records and streams cut short\<close>

text \<open>A step that faults on fewer than \<open>n\<close> octets, and one that otherwise takes exactly those.\<close>

definition needs :: "nat \<Rightarrow> (octets, 'a) step \<Rightarrow> bool" where
  "needs n p \<longleftrightarrow> (\<forall>s. length s < n \<longrightarrow> p s = Inl OverRead)"

definition takes_n :: "nat \<Rightarrow> (octets, 'a) step \<Rightarrow> bool" where
  "takes_n n p \<longleftrightarrow> needs n p \<and> (\<forall>s. n \<le> length s \<longrightarrow> (\<exists>x. p s = Inr (x, drop n s)))"

lemma needs_chain:
  assumes p: "takes_n n p" and f: "\<And>x. needs k (f x)"
  shows "needs (n + k) (chain p f)"
proof (unfold needs_def, intro allI impI)
  fix s :: octets assume s: "length s < n + k"
  show "chain p f s = Inl OverRead"
  proof (cases "length s < n")
    case False
    with p obtain x where x: "p s = Inr (x, drop n s)" unfolding takes_n_def by force
    have "length (drop n s) < k" using s False by simp
    with f [of x] show ?thesis by (simp add: needs_def chain_def x)
  qed (use p in \<open>simp add: takes_n_def needs_def chain_def\<close>)
qed

lemma takes_octets: "takes_n 1 octet" "takes_n 2 octet2" "takes_n 4 octet4"
  by (auto simp: takes_n_def needs_def octet_def octet2_def octet4_def Read2Bytes_def Read4Bytes_def read_be_def
      split: list.split)

text \<open>
  An H.265 configuration record shorter than its 23 fixed octets is read past its end: the parser
  never compares the length, and a publisher's sequence header reaches it unchecked.
\<close>

theorem hevc_config_over_read:
  assumes "length rest < 22"
  shows "GetHevcDecInfoFromExtradata (1 # rest) = Inl OverRead"
proof -
  note st = needs_chain [OF takes_octets(1)] needs_chain [OF takes_octets(2)] needs_chain [OF takes_octets(3)]
  have zero: "needs 0 p" for p :: "(octets, 'x) step" by (simp add: needs_def)
  have "needs (1 + (4 + (4 + (2 + (1 + (2 + (1 + (1 + (1 + (1 + (2 + (1 + (1 + 0))))))))))))) (hevc_fields 1)"
    unfolding hevc_fields_def by (intro st zero)
  with assms show ?thesis by (simp add: needs_def GetHevcDecInfoFromExtradata_def chain_def octet_def)
qed

theorem hevc_config_over_read_witness: "GetHevcDecInfoFromExtradata [1, 2, 3] = Inl OverRead"
  by (rule hevc_config_over_read) simp

text \<open>AVCC framing: each NAL unit behind its length in four octets.\<close>

definition avcc :: "octets list \<Rightarrow> octets" where
  "avcc ns = concat (map (\<lambda>n. Write4Bytes (word_of_nat (length n)) @ n) ns)"

lemma avcc_loop_step:
  assumes "length n \<le> 10000000"
  shows "avcc_loop (Write4Bytes (word_of_nat (length n)) @ n @ p) acc = avcc_loop p (acc @ [[0, 0, 0, 1] @ n])"
proof -
  have u: "unat (word_of_nat (length n) :: u32) = length n"
    using assms by (simp add: unat_of_nat)
  then have "\<not> (word_of_nat (length n) :: u32) > 10000000" using assms by (simp add: word_less_nat_alt)
  then show ?thesis
    by (subst avcc_loop.simps) (simp add: Read4_Write4 u Let_def flip: length_0_conv)
qed

lemma avcc_loop_all:
  "\<forall>n\<in>set ns. length n \<le> 10000000 \<Longrightarrow>
    avcc_loop (avcc ns @ p) acc = avcc_loop p (acc @ map (\<lambda>n. [0, 0, 0, 1] @ n) ns)"
proof (induction ns arbitrary: acc)
  case (Cons n ns)
  then have "avcc_loop (avcc (n # ns) @ p) acc = avcc_loop (avcc ns @ p) (acc @ [[0, 0, 0, 1] @ n])"
    using avcc_loop_step [of n "avcc ns @ p" acc] by (simp add: avcc_def)
  with Cons show ?case by simp
qed (simp add: avcc_def)

text \<open>
  \<open>Avcc2Nalus\<close> gives every NAL unit behind a start code when the framing is exact; one to three octets
  after the last unit are taken for a length and read past the end of the data.
\<close>

theorem avcc_to_nalus:
  assumes "ns \<noteq> []" "\<forall>n\<in>set ns. length n \<le> 10000000" "length tail < 4"
  shows "Avcc2Nalus (avcc ns @ tail) =
    (if tail = [] then Inr (Some (map (\<lambda>n. [0, 0, 0, 1] @ n) ns)) else Inl OverRead)"
proof -
  have "4 \<le> length (avcc ns)" using assms(1) by (cases ns) (simp_all add: avcc_def)
  moreover have "Read4Bytes tail = None" using assms(3) by (simp add: Read4Bytes_def read_be_def)
  ultimately show ?thesis
    using avcc_loop_all [OF assms(2), of tail "[]"] by (simp add: Avcc2Nalus_def avcc_loop.simps)
qed

theorem avcc_to_nalus_witness:
  "Avcc2Nalus (avcc [[0x65, 1], [0x41]] @ [0]) = Inl OverRead
    \<and> Avcc2Nalus (avcc [[0x65, 1], [0x41]]) = Inr (Some [[0, 0, 0, 1, 0x65, 1], [0, 0, 0, 1, 0x41]])"
  using avcc_to_nalus [of "[[0x65, 1], [0x41]]" "[0]"] avcc_to_nalus [of "[[0x65, 1], [0x41]]" "[]"] by simp

text \<open>Start codes: where they are, and that the pieces between them are the data from the first one on.\<close>

definition code_at :: "octets \<Rightarrow> nat \<times> nat \<Rightarrow> bool" where
  "code_at data c = (case c of (p, n) \<Rightarrow> p + n \<le> length data \<and>
     (n = 3 \<and> take 3 (drop p data) = [0, 0, 1] \<or> n = 4 \<and> take 4 (drop p data) = [0, 0, 0, 1]))"

fun spaced :: "octets \<Rightarrow> nat \<Rightarrow> (nat \<times> nat) list \<Rightarrow> bool" where
  "spaced data i [] \<longleftrightarrow> True"
| "spaced data i (c # cs) \<longleftrightarrow> i \<le> fst c \<and> code_at data c \<and> spaced data (fst c + snd c) cs"

lemma spaced_mono: "spaced data j cs \<Longrightarrow> i \<le> j \<Longrightarrow> spaced data i cs"
  by (cases cs) auto

lemma start_codes_spaced: "spaced data i (start_codes data i)"
proof (induction data i rule: start_codes.induct)
  case (1 data i)
  show ?case
    using 1 spaced_mono [OF 1(3), of i]
    by (subst start_codes.simps) (auto simp: code_at_def)
qed

lemma concat_pieces:
  "spaced data i (c # cs) \<Longrightarrow> concat (pieces data (map fst (c # cs))) = drop (fst c) data"
proof (induction cs arbitrary: i c)
  case (Cons d cs)
  then have "fst c \<le> fst d" and "spaced data (fst c + snd c) (d # cs)" by auto
  then have "concat (pieces data (map fst (d # cs))) = drop (fst d) data" using Cons.IH by blast
  moreover have "take (fst d - fst c) (drop (fst c) data) @ drop (fst d) data = drop (fst c) data"
    using \<open>fst c \<le> fst d\<close> by (metis append_take_drop_id drop_drop le_add_diff_inverse2)
  ultimately show ?case by simp
qed simp

definition coded :: "octets \<Rightarrow> bool" where
  "coded n \<longleftrightarrow> take 3 n = [0, 0, 1] \<or> take 4 n = [0, 0, 0, 1]"

lemma coded_piece: "code_at data (p, n) \<Longrightarrow> n \<le> k \<Longrightarrow> coded (take k (drop p data))"
  by (auto simp: code_at_def coded_def min_def)

lemma pieces_coded:
  "spaced data i cs \<Longrightarrow> \<forall>x\<in>set (pieces data (map fst cs)). coded x"
proof (induction cs arbitrary: i rule: induct_list012)
  case (2 c)
  then have "code_at data (fst c, snd c)" by simp
  from coded_piece [OF this, of "length data"] 2 show ?case by (auto simp: code_at_def)
next
  case (3 c d cs)
  then have "code_at data (fst c, snd c)" "snd c \<le> fst d - fst c" by auto
  from coded_piece [OF this] 3(2) [of "fst c + snd c"] 3(3) show ?case by simp
qed simp

text \<open>
  Splitting an Annex B stream loses nothing: the NAL units, each behind its own start code, are
  together the stream from the first start code on.
\<close>

theorem annexb_split:
  assumes "AnnexB2Nalus data = Some ns"
  shows "concat ns = (case start_codes data 0 of [] \<Rightarrow> [] | c # _ \<Rightarrow> drop (fst c) data)
    \<and> (\<forall>n\<in>set ns. coded n)"
proof (intro conjI)
  have ns: "ns = pieces data (map fst (start_codes data 0))"
    using assms by (simp add: AnnexB2Nalus_def split: if_splits)
  show "concat ns = (case start_codes data 0 of [] \<Rightarrow> [] | c # _ \<Rightarrow> drop (fst c) data)"
    using concat_pieces [of data 0] start_codes_spaced [of data 0]
    unfolding ns by (cases "start_codes data 0") simp_all
  show "\<forall>n\<in>set ns. coded n" unfolding ns by (rule pieces_coded [OF start_codes_spaced])
qed

theorem annexb_split_witness:
  "AnnexB2Nalus [9, 0, 0, 0, 1, 0x67, 0, 0, 1, 0x68] = Some [[0, 0, 0, 1, 0x67], [0, 0, 1, 0x68]]
    \<and> concat [[0, 0, 0, 1, 0x67], [0, 0, 1, 0x68]] = drop 1 [9, 0, 0, 0, 1, 0x67, 0, 0, 1, 0x68 :: byte]"
proof -
  have "AnnexB2Nalus [9, 0, 0, 0, 1, 0x67, 0, 0, 1, 0x68] = Some [[0, 0, 0, 1, 0x67], [0, 0, 1, 0x68]]"
    and "start_codes [9, 0, 0, 0, 1, 0x67, 0, 0, 1, 0x68] 0 = [(1, 4), (6, 3)]"
    by (simp_all add: AnnexB2Nalus_def start_codes.simps)
  with annexb_split [OF this(1)] show ?thesis by simp
qed

end
