(* ===== verification/Flv_Catalog.thy ===== *)
theory Flv_Catalog
  imports Nal
begin

text \<open>
  The catalogue of an RTMP publisher, \<open>moqlivecast/format/flv/flv_catalog.cpp\<close>: codec strings and
  descriptions gathered from the two sequence headers, and the JSON text built from them. Strings are
  character lists; \<open>OnVideoAvcC\<close> can fault because the picture size parser can.
\<close>

record flv_catalog =
  have_video :: bool
  have_audio :: bool
  video_track :: string
  audio_track :: string
  video_codec :: string
  video_desc_hex :: string
  video_width :: int
  video_height :: int
  audio_codec :: string
  audio_desc_hex :: string
  audio_sample_rate :: int
  audio_channels :: int

definition new_FlvCatalogBuilder :: flv_catalog where
  "new_FlvCatalogBuilder =
     \<lparr>have_video = False, have_audio = False, video_track = ''0.h264'', audio_track = ''1.aac'',
      video_codec = [], video_desc_hex = [], video_width = 0, video_height = 0, audio_codec = [],
      audio_desc_hex = [], audio_sample_rate = 0, audio_channels = 0\<rparr>"

definition kHex :: string where "kHex = ''0123456789abcdef''"

definition hex_digits :: "byte \<Rightarrow> string" where
  "hex_digits b = [kHex ! unat (drop_bit 4 b), kHex ! unat (b AND 0x0f)]"

definition ToHex :: "octets \<Rightarrow> string" where
  "ToHex data = concat (map hex_digits data)"

text \<open>\<open>std::to_string\<close> and \<open>%u\<close> on the non-negative numbers the builder prints.\<close>

fun decimal :: "nat \<Rightarrow> string" where
  "decimal n = (if n < 10 then [kHex ! n] else decimal (n div 10) @ [kHex ! (n mod 10)])"

declare decimal.simps [simp del]

definition avcc_dimensions :: "octets \<Rightarrow> fault + int \<times> int" where
  "avcc_dimensions cfg =
     (if cfg ! 5 AND 0x1f = 0 then Inr (0, 0)
      else let sps_len = unat (cfg ! 6) * 256 + unat (cfg ! 7) in
        if 0 < sps_len \<and> 8 + sps_len \<le> length cfg then
          (case ParseH264SpsDimensions (take sps_len (drop 8 cfg)) of
             Inl e \<Rightarrow> Inl e | Inr None \<Rightarrow> Inr (0, 0) | Inr (Some wh) \<Rightarrow> Inr wh)
        else Inr (0, 0))"

definition OnVideoAvcC :: "octets \<Rightarrow> flv_catalog \<Rightarrow> fault + flv_catalog \<times> bool" where
  "OnVideoAvcC cfg c =
     (if length cfg < 8 then Inr (c, False)
      else case avcc_dimensions cfg of Inl e \<Rightarrow> Inl e
      | Inr (w, h) \<Rightarrow>
          Inr (c\<lparr>video_codec := ''avc1.'' @ ToHex [cfg ! 1, cfg ! 2, cfg ! 3], video_desc_hex := ToHex cfg,
                 video_width := w, video_height := h, have_video := True\<rparr>, True))"

definition kRates :: "int list" where
  "kRates = [96000, 88200, 64000, 48000, 44100, 32000, 24000, 22050, 16000, 12000, 11025, 8000, 7350]"

definition OnAudioAsc :: "octets \<Rightarrow> flv_catalog \<Rightarrow> flv_catalog \<times> bool" where
  "OnAudioAsc asc c =
     (if length asc < 2 then (c, False)
      else let object_type = drop_bit 3 (asc ! 0) AND 0x1f;
               freq_idx = unat (asc ! 0 AND 0x07) * 2 + unat (drop_bit 7 (asc ! 1));
               ch = int (unat (drop_bit 3 (asc ! 1) AND 0x0f)) in
        if object_type = 31 \<or> 13 \<le> freq_idx then (c, False)
        else (c\<lparr>audio_codec := ''mp4a.40.'' @ decimal (unat object_type), audio_desc_hex := ToHex asc,
                audio_sample_rate := kRates ! freq_idx, audio_channels := (if ch \<le> 0 then 2 else ch),
                have_audio := True\<rparr>, True))"

definition dq :: string where "dq = [CHR 0x22]"

definition video_json :: "flv_catalog \<Rightarrow> string" where
  "video_json c = dq @ ''video'' @ dq @ '':{'' @ dq @ ''renditions'' @ dq @ '':{'' @ dq @ video_track c @ dq @ '':{''
     @ dq @ ''codec'' @ dq @ '':'' @ dq @ video_codec c @ dq @ '','' @ dq @ ''description'' @ dq @ '':'' @ dq @ video_desc_hex c @ dq
     @ (if 0 < video_width c \<and> 0 < video_height c
        then '','' @ dq @ ''codedWidth'' @ dq @ '':'' @ decimal (nat (video_width c))
           @ '','' @ dq @ ''codedHeight'' @ dq @ '':'' @ decimal (nat (video_height c)) else [])
     @ ''}}}''"

definition audio_json :: "flv_catalog \<Rightarrow> string" where
  "audio_json c = dq @ ''audio'' @ dq @ '':{'' @ dq @ ''renditions'' @ dq @ '':{'' @ dq @ audio_track c @ dq @ '':{''
     @ dq @ ''codec'' @ dq @ '':'' @ dq @ audio_codec c @ dq @ '','' @ dq @ ''description'' @ dq @ '':'' @ dq @ audio_desc_hex c @ dq
     @ '','' @ dq @ ''sampleRate'' @ dq @ '':'' @ decimal (nat (audio_sample_rate c))
     @ '','' @ dq @ ''numberOfChannels'' @ dq @ '':'' @ decimal (nat (audio_channels c)) @ ''}}}''"

definition BuildJson :: "flv_catalog \<Rightarrow> string" where
  "BuildJson c =
     (if \<not> have_video c \<and> \<not> have_audio c then []
      else ''{'' @ (if have_video c then video_json c else [])
        @ (if have_audio c then (if have_video c then '','' else []) @ audio_json c else [])
        @ '','' @ dq @ ''clock'' @ dq @ '':{'' @ dq @ ''wall'' @ dq @ '':0,'' @ dq @ ''timescale'' @ dq @ '':1000000}}'')"

section \<open>The description can be read back\<close>

definition hex_value :: "char \<Rightarrow> nat" where
  "hex_value ch = (if of_char ch < (58 :: nat) then of_char ch - 48 else of_char ch - 87)"

fun from_hex :: "string \<Rightarrow> octets option" where
  "from_hex [] = Some []"
| "from_hex (a # b # s) = map_option (Cons (word_of_nat (hex_value a * 16 + hex_value b))) (from_hex s)"
| "from_hex [a] = None"

lemma hex_value_kHex: "n < 16 \<Longrightarrow> hex_value (kHex ! n) = n"
proof -
  have "list_all (\<lambda>n. hex_value (kHex ! n) = n) [0..<16]" by code_simp
  then show "n < 16 \<Longrightarrow> hex_value (kHex ! n) = n" by (simp add: list_all_iff)
qed

lemma split_byte: "unat (drop_bit 4 b) * 16 + unat (b AND 0x0f) = unat b" "unat (drop_bit 4 b) < 16" "unat (b AND 0x0f) < 16"
  for b :: byte
proof -
  have "b AND 0x0f = take_bit 4 b" by (simp add: take_bit_eq_mask mask_eq_exp_minus_1)
  then have m: "unat (b AND 0x0f) = unat b mod 16" by (simp add: unat_take_bit)
  have d: "unat (drop_bit 4 b) = unat b div 16" by (simp add: unat_drop_bit)
  show "unat (drop_bit 4 b) * 16 + unat (b AND 0x0f) = unat b" unfolding m d by simp
  show "unat (b AND 0x0f) < 16" unfolding m by simp
  show "unat (drop_bit 4 b) < 16" unfolding d using unat_byte_less [of b] by (simp add: div_less_iff_less_mult)
qed

lemma from_hex_ToHex: "from_hex (ToHex data) = Some data"
proof (induction data)
  case (Cons b data)
  have "word_of_nat (hex_value (kHex ! unat (drop_bit 4 b)) * 16 + hex_value (kHex ! unat (b AND 0x0f))) = b"
    by (simp only: hex_value_kHex split_byte) simp
  with Cons show ?case by (simp add: ToHex_def hex_digits_def)
qed (simp add: ToHex_def)

section \<open>Properties\<close>

text \<open>An AudioSpecificConfig as an encoder writes its first two octets.\<close>

definition asc_bytes :: "nat \<Rightarrow> nat \<Rightarrow> nat \<Rightarrow> octets" where
  "asc_bytes object_type freq_idx channels =
     [word_of_nat (object_type * 8 + freq_idx div 2), word_of_nat (freq_idx mod 2 * 128 + channels * 8)]"

lemma asc_fields:
  assumes "ot < 32" "f < 16" "ch < 16"
  shows "unat (drop_bit 3 (asc_bytes ot f ch ! 0) AND 0x1f) = ot"
    and "unat (asc_bytes ot f ch ! 0 AND 0x07) * 2 + unat (drop_bit 7 (asc_bytes ot f ch ! 1)) = f"
    and "unat (drop_bit 3 (asc_bytes ot f ch ! 1) AND 0x0f) = ch"
proof -
  have m: "(x AND 0x1f) = take_bit 5 x" "(x AND 0x07) = take_bit 3 x" "(x AND 0x0f) = take_bit 4 x" for x :: byte
    by (simp_all add: take_bit_eq_mask mask_eq_exp_minus_1)
  have f: "f = 2 * (f div 2) + f mod 2" "f div 2 < 8" "f mod 2 < 2" using assms(2) by auto
  have b0: "unat (asc_bytes ot f ch ! 0) = ot * 8 + f div 2" and b1: "unat (asc_bytes ot f ch ! 1) = f mod 2 * 128 + ch * 8"
    using assms f unat_byte_of_nat [of "ot * 8 + f div 2"] unat_byte_of_nat [of "f mod 2 * 128 + ch * 8"]
    by (simp_all add: asc_bytes_def del: of_nat_add of_nat_mult)
  show "unat (drop_bit 3 (asc_bytes ot f ch ! 0) AND 0x1f) = ot"
    unfolding m unat_take_bit unat_drop_bit b0 using assms(1) f(2) by simp
  have "unat (asc_bytes ot f ch ! 0 AND 0x07) = f div 2"
    unfolding m unat_take_bit b0 using f(2) by simp
  moreover have "unat (drop_bit 7 (asc_bytes ot f ch ! 1)) = f mod 2"
    unfolding unat_drop_bit b1 using assms(3) f(3) by simp
  ultimately show "unat (asc_bytes ot f ch ! 0 AND 0x07) * 2 + unat (drop_bit 7 (asc_bytes ot f ch ! 1)) = f"
    using f(1) by simp
  have "ch < 16" "f mod 2 = 0 \<or> f mod 2 = 1" using assms(3) by auto
  then show "unat (drop_bit 3 (asc_bytes ot f ch ! 1) AND 0x0f) = ch"
    unfolding m unat_take_bit unat_drop_bit b1 by auto
qed

text \<open>
  The audio part of the catalogue says what the AudioSpecificConfig says: object type, sample rate
  and channel count of its first 13 bits (no channel count is announced as stereo), and the description is
  the configuration in hexadecimal, from which it can be read back. Object type 31 and reserved rates
  are refused and change nothing.
\<close>

theorem audio_catalog_from_asc:
  assumes "ot < 32" "f < 16" "ch < 16"
  shows "case OnAudioAsc (asc_bytes ot f ch @ ext) c of (c', ok) \<Rightarrow>
    (ok \<longleftrightarrow> ot \<noteq> 31 \<and> f < 13)
    \<and> (if ok then have_audio c' \<and> audio_codec c' = ''mp4a.40.'' @ decimal ot \<and> audio_sample_rate c' = kRates ! f
         \<and> audio_channels c' = (if ch = 0 then 2 else int ch)
         \<and> from_hex (audio_desc_hex c') = Some (asc_bytes ot f ch @ ext)
       else c' = c)"
proof -
  let ?a = "asc_bytes ot f ch @ ext"
  have len: "\<not> length ?a < 2" and nth: "?a ! 0 = asc_bytes ot f ch ! 0" "?a ! 1 = asc_bytes ot f ch ! 1"
    by (simp_all add: asc_bytes_def)
  have "drop_bit 3 (asc_bytes ot f ch ! 0) AND 0x1f = 31 \<longleftrightarrow> ot = 31"
    using asc_fields(1) [OF assms] by (simp add: word_unat_eq_iff)
  with len show ?thesis
    unfolding OnAudioAsc_def nth Let_def asc_fields [OF assms]
    by (auto simp: from_hex_ToHex)
qed

theorem audio_catalog_from_asc_witness:
  "case OnAudioAsc [0x12, 0x10] new_FlvCatalogBuilder of (c', ok) \<Rightarrow>
    ok \<and> audio_codec c' = ''mp4a.40.2'' \<and> audio_sample_rate c' = 44100 \<and> audio_channels c' = 2"
proof -
  have "asc_bytes 2 4 2 @ [] = [0x12, 0x10]" by (simp add: asc_bytes_def)
  moreover have "decimal 2 = ''2''" by (simp add: decimal.simps kHex_def)
  moreover have "kRates ! 4 = 44100" by (simp add: kRates_def)
  ultimately show ?thesis
    using audio_catalog_from_asc [of 2 4 2 "[]" new_FlvCatalogBuilder] by (auto split: prod.splits)
qed

text \<open>An AVC configuration record with one sequence parameter set.\<close>

definition avcc_record :: "byte \<Rightarrow> byte \<Rightarrow> byte \<Rightarrow> octets \<Rightarrow> octets \<Rightarrow> octets" where
  "avcc_record a b l sps ext =
     [1, a, b, l, 0xff, 0xe1] @ Write2Bytes (word_of_nat (length sps)) @ sps @ ext"

text \<open>
  The video part of the catalogue: from a configuration record around the sequence parameter set of
  an encoder the codec string is the three profile octets in hexadecimal, the coded size is the encoder's (for a cropped field-coded
  stream the height as the parser gives it, too large by the shortfall of the cropping),
  and the description can be read back.
\<close>

theorem video_catalog_from_avcc:
  assumes "sps_ok s" "bits_of clean = sps_bits s @ tail" "length (emulate 0 clean) < 2 ^ 16"
  shows "\<exists>c'. OnVideoAvcC (avcc_record a b l (emulate 0 clean) ext) c = Inr (c', True) \<and> have_video c'
    \<and> video_codec c' = ''avc1.'' @ ToHex [a, b, l] \<and> video_width c' = sps_width s \<and> video_height c' = sps_height s + crop_shortfall s
    \<and> from_hex (video_desc_hex c') = Some (avcc_record a b l (emulate 0 clean) ext)"
proof -
  define sps where "sps = emulate 0 clean"
  define r where "r = avcc_record a b l sps ext"
  have p: "ParseH264SpsDimensions sps = Inr (Some (sps_width s, sps_height s + crop_shortfall s))"
    unfolding sps_def using assms(1,2) by (rule parse_sps)
  then have "sps \<noteq> []" by (auto simp: ParseH264SpsDimensions_def)
  have n: "length sps < 65536" using assms(3) by (simp add: sps_def)
  have len: "length (Write2Bytes w) = 2" for w by (simp add: length_writes)
  have w2: "Write2Bytes w = [Write2Bytes w ! 0, Write2Bytes w ! 1]" for w
    using len [of w] by (cases "Write2Bytes w" rule: remdups_adj.cases) auto
  have v: "unat (Write2Bytes (word_of_nat (length sps)) ! 0) * 256 + unat (Write2Bytes (word_of_nat (length sps)) ! 1) = length sps"
    using n by (simp add: Write2Bytes_def be_bytes_numeral unat_of_nat)
  have r6: "r ! 5 = 0xe1" "r ! 1 = a" "r ! 2 = b" "r ! 3 = l"
    "r ! 6 = Write2Bytes (word_of_nat (length sps)) ! 0" "r ! 7 = Write2Bytes (word_of_nat (length sps)) ! 1"
    "drop 8 r = sps @ ext" "length r = 8 + length sps + length ext"
    unfolding r_def avcc_record_def by (subst w2, simp)+
  have "avcc_dimensions r = Inr (sps_width s, sps_height s + crop_shortfall s)"
    unfolding avcc_dimensions_def r6 v Let_def using \<open>sps \<noteq> []\<close> p by simp
  then show ?thesis
    unfolding OnVideoAvcC_def sps_def [symmetric] r_def [symmetric] r6 by (simp add: from_hex_ToHex)
qed

lemma vga_shortfall: "crop_shortfall vga_sps = 0"
  by (simp add: crop_shortfall_def crop_of_def vga_sps_def)

theorem video_catalog_from_avcc_witness:
  "\<exists>c'. OnVideoAvcC ([1, 0x42, 0xC0, 0x1E, 0xff, 0xe1, 0, 8] @ vga_octets) new_FlvCatalogBuilder = Inr (c', True)
    \<and> video_codec c' = ''avc1.42c01e'' \<and> video_width c' = 640 \<and> video_height c' = 480"
proof -
  have "length (emulate 0 vga_octets) < 2 ^ 16" by (simp add: emulate_examples) (simp add: vga_octets_def)
  note th = video_catalog_from_avcc [OF example_sps_ok(1) vga_octets_bits this, of "0x42" "0xC0" "0x1E" "[]" new_FlvCatalogBuilder]
  have "avcc_record 0x42 0xC0 0x1E vga_octets [] = [1, 0x42, 0xC0, 0x1E, 0xff, 0xe1, 0, 8] @ vga_octets"
    by (simp add: avcc_record_def vga_octets_def Write2Bytes_def be_bytes_numeral)
  moreover have "ToHex [0x42, 0xC0, 0x1E] = ''42c01e''" by (simp add: ToHex_def hex_digits_def kHex_def)
  ultimately show ?thesis using th unfolding emulate_examples example_sizes vga_shortfall by auto
qed

end
