(* ===== verification/Rtmp_Writer.thy ===== *)
theory Rtmp_Writer
  imports Rtmp_Chunk Stream_Manager
begin

text \<open>
  The player side of an RTMP session, \<open>net/rtmp/rtmp_writer.cpp\<close>. A writer reaches its session through a
  pointer; what it reads there is the record \<open>rw_view\<close>, which the session model refreshes whenever the
  session changes, and what it sends there collects in \<open>rw_sent\<close>. \<open>rw_freed\<close> says that the writer was deleted,
  \<open>rw_orphan\<close> that its session was; either makes a packet a use after free. A fault is kept in the writer, and a faulted
  writer does nothing more.
\<close>

record rtmp_view =
  vw_req_key :: string
  vw_endpoint :: string
  vw_running :: bool
  vw_chunk_size :: u32

record rtmp_writer =
  rw_session :: string
  rw_view :: rtmp_view
  rw_key :: string
  rw_closed :: bool
  rw_init :: bool
  rw_freed :: bool
  rw_orphan :: bool
  rw_sent :: "octets list"
  rw_fault :: "fault option"

definition new_RtmpWriter :: "string \<Rightarrow> rtmp_view \<Rightarrow> rtmp_writer" where
  "new_RtmpWriter sid v =
     \<lparr>rw_session = sid, rw_view = v, rw_key = vw_req_key v, rw_closed = False, rw_init = False,
      rw_freed = False, rw_orphan = False, rw_sent = [], rw_fault = None\<rparr>"

text \<open>Chunk stream and message type of a packet; \<open>None\<close> is the refused media type.\<close>

definition writer_route :: "media_packet \<Rightarrow> (u16 \<times> byte) option" where
  "writer_route pkt = (case av_type pkt of
     MEDIA_VIDEO_TYPE \<Rightarrow> Some (6, 9) | MEDIA_AUDIO_TYPE \<Rightarrow> Some (4, 8)
   | MEDIA_METADATA_TYPE \<Rightarrow> Some (6, typeid pkt) | _ \<Rightarrow> None)"

definition rw_WritePacket :: "rtmp_writer \<Rightarrow> media_packet \<Rightarrow> rtmp_writer \<times> int" where
  "rw_WritePacket w pkt =
     (if rw_freed w then (w\<lparr>rw_fault := Some UseAfterFree\<rparr>, 0)
      else if rw_closed w then (w, RTMP_OK)
      else case writer_route pkt of None \<Rightarrow> (w, -1)
      | Some (csid, ty) \<Rightarrow>
          if rw_orphan w then (w\<lparr>rw_fault := Some UseAfterFree\<rparr>, 0)
          else case message_chunks csid (word_of_int (dts pkt)) ty (streamid pkt) (vw_chunk_size (rw_view w)) (payload pkt) of
            Inl e \<Rightarrow> (w\<lparr>rw_fault := Some e\<rparr>, 0)
          | Inr cs \<Rightarrow> if \<not> vw_running (rw_view w) \<and> cs \<noteq> [] then (w, -1)
                      else (w\<lparr>rw_sent := rw_sent w @ cs\<rparr>, RTMP_OK))"

definition rtmp_ops :: "rtmp_writer av_ops" where
  "rtmp_ops = \<lparr>WritePacket = rw_WritePacket, GetKey = (\<lambda>w. vw_req_key (rw_view w)),
     GetWriterId = (\<lambda>w. vw_endpoint (rw_view w)), CloseWriter = (\<lambda>w. w\<lparr>rw_closed := True\<rparr>),
     IsInited = rw_init, SetInitFlag = (\<lambda>w b. w\<lparr>rw_init := b\<rparr>)\<rparr>"

lemmas rtmp_ops_simps [simp] = arg_cong [OF rtmp_ops_def, of WritePacket, simplified]
  arg_cong [OF rtmp_ops_def, of GetKey, simplified] arg_cong [OF rtmp_ops_def, of GetWriterId, simplified]
  arg_cong [OF rtmp_ops_def, of CloseWriter, simplified] arg_cong [OF rtmp_ops_def, of IsInited, simplified]
  arg_cong [OF rtmp_ops_def, of SetInitFlag, simplified]

lemma rw_WritePacket_keeps:
  "rw_session (fst (rw_WritePacket w pkt)) = rw_session w" "rw_view (fst (rw_WritePacket w pkt)) = rw_view w"
  "rw_init (fst (rw_WritePacket w pkt)) = rw_init w" "rw_freed (fst (rw_WritePacket w pkt)) = rw_freed w"
  "rw_orphan (fst (rw_WritePacket w pkt)) = rw_orphan w"
  "rw_closed (fst (rw_WritePacket w pkt)) = rw_closed w"
  unfolding rw_WritePacket_def by (simp_all split: option.split prod.split sum.split)

interpretation rtmp: av_writer rtmp_ops
  by unfold_locales (simp_all add: rw_WritePacket_keeps)

section \<open>What a healthy writer does\<close>

definition healthy :: "rtmp_writer \<Rightarrow> bool" where
  "healthy w \<longleftrightarrow> \<not> rw_freed w \<and> \<not> rw_orphan w \<and> \<not> rw_closed w \<and> vw_running (rw_view w) \<and> vw_chunk_size (rw_view w) \<noteq> 0"

text \<open>The chunks a packet becomes on a connection with the given chunk size.\<close>

definition packet_chunks :: "u32 \<Rightarrow> media_packet \<Rightarrow> octets list" where
  "packet_chunks cz pkt = (case writer_route pkt of None \<Rightarrow> []
     | Some (csid, ty) \<Rightarrow>
         case message_chunks csid (word_of_int (dts pkt)) ty (streamid pkt) cz (payload pkt) of
           Inl e \<Rightarrow> [] | Inr cs \<Rightarrow> cs)"

lemma healthy_write:
  assumes "healthy w" "writer_route pkt \<noteq> None"
  shows "rw_WritePacket w pkt = (w\<lparr>rw_sent := rw_sent w @ packet_chunks (vw_chunk_size (rw_view w)) pkt\<rparr>, RTMP_OK)"
  using assms
  by (auto simp: healthy_def rw_WritePacket_def packet_chunks_def message_chunks_def Let_def split: prod.splits)

lemma healthy_write_all:
  assumes "healthy w" "\<forall>pkt\<in>set ps. writer_route pkt \<noteq> None" "0 \<le> r"
  shows "write_all rtmp_ops w ps r =
    (w\<lparr>rw_sent := rw_sent w @ concat (map (packet_chunks (vw_chunk_size (rw_view w))) ps)\<rparr>,
     if ps = [] then r else RTMP_OK)"
  using assms
proof (induction ps arbitrary: w r)
  case (Cons p ps)
  let ?w = "w\<lparr>rw_sent := rw_sent w @ packet_chunks (vw_chunk_size (rw_view w)) p\<rparr>"
  have "healthy ?w" using Cons.prems(1) by (simp add: healthy_def)
  from Cons.IH [OF this, of RTMP_OK] Cons.prems show ?case
    by (simp add: healthy_write RTMP_OK_def)
qed simp

end
