(* ===== verification/Rtmp_Command.thy ===== *)
theory Rtmp_Command
  imports Rtmp_Chunk Amf0 Flv_Catalog Flv Stream_Manager
begin

text \<open>
  One RTMP session and its command handler: the fields of \<open>RtmpSessionBase\<close> and \<open>RtmpSession\<close> as one record over the
  chunk reader's, \<open>net/rtmp/rtmp_control_handler.cpp\<close> (the answers it sends, control messages, the arguments of the
  commands) and \<open>RtmpSend\<close>. \<open>wire\<close> lists what was handed to the connection, one entry per \<open>AsyncWrite\<close>, and
  \<open>now\<close> is the cached clock. What needs the table of live streams is in theory \<open>Rtmp_Session\<close>.
\<close>

definition ascii :: "string \<Rightarrow> octets" where "ascii s = map (\<lambda>c. word_of_nat (of_char c)) s"
definition text_of :: "octets \<Rightarrow> string" where "text_of bs = map (\<lambda>b. char_of (unat b)) bs"

section \<open>State\<close>

record rtmp_request =
  publish_flag :: bool
  is_ready :: bool
  req_app :: string
  tcurl :: string
  flash_ver :: string
  stream_name :: string
  req_key :: string
  transaction_id :: int
  req_stream_id :: u32

definition new_RtmpRequest :: rtmp_request where
  "new_RtmpRequest = \<lparr>publish_flag = False, is_ready = False, req_app = [], tcurl = [], flash_ver = [],
     stream_name = [], req_key = [], transaction_id = 1, req_stream_id = 0\<rparr>"

datatype session_phase = initial_phase | handshake_c2_phase | connect_phase | create_stream_phase
  | create_publish_play_phase | media_handle_phase

record rtmp_session = rtmp_reader +
  ses_id :: string
  endpoint :: string
  running :: bool
  closed_flag :: bool
  claimed :: bool
  phase :: session_phase
  server_phase :: session_phase
  remote_window_acksize :: u32
  ack_received :: u32
  req :: rtmp_request
  catalog :: flv_catalog
  catalog_pending :: bool
  catalog_pending_ms :: int
  alive_ms :: int
  idle_timeout_ms :: int
  owner_drop_warn_s :: int
  play_writer :: "ptr option"
  wire :: "octets list"

definition new_RtmpSession :: "string \<Rightarrow> string \<Rightarrow> int \<Rightarrow> rtmp_session" where
  "new_RtmpSession sid ep idle_ms =
     \<lparr>recv = [], fmt_ready = False, rd_fmt = 0, rd_csid = 0, cs_map = [], chunk_size = 128,
      ses_id = sid, endpoint = ep, running = True, closed_flag = False, claimed = False,
      phase = initial_phase, server_phase = initial_phase, remote_window_acksize = 2500000, ack_received = 0,
      req = new_RtmpRequest, catalog = new_FlvCatalogBuilder, catalog_pending = False,
      catalog_pending_ms = 0, alive_ms = -1, idle_timeout_ms = (if idle_ms > 0 then idle_ms else 15000),
      owner_drop_warn_s = 0, play_writer = None, wire = []\<rparr>"

definition on_req :: "(rtmp_request \<Rightarrow> rtmp_request) \<Rightarrow> rtmp_session \<Rightarrow> rtmp_session" where
  "on_req f s = s\<lparr>req := f (req s)\<rparr>"

text \<open>A session that is not running drops what it is told to send; every send counts as activity.\<close>

definition RtmpSend :: "int \<Rightarrow> octets \<Rightarrow> rtmp_session \<Rightarrow> rtmp_session \<times> int" where
  "RtmpSend now data s =
     (if \<not> running s then (s, -1)
      else (s\<lparr>alive_ms := now, wire := wire s @ [data]\<rparr>, int (length data)))"

definition IsAlive :: "int \<Rightarrow> rtmp_session \<Rightarrow> rtmp_session \<times> bool" where
  "IsAlive now s =
     (let timeout = (if running s then idle_timeout_ms s else 1000) in
      if alive_ms s \<le> 0 then (s\<lparr>alive_ms := now\<rparr>, True)
      else (s, \<not> now - alive_ms s > timeout))"

section \<open>Sending messages\<close>

fun send_chunks :: "int \<Rightarrow> octets list \<Rightarrow> rtmp_session \<Rightarrow> rtmp_session" where
  "send_chunks now [] s = s"
| "send_chunks now (c # cs) s = send_chunks now cs (fst (RtmpSend now c s))"

text \<open>
  \<open>WriteDataByChunkStream\<close> of an AMF0 command on chunk stream 3 at time 0. This overload does not look at the results
  of its sends.
\<close>

definition send_command :: "int \<Rightarrow> u32 \<Rightarrow> octets \<Rightarrow> rtmp_session \<Rightarrow> fault + rtmp_session \<times> int" where
  "send_command now msid data s =
     (case message_chunks 3 0 20 msid (chunk_size s) data of Inl e \<Rightarrow> Inl e | Inr cs \<Rightarrow> Inr (send_chunks now cs s, RTMP_OK))"

definition control_octets :: "byte \<Rightarrow> u32 \<Rightarrow> u32 \<Rightarrow> u32 \<Rightarrow> octets" where
  "control_octets ty sz v cz = chunk_all (fst (GenControlMessage ty sz v (new_CoChunkStream 0 3 cz)))"

definition SendSetChunksize :: "int \<Rightarrow> u32 \<Rightarrow> rtmp_session \<Rightarrow> rtmp_session" where
  "SendSetChunksize now v s = fst (RtmpSend now (control_octets 1 4 v (chunk_size s)) s)"

definition SendRtmpAck :: "int \<Rightarrow> u32 \<Rightarrow> rtmp_session \<Rightarrow> rtmp_session \<times> int" where
  "SendRtmpAck now sz s =
     (let s1 = s\<lparr>ack_received := ack_received s + sz\<rparr> in
      if ack_received s1 > remote_window_acksize s1
      then ((fst (RtmpSend now (control_octets 3 4 (chunk_size s1) (chunk_size s1)) s1))\<lparr>ack_received := 0\<rparr>, 0)
      else (s1, 0))"

definition g_config_chunk_size :: u32 where "g_config_chunk_size = 4096"

text \<open>The doubles the answers contain, as their IEEE 754 bits: 0, 1 and 31.\<close>

definition f64_0 :: u64 where "f64_0 = 0"
definition f64_1 :: u64 where "f64_1 = 0x3FF0000000000000"
definition f64_31 :: u64 where "f64_31 = 0x403F000000000000"

text \<open>The event object of an answer, its keys in map order.\<close>

definition event_object :: "string \<Rightarrow> string \<Rightarrow> octets" where
  "event_object code desc = fst (EncodeObject
     [(ascii ''code'', AmfString (ascii code)), (ascii ''description'', AmfString (ascii desc)),
      (ascii ''level'', AmfString (ascii ''status''))])"

definition connect_answer :: octets where
  "connect_answer = EncodeString (ascii ''_result'') False @ EncodeNumber f64_1
     @ fst (EncodeObject [(ascii ''capabilities'', AmfNumber f64_31), (ascii ''fmsVer'', AmfString (ascii ''FMS/3,0,1,123''))])
     @ event_object ''NetConnection.Connect.Success'' ''Connection succeeded.''"

definition SendRtmpConnectResp :: "int \<Rightarrow> rtmp_session \<Rightarrow> fault + rtmp_session \<times> int" where
  "SendRtmpConnectResp now s0 =
     (let win = control_octets 5 4 2500000 (chunk_size s0); bw = control_octets 6 5 2500000 (chunk_size s0);
          set = control_octets 1 4 g_config_chunk_size (chunk_size s0);
          s1 = s0\<lparr>chunk_size := g_config_chunk_size\<rparr>;
          s2 = fst (RtmpSend now set (fst (RtmpSend now bw (fst (RtmpSend now win s1))))) in
      case send_command now 1 connect_answer s2 of Inl e \<Rightarrow> Inl e
      | Inr (s3, r) \<Rightarrow> if r \<noteq> RTMP_OK then Inr (s3, r) else Inr (s3\<lparr>server_phase := create_stream_phase\<rparr>, RTMP_OK))"

definition SendRtmpCreateStreamResp :: "int \<Rightarrow> u64 \<Rightarrow> rtmp_session \<Rightarrow> fault + rtmp_session \<times> int" where
  "SendRtmpCreateStreamResp now transaction s =
     (case send_command now 1 (EncodeString (ascii ''_result'') False @ EncodeNumber transaction @ EncodeNull @ EncodeNumber f64_1) s of
        Inl e \<Rightarrow> Inl e
      | Inr (s1, r) \<Rightarrow> if r \<noteq> RTMP_OK then Inr (s1, r) else Inr (s1\<lparr>server_phase := create_publish_play_phase\<rparr>, RTMP_OK))"

definition on_status :: "string \<Rightarrow> string \<Rightarrow> octets" where
  "on_status code desc = EncodeString (ascii ''onStatus'') False @ EncodeNumber f64_0 @ EncodeNull @ event_object code desc"

definition SendRtmpPlayResetResp :: "int \<Rightarrow> rtmp_session \<Rightarrow> fault + rtmp_session \<times> int" where
  "SendRtmpPlayResetResp now = send_command now 1 (on_status ''NetStream.Play.Reset'' ''Playing and resetting stream.'')"

definition SendRtmpPlayStartResp :: "int \<Rightarrow> rtmp_session \<Rightarrow> fault + rtmp_session \<times> int" where
  "SendRtmpPlayStartResp now = send_command now 1 (on_status ''NetStream.Play.Start'' ''Started playing stream.'')"

definition SendRtmpPlayDataResp :: "int \<Rightarrow> rtmp_session \<Rightarrow> fault + rtmp_session \<times> int" where
  "SendRtmpPlayDataResp now = send_command now 1 (on_status ''NetStream.Data.Start'' ''Started playing stream.'')"

definition SendRtmpPlayNotifyResp :: "int \<Rightarrow> rtmp_session \<Rightarrow> fault + rtmp_session \<times> int" where
  "SendRtmpPlayNotifyResp now = send_command now 1 (on_status ''NetStream.Play.PublishNotify'' ''Started playing notify.'')"

text \<open>The results of the four messages are not looked at; only a fault stops the sequence.\<close>

definition and_then :: "fault + rtmp_session \<times> int \<Rightarrow> (rtmp_session \<Rightarrow> fault + rtmp_session \<times> int) \<Rightarrow> fault + rtmp_session \<times> int" where
  "and_then x f = (case x of Inl e \<Rightarrow> Inl e | Inr (s, _) \<Rightarrow> f s)"

definition SendRtmpPlayResp :: "int \<Rightarrow> rtmp_session \<Rightarrow> fault + rtmp_session \<times> int" where
  "SendRtmpPlayResp now s0 =
     (let s1 = fst (RtmpSend now (chunk_all (GenSetRecordedMessage (new_CoChunkStream 0 3 6))) s0);
          s2 = fst (RtmpSend now (chunk_all (GenSetBeginMessage (new_CoChunkStream 0 3 6))) s1) in
      and_then (SendRtmpPlayResetResp now s2) (\<lambda>s. and_then (SendRtmpPlayStartResp now s) (\<lambda>s.
        and_then (SendRtmpPlayDataResp now s) (\<lambda>s. and_then (SendRtmpPlayNotifyResp now s) (\<lambda>s. Inr (s, RTMP_OK))))))"

definition SendRtmpPublishResp :: "int \<Rightarrow> rtmp_session \<Rightarrow> fault + rtmp_session \<times> int" where
  "SendRtmpPublishResp now s =
     (case send_command now 1 (on_status ''NetStream.Publish.Start'' ''Start publising.'') s of
        Inl e \<Rightarrow> Inl e
      | Inr (s1, r) \<Rightarrow> if r \<noteq> RTMP_OK then Inr (s1, r) else Inr (s1\<lparr>server_phase := media_handle_phase\<rparr>, RTMP_OK))"

section \<open>Control messages\<close>

definition HandleRtmpControlMessage :: "int \<Rightarrow> chunk_stream \<Rightarrow> bool \<Rightarrow> rtmp_session \<Rightarrow> rtmp_session \<times> int" where
  "HandleRtmpControlMessage now cs is_server s =
     (if type_id cs = 1 then
        (if length (chunk_data cs) < 4 then (s, -1)
         else let s1 = s\<lparr>chunk_size := u32_at (chunk_data cs)\<rparr> in
           (if is_server then SendSetChunksize now (chunk_size s1) s1 else s1, RTMP_OK))
      else if type_id cs = 5 then
        (if length (chunk_data cs) < 4 then (s, -1)
         else (s\<lparr>remote_window_acksize := u32_at (chunk_data cs)\<rparr>, RTMP_OK))
      else (s, RTMP_OK))"

section \<open>Command arguments\<close>

definition NormalizeRtmpApp :: "string \<Rightarrow> string" where
  "NormalizeRtmpApp raw =
     (let a = takeWhile (\<lambda>c. c \<noteq> CHR ''?'') raw in rev (dropWhile (\<lambda>c. c = CHR ''/'') (rev a)))"

text \<open>
  \<open>(int64_t)transactionId\<close>: truncation of the double with these bits, undefined (\<open>None\<close>) outside the range
  of the integer.
\<close>

definition f64_to_i64 :: "u64 \<Rightarrow> int option" where
  "f64_to_i64 w =
     (let e = uint w div 2 ^ 52 mod 2 ^ 11; m = uint w mod 2 ^ 52 + 2 ^ 52;
          mag = (if e < 1023 then 0 else if e \<ge> 1075 then m * 2 ^ nat (e - 1075) else m div 2 ^ nat (1075 - e));
          v = (if uint w \<ge> 2 ^ 63 then - mag else mag)
      in if e \<ge> 1087 then None else if v < - (2 ^ 63) \<or> v \<ge> 2 ^ 63 then None else Some v)"

text \<open>
  The object of a \<open>connect\<close> command: each of the three entries must be a string when it is there, and what was
  stored before a wrong one stays stored.
\<close>

definition set_entry :: "(octets \<times> amf) list \<Rightarrow> string \<Rightarrow> (string \<Rightarrow> rtmp_request \<Rightarrow> rtmp_request)
    \<Rightarrow> rtmp_request \<times> bool \<Rightarrow> rtmp_request \<times> bool" where
  "set_entry obj name f rb =
     (case rb of (r, ok) \<Rightarrow>
        if \<not> ok then (r, False)
        else case map_of obj (ascii name) of None \<Rightarrow> (r, True)
        | Some (AmfString v) \<Rightarrow> (f (text_of v) r, True) | Some _ \<Rightarrow> (r, False))"

fun connect_args :: "amf list \<Rightarrow> rtmp_request \<Rightarrow> rtmp_request \<times> bool" where
  "connect_args [] r = (r, True)"
| "connect_args (AmfObject obj # vs) r =
     (case set_entry obj ''flashVer'' (\<lambda>v r. r\<lparr>flash_ver := v\<rparr>)
            (set_entry obj ''tcUrl'' (\<lambda>v r. r\<lparr>tcurl := v\<rparr>)
              (set_entry obj ''app'' (\<lambda>v r. r\<lparr>req_app := NormalizeRtmpApp v\<rparr>) (r, True))) of
        (r1, ok) \<Rightarrow> if ok then connect_args vs r1 else (r1, False))"
| "connect_args (_ # vs) r = connect_args vs r"

definition HandleRtmpConnectCommand :: "int \<Rightarrow> amf list \<Rightarrow> rtmp_session \<Rightarrow> fault + rtmp_session \<times> int" where
  "HandleRtmpConnectCommand now vs s =
     (if length vs < 3 then Inr (s, -1)
      else case connect_args (tl vs) (req s) of (r, ok) \<Rightarrow>
        if \<not> ok then Inr (s\<lparr>req := r\<rparr>, -1) else SendRtmpConnectResp now (s\<lparr>req := r\<rparr>))"

text \<open>
  The arguments of the other commands: the last number is the transaction id, the first non-empty string
  the stream name. The number is also stored as a 64-bit integer.
\<close>

fun command_args :: "amf list \<Rightarrow> u64 \<Rightarrow> string \<Rightarrow> rtmp_request \<Rightarrow> fault + u64 \<times> string \<times> rtmp_request" where
  "command_args [] tr name r = Inr (tr, name, r)"
| "command_args (AmfNumber n # vs) tr name r =
     (case f64_to_i64 n of None \<Rightarrow> Inl SignedOverflow | Some i \<Rightarrow> command_args vs n name (r\<lparr>transaction_id := i\<rparr>))"
| "command_args (AmfString v # vs) tr name r = command_args vs tr (if name = [] then text_of v else name) r"
| "command_args (_ # vs) tr name r = command_args vs tr name r"

definition HandleRtmpCreatestreamCommand :: "int \<Rightarrow> u32 \<Rightarrow> amf list \<Rightarrow> rtmp_session \<Rightarrow> fault + rtmp_session \<times> int" where
  "HandleRtmpCreatestreamCommand now msid vs s =
     (if length vs < 3 then Inr (s, -1)
      else case command_args (tl vs) f64_0 [] ((req s)\<lparr>req_stream_id := msid\<rparr>) of Inl e \<Rightarrow> Inl e
      | Inr (tr, _, r) \<Rightarrow> SendRtmpCreateStreamResp now tr (s\<lparr>req := r\<rparr>))"

definition ready_request :: "bool \<Rightarrow> string \<Rightarrow> rtmp_request \<Rightarrow> rtmp_request" where
  "ready_request pub name r = r\<lparr>stream_name := name, publish_flag := pub, is_ready := True,
     req_key := req_app r @ ''/'' @ name\<rparr>"

definition HandleRtmpPlayCommand :: "int \<Rightarrow> amf list \<Rightarrow> rtmp_session \<Rightarrow> fault + rtmp_session \<times> int" where
  "HandleRtmpPlayCommand now vs s =
     (if length vs < 3 then Inr (s, -1)
      else case command_args (tl vs) f64_0 [] (req s) of Inl e \<Rightarrow> Inl e
      | Inr (_, name, r) \<Rightarrow> SendRtmpPlayResp now (s\<lparr>req := ready_request False name r\<rparr>))"

text \<open>\<open>HandleRtmpPublishCommand\<close> up to the claim: \<open>None\<close> is the refusal of an empty application or name.\<close>

definition publish_request :: "amf list \<Rightarrow> rtmp_session \<Rightarrow> fault + rtmp_session \<times> bool" where
  "publish_request vs s =
     (if length vs < 3 then Inr (s, False)
      else case command_args (tl vs) f64_0 [] (req s) of Inl e \<Rightarrow> Inl e
      | Inr (_, name, r) \<Rightarrow>
          if req_app r = [] \<or> name = [] then Inr (s\<lparr>req := r\<rparr>, False)
          else Inr (s\<lparr>req := ready_request True name r\<rparr>, True))"

section \<open>Media messages\<close>

definition GetNaluFormatTypeFromMediaPacket :: "octets \<Rightarrow> NALU_FORMAT_TYPE" where
  "GetNaluFormatTypeFromMediaPacket d =
     (if length d < 5 then NALU_FORMAT_UNKNOWN
      else if take 4 d = [0, 0, 0, 1] then NALU_FORMAT_ANNEXB
      else if take 3 d = [0, 0, 1] then NALU_FORMAT_ANNEXB else NALU_FORMAT_AVCC)"

definition GetMediaPacket :: "chunk_stream \<Rightarrow> rtmp_session \<Rightarrow> fault + media_packet option" where
  "GetMediaPacket cs s =
     (let data = chunk_data cs in
      if length data < 2 then Inr None
      else case GetFlvMediaPacket (type_id cs) (timestamp32 cs) data of
        Inl e \<Rightarrow> Inl e
      | Inr None \<Rightarrow> Inr None
      | Inr (Some p) \<Rightarrow>
          if length data < flv_offset p then Inl OverRead
          else let body = drop (flv_offset p) data;
                   p1 = p\<lparr>payload := data, app := req_app (req s), streamname := stream_name (req s),
                          pkt_key := req_key (req s), streamid := msg_stream_id cs,
                          nalu_fmt_type := GetNaluFormatTypeFromMediaPacket body\<rparr> in
            if av_type p1 = MEDIA_VIDEO_TYPE then
              (if is_seq_hdr p1 \<and> codec_type p1 = MEDIA_CODEC_H265 then
                 (case GetHevcDecInfoFromExtradata body of Inl e \<Rightarrow> Inl e | Inr _ \<Rightarrow> Inr (Some p1))
               else Inr (Some p1))
            else if av_type p1 = MEDIA_AUDIO_TYPE \<or> av_type p1 = MEDIA_METADATA_TYPE then Inr (Some p1)
            else Inr None)"

end
