(* ===== verification/Rtmp_Session.thy ===== *)
theory Rtmp_Session
  imports Rtmp_Command Rtmp_Writer
begin

text \<open>
  The RTMP server: the sessions of \<open>net/rtmp/rtmp_session.cpp\<close> and \<open>rtmp_server.cpp\<close> together with the table of
  live streams they share. A server state holds the manager, the sessions by id, and the number of
  writers ever allocated (a pointer is such a number, so its heap cell is the manager's). \<open>set_ses\<close> is the only way a
  session changes, and refreshes what the writers of that session see through their pointer.
\<close>

record rtmp_server =
  mgr :: "rtmp_writer manager"
  sessions :: "(string \<times> rtmp_session) list"
  n_writers :: nat
  last_check_ms :: int

definition view_of :: "rtmp_session \<Rightarrow> rtmp_view" where
  "view_of s = \<lparr>vw_req_key = req_key (req s), vw_endpoint = endpoint s, vw_running = running s,
     vw_chunk_size = chunk_size s\<rparr>"

definition ses :: "rtmp_server \<Rightarrow> string \<Rightarrow> rtmp_session" where
  "ses y i = (case map_of (sessions y) i of None \<Rightarrow> new_RtmpSession i [] 0 | Some s \<Rightarrow> s)"

definition on_mgr :: "(rtmp_writer manager \<Rightarrow> rtmp_writer manager) \<Rightarrow> rtmp_server \<Rightarrow> rtmp_server" where
  "on_mgr f y = y\<lparr>mgr := f (mgr y)\<rparr>"

definition on_heap :: "(rtmp_writer \<Rightarrow> rtmp_writer) \<Rightarrow> rtmp_server \<Rightarrow> rtmp_server" where
  "on_heap f = on_mgr (\<lambda>m. m\<lparr>heap := (\<lambda>p. f (heap m p))\<rparr>)"

definition set_ses :: "string \<Rightarrow> rtmp_session \<Rightarrow> rtmp_server \<Rightarrow> rtmp_server" where
  "set_ses i s y = on_heap (\<lambda>w. if rw_session w = i then w\<lparr>rw_view := view_of s\<rparr> else w)
     (y\<lparr>sessions := AList.update i s (sessions y)\<rparr>)"

definition on_ses :: "string \<Rightarrow> (rtmp_session \<Rightarrow> rtmp_session) \<Rightarrow> rtmp_server \<Rightarrow> rtmp_server" where
  "on_ses i f y = set_ses i (f (ses y i)) y"

definition lift_ses :: "string \<Rightarrow> fault + rtmp_session \<times> int \<Rightarrow> rtmp_server \<Rightarrow> fault + rtmp_server \<times> int" where
  "lift_ses i x y = (case x of Inl e \<Rightarrow> Inl e | Inr (s, r) \<Rightarrow> Inr (set_ses i s y, r))"

section \<open>Closing\<close>

definition free_writer :: "ptr \<Rightarrow> rtmp_server \<Rightarrow> rtmp_server" where
  "free_writer p = on_mgr (\<lambda>m. set_writer p ((heap m p)\<lparr>rw_freed := True\<rparr>) m)"

definition Close :: "string \<Rightarrow> rtmp_server \<Rightarrow> rtmp_server" where
  "Close i y =
     (let s = ses y i in
      if closed_flag s then y
      else let y1 = set_ses i (s\<lparr>closed_flag := True, running := False\<rparr>) y in
        if is_ready (req s) \<and> \<not> publish_flag (req s) then
          (case play_writer s of None \<Rightarrow> y1
           | Some p \<Rightarrow> free_writer p (on_mgr (RemovePlayer rtmp_ops p) y1))
        else if publish_flag (req s) \<and> claimed s \<and> req_key (req s) \<noteq> [] then
          on_ses i (\<lambda>s. s\<lparr>claimed := False\<rparr>)
            (on_mgr (\<lambda>m. fst (ReleasePublisher (req_key (req s)) i m)) y1)
        else y1)"

text \<open>Erasing the last reference deletes the session: its writers are orphans.\<close>

definition erase_session :: "string \<Rightarrow> rtmp_server \<Rightarrow> rtmp_server" where
  "erase_session i y = on_heap (\<lambda>w. if rw_session w = i then w\<lparr>rw_orphan := True\<rparr> else w)
     (y\<lparr>sessions := AList.delete i (sessions y)\<rparr>)"

definition KickSession :: "string \<Rightarrow> rtmp_server \<Rightarrow> rtmp_server \<times> bool" where
  "KickSession owner y =
     (if owner = [] \<or> map_of (sessions y) owner = None then (y, False)
      else (erase_session owner (Close owner y), True))"

section \<open>Catalogue\<close>

definition FlushCatalog :: "string \<Rightarrow> rtmp_server \<Rightarrow> rtmp_server" where
  "FlushCatalog i y =
     (let s = ses y i in
      if \<not> catalog_pending s then y
      else let y1 = set_ses i (s\<lparr>catalog_pending := False\<rparr>) y; json = BuildJson (catalog s) in
        if json = [] then y1
        else on_mgr (\<lambda>m. fst (SetCatalogJson (req_key (req s)) i json m)) y1)"

definition catalog_input :: "media_packet \<Rightarrow> flv_catalog \<Rightarrow> fault + flv_catalog \<times> bool" where
  "catalog_input pkt c =
     (let body = drop (flv_offset pkt) (payload pkt) in
      if av_type pkt = MEDIA_VIDEO_TYPE then
        (if codec_type pkt = MEDIA_CODEC_H264 then OnVideoAvcC body c else Inr (c, False))
      else if av_type pkt = MEDIA_AUDIO_TYPE then
        (if codec_type pkt = MEDIA_CODEC_AAC then Inr (OnAudioAsc body c) else Inr (c, False))
      else Inr (c, False))"

definition UpdateCatalogFromSeqHdr :: "int \<Rightarrow> string \<Rightarrow> media_packet \<Rightarrow> rtmp_server \<Rightarrow> fault + rtmp_server" where
  "UpdateCatalogFromSeqHdr now i pkt y =
     (if length (payload pkt) \<le> flv_offset pkt then Inr y
      else case catalog_input pkt (catalog (ses y i)) of Inl e \<Rightarrow> Inl e
      | Inr (c, updated) \<Rightarrow>
          if \<not> updated then Inr (on_ses i (\<lambda>s. s\<lparr>catalog := c\<rparr>) y)
          else let y1 = on_ses i (\<lambda>s. s\<lparr>catalog := c, catalog_pending := True, catalog_pending_ms := now\<rparr>) y in
            Inr (if have_video c \<and> have_audio c then FlushCatalog i y1 else y1))"

definition kCatalogCoalesceMs :: int where "kCatalogCoalesceMs = 100"

section \<open>Publishing\<close>

definition OnPublishReady :: "int \<Rightarrow> string \<Rightarrow> rtmp_server \<Rightarrow> rtmp_server \<times> bool" where
  "OnPublishReady now i y =
     (let s = ses y i; claim = on_ses i (\<lambda>s. s\<lparr>claimed := True\<rparr>) in
      if claimed s then (y, True)
      else if \<not> publish_flag (req s) \<or> req_key (req s) = [] then (y, True)
      else case ClaimPublisher now (req_key (req s)) i (mgr y) of (m, action, previous) \<Rightarrow>
        let y1 = y\<lparr>mgr := m\<rparr> in
        (case action of
           kTakeOver \<Rightarrow> (claim (fst (KickSession previous y1)), True)
         | kRejected \<Rightarrow> (y1, False)
         | _ \<Rightarrow> (claim y1, True)))"

definition HandleRtmpPublishCommand :: "int \<Rightarrow> string \<Rightarrow> amf list \<Rightarrow> rtmp_server \<Rightarrow> fault + rtmp_server \<times> int" where
  "HandleRtmpPublishCommand now i vs y =
     (case publish_request vs (ses y i) of Inl e \<Rightarrow> Inl e
      | Inr (s, ok) \<Rightarrow>
          if \<not> ok then Inr (set_ses i s y, -1)
          else case OnPublishReady now i (set_ses i s y) of (y1, ready) \<Rightarrow>
            if \<not> ready then Inr (y1, -1) else lift_ses i (SendRtmpPublishResp now (ses y1 i)) y1)"

section \<open>Messages\<close>

definition run_command :: "int \<Rightarrow> string \<Rightarrow> u32 \<Rightarrow> string \<Rightarrow> amf list \<Rightarrow> rtmp_server \<Rightarrow> fault + rtmp_server \<times> int" where
  "run_command now i msid cmd vs y =
     (if cmd = ''connect'' then lift_ses i (HandleRtmpConnectCommand now vs (ses y i)) y
      else if cmd = ''createStream'' then lift_ses i (HandleRtmpCreatestreamCommand now msid vs (ses y i)) y
      else if cmd = ''publish'' then HandleRtmpPublishCommand now i vs y
      else if cmd = ''play'' then lift_ses i (HandleRtmpPlayCommand now vs (ses y i)) y
      else Inr (y, RTMP_OK))"

definition playing :: "rtmp_session \<Rightarrow> bool" where
  "playing s \<longleftrightarrow> is_ready (req s) \<and> \<not> publish_flag (req s)"

definition HandleClientCommandMessage :: "int \<Rightarrow> string \<Rightarrow> chunk_stream \<Rightarrow> rtmp_server \<Rightarrow> fault + rtmp_server \<times> int" where
  "HandleClientCommandMessage now i cs y =
     (let d = chunk_data cs in
      case decode_command (Suc (length d)) d (int (length d)) [] of
        None \<Rightarrow> Inl NoReturn
      | Some (Inl e) \<Rightarrow> Inl e
      | Some (Inr []) \<Rightarrow> Inr (y, -1)
      | Some (Inr (AmfString cmd # vs)) \<Rightarrow>
          (case run_command now i (msg_stream_id cs) (text_of cmd) (AmfString cmd # vs) y of Inl e \<Rightarrow> Inl e
           | Inr (y1, r) \<Rightarrow>
               Inr (y1, if r = RTMP_OK then (if playing (ses y1 i) then r else RTMP_NEED_READ_MORE) else r))
      | Some (Inr (_ # _)) \<Rightarrow> Inr (y, -1))"

text \<open>
  After a fan-out: what the writers sent goes to the connections of their sessions, which counts as activity;
  \<open>writer_fault\<close> is the fault of the first writer that hit one.
\<close>

definition absorb :: "int \<Rightarrow> rtmp_server \<Rightarrow> string \<times> rtmp_session \<Rightarrow> string \<times> rtmp_session" where
  "absorb now y = (\<lambda>(i, s).
     let out = concat (map (\<lambda>p. let w = heap (mgr y) p in if rw_session w = i then rw_sent w else []) [0..<n_writers y])
     in (i, if out = [] then s else s\<lparr>wire := wire s @ out, alive_ms := now\<rparr>))"

definition collect :: "int \<Rightarrow> rtmp_server \<Rightarrow> rtmp_server" where
  "collect now y = on_heap (\<lambda>w. w\<lparr>rw_sent := []\<rparr>) (y\<lparr>sessions := map (absorb now y) (sessions y)\<rparr>)"

definition writer_fault :: "rtmp_server \<Rightarrow> fault option" where
  "writer_fault y = (case List.map_filter (\<lambda>p. rw_fault (heap (mgr y) p)) [0..<n_writers y] of
     [] \<Rightarrow> None | e # _ \<Rightarrow> Some e)"

text \<open>
  The end of a command that left the session ready to play: a new writer takes the place of the old one and is added
  to the stream, which replays the GOP to it at once when there is one.
\<close>

definition new_player :: "string \<Rightarrow> rtmp_server \<Rightarrow> rtmp_server" where
  "new_player i y = on_ses i (\<lambda>s. s\<lparr>play_writer := Some (n_writers y)\<rparr>)
     (on_mgr (set_writer (n_writers y) (new_RtmpWriter i (view_of (ses y i)))) (y\<lparr>n_writers := Suc (n_writers y)\<rparr>))"

definition start_play :: "int \<Rightarrow> string \<Rightarrow> rtmp_server \<Rightarrow> fault + rtmp_server" where
  "start_play now i y =
     (let y1 = on_mgr (\<lambda>m. fst (AddPlayer rtmp_ops (Some (n_writers y)) m)) (new_player i y) in
      case writer_fault y1 of Some e \<Rightarrow> Inl e | None \<Rightarrow> Inr (collect now y1))"

definition publish_media :: "int \<Rightarrow> media_packet \<Rightarrow> rtmp_server \<Rightarrow> fault + rtmp_server" where
  "publish_media now pkt y =
     (let y1 = on_mgr (\<lambda>m. fst (WriterMediaPacket rtmp_ops now (Some pkt) m)) y in
      case writer_fault y1 of Some e \<Rightarrow> Inl e | None \<Rightarrow> Inr (collect now y1))"

definition owns :: "string \<Rightarrow> rtmp_server \<Rightarrow> bool" where
  "owns i y \<longleftrightarrow> claimed (ses y i) \<and> IsPublisherOwner (mgr y) (req_key (req (ses y i))) i"

definition handle_media :: "int \<Rightarrow> string \<Rightarrow> chunk_stream \<Rightarrow> rtmp_server \<Rightarrow> fault + rtmp_server \<times> int" where
  "handle_media now i cs y =
     (case GetMediaPacket cs (ses y i) of Inl e \<Rightarrow> Inl e
      | Inr None \<Rightarrow> Inr (y, -1)
      | Inr (Some pkt) \<Rightarrow>
          let s = ses y i in
          if owns i y then
            (case (if is_seq_hdr pkt then UpdateCatalogFromSeqHdr now i pkt y
                   else if catalog_pending s \<and> now - catalog_pending_ms s \<ge> kCatalogCoalesceMs
                   then Inr (FlushCatalog i y) else Inr y) of Inl e \<Rightarrow> Inl e
             | Inr y1 \<Rightarrow> (case publish_media now pkt y1 of Inl e \<Rightarrow> Inl e | Inr y2 \<Rightarrow> Inr (y2, RTMP_OK)))
          else Inr (set_ses i (s\<lparr>owner_drop_warn_s := now div 1000\<rparr>) y, RTMP_OK))"

definition reset_stream :: "string \<Rightarrow> byte \<Rightarrow> rtmp_server \<Rightarrow> rtmp_server" where
  "reset_stream i key = on_ses i (\<lambda>s. case map_of (cs_map s) key of None \<Rightarrow> s
     | Some c \<Rightarrow> s\<lparr>cs_map := AList.update key (chunk_Reset c) (cs_map s)\<rparr>)"

text \<open>
  One complete message. The result is negative when the session must close; the flag says whether the
  reading loop ends when no octets are left.
\<close>

definition handle_message :: "int \<Rightarrow> string \<Rightarrow> byte \<Rightarrow> chunk_stream \<Rightarrow> rtmp_server \<Rightarrow> fault + rtmp_server \<times> int \<times> bool" where
  "handle_message now i key cs y =
     (let ty = type_id cs in
      if 1 \<le> ty \<and> ty \<le> 6 then
        (case HandleRtmpControlMessage now cs True (ses y i) of (s, r) \<Rightarrow>
           Inr (reset_stream i key (set_ses i s y), r, True))
      else if ty = 20 then
        (case HandleClientCommandMessage now i cs y of Inl e \<Rightarrow> Inl e
         | Inr (y1, r) \<Rightarrow>
             let y2 = reset_stream i key y1 in
             if 0 \<le> r \<and> playing (ses y2 i)
             then (case start_play now i y2 of Inl e \<Rightarrow> Inl e | Inr y3 \<Rightarrow> Inr (y3, r, True))
             else Inr (y2, r, True))
      else if ty = 17 then Inr (reset_stream i key y, -1, True)
      else if ty = 9 \<or> ty = 8 \<or> ty = 18 \<or> ty = 15 then
        (case handle_media now i cs y of Inl e \<Rightarrow> Inl e
         | Inr (y1, r) \<Rightarrow> Inr (reset_stream i key y1, r, False))
      else Inr (reset_stream i key y, RTMP_OK, False))"

text \<open>The chunk stream a read ended in, when its message is complete.\<close>

definition ready_stream :: "rtmp_session \<Rightarrow> byte option \<Rightarrow> (byte \<times> chunk_stream) option" where
  "ready_stream s key = (case key of None \<Rightarrow> None
     | Some k \<Rightarrow> (case map_of (cs_map s) k of None \<Rightarrow> None | Some c \<Rightarrow> if chunk_ready c then Some (k, c) else None))"

text \<open>The reading loop; \<open>None\<close> is running out of rounds, which \<open>ReceiveChunkStream_returns\<close> excludes.\<close>

fun ReceiveChunkStream :: "nat \<Rightarrow> int \<Rightarrow> string \<Rightarrow> rtmp_server \<Rightarrow> (fault + rtmp_server \<times> int) option" where
  "ReceiveChunkStream 0 now i y = None"
| "ReceiveChunkStream (Suc n) now i y =
     (case ReadChunkStream (ses y i) of Inl e \<Rightarrow> Some (Inl e)
      | Inr (s, key, r) \<Rightarrow>
          let y1 = set_ses i s y in
          if r < RTMP_OK \<or> r = RTMP_NEED_READ_MORE then Some (Inr (y1, r))
          else case ready_stream s key of
            None \<Rightarrow> if recv s \<noteq> [] then ReceiveChunkStream n now i y1 else Some (Inr (y1, RTMP_NEED_READ_MORE))
          | Some (k, c) \<Rightarrow>
              (case handle_message now i k c y1 of Inl e \<Rightarrow> Some (Inl e)
               | Inr (y2, r2, brk) \<Rightarrow>
                   if r2 < RTMP_OK then Some (Inr (y2, r2))
                   else if brk \<and> recv (ses y2 i) = [] then Some (Inr (y2, RTMP_OK))
                   else ReceiveChunkStream n now i y2))"

declare ReceiveChunkStream.simps [simp del]

section \<open>Events of the connection\<close>

text \<open>
  What the handshake computes from C0 and C1 with the crypto library: whether it accepts them, and S0, S1 and S2 (\<open>None\<close>
  when making them fails).
\<close>

record handshake =
  ParseC0C1 :: "octets \<Rightarrow> int"
  MakeS0S1S2 :: "octets \<Rightarrow> octets option"

definition HandleC0C1 :: "handshake \<Rightarrow> octets \<Rightarrow> int" where
  "HandleC0C1 H buf = (if length buf < 1 + 1536 then RTMP_NEED_READ_MORE else ParseC0C1 H (take 1537 buf))"

definition HandleC2 :: "octets \<Rightarrow> octets \<times> int" where
  "HandleC2 buf = (if length buf < 1536 then (buf, RTMP_NEED_READ_MORE) else (drop 1536 buf, RTMP_OK))"

definition chunk_part :: "int \<Rightarrow> string \<Rightarrow> rtmp_server \<Rightarrow> (fault + rtmp_server \<times> int) option" where
  "chunk_part now i y =
     (case ReceiveChunkStream (length (recv (ses y i)) + 2) now i y of None \<Rightarrow> None
      | Some (Inl e) \<Rightarrow> Some (Inl e)
      | Some (Inr (y1, r)) \<Rightarrow> Some (Inr (if r < 0 then (on_ses i (\<lambda>s. s\<lparr>running := False\<rparr>) y1, r)
          else (y1, if r = RTMP_OK then RTMP_NEED_READ_MORE else r))))"

definition handshake_part :: "handshake \<Rightarrow> int \<Rightarrow> string \<Rightarrow> rtmp_server \<Rightarrow> rtmp_server \<times> int" where
  "handshake_part H now i y =
     (let s = ses y i; r = HandleC0C1 H (recv s); stop = (\<lambda>s. s\<lparr>running := False\<rparr>) in
      if r < 0 then (set_ses i (stop s) y, r)
      else if r = RTMP_NEED_READ_MORE then (y, r)
      else case MakeS0S1S2 H (take 1537 (recv s)) of
        None \<Rightarrow> (set_ses i (stop (s\<lparr>recv := []\<rparr>)) y, -1)
      | Some out \<Rightarrow> (set_ses i (s\<lparr>recv := [], wire := wire s @ [out], phase := handshake_c2_phase\<rparr>) y, RTMP_NEED_READ_MORE))"

definition HandleRequest :: "handshake \<Rightarrow> int \<Rightarrow> string \<Rightarrow> rtmp_server \<Rightarrow> (fault + rtmp_server \<times> int) option" where
  "HandleRequest H now i y0 =
     (let y = on_ses i (\<lambda>s. s\<lparr>alive_ms := now\<rparr>) y0; s = ses y i in
      if \<not> running s \<or> recv s = [] then Some (Inr (y, RTMP_OK))
      else case phase s of
        initial_phase \<Rightarrow> Some (Inr (handshake_part H now i y))
      | handshake_c2_phase \<Rightarrow>
          (case HandleC2 (recv s) of (buf, r) \<Rightarrow>
             if r = RTMP_NEED_READ_MORE then Some (Inr (y, r))
             else let y1 = set_ses i (s\<lparr>recv := buf, phase := connect_phase\<rparr>) y in
               if buf = [] then Some (Inr (y1, RTMP_NEED_READ_MORE)) else chunk_part now i y1)
      | _ \<Rightarrow> chunk_part now i y)"

definition OnRead :: "handshake \<Rightarrow> int \<Rightarrow> string \<Rightarrow> int \<Rightarrow> octets \<Rightarrow> rtmp_server \<Rightarrow> (fault + rtmp_server) option" where
  "OnRead H now i ret_code data y =
     (if ret_code < 0 then Some (Inr (Close i y))
      else case HandleRequest H now i (on_ses i (\<lambda>s. s\<lparr>recv := recv s @ data\<rparr>) y) of None \<Rightarrow> None
      | Some (Inl e) \<Rightarrow> Some (Inl e)
      | Some (Inr (y1, r)) \<Rightarrow> Some (Inr (if r < 0 then Close i y1 else y1)))"

definition OnWrite :: "string \<Rightarrow> int \<Rightarrow> rtmp_server \<Rightarrow> rtmp_server" where
  "OnWrite i ret_code y = (if ret_code < 0 then Close i y else y)"

section \<open>Events of the server\<close>

text \<open>\<open>sid\<close> is the fresh UUID of the new session, \<open>ep\<close> its remote end point.\<close>

definition OnAccept :: "int \<Rightarrow> string \<Rightarrow> string \<Rightarrow> int \<Rightarrow> rtmp_server \<Rightarrow> rtmp_server" where
  "OnAccept ret_code sid ep idle_ms y = (if ret_code < 0 then y else set_ses sid (new_RtmpSession sid ep idle_ms) y)"

definition check_session :: "int \<Rightarrow> string \<Rightarrow> rtmp_server \<Rightarrow> rtmp_server" where
  "check_session now i y =
     (case IsAlive now (ses y i) of (s, alive) \<Rightarrow>
        if alive then set_ses i s y else erase_session i (Close i y))"

definition OnCheckAlive :: "int \<Rightarrow> rtmp_server \<Rightarrow> rtmp_server" where
  "OnCheckAlive now y =
     (if last_check_ms y < 0 then y\<lparr>last_check_ms := now\<rparr>
      else if now - last_check_ms y < 100 then y
      else foldl (\<lambda>y i. check_session now i y) (y\<lparr>last_check_ms := now\<rparr>) (map fst (sessions y)))"

end
