(* ===== verification/Rtmp_Server_Facts.thy ===== *)
theory Rtmp_Server_Facts
  imports Rtmp_Session
begin

text \<open>
  What is proved of the RTMP server: equations of the state updates, the reading loop returns, sessions that lost their
  stream are harmless, closing, claiming, delivery to players, and the faults a client can cause.
\<close>

named_theorems server "equations of the updates of a server state"

section \<open>Equations\<close>

lemma ses_updates [server]:
  "ses (set_ses j s y) i = (if i = j then s else ses y i)"
  "ses (on_heap f y) i = ses y i"
  "ses (on_mgr g y) i = ses y i"
  "ses (free_writer p y) i = ses y i"
  "ses (on_ses j h y) i = (if i = j then h (ses y i) else ses y i)"
  "ses (erase_session j y) i = (if i = j then new_RtmpSession i [] 0 else ses y i)"
  "ses (y\<lparr>mgr := m\<rparr>) i = ses y i" "ses (y\<lparr>n_writers := n\<rparr>) i = ses y i" "ses (y\<lparr>last_check_ms := t\<rparr>) i = ses y i"
  by (simp_all add: ses_def set_ses_def on_heap_def on_mgr_def free_writer_def on_ses_def erase_session_def
    update_conv' delete_conv')

lemma streams_updates [server]:
  "streams (mgr (set_ses j s y)) = streams (mgr y)" "streams (mgr (on_heap f y)) = streams (mgr y)"
  "streams (mgr (free_writer p y)) = streams (mgr y)" "streams (mgr (on_ses j h y)) = streams (mgr y)"
  "streams (mgr (erase_session j y)) = streams (mgr y)" "mgr (on_mgr g y) = g (mgr y)"
  by (simp_all add: set_ses_def on_heap_def on_mgr_def free_writer_def on_ses_def erase_session_def set_writer_def)

lemma find_updates [server]:
  "find_stream (mgr (set_ses j s y)) k = find_stream (mgr y) k" "find_stream (mgr (on_heap f y)) k = find_stream (mgr y) k"
  "find_stream (mgr (free_writer p y)) k = find_stream (mgr y) k" "find_stream (mgr (on_ses j h y)) k = find_stream (mgr y) k"
  "find_stream (mgr (erase_session j y)) k = find_stream (mgr y) k"
  by (simp_all add: find_stream_def server)

lemma on_ses_set [server]: "on_ses i f y = set_ses i (f (ses y i)) y"
  by (simp add: on_ses_def)

lemma owner_find: "IsPublisherOwner m k i \<longleftrightarrow> (\<exists>s. find_stream m k = Some s \<and> (publisher_id s = [] \<or> publisher_id s = i))"
  by (auto simp: IsPublisherOwner_def split: option.splits)

lemma owner_updates [server]:
  "IsPublisherOwner (mgr (set_ses j s y)) k i = IsPublisherOwner (mgr y) k i"
  "IsPublisherOwner (mgr (erase_session j y)) k i = IsPublisherOwner (mgr y) k i"
  "IsPublisherOwner (mgr (free_writer p y)) k i = IsPublisherOwner (mgr y) k i"
  by (simp_all add: owner_find server)

lemma text_of_ascii [simp]: "text_of (ascii s) = s"
proof -
  have "unat (word_of_nat (of_char c) :: byte) = of_char c" for c :: char
    by (simp add: unat_of_nat of_char_mod_256)
  then show ?thesis by (simp add: text_of_def ascii_def comp_def)
qed

section \<open>The application name\<close>

lemma strip_slashes:
  "rev (dropWhile (\<lambda>c. c = x) (rev s)) \<noteq> [] \<Longrightarrow> last (rev (dropWhile (\<lambda>c. c = x) (rev s))) \<noteq> x"
  using hd_dropWhile [of "\<lambda>c. c = x" "rev s"] by (simp add: last_rev del: dropWhile_eq_Nil_conv)

text \<open>
  The application part of a stream key never contains a query string and never ends in a slash, it is the beginning of what
  the client sent, and normalizing twice is normalizing once.
\<close>

theorem NormalizeRtmpApp_normal:
  "CHR ''?'' \<notin> set (NormalizeRtmpApp raw)
    \<and> (\<nexists>a. NormalizeRtmpApp raw = a @ ''/'')
    \<and> (\<exists>cut. raw = NormalizeRtmpApp raw @ cut) \<and> NormalizeRtmpApp (NormalizeRtmpApp raw) = NormalizeRtmpApp raw"
proof -
  define a where "a = takeWhile (\<lambda>c. c \<noteq> CHR ''?'') raw"
  define n where "n = NormalizeRtmpApp raw"
  have n: "n = rev (dropWhile (\<lambda>c. c = CHR ''/'') (rev a))" by (simp add: n_def NormalizeRtmpApp_def a_def)
  have "rev a = takeWhile (\<lambda>c. c = CHR ''/'') (rev a) @ rev n" unfolding n by (simp only: rev_rev_ident takeWhile_dropWhile_id)
  from arg_cong [OF this, of rev] have "a = n @ rev (takeWhile (\<lambda>c. c = CHR ''/'') (rev a))"
    by (simp only: rev_append rev_rev_ident)
  then obtain cut where cut: "a = n @ cut" by blast
  have "CHR ''?'' \<notin> set a" unfolding a_def by (auto dest: set_takeWhileD)
  then have q: "CHR ''?'' \<notin> set n" using cut by auto
  have l: "n = [] \<or> last n \<noteq> CHR ''/''" using strip_slashes [of "CHR ''/''" a] unfolding n by blast
  have "raw = a @ dropWhile (\<lambda>c. c \<noteq> CHR ''?'') raw" by (simp add: a_def)
  then have "\<exists>cut. raw = n @ cut" unfolding cut by auto
  moreover have "NormalizeRtmpApp n = n"
  proof -
    have "takeWhile (\<lambda>c. c \<noteq> CHR ''?'') n = n" using q by (auto simp: takeWhile_eq_all_conv)
    moreover have "dropWhile (\<lambda>c. c = CHR ''/'') (rev n) = rev n"
      using l by (cases "rev n") (auto simp: last_rev [symmetric])
    ultimately show ?thesis by (simp only: NormalizeRtmpApp_def Let_def rev_rev_ident)
  qed
  moreover have "\<nexists>a. n = a @ ''/''" using l by auto
  ultimately show ?thesis using q by (simp add: n_def)
qed

section \<open>The reading loop returns\<close>

text \<open>What an answer leaves alone in the session that sends it.\<close>

definition core_of :: "rtmp_session \<Rightarrow> (octets \<times> bool \<times> (byte \<times> chunk_stream) list \<times> string) \<times> string \<times> (bool \<times> bool \<times> bool)
    \<times> session_phase \<times> ptr option" where
  "core_of s = ((recv s, fmt_ready s, cs_map s, ses_id s), endpoint s, (running s, closed_flag s, claimed s),
     phase s, play_writer s)"

definition frame :: "rtmp_session \<Rightarrow> fault + rtmp_session \<times> int \<Rightarrow> bool" where
  "frame s x \<longleftrightarrow> (case x of Inl _ \<Rightarrow> True | Inr (s', _) \<Rightarrow> core_of s' = core_of s)"

lemma frame_simps [simp]: "frame s (Inl e)" "frame s (Inr (s', r)) \<longleftrightarrow> core_of s' = core_of s"
  by (simp_all add: frame_def)

lemma core_recv: "core_of s = core_of s' \<Longrightarrow> recv s = recv s' \<and> fmt_ready s = fmt_ready s' \<and> cs_map s = cs_map s'
    \<and> running s = running s' \<and> closed_flag s = closed_flag s' \<and> claimed s = claimed s'"
  by (simp add: core_of_def)

lemma core_of_updates [simp]:
  "core_of (s\<lparr>alive_ms := a\<rparr>) = core_of s" "core_of (s\<lparr>wire := w\<rparr>) = core_of s" "core_of (s\<lparr>server_phase := ph\<rparr>) = core_of s"
  "core_of (s\<lparr>chunk_size := c\<rparr>) = core_of s" "core_of (s\<lparr>req := r\<rparr>) = core_of s"
  "core_of (s\<lparr>remote_window_acksize := w'\<rparr>) = core_of s"
  by (simp_all add: core_of_def)

lemma core_of_send [simp]: "core_of (fst (RtmpSend now d s)) = core_of s"
  by (simp add: RtmpSend_def)

lemma core_of_send_chunks [simp]: "core_of (send_chunks now cs s) = core_of s"
  by (induction cs arbitrary: s) simp_all

lemma send_chunks_running:
  "running s \<Longrightarrow> send_chunks now cs s = s\<lparr>alive_ms := (if cs = [] then alive_ms s else now), wire := wire s @ cs\<rparr>"
  by (induction cs arbitrary: s) (simp_all add: RtmpSend_def)

lemma req_of_send_chunks [simp]: "req (send_chunks now cs s) = req s"
proof (induction cs arbitrary: s)
  case (Cons c cs)
  moreover have "req (fst (RtmpSend now c s)) = req s" by (simp add: RtmpSend_def)
  ultimately show ?case by simp
qed simp

lemma PublishResp_req: "SendRtmpPublishResp now s = Inr (s', r) \<Longrightarrow> req s' = req s"
  by (auto simp: SendRtmpPublishResp_def send_command_def split: sum.splits prod.splits if_splits)

lemma send_command_frame: "frame s (send_command now m d s)"
  by (simp add: send_command_def split: sum.split)

lemma frame_through: "core_of s1 = core_of s \<Longrightarrow> frame s1 x \<Longrightarrow> frame s x" for s s1 :: rtmp_session
  by (simp add: frame_def split: sum.splits prod.splits)

lemma and_then_frame: "frame s x \<Longrightarrow> (\<And>s1. frame s1 (f s1)) \<Longrightarrow> frame s (and_then x f)"
proof (cases x)
  case (Inr y)
  assume "frame s x" "\<And>s1. frame s1 (f s1)"
  then show ?thesis
    using frame_through [of "fst y" s "f (fst y)"] by (cases y) (simp add: and_then_def Inr)
qed (simp add: and_then_def)

lemma phase_after_frame:
  "frame s x \<Longrightarrow> frame s (case x of Inl e \<Rightarrow> Inl e
     | Inr (s1, r) \<Rightarrow> if r \<noteq> RTMP_OK then Inr (s1, r) else Inr (s1\<lparr>server_phase := ph\<rparr>, RTMP_OK))"
  by (cases x) auto

lemma answers_frame:
  "frame s (SendRtmpConnectResp now s)" "frame s (SendRtmpCreateStreamResp now tr s)"
  "frame s (SendRtmpPlayResp now s)" "frame s (SendRtmpPublishResp now s)"
proof -
  show "frame s (SendRtmpConnectResp now s)"
    unfolding SendRtmpConnectResp_def Let_def
    by (rule frame_through [OF _ phase_after_frame [OF send_command_frame]]) simp
  show "frame s (SendRtmpPlayResp now s)"
    unfolding SendRtmpPlayResp_def SendRtmpPlayResetResp_def SendRtmpPlayStartResp_def SendRtmpPlayDataResp_def
      SendRtmpPlayNotifyResp_def Let_def
    by (rule frame_through [OF _ and_then_frame [OF send_command_frame and_then_frame [OF send_command_frame
        and_then_frame [OF send_command_frame and_then_frame [OF send_command_frame]]]]]) simp_all
qed (auto simp: SendRtmpCreateStreamResp_def SendRtmpPublishResp_def intro: phase_after_frame send_command_frame)

lemma commands_frame:
  "frame s (HandleRtmpConnectCommand now vs s)" "frame s (HandleRtmpCreatestreamCommand now msid vs s)"
  "frame s (HandleRtmpPlayCommand now vs s)"
proof -
  have r: "frame s (h (s\<lparr>req := r\<rparr>))" if "\<And>s. frame s (h s)" for h r
    by (rule frame_through [OF _ that]) simp
  show "frame s (HandleRtmpConnectCommand now vs s)"
    unfolding HandleRtmpConnectCommand_def by (simp split: prod.split add: r answers_frame)
  show "frame s (HandleRtmpCreatestreamCommand now msid vs s)"
    unfolding HandleRtmpCreatestreamCommand_def by (simp split: sum.split prod.split add: r answers_frame)
  show "frame s (HandleRtmpPlayCommand now vs s)"
    unfolding HandleRtmpPlayCommand_def by (simp split: sum.split prod.split add: r answers_frame)
qed

lemma control_frame: "core_of (fst (HandleRtmpControlMessage now cs b s)) = core_of s"
  by (simp add: HandleRtmpControlMessage_def SendSetChunksize_def Let_def)

text \<open>Handling a message leaves the octets of its session alone.\<close>

definition same_input :: "string \<Rightarrow> rtmp_server \<Rightarrow> rtmp_server \<Rightarrow> bool" where
  "same_input i y y' \<longleftrightarrow> recv (ses y' i) = recv (ses y i) \<and> fmt_ready (ses y' i) = fmt_ready (ses y i)"

lemma same_input_trans: "same_input i y y' \<Longrightarrow> same_input i y' y'' \<Longrightarrow> same_input i y y''"
  by (simp add: same_input_def)

lemma same_input_mgr [simp]: "same_input i y (on_mgr f y')  = same_input i y y'" "same_input i y (y'\<lparr>mgr := m\<rparr>) = same_input i y y'"
  "same_input i y (free_writer p y') = same_input i y y'" "same_input i y y"
  by (simp_all add: same_input_def server)

lemma same_input_set: "same_input i y (set_ses j s y') \<longleftrightarrow>
    (if i = j then recv s = recv (ses y i) \<and> fmt_ready s = fmt_ready (ses y i) else same_input i y y')"
  by (simp add: same_input_def server)

lemma Close_input: "same_input i y (Close j y)"
  by (auto simp: Close_def Let_def server same_input_set split: option.split)

lemma Kick_input: "j \<noteq> i \<Longrightarrow> same_input i y (fst (KickSession j y))"
  using Close_input [of i y j] by (auto simp: KickSession_def same_input_def server)

lemma FlushCatalog_input: "same_input i y (FlushCatalog i y)"
  by (auto simp: FlushCatalog_def Let_def same_input_set)

lemma absorb_core [simp]: "fst (absorb now y x) = fst x" "core_of (snd (absorb now y x)) = core_of (snd x)"
  "req (snd (absorb now y x)) = req (snd x)" "chunk_size (snd (absorb now y x)) = chunk_size (snd x)"
  by (simp_all add: absorb_def Let_def split: prod.split)

lemma ses_collect: "ses (collect now y) i = (if map_of (sessions y) i = None then ses y i else snd (absorb now y (i, ses y i)))"
proof -
  have "map_of (map (absorb now y) xs) i = map_option (\<lambda>s. snd (absorb now y (i, s))) (map_of xs i)" for xs
  proof (induction xs)
    case (Cons x xs)
    then show ?case by (cases "absorb now y x"; cases x) (use absorb_core(1) [of now y x] in auto)
  qed simp
  then show ?thesis
    by (simp add: collect_def server) (simp add: ses_def split: option.split)
qed

lemma collect_input: "same_input i y (collect now y)"
  using core_recv [OF absorb_core(2) [of now y "(i, ses y i)"]] by (simp add: same_input_def ses_collect)

lemma take_over_previous: "ClaimPublisher now k i m = (m', kTakeOver, previous) \<Longrightarrow> previous \<noteq> i"
  by (auto simp: ClaimPublisher_def take_over_def Let_def split: option.splits if_splits prod.splits)

lemma OnPublishReady_input: "same_input i y (fst (OnPublishReady now i y))"
proof -
  obtain m a previous where c: "ClaimPublisher now (req_key (req (ses y i))) i (mgr y) = (m, a, previous)"
    by (cases "ClaimPublisher now (req_key (req (ses y i))) i (mgr y)") auto
  have k: "same_input i y (fst (KickSession previous (y\<lparr>mgr := m\<rparr>)))" if "a = kTakeOver"
    using Kick_input [of previous i "y\<lparr>mgr := m\<rparr>"] take_over_previous [OF c [unfolded that]] by (simp add: same_input_def server)
  show ?thesis
    using k by (cases a) (simp_all add: OnPublishReady_def c Let_def server same_input_set, auto simp: same_input_def server)
qed

definition input_result :: "string \<Rightarrow> rtmp_server \<Rightarrow> fault + rtmp_server \<times> int \<Rightarrow> bool" where
  "input_result i y x \<longleftrightarrow> (case x of Inl _ \<Rightarrow> True | Inr (y', _) \<Rightarrow> same_input i y y')"

lemma input_result_simps [simp]: "input_result i y (Inl e)" "input_result i y (Inr (y', r)) \<longleftrightarrow> same_input i y y'"
  by (simp_all add: input_result_def)

lemma lift_input: "frame (ses y i) x \<Longrightarrow> input_result i y (lift_ses i x y)"
  by (cases x) (auto simp: lift_ses_def same_input_set dest: core_recv)

lemma publish_request_input:
  "publish_request vs s = Inr (s', ok) \<Longrightarrow> core_of s' = core_of s"
  by (auto simp: publish_request_def split: if_splits sum.splits prod.splits)

lemma publish_input: "input_result i y (HandleRtmpPublishCommand now i vs y)"
proof (cases "publish_request vs (ses y i)")
  case (Inr z)
  obtain s ok where z: "z = (s, ok)" by (cases z)
  have s: "same_input i y (set_ses i s y)"
    using core_recv [OF publish_request_input [OF Inr [unfolded z]]] by (simp add: same_input_set)
  obtain y1 ready where o1: "OnPublishReady now i (set_ses i s y) = (y1, ready)" by force
  have y1: "same_input i y y1"
    using same_input_trans [OF s OnPublishReady_input [of i "set_ses i s y" now]] by (simp add: o1)
  have "input_result i y1 (lift_ses i (SendRtmpPublishResp now (ses y1 i)) y1)"
    by (intro lift_input answers_frame)
  then have "input_result i y (lift_ses i (SendRtmpPublishResp now (ses y1 i)) y1)"
    using y1 by (cases "lift_ses i (SendRtmpPublishResp now (ses y1 i)) y1") (auto intro: same_input_trans)
  then show ?thesis using s y1 by (simp add: HandleRtmpPublishCommand_def Inr z o1)
qed (simp add: HandleRtmpPublishCommand_def)

lemma run_command_input: "input_result i y (run_command now i msid cmd vs y)"
  by (simp add: run_command_def lift_input commands_frame publish_input)

lemma HandleClient_input: "input_result i y (HandleClientCommandMessage now i cs y)"
proof -
  have "input_result i y (case run_command now i msid cmd vs y of Inl e \<Rightarrow> Inl e | Inr (y1, r) \<Rightarrow> Inr (y1, f y1 r))" for msid cmd vs f
    using run_command_input [of i y now msid cmd vs] by (cases "run_command now i msid cmd vs y") auto
  note k = this
  show ?thesis
  proof (cases "decode_command (Suc (length (chunk_data cs))) (chunk_data cs) (int (length (chunk_data cs))) []")
    case (Some x)
    show ?thesis
    proof (cases x)
      case (Inr vs)
      show ?thesis
      proof (cases vs)
        case (Cons v vs')
        show ?thesis
          unfolding HandleClientCommandMessage_def Let_def Some Inr Cons option.case sum.case list.case
          by (cases v) (simp_all only: amf.case k input_result_simps same_input_mgr)
      qed (simp add: HandleClientCommandMessage_def Let_def Some Inr del: decode_command.simps)
    qed (simp add: HandleClientCommandMessage_def Let_def Some del: decode_command.simps)
  qed (simp add: HandleClientCommandMessage_def Let_def del: decode_command.simps)
qed

lemma UpdateCatalog_input: "UpdateCatalogFromSeqHdr now i pkt y = Inr y' \<Longrightarrow> same_input i y y'"
  using same_input_trans [OF _ FlushCatalog_input [of i]]
  by (auto simp: UpdateCatalogFromSeqHdr_def Let_def server same_input_set split: if_splits sum.splits prod.splits)

lemma publish_media_input: "publish_media now pkt y = Inr y' \<Longrightarrow> same_input i y y'"
  using collect_input [of i "on_mgr (\<lambda>m. fst (WriterMediaPacket rtmp_ops now (Some pkt) m)) y" now]
  by (auto simp: publish_media_def Let_def same_input_def server split: option.splits)

lemma handle_media_input: "input_result i y (handle_media now i cs y)"
proof (cases "GetMediaPacket cs (ses y i)")
  case (Inr po)
  show ?thesis
  proof (cases po)
    case (Some pkt)
    let ?x = "if is_seq_hdr pkt then UpdateCatalogFromSeqHdr now i pkt y
      else if catalog_pending (ses y i) \<and> now - catalog_pending_ms (ses y i) \<ge> kCatalogCoalesceMs
      then Inr (FlushCatalog i y) else Inr y"
    have "same_input i y y1" if "?x = Inr y1" for y1
      using that UpdateCatalog_input [of now i pkt y y1] FlushCatalog_input [of i y] by (auto split: if_splits)
    then have "input_result i y (case ?x of Inl e \<Rightarrow> Inl e
       | Inr y1 \<Rightarrow> (case publish_media now pkt y1 of Inl e \<Rightarrow> Inl e | Inr y2 \<Rightarrow> Inr (y2, RTMP_OK)))"
      by (auto split: sum.split intro: same_input_trans publish_media_input)
    then show ?thesis
      unfolding handle_media_def Inr Some sum.case option.case Let_def by (simp add: same_input_set)
  qed (simp add: handle_media_def Inr)
qed (simp add: handle_media_def)

lemma reset_input: "same_input i y (reset_stream i key y)"
  by (simp add: reset_stream_def server same_input_set split: option.split)

lemma start_play_input: "start_play now i y = Inr y' \<Longrightarrow> same_input i y y'"
  using collect_input [of i "on_mgr (\<lambda>m. fst (AddPlayer rtmp_ops (Some (n_writers y)) m)) (new_player i y)" now]
  by (auto simp: start_play_def new_player_def Let_def same_input_def server split: option.splits)

lemma handle_message_input: "handle_message now i key cs y = Inr (y', r, brk) \<Longrightarrow> same_input i y y'"
proof -
  have "same_input i y (reset_stream i key (set_ses i (fst (HandleRtmpControlMessage now cs True (ses y i))) y))"
    using core_recv [OF control_frame [of now cs True "ses y i"]] reset_input
    by (intro same_input_trans [OF _ reset_input]) (simp add: same_input_set)
  moreover have "same_input i y (reset_stream i key y1)" if "same_input i y y1" for y1
    using that by (blast intro: same_input_trans reset_input)
  moreover have "same_input i y y2" if "same_input i y y1" "start_play now i (reset_stream i key y1) = Inr y2" for y1 y2
    using that by (blast intro: same_input_trans reset_input start_play_input)
  moreover have "same_input i y y1" if "HandleClientCommandMessage now i cs y = Inr (y1, r1)" for y1 r1
    using HandleClient_input [of i y now cs] that by simp
  moreover have "same_input i y y1" if "handle_media now i cs y = Inr (y1, r1)" for y1 r1
    using handle_media_input [of i y now cs] that by simp
  ultimately show "handle_message now i key cs y = Inr (y', r, brk) \<Longrightarrow> same_input i y y'"
    unfolding handle_message_def Let_def
    by (auto split: if_splits sum.splits prod.splits intro: reset_input)
qed

lemma header_shrinks:
  "ReadMsgFormat0 f c cs buf = (cs', buf', r) \<Longrightarrow> length buf' \<le> length buf"
  "ReadMsgFormat1 f c cs buf = (cs', buf', r) \<Longrightarrow> length buf' \<le> length buf"
  "ReadMsgFormat2 f c cs buf = (cs', buf', r) \<Longrightarrow> length buf' \<le> length buf"
  "ReadMsgFormat3 f c cs buf = (cs', buf', r) \<Longrightarrow> length buf' \<le> length buf"
  by (auto simp: ReadMsgFormat0_def ReadMsgFormat1_def ReadMsgFormat2_def ReadMsgFormat3_def Let_def
    split: if_splits prod.splits)

lemma ReadMessageHeader_shrinks:
  "ReadMessageHeader f c cs buf = Inr (cs', buf', r) \<Longrightarrow> length buf' \<le> length buf"
  by (auto simp: ReadMessageHeader_def split: if_splits prod.splits dest: header_shrinks)

lemma ReadMessagePayload_shrinks:
  "ReadMessagePayload cs buf = (cs', buf', r) \<Longrightarrow> length buf' \<le> length buf"
  by (auto simp: ReadMessagePayload_def Let_def split: if_splits)

lemma ReadFmtCsid_shrinks:
  "ReadFmtCsid s = (s', 0) \<Longrightarrow> length (recv s') < length (recv s)"
  by (auto simp: ReadFmtCsid_def Let_def RTMP_NEED_READ_MORE_def split: list.splits if_splits)

definition rounds_left :: "rtmp_session \<Rightarrow> nat" where
  "rounds_left s = length (recv s) + (if fmt_ready s then 1 else 0)"

lemma ReadChunkStream_progress:
  assumes "ReadChunkStream s = Inr (s', key, r)" "\<not> (r < RTMP_OK \<or> r = RTMP_NEED_READ_MORE)"
  shows "rounds_left s' < rounds_left s"
proof -
  define s0 r0 where "s0 = fst (if fmt_ready s then (s, 0) else ReadFmtCsid s)"
    and "r0 = snd (if fmt_ready s then (s, 0) else ReadFmtCsid s)"
  have p: "(if fmt_ready s then (s, 0) else ReadFmtCsid s) = (s0, r0)" by (simp add: s0_def r0_def)
  have shrink0: "length (recv s0) < rounds_left s" if "r0 = 0"
    using p that ReadFmtCsid_shrinks [of s s0] by (auto simp: rounds_left_def split: if_splits)
  define s1 where "s1 = s0\<lparr>fmt_ready := True\<rparr>"
  define c where "c = (case map_of (cs_map s1) (ucast (rd_csid s1)) of
      None \<Rightarrow> new_CoChunkStream (rd_fmt s1) (rd_csid s1) (chunk_size s1) | Some c \<Rightarrow> c\<lparr>cs_chunk_size := chunk_size s1\<rparr>)"
  note run = assms(1) [unfolded ReadChunkStream_def p prod.case Let_def, folded s1_def, folded c_def]
  show ?thesis
  proof (cases "r0 = 0")
    case True
    show ?thesis
    proof (cases "ReadMessageHeader (rd_fmt s1) (rd_csid s1) c (recv s1)")
      case (Inr x)
      obtain c1 b1 r1 where x: "x = (c1, b1, r1)" by (cases x)
      obtain c2 b2 r2 where pl: "ReadMessagePayload c1 b1 = (c2, b2, r2)" by (cases "ReadMessagePayload c1 b1") auto
      have "length b2 < rounds_left s"
        using ReadMessageHeader_shrinks [OF Inr [unfolded x]] ReadMessagePayload_shrinks [OF pl] shrink0 [OF True]
        by (simp add: s1_def)
      moreover have "r2 = RTMP_OK \<or> r2 = RTMP_NEED_READ_MORE"
        using pl by (auto simp: ReadMessagePayload_def Let_def split: if_splits)
      ultimately show ?thesis
        using run True assms(2) by (auto simp: Inr x pl rounds_left_def split: if_splits)
    qed (use run True in simp)
  next
    case False
    then have "r0 = RTMP_NEED_READ_MORE \<or> r0 = RTMP_OK"
      using p by (auto simp: ReadFmtCsid_def Let_def split: list.splits if_splits)
    with False run assms(2) show ?thesis by (auto simp: RTMP_OK_def)
  qed
qed

lemma ReceiveChunkStream_total: "rounds_left (ses y i) < n \<Longrightarrow> ReceiveChunkStream n now i y \<noteq> None"
proof (induction n arbitrary: y)
  case (Suc n)
  show ?case
  proof (cases "ReadChunkStream (ses y i)")
    case (Inr x)
    obtain s key r where x: "x = (s, key, r)" by (cases x)
    show ?thesis
    proof (cases "r < RTMP_OK \<or> r = RTMP_NEED_READ_MORE")
      case False
      have less: "rounds_left s < n" using ReadChunkStream_progress [OF Inr [unfolded x] False] Suc.prems by simp
      have "ReceiveChunkStream n now i (set_ses i s y) \<noteq> None" using less by (intro Suc.IH) (simp add: server)
      moreover have "ReceiveChunkStream n now i y2 \<noteq> None"
        if "handle_message now i k c (set_ses i s y) = Inr (y2, r2, brk)" for k c y2 r2 brk
      proof -
        have "rounds_left (ses y2 i) = rounds_left s"
          using handle_message_input [OF that] by (simp add: same_input_def rounds_left_def server)
        then show ?thesis using less by (intro Suc.IH) simp
      qed
      ultimately show ?thesis
        using False unfolding ReceiveChunkStream.simps Inr x
        by (simp add: Let_def del: not_None_eq split: option.split sum.split prod.split)
    qed (simp add: ReceiveChunkStream.simps Inr x Let_def)
  qed (simp add: ReceiveChunkStream.simps)
qed simp

text \<open>
  The reading loop itself needs no more than one round per octet and two more: \<open>OnRead\<close> ends with a new state or with a
  fault. One of the faults is \<open>NoReturn\<close>: the loop over the values of a command, which \<open>command_returns_iff\<close> describes.
\<close>

theorem OnRead_returns: "\<exists>res. OnRead H now i ret_code data y = Some res"
proof -
  have "chunk_part now i y \<noteq> None" for y
    using ReceiveChunkStream_total [of y i "length (recv (ses y i)) + 2" now]
    by (auto simp: chunk_part_def rounds_left_def del: not_None_eq split: option.split sum.split prod.split)
  then have "HandleRequest H now i y \<noteq> None" for y
    unfolding HandleRequest_def Let_def by (simp del: not_None_eq split: session_phase.split prod.split)
  then have "OnRead H now i ret_code data y \<noteq> None"
    unfolding OnRead_def by (simp del: not_None_eq split: option.split sum.split prod.split)
  then show ?thesis by blast
qed

section \<open>An example\<close>

text \<open>A server with a publisher and a player of the stream \<open>a/s\<close>, whose owner is given.\<close>

definition example_session :: "string \<Rightarrow> bool \<Rightarrow> rtmp_session" where
  "example_session sid pub = (new_RtmpSession sid (''10.0.0.'' @ sid) 0)\<lparr>chunk_size := 4096, phase := connect_phase,
     req := ready_request pub ''s'' (new_RtmpRequest\<lparr>req_app := ''a''\<rparr>), claimed := pub,
     play_writer := (if pub then None else Some 0)\<rparr>"

definition example_stream :: "string \<Rightarrow> media_stream" where
  "example_stream owner = new_MediaStream\<lparr>stream_key := ''a/s'', publisher_exist := True, publisher_id := owner,
     writer_map := [(''10.0.0.J'', 0)]\<rparr>"

definition example_server :: "string \<Rightarrow> rtmp_server" where
  "example_server owner =
     \<lparr>mgr = \<lparr>streams = [(''a/s'', example_stream owner)], cb_vec = [], catalog_updated_cbs = [], hls_writer = None,
        r2r_writer = None, play_cb = False,
        heap = (\<lambda>_. (new_RtmpWriter ''J'' (view_of (example_session ''J'' False)))\<lparr>rw_init := True\<rparr>), events = []\<rparr>,
      sessions = [(''P'', example_session ''P'' True), (''J'', example_session ''J'' False)], n_writers = 1, last_check_ms = 0\<rparr>"

lemma example_ses: "ses (example_server o') ''P'' = example_session ''P'' True" "ses (example_server o') ''J'' = example_session ''J'' False"
  by (simp_all add: ses_def example_server_def)

lemma example_find: "find_stream (mgr (example_server o')) ''a/s'' = Some (example_stream o')"
  by (simp add: find_stream_def example_server_def)

lemma example_req [simp]: "req_key (req (example_session sid pub)) = ''a/s''" "publish_flag (req (example_session sid pub)) = pub"
  "is_ready (req (example_session sid pub))" "claimed (example_session sid pub) = pub" "\<not> closed_flag (example_session sid pub)"
  "running (example_session sid pub)" "chunk_size (example_session sid pub) = 4096"
  by (simp_all add: example_session_def ready_request_def new_RtmpRequest_def new_RtmpSession_def)

section \<open>Who may feed a stream\<close>

text \<open>
  C22. Media of a session that lost its stream is dropped: while the stream belongs to somebody else, a media message
  of the session changes no stream, notifies nobody and reaches no connection.
\<close>

theorem superseded_media_is_dropped:
  assumes "find_stream (mgr y) (req_key (req (ses y i))) = Some s" "publisher_id s \<noteq> []" "publisher_id s \<noteq> i"
    and "handle_media now i cs y = Inr (y', r)"
  shows "streams (mgr y') = streams (mgr y) \<and> events (mgr y') = events (mgr y)
    \<and> (\<forall>j. wire (ses y' j) = wire (ses y j)) \<and> (\<forall>p. rw_sent (heap (mgr y') p) = rw_sent (heap (mgr y) p))"
proof -
  have "\<not> owns i y" using assms(1-3) by (simp add: owns_def owner_find)
  then have "y' = y \<or> y' = set_ses i ((ses y i)\<lparr>owner_drop_warn_s := now div 1000\<rparr>) y"
    using assms(4) by (auto simp: handle_media_def Let_def split: sum.splits option.splits)
  moreover have "events (mgr (set_ses i t y)) = events (mgr y)" for t by (simp add: set_ses_def on_heap_def on_mgr_def)
  moreover have "rw_sent (heap (mgr (set_ses i t y)) p) = rw_sent (heap (mgr y) p)" for t p
    by (simp add: set_ses_def on_heap_def on_mgr_def)
  ultimately show ?thesis by (auto simp: server)
qed

theorem superseded_media_is_dropped_witness:
  "\<exists>y' r. handle_media 5 ''P'' ((new_CoChunkStream 0 4 128)\<lparr>type_id := 18, chunk_data := [2, 0]\<rparr>) (example_server ''Q'') = Inr (y', r)
    \<and> streams (mgr y') = streams (mgr (example_server ''Q''))"
proof -
  let ?y = "example_server ''Q''" and ?c = "(new_CoChunkStream 0 4 128)\<lparr>type_id := 18, chunk_data := [2, 0]\<rparr>"
  have "\<exists>pkt. GetMediaPacket ?c (ses ?y ''P'') = Inr (Some pkt)"
    by (simp add: GetMediaPacket_def GetFlvMediaPacket_def finish_pkt_def Let_def FLV_TAG_VIDEO_def FLV_TAG_AUDIO_def
      FLV_TAG_META_DATA3_def FLV_TAG_META_DATA0_def FLV_TAG_AMF0_def new_Media_Packet_def)
  moreover have f: "find_stream (mgr ?y) (req_key (req (ses ?y ''P''))) = Some (example_stream ''Q'')"
    by (simp add: example_ses example_find)
  moreover have "publisher_id (example_stream ''Q'') = ''Q''" by (simp add: example_stream_def)
  ultimately obtain y' r where h: "handle_media 5 ''P'' ?c ?y = Inr (y', r)"
    by (auto simp: handle_media_def Let_def owns_def owner_find)
  show ?thesis using superseded_media_is_dropped [OF f _ _ h] h by (simp add: example_stream_def)
qed

text \<open>
  Closing is safe to repeat, and a publisher that closes touches at most its own stream: when the stream belongs to
  somebody else by then nothing changes; otherwise it is released, erased without players and emptied with
  players.
\<close>

theorem Close_releases_own_stream:
  assumes "\<not> closed_flag (ses y i)" "publish_flag (req (ses y i))" "claimed (ses y i)" "req_key (req (ses y i)) = k" "k \<noteq> []"
  shows "closed_flag (ses (Close i y) i) \<and> \<not> running (ses (Close i y) i) \<and> \<not> claimed (ses (Close i y) i)
    \<and> Close i (Close i y) = Close i y
    \<and> (\<forall>k'. k' \<noteq> k \<longrightarrow> find_stream (mgr (Close i y)) k' = find_stream (mgr y) k')
    \<and> (\<forall>s. find_stream (mgr y) k = Some s \<longrightarrow> find_stream (mgr (Close i y)) k =
        (if publisher_id s \<noteq> [] \<and> publisher_id s \<noteq> i then Some s
         else if writer_map s = [] then None
         else Some (s\<lparr>publisher_exist := False, publisher_id := [], clock_reset_pending := True, gop := Clear (gop s)\<rparr>)))"
proof -
  define m where "m = mgr (set_ses i ((ses y i)\<lparr>closed_flag := True, running := False\<rparr>) y)"
  have c: "Close i y = on_ses i (\<lambda>s. s\<lparr>claimed := False\<rparr>) (on_mgr (\<lambda>m. fst (ReleasePublisher k i m))
      (set_ses i ((ses y i)\<lparr>closed_flag := True, running := False\<rparr>) y))"
    using assms by (simp add: Close_def Let_def)
  have f: "find_stream (mgr (Close i y)) k' = find_stream (fst (ReleasePublisher k i m)) k'" for k'
    unfolding c by (simp add: server m_def find_stream_def)
  have m: "find_stream m k' = find_stream (mgr y) k'" for k' by (simp add: m_def server)
  have s: "ses (Close i y) i = (ses y i)\<lparr>closed_flag := True, running := False, claimed := False\<rparr>"
    unfolding c by (simp add: server)
  have other: "find_stream (fst (ReleasePublisher k i m)) k' = find_stream m k'" if "k' \<noteq> k" for k'
    using that by (auto simp: ReleasePublisher_def RemovePublisher_def Let_def table split: option.splits)
  have own: "find_stream (fst (ReleasePublisher k i m)) k = (if publisher_id s \<noteq> [] \<and> publisher_id s \<noteq> i then Some s
         else if writer_map s = [] then None
         else Some (s\<lparr>publisher_exist := False, publisher_id := [], clock_reset_pending := True, gop := Clear (gop s)\<rparr>))"
    if "find_stream m k = Some s" for s
    using that by (simp add: ReleasePublisher_def RemovePublisher_def Let_def table)
  have "Close i (Close i y) = Close i y" by (subst Close_def) (simp add: s)
  then show ?thesis using s other own by (simp add: f m)
qed

theorem Close_releases_own_stream_witness:
  "\<exists>s. find_stream (mgr (Close ''P'' (example_server ''P''))) ''a/s'' = Some s \<and> \<not> publisher_exist s \<and> publisher_id s = []"
  using Close_releases_own_stream [of "example_server ''P''" "''P''" "''a/s''"]
  by (simp add: example_ses example_find) (simp add: example_stream_def)

text \<open>Nothing another session does on closing takes a stream away from its owner.\<close>

definition held :: "string \<Rightarrow> string \<Rightarrow> rtmp_server \<Rightarrow> bool" where
  "held k i y \<longleftrightarrow> (\<exists>s. find_stream (mgr y) k = Some s \<and> publisher_id s = i \<and> publisher_exist s)"

lemma held_updates [server]:
  "held k i (set_ses j s y) = held k i y" "held k i (erase_session j y) = held k i y" "held k i (free_writer p y) = held k i y"
  by (simp_all add: held_def server)

lemma held_RemovePlayer: "held k i y \<Longrightarrow> held k i (on_mgr (RemovePlayer V p) y)"
  by (auto simp: held_def server RemovePlayer_def Let_def table split: option.split)

lemma held_Release: "held k i y \<Longrightarrow> i \<noteq> [] \<Longrightarrow> j \<noteq> i \<Longrightarrow> held k i (on_mgr (\<lambda>m. fst (ReleasePublisher k' j m)) y)"
  by (auto simp: held_def server ReleasePublisher_def RemovePublisher_def Let_def table split: option.split)

lemma held_Close: "held k i y \<Longrightarrow> i \<noteq> [] \<Longrightarrow> j \<noteq> i \<Longrightarrow> held k i (Close j y)"
  by (auto simp: Close_def Let_def server held_RemovePlayer held_Release split: option.split)

lemma held_Kick: "held k i y \<Longrightarrow> i \<noteq> [] \<Longrightarrow> j \<noteq> i \<Longrightarrow> held k i (fst (KickSession j y))"
  by (simp add: KickSession_def server held_Close)

lemma ClaimPublisher_held:
  "ClaimPublisher now k i m = (m', a, previous) \<Longrightarrow> a \<noteq> kRejected \<Longrightarrow>
    \<exists>s. find_stream m' k = Some s \<and> publisher_id s = i \<and> publisher_exist s"
  by (auto simp: ClaimPublisher_def take_over_def Let_def table split: option.splits if_splits prod.splits)

lemma OnPublishReady_held:
  assumes "OnPublishReady now i y = (y', True)" "\<not> claimed (ses y i)" "publish_flag (req (ses y i))"
    and "req_key (req (ses y i)) = k" "k \<noteq> []" "i \<noteq> []"
  shows "held k i y' \<and> claimed (ses y' i) \<and> req (ses y' i) = req (ses y i)"
proof -
  obtain m a previous where c: "ClaimPublisher now k i (mgr y) = (m, a, previous)"
    by (cases "ClaimPublisher now k i (mgr y)") auto
  have h: "held k i (y\<lparr>mgr := m\<rparr>)" if "a \<noteq> kRejected"
    using ClaimPublisher_held [OF c that] by (simp add: held_def)
  have kick: "held k i (fst (KickSession previous (y\<lparr>mgr := m\<rparr>)))
      \<and> req (ses (fst (KickSession previous (y\<lparr>mgr := m\<rparr>))) i) = req (ses y i)" if "a = kTakeOver"
  proof -
    have p: "previous \<noteq> i" using take_over_previous c that by blast
    then have "ses (Close previous (y\<lparr>mgr := m\<rparr>)) i = ses y i"
      by (auto simp: Close_def Let_def server split: option.split)
    with p show ?thesis using h that assms(6) by (auto simp: held_Kick KickSession_def server held_Close)
  qed
  show ?thesis
    using assms(1) h kick by (cases a) (auto simp: OnPublishReady_def assms(2-5) c server)
qed

text \<open>
  C21. A \<open>publish\<close> command that is answered with success names a stream: application and name are not empty, and the key is
  the two with a slash between. When the session had claimed nothing before, it is now the owner of that stream, and its
  media is accepted until somebody else claims the key. When it had claimed one before, the command claims nothing: the
  table of streams is left as it was, whatever name the command gives.
\<close>

theorem publish_makes_owner:
  assumes "HandleRtmpPublishCommand now i vs y = Inr (y', r)" "0 \<le> r" "i \<noteq> []"
  shows "req_app (req (ses y' i)) \<noteq> [] \<and> stream_name (req (ses y' i)) \<noteq> []
    \<and> req_key (req (ses y' i)) = req_app (req (ses y' i)) @ ''/'' @ stream_name (req (ses y' i))
    \<and> (if claimed (ses y i) then streams (mgr y') = streams (mgr y) else owns i y')"
proof -
  from assms(1,2) obtain s where p: "publish_request vs (ses y i) = Inr (s, True)"
    by (auto simp: HandleRtmpPublishCommand_def split: sum.splits prod.splits if_splits)
  from p have s: "claimed s = claimed (ses y i)" "publish_flag (req s)" "req_app (req s) \<noteq> []" "stream_name (req s) \<noteq> []"
      "req_key (req s) = req_app (req s) @ ''/'' @ stream_name (req s)"
    by (auto simp: publish_request_def ready_request_def split: sum.splits prod.splits if_splits)
  from assms(1,2) p obtain y1 where o1: "OnPublishReady now i (set_ses i s y) = (y1, True)"
    and l: "lift_ses i (SendRtmpPublishResp now (ses y1 i)) y1 = Inr (y', r)"
    by (auto simp: HandleRtmpPublishCommand_def split: prod.splits if_splits)
  obtain s' where s': "SendRtmpPublishResp now (ses y1 i) = Inr (s', r)" "y' = set_ses i s' y1"
    using l by (auto simp: lift_ses_def split: sum.splits prod.splits)
  have y1: "if claimed (ses y i) then y1 = set_ses i s y
      else held (req_key (req s)) i y1 \<and> claimed (ses y1 i) \<and> req (ses y1 i) = req s"
  proof (cases "claimed (ses y i)")
    case True
    then show ?thesis using o1 s(1) by (simp add: OnPublishReady_def Let_def server)
  next
    case False
    then show ?thesis using OnPublishReady_held [OF o1] s assms(3) by (simp add: server)
  qed
  have r: "req s' = req s" using PublishResp_req [OF s'(1)] y1 by (simp add: server split: if_splits)
  have "claimed s'" if "\<not> claimed (ses y i)"
    using core_recv [of s' "ses y1 i"] answers_frame(4) [of "ses y1 i" now] y1 that by (simp add: s')
  then show ?thesis using y1 s r unfolding owns_def s'(2) by (auto simp: server owner_find held_def)
qed

theorem publish_makes_owner_witness:
  "\<exists>y'. HandleRtmpPublishCommand 5 ''J'' [AmfString (ascii ''publish''), AmfNull, AmfString (ascii ''s'')] (example_server []) = Inr (y', 0)
    \<and> owns ''J'' y'"
proof -
  let ?y = "example_server []" and ?vs = "[AmfString (ascii ''publish''), AmfNull, AmfString (ascii ''s'')]"
  define s where "s = example_session ''J'' False\<lparr>req := ready_request True ''s'' (req (example_session ''J'' False))\<rparr>"
  have s: "claimed s = False" "publish_flag (req s)" "req_key (req s) = ''a/s''" "running s" "chunk_size s = 4096"
    by (simp_all add: s_def example_session_def ready_request_def new_RtmpRequest_def new_RtmpSession_def)
  have p: "publish_request ?vs (ses ?y ''J'') = Inr (s, True)"
    by (simp add: publish_request_def example_ses s_def) (simp add: example_session_def ready_request_def new_RtmpRequest_def)
  have c: "snd (ClaimPublisher 5 ''a/s'' ''J'' (mgr (set_ses ''J'' s ?y))) = (kReused, [])"
    by (simp add: ClaimPublisher_def server example_find) (simp add: example_stream_def)
  have o1: "OnPublishReady 5 ''J'' (set_ses ''J'' s ?y) =
      (on_ses ''J'' (\<lambda>s. s\<lparr>claimed := True\<rparr>) (set_ses ''J'' s ?y\<lparr>mgr := fst (ClaimPublisher 5 ''a/s'' ''J'' (mgr (set_ses ''J'' s ?y)))\<rparr>), True)"
    using c by (cases "ClaimPublisher 5 ''a/s'' ''J'' (mgr (set_ses ''J'' s ?y))") (simp add: OnPublishReady_def server s)
  have "\<exists>x. SendRtmpPublishResp 5 (s\<lparr>claimed := True\<rparr>) = Inr (x, RTMP_OK)"
    by (simp add: SendRtmpPublishResp_def send_command_def message_chunks_def s send_chunks_running Let_def)
  then obtain y' where h: "HandleRtmpPublishCommand 5 ''J'' ?vs ?y = Inr (y', 0)"
    by (auto simp: HandleRtmpPublishCommand_def p o1 server lift_ses_def RTMP_OK_def)
  have "owns ''J'' y'" using publish_makes_owner [OF h] by (simp add: example_ses split: if_splits)
  with h show ?thesis by blast
qed

end
