(* ===== verification/Rtmp_Delivery.thy ===== *)
theory Rtmp_Delivery
  imports Rtmp_Server_Facts
begin

text \<open>
  The fan-out of a publisher's packet to RTMP players: what reaches their connections, obtained from the
  delivery lemma of \<open>av_writer\<close> through its interpretation on \<open>RtmpWriter\<close>, and two ways in which a player can bring the
  whole server down.
\<close>

lemma heap_updates [server]:
  "heap (mgr (set_ses i s y)) p = (if rw_session (heap (mgr y) p) = i then (heap (mgr y) p)\<lparr>rw_view := view_of s\<rparr> else heap (mgr y) p)"
  "heap (mgr (on_heap f y)) p = f (heap (mgr y) p)"
  "heap (mgr (erase_session i y)) p =
     (if rw_session (heap (mgr y) p) = i then (heap (mgr y) p)\<lparr>rw_orphan := True\<rparr> else heap (mgr y) p)"
  "heap (mgr (free_writer q y)) p = (if p = q then (heap (mgr y) p)\<lparr>rw_freed := True\<rparr> else heap (mgr y) p)"
  by (simp_all add: set_ses_def on_heap_def on_mgr_def erase_session_def free_writer_def set_writer_def)

lemma side_writers [server]:
  "hls_writer (mgr (set_ses i s y)) = hls_writer (mgr y)" "r2r_writer (mgr (set_ses i s y)) = r2r_writer (mgr y)"
  "hls_writer (mgr (erase_session i y)) = hls_writer (mgr y)" "r2r_writer (mgr (erase_session i y)) = r2r_writer (mgr y)"
  "hls_writer (mgr (free_writer p y)) = hls_writer (mgr y)" "r2r_writer (mgr (free_writer p y)) = r2r_writer (mgr y)"
  by (simp_all add: set_ses_def on_heap_def on_mgr_def erase_session_def free_writer_def set_writer_def)

lemma n_writers_updates [server]:
  "n_writers (set_ses i s y) = n_writers y" "n_writers (on_heap f y) = n_writers y" "n_writers (on_mgr g y) = n_writers y"
  "n_writers (erase_session i y) = n_writers y" "n_writers (free_writer q y) = n_writers y"
  by (simp_all add: set_ses_def on_heap_def on_mgr_def erase_session_def free_writer_def)

lemma writer_fault_None: "writer_fault y = None \<longleftrightarrow> (\<forall>p < n_writers y. rw_fault (heap (mgr y) p) = None)"
proof -
  let ?f = "\<lambda>p. rw_fault (heap (mgr y) p)"
  have m: "List.map_filter f xs = [] \<longleftrightarrow> (\<forall>x\<in>set xs. f x = None)" for f :: "nat \<Rightarrow> fault option" and xs
    by (induction xs) (simp_all add: List.map_filter_def split: option.split)
  have "writer_fault y = None \<longleftrightarrow> List.map_filter ?f [0..<n_writers y] = []"
    by (simp add: writer_fault_def split: list.split)
  then show ?thesis unfolding m by auto
qed

lemma wire_absorb: "wire (snd (absorb now y (i, s))) = wire s @
    concat (map (\<lambda>p. if rw_session (heap (mgr y) p) = i then rw_sent (heap (mgr y) p) else []) [0..<n_writers y])"
  by (simp add: absorb_def Let_def)

section \<open>Players get the media\<close>

lemma deliver_healthy:
  assumes "healthy w" "writer_route q \<noteq> None" "\<forall>x\<in>set (replay g). writer_route x \<noteq> None"
  shows "fst (deliver rtmp_ops g q w) = w\<lparr>rw_init := True, rw_sent := rw_sent w @
      concat (map (packet_chunks (vw_chunk_size (rw_view w))) (if rw_init w then [q] else replay g))\<rparr>"
    "0 \<le> snd (deliver rtmp_ops g q w)"
proof -
  have h: "healthy (w\<lparr>rw_init := True\<rparr>)" using assms(1) by (simp add: healthy_def)
  note wa = healthy_write_all [OF h assms(3), of 0]
  show "fst (deliver rtmp_ops g q w) = w\<lparr>rw_init := True, rw_sent := rw_sent w @
      concat (map (packet_chunks (vw_chunk_size (rw_view w))) (if rw_init w then [q] else replay g))\<rparr>"
    using wa healthy_write [OF assms(1,2)] by (simp add: deliver_def)
  show "0 \<le> snd (deliver rtmp_ops g q w)"
    using wa healthy_write [OF assms(1,2)] by (simp add: deliver_def RTMP_OK_def)
qed

text \<open>
  The situation of the delivery theorem: the stream's players are running sessions, their writers are
  registered under their own key and id, nothing is queued and no writer has faulted.
\<close>

definition serving :: "rtmp_server \<Rightarrow> string \<Rightarrow> media_stream \<Rightarrow> bool" where
  "serving y k s \<longleftrightarrow> table_inv (mgr y) \<and> find_stream (mgr y) k = Some s \<and> bound rtmp_ops (heap (mgr y)) k (writer_map s)
     \<and> hls_writer (mgr y) = None \<and> r2r_writer (mgr y) = None
     \<and> (\<forall>(wid, p)\<in>set (writer_map s). healthy (heap (mgr y) p))
     \<and> (\<forall>p < n_writers y. rw_fault (heap (mgr y) p) = None \<and> rw_sent (heap (mgr y) p) = [])"

lemma only_writer:
  fixes f :: "nat \<Rightarrow> 'a list"
  assumes "p < n" "\<forall>p' < n. p' \<noteq> p \<longrightarrow> f p' = []"
  shows "concat (map f [0..<n]) = f p"
proof -
  have "[0..<n] = [0..<p] @ p # [Suc p..<n]" using upt_add_eq_append [of 0 p "n - p"] assms(1) by (simp add: upt_conv_Cons)
  moreover have "concat (map f [0..<p]) = []" "concat (map f [Suc p..<n]) = []" using assms by auto
  ultimately show ?thesis by (simp del: concat_eq_Nil_conv)
qed

text \<open>
  C3. A packet of the owner reaches every player: the connection of a player session gets, behind what it was sent before,
  exactly the chunks of the packet (with the stream's timestamps) when the player is running already, and of the whole
  replay of the GOP cache when it is new.
\<close>

theorem media_reaches_players:
  assumes "serving y k s" "pkt_key pkt = k" "k \<noteq> []"
    and n: "NormalizeDts now (s\<lparr>publisher_exist := True\<rparr>) pkt = (s1, q)"
    and g: "g = fst (InsertPacket (gop s) (Some q))"
    and routes: "writer_route q \<noteq> None" "\<forall>x\<in>set (replay g). writer_route x \<noteq> None"
    and p: "(wid, p) \<in> set (writer_map s)" "p < n_writers y" "rw_session (heap (mgr y) p) = j"
    and only: "\<forall>p' < n_writers y. p' \<noteq> p \<longrightarrow> rw_session (heap (mgr y) p') \<noteq> j"
    and j: "map_of (sessions y) j \<noteq> None"
  shows "\<exists>y'. publish_media now pkt y = Inr y' \<and> wire (ses y' j) = wire (ses y j) @
      concat (map (packet_chunks (vw_chunk_size (rw_view (heap (mgr y) p)))) (if rw_init (heap (mgr y) p) then [q] else replay g))"
proof -
  obtain m cnt where w: "WriterMediaPacket rtmp_ops now (Some pkt) (mgr y) = (m, cnt)" by force
  from assms(1) have sv: "table_inv (mgr y)" "find_stream (mgr y) k = Some s" "bound rtmp_ops (heap (mgr y)) k (writer_map s)"
    "hls_writer (mgr y) = None" "r2r_writer (mgr y) = None"
    and hp: "\<And>wid p. (wid, p) \<in> set (writer_map s) \<Longrightarrow> healthy (heap (mgr y) p)"
    and calm: "\<And>p. p < n_writers y \<Longrightarrow> rw_fault (heap (mgr y) p) = None" "\<And>p. p < n_writers y \<Longrightarrow> rw_sent (heap (mgr y) p) = []"
    by (auto simp: serving_def)
  have del: "heap m p = (if p \<in> snd ` set (writer_map s) then fst (deliver rtmp_ops g q (heap (mgr y) p)) else heap (mgr y) p)" for p
    using rtmp.media_is_delivered [OF sv(1-3) assms(2,3) n g w] sv(4,5) by auto
  define y1 where "y1 = on_mgr (\<lambda>m. fst (WriterMediaPacket rtmp_ops now (Some pkt) m)) y"
  have h1: "heap (mgr y1) = heap m" "n_writers y1 = n_writers y" "sessions y1 = sessions y"
    by (simp_all add: y1_def w on_mgr_def)
  have hw: "heap m p' = (heap (mgr y) p')\<lparr>rw_init := True, rw_sent := rw_sent (heap (mgr y) p') @
      concat (map (packet_chunks (vw_chunk_size (rw_view (heap (mgr y) p')))) (if rw_init (heap (mgr y) p') then [q] else replay g))\<rparr>"
    if "p' \<in> snd ` set (writer_map s)" for p'
    using that del [of p'] hp deliver_healthy(1) [OF _ routes] by auto
  have keep: "rw_session (heap m p') = rw_session (heap (mgr y) p')" "rw_fault (heap m p') = rw_fault (heap (mgr y) p')" for p'
    using hw [of p'] del [of p'] by (cases "p' \<in> snd ` set (writer_map s)"; simp)+
  have "writer_fault y1 = None" using calm(1) by (simp add: writer_fault_None h1 keep)
  then have pm: "publish_media now pkt y = Inr (collect now y1)" by (simp add: publish_media_def y1_def [symmetric] Let_def)
  have "concat (map (\<lambda>p. if rw_session (heap (mgr y1) p) = j then rw_sent (heap (mgr y1) p) else []) [0..<n_writers y1])
      = rw_sent (heap m p)"
    using p only by (subst only_writer [where p = p]) (simp_all add: h1 keep)
  moreover have "rw_sent (heap m p) =
      concat (map (packet_chunks (vw_chunk_size (rw_view (heap (mgr y) p)))) (if rw_init (heap (mgr y) p) then [q] else replay g))"
    using hw [of p] p calm(2) by (force simp: image_iff)
  ultimately have "wire (ses (collect now y1) j) = wire (ses y1 j) @
      concat (map (packet_chunks (vw_chunk_size (rw_view (heap (mgr y) p)))) (if rw_init (heap (mgr y) p) then [q] else replay g))"
    by (simp only: ses_collect h1(3) j if_False wire_absorb)
  then show ?thesis using pm by (simp add: y1_def server)
qed

definition example_packet :: media_packet where
  "example_packet = new_Media_Packet\<lparr>av_type := MEDIA_AUDIO_TYPE, dts := 10, pts := 10, pkt_key := ''a/s'', payload := [0xaf, 1, 2]\<rparr>"

lemma example_normalized:
  obtains s1 q where "NormalizeDts 5 (example_stream o'\<lparr>publisher_exist := True\<rparr>) example_packet = (s1, q)"
    "av_type q = MEDIA_AUDIO_TYPE" "\<not> is_seq_hdr q" "dts q = 10" "payload q = [0xaf, 1, 2]" "streamid q = 0"
  by (simp add: NormalizeDts_def Let_def example_packet_def new_Media_Packet_def rebase_def example_stream_def new_MediaStream_def
      set_last_in_def warn_skew_def last_in_of_def)

lemma example_writer: "heap (mgr (example_server o')) p = (new_RtmpWriter ''J'' (view_of (example_session ''J'' False)))\<lparr>rw_init := True\<rparr>"
  by (simp add: example_server_def)

lemma example_healthy: "healthy (heap (mgr (example_server o')) p)"
  by (simp add: example_writer healthy_def new_RtmpWriter_def view_of_def)

lemma example_serving: "serving (example_server ''P'') ''a/s'' (example_stream ''P'')"
proof -
  have "table_inv (mgr (example_server ''P''))"
    by (simp add: table_inv_def keys_distinct_def example_server_def find_stream_def stream_ok_def example_stream_def)
  moreover have "bound rtmp_ops (heap (mgr (example_server ''P''))) ''a/s'' (writer_map (example_stream ''P''))"
    by (simp add: bound_def example_writer example_stream_def new_RtmpWriter_def view_of_def)
      (simp add: example_session_def new_RtmpSession_def)
  ultimately show ?thesis
    using example_healthy by (simp add: serving_def example_find)
      (simp add: example_server_def new_RtmpWriter_def)
qed

theorem media_reaches_players_witness:
  "\<exists>y'. publish_media 5 example_packet (example_server ''P'') = Inr y'
    \<and> wire (ses y' ''J'') = [[4, 0, 0, 10, 0, 0, 3, 8, 0, 0, 0, 0, 0xaf, 1, 2]]"
proof -
  obtain s1 q where n: "NormalizeDts 5 (example_stream ''P''\<lparr>publisher_exist := True\<rparr>) example_packet = (s1, q)"
    and q: "av_type q = MEDIA_AUDIO_TYPE" "\<not> is_seq_hdr q" "dts q = 10" "payload q = [0xaf, 1, 2]" "streamid q = 0"
    by (rule example_normalized)
  let ?g = "fst (InsertPacket (gop (example_stream ''P'')) (Some q))"
  have "\<forall>x\<in>set (replay ?g). writer_route x \<noteq> None"
    using q by (auto simp: replay_def nonempty_hdr_def example_stream_def new_MediaStream_def new_GopCache_def InsertPacket_def
        writer_route_def split: option.splits if_splits)
  moreover have "writer_route q \<noteq> None" using q by (simp add: writer_route_def)
  moreover have "pkt_key example_packet = ''a/s''" by (simp add: example_packet_def)
  moreover have "(''10.0.0.J'', 0) \<in> set (writer_map (example_stream ''P''))" by (simp add: example_stream_def)
  moreover have "rw_session (heap (mgr (example_server ''P'')) 0) = ''J''" "rw_init (heap (mgr (example_server ''P'')) 0)"
    by (simp_all add: example_writer new_RtmpWriter_def)
  moreover have "n_writers (example_server ''P'') = 1" "map_of (sessions (example_server ''P'')) ''J'' \<noteq> None"
    by (simp_all add: example_server_def)
  ultimately have "\<exists>y'. publish_media 5 example_packet (example_server ''P'') = Inr y' \<and> wire (ses y' ''J'') =
      wire (ses (example_server ''P'') ''J'') @ packet_chunks 4096 q"
    using media_reaches_players [OF example_serving _ _ n refl, of "''10.0.0.J''" 0 "''J''"]
    by (simp add: example_writer) (simp add: new_RtmpWriter_def view_of_def)
  moreover have "packet_chunks 4096 q = [[4, 0, 0, 10, 0, 0, 3, 8, 0, 0, 0, 0, 0xaf, 1, 2]]"
  proof -
    have w: "Write3Bytes 10 = [0, 0, 10]" "Write3Bytes 3 = [0, 0, 3]" "Write4Bytes 0 = [0, 0, 0, 0]"
      by (simp_all add: Write3Bytes_def Write4Bytes_def be_bytes_numeral)
    show ?thesis
      by (simp add: packet_chunks_def writer_route_def q message_chunks_def chunk_count_def chunk_slice_def GenData_def
        new_CoChunkStream_def w Let_def)
  qed
  moreover have "wire (ses (example_server ''P'') ''J'') = []" by (simp add: example_ses example_session_def new_RtmpSession_def)
  ultimately show ?thesis by simp
qed

section \<open>What a player can break\<close>

lemma first_fault:
  assumes "\<forall>p < n_writers y. rw_fault (heap (mgr y) p) \<in> {None, Some e}" "p < n_writers y" "rw_fault (heap (mgr y) p) = Some e"
  shows "writer_fault y = Some e"
proof -
  let ?f = "\<lambda>p. rw_fault (heap (mgr y) p)"
  have m: "\<forall>x\<in>set xs. ?f x \<in> {None, Some e} \<Longrightarrow> set (List.map_filter ?f xs) \<subseteq> {e}" for xs
    by (induction xs) (auto simp: List.map_filter_def)
  have "set (List.map_filter ?f [0..<n_writers y]) \<subseteq> {e}" using assms(1) by (intro m) auto
  moreover have "writer_fault y \<noteq> None" unfolding writer_fault_None using assms(2,3) by auto
  ultimately show ?thesis by (auto simp: writer_fault_def split: list.splits)
qed

text \<open>What a packet does to a writer's fault: a property of writers that no write breaks.\<close>

lemma deliver_preserves:
  assumes "P w" "\<And>b. P (w\<lparr>rw_init := b\<rparr>)" "\<And>w pkt. P w \<Longrightarrow> P (fst (rw_WritePacket w pkt))"
  shows "P (fst (deliver rtmp_ops g q w))"
proof -
  have "P v \<Longrightarrow> P (fst (write_all rtmp_ops v ps r))" for v ps r
  proof (induction ps arbitrary: v r)
    case (Cons x ps)
    then show ?case using assms(3) [of v x] by (simp split: prod.split) (metis fst_conv)
  qed simp
  then show ?thesis using assms by (simp add: deliver_def)
qed

lemma faulted_fan_out:
  assumes "find_stream (mgr y) k = Some s" "distinct (map snd (writer_map s))" "pkt_key pkt = k" "k \<noteq> []"
    and "NormalizeDts now (s\<lparr>publisher_exist := True\<rparr>) pkt = (s1, q)" "g = fst (InsertPacket (gop s) (Some q))"
    and "hls_writer (mgr y) = None" "r2r_writer (mgr y) = None"
    and "p \<in> snd ` set (writer_map s)" "p < n_writers y"
    and "rw_fault (fst (deliver rtmp_ops g q (heap (mgr y) p))) = Some e"
    and "\<forall>p' < n_writers y. rw_fault (heap (mgr y) p') = None"
    and "\<forall>p' \<in> snd ` set (writer_map s). p' < n_writers y \<longrightarrow> rw_fault (fst (deliver rtmp_ops g q (heap (mgr y) p'))) \<in> {None, Some e}"
  shows "publish_media now pkt y = Inl e"
proof -
  let ?y = "on_mgr (\<lambda>m. fst (WriterMediaPacket rtmp_ops now (Some pkt) m)) y"
  have h: "heap (mgr ?y) p' = (if p' \<in> snd ` set (writer_map s) then fst (deliver rtmp_ops g q (heap (mgr y) p')) else heap (mgr y) p')" for p'
    using WriterMediaPacket_heap [OF assms(1-8), of rtmp_ops p'] by (simp add: server)
  have n: "n_writers ?y = n_writers y" by (simp add: server)
  have "writer_fault ?y = Some e"
    by (rule first_fault [where p = p]; unfold h n) (use assms(9-13) in auto)
  then show ?thesis by (simp add: publish_media_def Let_def)
qed

text \<open>A writer whose session is there; the only fault a write can bring it is a division by the chunk size.\<close>

definition live_writer :: "rtmp_writer \<Rightarrow> bool" where
  "live_writer w \<longleftrightarrow> \<not> rw_freed w \<and> \<not> rw_orphan w"

lemma live_writer_faults:
  assumes "live_writer w" "rw_fault w = None"
  shows "rw_fault (fst (deliver rtmp_ops g q w)) \<in> {None, Some DivByZero}"
proof -
  have "live_writer (fst (deliver rtmp_ops g q w)) \<and> rw_fault (fst (deliver rtmp_ops g q w)) \<in> {None, Some DivByZero}"
    by (rule deliver_preserves)
      (use assms in \<open>auto simp: live_writer_def rw_WritePacket_def message_chunks_def Let_def split: option.splits prod.splits\<close>)
  then show ?thesis ..
qed

text \<open>A writer that is not freed itself and has a chunk size: only the deletion of its session can fault it.\<close>

lemma deleted_writer_faults:
  assumes "\<not> rw_freed w \<and> (rw_orphan w \<or> vw_chunk_size (rw_view w) \<noteq> 0)" "rw_fault w = None"
  shows "rw_fault (fst (deliver rtmp_ops g q w)) \<in> {None, Some UseAfterFree}"
proof -
  define P where "P w \<longleftrightarrow> \<not> rw_freed w \<and> (rw_orphan w \<or> vw_chunk_size (rw_view w) \<noteq> 0) \<and> rw_fault w \<in> {None, Some UseAfterFree}"
    for w :: rtmp_writer
  have "P (fst (deliver rtmp_ops g q w))"
    by (rule deliver_preserves [where P = P])
      (use assms in \<open>auto simp: P_def rw_WritePacket_def message_chunks_def Let_def split: option.splits prod.splits\<close>)
  then show ?thesis by (simp add: P_def)
qed

text \<open>
  C35. A player that sends Set Chunk Size 0 takes the server down: the message is accepted, the next packet written to its
  writer divides by the chunk size, and that division, which nothing handles, is how the fan-out of the packet ends. All
  other writers may be anything with a session behind it.
\<close>

theorem zero_chunk_size_crashes:
  assumes "find_stream (mgr y) k = Some s" "distinct (map snd (writer_map s))" "pkt_key pkt = k" "k \<noteq> []"
    and "NormalizeDts now (s\<lparr>publisher_exist := True\<rparr>) pkt = (s1, q)" "writer_route q \<noteq> None"
    and "hls_writer (mgr y) = None" "r2r_writer (mgr y) = None"
    and p: "(wid, p) \<in> set (writer_map s)" "p < n_writers y"
    and w: "rw_session (heap (mgr y) p) = j" "rw_init (heap (mgr y) p)" "healthy (heap (mgr y) p)"
    and others: "\<forall>p' < n_writers y. live_writer (heap (mgr y) p') \<and> rw_fault (heap (mgr y) p') = None"
    and cs: "type_id cs = 1" "chunk_data cs = [0, 0, 0, 0]"
    and y': "y' = set_ses j (fst (HandleRtmpControlMessage now cs True (ses y j))) y"
  shows "snd (HandleRtmpControlMessage now cs True (ses y j)) = RTMP_OK
    \<and> rw_fault (fst (rw_WritePacket (heap (mgr y') p) q)) = Some DivByZero
    \<and> publish_media now pkt y' = Inl DivByZero"
proof -
  let ?s = "fst (HandleRtmpControlMessage now cs True (ses y j))"
  have z: "u32_at [0, 0, 0, 0] = 0" by (simp add: u32_at_def Read4Bytes_def read_be_def)
  have "chunk_size ?s = 0"
    using cs z by (simp add: HandleRtmpControlMessage_def Let_def SendSetChunksize_def RtmpSend_def)
  then have v: "vw_chunk_size (rw_view (heap (mgr y') p)) = 0" using w(1) by (simp add: y' server view_of_def)
  have h: "heap (mgr y') p = (heap (mgr y) p)\<lparr>rw_view := view_of ?s\<rparr>" using w(1) by (simp add: y' server)
  have f: "rw_fault (fst (rw_WritePacket (heap (mgr y') p) q)) = Some DivByZero"
    using v w assms(6) unfolding h by (auto simp: rw_WritePacket_def healthy_def message_chunks_def)
  then have d: "rw_fault (fst (deliver rtmp_ops g q (heap (mgr y') p))) = Some DivByZero" for g
    using w(2) by (simp add: h deliver_def)
  have o: "live_writer (heap (mgr y') p') \<and> rw_fault (heap (mgr y') p') = None" if "p' < n_writers y" for p'
    using others that by (simp add: y' server live_writer_def)
  have "publish_media now pkt y' = Inl DivByZero"
  proof (rule faulted_fan_out [OF _ assms(2-5) refl _ _ _ _ d])
    show "p \<in> snd ` set (writer_map s)" using p(1) by force
  qed (use assms(1,7,8) p(2) o live_writer_faults in \<open>auto simp: y' server\<close>)
  then show ?thesis using f cs by (simp add: HandleRtmpControlMessage_def Let_def)
qed

lemma AddPlayer_heap: "p' \<noteq> p \<Longrightarrow> heap (fst (AddPlayer V (Some p) m)) p' = heap m p'"
  by (simp add: AddPlayer_def Let_def put_stream_def emit_def set_writer_def split: option.split prod.split)

lemma AddPlayer_side:
  "hls_writer (fst (AddPlayer V (Some p) m)) = hls_writer m" "r2r_writer (fst (AddPlayer V (Some p) m)) = r2r_writer m"
  by (auto simp: AddPlayer_def RemovePlayer_def Let_def put_stream_def erase_stream_def emit_def set_writer_def split: option.split prod.split)

lemma RemovePlayer_side:
  "hls_writer (RemovePlayer V p m) = hls_writer m" "r2r_writer (RemovePlayer V p m) = r2r_writer m"
  by (auto simp: RemovePlayer_def Let_def put_stream_def erase_stream_def split: option.split)

lemma collect_mgr [server]:
  "find_stream (mgr (collect now y)) k = find_stream (mgr y) k" "hls_writer (mgr (collect now y)) = hls_writer (mgr y)"
  "r2r_writer (mgr (collect now y)) = r2r_writer (mgr y)" "heap (mgr (collect now y)) p = (heap (mgr y) p)\<lparr>rw_sent := []\<rparr>"
  "n_writers (collect now y) = n_writers y"
  by (simp_all add: collect_def server) (simp_all add: on_heap_def on_mgr_def)

lemma write_all_session: "rw_session (fst (write_all rtmp_ops w ps r)) = rw_session w"
proof (induction ps arbitrary: w r)
  case (Cons p ps)
  then show ?case using rw_WritePacket_keeps(1) [of w p] by (simp split: prod.split) (metis fst_conv)
qed simp

lemma AddPlayer_session: "rw_session (heap (fst (AddPlayer rtmp_ops (Some p) m)) p) = rw_session (heap m p)"
  unfolding AddPlayer_def option.case Let_def WriterGop_replays_raw
  by (simp add: case_prod_unfold put_stream_def emit_def set_writer_def write_all_session split: option.split)

text \<open>
  What a session that starts to play leaves of a writer it had before: the stream it is registered with is not
  touched when it is another one than the request now names.
\<close>

lemma start_play_elsewhere:
  assumes "start_play now i y = Inr y1" "req_key (req (ses y i)) \<noteq> k"
  shows "find_stream (mgr y1) k = find_stream (mgr y) k" "req (ses y1 i) = req (ses y i)" "closed_flag (ses y1 i) = closed_flag (ses y i)"
    and "play_writer (ses y1 i) = Some (n_writers y)" "n_writers y1 = Suc (n_writers y)"
    and "rw_session (heap (mgr y1) (n_writers y)) = i"
    and "p < n_writers y \<Longrightarrow> heap (mgr y1) p = (heap (mgr y) p)\<lparr>rw_view := if rw_session (heap (mgr y) p) = i
        then view_of (ses y i) else rw_view (heap (mgr y) p), rw_sent := []\<rparr>"
    and "hls_writer (mgr y1) = hls_writer (mgr y)" "r2r_writer (mgr y1) = r2r_writer (mgr y)"
    and "p' < Suc (n_writers y) \<Longrightarrow> rw_fault (heap (mgr y1) p') = None"
proof -
  let ?n = "n_writers y"
  define y0 where "y0 = new_player i y"
  define y2 where "y2 = on_mgr (\<lambda>m. fst (AddPlayer rtmp_ops (Some ?n) m)) y0"
  have y1: "y1 = collect now y2" and nf: "writer_fault y2 = None"
    using assms(1) by (auto simp: start_play_def y2_def y0_def Let_def split: option.splits)
  have v: "view_of ((ses y i)\<lparr>play_writer := Some ?n\<rparr>) = view_of (ses y i)" by (simp add: view_of_def)
  have n: "heap (mgr y0) ?n = new_RtmpWriter i (view_of (ses y i))"
    by (simp add: y0_def new_player_def server v) (simp add: on_mgr_def set_writer_def new_RtmpWriter_def)
  have s0: "find_stream (mgr y0) k = find_stream (mgr y) k" "ses y0 i = (ses y i)\<lparr>play_writer := Some ?n\<rparr>"
    "n_writers y0 = Suc ?n" "hls_writer (mgr y0) = hls_writer (mgr y)" "r2r_writer (mgr y0) = r2r_writer (mgr y)"
    by (simp_all add: y0_def new_player_def server find_stream_def) (simp_all add: set_writer_def on_mgr_def)
  have key: "GetKey rtmp_ops (heap (mgr y0) ?n) \<noteq> k" using assms(2) by (simp add: n new_RtmpWriter_def view_of_def)
  show "find_stream (mgr y1) k = find_stream (mgr y) k"
    using key by (simp add: y1 server y2_def rtmp.AddPlayer_elsewhere s0)
  have "ses y2 i = ses y0 i" by (simp add: y2_def server)
  then show "req (ses y1 i) = req (ses y i)" "closed_flag (ses y1 i) = closed_flag (ses y i)" "play_writer (ses y1 i) = Some ?n"
    using absorb_core [of now y2 "(i, ses y2 i)"] by (auto simp: y1 ses_collect s0 core_of_def)
  show "n_writers y1 = Suc ?n" "hls_writer (mgr y1) = hls_writer (mgr y)" "r2r_writer (mgr y1) = r2r_writer (mgr y)"
    by (simp_all add: y1 y2_def server s0 AddPlayer_side)
  show "rw_session (heap (mgr y1) ?n) = i" by (simp add: y1 y2_def server AddPlayer_session n) (simp add: new_RtmpWriter_def)
  show "rw_fault (heap (mgr y1) p') = None" if "p' < Suc ?n"
    using nf that by (simp add: y1 server writer_fault_None) (simp add: y2_def server s0)
  assume p: "p < ?n"
  have "heap (mgr y0) p = (heap (mgr y) p)\<lparr>rw_view := if rw_session (heap (mgr y) p) = i
      then view_of (ses y i) else rw_view (heap (mgr y) p)\<rparr>"
    using p by (simp add: y0_def new_player_def server v) (simp add: on_mgr_def set_writer_def)
  with p show "heap (mgr y1) p = (heap (mgr y) p)\<lparr>rw_view := if rw_session (heap (mgr y) p) = i
        then view_of (ses y i) else rw_view (heap (mgr y) p), rw_sent := []\<rparr>"
    by (simp add: y1 y2_def server AddPlayer_heap)
qed

lemma example_live: "live_writer (heap (mgr (example_server o')) p)" "rw_fault (heap (mgr (example_server o')) p) = None"
  "rw_session (heap (mgr (example_server o')) p) = ''J''" "rw_init (heap (mgr (example_server o')) p)"
  by (simp_all add: live_writer_def example_writer new_RtmpWriter_def)

lemma example_side: "hls_writer (mgr (example_server o')) = None" "r2r_writer (mgr (example_server o')) = None"
  "n_writers (example_server o') = 1"
  by (simp_all add: example_server_def)

theorem zero_chunk_size_crashes_witness:
  "publish_media 5 example_packet (set_ses ''J'' (fst (HandleRtmpControlMessage 5
     ((new_CoChunkStream 0 2 128)\<lparr>type_id := 1, chunk_data := [0, 0, 0, 0]\<rparr>) True (ses (example_server ''P'') ''J''))) (example_server ''P''))
   = Inl DivByZero"
proof -
  obtain s1 q where n: "NormalizeDts 5 (example_stream ''P''\<lparr>publisher_exist := True\<rparr>) example_packet = (s1, q)"
    and q: "av_type q = MEDIA_AUDIO_TYPE" by (rule example_normalized)
  have r: "writer_route q \<noteq> None" using q by (simp add: writer_route_def)
  have d: "distinct (map snd (writer_map (example_stream ''P'')))" "(''10.0.0.J'', 0) \<in> set (writer_map (example_stream ''P''))"
    "pkt_key example_packet = ''a/s''" "0 < n_writers (example_server ''P'')"
    by (simp_all add: example_stream_def example_packet_def example_side)
  have "\<forall>p' < n_writers (example_server ''P''). live_writer (heap (mgr (example_server ''P'')) p')
      \<and> rw_fault (heap (mgr (example_server ''P'')) p') = None" by (simp add: example_live)
  from zero_chunk_size_crashes [OF example_find d(1,3) _ n r example_side(1,2) d(2,4) example_live(3,4) example_healthy this,
      where cs = "(new_CoChunkStream 0 2 128)\<lparr>type_id := 1, chunk_data := [0, 0, 0, 0]\<rparr>", OF _ _ _ refl]
  show ?thesis by simp
qed

text \<open>
  C36. A player that plays a second name and then disconnects takes the server down: its first writer stays in the table of the
  first stream, the session behind it is deleted, and the next packet of that stream uses the deleted session through it: that
  use after free, and nothing else, is how the fan-out ends. The other players of the stream may be anything that is
  neither freed nor has chunk size zero.
\<close>

theorem second_play_use_after_free:
  assumes k: "find_stream (mgr y) k = Some s" "distinct (map snd (writer_map s))" "(wid, p) \<in> set (writer_map s)"
    and w: "rw_session (heap (mgr y) p) = i" "rw_init (heap (mgr y) p)" "healthy (heap (mgr y) p)"
    and others: "\<forall>(wid', p')\<in>set (writer_map s). p' < n_writers y \<and> \<not> rw_freed (heap (mgr y) p')
      \<and> vw_chunk_size (rw_view (heap (mgr y) p')) \<noteq> 0"
    and side: "hls_writer (mgr y) = None" "r2r_writer (mgr y) = None"
    and second: "playing (ses y i)" "\<not> closed_flag (ses y i)" "req_key (req (ses y i)) \<noteq> k" "start_play now i y = Inr y1"
    and pkt: "pkt_key pkt = k" "k \<noteq> []" "NormalizeDts now' (s\<lparr>publisher_exist := True\<rparr>) pkt = (s1, q)" "writer_route q \<noteq> None"
    and yd: "yd = erase_session i (Close i y1)"
  shows "find_stream (mgr yd) k = Some s \<and> map_of (sessions yd) i = None
    \<and> rw_session (heap (mgr yd) p) = i \<and> rw_orphan (heap (mgr yd) p)
    \<and> rw_fault (fst (rw_WritePacket (heap (mgr yd) p) q)) = Some UseAfterFree
    \<and> publish_media now' pkt yd = Inl UseAfterFree"
proof -
  note e = start_play_elsewhere [OF second(4,3)]
  let ?n = "n_writers y"
  define yc where "yc = set_ses i ((ses y1 i)\<lparr>closed_flag := True, running := False\<rparr>) y1"
  have cl: "Close i y1 = free_writer ?n (on_mgr (RemovePlayer rtmp_ops ?n) yc)"
    using second(1,2) e(1-6) by (simp add: Close_def Let_def playing_def yc_def)
  have "GetKey rtmp_ops (heap (mgr yc) ?n) \<noteq> k" using e(2,6) second(3) by (simp add: yc_def server view_of_def)
  then have f: "find_stream (mgr yd) k = Some s"
    using k(1) e(1) by (simp add: yd cl server RemovePlayer_elsewhere) (simp add: yc_def server)
  have h: "heap (mgr yd) p' = (if rw_session (heap (mgr y) p') = i
      then (heap (mgr y) p')\<lparr>rw_view := view_of ((ses y1 i)\<lparr>closed_flag := True, running := False\<rparr>), rw_sent := [], rw_orphan := True\<rparr>
      else (heap (mgr y) p')\<lparr>rw_sent := []\<rparr>)" if "p' < ?n" for p'
    using e(7) [OF that] that by (simp add: yd cl server) (simp add: yc_def server)
  have p: "p < ?n" using k(3) others by auto
  have u: "rw_fault (fst (rw_WritePacket (heap (mgr yd) p) q)) = Some UseAfterFree" "rw_init (heap (mgr yd) p)"
    using w pkt(4) unfolding h [OF p] by (auto simp: rw_WritePacket_def healthy_def)
  have n: "n_writers yd = Suc ?n" using e(5) by (simp add: yd cl server yc_def)
  have nf: "rw_fault (heap (mgr yd) p') = None" if "p' < Suc ?n" for p'
    using e(10) [OF that] by (cases \<open>p' = ?n\<close>) (simp_all add: yd cl server yc_def)
  have "rw_fault (fst (deliver rtmp_ops g q (heap (mgr yd) p'))) \<in> {None, Some UseAfterFree}"
    if "p' \<in> snd ` set (writer_map s)" for p' g
  proof -
    have o: "p' < ?n" "\<not> rw_freed (heap (mgr y) p')" "vw_chunk_size (rw_view (heap (mgr y) p')) \<noteq> 0" using that others by auto
    then have "\<not> rw_freed (heap (mgr yd) p') \<and> (rw_orphan (heap (mgr yd) p') \<or> vw_chunk_size (rw_view (heap (mgr yd) p')) \<noteq> 0)"
      by (simp add: h)
    moreover have "rw_fault (heap (mgr yd) p') = None" using nf o(1) by simp
    ultimately show ?thesis by (intro deleted_writer_faults)
  qed
  moreover have "hls_writer (mgr yd) = None" "r2r_writer (mgr yd) = None"
    using side e(8,9) by (simp_all add: yd cl server RemovePlayer_side yc_def)
  moreover have "p \<in> snd ` set (writer_map s)" using k(3) by force
  ultimately have "publish_media now' pkt yd = Inl UseAfterFree"
    using p n nf u by (intro faulted_fan_out [OF f k(2) pkt(1-3) refl, of p]) (auto simp: deliver_def)
  moreover have "map_of (sessions yd) i = None" by (simp add: yd erase_session_def on_heap_def on_mgr_def delete_conv)
  ultimately show ?thesis using f u h [OF p] w(1) by simp
qed

theorem second_play_use_after_free_witness:
  "\<exists>y1. start_play 5 ''J'' (on_ses ''J'' (\<lambda>s. s\<lparr>req := ready_request False ''t'' (req s)\<rparr>) (example_server ''P'')) = Inr y1
    \<and> publish_media 5 example_packet (erase_session ''J'' (Close ''J'' y1)) = Inl UseAfterFree"
proof -
  define y where "y = on_ses ''J'' (\<lambda>s. s\<lparr>req := ready_request False ''t'' (req s)\<rparr>) (example_server ''P'')"
  obtain s1 q where n: "NormalizeDts 5 (example_stream ''P''\<lparr>publisher_exist := True\<rparr>) example_packet = (s1, q)"
    and q: "av_type q = MEDIA_AUDIO_TYPE" by (rule example_normalized)
  have r: "writer_route q \<noteq> None" using q by (simp add: writer_route_def)
  have f: "find_stream (mgr y) ''a/s'' = Some (example_stream ''P'')" by (simp add: y_def server example_find)
  have req: "req_key (req (ses y ''J'')) = ''a/t''" "playing (ses y ''J'')" "\<not> closed_flag (ses y ''J'')"
    by (simp_all add: y_def server example_ses playing_def ready_request_def) (simp_all add: example_session_def new_RtmpSession_def
      ready_request_def new_RtmpRequest_def)
  have w: "heap (mgr y) p = (new_RtmpWriter ''J'' (view_of (example_session ''J'' False)))\<lparr>rw_init := True, rw_view := view_of (ses y ''J'')\<rparr>" for p
    by (simp add: y_def server example_writer new_RtmpWriter_def example_ses)
  have "vw_running (view_of (ses y ''J''))" "vw_chunk_size (view_of (ses y ''J'')) \<noteq> 0"
    by (simp_all add: view_of_def y_def server example_ses)
  then have h: "healthy (heap (mgr y) p)" for p by (simp add: w healthy_def new_RtmpWriter_def)
  define m where "m = mgr (new_player ''J'' y)"
  have n1: "n_writers y = Suc 0" by (simp add: y_def server) (simp add: example_server_def)
  have m: "rw_fault (heap m p) = None" "find_stream m ''a/t'' = None" "vw_req_key (rw_view (heap m (Suc 0))) = ''a/t''" for p
    by (simp_all add: m_def new_player_def server n1 view_of_def req find_stream_def)
      (simp_all add: on_mgr_def set_writer_def new_RtmpWriter_def w y_def server example_server_def)
  have "heap (fst (AddPlayer rtmp_ops (Some (Suc 0)) m)) = heap m" by (simp add: AddPlayer_def Let_def m put_stream_def emit_def)
  then obtain y1 where s: "start_play 5 ''J'' y = Inr y1"
    unfolding start_play_def Let_def n1 using writer_fault_None [of "on_mgr (\<lambda>m. fst (AddPlayer rtmp_ops (Some (Suc 0)) m)) (new_player ''J'' y)"]
    by (simp add: server m_def [symmetric] m)
  have st: "distinct (map snd (writer_map (example_stream ''P'')))" "(''10.0.0.J'', 0) \<in> set (writer_map (example_stream ''P''))"
    "\<forall>(wid', p')\<in>set (writer_map (example_stream ''P'')). p' < n_writers y \<and> \<not> rw_freed (heap (mgr y) p')
      \<and> vw_chunk_size (rw_view (heap (mgr y) p')) \<noteq> 0"
    using h by (simp_all add: example_stream_def n1 healthy_def)
  have wj: "rw_session (heap (mgr y) 0) = ''J''" "rw_init (heap (mgr y) 0)" by (simp_all add: w new_RtmpWriter_def)
  have sd: "hls_writer (mgr y) = None" "r2r_writer (mgr y) = None" by (simp_all add: y_def server example_side)
  have k: "req_key (req (ses y ''J'')) \<noteq> ''a/s''" "pkt_key example_packet = ''a/s''" by (simp_all add: req example_packet_def)
  from second_play_use_after_free [OF f st(1,2) wj h st(3) sd req(2,3) k(1) s k(2) _ n r refl]
  have "publish_media 5 example_packet (erase_session ''J'' (Close ''J'' y1)) = Inl UseAfterFree" by simp
  with s show ?thesis unfolding y_def by blast
qed

end
