(* ===== verification/Rtmp_Invariant.thy ===== *)
theory Rtmp_Invariant
  imports Rtmp_Delivery
begin

text \<open>
  An invariant of the RTMP server over every sequence of events: the table of live streams stays well formed and a
  closed session does not run.
\<close>

definition server_inv :: "rtmp_server \<Rightarrow> bool" where
  "server_inv y \<longleftrightarrow> table_inv (mgr y) \<and> (\<forall>i. closed_flag (ses y i) \<longrightarrow> \<not> running (ses y i))"

definition calm :: "rtmp_session \<Rightarrow> bool" where "calm s \<longleftrightarrow> (closed_flag s \<longrightarrow> \<not> running s)"

named_theorems sinv "preservation of the server invariant"

lemma inv_set_ses [sinv]: "server_inv y \<Longrightarrow> calm s \<Longrightarrow> server_inv (set_ses i s y)"
proof -
  have "table_inv (mgr (set_ses i s y)) = table_inv (mgr y)" by (simp add: set_ses_def on_heap_def on_mgr_def)
  then show "server_inv y \<Longrightarrow> calm s \<Longrightarrow> server_inv (set_ses i s y)" by (simp add: server_inv_def calm_def server)
qed

lemma inv_on_heap [sinv]: "server_inv y \<Longrightarrow> server_inv (on_heap f y)"
proof -
  have "table_inv (mgr (on_heap f y)) = table_inv (mgr y)" by (simp add: on_heap_def on_mgr_def)
  then show "server_inv y \<Longrightarrow> server_inv (on_heap f y)" by (simp add: server_inv_def server)
qed

lemma inv_on_mgr [sinv]: "server_inv y \<Longrightarrow> (\<And>m. table_inv m \<Longrightarrow> table_inv (f m)) \<Longrightarrow> server_inv (on_mgr f y)"
  by (simp add: server_inv_def server)

lemma inv_mgr [sinv]: "server_inv y \<Longrightarrow> table_inv m \<Longrightarrow> server_inv (y\<lparr>mgr := m\<rparr>)"
  by (simp add: server_inv_def server)

lemma inv_ses: "server_inv y \<Longrightarrow> calm (ses y i)"
  by (simp add: server_inv_def calm_def)

lemma inv_table: "server_inv y \<Longrightarrow> table_inv (mgr y)"
  by (simp add: server_inv_def)

lemma inv_erase_session [sinv]: "server_inv y \<Longrightarrow> server_inv (erase_session i y)"
proof -
  have "table_inv (mgr (erase_session i y)) = table_inv (mgr y)" by (simp add: erase_session_def on_heap_def on_mgr_def)
  then show "server_inv y \<Longrightarrow> server_inv (erase_session i y)"
    by (simp add: server_inv_def server new_RtmpSession_def)
qed

lemma inv_free_writer [sinv]: "server_inv y \<Longrightarrow> server_inv (free_writer p y)"
  unfolding free_writer_def by (rule inv_on_mgr) (simp_all add: set_writer_def)

lemma inv_core: "core_of s' = core_of s \<Longrightarrow> calm s \<Longrightarrow> calm s'"
  by (auto simp: calm_def dest: core_recv)

lemma inv_Close [sinv]: "server_inv y \<Longrightarrow> server_inv (Close i y)"
  by (auto simp: Close_def Let_def on_ses_def calm_def server split: option.split intro!: sinv kept)

lemma inv_Kick [sinv]: "server_inv y \<Longrightarrow> server_inv (fst (KickSession i y))"
  by (simp add: KickSession_def sinv)

lemma inv_FlushCatalog [sinv]: "server_inv y \<Longrightarrow> server_inv (FlushCatalog i y)"
  using inv_ses [of y i] by (auto simp: FlushCatalog_def Let_def calm_def intro!: sinv kept)

lemma inv_collect [sinv]: "server_inv y \<Longrightarrow> server_inv (collect now y)"
proof -
  assume y: "server_inv y"
  have "table_inv (mgr (collect now y)) = table_inv (mgr y)" by (simp add: collect_def on_heap_def on_mgr_def)
  moreover have "calm (ses (collect now y) i)" for i
    using inv_ses [OF y, of i] inv_core [OF absorb_core(2) [of now y "(i, ses y i)"]] by (simp add: ses_collect)
  ultimately show "server_inv (collect now y)" using y by (simp add: server_inv_def calm_def)
qed

lemma inv_OnPublishReady [sinv]: "server_inv y \<Longrightarrow> server_inv (fst (OnPublishReady now i y))"
proof -
  assume y: "server_inv y"
  obtain m a previous where c: "ClaimPublisher now (req_key (req (ses y i))) i (mgr y) = (m, a, previous)"
    by (cases "ClaimPublisher now (req_key (req (ses y i))) i (mgr y)") auto
  have "table_inv m" using ClaimPublisher_inv [OF inv_table [OF y], of now "req_key (req (ses y i))" i] by (simp add: c)
  then have y1: "server_inv (y\<lparr>mgr := m\<rparr>)" using y by (intro sinv)
  have "server_inv (on_ses i (\<lambda>s. s\<lparr>claimed := True\<rparr>) y')" if "server_inv y'" for y'
    using inv_ses [OF that, of i] that by (auto simp: on_ses_def calm_def intro!: sinv)
  then show ?thesis using y y1 by (cases a) (auto simp: OnPublishReady_def Let_def c intro!: sinv)
qed

definition inv_result :: "fault + rtmp_server \<times> 'a \<Rightarrow> bool" where
  "inv_result x \<longleftrightarrow> (case x of Inl _ \<Rightarrow> True | Inr (y, _) \<Rightarrow> server_inv y)"

lemma inv_result_simps [simp]: "inv_result (Inl e)" "inv_result (Inr (y, r)) \<longleftrightarrow> server_inv y"
  by (simp_all add: inv_result_def)

lemma inv_lift: "server_inv y \<Longrightarrow> frame (ses y i) x \<Longrightarrow> inv_result (lift_ses i x y)"
  using inv_ses [of y i] by (cases x) (auto simp: lift_ses_def intro!: inv_set_ses elim: inv_core)

lemma inv_publish: "server_inv y \<Longrightarrow> inv_result (HandleRtmpPublishCommand now i vs y)"
proof -
  assume y: "server_inv y"
  have s: "server_inv (set_ses i s y)" if "publish_request vs (ses y i) = Inr (s, ok)" for s ok
    using inv_ses [OF y] inv_core [OF publish_request_input [OF that]] y by (blast intro: sinv)
  have o1: "server_inv y1" if "OnPublishReady now i (set_ses i s y) = (y1, ready)" "publish_request vs (ses y i) = Inr (s, ok)" for s y1 ready ok
    using inv_OnPublishReady [OF s [OF that(2)], of now i] by (simp add: that(1))
  show ?thesis
    unfolding HandleRtmpPublishCommand_def
    by (auto split: sum.split prod.split intro: s o1 inv_lift answers_frame)
qed

lemma inv_run_command: "server_inv y \<Longrightarrow> inv_result (run_command now i msid cmd vs y)"
  by (simp add: run_command_def inv_lift commands_frame inv_publish)

lemma HandleClient_cases:
  obtains e where "HandleClientCommandMessage now i cs y = Inl e"
  | "HandleClientCommandMessage now i cs y = Inr (y, -1)"
  | msid cmd vs y1 r r' where "run_command now i msid cmd vs y = Inr (y1, r)" "HandleClientCommandMessage now i cs y = Inr (y1, r')"
proof (cases "decode_command (Suc (length (chunk_data cs))) (chunk_data cs) (int (length (chunk_data cs))) []")
  case (Some x)
  show ?thesis
  proof (cases x)
    case (Inr vs)
    show ?thesis
    proof (cases vs)
      case (Cons v vs')
      show ?thesis
      proof (cases v)
        case (AmfString cmd)
        note d = HandleClientCommandMessage_def Let_def Some Inr Cons AmfString option.case sum.case list.case amf.case
        show ?thesis
        proof (cases "run_command now i (msg_stream_id cs) (text_of cmd) (AmfString cmd # vs') y")
          case (Inr z)
          obtain y1 r where z: "z = (y1, r)" by force
          show ?thesis by (rule that(3) [OF Inr [unfolded z]]) (simp only: d Inr z sum.case prod.case)
        qed (use that(1) in \<open>simp add: d del: decode_command.simps\<close>)
      qed (use that(2) in \<open>simp_all add: HandleClientCommandMessage_def Let_def Some Inr Cons del: decode_command.simps\<close>)
    qed (use that in \<open>simp add: HandleClientCommandMessage_def Let_def Some Inr del: decode_command.simps\<close>)
  qed (use that in \<open>simp add: HandleClientCommandMessage_def Let_def Some del: decode_command.simps\<close>)
qed (use that in \<open>simp add: HandleClientCommandMessage_def Let_def del: decode_command.simps\<close>)

lemma inv_HandleClient: "server_inv y \<Longrightarrow> inv_result (HandleClientCommandMessage now i cs y)"
proof (rule HandleClient_cases [of now i cs y])
  fix msid cmd vs y1 r r'
  assume "server_inv y" "run_command now i msid cmd vs y = Inr (y1, r)" "HandleClientCommandMessage now i cs y = Inr (y1, r')"
  then show ?thesis using inv_run_command [of y now i msid cmd vs] by simp
qed auto

lemma inv_UpdateCatalog: "server_inv y \<Longrightarrow> UpdateCatalogFromSeqHdr now i pkt y = Inr y' \<Longrightarrow> server_inv y'"
  using inv_ses [of y i] by (auto simp: UpdateCatalogFromSeqHdr_def Let_def on_ses_def calm_def split: if_splits sum.splits prod.splits intro!: sinv)

lemma inv_publish_media: "server_inv y \<Longrightarrow> publish_media now pkt y = Inr y' \<Longrightarrow> server_inv y'"
  by (auto simp: publish_media_def Let_def split: option.splits intro!: sinv kept)

lemma inv_handle_media: "server_inv y \<Longrightarrow> inv_result (handle_media now i cs y)"
proof -
  assume y: "server_inv y"
  have "server_inv (set_ses i ((ses y i)\<lparr>owner_drop_warn_s := t\<rparr>) y)" for t
    using inv_ses [OF y, of i] y by (auto simp: calm_def intro!: sinv)
  then show ?thesis
    unfolding handle_media_def Let_def
    using y by (auto split: sum.split option.split intro: inv_publish_media inv_UpdateCatalog inv_FlushCatalog)
qed

lemma inv_reset_stream: "server_inv y \<Longrightarrow> server_inv (reset_stream i key y)"
  using inv_ses [of y i] by (auto simp: reset_stream_def on_ses_def calm_def split: option.split intro!: sinv)

lemma inv_start_play: "server_inv y \<Longrightarrow> start_play now i y = Inr y' \<Longrightarrow> server_inv y'"
proof -
  assume y: "server_inv y"
  have "server_inv (on_mgr (set_writer p w) (y\<lparr>n_writers := n\<rparr>))" for p w n
    using y by (simp add: server_inv_def server set_writer_def)
  moreover have "calm ((ses y i)\<lparr>play_writer := p\<rparr>)" for p using inv_ses [OF y, of i] by (simp add: calm_def)
  ultimately have "server_inv (new_player i y)" by (simp add: new_player_def server inv_set_ses)
  then show "start_play now i y = Inr y' \<Longrightarrow> server_inv y'"
    by (auto simp: start_play_def Let_def split: option.splits intro!: sinv kept)
qed

lemma inv_handle_message: "server_inv y \<Longrightarrow> inv_result (handle_message now i key cs y)"
proof -
  assume y: "server_inv y"
  have c: "server_inv (set_ses i s y)" if "HandleRtmpControlMessage now cs True (ses y i) = (s, r)" for s r
    using inv_core [OF control_frame [of now cs True "ses y i"]] inv_ses [OF y, of i] that y by (auto intro: sinv)
  have h: "server_inv y1" if "HandleClientCommandMessage now i cs y = Inr (y1, r)" for y1 r
    using inv_HandleClient [OF y, of now i cs] that by simp
  have p: "server_inv y2" if "HandleClientCommandMessage now i cs y = Inr (y1, r)" "start_play now i (reset_stream i key y1) = Inr y2" for y1 y2 r
    using inv_start_play [OF inv_reset_stream [OF h [OF that(1)]] that(2)] .
  have m: "server_inv y1" if "handle_media now i cs y = Inr (y1, r)" for y1 r
    using inv_handle_media [OF y, of now i cs] that by simp
  show ?thesis
    unfolding handle_message_def Let_def
    using y p by (auto split: sum.split prod.split intro: inv_reset_stream c h m)
qed

lemma ReadChunkStream_flags:
  fixes s :: rtmp_session
  assumes "ReadChunkStream s = Inr (s', key, r)"
  shows "closed_flag s' = closed_flag s \<and> running s' = running s"
proof -
  have f: "closed_flag s0 = closed_flag s \<and> running s0 = running s"
    if "ReadFmtCsid s = (s0, r0)" for s0 r0
    using that by (auto simp: ReadFmtCsid_def Let_def split: if_splits list.splits)
  show ?thesis
    using assms unfolding ReadChunkStream_def Let_def
    by (auto split: prod.splits if_splits sum.splits dest: f)
qed

lemma inv_Receive: "server_inv y \<Longrightarrow> ReceiveChunkStream n now i y = Some (Inr (y', r)) \<Longrightarrow> server_inv y'"
proof (induction n arbitrary: y)
  case (Suc n)
  from Suc.prems(2) obtain s key ra where rd: "ReadChunkStream (ses y i) = Inr (s, key, ra)"
    by (auto simp: ReceiveChunkStream.simps split: sum.splits)
  have y1: "server_inv (set_ses i s y)"
    using ReadChunkStream_flags [OF rd] inv_ses [OF Suc.prems(1), of i] Suc.prems(1) by (auto simp: calm_def intro: sinv)
  have h: "server_inv y2" if "handle_message now i k c (set_ses i s y) = Inr (y2, r2, b)" for k c y2 r2 b
    using inv_handle_message [OF y1, of now i k c] that by simp
  show ?case
    using Suc.prems(2) y1 unfolding ReceiveChunkStream.simps rd
    by (auto simp: Let_def split: if_splits option.splits sum.splits prod.splits dest: Suc.IH h intro: Suc.IH h)
qed (simp add: ReceiveChunkStream.simps)

lemma inv_stop: "server_inv y \<Longrightarrow> server_inv (on_ses i (\<lambda>s. s\<lparr>running := False\<rparr>) y)"
  by (simp add: on_ses_def calm_def sinv)

lemma inv_chunk_part: "server_inv y \<Longrightarrow> chunk_part now i y = Some (Inr (y', r)) \<Longrightarrow> server_inv y'"
  by (auto simp: chunk_part_def split: option.splits sum.splits prod.splits if_splits intro: inv_stop dest: inv_Receive)

lemma inv_HandleRequest: "server_inv y0 \<Longrightarrow> HandleRequest H now i y0 = Some (Inr (y', r)) \<Longrightarrow> server_inv y'"
proof -
  assume y0: "server_inv y0"
  define y where "y = on_ses i (\<lambda>s. s\<lparr>alive_ms := now\<rparr>) y0"
  have y: "server_inv y"
    using y0 inv_ses [OF y0, of i] unfolding y_def on_ses_def by (intro inv_set_ses) (simp_all add: calm_def)
  have s: "calm (ses y i)" by (rule inv_ses [OF y])
  have hp: "server_inv (fst (handshake_part H now i y))"
    using y s by (auto simp: handshake_part_def Let_def calm_def split: option.split intro!: inv_set_ses)
  have c2: "server_inv (set_ses i (ses y i\<lparr>recv := buf, phase := connect_phase\<rparr>) y)" for buf
    using y s by (auto simp: calm_def intro!: inv_set_ses)
  show "HandleRequest H now i y0 = Some (Inr (y', r)) \<Longrightarrow> server_inv y'"
    unfolding HandleRequest_def Let_def y_def [symmetric]
    using y hp c2 by (auto split: if_splits session_phase.splits prod.splits dest: inv_chunk_part intro: inv_chunk_part [OF c2])
qed

lemma inv_OnRead: "server_inv y \<Longrightarrow> OnRead H now i ret_code data y = Some (Inr y') \<Longrightarrow> server_inv y'"
proof -
  assume y: "server_inv y"
  have "server_inv (on_ses i (\<lambda>s. s\<lparr>recv := recv s @ data\<rparr>) y)"
    using y inv_ses [OF y, of i] unfolding on_ses_def by (intro inv_set_ses) (simp_all add: calm_def)
  then show "OnRead H now i ret_code data y = Some (Inr y') \<Longrightarrow> server_inv y'"
    using y by (auto simp: OnRead_def split: if_splits option.splits sum.splits prod.splits intro: inv_Close dest: inv_HandleRequest)
qed

lemma inv_check_session: "server_inv y \<Longrightarrow> server_inv (check_session now i y)"
  using inv_ses [of y i] by (auto simp: check_session_def IsAlive_def Let_def calm_def split: if_splits intro!: sinv)

lemma inv_OnCheckAlive: "server_inv y \<Longrightarrow> server_inv (OnCheckAlive now y)"
proof -
  have f: "server_inv y \<Longrightarrow> server_inv (foldl (\<lambda>y i. check_session now i y) y is)" for y "is"
    by (induction "is" arbitrary: y) (simp_all add: inv_check_session)
  have "server_inv y \<Longrightarrow> server_inv (y\<lparr>last_check_ms := now\<rparr>)" by (simp add: server_inv_def server)
  then show "server_inv y \<Longrightarrow> server_inv (OnCheckAlive now y)" by (simp add: OnCheckAlive_def f)
qed

text \<open>
  The events of the server: connections, octets and write completions on them, the timer, and what the
  other ingest and egress paths do to the table (any step of the manager).
\<close>

inductive server_step :: "rtmp_server \<Rightarrow> rtmp_server \<Rightarrow> bool" where
  accept: "server_step y (OnAccept ret_code sid ep idle_ms y)"
| octets_in: "OnRead H now i ret_code data y = Some (Inr y') \<Longrightarrow> server_step y y'"
| written: "server_step y (OnWrite i ret_code y)"
| timer: "server_step y (OnCheckAlive now y)"
| others: "manager_step rtmp_ops (mgr y) m \<Longrightarrow> server_step y (y\<lparr>mgr := m\<rparr>)"

inductive server_reachable :: "rtmp_server \<Rightarrow> bool" where
  start: "streams (mgr y) = [] \<Longrightarrow> sessions y = [] \<Longrightarrow> server_reachable y"
| step: "server_reachable y \<Longrightarrow> server_step y y' \<Longrightarrow> server_reachable y'"

lemma inv_step: "server_step y y' \<Longrightarrow> server_inv y \<Longrightarrow> server_inv y'"
proof (induction rule: server_step.induct)
  case (accept y ret_code sid ep idle_ms)
  then show ?case by (simp add: OnAccept_def sinv calm_def new_RtmpSession_def)
next
  case (octets_in H now i ret_code data y y')
  then show ?case by (blast intro: inv_OnRead)
next
  case (written y i ret_code)
  then show ?case by (simp add: OnWrite_def sinv)
next
  case (timer y now)
  from timer show ?case by (rule inv_OnCheckAlive)
next
  case (others y m)
  then show ?case using step_inv inv_table by (blast intro: inv_mgr)
qed

text \<open>
  C2. In every state the RTMP server can reach, by connections, any octets on them in any order, time-outs and whatever
  other ingest paths do, the table of live streams is well formed (one entry per key, each under its own
  key, with a publisher or a player, each player id once) and no closed session is running.
\<close>

theorem server_stays_consistent:
  assumes "server_reachable y"
  shows "keys_distinct (mgr y)
    \<and> (\<forall>k s. find_stream (mgr y) k = Some s \<longrightarrow> stream_key s = k \<and> (publisher_exist s \<or> writer_map s \<noteq> [])
         \<and> distinct (map fst (writer_map s)))
    \<and> (\<forall>i s. map_of (sessions y) i = Some s \<longrightarrow> closed_flag s \<longrightarrow> \<not> running s)"
proof -
  have "server_inv y"
    using assms
  proof (induction rule: server_reachable.induct)
    case (start y)
    then show ?case by (simp add: server_inv_def table_inv_def keys_distinct_def find_stream_def ses_def new_RtmpSession_def)
  next
    case (step y y')
    then show ?case by (blast intro: inv_step)
  qed
  then have inv: "table_inv (mgr y)" "closed_flag (ses y i) \<longrightarrow> \<not> running (ses y i)" for i by (simp_all add: server_inv_def)
  have "closed_flag s \<longrightarrow> \<not> running s" if "map_of (sessions y) i = Some s" for i s
    using inv(2) [of i] that by (simp add: ses_def)
  then show ?thesis using inv(1) inv_find [OF inv(1)] unfolding table_inv_def stream_ok_def by blast
qed

definition empty_server :: rtmp_server where
  "empty_server = \<lparr>mgr = \<lparr>streams = [], cb_vec = [], catalog_updated_cbs = [], hls_writer = None, r2r_writer = None,
     play_cb = False, heap = (\<lambda>_. new_RtmpWriter [] (view_of (new_RtmpSession [] [] 0))), events = []\<rparr>,
     sessions = [], n_writers = 0, last_check_ms = -1\<rparr>"

theorem server_stays_consistent_witness:
  "\<exists>y :: rtmp_server. map_of (sessions y) ''P'' \<noteq> None \<and> keys_distinct (mgr y)"
proof -
  let ?y = "OnAccept 0 ''P'' ''10.0.0.1:99'' 0 empty_server"
  have "server_reachable empty_server" by (rule server_reachable.start) (simp_all add: empty_server_def)
  then have "server_reachable ?y" by (rule server_reachable.step) (rule server_step.accept)
  from server_stays_consistent [OF this] have "keys_distinct (mgr ?y)" by blast
  moreover have "map_of (sessions ?y) ''P'' \<noteq> None"
    by (simp add: OnAccept_def set_ses_def on_heap_def on_mgr_def update_conv')
  ultimately show ?thesis by blast
qed

end
