(* ===== verification/Quic_Frame.thy ===== *)
theory Quic_Frame
  imports Moq_Lite_Wire "HOL-Library.Monad_Syntax"
begin

text \<open>
  Packet numbers and frames of QUIC, \<open>quic/quic_packet.c\<close>, and the loop of \<open>quic/quic_connection.c\<close> that takes a
  1-RTT payload apart. A writer gives the octets it put into the buffer, or \<open>None\<close> for its \<open>-1\<close> when they do
  not fit; a parser gives the fields and the octets after the frame (the code returns how many it
  consumed), or \<open>None\<close> for \<open>-1\<close>. Lemmas: packet numbers decode to the one nearest the expected, and a payload of
  written frames is taken apart into exactly these frames.
\<close>

section \<open>Packet numbers\<close>

definition quic_pn_encode_len :: "u64 \<Rightarrow> nat" where
  "quic_pn_encode_len pn = (if pn \<le> 0xff then 1 else if pn \<le> 0xffff then 2 else if pn \<le> 0xffffff then 3 else 4)"

definition quic_pn_encode :: "u64 \<Rightarrow> nat \<Rightarrow> octets" where
  "quic_pn_encode pn len = be_bytes len (unat pn)"

definition quic_pn_decode :: "octets \<Rightarrow> u64 \<Rightarrow> u64" where
  "quic_pn_decode buf expected =
     (let truncated = word_of_nat (be_val buf);
          pn_win = push_bit (8 * length buf) (1 :: u64);
          pn_hwin = pn_win div 2;
          candidate = (expected AND NOT (pn_win - 1)) OR truncated in
      if candidate + pn_hwin \<le> expected then candidate + pn_win
      else if candidate > expected + pn_hwin \<and> candidate > pn_win then candidate - pn_win
      else candidate)"

section \<open>Writers\<close>

definition put :: "nat \<Rightarrow> octets \<Rightarrow> octets option" where
  "put cap f = (if cap < length f then None else Some f)"

definition length_of :: "octets \<Rightarrow> octets" where "length_of d = ml_enc (word_of_nat (length d))"

record QuicAckFrame =
  largest_acknowledged :: u64
  ack_delay :: u64
  first_ack_range :: u64
  ack_ranges :: "(u64 \<times> u64) list"

definition QUIC_ACK_MAX_RANGES :: nat where "QUIC_ACK_MAX_RANGES = 32"

definition quic_frame_write_crypto :: "nat \<Rightarrow> u64 \<Rightarrow> octets \<Rightarrow> octets option" where
  "quic_frame_write_crypto cap offset data = put cap (0x06 # ml_enc offset @ length_of data @ data)"

definition quic_frame_write_ack :: "nat \<Rightarrow> QuicAckFrame \<Rightarrow> octets option" where
  "quic_frame_write_ack cap ack =
     put cap (0x02 # ml_enc (largest_acknowledged ack) @ ml_enc (ack_delay ack)
       @ ml_enc (word_of_nat (length (ack_ranges ack))) @ ml_enc (first_ack_range ack)
       @ concat (map (\<lambda>(gap, range). ml_enc gap @ ml_enc range) (ack_ranges ack)))"

definition quic_frame_write_connection_close :: "nat \<Rightarrow> u64 \<Rightarrow> octets \<Rightarrow> octets option" where
  "quic_frame_write_connection_close cap error_code reason =
     put cap (0x1c # ml_enc error_code @ ml_enc 0 @ length_of reason @ reason)"

definition quic_frame_write_padding :: "nat \<Rightarrow> nat \<Rightarrow> octets option" where
  "quic_frame_write_padding cap count = put cap (replicate count 0)"

definition quic_frame_write_ping :: "nat \<Rightarrow> octets option" where
  "quic_frame_write_ping cap = put cap [0x01]"

definition quic_frame_write_stream :: "nat \<Rightarrow> u64 \<Rightarrow> u64 \<Rightarrow> bool \<Rightarrow> octets \<Rightarrow> octets option" where
  "quic_frame_write_stream cap stream_id offset fin data =
     put cap ((0x08 OR 0x04 OR 0x02 OR (if fin then 0x01 else 0)) # ml_enc stream_id @ ml_enc offset @ length_of data @ data)"

definition quic_frame_write_max_data :: "nat \<Rightarrow> u64 \<Rightarrow> octets option" where
  "quic_frame_write_max_data cap max_data = put cap (0x10 # ml_enc max_data)"

definition quic_frame_write_max_stream_data :: "nat \<Rightarrow> u64 \<Rightarrow> u64 \<Rightarrow> octets option" where
  "quic_frame_write_max_stream_data cap stream_id max_data =
     put cap (0x11 # ml_enc stream_id @ ml_enc max_data)"

definition quic_frame_write_max_streams :: "nat \<Rightarrow> u64 \<Rightarrow> bool \<Rightarrow> octets option" where
  "quic_frame_write_max_streams cap max_streams bidi =
     put cap ((if bidi then 0x12 else 0x13) # ml_enc max_streams)"

definition quic_frame_write_reset_stream :: "nat \<Rightarrow> u64 \<Rightarrow> u64 \<Rightarrow> u64 \<Rightarrow> octets option" where
  "quic_frame_write_reset_stream cap stream_id error_code final_size =
     put cap (0x04 # ml_enc stream_id @ ml_enc error_code @ ml_enc final_size)"

definition quic_frame_write_stop_sending :: "nat \<Rightarrow> u64 \<Rightarrow> u64 \<Rightarrow> octets option" where
  "quic_frame_write_stop_sending cap stream_id error_code =
     put cap (0x05 # ml_enc stream_id @ ml_enc error_code)"

definition quic_frame_write_retire_conn_id :: "nat \<Rightarrow> u64 \<Rightarrow> octets option" where
  "quic_frame_write_retire_conn_id cap seq_num = put cap (0x19 # ml_enc seq_num)"

definition quic_frame_write_data_blocked :: "nat \<Rightarrow> u64 \<Rightarrow> octets option" where
  "quic_frame_write_data_blocked cap max_data = put cap (0x14 # ml_enc max_data)"

definition quic_frame_write_stream_data_blocked :: "nat \<Rightarrow> u64 \<Rightarrow> u64 \<Rightarrow> octets option" where
  "quic_frame_write_stream_data_blocked cap stream_id max_stream_data =
     put cap (0x15 # ml_enc stream_id @ ml_enc max_stream_data)"

definition quic_frame_write_streams_blocked :: "nat \<Rightarrow> u64 \<Rightarrow> bool \<Rightarrow> octets option" where
  "quic_frame_write_streams_blocked cap max_streams bidi =
     put cap ((if bidi then 0x16 else 0x17) # ml_enc max_streams)"

definition quic_frame_write_datagram :: "nat \<Rightarrow> octets \<Rightarrow> octets option" where
  "quic_frame_write_datagram cap data = put cap (0x31 # length_of data @ data)"

section \<open>Parsers\<close>

definition get_varint :: "octets \<Rightarrow> (u64 \<times> octets) option" where
  "get_varint d = map_option (\<lambda>(v, n). (v, drop n d)) (quic_varint_decode d)"

definition get_bytes :: "u64 \<Rightarrow> octets \<Rightarrow> (octets \<times> octets) option" where
  "get_bytes n d = (if unat n > length d then None else Some (take (unat n) d, drop (unat n) d))"

definition get_type :: "byte list \<Rightarrow> octets \<Rightarrow> (byte \<times> octets) option" where
  "get_type ts d = (case d of [] \<Rightarrow> None | t # r \<Rightarrow> if t \<in> set ts then Some (t, r) else None)"

definition quic_frame_parse_crypto :: "octets \<Rightarrow> ((u64 \<times> octets) \<times> octets) option" where
  "quic_frame_parse_crypto d = do {
     (t, d) \<leftarrow> get_type [0x06] d; (off, d) \<leftarrow> get_varint d; (clen, d) \<leftarrow> get_varint d;
     (data, d) \<leftarrow> get_bytes clen d; Some ((off, data), d) }"

fun get_ranges :: "nat \<Rightarrow> octets \<Rightarrow> ((u64 \<times> u64) list \<times> octets) option" where
  "get_ranges 0 d = Some ([], d)"
| "get_ranges (Suc n) d = do {
     (gap, d) \<leftarrow> get_varint d; (range, d) \<leftarrow> get_varint d; (rs, d) \<leftarrow> get_ranges n d; Some ((gap, range) # rs, d) }"

definition quic_frame_parse_ack :: "octets \<Rightarrow> (QuicAckFrame \<times> octets) option" where
  "quic_frame_parse_ack d = do {
     (t, d) \<leftarrow> get_type [0x02, 0x03] d; (largest, d) \<leftarrow> get_varint d; (delay, d) \<leftarrow> get_varint d;
     (count, d) \<leftarrow> get_varint d;
     if unat count > length d then None else do {
       (first, d) \<leftarrow> get_varint d; (rs, d) \<leftarrow> get_ranges (unat count) d;
       d \<leftarrow> (if t = 0x03 then do { (a, d) \<leftarrow> get_varint d; (b, d) \<leftarrow> get_varint d; (c, d) \<leftarrow> get_varint d; Some d } else Some d);
       Some (\<lparr>largest_acknowledged = largest, ack_delay = delay, first_ack_range = first,
              ack_ranges = take QUIC_ACK_MAX_RANGES rs\<rparr>, d) } }"

definition quic_frame_parse_connection_close :: "octets \<Rightarrow> ((u64 \<times> octets) \<times> octets) option" where
  "quic_frame_parse_connection_close d = do {
     (t, d) \<leftarrow> get_type [0x1c, 0x1d] d; (code, d) \<leftarrow> get_varint d;
     d \<leftarrow> (if t = 0x1c then map_option snd (get_varint d) else Some d);
     (n, d) \<leftarrow> get_varint d; (reason, d) \<leftarrow> get_bytes n d; Some ((code, reason), d) }"

definition quic_frame_parse_stream :: "octets \<Rightarrow> ((u64 \<times> u64 \<times> bool \<times> octets) \<times> octets) option" where
  "quic_frame_parse_stream d = (case d of [] \<Rightarrow> None | type # d \<Rightarrow>
     if type AND 0xf8 \<noteq> 0x08 then None else do {
       (sid, d) \<leftarrow> get_varint d;
       (off, d) \<leftarrow> (if type AND 0x04 \<noteq> 0 then get_varint d else Some (0, d));
       (data, d) \<leftarrow> (if type AND 0x02 \<noteq> 0 then do { (n, d) \<leftarrow> get_varint d; get_bytes n d } else Some (d, []));
       Some ((sid, off, type AND 0x01 \<noteq> 0, data), d) })"

definition quic_frame_parse_max_data :: "octets \<Rightarrow> (u64 \<times> octets) option" where
  "quic_frame_parse_max_data d = do { (t, d) \<leftarrow> get_type [0x10] d; get_varint d }"

definition get_two :: "octets \<Rightarrow> ((u64 \<times> u64) \<times> octets) option" where
  "get_two d = do { (a, d) \<leftarrow> get_varint d; (b, d) \<leftarrow> get_varint d; Some ((a, b), d) }"

definition quic_frame_parse_max_stream_data :: "octets \<Rightarrow> ((u64 \<times> u64) \<times> octets) option" where
  "quic_frame_parse_max_stream_data d = do { (t, d) \<leftarrow> get_type [0x11] d; get_two d }"

definition quic_frame_parse_max_streams :: "octets \<Rightarrow> ((u64 \<times> bool) \<times> octets) option" where
  "quic_frame_parse_max_streams d = do { (t, d) \<leftarrow> get_type [0x12, 0x13] d; (m, d) \<leftarrow> get_varint d; Some ((m, t = 0x12), d) }"

definition quic_frame_parse_reset_stream :: "octets \<Rightarrow> ((u64 \<times> u64 \<times> u64) \<times> octets) option" where
  "quic_frame_parse_reset_stream d = do {
     (t, d) \<leftarrow> get_type [0x04] d; (sid, d) \<leftarrow> get_varint d; (code, d) \<leftarrow> get_varint d; (fs, d) \<leftarrow> get_varint d;
     Some ((sid, code, fs), d) }"

definition quic_frame_parse_stop_sending :: "octets \<Rightarrow> ((u64 \<times> u64) \<times> octets) option" where
  "quic_frame_parse_stop_sending d = do { (t, d) \<leftarrow> get_type [0x05] d; get_two d }"

definition quic_frame_parse_new_conn_id :: "octets \<Rightarrow> ((u64 \<times> u64 \<times> octets \<times> octets) \<times> octets) option" where
  "quic_frame_parse_new_conn_id d = do {
     (t, d) \<leftarrow> get_type [0x18] d; (seq, d) \<leftarrow> get_varint d; (retire, d) \<leftarrow> get_varint d;
     case d of [] \<Rightarrow> None | n # d \<Rightarrow>
       if unat n + 16 > length d then None
       else Some ((seq, retire, take (unat n) d, take 16 (drop (unat n) d)), drop (unat n + 16) d) }"

definition quic_frame_parse_new_token :: "octets \<Rightarrow> octets option" where
  "quic_frame_parse_new_token d = do {
     (t, d) \<leftarrow> get_type [0x07] d; (n, d) \<leftarrow> get_varint d; (token, d) \<leftarrow> get_bytes n d; Some d }"

definition quic_frame_parse_retire_conn_id :: "octets \<Rightarrow> (u64 \<times> octets) option" where
  "quic_frame_parse_retire_conn_id d = do { (t, d) \<leftarrow> get_type [0x19] d; get_varint d }"

definition quic_frame_parse_data_blocked :: "octets \<Rightarrow> (u64 \<times> octets) option" where
  "quic_frame_parse_data_blocked d = do { (t, d) \<leftarrow> get_type [0x14] d; get_varint d }"

definition quic_frame_parse_stream_data_blocked :: "octets \<Rightarrow> ((u64 \<times> u64) \<times> octets) option" where
  "quic_frame_parse_stream_data_blocked d = do { (t, d) \<leftarrow> get_type [0x15] d; get_two d }"

definition quic_frame_parse_streams_blocked :: "octets \<Rightarrow> ((u64 \<times> bool) \<times> octets) option" where
  "quic_frame_parse_streams_blocked d = do { (t, d) \<leftarrow> get_type [0x16, 0x17] d; (m, d) \<leftarrow> get_varint d; Some ((m, t = 0x16), d) }"

definition quic_frame_parse_datagram :: "octets \<Rightarrow> (octets \<times> octets) option" where
  "quic_frame_parse_datagram d = (case d of [] \<Rightarrow> None | t # r \<Rightarrow>
     if t = 0x30 then Some (r, []) else do { (u, d) \<leftarrow> get_type [0x31] d; (n, d) \<leftarrow> get_varint d; get_bytes n d })"

section \<open>Taking a payload apart\<close>

text \<open>
  What the loop of \<open>quic_connection.c\<close> hands on of a 1-RTT payload, frame by frame. A frame the parser refuses is
  stepped over by one octet, except for CRYPTO, ACK and CONNECTION_CLOSE, which end the packet;
  \<open>next_frame\<close> gives the frames of one round (none or one) and the octets the loop goes on with.
\<close>

datatype quic_frame =
    CryptoFrame u64 octets | AckFrame QuicAckFrame | CloseFrame u64 octets | StreamFrame u64 u64 bool octets
  | MaxData u64 | MaxStreamData u64 u64 | ResetStream u64 u64 u64 | StopSending u64 u64 | MaxStreams u64 bool
  | DataBlocked u64 | StreamDataBlocked u64 u64 | StreamsBlocked u64 bool | NewConnId u64 u64 octets octets
  | RetireConnId u64 | Datagram octets

definition took :: "('a \<Rightarrow> quic_frame) \<Rightarrow> octets \<Rightarrow> ('a \<times> octets) option \<Rightarrow> (quic_frame list \<times> octets) option" where
  "took c p r = (case r of Some (x, d) \<Rightarrow> Some ([c x], d) | None \<Rightarrow> Some ([], drop 1 p))"

definition next_frame :: "octets \<Rightarrow> (quic_frame list \<times> octets) option" where
  "next_frame p = (let t = hd p in
     if t \<in> {0x00, 0x01, 0x1e} then Some ([], drop 1 p)
     else if t \<in> {0x30, 0x31} then took Datagram p (quic_frame_parse_datagram p)
     else if t = 0x06 then map_option (\<lambda>((off, c), d). ([CryptoFrame off c], d)) (quic_frame_parse_crypto p)
     else if t \<in> {0x1c, 0x1d} then
       map_option (\<lambda>((code, reason), d). ([CloseFrame code reason], [])) (quic_frame_parse_connection_close p)
     else if t \<in> {0x02, 0x03} then map_option (\<lambda>(ack, d). ([AckFrame ack], d)) (quic_frame_parse_ack p)
     else if 0x08 \<le> t \<and> t \<le> 0x0f then
       took (\<lambda>(sid, off, fin, data). StreamFrame sid off fin data) p (quic_frame_parse_stream p)
     else if t = 0x10 then took MaxData p (quic_frame_parse_max_data p)
     else if t = 0x11 then took (\<lambda>(sid, m). MaxStreamData sid m) p (quic_frame_parse_max_stream_data p)
     else if t = 0x04 then took (\<lambda>(sid, code, fs). ResetStream sid code fs) p (quic_frame_parse_reset_stream p)
     else if t = 0x05 then took (\<lambda>(sid, code). StopSending sid code) p (quic_frame_parse_stop_sending p)
     else if t \<in> {0x12, 0x13} then took (\<lambda>(m, bidi). MaxStreams m bidi) p (quic_frame_parse_max_streams p)
     else if t = 0x14 then took DataBlocked p (quic_frame_parse_data_blocked p)
     else if t = 0x15 then took (\<lambda>(sid, m). StreamDataBlocked sid m) p (quic_frame_parse_stream_data_blocked p)
     else if t \<in> {0x16, 0x17} then took (\<lambda>(m, bidi). StreamsBlocked m bidi) p (quic_frame_parse_streams_blocked p)
     else if t = 0x18 then took (\<lambda>(seq, retire, cid, tok). NewConnId seq retire cid tok) p (quic_frame_parse_new_conn_id p)
     else if t = 0x19 then took RetireConnId p (quic_frame_parse_retire_conn_id p)
     else if t = 0x07 then Some ([], case quic_frame_parse_new_token p of Some d \<Rightarrow> d | None \<Rightarrow> drop 1 p)
     else Some ([], drop 1 p))"

lemma get_varint_shrinks: "get_varint d = Some (v, r) \<Longrightarrow> length r < length d"
  by (auto simp: get_varint_def quic_varint_decode_def Let_def split: list.splits if_splits)

lemma get_bytes_shrinks: "get_bytes n d = Some (b, r) \<Longrightarrow> length r \<le> length d"
  by (auto simp: get_bytes_def split: if_splits)

lemma get_type_shrinks: "get_type ts d = Some (t, r) \<Longrightarrow> length r < length d"
  by (auto simp: get_type_def split: list.splits if_splits)

lemma get_two_shrinks: "get_two d = Some (x, r) \<Longrightarrow> length r < length d"
  by (force simp: get_two_def bind_eq_Some_conv dest: get_varint_shrinks)

lemma get_ranges_shrinks: "get_ranges n d = Some (rs, r) \<Longrightarrow> length r \<le> length d"
  by (induction n d arbitrary: rs rule: get_ranges.induct)
     (force simp: bind_eq_Some_conv dest: get_varint_shrinks)+

lemmas shrinks = get_varint_shrinks get_bytes_shrinks get_type_shrinks get_two_shrinks get_ranges_shrinks

lemma parse_shrinks:
  "quic_frame_parse_crypto d = Some (a, r) \<Longrightarrow> length r < length d"
  "quic_frame_parse_max_data d = Some (b, r) \<Longrightarrow> length r < length d"
  "quic_frame_parse_max_stream_data d = Some (c, r) \<Longrightarrow> length r < length d"
  "quic_frame_parse_max_streams d = Some (e, r) \<Longrightarrow> length r < length d"
  "quic_frame_parse_reset_stream d = Some (f, r) \<Longrightarrow> length r < length d"
  "quic_frame_parse_stop_sending d = Some (c, r) \<Longrightarrow> length r < length d"
  "quic_frame_parse_retire_conn_id d = Some (b, r) \<Longrightarrow> length r < length d"
  "quic_frame_parse_data_blocked d = Some (b, r) \<Longrightarrow> length r < length d"
  "quic_frame_parse_stream_data_blocked d = Some (c, r) \<Longrightarrow> length r < length d"
  "quic_frame_parse_streams_blocked d = Some (e, r) \<Longrightarrow> length r < length d"
  "quic_frame_parse_new_token d = Some r \<Longrightarrow> length r < length d"
  by (auto simp: quic_frame_parse_crypto_def quic_frame_parse_max_data_def quic_frame_parse_max_stream_data_def
      quic_frame_parse_max_streams_def quic_frame_parse_reset_stream_def quic_frame_parse_stop_sending_def
      quic_frame_parse_retire_conn_id_def quic_frame_parse_data_blocked_def quic_frame_parse_stream_data_blocked_def
      quic_frame_parse_streams_blocked_def quic_frame_parse_new_token_def bind_eq_Some_conv dest!: shrinks)

lemma parse_shrinks2:
  "quic_frame_parse_ack d = Some (a, r) \<Longrightarrow> length r < length d"
  "quic_frame_parse_stream d = Some (b, r) \<Longrightarrow> length r < length d"
  "quic_frame_parse_datagram d = Some (e, r) \<Longrightarrow> length r < length d"
  "quic_frame_parse_connection_close d = Some (f, r) \<Longrightarrow> length r < length d"
  by (auto simp: quic_frame_parse_ack_def quic_frame_parse_stream_def quic_frame_parse_datagram_def quic_frame_parse_connection_close_def bind_eq_Some_conv
      split: if_splits list.splits dest!: shrinks)

lemma new_conn_id_shrinks: "quic_frame_parse_new_conn_id d = Some (c, r) \<Longrightarrow> length r < length d"
  by (fastforce simp: quic_frame_parse_new_conn_id_def bind_eq_Some_conv list.case_eq_if split: if_splits dest!: shrinks)

lemma next_frame_shrinks: "p \<noteq> [] \<Longrightarrow> next_frame p = Some (fs, d) \<Longrightarrow> length d < length p"
  by (auto simp: next_frame_def Let_def took_def split: if_splits option.splits
      dest!: parse_shrinks parse_shrinks2 new_conn_id_shrinks)

function frames_of :: "octets \<Rightarrow> quic_frame list" where
  "frames_of p = (if p = [] then [] else case next_frame p of None \<Rightarrow> [] | Some (fs, d) \<Rightarrow> fs @ frames_of d)"
  by auto
termination by (relation "measure length") (auto dest: next_frame_shrinks)

declare frames_of.simps [simp del]

text \<open>Which payloads are acknowledged: all but those of padding, ACK and CONNECTION_CLOSE frames only.\<close>

function payload_ack_eliciting :: "octets \<Rightarrow> bool" where
  "payload_ack_eliciting p = (case p of [] \<Rightarrow> False | t # r \<Rightarrow>
     if t = 0x00 then payload_ack_eliciting r
     else if t \<in> {0x02, 0x03} then (case quic_frame_parse_ack p of None \<Rightarrow> False | Some (a, d) \<Rightarrow> payload_ack_eliciting d)
     else if t \<in> {0x1c, 0x1d} then
       (case quic_frame_parse_connection_close p of None \<Rightarrow> False | Some (a, d) \<Rightarrow> payload_ack_eliciting d)
     else True)"
  by auto
termination by (relation "measure length") (auto dest: parse_shrinks2)

declare payload_ack_eliciting.simps [simp del]

section \<open>Round trips\<close>

lemma take_bit_varint: "v \<le> kMlVarintMax \<Longrightarrow> take_bit 62 v = v"
  by (simp add: le_kMlVarintMax_iff word_eq_iff_unsigned [where ?'a = nat] unsigned_take_bit_eq take_bit_nat_eq_self)

lemma get_varint_ml_enc [wire]: "v \<le> kMlVarintMax \<Longrightarrow> get_varint (ml_enc v @ r) = Some (v, r)"
  by (simp add: get_varint_def quic_decode_ml_enc take_bit_varint length_ml_enc [symmetric] del: length_ml_enc)

lemma get_varint_last [wire]: "v \<le> kMlVarintMax \<Longrightarrow> get_varint (ml_enc v) = Some (v, [])"
  using get_varint_ml_enc [of v "[]"] by simp

lemma length_varint: "length d < 2 ^ 62 \<Longrightarrow> word_of_nat (length d) \<le> kMlVarintMax"
  by (simp add: le_kMlVarintMax_iff unat_of_nat)

lemma get_length [wire]:
  "length d < 2 ^ 62 \<Longrightarrow> get_varint (length_of d @ r) = Some (word_of_nat (length d), r)"
  unfolding length_of_def by (rule get_varint_ml_enc) (rule length_varint)

lemma get_bytes_all [wire]:
  "length d < 2 ^ 62 \<Longrightarrow> get_bytes (word_of_nat (length d)) (d @ r) = Some (d, r)"
  by (simp add: get_bytes_def unat_of_nat)

lemma get_ranges_all:
  "\<forall>(g, x)\<in>set rs. g \<le> kMlVarintMax \<and> x \<le> kMlVarintMax \<Longrightarrow>
   get_ranges (length rs) (concat (map (\<lambda>(gap, range). ml_enc gap @ ml_enc range) rs) @ r) = Some (rs, r)"
  by (induction rs) (auto simp: wire)

lemma length_ranges: "length rs \<le> length (concat (map (\<lambda>(gap, range). ml_enc gap @ ml_enc range) rs))"
proof (induction rs)
  case (Cons p rs)
  with quic_varint_len_ge1 [of "fst p"] show ?case by (simp add: length_ml_enc case_prod_unfold)
qed simp

text \<open>The frames the library can write, by the writer of each; \<open>wide\<close> says that its numbers are variable-length integers.\<close>

fun write_frame :: "nat \<Rightarrow> quic_frame \<Rightarrow> octets option" where
  "write_frame cap (CryptoFrame off d) = quic_frame_write_crypto cap off d"
| "write_frame cap (AckFrame a) = quic_frame_write_ack cap a"
| "write_frame cap (CloseFrame c r) = quic_frame_write_connection_close cap c r"
| "write_frame cap (StreamFrame sid off fin d) = quic_frame_write_stream cap sid off fin d"
| "write_frame cap (MaxData m) = quic_frame_write_max_data cap m"
| "write_frame cap (MaxStreamData sid m) = quic_frame_write_max_stream_data cap sid m"
| "write_frame cap (ResetStream sid c fs) = quic_frame_write_reset_stream cap sid c fs"
| "write_frame cap (StopSending sid c) = quic_frame_write_stop_sending cap sid c"
| "write_frame cap (MaxStreams m bidi) = quic_frame_write_max_streams cap m bidi"
| "write_frame cap (DataBlocked m) = quic_frame_write_data_blocked cap m"
| "write_frame cap (StreamDataBlocked sid m) = quic_frame_write_stream_data_blocked cap sid m"
| "write_frame cap (StreamsBlocked m bidi) = quic_frame_write_streams_blocked cap m bidi"
| "write_frame cap (NewConnId a b c d) = None"
| "write_frame cap (RetireConnId s) = quic_frame_write_retire_conn_id cap s"
| "write_frame cap (Datagram d) = quic_frame_write_datagram cap d"

fun wide :: "quic_frame \<Rightarrow> bool" where
  "wide (CryptoFrame off d) \<longleftrightarrow> off \<le> kMlVarintMax \<and> length d < 2 ^ 62"
| "wide (AckFrame a) \<longleftrightarrow> largest_acknowledged a \<le> kMlVarintMax \<and> ack_delay a \<le> kMlVarintMax
     \<and> first_ack_range a \<le> kMlVarintMax \<and> length (ack_ranges a) \<le> QUIC_ACK_MAX_RANGES
     \<and> (\<forall>(g, x)\<in>set (ack_ranges a). g \<le> kMlVarintMax \<and> x \<le> kMlVarintMax)"
| "wide (CloseFrame c r) \<longleftrightarrow> c \<le> kMlVarintMax \<and> length r < 2 ^ 62"
| "wide (StreamFrame sid off fin d) \<longleftrightarrow> sid \<le> kMlVarintMax \<and> off \<le> kMlVarintMax \<and> length d < 2 ^ 62"
| "wide (MaxData m) \<longleftrightarrow> m \<le> kMlVarintMax"
| "wide (MaxStreamData sid m) \<longleftrightarrow> sid \<le> kMlVarintMax \<and> m \<le> kMlVarintMax"
| "wide (ResetStream sid c fs) \<longleftrightarrow> sid \<le> kMlVarintMax \<and> c \<le> kMlVarintMax \<and> fs \<le> kMlVarintMax"
| "wide (StopSending sid c) \<longleftrightarrow> sid \<le> kMlVarintMax \<and> c \<le> kMlVarintMax"
| "wide (MaxStreams m bidi) \<longleftrightarrow> m \<le> kMlVarintMax"
| "wide (DataBlocked m) \<longleftrightarrow> m \<le> kMlVarintMax"
| "wide (StreamDataBlocked sid m) \<longleftrightarrow> sid \<le> kMlVarintMax \<and> m \<le> kMlVarintMax"
| "wide (StreamsBlocked m bidi) \<longleftrightarrow> m \<le> kMlVarintMax"
| "wide (NewConnId a b c d) \<longleftrightarrow> False"
| "wide (RetireConnId s) \<longleftrightarrow> s \<le> kMlVarintMax"
| "wide (Datagram d) \<longleftrightarrow> length d < 2 ^ 62"

lemma put_Some: "put cap f = Some b \<longleftrightarrow> length f \<le> cap \<and> b = f"
  by (auto simp: put_def)

lemmas write_defs = quic_frame_write_crypto_def quic_frame_write_ack_def quic_frame_write_connection_close_def
  quic_frame_write_stream_def quic_frame_write_max_data_def quic_frame_write_max_stream_data_def
  quic_frame_write_reset_stream_def quic_frame_write_stop_sending_def quic_frame_write_max_streams_def
  quic_frame_write_data_blocked_def quic_frame_write_stream_data_blocked_def quic_frame_write_streams_blocked_def
  quic_frame_write_retire_conn_id_def quic_frame_write_datagram_def

lemma next_ack:
  assumes "wide (AckFrame a)" "quic_frame_write_ack cap a = Some b"
  shows "next_frame (b @ r) = Some ([AckFrame a], r)"
proof -
  let ?rs = "concat (map (\<lambda>(gap, range). ml_enc gap @ ml_enc range) (ack_ranges a))"
  have n: "length (ack_ranges a) \<le> 32" using assms(1) by (simp add: QUIC_ACK_MAX_RANGES_def)
  then have c: "word_of_nat (length (ack_ranges a)) \<le> kMlVarintMax"
    by (intro length_varint) simp
  have u: "unat (word_of_nat (length (ack_ranges a)) :: u64) = length (ack_ranges a)"
    using n by (simp add: unat_of_nat)
  have "length (ack_ranges a) \<le> length ?rs + length r" using length_ranges [of "ack_ranges a"] by linarith
  with assms n c u show ?thesis
    by (auto simp: next_frame_def took_def write_defs put_Some quic_frame_parse_ack_def get_type_def wire
        get_ranges_all QUIC_ACK_MAX_RANGES_def)
qed

lemma next_stream:
  assumes "wide (StreamFrame sid off fin d)" "quic_frame_write_stream cap sid off fin d = Some b"
  shows "next_frame (b @ r) = Some ([StreamFrame sid off fin d], r)"
  using assms by (auto simp: next_frame_def took_def write_defs put_Some quic_frame_parse_stream_def wire)

lemma next_frame_written:
  assumes "wide f" "write_frame cap f = Some b" "\<forall>c x. f \<noteq> CloseFrame c x"
  shows "next_frame (b @ r) = Some ([f], r)"
  using assms
  by (cases f) (auto simp: next_stream next_ack,
    auto simp: next_frame_def took_def write_defs put_Some quic_frame_parse_crypto_def
      quic_frame_parse_max_data_def quic_frame_parse_max_stream_data_def quic_frame_parse_max_streams_def
      quic_frame_parse_reset_stream_def quic_frame_parse_stop_sending_def quic_frame_parse_retire_conn_id_def
      quic_frame_parse_data_blocked_def quic_frame_parse_stream_data_blocked_def
      quic_frame_parse_streams_blocked_def quic_frame_parse_datagram_def get_two_def get_type_def wire)

lemma frames_of_Nil [simp]: "frames_of [] = []" by (simp add: frames_of.simps)

lemma frames_of_step: "next_frame p = Some (fs, d) \<Longrightarrow> p \<noteq> [] \<Longrightarrow> frames_of p = fs @ frames_of d"
  by (subst frames_of.simps) simp

lemma written_not_Nil: "write_frame cap f = Some b \<Longrightarrow> b \<noteq> []"
  by (cases f) (auto simp: write_defs put_Some)

text \<open>
  C38. Whatever frames the writers put into a payload one after another, the loop over the payload takes them out
  again: the same frames with the same fields in the same order.
\<close>

theorem payload_round_trip:
  assumes "list_all2 (\<lambda>f b. wide f \<and> (\<forall>c r. f \<noteq> CloseFrame c r) \<and> write_frame cap f = Some b) fs bs"
  shows "frames_of (concat bs) = fs"
  using assms
proof (induction fs bs rule: list_all2_induct)
  case (Cons f fs b bs)
  then have "next_frame (b @ concat bs) = Some ([f], concat bs)" by (blast intro: next_frame_written)
  with Cons written_not_Nil [of cap f b] show ?case by (simp add: frames_of_step)
qed simp

text \<open>A reset and a stream frame.\<close>

theorem payload_round_trip_witness:
  "frames_of ([0x04, 0x04, 0x01, 0x00] @ [0x0f, 0x08, 0x00, 0x02, 0x68, 0x69])
     = [ResetStream 4 1 0, StreamFrame 8 0 True [0x68, 0x69]]"
proof -
  have v: "(n :: u64) \<le> 63 \<Longrightarrow> ml_enc n = [ucast n]" for n
    by (simp add: ml_enc_def quic_varint_encode_Some quic_varint_len_def unsigned_ucast_eq)
  show ?thesis
    using payload_round_trip [of 64 "[ResetStream 4 1 0, StreamFrame 8 0 True [0x68, 0x69]]"
      "[[0x04, 0x04, 0x01, 0x00], [0x0f, 0x08, 0x00, 0x02, 0x68, 0x69]]"]
    by (simp add: write_defs put_def v length_of_def kMlVarintMax_def)
qed

section \<open>Packet numbers decode to the nearest\<close>

lemma candidate_val:
  fixes e p :: u64
  assumes "n < 64" "unat p < 2 ^ n"
  shows "unat ((e AND NOT (2 ^ n - 1)) OR p) = unat e div 2 ^ n * 2 ^ n + unat p"
proof -
  have m: "2 ^ n - 1 = (mask n :: u64)" by (simp add: mask_eq_exp_minus_1)
  have p: "p = take_bit n p"
    using assms(2) by (simp add: word_eq_iff_unsigned [where ?'a = nat] unsigned_take_bit_eq take_bit_nat_eq_self)
  have "(e AND NOT (mask n)) OR p = push_bit n (drop_bit n e) OR take_bit n p"
    by (subst p) (rule bit_eqI, auto simp: bit_simps)
  also have "\<dots> = push_bit n (drop_bit n e) + take_bit n p"
    by (rule disjunctive_add_eq_or [symmetric], rule bit_eqI) (auto simp: bit_simps)
  finally have eq: "(e AND NOT (2 ^ n - 1)) OR p = push_bit n (drop_bit n e) + p" using m p by simp
  obtain k where k: "(2::nat) ^ 64 = 2 ^ n * k" using assms(1) by (metis le_add_diff_inverse less_imp_le power_add)
  have "unat e div 2 ^ n < k" using unat_u64_less [of e] k by (simp add: less_mult_imp_div_less mult.commute)
  then have "Suc (unat e div 2 ^ n) * 2 ^ n \<le> k * 2 ^ n" by (intro mult_right_mono) auto
  with k assms(2) have s: "unat e div 2 ^ n * 2 ^ n + unat p < 2 ^ 64" by (simp add: mult.commute)
  have "unat (push_bit n (drop_bit n e)) = take_bit 64 (push_bit n (drop_bit n (unat e)))"
    by (subst unsigned_push_bit_eq, subst unsigned_drop_bit_eq) (simp add: take_bit_nat_eq_self [OF unat_u64_less])
  also have "\<dots> = take_bit 64 (unat e div 2 ^ n * 2 ^ n)"
    by (simp only: push_bit_eq_mult drop_bit_eq_div)
  also have "\<dots> = unat e div 2 ^ n * 2 ^ n" using s by (intro take_bit_nat_eq_self) simp
  finally show ?thesis using s by (simp add: eq unat_word_ariths(1))
qed

text \<open>The choice among the three candidates, on natural numbers.\<close>

lemma nearest:
  fixes e p w h :: nat
  assumes "w = 2 * h" "0 < h" "e < p + h" "p \<le> e + h"
  defines "c \<equiv> e div w * w + p mod w"
  shows "(if c + h \<le> e then c + w else if c > e + h \<and> c > w then c - w else c) = p"
proof -
  have e: "e = e div w * w + e mod w" and p: "p = p div w * w + p mod w" by simp_all
  have r: "e mod w < w" "p mod w < w" using assms by simp_all
  consider "p div w = e div w" | "p div w = Suc (e div w)" | "e div w = Suc (p div w)"
  proof -
    have "p div w \<le> Suc (e div w)"
    proof (rule ccontr)
      assume "\<not> p div w \<le> Suc (e div w)"
      then have "(e div w + 2) * w \<le> p div w * w" by (intro mult_right_mono) auto
      then have "e div w * w + 2 * w \<le> p div w * w" by (simp only: add_mult_distrib)
      with e p r assms(1,4) show False by linarith
    qed
    moreover have "e div w \<le> Suc (p div w)"
    proof (rule ccontr)
      assume "\<not> e div w \<le> Suc (p div w)"
      then have "(p div w + 2) * w \<le> e div w * w" by (intro mult_right_mono) auto
      then have "p div w * w + 2 * w \<le> e div w * w" by (simp only: add_mult_distrib)
      with e p r assms(1,3) show False by linarith
    qed
    ultimately show thesis using that by linarith
  qed
  then show ?thesis
  proof cases
    case 1
    then have "c = p" using p by (simp add: c_def)
    moreover have "\<not> p + h \<le> e" "\<not> e + h < p" using assms(3,4) by simp_all
    ultimately show ?thesis by simp
  next
    case 2
    then have "p = c + w" using p by (simp add: c_def)
    moreover from this have "c + h \<le> e" using assms(1,3,4) by linarith
    ultimately show ?thesis by simp
  next
    case 3
    then have c: "c = p + w" using p by (simp add: c_def)
    have "w \<le> e" using e 3 by (metis le_add1 le_trans mult_Suc)
    then have "\<not> c + h \<le> e" "e + h < c" "w < c" using c assms(1,2,3) by linarith+
    then show ?thesis using c by simp
  qed
qed

text \<open>
  C40. A packet number written in one to four octets is read back as itself by a receiver whose expected
  number is within half a window of it; among all numbers ending in these octets it is the nearest.
\<close>

theorem packet_number_round_trip:
  assumes "1 \<le> len" "len \<le> 4" "unat pn < 2 ^ 62" "unat expected < 2 ^ 62"
    and "unat expected < unat pn + 2 ^ (8 * len - 1)" "unat pn \<le> unat expected + 2 ^ (8 * len - 1)"
  shows "quic_pn_decode (quic_pn_encode pn len) expected = pn"
proof -
  define w h :: nat where "w = 2 ^ (8 * len)" and "h = 2 ^ (8 * len - 1)"
  have wh: "w = 2 * h" "0 < h" using assms(1) by (simp_all add: w_def h_def power_Suc [symmetric] del: power_Suc)
  have w32: "w \<le> 2 ^ 32" unfolding w_def using assms(2) by (intro power_increasing) simp_all
  define t :: u64 where "t = word_of_nat (unat pn mod w)"
  have lw: "unat pn mod w < w" using wh by simp
  then have t: "unat t = unat pn mod w" using w32 by (simp add: t_def unat_of_nat)
  have enc: "word_of_nat (be_val (quic_pn_encode pn len)) = t"
    by (simp add: quic_pn_encode_def be_val_be_bytes t_def w_def power_mult)
  define c where "c = (expected AND NOT (2 ^ (8 * len) - 1)) OR t"
  have c: "unat c = unat expected div w * w + unat pn mod w"
    unfolding c_def w_def t [unfolded w_def, symmetric]
    by (rule candidate_val) (use assms(2) t lw in \<open>simp_all add: w_def\<close>)
  have cb: "unat c < 2 ^ 62 + 2 ^ 32"
    using c lw w32 assms(4) div_times_less_eq_dividend [of "unat expected" w] by linarith
  have len: "len = 1 \<or> len = 2 \<or> len = 3 \<or> len = 4" using assms(1,2) by linarith
  then have pw: "unat (2 ^ (8 * len) :: u64) = w" "unat (2 ^ (8 * len) div 2 :: u64) = h"
    by (auto simp: w_def h_def)
  have sums: "unat (c + 2 ^ (8 * len)) = unat c + w" "unat (c + 2 ^ (8 * len) div 2) = unat c + h"
    "unat (expected + 2 ^ (8 * len) div 2) = unat expected + h"
    using cb wh w32 assms(4) by (simp_all add: unat_word_ariths(1) pw)
  have sub: "w < unat c \<Longrightarrow> unat (c - 2 ^ (8 * len)) = unat c - w"
    by (simp add: unat_sub word_le_nat_alt pw)
  have "unat (quic_pn_decode (quic_pn_encode pn len) expected)
      = (if unat c + h \<le> unat expected then unat c + w
         else if unat expected + h < unat c \<and> w < unat c then unat c - w else unat c)"
    using enc by (simp add: quic_pn_decode_def quic_pn_encode_def c_def [symmetric] word_le_nat_alt word_less_nat_alt sums sub pw)
  also have "\<dots> = unat pn" using nearest [OF wh assms(5,6) [folded h_def], folded c] .
  finally show ?thesis by (simp only: word_eq_iff_unsigned [where ?'a = nat])
qed

text \<open>The example of RFC 9000, appendix A.3.\<close>

theorem packet_number_round_trip_witness:
  "quic_pn_decode (quic_pn_encode 0xa82f9b32 2) 0xa82f30eb = 0xa82f9b32"
  using packet_number_round_trip [of 2 "0xa82f9b32" "0xa82f30eb"] by simp

end
