(* ===== verification/Quic_Stream.thy ===== *)
theory Quic_Stream
  imports Quic_Frame
begin

text \<open>
  The stream layer of a QUIC connection, \<open>quic/quic_stream.c\<close>, with the packet assembly of
  \<open>quic/quic_connection.c\<close> it sends through. A context holds the streams in the order they were made, the credit of
  both sides, the packet under construction and the packets handed to the sender, and what
  was reported to the application: callbacks are recorded in order as \<open>app_event\<close>s. Offsets, sizes and
  limits are natural numbers (all come from 62-bit integers); the two differences that can wrap around
  are written out with \<open>sub64\<close>. The send and receive buffers are what they hold; their capacities are memory
  management only. The answers of the congestion controller and the pacer to whether a packet may go now are a list the
  context carries, an exhausted list answering no.
\<close>

section \<open>State\<close>

datatype send_state = SEND_READY | SEND_SEND | SEND_DATA_SENT | SEND_RESET_SENT
datatype recv_state = RECV_RECV | RECV_SIZE_KNOWN | RECV_DATA_RECVD | RECV_RESET_RECVD

record write_req =
  start_offset :: nat
  req_length :: nat
  deadline_ms :: nat
  req_user :: nat

record quic_stream =
  qs_id :: nat
  send_state :: send_state
  send_offset :: nat
  send_max_data :: nat
  send_buf :: octets
  send_buf_fin :: bool
  send_blocked :: bool
  want_writable :: bool
  on_writable :: bool
  write_reqs :: "write_req list"
  recv_state :: recv_state
  recv_offset :: nat
  recv_max_data :: nat
  recv_buf :: "(nat \<Rightarrow> byte) option"
  fin_recvd :: bool
  final_size :: nat
  gaps :: "(nat \<times> nat) list"

datatype app_event = StreamData nat octets bool | StreamReset nat nat | Written nat nat nat int | Writable nat

record quic_ctx =
  qstreams :: "quic_stream list"
  next_local_bidi_id :: nat
  next_local_uni_id :: nat
  max_data_local :: nat
  max_data_peer :: nat
  bytes_sent :: nat
  bytes_recvd :: nat
  max_streams_bidi_peer :: nat
  max_streams_uni_peer :: nat
  max_streams_bidi_local :: nat
  max_streams_uni_local :: nat
  peer_bidi_opened :: nat
  peer_uni_opened :: nat
  peer_init_max_stream_data_bidi_local :: nat
  peer_init_max_stream_data_bidi_remote :: nat
  peer_init_max_stream_data_uni :: nat
  app_events :: "app_event list"
  pkt_payload :: "octets list"
  sent_packets :: "octets list list"
  may_send :: "bool list"
  fresh_memory :: "nat \<Rightarrow> byte"

definition QUIC_STREAM_RECV_BUF_SIZE :: nat where "QUIC_STREAM_RECV_BUF_SIZE = 64 * 1024 * 1024"
definition QUIC_STREAM_SEND_HIGH_WATER :: nat where "QUIC_STREAM_SEND_HIGH_WATER = 512 * 1024"
definition QUIC_STREAM_SEND_LOW_WATER :: nat where "QUIC_STREAM_SEND_LOW_WATER = 128 * 1024"
definition QUIC_STREAM_MAX_GAPS :: nat where "QUIC_STREAM_MAX_GAPS = 8"
definition QUIC_STREAM_CREDIT_CHUNK :: nat where "QUIC_STREAM_CREDIT_CHUNK = 256"
definition QUIC_STREAM_CREDIT_RESERVE :: nat where "QUIC_STREAM_CREDIT_RESERVE = 16"
definition QUIC_MAX_PAYLOAD_LEN :: nat where "QUIC_MAX_PAYLOAD_LEN = 1286"

definition sub64 :: "nat \<Rightarrow> nat \<Rightarrow> nat" where "sub64 a b = (a + 2 ^ 64 - b) mod 2 ^ 64"

section \<open>Packets\<close>

definition ask :: "quic_ctx \<Rightarrow> bool \<times> quic_ctx" where
  "ask c = (case may_send c of [] \<Rightarrow> (False, c) | b # bs \<Rightarrow> (b, c\<lparr>may_send := bs\<rparr>))"

definition payload_len :: "quic_ctx \<Rightarrow> nat" where "payload_len c = length (concat (pkt_payload c))"

definition flush_packet :: "quic_ctx \<Rightarrow> quic_ctx" where
  "flush_packet c =
     (if payload_len c = 0 then c
      else case ask c of (can, c1) \<Rightarrow>
        if \<not> can then c1
        else case ask c1 of (paced, c2) \<Rightarrow>
          if \<not> paced then c2
          else c2\<lparr>sent_packets := sent_packets c2 @ [pkt_payload c2], pkt_payload := []\<rparr>)"

definition queue_frames :: "quic_ctx \<Rightarrow> octets \<Rightarrow> quic_ctx \<times> bool" where
  "queue_frames c f =
     (let add = (\<lambda>c. (c\<lparr>pkt_payload := pkt_payload c @ [f]\<rparr>, True)) in
      if length f > QUIC_MAX_PAYLOAD_LEN then (c, False)
      else if payload_len c + length f > QUIC_MAX_PAYLOAD_LEN \<and> payload_len c > 0 then
        (case ask c of (can, c1) \<Rightarrow>
           if \<not> can then (c1, False)
           else let c2 = flush_packet c1 in
             if payload_len c2 + length f > QUIC_MAX_PAYLOAD_LEN then (c2, False) else add c2)
      else add c)"

text \<open>\<open>if (flen > 0) queue_fn(\<dots>)\<close>: the result of the queue is not looked at.\<close>

definition queue :: "quic_ctx \<Rightarrow> octets option \<Rightarrow> quic_ctx" where
  "queue c f = (case f of None \<Rightarrow> c | Some b \<Rightarrow> fst (queue_frames c b))"

definition queue_flush :: "quic_ctx \<Rightarrow> octets option \<Rightarrow> quic_ctx" where
  "queue_flush c f = (case f of None \<Rightarrow> c | Some b \<Rightarrow> flush_packet (fst (queue_frames c b)))"

definition tell :: "app_event list \<Rightarrow> quic_ctx \<Rightarrow> quic_ctx" where
  "tell es c = c\<lparr>app_events := app_events c @ es\<rparr>"

section \<open>Streams\<close>

definition peer_send_credit :: "quic_ctx \<Rightarrow> nat \<Rightarrow> nat" where
  "peer_send_credit c sid =
     (let we_init = (sid mod 2 = next_local_bidi_id c mod 2); uni = (sid div 2 mod 2 \<noteq> 0) in
      if uni then peer_init_max_stream_data_uni c
      else if we_init then peer_init_max_stream_data_bidi_remote c
      else peer_init_max_stream_data_bidi_local c)"

definition u64of :: "nat \<Rightarrow> u64" where "u64of n = word_of_nat n"

definition quic_stream_grant_credit :: "bool \<Rightarrow> quic_ctx \<Rightarrow> quic_ctx" where
  "quic_stream_grant_credit bidi c =
     (let opened = (if bidi then peer_bidi_opened c else peer_uni_opened c);
          limit = (if bidi then max_streams_bidi_local c else max_streams_uni_local c);
          want = opened + QUIC_STREAM_CREDIT_CHUNK in
      if want \<le> limit then c
      else queue (if bidi then c\<lparr>max_streams_bidi_local := want\<rparr> else c\<lparr>max_streams_uni_local := want\<rparr>)
             (quic_frame_write_max_streams 16 (u64of want) bidi))"

definition quic_stream_note_peer_stream :: "nat \<Rightarrow> quic_ctx \<Rightarrow> quic_ctx" where
  "quic_stream_note_peer_stream sid c =
     (if sid mod 2 = next_local_bidi_id c mod 2 then c
      else let bidi = (sid div 2 mod 2 = 0);
               c1 = (if bidi then c\<lparr>peer_bidi_opened := peer_bidi_opened c + 1\<rparr>
                     else c\<lparr>peer_uni_opened := peer_uni_opened c + 1\<rparr>);
               opened = (if bidi then peer_bidi_opened c1 else peer_uni_opened c1);
               limit = (if bidi then max_streams_bidi_local c1 else max_streams_uni_local c1) in
           if limit > 0 \<and> opened + QUIC_STREAM_CREDIT_RESERVE > limit then quic_stream_grant_credit bidi c1 else c1)"

definition stream_find :: "quic_ctx \<Rightarrow> nat \<Rightarrow> quic_stream option" where
  "stream_find c sid = find (\<lambda>s. qs_id s = sid) (qstreams c)"

definition new_stream :: "quic_ctx \<Rightarrow> nat \<Rightarrow> quic_stream" where
  "new_stream c sid =
     \<lparr>qs_id = sid, send_state = SEND_READY, send_offset = 0, send_max_data = peer_send_credit c sid,
      send_buf = [], send_buf_fin = False, send_blocked = False, want_writable = False, on_writable = False,
      write_reqs = [], recv_state = RECV_RECV, recv_offset = 0, recv_max_data = QUIC_STREAM_RECV_BUF_SIZE,
      recv_buf = None, fin_recvd = False, final_size = 0, gaps = []\<rparr>"

text \<open>Writing a changed stream back into the table: the code changes it in place through its pointer.\<close>

definition put_s :: "quic_stream \<Rightarrow> quic_ctx \<Rightarrow> quic_ctx" where
  "put_s s c = c\<lparr>qstreams := map (\<lambda>t. if qs_id t = qs_id s then s else t) (qstreams c)\<rparr>"

definition stream_find_or_create :: "quic_ctx \<Rightarrow> nat \<Rightarrow> quic_ctx \<times> quic_stream" where
  "stream_find_or_create c sid =
     (case stream_find c sid of Some s \<Rightarrow> (c, s)
      | None \<Rightarrow> let s = new_stream c sid in (c\<lparr>qstreams := qstreams c @ [s]\<rparr>, s))"

definition quic_stream_open :: "quic_ctx \<Rightarrow> quic_ctx \<times> nat option" where
  "quic_stream_open c =
     (let sid = next_local_bidi_id c in
      if sid div 4 \<ge> max_streams_bidi_peer c \<and> max_streams_bidi_peer c > 0 then
        (queue c (quic_frame_write_streams_blocked 16 (u64of (max_streams_bidi_peer c)) True), None)
      else case stream_find_or_create (c\<lparr>next_local_bidi_id := sid + 4\<rparr>) sid of (c1, s) \<Rightarrow>
        (put_s (s\<lparr>send_state := SEND_SEND\<rparr>) c1, Some sid))"

definition quic_stream_open_uni :: "quic_ctx \<Rightarrow> quic_ctx \<times> nat option" where
  "quic_stream_open_uni c =
     (let sid = next_local_uni_id c in
      if sid div 4 \<ge> max_streams_uni_peer c \<and> max_streams_uni_peer c > 0 then
        (queue c (quic_frame_write_streams_blocked 16 (u64of (max_streams_uni_peer c)) False), None)
      else case stream_find_or_create (c\<lparr>next_local_uni_id := sid + 4\<rparr>) sid of (c1, s) \<Rightarrow>
        (put_s (s\<lparr>send_state := SEND_SEND, recv_state := RECV_RESET_RECVD, recv_max_data := 0,
                  send_max_data := peer_send_credit c1 sid\<rparr>) c1, Some sid))"

section \<open>Write requests and the send buffer\<close>

definition req_insert :: "write_req \<Rightarrow> write_req list \<Rightarrow> write_req list" where
  "req_insert r rs = takeWhile (\<lambda>q. start_offset q < start_offset r) rs @ r
     # dropWhile (\<lambda>q. start_offset q < start_offset r) rs"

fun req_fire_completed :: "nat \<Rightarrow> nat \<Rightarrow> write_req list \<Rightarrow> write_req list \<times> app_event list" where
  "req_fire_completed sid acked [] = ([], [])"
| "req_fire_completed sid acked (r # rs) =
     (if acked < start_offset r + req_length r then (r # rs, [])
      else case req_fire_completed sid acked rs of (rs', es) \<Rightarrow> (rs', Written sid (req_user r) (req_length r) 0 # es))"

definition req_fail_all :: "int \<Rightarrow> quic_stream \<Rightarrow> quic_stream \<times> app_event list" where
  "req_fail_all code s = (s\<lparr>write_reqs := []\<rparr>, map (\<lambda>r. Written (qs_id s) (req_user r) 0 code) (write_reqs s))"

definition send_buf_append :: "octets \<Rightarrow> quic_stream \<Rightarrow> quic_stream" where
  "send_buf_append d s = s\<lparr>send_buf := send_buf s @ d\<rparr>"

definition maybe_notify_writable :: "quic_ctx \<Rightarrow> quic_stream \<Rightarrow> quic_ctx \<times> quic_stream" where
  "maybe_notify_writable c s =
     (if \<not> want_writable s \<or> length (send_buf s) > QUIC_STREAM_SEND_LOW_WATER then (c, s)
      else (if on_writable s then tell [Writable (qs_id s)] c else c, s\<lparr>want_writable := False\<rparr>))"

definition stream_room :: "quic_stream \<Rightarrow> nat" where
  "stream_room s = (if send_offset s < send_max_data s then send_max_data s - send_offset s else 0)"

definition conn_room :: "quic_ctx \<Rightarrow> nat" where
  "conn_room c = (if bytes_sent c < max_data_peer c then max_data_peer c - bytes_sent c else 0)"

definition blocked :: "octets option \<Rightarrow> quic_ctx \<Rightarrow> quic_stream \<Rightarrow> quic_ctx \<times> quic_stream" where
  "blocked f c s =
     maybe_notify_writable (if send_blocked s then c else queue_flush c f) (s\<lparr>send_blocked := True\<rparr>)"

definition MAX_PAYLOAD_CHUNK :: nat where "MAX_PAYLOAD_CHUNK = 1200"

definition chunk_size :: "quic_ctx \<Rightarrow> quic_stream \<Rightarrow> nat" where
  "chunk_size c s = min (min (min (length (send_buf s)) MAX_PAYLOAD_CHUNK) (stream_room s)) (conn_room c)"

function (sequential) consume_send_buf :: "quic_ctx \<Rightarrow> quic_stream \<Rightarrow> (quic_ctx \<times> quic_stream) \<times> int" where
  "consume_send_buf c s =
     (if send_buf s = [] then
        (maybe_notify_writable c (s\<lparr>send_buf_fin := False, send_blocked := False\<rparr>), 0)
      else if stream_room s = 0 then
        (blocked (quic_frame_write_stream_data_blocked 32 (u64of (qs_id s)) (u64of (send_max_data s))) c s, -1)
      else if conn_room c = 0 then (blocked (quic_frame_write_data_blocked 16 (u64of (max_data_peer c))) c s, -1)
      else let n = chunk_size c s; is_last = (n \<ge> length (send_buf s) \<and> send_buf_fin s) in
        case quic_frame_write_stream 2048 (u64of (qs_id s)) (u64of (send_offset s)) is_last (take n (send_buf s)) of
          None \<Rightarrow> ((c, s), -1)
        | Some f \<Rightarrow>
            (case queue_frames c f of (c1, ok) \<Rightarrow>
               if \<not> ok then (maybe_notify_writable c1 (s\<lparr>send_blocked := True\<rparr>), -1)
               else consume_send_buf (c1\<lparr>bytes_sent := bytes_sent c1 + n\<rparr>)
                      (s\<lparr>send_offset := send_offset s + n, send_buf := drop n (send_buf s), send_blocked := False\<rparr>)))"
  by pat_completeness auto
termination
  by (relation "measure (\<lambda>(c, s). length (send_buf s))")
     (auto simp: chunk_size_def MAX_PAYLOAD_CHUNK_def)

declare consume_send_buf.simps [simp del]

section \<open>Sending\<close>

definition sending_over :: "quic_stream \<Rightarrow> bool" where
  "sending_over s \<longleftrightarrow> send_state s = SEND_RESET_SENT \<or> send_state s = SEND_DATA_SENT"

definition quic_stream_write ::
  "nat \<Rightarrow> nat \<Rightarrow> octets \<Rightarrow> bool \<Rightarrow> nat option \<Rightarrow> nat \<Rightarrow> quic_ctx \<Rightarrow> quic_ctx \<times> int" where
  "quic_stream_write now sid d fin cb timeout_ms c =
     (let refused = (case cb of None \<Rightarrow> [] | Some user \<Rightarrow> [Written sid user 0 (-1)]) in
      case stream_find c sid of None \<Rightarrow> (tell refused c, -1)
      | Some s \<Rightarrow>
          if sending_over s then (tell refused c, -1)
          else if d \<noteq> [] \<and> length (send_buf s) + length d > QUIC_STREAM_SEND_HIGH_WATER then
            (put_s (s\<lparr>want_writable := True\<rparr>) c, 1)
          else
            let s1 = (case cb of None \<Rightarrow> s | Some user \<Rightarrow>
                        s\<lparr>write_reqs := req_insert \<lparr>start_offset = send_offset s + length (send_buf s), req_length = length d,
                             deadline_ms = (if timeout_ms \<noteq> 0 then now + timeout_ms else 0), req_user = user\<rparr> (write_reqs s)\<rparr>);
                s2 = send_buf_append d s1;
                s3 = (if fin then s2\<lparr>send_buf_fin := True\<rparr> else s2);
                s4 = (if send_state s3 = SEND_READY then s3\<lparr>send_state := SEND_SEND\<rparr> else s3) in
            case consume_send_buf c s4 of ((c5, s5), _) \<Rightarrow>
            case maybe_notify_writable c5 s5 of (c6, s6) \<Rightarrow> (put_s s6 c6, 0))"

definition SEND_CHUNK :: nat where "SEND_CHUNK = 1300"

text \<open>The direct path: frames are made of the data itself, past the send buffer.\<close>

function (sequential) send_loop :: "octets \<Rightarrow> bool \<Rightarrow> quic_ctx \<Rightarrow> quic_stream \<Rightarrow> (quic_ctx \<times> quic_stream) \<times> bool" where
  "send_loop d fin c s =
     (if d = [] then ((c, s), True)
      else if stream_room s = 0 \<or> conn_room c = 0 then ((c, s), False)
      else let n = min (min (min (length d) SEND_CHUNK) (stream_room s)) (conn_room c);
               is_last = (n \<ge> length d \<and> fin) in
        case quic_frame_write_stream 2048 (u64of (qs_id s)) (u64of (send_offset s)) is_last (take n d) of
          None \<Rightarrow> ((c, s), False)
        | Some f \<Rightarrow>
            (case queue_frames c f of (c1, ok) \<Rightarrow>
               if \<not> ok then ((c1, s), False)
               else send_loop (drop n d) fin (c1\<lparr>bytes_sent := bytes_sent c1 + n\<rparr>) (s\<lparr>send_offset := send_offset s + n\<rparr>)))"
  by pat_completeness auto
termination
  by (relation "measure (\<lambda>(d, fin, c, s). length d)") (auto simp: SEND_CHUNK_def)

declare send_loop.simps [simp del]

definition after_send :: "bool \<Rightarrow> quic_stream \<Rightarrow> quic_stream" where
  "after_send fin s = (if fin then s\<lparr>send_state := SEND_DATA_SENT\<rparr>
     else if send_state s = SEND_READY then s\<lparr>send_state := SEND_SEND\<rparr> else s)"

definition quic_stream_send :: "nat \<Rightarrow> octets \<Rightarrow> bool \<Rightarrow> quic_ctx \<Rightarrow> quic_ctx \<times> int" where
  "quic_stream_send sid d fin c =
     (case stream_find c sid of None \<Rightarrow> (c, -1)
      | Some s \<Rightarrow>
          if sending_over s then (c, -1)
          else if send_offset s + length d > send_max_data s then
            (queue_flush c (quic_frame_write_stream_data_blocked 32 (u64of sid) (u64of (send_max_data s))), -1)
          else if bytes_sent c + length d > max_data_peer c then
            (queue_flush c (quic_frame_write_data_blocked 16 (u64of (max_data_peer c))), -1)
          else if d = [] \<and> fin then
            (case quic_frame_write_stream 2048 (u64of sid) (u64of (send_offset s)) True [] of None \<Rightarrow> (c, -1)
             | Some f \<Rightarrow> (case queue_frames c f of (c1, ok) \<Rightarrow>
                 if \<not> ok then (c1, -1) else (put_s (after_send fin s) c1, 0)))
          else case send_loop d fin c s of ((c1, s1), ok) \<Rightarrow>
            if \<not> ok then (put_s s1 c1, -1) else (put_s (after_send fin s1) c1, 0))"

section \<open>Closing and resetting\<close>

definition quic_stream_close_send :: "nat \<Rightarrow> quic_ctx \<Rightarrow> quic_ctx" where
  "quic_stream_close_send sid c =
     (case stream_find c sid of None \<Rightarrow> c
      | Some s \<Rightarrow> if send_state s = SEND_DATA_SENT then c
          else put_s (s\<lparr>send_state := SEND_DATA_SENT\<rparr>)
                 (queue_flush c (quic_frame_write_stream 32 (u64of sid) (u64of (send_offset s)) True [])))"

definition quic_stream_reset :: "nat \<Rightarrow> nat \<Rightarrow> quic_ctx \<Rightarrow> quic_ctx \<times> int" where
  "quic_stream_reset sid error_code c =
     (case stream_find c sid of None \<Rightarrow> (c, -1)
      | Some s \<Rightarrow>
          (case quic_frame_write_reset_stream 64 (u64of sid) (u64of error_code) (u64of (send_offset s)) of None \<Rightarrow> (c, -1)
           | Some f \<Rightarrow>
              (case req_fail_all (- sint (word_of_nat error_code :: u32)) (s\<lparr>send_state := SEND_RESET_SENT\<rparr>) of (s1, es) \<Rightarrow>
                 (tell es (put_s s1 (flush_packet (fst (queue_frames c f)))), 0))))"

definition quic_stream_stop_sending :: "nat \<Rightarrow> nat \<Rightarrow> quic_ctx \<Rightarrow> quic_ctx \<times> int" where
  "quic_stream_stop_sending sid error_code c =
     (case stream_find c sid of None \<Rightarrow> (c, -1)
      | Some s \<Rightarrow>
          (case quic_frame_write_stop_sending 64 (u64of sid) (u64of error_code) of None \<Rightarrow> (c, -1)
           | Some f \<Rightarrow>
              (put_s (s\<lparr>recv_state := RECV_RESET_RECVD, recv_buf := None\<rparr>) (flush_packet (fst (queue_frames c f))), 0)))"

section \<open>Receiving out of order\<close>

text \<open>\<open>gaps\<close> are the ranges received past \<open>recv_offset\<close>, as offset and length in increasing order.\<close>

fun merge_gaps :: "(nat \<times> nat) list \<Rightarrow> (nat \<times> nat) list" where
  "merge_gaps (a # b # gs) =
     (if fst a + snd a \<ge> fst b then
        merge_gaps ((fst a, if fst b + snd b > fst a + snd a then fst b + snd b - fst a else snd a) # gs)
      else a # merge_gaps (b # gs))"
| "merge_gaps gs = gs"

definition gap_insert :: "nat \<Rightarrow> nat \<Rightarrow> (nat \<times> nat) list \<Rightarrow> (nat \<times> nat) list" where
  "gap_insert off len gs =
     merge_gaps (if length gs < QUIC_STREAM_MAX_GAPS
       then takeWhile (\<lambda>g. \<not> off < fst g) gs @ (off, len) # dropWhile (\<lambda>g. \<not> off < fst g) gs else gs)"

definition read_mem :: "(nat \<Rightarrow> byte) \<Rightarrow> nat \<Rightarrow> nat \<Rightarrow> octets" where
  "read_mem m off len = map m [off..<off + len]"

definition write_mem :: "(nat \<Rightarrow> byte) \<Rightarrow> nat \<Rightarrow> octets \<Rightarrow> nat \<Rightarrow> byte" where
  "write_mem m off d = (\<lambda>i. if off \<le> i \<and> i < off + length d then d ! (i - off) else m i)"

fun drain :: "(nat \<times> nat) list \<Rightarrow> quic_ctx \<Rightarrow> quic_stream \<Rightarrow> quic_ctx \<times> quic_stream" where
  "drain [] c s = (c, s\<lparr>gaps := []\<rparr>)"
| "drain (g # gs) c s =
     (if fst g \<le> recv_offset s then
        let e = fst g + snd g; n = e - recv_offset s in
        if e > recv_offset s then
          drain gs
            (tell (case recv_buf s of None \<Rightarrow> [] | Some m \<Rightarrow> [StreamData (qs_id s) (read_mem m (recv_offset s) n) False])
               (c\<lparr>bytes_recvd := bytes_recvd c + n\<rparr>))
            (s\<lparr>recv_offset := e\<rparr>)
        else drain gs c s
      else (c, s\<lparr>gaps := g # gs\<rparr>))"

definition gap_drain :: "quic_ctx \<Rightarrow> quic_stream \<Rightarrow> quic_ctx \<times> quic_stream" where
  "gap_drain c s = drain (gaps s) c s"

definition stream_fc_update :: "quic_ctx \<Rightarrow> quic_stream \<Rightarrow> quic_ctx \<times> quic_stream" where
  "stream_fc_update c s =
     (let c1 = (if sub64 (max_data_local c) (bytes_recvd c) < QUIC_STREAM_RECV_BUF_SIZE div 4 then
                  let m = bytes_recvd c + QUIC_STREAM_RECV_BUF_SIZE in
                  queue (c\<lparr>max_data_local := m\<rparr>) (quic_frame_write_max_data 16 (u64of m))
                else c) in
      if sub64 (recv_max_data s) (recv_offset s) < QUIC_STREAM_RECV_BUF_SIZE div 4 then
        let m = recv_offset s + QUIC_STREAM_RECV_BUF_SIZE in
        (queue c1 (quic_frame_write_max_stream_data 32 (u64of (qs_id s)) (u64of m)), s\<lparr>recv_max_data := m\<rparr>)
      else (c1, s))"

text \<open>The three parts of \<open>quic_stream_on_recv\<close> after the checks: data past the next octet, data
  that reaches it, and the end of the call.\<close>

definition store_ahead :: "nat \<Rightarrow> octets \<Rightarrow> quic_ctx \<Rightarrow> quic_stream \<Rightarrow> quic_ctx \<times> quic_stream" where
  "store_ahead off d c s =
     (let m = (case recv_buf s of None \<Rightarrow> fresh_memory c | Some m \<Rightarrow> m) in
      (c\<lparr>bytes_recvd := bytes_recvd c + length d\<rparr>,
       s\<lparr>recv_buf := Some (write_mem m off d), gaps := gap_insert off (length d) (gaps s)\<rparr>))"

definition take_in_order :: "nat \<Rightarrow> octets \<Rightarrow> quic_ctx \<Rightarrow> quic_stream \<Rightarrow> quic_ctx \<times> quic_stream" where
  "take_in_order off d c s =
     (if off + length d > recv_offset s then
        let n = off + length d - recv_offset s; skip = recv_offset s - off in
        gap_drain (tell [StreamData (qs_id s) (drop skip d) False] (c\<lparr>bytes_recvd := bytes_recvd c + n\<rparr>))
          (s\<lparr>recv_offset := off + length d\<rparr>)
      else (c, s))"

definition end_of_stream :: "quic_ctx \<Rightarrow> quic_stream \<Rightarrow> quic_ctx \<times> quic_stream" where
  "end_of_stream c s =
     (if fin_recvd s \<and> recv_offset s \<ge> final_size s
      then (tell [StreamData (qs_id s) [] True] c, s\<lparr>recv_state := RECV_SIZE_KNOWN\<rparr>) else (c, s))"

definition quic_stream_on_recv :: "nat \<Rightarrow> nat \<Rightarrow> bool \<Rightarrow> octets \<Rightarrow> quic_ctx \<Rightarrow> quic_ctx \<times> int" where
  "quic_stream_on_recv sid off fin d c =
     (let is_new = (stream_find c sid = None) in
      case stream_find_or_create c sid of (c1, s) \<Rightarrow>
      let c2 = (if is_new then quic_stream_note_peer_stream sid c1 else c1) in
      if off + length d > recv_max_data s then (c2, -1)
      else
        let s1 = (if fin then s\<lparr>fin_recvd := True, final_size := off + length d\<rparr> else s) in
        if off > recv_offset s1 then
          (case store_ahead off d c2 s1 of (c3, s3) \<Rightarrow>
           case stream_fc_update c3 s3 of (c4, s4) \<Rightarrow> (flush_packet (put_s s4 c4), 0))
        else
          (case take_in_order off d c2 s1 of (c3, s3) \<Rightarrow>
           case stream_fc_update c3 s3 of (c4, s4) \<Rightarrow>
           case end_of_stream c4 s4 of (c5, s5) \<Rightarrow> (flush_packet (put_s s5 c5), 0)))"

section \<open>Credit and connection events\<close>

definition quic_stream_handshake_done :: "quic_ctx \<Rightarrow> quic_ctx" where
  "quic_stream_handshake_done c =
     queue (c\<lparr>max_data_local := QUIC_STREAM_RECV_BUF_SIZE\<rparr>) (quic_frame_write_max_data 16 (u64of QUIC_STREAM_RECV_BUF_SIZE))"

definition quic_stream_on_max_data :: "nat \<Rightarrow> quic_ctx \<Rightarrow> quic_ctx" where
  "quic_stream_on_max_data m c = (if m > max_data_peer c then c\<lparr>max_data_peer := m\<rparr> else c)"

definition quic_stream_apply_init_send_credit :: "quic_ctx \<Rightarrow> quic_ctx" where
  "quic_stream_apply_init_send_credit c =
     c\<lparr>qstreams := map (\<lambda>s. let lim = peer_send_credit c (qs_id s) in
         if lim > send_max_data s then s\<lparr>send_max_data := lim\<rparr> else s) (qstreams c)\<rparr>"

text \<open>The peer's transport parameters: those about streams, then the credit of the streams that are open.\<close>

definition set_param :: "u64 \<Rightarrow> octets \<Rightarrow> quic_ctx \<Rightarrow> quic_ctx" where
  "set_param tp_id d c = (case get_varint d of None \<Rightarrow> c
     | Some (v, r) \<Rightarrow> let m = unat v in
         if tp_id = 0x04 then c\<lparr>max_data_peer := m\<rparr>
         else if tp_id = 0x05 then c\<lparr>peer_init_max_stream_data_bidi_local := m\<rparr>
         else if tp_id = 0x06 then c\<lparr>peer_init_max_stream_data_bidi_remote := m\<rparr>
         else if tp_id = 0x07 then c\<lparr>peer_init_max_stream_data_uni := m\<rparr>
         else if tp_id = 0x08 then c\<lparr>max_streams_bidi_peer := m\<rparr>
         else if tp_id = 0x09 then c\<lparr>max_streams_uni_peer := m\<rparr>
         else c)"

function transport_params :: "octets \<Rightarrow> quic_ctx \<Rightarrow> quic_ctx" where
  "transport_params p c = (case get_two p of None \<Rightarrow> c
     | Some ((tp_id, tp_len), r) \<Rightarrow>
         (case get_bytes tp_len r of None \<Rightarrow> c | Some (d, r') \<Rightarrow> transport_params r' (set_param tp_id d c)))"
  by auto
termination by (relation "measure (\<lambda>(p, c). length p)") (auto dest!: get_two_shrinks get_bytes_shrinks)

declare transport_params.simps [simp del]

definition got_transport_params :: "octets \<Rightarrow> quic_ctx \<Rightarrow> quic_ctx" where
  "got_transport_params p c = quic_stream_apply_init_send_credit (transport_params p c)"

definition quic_stream_on_max_stream_data :: "nat \<Rightarrow> nat \<Rightarrow> quic_ctx \<Rightarrow> quic_ctx" where
  "quic_stream_on_max_stream_data sid m c =
     (case stream_find_or_create c sid of (c1, s) \<Rightarrow>
        if m > send_max_data s then put_s (s\<lparr>send_max_data := m\<rparr>) c1 else c1)"

definition quic_stream_on_max_streams :: "nat \<Rightarrow> bool \<Rightarrow> quic_ctx \<Rightarrow> quic_ctx" where
  "quic_stream_on_max_streams m bidi c =
     (if bidi then c\<lparr>max_streams_bidi_peer := m\<rparr> else c\<lparr>max_streams_uni_peer := m\<rparr>)"

definition quic_stream_on_reset :: "nat \<Rightarrow> nat \<Rightarrow> nat \<Rightarrow> quic_ctx \<Rightarrow> quic_ctx" where
  "quic_stream_on_reset sid fs error_code c =
     (let c1 = tell [StreamReset sid error_code] c in
      case stream_find c sid of None \<Rightarrow> c1
      | Some s \<Rightarrow> put_s (s\<lparr>recv_state := RECV_RESET_RECVD, recv_offset := fs, recv_buf := None\<rparr>) c1)"

definition quic_stream_on_stop_sending :: "nat \<Rightarrow> quic_ctx \<Rightarrow> quic_ctx" where
  "quic_stream_on_stop_sending sid c =
     (case stream_find c sid of None \<Rightarrow> c
      | Some s \<Rightarrow> if send_state s = SEND_SEND \<or> send_state s = SEND_DATA_SENT
                  then fst (quic_stream_reset sid 0 c) else c)"

definition quic_stream_on_streams_blocked :: "bool \<Rightarrow> quic_ctx \<Rightarrow> quic_ctx" where
  "quic_stream_on_streams_blocked bidi c = quic_stream_grant_credit bidi c"

fun expire :: "nat \<Rightarrow> nat \<Rightarrow> write_req list \<Rightarrow> write_req list \<times> app_event list" where
  "expire now sid [] = ([], [])"
| "expire now sid (r # rs) =
     (if deadline_ms r > 0 \<and> deadline_ms r \<le> now then
        (case expire now sid rs of (rs', es) \<Rightarrow> (rs', Written sid (req_user r) (req_length r) (-2) # es))
      else (r # rs, []))"

text \<open>One round of the loop of \<open>quic_stream_flush_pending\<close>, for the stream of that id.\<close>

definition flush_one :: "nat \<Rightarrow> quic_ctx \<Rightarrow> quic_stream \<Rightarrow> quic_ctx \<times> quic_stream" where
  "flush_one now c s =
     (case expire now (qs_id s) (write_reqs s) of (rs, es) \<Rightarrow>
      let c1 = tell es c; s1 = s\<lparr>write_reqs := rs\<rparr> in
      case (if send_buf s1 \<noteq> [] then fst (consume_send_buf c1 s1) else maybe_notify_writable c1 s1) of (c2, s2) \<Rightarrow>
      case req_fire_completed (qs_id s2) (send_offset s2) (write_reqs s2) of (rs2, es2) \<Rightarrow>
      maybe_notify_writable (tell es2 c2) (s2\<lparr>write_reqs := rs2\<rparr>))"

definition flush_stream :: "nat \<Rightarrow> nat \<Rightarrow> quic_ctx \<Rightarrow> quic_ctx" where
  "flush_stream now sid c = (case stream_find c sid of None \<Rightarrow> c
     | Some s \<Rightarrow> (case flush_one now c s of (c1, s1) \<Rightarrow> put_s s1 c1))"

definition quic_stream_flush_pending :: "nat \<Rightarrow> quic_ctx \<Rightarrow> quic_ctx" where
  "quic_stream_flush_pending now c = foldl (\<lambda>c sid. flush_stream now sid c) c (map qs_id (qstreams c))"

definition quic_stream_set_on_writable :: "nat \<Rightarrow> bool \<Rightarrow> quic_ctx \<Rightarrow> quic_ctx \<times> int" where
  "quic_stream_set_on_writable sid cb c = (case stream_find c sid of None \<Rightarrow> (c, -1)
     | Some s \<Rightarrow> (put_s (s\<lparr>on_writable := cb\<rparr>) c, 0))"

definition quic_stream_send_pending :: "nat \<Rightarrow> quic_ctx \<Rightarrow> nat" where
  "quic_stream_send_pending sid c = (case stream_find c sid of None \<Rightarrow> 0 | Some s \<Rightarrow> length (send_buf s))"

definition quic_stream_cleanup :: "quic_ctx \<Rightarrow> quic_ctx" where
  "quic_stream_cleanup c =
     tell (concat (map (\<lambda>s. snd (req_fail_all (-1) s)) (qstreams c))) (c\<lparr>qstreams := []\<rparr>)"

section \<open>Frames of a packet\<close>

text \<open>
  The stream frames of the loop over a 1-RTT payload. \<open>quic_conn_retry_send\<close> is \<open>quic_stream_flush_pending\<close>; an ACK also goes to the
  loss recovery (\<open>Quic_Recovery\<close>, \<open>Quic_Loss\<close>); the other frames do not reach the streams.
\<close>

definition handle_frame :: "nat \<Rightarrow> quic_frame \<Rightarrow> quic_ctx \<Rightarrow> quic_ctx" where
  "handle_frame now f c = (case f of
     AckFrame a \<Rightarrow> quic_stream_flush_pending now c
   | StreamFrame sid off fin d \<Rightarrow> fst (quic_stream_on_recv (unat sid) (unat off) fin d c)
   | MaxData m \<Rightarrow> quic_stream_flush_pending now (quic_stream_on_max_data (unat m) c)
   | MaxStreamData sid m \<Rightarrow> quic_stream_flush_pending now (quic_stream_on_max_stream_data (unat sid) (unat m) c)
   | ResetStream sid code fs \<Rightarrow> quic_stream_on_reset (unat sid) (unat fs) (unat code) c
   | StopSending sid code \<Rightarrow> quic_stream_on_stop_sending (unat sid) c
   | MaxStreams m bidi \<Rightarrow> quic_stream_on_max_streams (unat m) bidi c
   | StreamsBlocked m bidi \<Rightarrow> quic_stream_on_streams_blocked bidi c
   | _ \<Rightarrow> c)"

definition handle_payload :: "nat \<Rightarrow> octets \<Rightarrow> quic_ctx \<Rightarrow> quic_ctx" where
  "handle_payload now p c = foldl (\<lambda>c f. handle_frame now f c) c (frames_of p)"

end
