(* ===== verification/Quic_Receive.thy ===== *)
theory Quic_Receive
  imports Quic_Stream
begin

text \<open>
  What the application sees of the streams of a peer. \<open>delivered\<close> is the data the callbacks of one stream carried. Whatever
  order, repetition and overlap the STREAM frames arrive in, it is the peer's stream up to
  \<open>recv_offset\<close>; and as long as no more than eight separate ranges are waiting, that is everything up to the first
  octet still missing. Two ways the code falls short of that are shown at the end.
\<close>

section \<open>Frame facts\<close>

definition delivered :: "nat \<Rightarrow> app_event list \<Rightarrow> octets" where
  "delivered sid es = concat (map (\<lambda>e. case e of StreamData i d fin \<Rightarrow> if i = sid then d else [] | _ \<Rightarrow> []) es)"

lemma delivered_simps [simp]:
  "delivered sid [] = []" "delivered sid (es @ fs) = delivered sid es @ delivered sid fs"
  "delivered sid (StreamData i d fin # es) = (if i = sid then d else []) @ delivered sid es"
  "delivered sid (StreamReset i n # es) = delivered sid es"
  "delivered sid (Written i n m r # es) = delivered sid es" "delivered sid (Writable i # es) = delivered sid es"
  by (simp_all add: delivered_def)

text \<open>Two contexts with the same streams and events: they differ in packets and credit only.\<close>

definition same_app :: "quic_ctx \<Rightarrow> quic_ctx \<Rightarrow> bool" where
  "same_app c c' \<longleftrightarrow> qstreams c' = qstreams c \<and> app_events c' = app_events c \<and> fresh_memory c' = fresh_memory c
     \<and> bytes_recvd c' = bytes_recvd c \<and> max_data_local c' = max_data_local c"

lemma same_app_refl [simp]: "same_app c c" by (simp add: same_app_def)

lemma same_app_trans [trans]: "same_app a b \<Longrightarrow> same_app b c \<Longrightarrow> same_app a c" by (simp add: same_app_def)

lemma same_app_ask: "ask c = (b, c') \<Longrightarrow> same_app c c'"
  by (auto simp: ask_def same_app_def split: list.splits)

lemma same_app_flush_packet: "same_app c (flush_packet c)"
  by (auto simp: flush_packet_def ask_def same_app_def split: list.splits)

lemma same_app_queue_frames: "same_app c (fst (queue_frames c f))"
proof -
  have "same_app c1 (flush_packet c1)" for c1 by (rule same_app_flush_packet)
  then show ?thesis
    by (auto simp: queue_frames_def Let_def ask_def same_app_def split: list.splits)
qed

lemma same_app_queue: "same_app c (queue c f)"
  by (auto simp: queue_def same_app_queue_frames split: option.splits)

lemma same_app_fields:
  assumes "same_app c c'"
  shows "qstreams c' = qstreams c" "app_events c' = app_events c" "fresh_memory c' = fresh_memory c"
    "bytes_recvd c' = bytes_recvd c" "max_data_local c' = max_data_local c"
  using assms by (simp_all add: same_app_def)

lemmas queue_app [simp] = same_app_fields [OF same_app_queue] same_app_fields [OF same_app_flush_packet]

lemma note_peer_app [simp]:
  "qstreams (quic_stream_note_peer_stream sid c) = qstreams c"
  "app_events (quic_stream_note_peer_stream sid c) = app_events c"
  "fresh_memory (quic_stream_note_peer_stream sid c) = fresh_memory c"
  "bytes_recvd (quic_stream_note_peer_stream sid c) = bytes_recvd c"
  "max_data_local (quic_stream_note_peer_stream sid c) = max_data_local c"
  by (simp_all add: quic_stream_note_peer_stream_def quic_stream_grant_credit_def Let_def)

lemma tell_simps [simp]: "qstreams (tell es c) = qstreams c" "app_events (tell es c) = app_events c @ es"
  "bytes_recvd (tell es c) = bytes_recvd c" "fresh_memory (tell es c) = fresh_memory c"
  "max_data_local (tell es c) = max_data_local c"
  by (simp_all add: tell_def)

section \<open>Gap lists\<close>

fun gaps_ok :: "nat \<Rightarrow> (nat \<times> nat) list \<Rightarrow> bool" where
  "gaps_ok lo [] \<longleftrightarrow> True"
| "gaps_ok lo (g # gs) \<longleftrightarrow> lo < fst g \<and> gaps_ok (fst g + snd g) gs"

text \<open>The octets the ranges of a gap list cover.\<close>

definition covers :: "(nat \<times> nat) list \<Rightarrow> nat set" where
  "covers gs = (\<Union>g\<in>set gs. {fst g..<fst g + snd g})"

lemma covers_simps [simp]: "covers [] = {}" "covers (g # gs) = {fst g..<fst g + snd g} \<union> covers gs"
  "covers (gs @ hs) = covers gs \<union> covers hs"
  by (auto simp: covers_def)

lemma gaps_ok_mono: "gaps_ok lo gs \<Longrightarrow> lo' \<le> lo \<Longrightarrow> gaps_ok lo' gs"
  by (cases gs) auto

lemma gaps_ok_above: "gaps_ok lo gs \<Longrightarrow> i \<in> covers gs \<Longrightarrow> lo < i"
  by (induction lo gs rule: gaps_ok.induct) fastforce+

lemma merge_gaps_ok_id: "gaps_ok lo gs \<Longrightarrow> merge_gaps gs = gs"
  by (induction gs arbitrary: lo rule: merge_gaps.induct) auto

text \<open>A list sorted by offset, as the insertion leaves it.\<close>

lemma merge_gaps_sorted:
  assumes "sorted (map fst gs)" "\<forall>g\<in>set gs. lo < fst g"
  shows "gaps_ok lo (merge_gaps gs) \<and> covers (merge_gaps gs) = covers gs"
  using assms
proof (induction gs arbitrary: lo rule: merge_gaps.induct)
  case (1 a b gs)
  show ?case
  proof (cases "fst a + snd a \<ge> fst b")
    case True
    let ?m = "(fst a, if fst b + snd b > fst a + snd a then fst b + snd b - fst a else snd a)"
    have "sorted (map fst (?m # gs))" "\<forall>g\<in>set (?m # gs). lo < fst g" using "1.prems" by auto
    from "1.IH"(1) [OF True this] have IH: "gaps_ok lo (merge_gaps (?m # gs))"
      "covers (merge_gaps (?m # gs)) = covers (?m # gs)" by auto
    have "covers (?m # gs) = covers (a # b # gs)"
      using True "1.prems" by (auto split: if_splits)
    with IH True show ?thesis by simp
  next
    case False
    then have "\<forall>g\<in>set (b # gs). fst a + snd a < fst g" using "1.prems" by auto
    from "1.IH"(2) [OF False _ this] "1.prems" False show ?thesis by auto
  qed
qed auto

lemma gaps_ok_sorted: "gaps_ok lo gs \<Longrightarrow> sorted (map fst gs) \<and> (\<forall>g\<in>set gs. lo < fst g)"
proof (induction gs arbitrary: lo)
  case (Cons g gs)
  then have "sorted (map fst gs) \<and> (\<forall>h\<in>set gs. fst g + snd g < fst h)" by auto
  with Cons.prems show ?case by fastforce
qed simp

lemma gap_insert_ok:
  assumes "gaps_ok lo gs" "lo < off"
  shows "gaps_ok lo (gap_insert off len gs)"
    and "covers (gap_insert off len gs) = (if length gs < QUIC_STREAM_MAX_GAPS then {off..<off + len} else {}) \<union> covers gs"
proof -
  let ?l = "takeWhile (\<lambda>g. \<not> off < fst g) gs" and ?r = "dropWhile (\<lambda>g. \<not> off < fst g) gs"
  note s = gaps_ok_sorted [OF assms(1)]
  have lr: "sorted (map fst ?l)" "sorted (map fst ?r)"
    using s by (metis map_append sorted_append takeWhile_dropWhile_id)+
  have l: "\<forall>g\<in>set ?l. fst g \<le> off" by (auto dest: set_takeWhileD)
  have r: "\<forall>g\<in>set ?r. off \<le> fst g"
  proof (cases ?r)
    case (Cons h t)
    then have "off < fst h" by (metis dropWhile_eq_Cons_conv)
    with Cons lr(2) show ?thesis by auto
  qed (metis empty_iff empty_set)
  have srt: "sorted (map fst (?l @ (off, len) # ?r))" using lr l r by (fastforce simp: sorted_append)
  have low: "\<forall>g\<in>set (?l @ (off, len) # ?r). lo < fst g"
    using s assms(2) by (auto dest: set_takeWhileD set_dropWhileD)
  have "covers ?l \<union> covers ?r = covers gs" by (simp only: covers_simps(3) [symmetric] takeWhile_dropWhile_id)
  then have cov: "covers (?l @ (off, len) # ?r) = {off..<off + len} \<union> covers gs" by auto
  show "gaps_ok lo (gap_insert off len gs)"
    using merge_gaps_sorted [OF srt low] merge_gaps_ok_id [OF assms(1)] assms(1) by (simp add: gap_insert_def)
  show "covers (gap_insert off len gs) = (if length gs < QUIC_STREAM_MAX_GAPS then {off..<off + len} else {}) \<union> covers gs"
    using merge_gaps_sorted [OF srt low] merge_gaps_ok_id [OF assms(1)] cov by (simp add: gap_insert_def)
qed

section \<open>What is delivered\<close>

text \<open>
  \<open>seen str es s\<close>: with \<open>str\<close> the octets of the peer's stream, what the events \<open>es\<close> delivered of stream \<open>s\<close> is
  \<open>str\<close> up to \<open>recv_offset\<close>, and what waits in the buffer is \<open>str\<close> too.
\<close>

definition seen :: "(nat \<Rightarrow> byte) \<Rightarrow> app_event list \<Rightarrow> quic_stream \<Rightarrow> bool" where
  "seen str es s \<longleftrightarrow> gaps_ok (recv_offset s) (gaps s)
     \<and> (\<forall>i\<in>covers (gaps s). \<exists>m. recv_buf s = Some m \<and> m i = str i)
     \<and> delivered (qs_id s) es = map str [0..<recv_offset s]"

lemma map_upt_append: "a \<le> b \<Longrightarrow> map f [0..<a] @ map f [a..<b] = map f [0..<b]"
  by (metis map_append le0 upt_add_eq_append le_add_diff_inverse)

definition waits :: "(nat \<Rightarrow> byte) \<Rightarrow> (nat \<times> nat) list \<Rightarrow> quic_stream \<Rightarrow> bool" where
  "waits str gs s \<longleftrightarrow> (\<forall>i\<in>covers gs. \<exists>m. recv_buf s = Some m \<and> m i = str i)"

lemma drain_spec:
  assumes "drain gs c s = (c', s')" "gaps_ok lo gs" "waits str gs s"
    and "delivered (qs_id s) (app_events c) = map str [0..<recv_offset s]"
  shows "seen str (app_events c') s' \<and> qs_id s' = qs_id s \<and> qstreams c' = qstreams c
    \<and> {..<recv_offset s'} \<union> covers (gaps s') = {..<recv_offset s} \<union> covers gs
    \<and> length (gaps s') \<le> length gs \<and> recv_offset s \<le> recv_offset s'
    \<and> (\<forall>j. j \<noteq> qs_id s \<longrightarrow> delivered j (app_events c') = delivered j (app_events c))
    \<and> recv_max_data s' = recv_max_data s \<and> fresh_memory c' = fresh_memory c"
  using assms
proof (induction gs c s arbitrary: lo rule: drain.induct)
  case (1 c s)
  then show ?case by (auto simp: seen_def)
next
  case (2 g gs c s)
  let ?e = "fst g + snd g"
  have sub: "gaps_ok ?e gs" "waits str gs s" using "2.prems" by (auto simp: waits_def)
  consider "recv_offset s < fst g" | "fst g \<le> recv_offset s" "?e \<le> recv_offset s"
    | "fst g \<le> recv_offset s" "recv_offset s < ?e" by linarith
  then show ?case
  proof cases
    case 1
    then show ?thesis using "2.prems" by (auto simp: seen_def waits_def)
  next
    case 2
    then have "drain gs c s = (c', s')" using "2.prems"(1) by (simp add: Let_def)
    from "2.IH"(2) [OF 2(1) refl refl _ this sub "2.prems"(4)] 2
    have "{..<recv_offset s'} \<union> covers (gaps s') = {..<recv_offset s} \<union> covers gs"
      and r: "seen str (app_events c') s' \<and> qs_id s' = qs_id s \<and> qstreams c' = qstreams c
        \<and> length (gaps s') \<le> length gs \<and> recv_offset s \<le> recv_offset s'
        \<and> (\<forall>j. j \<noteq> qs_id s \<longrightarrow> delivered j (app_events c') = delivered j (app_events c))
        \<and> recv_max_data s' = recv_max_data s \<and> fresh_memory c' = fresh_memory c"
      by simp_all
    moreover have "{..<recv_offset s} \<union> covers (g # gs) = {..<recv_offset s} \<union> covers gs" using 2 by auto
    ultimately show ?thesis by simp
  next
    case 3
    let ?n = "?e - recv_offset s"
    have "recv_offset s \<in> covers (g # gs)" using 3 by simp
    then obtain m where m: "recv_buf s = Some m" using "2.prems"(3) by (auto simp: waits_def)
    have str: "read_mem m (recv_offset s) ?n = map str [recv_offset s..<?e]"
      using 3 "2.prems"(3) m by (auto simp: read_mem_def waits_def)
    define c1 where "c1 = tell [StreamData (qs_id s) (read_mem m (recv_offset s) ?n) False] (c\<lparr>bytes_recvd := bytes_recvd c + ?n\<rparr>)"
    define s1 where "s1 = s\<lparr>recv_offset := ?e\<rparr>"
    have d: "drain gs c1 s1 = (c', s')" using "2.prems"(1) 3 m by (simp add: Let_def c1_def s1_def)
    have del: "delivered (qs_id s1) (app_events c1) = map str [0..<recv_offset s1]"
      using "2.prems"(4) 3 by (simp add: c1_def s1_def str map_upt_append)
    have w: "waits str gs s1" using sub(2) by (simp add: s1_def waits_def)
    have "drain gs (tell (case recv_buf s of None \<Rightarrow> [] | Some m \<Rightarrow> [StreamData (qs_id s) (read_mem m (recv_offset s) ?n) False])
        (c\<lparr>bytes_recvd := bytes_recvd c + ?n\<rparr>)) (s\<lparr>recv_offset := ?e\<rparr>) = (c', s')"
      using d m by (simp add: c1_def s1_def)
    from "2.IH"(1) [OF 3(1) refl refl 3(2) this sub(1)] w del m
    have r: "seen str (app_events c') s' \<and> qs_id s' = qs_id s \<and> qstreams c' = qstreams c
        \<and> {..<recv_offset s'} \<union> covers (gaps s') = {..<?e} \<union> covers gs
        \<and> length (gaps s') \<le> length gs \<and> ?e \<le> recv_offset s'
        \<and> (\<forall>j. j \<noteq> qs_id s \<longrightarrow> delivered j (app_events c') = delivered j (app_events c))
        \<and> recv_max_data s' = recv_max_data s \<and> fresh_memory c' = fresh_memory c"
      by (simp add: c1_def s1_def waits_def)
    moreover have "{..<recv_offset s} \<union> covers (g # gs) = {..<?e} \<union> covers gs" using 3 by auto
    ultimately show ?thesis using 3 by simp
  qed
qed

section \<open>One frame\<close>

lemma find_put_s:
  "stream_find (put_s s c) sid = (if sid = qs_id s \<and> stream_find c sid \<noteq> None then Some s
     else if sid = qs_id s then None else stream_find c sid)"
proof -
  have "find (\<lambda>t. qs_id t = sid) (map (\<lambda>t. if qs_id t = qs_id s then s else t) ss)
      = (if sid = qs_id s \<and> find (\<lambda>t. qs_id t = sid) ss \<noteq> None then Some s
         else if sid = qs_id s then None else find (\<lambda>t. qs_id t = sid) ss)" for ss
    by (induction ss) auto
  then show ?thesis by (simp add: stream_find_def put_s_def)
qed

lemma stream_find_app: "qstreams c' = qstreams c \<Longrightarrow> stream_find c' = stream_find c"
  by (simp add: fun_eq_iff stream_find_def)

lemma stream_find_id: "stream_find c sid = Some s \<Longrightarrow> qs_id s = sid"
  by (auto simp: stream_find_def find_Some_iff)

lemma find_append: "find P (xs @ ys) = (case find P xs of None \<Rightarrow> find P ys | Some x \<Rightarrow> Some x)"
  by (induction xs) auto

lemma find_or_create_spec:
  assumes "stream_find_or_create c sid = (c1, s)"
  shows "stream_find c1 sid = Some s" "qs_id s = sid" "j \<noteq> sid \<Longrightarrow> stream_find c1 j = stream_find c j"
    "app_events c1 = app_events c" "fresh_memory c1 = fresh_memory c" "bytes_recvd c1 = bytes_recvd c"
    "s = (case stream_find c sid of Some s \<Rightarrow> s | None \<Rightarrow> new_stream c sid)"
    "max_data_local c1 = max_data_local c"
  using assms
  by (auto simp: stream_find_or_create_def Let_def stream_find_def new_stream_def find_append
      dest: stream_find_id [unfolded stream_find_def] split: option.splits)

lemma put_s_app [simp]: "app_events (put_s s c) = app_events c" "bytes_recvd (put_s s c) = bytes_recvd c"
  "max_data_local (put_s s c) = max_data_local c" "fresh_memory (put_s s c) = fresh_memory c"
  by (simp_all add: put_s_def)

lemma fc_update_app:
  assumes "stream_fc_update c s = (c', s')"
  shows "qstreams c' = qstreams c" "app_events c' = app_events c" "qs_id s' = qs_id s"
    "recv_offset s' = recv_offset s" "gaps s' = gaps s" "recv_buf s' = recv_buf s"
    "fin_recvd s' = fin_recvd s" "final_size s' = final_size s" "bytes_recvd c' = bytes_recvd c" "fresh_memory c' = fresh_memory c"
  using assms by (auto simp: stream_fc_update_def Let_def split: if_splits)

lemma end_of_stream_app:
  assumes "end_of_stream c s = (c', s')"
  shows "qstreams c' = qstreams c" "delivered j (app_events c') = delivered j (app_events c)" "qs_id s' = qs_id s"
    "recv_offset s' = recv_offset s" "gaps s' = gaps s" "recv_buf s' = recv_buf s"
    "fresh_memory c' = fresh_memory c" "bytes_recvd c' = bytes_recvd c"
  using assms by (auto simp: end_of_stream_def split: if_splits)

lemma seen_cong:
  assumes "qs_id s' = qs_id s" "recv_offset s' = recv_offset s" "gaps s' = gaps s" "recv_buf s' = recv_buf s"
    and "delivered (qs_id s) es' = delivered (qs_id s) es"
  shows "seen str es' s' = seen str es s"
  using assms by (simp add: seen_def)

lemma store_ahead_spec:
  assumes "store_ahead off d c s = (c', s')" "seen str (app_events c) s" "recv_offset s < off"
    and "d = map str [off..<off + length d]"
  shows "seen str (app_events c') s'" "qs_id s' = qs_id s" "recv_offset s' = recv_offset s"
    "covers (gaps s') = (if length (gaps s) < QUIC_STREAM_MAX_GAPS then {off..<off + length d} else {}) \<union> covers (gaps s)"
    "qstreams c' = qstreams c" "app_events c' = app_events c" "fresh_memory c' = fresh_memory c"
proof -
  let ?m = "write_mem (case recv_buf s of None \<Rightarrow> fresh_memory c | Some m \<Rightarrow> m) off d"
  have s': "s' = s\<lparr>recv_buf := Some ?m, gaps := gap_insert off (length d) (gaps s)\<rparr>"
    and c': "c' = c\<lparr>bytes_recvd := bytes_recvd c + length d\<rparr>"
    using assms(1) by (auto simp: store_ahead_def Let_def)
  have ok: "gaps_ok (recv_offset s) (gaps s)" using assms(2) by (simp add: seen_def)
  note g = gap_insert_ok [OF ok assms(3), of "length d"]
  have at: "?m i = str i" if "off \<le> i" "i < off + length d" for i
  proof -
    have "d ! (i - off) = map str [off..<off + length d] ! (i - off)" using assms(4) by simp
    also have "\<dots> = str i" using that by simp
    finally show ?thesis using that by (simp add: write_mem_def)
  qed
  have old: "?m i = str i" if i: "i \<in> covers (gaps s)" for i
  proof (cases "off \<le> i \<and> i < off + length d")
    case False
    obtain m where "recv_buf s = Some m" "m i = str i" using assms(2) i by (auto simp: seen_def)
    with False show ?thesis by (auto simp: write_mem_def)
  qed (use at in blast)
  show "seen str (app_events c') s'"
    using assms(2) g at old by (auto simp: seen_def s' c' split: if_splits)
  show "qs_id s' = qs_id s" "recv_offset s' = recv_offset s" "qstreams c' = qstreams c" "app_events c' = app_events c"
    "covers (gaps s') = (if length (gaps s) < QUIC_STREAM_MAX_GAPS then {off..<off + length d} else {}) \<union> covers (gaps s)"
    "fresh_memory c' = fresh_memory c"
    using g by (simp_all add: s' c')
qed

lemma take_in_order_spec:
  assumes "take_in_order off d c s = (c', s')" "seen str (app_events c) s" "off \<le> recv_offset s"
    and "d = map str [off..<off + length d]"
  shows "seen str (app_events c') s' \<and> qs_id s' = qs_id s \<and> qstreams c' = qstreams c
    \<and> {..<recv_offset s'} \<union> covers (gaps s') = {..<recv_offset s} \<union> covers (gaps s) \<union> {off..<off + length d}
    \<and> (\<forall>j. j \<noteq> qs_id s \<longrightarrow> delivered j (app_events c') = delivered j (app_events c))
    \<and> fresh_memory c' = fresh_memory c"
proof (cases "off + length d > recv_offset s")
  case False
  then have "{off..<off + length d} \<subseteq> {..<recv_offset s}" by auto
  with False assms show ?thesis by (auto simp: take_in_order_def)
next
  case True
  let ?skip = "recv_offset s - off" and ?n = "off + length d - recv_offset s"
  define c1 where "c1 = tell [StreamData (qs_id s) (drop ?skip d) False] (c\<lparr>bytes_recvd := bytes_recvd c + ?n\<rparr>)"
  define s1 where "s1 = s\<lparr>recv_offset := off + length d\<rparr>"
  have dr: "drain (gaps s1) c1 s1 = (c', s')"
    using assms(1) True by (simp add: take_in_order_def gap_drain_def Let_def c1_def s1_def)
  have "drop ?skip d = drop ?skip (map str [off..<off + length d])" using assms(4) by simp
  also have "\<dots> = map str [recv_offset s..<off + length d]" using assms(3) by (simp add: drop_map)
  finally have "delivered (qs_id s1) (app_events c1) = map str [0..<recv_offset s1]"
    using assms(2) True by (simp add: c1_def s1_def seen_def map_upt_append)
  moreover have "gaps_ok (recv_offset s) (gaps s1)" "waits str (gaps s1) s1"
    using assms(2) by (simp_all add: seen_def waits_def s1_def)
  ultimately have r: "seen str (app_events c') s' \<and> qs_id s' = qs_id s1 \<and> qstreams c' = qstreams c1
    \<and> {..<recv_offset s'} \<union> covers (gaps s') = {..<recv_offset s1} \<union> covers (gaps s1)
    \<and> (\<forall>j. j \<noteq> qs_id s1 \<longrightarrow> delivered j (app_events c') = delivered j (app_events c1))
    \<and> fresh_memory c' = fresh_memory c1"
    using drain_spec [OF dr] by blast
  have "{..<off + length d} = {..<recv_offset s} \<union> {off..<off + length d}" using True assms(3) by auto
  with r show ?thesis by (auto simp: c1_def s1_def)
qed

section \<open>Any number of frames\<close>

text \<open>An arrival is a STREAM frame: stream, offset, FIN, data.\<close>

type_synonym arrival = "nat \<times> nat \<times> bool \<times> octets"

fun receive_all :: "arrival list \<Rightarrow> quic_ctx \<Rightarrow> quic_ctx" where
  "receive_all [] c = c"
| "receive_all ((sid, off, fin, d) # fs) c = receive_all fs (fst (quic_stream_on_recv sid off fin d c))"

text \<open>The frame carries the octets of the peer's stream at its offset.\<close>

fun genuine :: "(nat \<Rightarrow> nat \<Rightarrow> byte) \<Rightarrow> arrival \<Rightarrow> bool" where
  "genuine str (sid, off, fin, d) \<longleftrightarrow> d = map (str sid) [off..<off + length d]"

definition view :: "quic_ctx \<Rightarrow> nat \<Rightarrow> quic_stream" where
  "view c sid = (case stream_find c sid of None \<Rightarrow> new_stream c sid | Some s \<Rightarrow> s)"

definition all_seen :: "(nat \<Rightarrow> nat \<Rightarrow> byte) \<Rightarrow> quic_ctx \<Rightarrow> bool" where
  "all_seen str c \<longleftrightarrow> (\<forall>sid. seen (str sid) (app_events c) (view c sid))"

definition covered :: "quic_ctx \<Rightarrow> nat \<Rightarrow> nat set" where
  "covered c sid = {..<recv_offset (view c sid)} \<union> covers (gaps (view c sid))"

text \<open>Whether the frame is kept: within the credit, and not ahead of a full gap table.\<close>

fun kept_frame :: "quic_ctx \<Rightarrow> arrival \<Rightarrow> bool" where
  "kept_frame c (sid, off, fin, d) \<longleftrightarrow> off + length d \<le> recv_max_data (view c sid)
     \<and> (off \<le> recv_offset (view c sid) \<or> length (gaps (view c sid)) < QUIC_STREAM_MAX_GAPS)"

lemma view_id [simp]: "qs_id (view c sid) = sid"
  by (auto simp: view_def new_stream_def dest: stream_find_id split: option.splits)

lemma seen_view:
  assumes "stream_find c j = stream_find c' j" "delivered j (app_events c) = delivered j (app_events c')"
  shows "seen str (app_events c) (view c j) = seen str (app_events c') (view c' j)"
    and "covered c j = covered c' j"
  using assms by (auto simp: seen_def view_def covered_def new_stream_def dest: stream_find_id split: option.splits)

lemma seen_fin [simp]:
  "seen str es (s\<lparr>fin_recvd := f, final_size := n\<rparr>) = seen str es s" by (simp add: seen_def)

text \<open>What a stream takes in is told to its own callbacks only.\<close>

lemma drain_other:
  "drain gs c s = (c', s') \<Longrightarrow> qs_id s' = qs_id s \<and> qstreams c' = qstreams c
     \<and> (\<forall>j. j \<noteq> qs_id s \<longrightarrow> delivered j (app_events c') = delivered j (app_events c))"
proof (induction gs c s rule: drain.induct)
  case (2 g gs c s)
  show ?case
  proof (cases "fst g \<le> recv_offset s \<and> fst g + snd g > recv_offset s")
    case True
    let ?c = "tell (case recv_buf s of None \<Rightarrow> [] | Some m \<Rightarrow> [StreamData (qs_id s) (read_mem m (recv_offset s) (fst g + snd g - recv_offset s)) False])
               (c\<lparr>bytes_recvd := bytes_recvd c + (fst g + snd g - recv_offset s)\<rparr>)"
    have "drain gs ?c (s\<lparr>recv_offset := fst g + snd g\<rparr>) = (c', s')" using 2(3) True by (simp add: Let_def)
    then have "qs_id s' = qs_id s \<and> qstreams c' = qstreams ?c
        \<and> (\<forall>j. j \<noteq> qs_id s \<longrightarrow> delivered j (app_events c') = delivered j (app_events ?c))"
      using 2(1) True by simp
    then show ?thesis by (auto split: option.splits)
  next
    case False
    then show ?thesis using 2(2) 2(3) by (auto simp: Let_def split: if_splits)
  qed
qed auto

lemma take_in_order_other:
  assumes "take_in_order off d c s = (c', s')"
  shows "qs_id s' = qs_id s" "qstreams c' = qstreams c" "j \<noteq> qs_id s \<Longrightarrow> delivered j (app_events c') = delivered j (app_events c)"
  using assms drain_other by (fastforce simp: take_in_order_def gap_drain_def Let_def split: if_splits)+

text \<open>The two ways a call to \<open>quic_stream_on_recv\<close> ends: the frame is refused, or a stream is put back.\<close>

lemma recv_cases:
  fixes c sid off fin d
  defines "c' \<equiv> fst (quic_stream_on_recv sid off fin d c)" and "s \<equiv> view c sid"
  obtains (refused) "off + length d > recv_max_data s" "stream_find c' sid = Some s" "app_events c' = app_events c"
      "\<forall>j. j \<noteq> sid \<longrightarrow> stream_find c' j = stream_find c j"
  | (put) c2 s1 c3 s3 c4 s4 c5 s5 where "off + length d \<le> recv_max_data s"
      "app_events c2 = app_events c" "s1 = (if fin then s\<lparr>fin_recvd := True, final_size := off + length d\<rparr> else s)"
      "(if off > recv_offset s1 then store_ahead off d c2 s1 else take_in_order off d c2 s1) = (c3, s3)"
      "stream_fc_update c3 s3 = (c4, s4)" "(if off > recv_offset s1 then (c4, s4) else end_of_stream c4 s4) = (c5, s5)"
      "stream_find c' sid = Some s5" "app_events c' = app_events c5" "\<forall>j. j \<noteq> sid \<longrightarrow> stream_find c' j = stream_find c j"
proof -
  obtain c1 t where fc: "stream_find_or_create c sid = (c1, t)" by fastforce
  note f = find_or_create_spec [OF fc]
  have s: "t = s" using f(7) by (simp add: s_def view_def)
  define c2 where "c2 = (if stream_find c sid = None then quic_stream_note_peer_stream sid c1 else c1)"
  have c2: "qstreams c2 = qstreams c1" "app_events c2 = app_events c" by (simp_all add: c2_def f)
  define s1 where "s1 = (if fin then s\<lparr>fin_recvd := True, final_size := off + length d\<rparr> else s)"
  have s1: "qs_id s1 = sid" using f(2) by (simp add: s1_def s)
  obtain c3 s3 where st: "(if off > recv_offset s1 then store_ahead off d c2 s1 else take_in_order off d c2 s1) = (c3, s3)" by fastforce
  obtain c4 s4 where up: "stream_fc_update c3 s3 = (c4, s4)" by fastforce
  obtain c5 s5 where en: "(if off > recv_offset s1 then (c4, s4) else end_of_stream c4 s4) = (c5, s5)" by fastforce
  show thesis
  proof (cases "off + length d > recv_max_data s")
    case True
    then have "c' = c2" using fc by (simp add: c'_def quic_stream_on_recv_def Let_def c2_def s)
    then have "stream_find c' k = stream_find c1 k" for k using stream_find_app [OF c2(1)] by simp
    then show thesis using refused True f(1,3) c2(2) s \<open>c' = c2\<close> by simp
  next
    case False
    have c': "c' = flush_packet (put_s s5 c5)"
      using fc False st up en by (auto simp: c'_def quic_stream_on_recv_def Let_def c2_def s1_def s split: if_splits)
    have "qstreams c3 = qstreams c2 \<and> qs_id s3 = sid"
    proof (cases "off > recv_offset s1")
      case True
      then show ?thesis using st s1 by (auto simp: store_ahead_def Let_def)
    next
      case False
      then have "take_in_order off d c2 s1 = (c3, s3)" using st by simp
      from take_in_order_other(1,2) [OF this] show ?thesis using s1 by simp
    qed
    moreover have "qstreams c5 = qstreams c4 \<and> qs_id s5 = qs_id s4" using en end_of_stream_app(1,3) [of c4 s4 c5 s5] by (auto split: if_splits)
    ultimately have q: "qstreams c5 = qstreams c1" "qs_id s5 = sid" using fc_update_app [OF up] c2 by simp_all
    have "stream_find c' k = stream_find (put_s s5 c5) k" for k using stream_find_app [of c' "put_s s5 c5"] by (simp add: c')
    then have "stream_find c' k = (if k = sid then Some s5 else stream_find c k)" for k
      using f(1) f(3) [of k] stream_find_app [OF q(1)] q(2) by (auto simp: find_put_s)
    then show thesis using put [OF _ c2(2) s1_def st up en] False by (simp add: c')
  qed
qed

text \<open>A frame of another stream.\<close>

lemma recv_other:
  assumes "j \<noteq> sid"
  shows "stream_find (fst (quic_stream_on_recv sid off fin d c)) j = stream_find c j"
    "delivered j (app_events (fst (quic_stream_on_recv sid off fin d c))) = delivered j (app_events c)"
proof -
  let ?c = "fst (quic_stream_on_recv sid off fin d c)"
  have "stream_find ?c j = stream_find c j \<and> delivered j (app_events ?c) = delivered j (app_events c)"
  proof (rule recv_cases [where off = off and d = d and c = c and sid = sid and fin = fin])
    fix c2 s1 c3 s3 c4 s4 c5 s5
    assume e: "app_events c2 = app_events c"
      and s1: "s1 = (if fin then view c sid\<lparr>fin_recvd := True, final_size := off + length d\<rparr> else view c sid)"
      and st: "(if off > recv_offset s1 then store_ahead off d c2 s1 else take_in_order off d c2 s1) = (c3, s3)"
      and up: "stream_fc_update c3 s3 = (c4, s4)" and en: "(if off > recv_offset s1 then (c4, s4) else end_of_stream c4 s4) = (c5, s5)"
      and r: "app_events ?c = app_events c5" "\<forall>j. j \<noteq> sid \<longrightarrow> stream_find ?c j = stream_find c j"
    have "qs_id s1 = sid" by (simp add: s1)
    then have "delivered j (app_events c3) = delivered j (app_events c2)"
      using st assms take_in_order_other(3) [of off d c2 s1 c3 s3 j] by (auto simp: store_ahead_def Let_def split: if_splits)
    moreover have "delivered j (app_events c5) = delivered j (app_events c4)"
      using en end_of_stream_app(2) [of c4 s4 c5 s5] by (auto split: if_splits)
    ultimately show ?thesis using assms r e fc_update_app(2) [OF up] by simp
  qed (use assms in simp)
  then show "stream_find ?c j = stream_find c j" "delivered j (app_events ?c) = delivered j (app_events c)" by blast+
qed

text \<open>A frame of the stream itself.\<close>

lemma recv_own:
  assumes "seen (str sid) (app_events c) (view c sid)" "genuine str (sid, off, fin, d)"
  defines "c' \<equiv> fst (quic_stream_on_recv sid off fin d c)"
  shows "seen (str sid) (app_events c') (view c' sid)
    \<and> covered c' sid = covered c sid \<union> (if kept_frame c (sid, off, fin, d) then {off..<off + length d} else {})"
proof (rule recv_cases [where off = off and d = d and c = c and sid = sid and fin = fin], unfold c'_def [symmetric])
  assume r: "off + length d > recv_max_data (view c sid)" "stream_find c' sid = Some (view c sid)" "app_events c' = app_events c"
  then have "view c' sid = view c sid" by (simp add: view_def)
  then show ?thesis using r(1,3) assms(1) by (simp add: covered_def)
next
  fix c2 s1 c3 s3 c4 s4 c5 s5
  assume cr: "off + length d \<le> recv_max_data (view c sid)" and e: "app_events c2 = app_events c"
    and s1_def: "s1 = (if fin then view c sid\<lparr>fin_recvd := True, final_size := off + length d\<rparr> else view c sid)"
    and st: "(if off > recv_offset s1 then store_ahead off d c2 s1 else take_in_order off d c2 s1) = (c3, s3)"
    and up: "stream_fc_update c3 s3 = (c4, s4)" and en: "(if off > recv_offset s1 then (c4, s4) else end_of_stream c4 s4) = (c5, s5)"
    and r: "stream_find c' sid = Some s5" "app_events c' = app_events c5"
  have s1: "recv_offset s1 = recv_offset (view c sid)" "gaps s1 = gaps (view c sid)" "seen (str sid) (app_events c2) s1"
    using assms(1) by (simp_all add: s1_def e)
  have gen: "d = map (str sid) [off..<off + length d]" using assms(2) by simp
  have at: "view c' sid = s5" using r(1) by (simp add: view_def)
  note w = fc_update_app [OF up]
  have en': "recv_offset s5 = recv_offset s4" "gaps s5 = gaps s4" "recv_buf s5 = recv_buf s4" "qs_id s5 = qs_id s4"
    "delivered (qs_id s4) (app_events c5) = delivered (qs_id s4) (app_events c4)"
    using en end_of_stream_app [of c4 s4 c5 s5] by (auto split: if_splits)
  have "seen (str sid) (app_events c4) s4 = seen (str sid) (app_events c3) s3" by (rule seen_cong) (simp_all add: w)
  moreover have "seen (str sid) (app_events c5) s5 = seen (str sid) (app_events c4) s4"
    by (rule seen_cong [OF en'(4,1,2,3,5)])
  ultimately have seen: "seen (str sid) (app_events c') (view c' sid) = seen (str sid) (app_events c3) s3" by (simp add: at r(2))
  have cov: "covered c' sid = {..<recv_offset s3} \<union> covers (gaps s3)" by (simp add: covered_def at en' w)
  have cov0: "covered c sid = {..<recv_offset s1} \<union> covers (gaps s1)" by (simp add: covered_def s1)
  show ?thesis
  proof (cases "off > recv_offset s1")
    case True
    note a = store_ahead_spec [OF _ s1(3) True gen, of c3 s3]
    show ?thesis using a st True cr s1(1,2) unfolding seen cov cov0 by auto
  next
    case False
    then have "take_in_order off d c2 s1 = (c3, s3)" "off \<le> recv_offset s1" using st by simp_all
    from take_in_order_spec [OF this(1) s1(3) this(2) gen] show ?thesis using False cr s1(1,2) unfolding seen cov cov0 by auto
  qed
qed

lemma on_recv_spec:
  assumes "all_seen str c" "genuine str (sid, off, fin, d)"
  defines "c' \<equiv> fst (quic_stream_on_recv sid off fin d c)"
  shows "all_seen str c'"
    and "covered c' j = covered c j \<union> (if j = sid \<and> kept_frame c (sid, off, fin, d) then {off..<off + length d} else {})"
proof -
  have own: "seen (str sid) (app_events c') (view c' sid)"
    "covered c' sid = covered c sid \<union> (if kept_frame c (sid, off, fin, d) then {off..<off + length d} else {})"
    using recv_own [of str sid c off fin d] assms by (auto simp: all_seen_def simp del: genuine.simps kept_frame.simps)
  have other: "seen (str k) (app_events c') (view c' k)" "covered c' k = covered c k" if "k \<noteq> sid" for k
    using seen_view(1) [of c' k c "str k"] seen_view(2) [of c' k c] recv_other [OF that, of off fin d c] assms(1) by (simp_all add: c'_def all_seen_def)
  show "all_seen str c'" using own(1) other(1) unfolding all_seen_def by metis
  show "covered c' j = covered c j \<union> (if j = sid \<and> kept_frame c (sid, off, fin, d) then {off..<off + length d} else {})"
    using own(2) other(2) by (cases "j = sid") (simp_all del: kept_frame.simps)
qed

lemma all_seen_fresh: "qstreams c = [] \<Longrightarrow> app_events c = [] \<Longrightarrow> all_seen str c"
  by (simp add: all_seen_def view_def stream_find_def new_stream_def seen_def)

lemma receive_all_seen: "all_seen str c \<Longrightarrow> list_all (genuine str) fs \<Longrightarrow> all_seen str (receive_all fs c)"
proof (induction fs arbitrary: c)
  case (Cons a fs)
  obtain sid off fin d where a: "a = (sid, off, fin, d)" by (cases a)
  with Cons show ?case by (simp add: on_recv_spec(1) del: genuine.simps)
qed simp

fun range_of :: "nat \<Rightarrow> arrival \<Rightarrow> nat set" where
  "range_of j (sid, off, fin, d) = (if j = sid then {off..<off + length d} else {})"

text \<open>Every frame is kept when it comes: the gap table is never full when data comes ahead.\<close>

fun all_kept :: "arrival list \<Rightarrow> quic_ctx \<Rightarrow> bool" where
  "all_kept [] c \<longleftrightarrow> True"
| "all_kept (f # fs) c \<longleftrightarrow> kept_frame c f \<and> all_kept fs (receive_all [f] c)"

lemma receive_all_covered:
  "all_seen str c \<Longrightarrow> list_all (genuine str) fs \<Longrightarrow> all_kept fs c \<Longrightarrow>
   covered (receive_all fs c) j = covered c j \<union> \<Union> (range_of j ` set fs)"
proof (induction fs arbitrary: c)
  case (Cons a fs)
  obtain sid off fin d where a: "a = (sid, off, fin, d)" by (cases a)
  from Cons.prems have g: "genuine str (sid, off, fin, d)" and k: "kept_frame c (sid, off, fin, d)"
    by (simp_all add: a del: genuine.simps kept_frame.simps)
  from Cons.IH [OF on_recv_spec(1) [OF Cons.prems(1) g]] Cons.prems
    on_recv_spec(2) [OF Cons.prems(1) g, of j] k
  show ?case by (auto simp: a simp del: genuine.simps kept_frame.simps)
qed simp

lemma delivered_len: "all_seen str c \<Longrightarrow> delivered sid (app_events c) = map (str sid) [0..<recv_offset (view c sid)]"
  by (auto simp: all_seen_def seen_def)

text \<open>
  C6. The frames of any number of streams, arriving in any order, repeated or overlapping, are handed to the
  application as the peer wrote them: what it gets of each stream is the stream's first
  \<open>recv_offset\<close> octets, in order, each once.
\<close>

theorem streams_delivered_in_order:
  assumes "qstreams c = []" "app_events c = []" "list_all (genuine str) fs"
  shows "delivered sid (app_events (receive_all fs c))
    = map (str sid) [0..<recv_offset (view (receive_all fs c) sid)]"
  using receive_all_seen [OF all_seen_fresh [OF assms(1,2)] assms(3)] by (rule delivered_len)

definition example_ctx :: quic_ctx where
  "example_ctx = \<lparr>qstreams = [], next_local_bidi_id = 1, next_local_uni_id = 3, max_data_local = QUIC_STREAM_RECV_BUF_SIZE,
     max_data_peer = 1000, bytes_sent = 0, bytes_recvd = 0, max_streams_bidi_peer = 10, max_streams_uni_peer = 10,
     max_streams_bidi_local = 100, max_streams_uni_local = 100, peer_bidi_opened = 0, peer_uni_opened = 0,
     peer_init_max_stream_data_bidi_local = 500, peer_init_max_stream_data_bidi_remote = 500,
     peer_init_max_stream_data_uni = 500, app_events = [], pkt_payload = [], sent_packets = [], may_send = [],
     fresh_memory = (\<lambda>_. 0)\<rparr>"

lemma example_ctx_empty: "qstreams example_ctx = []" "app_events example_ctx = []"
  by (simp_all add: example_ctx_def)

text \<open>The second octet of a stream comes first.\<close>

theorem streams_delivered_in_order_witness:
  "\<exists>n. delivered 0 (app_events (receive_all [(0, 1, True, [7]), (0, 0, False, [7])] example_ctx)) = replicate n 7"
  using streams_delivered_in_order [OF example_ctx_empty, of "\<lambda>_ _. 7" "[(0, 1, True, [7]), (0, 0, False, [7])]" 0]
  by (auto simp: map_replicate_const)

text \<open>
  C37. And nothing is held back: once the first \<open>n\<close> octets of a stream have arrived, in whatever pieces, they
  have been delivered, provided the gap table was never full when a piece came ahead.
\<close>

theorem streams_delivered_completely:
  assumes "qstreams c = []" "app_events c = []" "list_all (genuine str) fs" "all_kept fs c"
    and "{..<n} \<subseteq> \<Union> (range_of sid ` set fs)"
  shows "take n (delivered sid (app_events (receive_all fs c))) = map (str sid) [0..<n]"
proof -
  let ?c = "receive_all fs c" and ?s = "view (receive_all fs c) sid"
  note fresh = all_seen_fresh [OF assms(1,2), of str]
  have seen: "all_seen str ?c" using fresh assms(3) by (rule receive_all_seen)
  have "{..<n} \<subseteq> covered ?c sid" using receive_all_covered [OF fresh assms(3,4), of sid] assms(5) by auto
  moreover have "recv_offset ?s \<notin> covered ?c sid"
    using seen gaps_ok_above [of "recv_offset ?s" "gaps ?s" "recv_offset ?s"]
    by (auto simp: covered_def all_seen_def seen_def)
  ultimately have "n \<le> recv_offset ?s" by (meson lessThan_iff not_le subsetD)
  then show ?thesis by (simp add: delivered_len [OF seen] take_map)
qed

theorem streams_delivered_completely_witness:
  "take 2 (delivered 0 (app_events (receive_all [(0, 1, True, [7]), (0, 0, False, [7])] example_ctx))) = [7, 7]"
proof -
  have r: "(range_of 0 (0, 1, True, [7::byte])) \<union> (range_of 0 (0, 0, False, [7::byte])) = {..<2}" by auto
  have "all_kept [(0, 1, True, [7]), (0, 0, False, [7])] example_ctx"
    by (simp add: example_ctx_def view_def stream_find_def new_stream_def quic_stream_on_recv_def
        stream_find_or_create_def Let_def store_ahead_def stream_fc_update_def QUIC_STREAM_RECV_BUF_SIZE_def
        sub64_def quic_stream_note_peer_stream_def put_s_def flush_packet_def payload_len_def QUIC_STREAM_MAX_GAPS_def
        QUIC_STREAM_CREDIT_RESERVE_def)
  from streams_delivered_completely [OF example_ctx_empty _ this, of "\<lambda>_ _. 7" 2 0] show ?thesis
    using r by (simp add: numeral_2_eq_2)
qed

section \<open>Where the receiver loses data and credit\<close>

lemma recv_ahead:
  assumes "recv_offset (view c sid) < off" "off + length d \<le> recv_max_data (view c sid)"
    and "stream_fc_update (fst (store_ahead off d c (view c sid))) (snd (store_ahead off d c (view c sid))) = (c4, s4)"
    and "stream_find c sid \<noteq> None"
  shows "quic_stream_on_recv sid off False d c = (flush_packet (put_s s4 c4), 0)"
  using assms
  by (auto simp: quic_stream_on_recv_def stream_find_or_create_def view_def split: prod.splits)

text \<open>
  With eight ranges waiting, data that arrives ahead is accepted (so its packet is acknowledged and the
  peer will not send it again) and yet not kept: the octets received are the same as before.
\<close>

theorem full_gap_table_loses_data:
  assumes "stream_find c sid = Some s" "length (gaps s) = 8" "gaps_ok (recv_offset s) (gaps s)"
    and "recv_offset s < off" "off + length d \<le> recv_max_data s"
  shows "snd (quic_stream_on_recv sid off False d c) = 0
    \<and> covered (fst (quic_stream_on_recv sid off False d c)) sid = covered c sid"
proof -
  have v: "view c sid = s" using assms(1) by (simp add: view_def)
  obtain c3 s3 where st: "store_ahead off d c s = (c3, s3)" by fastforce
  obtain c4 s4 where up: "stream_fc_update c3 s3 = (c4, s4)" by fastforce
  note w = fc_update_app [OF up]
  have s3: "gaps s3 = gaps s" "recv_offset s3 = recv_offset s" "qs_id s3 = qs_id s" "qstreams c3 = qstreams c"
    using st assms(2) merge_gaps_ok_id [OF assms(3)]
    by (auto simp: store_ahead_def Let_def gap_insert_def QUIC_STREAM_MAX_GAPS_def)
  have r: "quic_stream_on_recv sid off False d c = (flush_packet (put_s s4 c4), 0)"
    using assms st up by (intro recv_ahead) (simp_all add: v)
  have "stream_find (flush_packet (put_s s4 c4)) sid = stream_find (put_s s4 c4) sid"
    using stream_find_app [of "flush_packet (put_s s4 c4)" "put_s s4 c4"] by simp
  also have "\<dots> = Some s4"
    using stream_find_app [of c4 c] w s3 assms(1) stream_find_id [OF assms(1)] by (simp add: find_put_s)
  finally have "view (flush_packet (put_s s4 c4)) sid = s4" by (simp add: view_def)
  then show ?thesis using w s3 by (simp add: r covered_def v)
qed

text \<open>Every other octet of a stream has arrived.\<close>

theorem full_gap_table_loses_data_witness:
  "\<exists>c :: quic_ctx. covered (fst (quic_stream_on_recv 0 18 False [9] c)) 0 = covered c 0
     \<and> snd (quic_stream_on_recv 0 18 False [9] c) = 0 \<and> 18 \<notin> covered c 0"
proof -
  define s where "s = (new_stream example_ctx 0)\<lparr>recv_offset := 1, recv_buf := Some (\<lambda>_. 0),
    gaps := [(2, 1), (4, 1), (6, 1), (8, 1), (10, 1), (12, 1), (14, 1), (16, 1)]\<rparr>"
  define c where "c = example_ctx\<lparr>qstreams := [s]\<rparr>"
  have f: "stream_find c 0 = Some s" by (simp add: stream_find_def new_stream_def c_def s_def)
  have "18 \<notin> covered c 0" by (simp add: covered_def view_def f) (simp add: s_def)
  moreover have "snd (quic_stream_on_recv 0 18 False [9] c) = 0
    \<and> covered (fst (quic_stream_on_recv 0 18 False [9] c)) 0 = covered c 0"
    by (rule full_gap_table_loses_data [OF f]) (simp_all add: s_def new_stream_def QUIC_STREAM_RECV_BUF_SIZE_def)
  ultimately show ?thesis by blast
qed

text \<open>The connection window: the count of received octets only grows, and a limit it has overtaken stays.\<close>

lemma drain_counts:
  "drain gs c s = (c', s') \<Longrightarrow> bytes_recvd c \<le> bytes_recvd c' \<and> max_data_local c' = max_data_local c"
proof (induction gs c s rule: drain.induct)
  case (2 g gs c s)
  then show ?case by (fastforce simp: Let_def split: if_splits)
qed simp

lemma fc_update_stuck:
  assumes "stream_fc_update c s = (c', s')" "max_data_local c < bytes_recvd c" "bytes_recvd c < 2 ^ 63"
  shows "max_data_local c' = max_data_local c"
proof -
  have "sub64 (max_data_local c) (bytes_recvd c) = max_data_local c + 2 ^ 64 - bytes_recvd c"
    using assms(2,3) by (simp add: sub64_def)
  then have "\<not> sub64 (max_data_local c) (bytes_recvd c) < QUIC_STREAM_RECV_BUF_SIZE div 4"
    using assms(2,3) by (simp add: QUIC_STREAM_RECV_BUF_SIZE_def)
  with assms(1) show ?thesis by (auto simp: stream_fc_update_def Let_def split: if_splits)
qed

lemma on_recv_counts:
  shows "bytes_recvd c \<le> bytes_recvd (fst (quic_stream_on_recv sid off fin d c))"
    and "max_data_local c < bytes_recvd c \<Longrightarrow> bytes_recvd (fst (quic_stream_on_recv sid off fin d c)) < 2 ^ 63
      \<Longrightarrow> max_data_local (fst (quic_stream_on_recv sid off fin d c)) = max_data_local c"
proof -
  obtain c1 s where fc: "stream_find_or_create c sid = (c1, s)" by fastforce
  note f = find_or_create_spec [OF fc]
  define c2 where "c2 = (if stream_find c sid = None then quic_stream_note_peer_stream sid c1 else c1)"
  have c2: "bytes_recvd c2 = bytes_recvd c" "max_data_local c2 = max_data_local c" by (simp_all add: c2_def f)
  define s1 where "s1 = (if fin then s\<lparr>fin_recvd := True, final_size := off + length d\<rparr> else s)"
  obtain c3 s3 where st: "(if off > recv_offset s1 then store_ahead off d c2 s1 else take_in_order off d c2 s1) = (c3, s3)"
    by fastforce
  obtain c4 s4 where up: "stream_fc_update c3 s3 = (c4, s4)" by fastforce
  have c3: "bytes_recvd c2 \<le> bytes_recvd c3" "max_data_local c3 = max_data_local c2"
    using st drain_counts [where c' = c3 and s' = s3]
    by (fastforce simp: store_ahead_def take_in_order_def gap_drain_def Let_def split: if_splits)+
  show "bytes_recvd c \<le> bytes_recvd (fst (quic_stream_on_recv sid off fin d c))"
    and "max_data_local c < bytes_recvd c \<Longrightarrow> bytes_recvd (fst (quic_stream_on_recv sid off fin d c)) < 2 ^ 63
      \<Longrightarrow> max_data_local (fst (quic_stream_on_recv sid off fin d c)) = max_data_local c"
    using fc st up c2 c3 fc_update_stuck [OF up] fc_update_app(9) [OF up]
    by (auto simp: quic_stream_on_recv_def Let_def c2_def [symmetric] s1_def [symmetric] end_of_stream_def split: if_splits)
qed

lemma receive_all_counts: "bytes_recvd c \<le> bytes_recvd (receive_all fs c)"
  by (induction fs c rule: receive_all.induct) (auto intro: order_trans on_recv_counts(1))

lemma receive_all_stuck:
  "max_data_local c < bytes_recvd c \<Longrightarrow> bytes_recvd (receive_all fs c) < 2 ^ 63 \<Longrightarrow>
   max_data_local (receive_all fs c) = max_data_local c"
proof (induction fs c rule: receive_all.induct)
  case (2 sid off fin d fs c)
  let ?c = "fst (quic_stream_on_recv sid off fin d c)"
  have "bytes_recvd ?c < 2 ^ 63" using receive_all_counts [of ?c fs] "2.prems"(2) by simp
  from on_recv_counts(2) [OF "2.prems"(1) this] on_recv_counts(1) [of c sid off fin d] "2.IH" "2.prems"
  show ?case by simp
qed simp

text \<open>\<open>n\<close> octets of stream \<open>sid\<close> have come after the missing first one, and nothing else has.\<close>

definition ahead :: "nat \<Rightarrow> nat \<Rightarrow> quic_ctx \<Rightarrow> bool" where
  "ahead sid n c \<longleftrightarrow> recv_offset (view c sid) = 0 \<and> \<not> fin_recvd (view c sid) \<and> gaps (view c sid) = (if n = 0 then [] else [(1, n)])
     \<and> recv_max_data (view c sid) = QUIC_STREAM_RECV_BUF_SIZE
     \<and> bytes_recvd c = n \<and> max_data_local c = QUIC_STREAM_RECV_BUF_SIZE"

text \<open>What a call does to the stream it is for, whether it was known or not.\<close>

lemma on_recv_view:
  assumes "off + length d \<le> recv_max_data (view c sid)"
    and "\<And>c2. bytes_recvd c2 = bytes_recvd c \<Longrightarrow> max_data_local c2 = max_data_local c \<Longrightarrow> \<exists>c4 s4.
      (case (if off > recv_offset (view c sid) then store_ahead off d c2 (view c sid) else take_in_order off d c2 (view c sid))
       of (c3, s3) \<Rightarrow> stream_fc_update c3 s3) = (c4, s4) \<and> \<not> fin_recvd s4 \<and> qs_id s4 = sid \<and> qstreams c4 = qstreams c2 \<and> P c4 s4"
  shows "\<exists>c4 s4. bytes_recvd (fst (quic_stream_on_recv sid off False d c)) = bytes_recvd c4
    \<and> max_data_local (fst (quic_stream_on_recv sid off False d c)) = max_data_local c4 \<and> view (fst (quic_stream_on_recv sid off False d c)) sid = s4 \<and> P c4 s4"
proof -
  obtain c1 s where fc: "stream_find_or_create c sid = (c1, s)" by fastforce
  note f = find_or_create_spec [OF fc]
  have s: "s = view c sid" using f(7) by (simp add: view_def)
  define c2 where "c2 = (if stream_find c sid = None then quic_stream_note_peer_stream sid c1 else c1)"
  have "bytes_recvd c2 = bytes_recvd c" "max_data_local c2 = max_data_local c" by (simp_all add: c2_def f)
  then obtain c4 s4 where r: "(case (if off > recv_offset s then store_ahead off d c2 s else take_in_order off d c2 s)
       of (c3, s3) \<Rightarrow> stream_fc_update c3 s3) = (c4, s4)" "\<not> fin_recvd s4" "qs_id s4 = sid" "qstreams c4 = qstreams c2" "P c4 s4"
    using assms(2) [of c2] s by blast
  then have e: "fst (quic_stream_on_recv sid off False d c) = flush_packet (put_s s4 c4)"
    using fc assms(1) s
    by (auto simp: quic_stream_on_recv_def Let_def c2_def [symmetric] end_of_stream_def split: if_splits prod.splits)
  have "stream_find (flush_packet (put_s s4 c4)) sid = stream_find (put_s s4 c4) sid"
    using stream_find_app [of "flush_packet (put_s s4 c4)" "put_s s4 c4"] by simp
  also have "\<dots> = Some s4"
    using f(1) r(3,4) stream_find_app [of c4 c1] by (simp add: find_put_s c2_def split: if_splits)
  finally show ?thesis using e r(5) by (auto simp: view_def)
qed

lemma sub64_le: "b \<le> a \<Longrightarrow> a < 2 ^ 64 \<Longrightarrow> sub64 a b = a - b"
proof -
  assume b: "b \<le> a" and a: "a < 2 ^ 64"
  from b have "a + 2 ^ 64 - b = (a - b) + 2 ^ 64" by simp
  then have "sub64 a b = (a - b) mod 2 ^ 64" unfolding sub64_def by (simp only: mod_add_self2)
  then show ?thesis using a by simp
qed

lemma ahead_step:
  assumes "ahead sid n c" "d \<noteq> []" "n + length d \<le> 48 * 1024 * 1024"
  shows "ahead sid (n + length d) (fst (quic_stream_on_recv sid (1 + n) False d c))"
proof -
  note a = assms(1) [unfolded ahead_def]
  let ?s = "view c sid" and ?P = "\<lambda>(c4 :: quic_ctx) (s4 :: quic_stream). recv_offset s4 = 0 \<and> \<not> fin_recvd s4 \<and> gaps s4 = [(1, n + length d)]
    \<and> recv_max_data s4 = QUIC_STREAM_RECV_BUF_SIZE \<and> bytes_recvd c4 = n + length d
    \<and> max_data_local c4 = QUIC_STREAM_RECV_BUF_SIZE"
  have len: "1 + n + length d \<le> recv_max_data ?s" using a assms(3) by (simp add: QUIC_STREAM_RECV_BUF_SIZE_def)
  have "\<exists>c4 s4. (case (if 1 + n > recv_offset ?s then store_ahead (1 + n) d c2 ?s else take_in_order (1 + n) d c2 ?s)
       of (c3, s3) \<Rightarrow> stream_fc_update c3 s3) = (c4, s4) \<and> \<not> fin_recvd s4 \<and> qs_id s4 = sid \<and> qstreams c4 = qstreams c2 \<and> ?P c4 s4"
    if c2: "bytes_recvd c2 = bytes_recvd c" "max_data_local c2 = max_data_local c" for c2
  proof -
    have g: "gap_insert (1 + n) (length d) (gaps ?s) = [(1, n + length d)]"
      using a assms(2) by (simp add: gap_insert_def QUIC_STREAM_MAX_GAPS_def)
    have w: "\<not> sub64 QUIC_STREAM_RECV_BUF_SIZE (n + length d) < QUIC_STREAM_RECV_BUF_SIZE div 4"
      "\<not> sub64 QUIC_STREAM_RECV_BUF_SIZE 0 < QUIC_STREAM_RECV_BUF_SIZE div 4"
      using assms(3) by (simp_all add: sub64_le QUIC_STREAM_RECV_BUF_SIZE_def)
    show ?thesis
      using a c2 g w by (simp add: store_ahead_def Let_def stream_fc_update_def)
  qed
  from on_recv_view [where P = ?P, OF len this] obtain c4 s4 where r: "bytes_recvd (fst (quic_stream_on_recv sid (1 + n) False d c)) = bytes_recvd c4"
      "max_data_local (fst (quic_stream_on_recv sid (1 + n) False d c)) = max_data_local c4" "view (fst (quic_stream_on_recv sid (1 + n) False d c)) sid = s4" "?P c4 s4" by blast
  have "0 < n + length d" using assms(2) by simp
  then show ?thesis
    unfolding ahead_def r(1-3) using r(4) by simp
qed

lemma ahead_all:
  assumes "ahead sid 0 c" "\<forall>i. length (d i) = 1000" "k \<le> 50000"
  shows "ahead sid (1000 * k) (receive_all (map (\<lambda>i. (sid, 1 + 1000 * i, False, d i)) [0..<k]) c)"
  using assms(3)
proof (induction k)
  case (Suc k)
  have app: "receive_all (fs @ [(sid, off, fin, x)]) c = fst (quic_stream_on_recv sid off fin x (receive_all fs c))"
    for fs off fin x by (induction fs c rule: receive_all.induct) auto
  have "d k \<noteq> []" using assms(2) [rule_format, of k] by auto
  from ahead_step [OF Suc.IH this] Suc.prems assms(2) show ?case by (simp add: app add.commute)
qed (use assms(1) in simp)

lemma ahead_closed:
  assumes "ahead sid n c" "48 * 1024 * 1024 \<ge> n" "32 * 1024 * 1024 \<le> n"
  shows "recv_offset (view (fst (quic_stream_on_recv sid 0 False [x] c)) sid) = n + 1"
    and "bytes_recvd (fst (quic_stream_on_recv sid 0 False [x] c)) = 2 * n + 1"
    and "max_data_local (fst (quic_stream_on_recv sid 0 False [x] c)) = QUIC_STREAM_RECV_BUF_SIZE"
proof -
  note a = assms(1) [unfolded ahead_def]
  let ?s = "view c sid" and ?P = "\<lambda>(c4 :: quic_ctx) (s4 :: quic_stream). recv_offset s4 = n + 1 \<and> bytes_recvd c4 = 2 * n + 1
    \<and> max_data_local c4 = QUIC_STREAM_RECV_BUF_SIZE"
  have len: "0 + length [x] \<le> recv_max_data ?s" using a by (simp add: QUIC_STREAM_RECV_BUF_SIZE_def)
  have "\<exists>c4 s4. (case (if 0 > recv_offset ?s then store_ahead 0 [x] c2 ?s else take_in_order 0 [x] c2 ?s)
       of (c3, s3) \<Rightarrow> stream_fc_update c3 s3) = (c4, s4) \<and> \<not> fin_recvd s4 \<and> qs_id s4 = sid \<and> qstreams c4 = qstreams c2 \<and> ?P c4 s4"
    if c2: "bytes_recvd c2 = bytes_recvd c" "max_data_local c2 = max_data_local c" for c2
  proof -
    have n: "n \<noteq> 0" using assms(3) by simp
    have w: "\<not> sub64 QUIC_STREAM_RECV_BUF_SIZE (2 * n + 1) < QUIC_STREAM_RECV_BUF_SIZE div 4"
      using assms(2,3) by (simp add: sub64_def QUIC_STREAM_RECV_BUF_SIZE_def)
    obtain c3 s3 where t: "take_in_order 0 [x] c2 ?s = (c3, s3)" by fastforce
    then have "bytes_recvd c3 = 2 * n + 1 \<and> max_data_local c3 = QUIC_STREAM_RECV_BUF_SIZE \<and> recv_offset s3 = n + 1
      \<and> \<not> fin_recvd s3 \<and> qs_id s3 = sid \<and> qstreams c3 = qstreams c2"
      using a c2 n by (auto simp: take_in_order_def gap_drain_def Let_def)
    with w show ?thesis using a by (auto simp: t stream_fc_update_def Let_def)
  qed
  from on_recv_view [where P = ?P, OF len this]
  show "recv_offset (view (fst (quic_stream_on_recv sid 0 False [x] c)) sid) = n + 1"
    and "bytes_recvd (fst (quic_stream_on_recv sid 0 False [x] c)) = 2 * n + 1"
    and "max_data_local (fst (quic_stream_on_recv sid 0 False [x] c)) = QUIC_STREAM_RECV_BUF_SIZE"
    by auto
qed

text \<open>
  C39. Data that arrives ahead is counted against the connection window when it comes and again when the gap before
  it closes. If the first octet of a stream comes after 40000 packets of 1000 octets, the count
  is 80000001 for 40000001 octets received, past the limit the peer was given; the difference wraps
  around, and whatever arrives from then on the limit is never raised again.
\<close>

theorem reordering_stalls_connection:
  assumes "qstreams c = []" "bytes_recvd c = 0" "max_data_local c = QUIC_STREAM_RECV_BUF_SIZE"
    and "\<forall>i. length (d i) = 1000"
  shows "let c' = receive_all (map (\<lambda>i. (sid, 1 + 1000 * i, False, d i)) [0..<40000] @ [(sid, 0, False, [x])]) c in
    recv_offset (view c' sid) = 40000001 \<and> bytes_recvd c' = 80000001 \<and>
    (\<forall>fs. bytes_recvd (receive_all fs c') < 2 ^ 63 \<longrightarrow> max_data_local (receive_all fs c') = 67108864)"
proof -
  let ?c = "receive_all (map (\<lambda>i. (sid, 1 + 1000 * i, False, d i)) [0..<40000]) c"
  have "ahead sid 0 c" using assms(1-3) by (simp add: ahead_def view_def stream_find_def new_stream_def)
  from ahead_all [OF this assms(4), of 40000] have "ahead sid 40000000 ?c" by simp
  note r = ahead_closed [OF this, of x]
  have app: "receive_all (fs @ [(sid, off, fin, y)]) c = fst (quic_stream_on_recv sid off fin y (receive_all fs c))"
    for fs off fin y by (induction fs c rule: receive_all.induct) auto
  let ?c' = "fst (quic_stream_on_recv sid 0 False [x] ?c)"
  have "max_data_local ?c' < bytes_recvd ?c'" using r by (simp add: QUIC_STREAM_RECV_BUF_SIZE_def)
  with receive_all_stuck [of ?c'] r show ?thesis
    by (simp add: app Let_def QUIC_STREAM_RECV_BUF_SIZE_def)
qed

theorem reordering_stalls_connection_witness:
  "\<exists>c :: quic_ctx. bytes_recvd c = 80000001 \<and> recv_offset (view c 0) = 40000001
     \<and> (\<forall>fs. bytes_recvd (receive_all fs c) < 2 ^ 63 \<longrightarrow> max_data_local (receive_all fs c) = 67108864)"
  using reordering_stalls_connection [of example_ctx "\<lambda>_. replicate 1000 0" 0 1]
  by (auto simp: Let_def example_ctx_def)

end
