(* ===== verification/Quic_Send.thy ===== *)
theory Quic_Send
  imports Quic_Receive
begin

text \<open>
  What a connection sends. \<open>sends c W\<close> says that the context \<open>c\<close> was reached by any operations of the stream layer, the
  application having written the octets \<open>W sid\<close> to each stream. Then no more has been sent than the
  credit the peer gave, per stream and in total, and every STREAM frame carries the octets the application wrote at its
  offset. What a peer makes of the packets is in \<open>Quic_End_To_End\<close>.
\<close>

section \<open>Frames in the packets\<close>

definition frames_out :: "quic_ctx \<Rightarrow> octets list" where
  "frames_out c = concat (sent_packets c) @ pkt_payload c"

text \<open>What the sender's credit and data depend on, packets and counts apart.\<close>

definition send_core :: "quic_ctx \<Rightarrow> quic_stream list \<times> nat \<times> nat \<times> nat \<times> nat \<times> nat" where
  "send_core c = (qstreams c, max_data_peer c, next_local_uni_id c, peer_init_max_stream_data_bidi_local c,
     peer_init_max_stream_data_bidi_remote c, peer_init_max_stream_data_uni c)"

text \<open>What a frame is read back as, and whether its data, if it is a STREAM frame, is what \<open>S\<close> has at its offset.\<close>

fun stream_data_in :: "(nat \<Rightarrow> octets) \<Rightarrow> quic_frame \<Rightarrow> bool" where
  "stream_data_in S (StreamFrame sid off fin d) \<longleftrightarrow>
     unat off + length d \<le> length (S (unat sid)) \<and> d = take (length d) (drop (unat off) (S (unat sid)))"
| "stream_data_in S f \<longleftrightarrow> True"

definition carries :: "(nat \<Rightarrow> octets) \<Rightarrow> octets \<Rightarrow> bool" where
  "carries S b \<longleftrightarrow> b \<noteq> [] \<and> (\<exists>f. (\<forall>r. next_frame (b @ r) = Some ([f], r)) \<and> stream_data_in S f)"

lemma stream_data_in_mono:
  assumes "stream_data_in S f" "\<And>sid. \<exists>z. S' sid = S sid @ z"
  shows "stream_data_in S' f"
proof (cases f)
  case (StreamFrame sid off fin d)
  obtain z where "S' (unat sid) = S (unat sid) @ z" using assms(2) by blast
  with assms(1) show ?thesis by (auto simp: StreamFrame)
qed simp_all

lemma carries_mono: "carries S b \<Longrightarrow> (\<And>sid. \<exists>z. S' sid = S sid @ z) \<Longrightarrow> carries S' b"
  unfolding carries_def using stream_data_in_mono by blast

lemma get_varint_cut: "get_varint (ml_enc v @ r) = Some (take_bit 62 v, r)"
  by (simp add: get_varint_def quic_decode_ml_enc length_ml_enc [symmetric] del: length_ml_enc)

lemma credit_frame_carries:
  assumes "quic_frame_write_max_data cap a = Some f \<or> quic_frame_write_max_stream_data cap a b = Some f
    \<or> quic_frame_write_max_streams cap a bidi = Some f \<or> quic_frame_write_data_blocked cap a = Some f
    \<or> quic_frame_write_stream_data_blocked cap a b = Some f \<or> quic_frame_write_streams_blocked cap a bidi = Some f"
  shows "carries S f"
  using assms
  by (auto simp: carries_def write_defs put_Some next_frame_def took_def get_type_def get_two_def get_varint_cut
      quic_frame_parse_max_data_def quic_frame_parse_max_stream_data_def quic_frame_parse_max_streams_def
      quic_frame_parse_data_blocked_def quic_frame_parse_stream_data_blocked_def quic_frame_parse_streams_blocked_def
      split: if_splits)

lemma abort_frame_carries:
  assumes "quic_frame_write_reset_stream cap a b e = Some f \<or> quic_frame_write_stop_sending cap a b = Some f"
  shows "carries S f"
  using assms
  by (auto simp: carries_def write_defs put_Some next_frame_def took_def get_type_def get_two_def get_varint_cut
      quic_frame_parse_reset_stream_def quic_frame_parse_stop_sending_def)

lemma other_frames:
  "\<forall>x\<in>set_option (quic_frame_write_max_data cap a). \<forall>S. carries S x"
  "\<forall>x\<in>set_option (quic_frame_write_max_stream_data cap a b). \<forall>S. carries S x"
  "\<forall>x\<in>set_option (quic_frame_write_max_streams cap a bidi). \<forall>S. carries S x"
  "\<forall>x\<in>set_option (quic_frame_write_data_blocked cap a). \<forall>S. carries S x"
  "\<forall>x\<in>set_option (quic_frame_write_stream_data_blocked cap a b). \<forall>S. carries S x"
  "\<forall>x\<in>set_option (quic_frame_write_streams_blocked cap a bidi). \<forall>S. carries S x"
  "\<forall>x\<in>set_option (quic_frame_write_reset_stream cap a b e). \<forall>S. carries S x"
  "\<forall>x\<in>set_option (quic_frame_write_stop_sending cap a b). \<forall>S. carries S x"
  using credit_frame_carries [of cap a _ b bidi] abort_frame_carries [of cap a b e] by auto

lemma unat_u64of: "n < 2 ^ 64 \<Longrightarrow> unat (u64of n) = n"
  by (simp add: u64of_def unat_of_nat)

lemma u64of_varint: "n < 2 ^ 62 \<Longrightarrow> u64of n \<le> kMlVarintMax"
  by (simp add: le_kMlVarintMax_iff unat_u64of)

lemma stream_frame_carries:
  assumes "quic_frame_write_stream cap (u64of sid) (u64of off) fin d = Some f"
    and "sid < 2 ^ 62" "off < 2 ^ 62" "length d < 2 ^ 62"
    and "off + length d \<le> length (S sid)" "d = take (length d) (drop off (S sid))"
  shows "carries S f"
proof -
  let ?f = "StreamFrame (u64of sid) (u64of off) fin d"
  have "next_frame (f @ r) = Some ([?f], r)" for r
    using next_stream [of "u64of sid" "u64of off" fin d cap f r] assms(1-4) by (simp add: u64of_varint)
  moreover have "f \<noteq> []" using assms(1) by (auto simp: write_defs put_Some)
  moreover have "stream_data_in S ?f" using assms(2,3,5,6) by (simp add: unat_u64of)
  ultimately show ?thesis unfolding carries_def by blast
qed

section \<open>Queueing\<close>

lemma flush_packet_core [simp]: "send_core (flush_packet c) = send_core c" "bytes_sent (flush_packet c) = bytes_sent c"
  "frames_out (flush_packet c) = frames_out c"
  by (simp_all add: flush_packet_def ask_def send_core_def frames_out_def split: list.splits)

lemma ask_core [simp]: "send_core (snd (ask c)) = send_core c" "bytes_sent (snd (ask c)) = bytes_sent c"
  "frames_out (snd (ask c)) = frames_out c"
  by (simp_all add: ask_def send_core_def frames_out_def split: list.splits)

lemma queue_frames_core [simp]: "send_core (fst (queue_frames c f)) = send_core c" "bytes_sent (fst (queue_frames c f)) = bytes_sent c"
  and queue_frames_out: "frames_out (fst (queue_frames c f)) = frames_out c @ (if snd (queue_frames c f) then [f] else [])"
proof -
  have add: "send_core (a\<lparr>pkt_payload := pkt_payload a @ [f]\<rparr>) = send_core a" "bytes_sent (a\<lparr>pkt_payload := pkt_payload a @ [f]\<rparr>) = bytes_sent a"
    "frames_out (a\<lparr>pkt_payload := pkt_payload a @ [f]\<rparr>) = frames_out a @ [f]" for a
    by (simp_all add: send_core_def frames_out_def)
  show "send_core (fst (queue_frames c f)) = send_core c" "bytes_sent (fst (queue_frames c f)) = bytes_sent c"
    "frames_out (fst (queue_frames c f)) = frames_out c @ (if snd (queue_frames c f) then [f] else [])"
    by (simp_all add: queue_frames_def Let_def case_prod_unfold add)
qed

text \<open>\<open>quiet c c'\<close>: nothing but frames without stream data was added.\<close>

definition quiet :: "quic_ctx \<Rightarrow> quic_ctx \<Rightarrow> bool" where
  "quiet c c' \<longleftrightarrow> send_core c' = send_core c \<and> bytes_sent c' = bytes_sent c
     \<and> (\<forall>f\<in>set (frames_out c'). f \<in> set (frames_out c) \<or> (\<forall>S. carries S f))"

named_theorems quiet_intros

lemma quiet_refl [quiet_intros]: "quiet c c" by (simp add: quiet_def)

lemma quiet_trans: "quiet a b \<Longrightarrow> quiet b c \<Longrightarrow> quiet a c" unfolding quiet_def by fastforce

lemma quiet_queue [quiet_intros]: "\<forall>b\<in>set_option f. \<forall>S. carries S b \<Longrightarrow> quiet c (queue c f)"
  and quiet_queue_flush [quiet_intros]: "\<forall>b\<in>set_option f. \<forall>S. carries S b \<Longrightarrow> quiet c (queue_flush c f)"
  by (auto simp: quiet_def queue_def queue_flush_def queue_frames_out split: option.splits if_splits)

lemma quiet_tell [quiet_intros]: "quiet c (tell es c)"
  by (simp add: quiet_def tell_def send_core_def frames_out_def)

lemma quiet_flush_packet [quiet_intros]: "quiet c (flush_packet c)" by (simp add: quiet_def)

lemma notify_spec:
  assumes "maybe_notify_writable c s = (c', s')"
  shows "quiet c c'" "qs_id s' = qs_id s" "send_max_data s' = send_max_data s" "send_offset s' = send_offset s"
    "send_buf s' = send_buf s"
  using assms by (auto simp: maybe_notify_writable_def intro: quiet_intros split: if_splits)

section \<open>The invariant\<close>

text \<open>\<open>W sid\<close> is what the application wrote to the stream: what went out, then the send buffer.\<close>

definition send_ok :: "(nat \<Rightarrow> octets) \<Rightarrow> quic_stream \<Rightarrow> bool" where
  "send_ok W s \<longleftrightarrow> send_offset s \<le> send_max_data s \<and> send_max_data s < 2 ^ 62
     \<and> send_offset s \<le> length (W (qs_id s)) \<and> send_buf s = drop (send_offset s) (W (qs_id s))
     \<and> (W (qs_id s) \<noteq> [] \<longrightarrow> qs_id s < 2 ^ 62)"

definition sent_of :: "(nat \<Rightarrow> octets) \<Rightarrow> quic_ctx \<Rightarrow> nat \<Rightarrow> octets" where
  "sent_of W c sid = (case stream_find c sid of None \<Rightarrow> [] | Some s \<Rightarrow> take (send_offset s) (W sid))"

text \<open>A local unidirectional stream that was not opened yet.\<close>

definition unopened :: "quic_ctx \<Rightarrow> nat \<Rightarrow> bool" where
  "unopened c sid \<longleftrightarrow> next_local_uni_id c \<le> sid \<and> sid mod 4 = next_local_uni_id c mod 4"

definition credit_ok :: "quic_ctx \<Rightarrow> bool" where
  "credit_ok c \<longleftrightarrow> peer_init_max_stream_data_bidi_local c < 2 ^ 62 \<and> peer_init_max_stream_data_bidi_remote c < 2 ^ 62
     \<and> peer_init_max_stream_data_uni c < 2 ^ 62"

definition send_inv :: "(nat \<Rightarrow> octets) \<Rightarrow> quic_ctx \<Rightarrow> bool" where
  "send_inv W c \<longleftrightarrow> bytes_sent c \<le> max_data_peer c \<and> (\<forall>s\<in>set (qstreams c). send_ok W s)
     \<and> (\<forall>f\<in>set (frames_out c). carries (sent_of W c) f) \<and> (\<forall>sid. stream_find c sid = None \<longrightarrow> W sid = [])
     \<and> credit_ok c \<and> (\<forall>sid. unopened c sid \<longrightarrow> W sid = [])"

lemma core_eq:
  assumes "send_core c' = send_core c"
  shows "qstreams c' = qstreams c" "max_data_peer c' = max_data_peer c" "stream_find c' = stream_find c"
    "sent_of W c' = sent_of W c" "unopened c' = unopened c" "credit_ok c' = credit_ok c"
    "peer_send_credit c' sid \<le> max (peer_init_max_stream_data_uni c') (max (peer_init_max_stream_data_bidi_remote c') (peer_init_max_stream_data_bidi_local c'))"
  using assms
  by (auto simp: send_core_def stream_find_def fun_eq_iff sent_of_def unopened_def credit_ok_def peer_send_credit_def Let_def)

lemma peer_send_credit_ok: "credit_ok c \<Longrightarrow> peer_send_credit c sid < 2 ^ 62"
  by (auto simp: credit_ok_def peer_send_credit_def Let_def)

lemma inv_quiet:
  assumes "send_inv W c" "quiet c c'"
  shows "send_inv W c'"
proof -
  have "send_core c' = send_core c" "bytes_sent c' = bytes_sent c"
    "\<forall>f\<in>set (frames_out c'). f \<in> set (frames_out c) \<or> (\<forall>S. carries S f)" using assms(2) by (simp_all add: quiet_def)
  with core_eq [of c' c] assms(1) show ?thesis unfolding send_inv_def by metis
qed

lemma inv_stream: "send_inv W c \<Longrightarrow> stream_find c sid = Some s \<Longrightarrow> send_ok W s \<and> qs_id s = sid"
  by (auto simp: send_inv_def stream_find_def find_Some_iff)

text \<open>One stream moves on: data \<open>d\<close> was added to it, and frames went out for it.\<close>

lemma inv_update:
  assumes inv: "send_inv W c" and find: "stream_find c sid = Some s" and id: "qs_id s' = sid"
    and send_core: "send_core c' = send_core c" and sent: "bytes_sent c' \<le> max_data_peer c"
    and W': "W' = W(sid := W sid @ d)" and new: "d \<noteq> [] \<Longrightarrow> \<not> unopened c sid" and ok: "send_ok W' s'"
    and off: "send_offset s \<le> send_offset s'"
    and out: "\<forall>f\<in>set (frames_out c'). carries ((sent_of W c)(sid := take (send_offset s') (W' sid))) f"
  shows "send_inv W' (put_s s' c')"
proof -
  note eq = core_eq [OF send_core]
  note s = inv_stream [OF inv find]
  have f: "stream_find (put_s s' c') j = (if j = sid then Some s' else stream_find c j)" for j
    by (simp add: find_put_s id eq find)
  have "send_ok W' t" if "t \<in> set (qstreams c)" "qs_id t \<noteq> sid" for t
    using inv that by (auto simp: send_inv_def send_ok_def W')
  then have "\<forall>t\<in>set (qstreams (put_s s' c')). send_ok W' t"
    using ok by (auto simp: put_s_def eq id)
  moreover have "sent_of W' (put_s s' c') = (sent_of W c)(sid := take (send_offset s') (W' sid))"
    using find s by (auto simp: sent_of_def f W' fun_eq_iff split: option.splits)
  moreover have "unopened (put_s s' c') = unopened c" "credit_ok (put_s s' c') = credit_ok c"
    "frames_out (put_s s' c') = frames_out c'" "bytes_sent (put_s s' c') = bytes_sent c'" "max_data_peer (put_s s' c') = max_data_peer c"
    using send_core by (auto simp: put_s_def unopened_def credit_ok_def send_core_def frames_out_def fun_eq_iff)
  ultimately show ?thesis
    using inv sent out new unfolding send_inv_def by (auto simp: W' f)
qed

lemma carries_sent:
  assumes "send_inv W c" "stream_find c sid = Some s" "send_offset s \<le> n" "f \<in> set (frames_out c)"
  shows "carries ((sent_of W c)(sid := take n (W sid @ d))) f"
proof (rule carries_mono)
  show "carries (sent_of W c) f" using assms by (simp add: send_inv_def)
  have "send_offset s \<le> length (W sid)" using inv_stream [OF assms(1,2)] by (auto simp: send_ok_def)
  then have "take (send_offset s) (take n (W sid @ d)) = take (send_offset s) (W sid)" using assms(3) by (simp add: min_absorb1)
  then have "take n (W sid @ d) = take (send_offset s) (W sid) @ drop (send_offset s) (take n (W sid @ d))"
    using append_take_drop_id [of "send_offset s" "take n (W sid @ d)"] by (simp only:)
  then show "\<exists>z. ((sent_of W c)(sid := take n (W sid @ d))) j = sent_of W c j @ z" for j
    using assms(2) by (auto simp: sent_of_def)
qed

text \<open>A stream changed in what does not concern sending, or with more credit.\<close>

lemma send_put:
  assumes inv: "send_inv W c" and find: "stream_find c sid = Some s" and id: "qs_id s' = sid"
    and keep: "send_offset s' = send_offset s" "send_buf s' = send_buf s"
    and credit: "send_max_data s \<le> send_max_data s'" "send_max_data s' < 2 ^ 62"
  shows "send_inv W (put_s s' c)"
proof (rule inv_update [OF inv find id refl, where d = "[]"])
  show "send_ok W s'" using inv_stream [OF inv find] keep credit id by (auto simp: send_ok_def)
  show "\<forall>f\<in>set (frames_out c). carries ((sent_of W c)(sid := take (send_offset s') (W sid))) f"
    using carries_sent [OF inv find, of "send_offset s" _ "[]"] keep by auto
qed (use inv keep in \<open>simp_all add: send_inv_def\<close>)

lemma inv_create:
  assumes "send_inv W c" "stream_find_or_create c sid = (c', s)"
  shows "send_inv W c'" "stream_find c' sid = Some s"
proof -
  show "stream_find c' sid = Some s" using find_or_create_spec(1) [OF assms(2)] .
  show "send_inv W c'"
  proof (cases "stream_find c sid")
    case None
    then have c': "c' = c\<lparr>qstreams := qstreams c @ [new_stream c sid]\<rparr>"
      using assms(2) by (auto simp: stream_find_or_create_def Let_def)
    have W: "W sid = []" using assms(1) None by (simp add: send_inv_def)
    then have "send_ok W (new_stream c sid)"
      using assms(1) peer_send_credit_ok [of c sid] by (simp add: send_ok_def new_stream_def send_inv_def)
    moreover have "stream_find c' j = (if j = sid then Some s else stream_find c j)" for j
      using find_or_create_spec(1) [OF assms(2)] find_or_create_spec(3) [OF assms(2), of j] by simp
    moreover from this have "sent_of W c' = sent_of W c" using None W by (auto simp: sent_of_def fun_eq_iff)
    ultimately show ?thesis
      using assms(1) by (auto simp: send_inv_def c' frames_out_def unopened_def credit_ok_def split: if_splits)
  qed (use assms in \<open>simp add: stream_find_or_create_def\<close>)
qed

section \<open>The send loops\<close>

text \<open>One frame of \<open>n\<close> octets from the stream's offset went out.\<close>

lemma carries_next:
  assumes frames: "\<forall>f\<in>set (frames_out c). carries S f" and S: "S (qs_id s) = take (send_offset s) X"
    and n: "send_offset s + n \<le> length X" "length X < 2 ^ 62 \<or> send_offset s + n < 2 ^ 62" "qs_id s < 2 ^ 62"
    and f: "quic_frame_write_stream cap (u64of (qs_id s)) (u64of (send_offset s)) fin (take n (drop (send_offset s) X)) = Some f"
    and q: "queue_frames c f = (c1, ok)"
  shows "\<forall>g\<in>set (frames_out c1). carries (S(qs_id s := take (send_offset s + n) X)) g"
proof -
  have "carries (S(qs_id s := take (send_offset s + n) X)) f"
    using n by (intro stream_frame_carries [OF f]) (auto simp: min_absorb1 min_absorb2 take_drop [symmetric] add.commute)
  moreover have "carries (S(qs_id s := take (send_offset s + n) X)) g" if "g \<in> set (frames_out c)" for g
    using bspec [OF frames that] by (rule carries_mono) (auto simp: S take_add)
  moreover have "set (frames_out c1) \<subseteq> insert f (set (frames_out c))"
    using queue_frames_out [of c f] q by auto
  ultimately show ?thesis by blast
qed

definition sent_more :: "octets \<Rightarrow> (nat \<Rightarrow> octets) \<Rightarrow> quic_ctx \<Rightarrow> quic_stream \<Rightarrow> quic_ctx \<Rightarrow> quic_stream \<Rightarrow> bool" where
  "sent_more X S c s c' s' \<longleftrightarrow> send_core c' = send_core c \<and> bytes_sent c' \<le> max_data_peer c \<and> qs_id s' = qs_id s
     \<and> send_max_data s' = send_max_data s \<and> send_offset s \<le> send_offset s' \<and> send_offset s' \<le> send_max_data s
     \<and> send_offset s' \<le> length X
     \<and> (\<forall>f\<in>set (frames_out c'). carries (S(qs_id s := take (send_offset s') X)) f)"

lemma sent_more_refl:
  assumes "quiet c c'" "qs_id s' = qs_id s" "send_max_data s' = send_max_data s" "send_offset s' = send_offset s"
    and "\<forall>f\<in>set (frames_out c). carries S f" "S (qs_id s) = take (send_offset s) X" "bytes_sent c \<le> max_data_peer c"
    and "send_offset s \<le> send_max_data s" "send_offset s \<le> length X"
  shows "sent_more X S c s c' s'"
  using assms unfolding sent_more_def quiet_def by (metis fun_upd_triv order_refl)

lemma blocked_spec:
  assumes "blocked f c s = (c', s')" "\<forall>b\<in>set_option f. \<forall>S. carries S b"
  shows "quiet c c'" "qs_id s' = qs_id s" "send_max_data s' = send_max_data s" "send_offset s' = send_offset s"
    "send_buf s' = send_buf s"
proof -
  let ?c = "if send_blocked s then c else queue_flush c f"
  have n: "maybe_notify_writable ?c (s\<lparr>send_blocked := True\<rparr>) = (c', s')" using assms(1) by (simp add: blocked_def)
  have "quiet c ?c" using quiet_queue_flush [OF assms(2)] quiet_refl by simp
  with notify_spec(1) [OF n] show "quiet c c'" by (blast intro: quiet_trans)
  show "qs_id s' = qs_id s" "send_max_data s' = send_max_data s" "send_offset s' = send_offset s"
    "send_buf s' = send_buf s" using notify_spec(2-5) [OF n] by simp_all
qed

lemma consume_spec:
  assumes "consume_send_buf c s = ((c', s'), r)" "send_buf s = drop (send_offset s) X"
    and "\<forall>f\<in>set (frames_out c). carries S f" "S (qs_id s) = take (send_offset s) X" "bytes_sent c \<le> max_data_peer c"
    and "send_offset s \<le> send_max_data s" "send_offset s \<le> length X"
    and "send_max_data s < 2 ^ 62" "X \<noteq> [] \<longrightarrow> qs_id s < 2 ^ 62"
  shows "sent_more X S c s c' s' \<and> send_buf s' = drop (send_offset s') X"
  using assms
proof (induction c s arbitrary: S rule: consume_send_buf.induct)
  case (1 c s)
  note keep = sent_more_refl [where X = X and S = S and c = c and s = s, OF _ _ _ _ "1.prems"(3-7)]
  note unf = "1.prems"(1) [unfolded consume_send_buf.simps [of c s]]
  consider (empty) "send_buf s = []" | (stream) "send_buf s \<noteq> []" "stream_room s = 0"
    | (conn) "send_buf s \<noteq> []" "stream_room s \<noteq> 0" "conn_room c = 0"
    | (send) "send_buf s \<noteq> []" "stream_room s \<noteq> 0" "conn_room c \<noteq> 0" by blast
  then show ?case
  proof cases
    case empty
    then have n: "maybe_notify_writable c (s\<lparr>send_buf_fin := False, send_blocked := False\<rparr>) = (c', s')" using unf by simp
    show ?thesis using keep [OF notify_spec(1) [OF n]] notify_spec(2-5) [OF n] "1.prems"(2) by simp
  next
    case stream
    let ?f = "quic_frame_write_stream_data_blocked 32 (u64of (qs_id s)) (u64of (send_max_data s))"
    have b: "blocked ?f c s = (c', s')" using unf stream by simp
    note b = blocked_spec [OF b other_frames(5)]
    show ?thesis using keep [OF b(1)] b(2-5) "1.prems"(2) by simp
  next
    case conn
    let ?f = "quic_frame_write_data_blocked 16 (u64of (max_data_peer c))"
    have b: "blocked ?f c s = (c', s')" using unf conn by simp
    note b = blocked_spec [OF b other_frames(4)]
    show ?thesis using keep [OF b(1)] b(2-5) "1.prems"(2) by simp
  next
    case send
    define n where "n = chunk_size c s"
    define is_last where "is_last = (n \<ge> length (send_buf s) \<and> send_buf_fin s)"
    define f where "f = quic_frame_write_stream 2048 (u64of (qs_id s)) (u64of (send_offset s)) is_last (take n (send_buf s))"
    have n: "send_offset s + n \<le> length X" "send_offset s + n \<le> send_max_data s" "bytes_sent c + n \<le> max_data_peer c"
      using send "1.prems"(2,6,7) by (auto simp: n_def chunk_size_def stream_room_def conn_room_def min_def split: if_splits)
    have run: "(case f of None \<Rightarrow> ((c, s), -1) | Some f \<Rightarrow> (case queue_frames c f of (c1, ok) \<Rightarrow>
        if \<not> ok then (maybe_notify_writable c1 (s\<lparr>send_blocked := True\<rparr>), -1)
        else consume_send_buf (c1\<lparr>bytes_sent := bytes_sent c1 + n\<rparr>)
          (s\<lparr>send_offset := send_offset s + n, send_buf := drop n (send_buf s), send_blocked := False\<rparr>))) = ((c', s'), r)"
      using unf send unfolding f_def is_last_def n_def by (simp add: Let_def)
    show ?thesis
    proof (cases f)
      case None
      with run have "c' = c" "s' = s" by simp_all
      then show ?thesis using keep [OF quiet_refl] "1.prems"(2) by simp
    next
      case (Some b)
      obtain c1 ok where q: "queue_frames c b = (c1, ok)" by fastforce
      have c1: "send_core c1 = send_core c" "bytes_sent c1 = bytes_sent c" "frames_out c1 = frames_out c @ (if ok then [b] else [])"
        using queue_frames_core [of c b] queue_frames_out [of c b] q by simp_all
      show ?thesis
      proof (cases ok)
        case False
        then have m: "maybe_notify_writable c1 (s\<lparr>send_blocked := True\<rparr>) = (c', s')" using run Some q by simp
        have "quiet c c1" using c1 False by (simp add: quiet_def)
        note k = keep [OF quiet_trans [OF this notify_spec(1) [OF m]]]
        show ?thesis using k notify_spec(2-5) [OF m] "1.prems"(2) by simp
      next
        case True
        define c2 where "c2 = c1\<lparr>bytes_sent := bytes_sent c1 + n\<rparr>"
        define s2 where "s2 = s\<lparr>send_offset := send_offset s + n, send_buf := drop n (send_buf s), send_blocked := False\<rparr>"
        define S2 where "S2 = S(qs_id s := take (send_offset s + n) X)"
        have X: "X \<noteq> []" using send(1) "1.prems"(2) by auto
        have c2: "send_core c2 = send_core c" "bytes_sent c2 = bytes_sent c + n" "frames_out c2 = frames_out c1" "max_data_peer c2 = max_data_peer c"
          using c1 by (auto simp: c2_def send_core_def frames_out_def)
        have s2: "qs_id s2 = qs_id s" "send_max_data s2 = send_max_data s" "send_offset s2 = send_offset s + n"
          "send_buf s2 = drop (send_offset s2) X"
          using "1.prems"(2) by (simp_all add: s2_def add.commute)
        have fr: "\<forall>g\<in>set (frames_out c2). carries S2 g"
          unfolding c2(3) S2_def
          using carries_next [OF "1.prems"(3,4) n(1) _ _ _ q, of 2048 is_last] Some n(2) "1.prems"(2,8,9) X
          by (simp add: f_def)
        have go: "consume_send_buf c2 s2 = ((c', s'), r)" using run Some q True by (simp add: c2_def s2_def)
        note IH = "1.IH" [OF send n_def is_last_def Some [unfolded f_def] q [symmetric], folded c2_def s2_def, where S = S2]
        have "S2 (qs_id s2) = take (send_offset s2) X" using s2 by (simp add: S2_def)
        then have "sent_more X S2 c2 s2 c' s' \<and> send_buf s' = drop (send_offset s') X"
          by (rule IH [rotated 4]) (use True go fr s2 c2 n "1.prems"(8,9) in simp_all)
        then show ?thesis using c2 s2 n unfolding sent_more_def by (auto simp: S2_def)
      qed
    qed
  qed
qed

lemma send_loop_spec:
  assumes "send_loop d fin c s = ((c', s'), r)" "d = drop (send_offset s) X"
    and "\<forall>f\<in>set (frames_out c). carries S f" "S (qs_id s) = take (send_offset s) X" "bytes_sent c \<le> max_data_peer c"
    and "send_offset s \<le> send_max_data s" "send_offset s \<le> length X"
    and "send_max_data s < 2 ^ 62" "d \<noteq> [] \<longrightarrow> qs_id s < 2 ^ 62"
  shows "sent_more X S c s c' s' \<and> send_buf s' = send_buf s"
  using assms
proof (induction d fin c s arbitrary: S rule: send_loop.induct)
  case (1 d fin c s)
  note keep = sent_more_refl [where X = X and S = S and c = c and s = s, OF _ _ _ _ "1.prems"(3-7)]
  note unf = "1.prems"(1) [unfolded send_loop.simps [of d fin c s]]
  show ?case
  proof (cases "d = [] \<or> stream_room s = 0 \<or> conn_room c = 0")
    case True
    then have "c' = c" "s' = s" using unf by (auto split: if_splits)
    then show ?thesis using keep [OF quiet_refl] by simp
  next
    case False
    then have send: "d \<noteq> []" "\<not> (stream_room s = 0 \<or> conn_room c = 0)" by simp_all
    define n where "n = min (min (min (length d) SEND_CHUNK) (stream_room s)) (conn_room c)"
    define is_last where "is_last = (n \<ge> length d \<and> fin)"
    define f where "f = quic_frame_write_stream 2048 (u64of (qs_id s)) (u64of (send_offset s)) is_last (take n d)"
    have n: "send_offset s + n \<le> length X" "send_offset s + n \<le> send_max_data s" "bytes_sent c + n \<le> max_data_peer c"
      using send "1.prems"(2,6,7) by (auto simp: n_def stream_room_def conn_room_def min_def split: if_splits)
    have run: "(case f of None \<Rightarrow> ((c, s), False) | Some f \<Rightarrow> (case queue_frames c f of (c1, ok) \<Rightarrow>
        if \<not> ok then ((c1, s), False)
        else send_loop (drop n d) fin (c1\<lparr>bytes_sent := bytes_sent c1 + n\<rparr>) (s\<lparr>send_offset := send_offset s + n\<rparr>))) = ((c', s'), r)"
      using unf send unfolding f_def is_last_def n_def by (simp add: Let_def)
    show ?thesis
    proof (cases f)
      case None
      with run have "c' = c" "s' = s" by simp_all
      then show ?thesis using keep [OF quiet_refl] by simp
    next
      case (Some b)
      obtain c1 ok where q: "queue_frames c b = (c1, ok)" by fastforce
      have c1: "send_core c1 = send_core c" "bytes_sent c1 = bytes_sent c" "frames_out c1 = frames_out c @ (if ok then [b] else [])"
        using queue_frames_core [of c b] queue_frames_out [of c b] q by simp_all
      show ?thesis
      proof (cases ok)
        case False
        then have "c' = c1" "s' = s" using run Some q by simp_all
        moreover have "quiet c c1" using c1 False by (simp add: quiet_def)
        ultimately show ?thesis using keep by simp
      next
        case True
        define c2 where "c2 = c1\<lparr>bytes_sent := bytes_sent c1 + n\<rparr>"
        define s2 where "s2 = s\<lparr>send_offset := send_offset s + n\<rparr>"
        define S2 where "S2 = S(qs_id s := take (send_offset s + n) X)"
        have c2: "send_core c2 = send_core c" "bytes_sent c2 = bytes_sent c + n" "frames_out c2 = frames_out c1" "max_data_peer c2 = max_data_peer c"
          using c1 by (auto simp: c2_def send_core_def frames_out_def)
        have s2: "qs_id s2 = qs_id s" "send_max_data s2 = send_max_data s" "send_offset s2 = send_offset s + n"
          "drop n d = drop (send_offset s2) X" "send_buf s2 = send_buf s"
          using "1.prems"(2) by (simp_all add: s2_def add.commute)
        have fr: "\<forall>g\<in>set (frames_out c2). carries S2 g"
          unfolding c2(3) S2_def
          using carries_next [OF "1.prems"(3,4) n(1) _ _ _ q, of 2048 is_last] Some n(2) "1.prems"(2,8,9) send
          by (simp add: f_def)
        have go: "send_loop (drop n d) fin c2 s2 = ((c', s'), r)" using run Some q True by (simp add: c2_def s2_def)
        note IH = "1.IH" [OF send n_def is_last_def Some [unfolded f_def] q [symmetric], folded c2_def s2_def, where S = S2]
        have "S2 (qs_id s2) = take (send_offset s2) X" using s2 by (simp add: S2_def)
        then have "sent_more X S2 c2 s2 c' s' \<and> send_buf s' = send_buf s2"
          by (rule IH [rotated 4]) (use True go fr s2 c2 n "1.prems"(8,9) send in simp_all)
        then show ?thesis using c2 s2 n unfolding sent_more_def by (auto simp: S2_def)
      qed
    qed
  qed
qed

section \<open>Every operation keeps the invariant\<close>

lemma sent_more_quiet:
  assumes "sent_more X S c s c1 s1" "quiet c1 c'" "qs_id s' = qs_id s1" "send_max_data s' = send_max_data s1"
    "send_offset s' = send_offset s1"
  shows "sent_more X S c s c' s'"
  using assms unfolding sent_more_def quiet_def by metis

lemma inv_sent:
  assumes inv: "send_inv W c" and find: "stream_find c sid = Some s"
    and sent: "sent_more X (sent_of W c) c0 s0 c' s'" and c0: "send_core c0 = send_core c"
    and s0: "qs_id s0 = sid" "send_max_data s0 = send_max_data s" "send_offset s0 = send_offset s"
    and W': "W' = W(sid := W sid @ d)" "d \<noteq> [] \<longrightarrow> \<not> unopened c sid \<and> sid < 2 ^ 62"
    and X: "take (send_offset s') X = take (send_offset s') (W' sid)" "send_offset s' \<le> length (W' sid)"
    and buf: "send_buf s' = drop (send_offset s') (W' sid)"
  shows "send_inv W' (put_s s' c')"
proof (rule inv_update [OF inv find _ _ _ W'(1)])
  have eq: "max_data_peer c0 = max_data_peer c" "credit_ok c0 = credit_ok c" using core_eq [OF c0] by simp_all
  show "qs_id s' = sid" "send_core c' = send_core c" "bytes_sent c' \<le> max_data_peer c" "send_offset s \<le> send_offset s'"
    using sent c0 s0 eq by (simp_all add: sent_more_def)
  show "send_ok W' s'"
    using inv_stream [OF inv find] sent s0 W' X(2) buf by (auto simp: sent_more_def send_ok_def)
  show "\<forall>f\<in>set (frames_out c'). carries ((sent_of W c)(sid := take (send_offset s') (W' sid))) f"
    using sent s0(1) X(1) by (simp add: sent_more_def)
qed (use W' in simp_all)

lemma inv_carries: "send_inv W c \<Longrightarrow> \<forall>f\<in>set (frames_out c). carries (sent_of W c) f"
  by (simp add: send_inv_def)

lemma inv_bytes: "send_inv W c \<Longrightarrow> bytes_sent c \<le> max_data_peer c" by (simp add: send_inv_def)

lemma inv_consume:
  assumes inv: "send_inv W c" and find: "stream_find c sid = Some s" and quiet: "quiet c c0"
    and W': "W' = W(sid := W sid @ d)" "d \<noteq> [] \<longrightarrow> \<not> unopened c sid \<and> sid < 2 ^ 62"
    and s0: "qs_id s0 = sid" "send_max_data s0 = send_max_data s" "send_offset s0 = send_offset s" "send_buf s0 = send_buf s @ d"
    and run: "consume_send_buf c0 s0 = ((c1, s1), r)" and q1: "quiet c1 c'"
    and s1: "qs_id s' = qs_id s1" "send_max_data s' = send_max_data s1" "send_offset s' = send_offset s1" "send_buf s' = send_buf s1"
  shows "send_inv W' (put_s s' c')"
proof -
  have eq: "send_core c0 = send_core c" "max_data_peer c0 = max_data_peer c" "bytes_sent c0 = bytes_sent c"
    using quiet core_eq [of c0 c] by (simp_all add: quiet_def)
  have ok: "send_ok W s" "qs_id s = sid" using inv_stream [OF inv find] by simp_all
  have "\<forall>f\<in>set (frames_out c0). carries (sent_of W c) f" using inv_carries [OF inv] quiet by (auto simp: quiet_def)
  moreover have "sent_of W c (qs_id s0) = take (send_offset s0) (W' sid)"
    using find ok s0 by (simp add: sent_of_def W' send_ok_def)
  ultimately have m: "sent_more (W' sid) (sent_of W c) c0 s0 c1 s1 \<and> send_buf s1 = drop (send_offset s1) (W' sid)"
    using inv_bytes [OF inv] ok s0 W' eq by (intro consume_spec [OF run]) (auto simp: send_ok_def)
  then have "sent_more (W' sid) (sent_of W c) c0 s0 c' s'" by (blast intro: sent_more_quiet q1 s1)
  from inv_sent [OF inv find this eq(1) s0(1-3) W'] m s1 show ?thesis by (simp add: sent_more_def)
qed

lemma write_inv:
  assumes inv: "send_inv W c" and usable: "\<not> unopened c sid" "sid < 2 ^ 62"
    and run: "quic_stream_write now sid d fin cb t c = (c', r)"
  shows "send_inv (if r = 0 then W(sid := W sid @ d) else W) c'"
proof -
  let ?refused = "case cb of None \<Rightarrow> [] | Some user \<Rightarrow> [Written sid user 0 (-1)]"
  consider (none) "stream_find c sid = None" | (over) s where "stream_find c sid = Some s" "sending_over s"
    | (high) s where "stream_find c sid = Some s" "\<not> sending_over s" "d \<noteq> [] \<and> length (send_buf s) + length d > QUIC_STREAM_SEND_HIGH_WATER"
    | (go) s where "stream_find c sid = Some s" "\<not> sending_over s" "\<not> (d \<noteq> [] \<and> length (send_buf s) + length d > QUIC_STREAM_SEND_HIGH_WATER)"
    by fastforce
  then show ?thesis
  proof cases
    case none
    then have "c' = tell ?refused c" "r = -1" using run by (simp_all add: quic_stream_write_def Let_def)
    then show ?thesis using inv_quiet [OF inv quiet_tell] by simp
  next
    case over
    then have "c' = tell ?refused c" "r = -1" using run by (simp_all add: quic_stream_write_def Let_def)
    then show ?thesis using inv_quiet [OF inv quiet_tell] by simp
  next
    case high
    then have "c' = put_s (s\<lparr>want_writable := True\<rparr>) c" "r = 1" using run by (simp_all add: quic_stream_write_def Let_def)
    then show ?thesis using send_put [OF inv high(1)] inv_stream [OF inv high(1)] by (simp add: send_ok_def)
  next
    case go
    define s1 where "s1 = (case cb of None \<Rightarrow> s | Some user \<Rightarrow>
      s\<lparr>write_reqs := req_insert \<lparr>start_offset = send_offset s + length (send_buf s), req_length = length d,
        deadline_ms = (if t \<noteq> 0 then now + t else 0), req_user = user\<rparr> (write_reqs s)\<rparr>)"
    define s3 where "s3 = (if fin then (send_buf_append d s1)\<lparr>send_buf_fin := True\<rparr> else send_buf_append d s1)"
    define s4 where "s4 = (if send_state s3 = SEND_READY then s3\<lparr>send_state := SEND_SEND\<rparr> else s3)"
    have s4: "qs_id s4 = sid" "send_max_data s4 = send_max_data s" "send_offset s4 = send_offset s" "send_buf s4 = send_buf s @ d"
      using inv_stream [OF inv go(1)] by (auto simp: s4_def s3_def s1_def send_buf_append_def split: option.splits)
    obtain c5 s5 r5 where k: "consume_send_buf c s4 = ((c5, s5), r5)" by (metis prod.exhaust)
    obtain c6 s6 where n: "maybe_notify_writable c5 s5 = (c6, s6)" by fastforce
    have "quic_stream_write now sid d fin cb t c = (case consume_send_buf c s4 of ((c5, s5), _) \<Rightarrow>
        case maybe_notify_writable c5 s5 of (c6, s6) \<Rightarrow> (put_s s6 c6, 0))"
      unfolding quic_stream_write_def Let_def s4_def s3_def s1_def by (simp only: go option.case if_False)
    then have "c' = put_s s6 c6" "r = 0" using run k n by simp_all
    then show ?thesis
      using inv_consume [OF inv go(1) quiet_refl refl _ s4 k notify_spec [OF n]] usable by simp
  qed
qed

text \<open>An empty STREAM frame at the offset, as a FIN.\<close>

lemma inv_fin_frame:
  assumes inv: "send_inv W c" and find: "stream_find c sid = Some s" and sid: "sid < 2 ^ 62"
    and f: "quic_frame_write_stream cap (u64of sid) (u64of (send_offset s)) fin [] = Some f"
    and q: "queue_frames c f = (c1, ok)"
  shows "send_inv W c1"
proof -
  have s: "send_ok W s" "qs_id s = sid" using inv_stream [OF inv find] by simp_all
  have c1: "send_core c1 = send_core c" "bytes_sent c1 = bytes_sent c" using queue_frames_core [of c f] q by simp_all
  have "sent_of W c (qs_id s) = take (send_offset s) (W sid)" using find s by (simp add: sent_of_def)
  from carries_next [where S = "sent_of W c" and n = 0, OF inv_carries [OF inv] this _ _ _ _ q] s sid f
  have "\<forall>g\<in>set (frames_out c1). carries ((sent_of W c)(sid := take (send_offset s) (W sid))) g"
    by (auto simp: send_ok_def)
  moreover have "(sent_of W c)(sid := take (send_offset s) (W sid)) = sent_of W c" using find by (auto simp: sent_of_def)
  ultimately show ?thesis using inv c1 core_eq [OF c1(1)] unfolding send_inv_def by simp
qed

definition sent_len :: "quic_ctx \<Rightarrow> nat \<Rightarrow> nat" where
  "sent_len c sid = (case stream_find c sid of None \<Rightarrow> 0 | Some s \<Rightarrow> send_offset s)"

lemma sent_len_put: "stream_find c (qs_id s) \<noteq> None \<Longrightarrow> sent_len (put_s s c) (qs_id s) = send_offset s"
  by (simp add: sent_len_def find_put_s)

lemma after_send_fields [simp]: "qs_id (after_send fin s) = qs_id s" "send_max_data (after_send fin s) = send_max_data s"
  "send_offset (after_send fin s) = send_offset s" "send_buf (after_send fin s) = send_buf s"
  by (simp_all add: after_send_def)

lemma direct_send_inv:
  assumes inv: "send_inv W c" and usable: "\<not> unopened c sid" "sid < 2 ^ 62" and empty: "quic_stream_send_pending sid c = 0"
    and run: "quic_stream_send sid d fin c = (c', r)"
  shows "send_inv (W(sid := W sid @ take (sent_len c' sid - sent_len c sid) d)) c'"
proof (cases "stream_find c sid")
  case None
  then show ?thesis using run inv by (simp add: quic_stream_send_def)
next
  case (Some s)
  have s: "send_ok W s" "qs_id s = sid" "send_buf s = []"
    using inv_stream [OF inv Some] empty Some by (simp_all add: quic_stream_send_pending_def)
  then have full: "send_offset s = length (W sid)" by (auto simp: send_ok_def)
  have same: ?thesis if "send_inv W c'" "sent_len c' sid = sent_len c sid" using that by simp
  have quiet: ?thesis if "quiet c c'"
    using inv_quiet [OF inv that] core_eq(3) [of c' c] that by (intro same) (simp_all add: sent_len_def quiet_def)
  let ?f = "quic_frame_write_stream 2048 (u64of sid) (u64of (send_offset s)) True []"
  consider (over) "c' = c" | (sfc) "c' = queue_flush c (quic_frame_write_stream_data_blocked 32 (u64of sid) (u64of (send_max_data s)))"
    | (cfc) "c' = queue_flush c (quic_frame_write_data_blocked 16 (u64of (max_data_peer c)))"
    | (fin0) f c1 ok where "?f = Some f" "queue_frames c f = (c1, ok)" "c' = c1"
    | (fin1) f c1 ok where "?f = Some f" "queue_frames c f = (c1, ok)" "c' = put_s (after_send fin s) c1"
    | (loop) c1 s1 ok where "send_loop d fin c s = ((c1, s1), ok)" "c' = put_s s1 c1 \<or> c' = put_s (after_send fin s1) c1"
    using run Some by (auto simp: quic_stream_send_def split: if_splits option.splits prod.splits)
  then show ?thesis
  proof cases
    case over
    then show ?thesis using quiet quiet_refl by simp
  next
    case sfc
    show ?thesis using quiet quiet_queue_flush [OF other_frames(5)] sfc by simp
  next
    case cfc
    show ?thesis using quiet quiet_queue_flush [OF other_frames(4)] cfc by simp
  next
    case fin0
    have "send_core c1 = send_core c" using queue_frames_core [of c f] fin0(2) by simp
    then show ?thesis using inv_fin_frame [OF inv Some usable(2) fin0(1,2)] fin0(3) core_eq(3) [of c1 c]
      by (intro same) (simp_all add: sent_len_def)
  next
    case fin1
    have "send_core c1 = send_core c" using queue_frames_core [of c f] fin1(2) by simp
    then have f1: "stream_find c1 sid = Some s" using core_eq(3) [of c1 c] Some by simp
    have "send_inv W c'"
      using send_put [OF inv_fin_frame [OF inv Some usable(2) fin1(1,2)] f1, of "after_send fin s"] s fin1(3)
      by (simp add: send_ok_def)
    moreover have "sent_len c' sid = sent_len c sid"
      using sent_len_put [of c1 "after_send fin s"] f1 s Some fin1(3) by (simp add: sent_len_def)
    ultimately show ?thesis by (rule same)
  next
    case loop
    let ?Y = "W sid @ d"
    have S: "sent_of W c (qs_id s) = take (send_offset s) ?Y" using Some s by (simp add: sent_of_def full)
    have m: "sent_more ?Y (sent_of W c) c s c1 s1 \<and> send_buf s1 = send_buf s"
      using s S inv_carries [OF inv] inv_bytes [OF inv] usable(2) by (intro send_loop_spec [OF loop(1)]) (auto simp: full send_ok_def)
    obtain s2 where s2: "c' = put_s s2 c1" "qs_id s2 = qs_id s1" "send_max_data s2 = send_max_data s1"
      "send_offset s2 = send_offset s1" "send_buf s2 = send_buf s1" using loop(2) by fastforce
    have m2: "sent_more ?Y (sent_of W c) c s c1 s2" using m s2 by (blast intro: sent_more_quiet quiet_refl)
    have "stream_find c1 (qs_id s2) = Some s"
      using m2 core_eq(3) [of c1 c] Some s by (simp add: sent_more_def)
    then have len: "sent_len c' sid = send_offset s2" "sent_len c sid = send_offset s"
      using sent_len_put [of c1 s2] s2 m s Some by (simp_all add: sent_more_def sent_len_def)
    let ?k = "send_offset s2 - send_offset s"
    have k: "send_offset s2 = length (W sid) + ?k" "?k \<le> length d" using m2 full by (auto simp: sent_more_def)
    show ?thesis
      unfolding len unfolding s2(1)
      by (rule inv_sent [OF inv Some m2 refl s(2) refl refl refl]) (use usable k m s2 s in \<open>auto simp: take_append\<close>)
  qed
qed

lemma quiet_fields [quiet_intros]:
  "quiet c (c\<lparr>bytes_recvd := n\<rparr>)" "quiet c (c\<lparr>max_data_local := n\<rparr>)" "quiet c (c\<lparr>max_streams_bidi_local := n\<rparr>)"
  "quiet c (c\<lparr>max_streams_uni_local := n\<rparr>)" "quiet c (c\<lparr>max_streams_bidi_peer := n\<rparr>)" "quiet c (c\<lparr>max_streams_uni_peer := n\<rparr>)"
  "quiet c (c\<lparr>peer_bidi_opened := n\<rparr>)" "quiet c (c\<lparr>peer_uni_opened := n\<rparr>)" "quiet c (c\<lparr>next_local_bidi_id := n\<rparr>)"
  "quiet c (c\<lparr>may_send := bs\<rparr>)"
  by (simp_all add: quiet_def send_core_def frames_out_def)

lemma quiet_queue_after: "quiet a c \<Longrightarrow> \<forall>b\<in>set_option f. \<forall>S. carries S b \<Longrightarrow> quiet a (queue c f)"
  by (blast intro: quiet_trans quiet_queue)

lemma quiet_grant: "quiet c (quic_stream_grant_credit bidi c)"
  by (auto simp: quic_stream_grant_credit_def Let_def intro!: quiet_queue_after other_frames intro: quiet_intros)

lemma quiet_note: "quiet c (quic_stream_note_peer_stream sid c)"
  by (auto simp: quic_stream_note_peer_stream_def Let_def intro: quiet_intros quiet_trans [OF _ quiet_grant])

lemma open_inv:
  assumes "send_inv W c"
  shows "send_inv W (fst (quic_stream_open c))"
proof (cases "next_local_bidi_id c div 4 \<ge> max_streams_bidi_peer c \<and> max_streams_bidi_peer c > 0")
  case True
  then show ?thesis
    using inv_quiet [OF assms quiet_queue [OF other_frames(6)]] by (simp add: quic_stream_open_def Let_def)
next
  case False
  let ?sid = "next_local_bidi_id c" and ?c = "c\<lparr>next_local_bidi_id := next_local_bidi_id c + 4\<rparr>"
  obtain c1 s where cr: "stream_find_or_create ?c ?sid = (c1, s)" by fastforce
  note i = inv_create [OF inv_quiet [OF assms quiet_fields(9)] cr]
  have "send_inv W (put_s (s\<lparr>send_state := SEND_SEND\<rparr>) c1)"
    using send_put [OF i, of "s\<lparr>send_state := SEND_SEND\<rparr>"] inv_stream [OF i] by (simp add: send_ok_def)
  then show ?thesis using False cr by (auto simp: quic_stream_open_def Let_def)
qed

lemma open_uni_inv:
  assumes inv: "send_inv W c"
  shows "send_inv W (fst (quic_stream_open_uni c))"
proof (cases "next_local_uni_id c div 4 \<ge> max_streams_uni_peer c \<and> max_streams_uni_peer c > 0")
  case True
  then show ?thesis
    using inv_quiet [OF inv quiet_queue [OF other_frames(6)]] by (simp add: quic_stream_open_uni_def Let_def)
next
  case False
  let ?sid = "next_local_uni_id c" and ?c = "c\<lparr>next_local_uni_id := next_local_uni_id c + 4\<rparr>"
  have "sent_of W ?c = sent_of W c" by (simp add: sent_of_def stream_find_def fun_eq_iff)
  then have "send_inv W ?c"
    using inv by (auto simp: send_inv_def unopened_def credit_ok_def frames_out_def stream_find_def)
  moreover obtain c1 s where cr: "stream_find_or_create ?c ?sid = (c1, s)" by fastforce
  ultimately have i: "send_inv W c1" "stream_find c1 ?sid = Some s" using inv_create by blast+
  define s' where "s' = s\<lparr>send_state := SEND_SEND, recv_state := RECV_RESET_RECVD, recv_max_data := 0,
    send_max_data := peer_send_credit c1 ?sid\<rparr>"
  have W: "W ?sid = []" using inv by (simp add: send_inv_def unopened_def)
  note s = inv_stream [OF i]
  have "credit_ok c1" using i(1) by (simp add: send_inv_def)
  then have ok: "send_ok W s'" using s W peer_send_credit_ok [of c1] by (auto simp: send_ok_def s'_def)
  have "send_inv W (put_s s' c1)"
  proof (rule inv_update [OF i _ refl, where d = "[]"])
    show "\<forall>f\<in>set (frames_out c1). carries ((sent_of W c1)(?sid := take (send_offset s') (W ?sid))) f"
      using carries_sent [OF i, of "send_offset s" _ "[]"] W by (simp add: s'_def)
  qed (use s ok inv_bytes [OF i(1)] in \<open>simp_all add: s'_def\<close>)
  then show ?thesis using False cr by (auto simp: quic_stream_open_uni_def Let_def s'_def)
qed

lemma inv_put_same:
  assumes "send_inv W c" "stream_find c sid = Some s" "qs_id s' = qs_id s" "send_offset s' = send_offset s"
    "send_buf s' = send_buf s" "send_max_data s' = send_max_data s"
  shows "send_inv W (put_s s' c)"
  using send_put [OF assms(1,2)] inv_stream [OF assms(1,2)] assms(3-6) by (simp add: send_ok_def)

lemma close_send_inv:
  assumes inv: "send_inv W c" and sid: "sid < 2 ^ 62"
  shows "send_inv W (quic_stream_close_send sid c)"
proof (cases "stream_find c sid")
  case (Some s)
  let ?f = "quic_frame_write_stream 32 (u64of sid) (u64of (send_offset s)) True []"
  have q: "send_inv W (queue_flush c ?f) \<and> send_core (queue_flush c ?f) = send_core c"
    using inv_fin_frame [OF inv Some sid] queue_frames_core inv
    by (auto simp: queue_flush_def split: option.splits intro!: inv_quiet [OF _ quiet_flush_packet])
       (metis prod.collapse)
  then have "stream_find (queue_flush c ?f) sid = Some s" using core_eq(3) Some by metis
  with q have "send_inv W (put_s (s\<lparr>send_state := SEND_DATA_SENT\<rparr>) (queue_flush c ?f))"
    by (intro inv_put_same [where s = s and sid = sid]) simp_all
  then show ?thesis using inv Some by (simp add: quic_stream_close_send_def)
qed (use inv in \<open>simp add: quic_stream_close_send_def\<close>)

lemma quiet_queue_frames_flush: "\<forall>S. carries S f \<Longrightarrow> quiet c (flush_packet (fst (queue_frames c f)))"
  by (auto simp: quiet_def queue_frames_out)

lemma inv_quiet_put:
  assumes "send_inv W c" "stream_find c sid = Some s" "quiet c c'" "qs_id s' = qs_id s" "send_offset s' = send_offset s"
    "send_buf s' = send_buf s" "send_max_data s' = send_max_data s"
  shows "send_inv W (put_s s' c')"
proof (rule inv_put_same [OF inv_quiet [OF assms(1,3)] _ assms(4-7)])
  show "stream_find c' sid = Some s" using core_eq(3) [of c' c] assms(2,3) by (simp add: quiet_def)
qed

lemma reset_inv:
  assumes inv: "send_inv W c"
  shows "send_inv W (fst (quic_stream_reset sid e c))"
proof (cases "stream_find c sid")
  case (Some s)
  show ?thesis
  proof (cases "quic_frame_write_reset_stream 64 (u64of sid) (u64of e) (u64of (send_offset s))")
    case (Some f)
    have "\<forall>S. carries S f" using other_frames(7) [of 64 "u64of sid" "u64of e" "u64of (send_offset s)"] Some by simp
    from inv_quiet [OF inv_quiet_put [OF inv \<open>stream_find c sid = Some s\<close> quiet_queue_frames_flush [OF this]] quiet_tell]
    show ?thesis using Some \<open>stream_find c sid = Some s\<close> by (simp add: quic_stream_reset_def req_fail_all_def)
  qed (use inv Some in \<open>simp add: quic_stream_reset_def\<close>)
qed (use inv in \<open>simp add: quic_stream_reset_def\<close>)

lemma stop_sending_inv:
  assumes inv: "send_inv W c"
  shows "send_inv W (fst (quic_stream_stop_sending sid e c))"
proof (cases "stream_find c sid")
  case (Some s)
  show ?thesis
  proof (cases "quic_frame_write_stop_sending 64 (u64of sid) (u64of e)")
    case (Some f)
    have "\<forall>S. carries S f" using other_frames(8) [of 64 "u64of sid" "u64of e"] Some by simp
    from inv_quiet_put [OF inv \<open>stream_find c sid = Some s\<close> quiet_queue_frames_flush [OF this]]
    show ?thesis using Some \<open>stream_find c sid = Some s\<close> by (simp add: quic_stream_stop_sending_def)
  qed (use inv Some in \<open>simp add: quic_stream_stop_sending_def\<close>)
qed (use inv in \<open>simp add: quic_stream_stop_sending_def\<close>)

definition same_send :: "quic_stream \<Rightarrow> quic_stream \<Rightarrow> bool" where
  "same_send s s' \<longleftrightarrow> qs_id s' = qs_id s \<and> send_offset s' = send_offset s \<and> send_buf s' = send_buf s \<and> send_max_data s' = send_max_data s"

lemma same_send_refl [simp]: "same_send s s" by (simp add: same_send_def)

lemma same_send_trans: "same_send a b \<Longrightarrow> same_send b c \<Longrightarrow> same_send a c" by (simp add: same_send_def)

lemma drain_send: "drain gs c s = (c', s') \<Longrightarrow> quiet c c' \<and> same_send s s'"
proof (induction gs c s rule: drain.induct)
  case (1 c s)
  then show ?case by (auto simp: same_send_def intro: quiet_refl)
next
  case (2 g gs c s)
  let ?e = "fst g + snd g"
  consider "recv_offset s < fst g" | "fst g \<le> recv_offset s" "?e \<le> recv_offset s" | "fst g \<le> recv_offset s" "recv_offset s < ?e"
    by linarith
  then show ?case
  proof cases
    case 1
    then show ?thesis using "2.prems" by (auto simp: same_send_def intro: quiet_refl)
  next
    case 2
    then have "drain gs c s = (c', s')" using "2.prems" by (simp add: Let_def)
    then show ?thesis using "2.IH"(2) [OF 2(1) refl refl] 2(2) by simp
  next
    case 3
    let ?c = "tell (case recv_buf s of None \<Rightarrow> [] | Some m \<Rightarrow> [StreamData (qs_id s) (read_mem m (recv_offset s) (?e - recv_offset s)) False])
      (c\<lparr>bytes_recvd := bytes_recvd c + (?e - recv_offset s)\<rparr>)"
    have "drain gs ?c (s\<lparr>recv_offset := ?e\<rparr>) = (c', s')" using "2.prems" 3 by (simp add: Let_def)
    from "2.IH"(1) [OF 3(1) refl refl 3(2) this] have "quiet ?c c'" "same_send s s'" by (simp_all add: same_send_def)
    then show ?thesis using quiet_trans [OF quiet_trans [OF quiet_fields(1) quiet_tell]] by blast
  qed
qed

lemma fc_update_send: "stream_fc_update c s = (c', s') \<Longrightarrow> quiet c c' \<and> same_send s s'"
  by (auto simp: stream_fc_update_def Let_def same_send_def split: if_splits
      intro!: quiet_queue_after other_frames intro: quiet_intros)

lemma store_ahead_send: "store_ahead off d c s = (c', s') \<Longrightarrow> quiet c c' \<and> same_send s s'"
  by (auto simp: store_ahead_def Let_def same_send_def intro: quiet_intros)

lemma take_in_order_send: "take_in_order off d c s = (c', s') \<Longrightarrow> quiet c c' \<and> same_send s s'"
proof -
  assume t: "take_in_order off d c s = (c', s')"
  let ?c = "tell [StreamData (qs_id s) (drop (recv_offset s - off) d) False] (c\<lparr>bytes_recvd := bytes_recvd c + (off + length d - recv_offset s)\<rparr>)"
  have q: "quiet c ?c" by (rule quiet_trans [OF quiet_fields(1) quiet_tell])
  show ?thesis
  proof (cases "off + length d > recv_offset s")
    case True
    then have "drain (gaps s) ?c (s\<lparr>recv_offset := off + length d\<rparr>) = (c', s')"
      using t by (simp add: take_in_order_def gap_drain_def Let_def)
    from drain_send [OF this] q show ?thesis by (auto simp: same_send_def intro: quiet_trans)
  qed (use t in \<open>auto simp: take_in_order_def intro: quiet_refl\<close>)
qed

lemma end_of_stream_send: "end_of_stream c s = (c', s') \<Longrightarrow> quiet c c' \<and> same_send s s'"
  by (auto simp: end_of_stream_def same_send_def intro: quiet_intros split: if_splits)

lemma recv_inv:
  assumes "send_inv W c"
  shows "send_inv W (fst (quic_stream_on_recv sid off fin d c))"
proof -
  obtain c1 s where cr: "stream_find_or_create c sid = (c1, s)" by fastforce
  note i = inv_create [OF assms cr]
  define c2 where "c2 = (if stream_find c sid = None then quic_stream_note_peer_stream sid c1 else c1)"
  have q2: "quiet c1 c2" by (simp add: c2_def quiet_note quiet_refl)
  define s1 where "s1 = (if fin then s\<lparr>fin_recvd := True, final_size := off + length d\<rparr> else s)"
  have s1: "same_send s s1" by (simp add: s1_def same_send_def)
  obtain c3 s3 where st: "(if off > recv_offset s1 then store_ahead off d c2 s1 else take_in_order off d c2 s1) = (c3, s3)" by fastforce
  obtain c4 s4 where up: "stream_fc_update c3 s3 = (c4, s4)" by fastforce
  obtain c5 s5 where en: "(if off > recv_offset s1 then (c4, s4) else end_of_stream c4 s4) = (c5, s5)" by fastforce
  have e: "fst (quic_stream_on_recv sid off fin d c) = (if off + length d > recv_max_data s then c2 else flush_packet (put_s s5 c5))"
    using cr st up en by (simp add: quic_stream_on_recv_def Let_def c2_def [symmetric] s1_def [symmetric] split: if_splits)
  have "quiet c2 c3 \<and> same_send s1 s3" using st store_ahead_send take_in_order_send by (metis (full_types))
  moreover have "quiet c3 c4 \<and> same_send s3 s4" using fc_update_send [OF up] .
  moreover have "quiet c4 c5 \<and> same_send s4 s5" using en end_of_stream_send by (auto split: if_splits intro: quiet_refl)
  ultimately have "quiet c1 c5" "same_send s s5" using q2 s1 by (blast intro: quiet_trans same_send_trans)+
  then have "send_inv W (put_s s5 c5)" by (intro inv_quiet_put [OF i]) (simp_all add: same_send_def)
  then show ?thesis using e inv_quiet [OF i(1) q2] inv_quiet [OF _ quiet_flush_packet] by simp
qed

lemma expire_flush_inv:
  assumes inv: "send_inv W c"
  shows "send_inv W (flush_stream now sid c)"
proof (cases "stream_find c sid")
  case (Some s)
  note s = inv_stream [OF inv Some]
  obtain rs es where ex: "expire now (qs_id s) (write_reqs s) = (rs, es)" by fastforce
  define s1 where "s1 = s\<lparr>write_reqs := rs\<rparr>"
  obtain c2 s2 where mid: "(if send_buf s1 \<noteq> [] then fst (consume_send_buf (tell es c) s1) else maybe_notify_writable (tell es c) s1) = (c2, s2)"
    by fastforce
  obtain rs2 es2 where fi: "req_fire_completed (qs_id s2) (send_offset s2) (write_reqs s2) = (rs2, es2)" by fastforce
  obtain c3 s3 where no: "maybe_notify_writable (tell es2 c2) (s2\<lparr>write_reqs := rs2\<rparr>) = (c3, s3)" by fastforce
  have r: "flush_stream now sid c = put_s s3 c3"
    using Some by (simp only: flush_stream_def flush_one_def ex prod.case Let_def s1_def [symmetric] mid fi no option.case)
  note n = notify_spec [OF no]
  have q: "quiet c2 c3" using quiet_trans [OF quiet_tell n(1)] .
  show ?thesis
  proof (cases "send_buf s1 = []")
    case True
    then have "maybe_notify_writable (tell es c) s1 = (c2, s2)" using mid by simp
    note m = notify_spec [OF this]
    have "quiet c c3" using quiet_trans [OF quiet_trans [OF quiet_tell m(1)] q] .
    then show ?thesis unfolding r using n m by (intro inv_quiet_put [OF inv Some]) (simp_all add: s1_def)
  next
    case False
    obtain k where "consume_send_buf (tell es c) s1 = ((c2, s2), k)" using mid False by (metis prod.collapse fst_conv)
    from inv_consume [OF inv Some quiet_tell, of W "[]" s1 es, OF _ _ _ _ _ _ this q] n s
    show ?thesis unfolding r by (simp add: s1_def)
  qed
qed (use inv in \<open>simp add: flush_stream_def\<close>)

lemma flush_inv: "send_inv W c \<Longrightarrow> send_inv W (quic_stream_flush_pending now c)"
proof -
  have "send_inv W c \<Longrightarrow> send_inv W (foldl (\<lambda>c sid. flush_stream now sid c) c sids)" for sids
    by (induction sids arbitrary: c) (simp_all add: expire_flush_inv)
  then show "send_inv W c \<Longrightarrow> send_inv W (quic_stream_flush_pending now c)" by (simp add: quic_stream_flush_pending_def)
qed

lemma max_data_inv: "send_inv W c \<Longrightarrow> send_inv W (quic_stream_on_max_data m c)"
proof -
  have "sent_of W (c\<lparr>max_data_peer := m\<rparr>) = sent_of W c" by (simp add: sent_of_def stream_find_def fun_eq_iff)
  then show "send_inv W c \<Longrightarrow> send_inv W (quic_stream_on_max_data m c)"
    by (auto simp: quic_stream_on_max_data_def send_inv_def credit_ok_def unopened_def frames_out_def stream_find_def)
qed

lemma max_stream_data_inv:
  assumes "send_inv W c" "m < 2 ^ 62"
  shows "send_inv W (quic_stream_on_max_stream_data sid m c)"
proof -
  obtain c1 s where cr: "stream_find_or_create c sid = (c1, s)" by fastforce
  note i = inv_create [OF assms(1) cr]
  show ?thesis
    using send_put [OF i, of "s\<lparr>send_max_data := m\<rparr>"] inv_stream [OF i] i(1) assms(2) cr
    by (auto simp: quic_stream_on_max_stream_data_def)
qed

lemma apply_credit_inv:
  assumes "send_inv W c"
  shows "send_inv W (quic_stream_apply_init_send_credit c)"
proof -
  let ?up = "\<lambda>s. let lim = peer_send_credit c (qs_id s) in if lim > send_max_data s then s\<lparr>send_max_data := lim\<rparr> else s"
  let ?c = "quic_stream_apply_init_send_credit c"
  have c: "?c = c\<lparr>qstreams := map ?up (qstreams c)\<rparr>" by (simp add: quic_stream_apply_init_send_credit_def)
  have "find (\<lambda>s. qs_id s = sid) (map ?up ss) = map_option ?up (find (\<lambda>s. qs_id s = sid) ss)" for sid ss
    by (induction ss) (auto simp: Let_def)
  then have f: "stream_find ?c sid = map_option ?up (stream_find c sid)" for sid by (simp add: stream_find_def c)
  have "send_ok W (?up s)" if "send_ok W s" for s
    using that peer_send_credit_ok [of c] assms by (auto simp: send_ok_def Let_def send_inv_def)
  moreover have "sent_of W ?c = sent_of W c" by (auto simp: sent_of_def f fun_eq_iff Let_def split: option.splits)
  moreover have "frames_out ?c = frames_out c" "unopened ?c = unopened c" "credit_ok ?c = credit_ok c" "bytes_sent ?c = bytes_sent c"
    "max_data_peer ?c = max_data_peer c"
    by (simp_all add: c frames_out_def unopened_def credit_ok_def fun_eq_iff)
  moreover have "\<forall>s\<in>set (qstreams ?c). send_ok W s" using calculation(1) assms by (auto simp: c send_inv_def)
  ultimately show ?thesis using assms by (simp add: send_inv_def f)
qed

lemma get_varint_bound:
  assumes "get_varint d = Some (v, r)"
  shows "unat v < 2 ^ 62"
proof -
  obtain m where r: "quic_varint_decode d = Some (v, m)" using assms by (auto simp: get_varint_def)
  then obtain first rest where dd: "d = first # rest" by (cases d) (simp_all add: quic_varint_decode_def)
  define n :: nat where "n = 2 ^ unat (drop_bit 6 first AND 0x3)"
  note d = r [unfolded dd quic_varint_decode_def list.case Let_def, folded n_def]
  have v: "v = word_of_nat (be_val ((if n = 1 then first else first AND 0x3F) # take (n - 1) rest))"
    using d by (metis option.distinct(1) option.inject prod.inject)
  have "drop_bit 6 first AND (0x3 :: byte) \<le> 0x3" by (rule word_and_le1)
  then have "unat (drop_bit 6 first AND (0x3 :: byte)) \<le> 3" by (simp only: word_le_nat_alt) simp
  then have n: "n \<le> 2 ^ 3" unfolding n_def by (intro power_increasing) simp_all
  let ?t = "take (n - 1) rest"
  have t: "be_val ?t < 256 ^ length ?t" "length ?t \<le> 7" using be_val_less [of ?t] n by simp_all
  have "be_val ((if n = 1 then first else first AND 0x3F) # ?t) < 2 ^ 62"
  proof (cases "n = 1")
    case True
    have "be_val [first] < 256 ^ length [first]" by (rule be_val_less)
    also have "\<dots> \<le> 2 ^ 62" by simp
    finally show ?thesis using True by simp
  next
    case False
    have "first AND (0x3F :: byte) \<le> 0x3F" by (rule word_and_le1)
    then have "unat (first AND (0x3F :: byte)) \<le> 63" by (simp only: word_le_nat_alt) simp
    then have "unat (first AND 0x3F) * 256 ^ length ?t + be_val ?t < 64 * 256 ^ length ?t"
      using t(1) mult_right_mono [of "unat (first AND 0x3F)" 63 "256 ^ length ?t"] by linarith
    also have "\<dots> \<le> 64 * 256 ^ 7" using t(2) by (intro mult_left_mono power_increasing) simp_all
    finally show ?thesis using False by simp
  qed
  moreover have "unat (word_of_nat k :: u64) = k" if "k < 2 ^ 62" for k using that by (simp add: unat_of_nat)
  ultimately show ?thesis unfolding v by metis
qed

lemma set_param_inv: "send_inv W c \<Longrightarrow> bytes_sent c = 0 \<Longrightarrow> send_inv W (set_param i d c) \<and> bytes_sent (set_param i d c) = 0"
proof -
  have "sent_of W (set_param i d c) = sent_of W c"
    by (simp add: sent_of_def stream_find_def fun_eq_iff set_param_def Let_def split: option.splits)
  moreover have "qstreams (set_param i d c) = qstreams c \<and> frames_out (set_param i d c) = frames_out c
      \<and> bytes_sent (set_param i d c) = bytes_sent c \<and> unopened (set_param i d c) = unopened c"
    by (auto simp: frames_out_def set_param_def unopened_def fun_eq_iff Let_def split: option.splits)
  moreover have "credit_ok c \<Longrightarrow> credit_ok (set_param i d c)"
    using get_varint_bound [of d] by (auto simp: credit_ok_def set_param_def Let_def split: option.splits)
  ultimately show "send_inv W c \<Longrightarrow> bytes_sent c = 0 \<Longrightarrow> ?thesis" by (simp add: send_inv_def stream_find_def)
qed

lemma params_inv: "send_inv W c \<Longrightarrow> bytes_sent c = 0 \<Longrightarrow> send_inv W (got_transport_params p c)"
proof -
  have "send_inv W c \<Longrightarrow> bytes_sent c = 0 \<Longrightarrow> send_inv W (transport_params p c)"
  proof (induction p c rule: transport_params.induct)
    case (1 p c)
    then show ?case
      by (subst transport_params.simps) (auto simp: set_param_inv split: option.splits)
  qed
  then show "send_inv W c \<Longrightarrow> bytes_sent c = 0 \<Longrightarrow> ?thesis" by (simp add: got_transport_params_def apply_credit_inv)
qed

section \<open>Packets of the peer\<close>

lemma on_reset_inv:
  assumes "send_inv W c"
  shows "send_inv W (quic_stream_on_reset sid fs e c)"
proof (cases "stream_find c sid")
  case None
  then show ?thesis using inv_quiet [OF assms quiet_tell] by (simp add: quic_stream_on_reset_def Let_def)
next
  case (Some s)
  show ?thesis
    using inv_quiet_put [OF assms Some quiet_tell, of "s\<lparr>recv_state := RECV_RESET_RECVD, recv_offset := fs, recv_buf := None\<rparr>"] Some
    by (simp add: quic_stream_on_reset_def Let_def)
qed

lemma on_stop_sending_inv: "send_inv W c \<Longrightarrow> send_inv W (quic_stream_on_stop_sending sid c)"
  by (simp add: quic_stream_on_stop_sending_def reset_inv split: option.splits)

lemma on_max_streams_inv: "send_inv W c \<Longrightarrow> send_inv W (quic_stream_on_max_streams m bidi c)"
  by (simp add: quic_stream_on_max_streams_def inv_quiet [OF _ quiet_fields(5)] inv_quiet [OF _ quiet_fields(6)])

text \<open>The limits of a MAX_STREAM_DATA frame come from a 62-bit integer.\<close>

lemma next_frame_bound:
  "next_frame p = Some (fs, d) \<Longrightarrow> MaxStreamData sid m \<in> set fs \<Longrightarrow> unat m < 2 ^ 62"
  by (auto simp: next_frame_def Let_def took_def quic_frame_parse_max_stream_data_def get_two_def bind_eq_Some_conv
      split: if_splits option.splits dest: get_varint_bound)

lemma frames_of_bound: "MaxStreamData sid m \<in> set (frames_of p) \<Longrightarrow> unat m < 2 ^ 62"
proof (induction p rule: frames_of.induct)
  case (1 p)
  have "p \<noteq> []" using "1.prems" by auto
  moreover have "next_frame p \<noteq> None"
  proof
    assume "next_frame p = None"
    then have "frames_of p = []" by (simp add: frames_of.simps [of p])
    with "1.prems" show False by simp
  qed
  ultimately obtain fs d where n: "p \<noteq> []" "next_frame p = Some (fs, d)" by force
  have "MaxStreamData sid m \<in> set fs \<or> MaxStreamData sid m \<in> set (frames_of d)"
    using "1.prems" frames_of_step [OF n(2,1)] by simp
  with "1.IH" [OF n(1,2) refl] next_frame_bound [OF n(2)] show ?case by blast
qed

lemma frame_inv:
  assumes "send_inv W c" "\<And>sid m. f = MaxStreamData sid m \<Longrightarrow> unat m < 2 ^ 62"
  shows "send_inv W (handle_frame now f c)"
  using assms
  by (cases f) (simp_all add: handle_frame_def flush_inv recv_inv max_data_inv max_stream_data_inv on_reset_inv
      on_stop_sending_inv on_max_streams_inv quic_stream_on_streams_blocked_def inv_quiet [OF _ quiet_grant])

lemma payload_inv:
  assumes "send_inv W c"
  shows "send_inv W (handle_payload now p c)"
proof -
  have "send_inv W c \<Longrightarrow> (\<forall>sid m. MaxStreamData sid m \<in> set fs \<longrightarrow> unat m < 2 ^ 62) \<Longrightarrow>
    send_inv W (foldl (\<lambda>c f. handle_frame now f c) c fs)" for fs
  proof (induction fs arbitrary: c)
    case (Cons f fs)
    have "send_inv W (handle_frame now f c)" using Cons.prems by (intro frame_inv) auto
    with Cons.IH Cons.prems(2) show ?case by simp
  qed simp
  then show ?thesis using assms frames_of_bound unfolding handle_payload_def by blast
qed

section \<open>Any run of a connection\<close>

text \<open>
  \<open>sends c W\<close>: the connection is in state \<open>c\<close> and the application has written \<open>W sid\<close> to each stream. Writing is to streams that
  are open (not to a local unidirectional stream before \<open>quic_stream_open_uni\<close> returned it); the direct path \<open>quic_stream_send\<close> is
  used when nothing waits in the send buffer, as the octets would overtake what waits. Any packet of the peer may come at any time,
  and congestion control and pacing may answer anything.
\<close>

inductive sends :: "quic_ctx \<Rightarrow> (nat \<Rightarrow> octets) \<Rightarrow> bool" where
  start: "qstreams c = [] \<Longrightarrow> bytes_sent c = 0 \<Longrightarrow> sent_packets c = [] \<Longrightarrow> pkt_payload c = [] \<Longrightarrow> credit_ok c \<Longrightarrow> sends c (\<lambda>_. [])"
| params: "sends c W \<Longrightarrow> bytes_sent c = 0 \<Longrightarrow> sends (got_transport_params p c) W"
| handshake: "sends c W \<Longrightarrow> sends (quic_stream_handshake_done c) W"
| written: "sends c W \<Longrightarrow> \<not> unopened c sid \<Longrightarrow> sid < 2 ^ 62 \<Longrightarrow> quic_stream_write now sid d fin cb t c = (c', r) \<Longrightarrow>
    sends c' (if r = 0 then W(sid := W sid @ d) else W)"
| send: "sends c W \<Longrightarrow> \<not> unopened c sid \<Longrightarrow> sid < 2 ^ 62 \<Longrightarrow> quic_stream_send_pending sid c = 0 \<Longrightarrow>
    quic_stream_send sid d fin c = (c', r) \<Longrightarrow> sends c' (W(sid := W sid @ take (sent_len c' sid - sent_len c sid) d))"
| open_bidi: "sends c W \<Longrightarrow> sends (fst (quic_stream_open c)) W"
| open_uni: "sends c W \<Longrightarrow> sends (fst (quic_stream_open_uni c)) W"
| close_send: "sends c W \<Longrightarrow> sid < 2 ^ 62 \<Longrightarrow> sends (quic_stream_close_send sid c) W"
| reset: "sends c W \<Longrightarrow> sends (fst (quic_stream_reset sid e c)) W"
| stop_sending: "sends c W \<Longrightarrow> sends (fst (quic_stream_stop_sending sid e c)) W"
| on_writable: "sends c W \<Longrightarrow> sends (fst (quic_stream_set_on_writable sid b c)) W"
| packet: "sends c W \<Longrightarrow> sends (handle_payload now p c) W"
| retry: "sends c W \<Longrightarrow> sends (quic_stream_flush_pending now c) W"
| flush: "sends c W \<Longrightarrow> sends (flush_packet c) W"
| answers: "sends c W \<Longrightarrow> sends (c\<lparr>may_send := bs\<rparr>) W"

lemma handshake_inv: "send_inv W c \<Longrightarrow> send_inv W (quic_stream_handshake_done c)"
  unfolding quic_stream_handshake_done_def
  by (erule inv_quiet) (intro quiet_queue_after quiet_fields(2) other_frames)

lemma on_writable_inv:
  assumes "send_inv W c"
  shows "send_inv W (fst (quic_stream_set_on_writable sid b c))"
  using assms inv_put_same [OF assms] by (auto simp: quic_stream_set_on_writable_def split: option.splits)

lemma sends_inv: "sends c W \<Longrightarrow> send_inv W c"
proof (induction rule: sends.induct)
  case (start c)
  then show ?case by (simp add: send_inv_def frames_out_def)
next
  case (written c W sid now d fin cb t c' r)
  then show ?case using write_inv by blast
next
  case (send c W sid d fin c' r)
  then show ?case using direct_send_inv by blast
qed (simp_all add: params_inv handshake_inv open_inv open_uni_inv close_send_inv reset_inv stop_sending_inv on_writable_inv
    payload_inv flush_inv inv_quiet [OF _ quiet_flush_packet] inv_quiet [OF _ quiet_fields(10)])

section \<open>What a run guarantees\<close>

lemma frames_of_carried: "\<forall>b\<in>set p. carries S b \<Longrightarrow> \<forall>f\<in>set (frames_of (concat p)). stream_data_in S f"
proof (induction p)
  case (Cons b p)
  then obtain f where "b \<noteq> []" "next_frame (b @ concat p) = Some ([f], concat p)" "stream_data_in S f"
    by (auto simp: carries_def)
  with Cons frames_of_step [of "b @ concat p" "[f]" "concat p"] show ?case by simp
qed simp

lemma sent_of_len: "send_inv W c \<Longrightarrow> length (sent_of W c sid) = sent_len c sid"
  using inv_stream [of W c sid] by (auto simp: sent_of_def sent_len_def send_ok_def split: option.splits)

lemma sent_of_prefix: "\<exists>z. W sid = sent_of W c sid @ z \<or> sent_of W c sid = []"
proof (cases "stream_find c sid")
  case (Some s)
  then have "W sid = sent_of W c sid @ drop (send_offset s) (W sid)" by (simp add: sent_of_def)
  then show ?thesis by blast
qed (simp add: sent_of_def)

lemma packet_data:
  assumes "send_inv W c" "p \<in> set (sent_packets c)" "StreamFrame sid off fin d \<in> set (frames_of (concat p))"
  shows "stream_data_in (sent_of W c) (StreamFrame sid off fin d)"
proof -
  have "\<forall>b\<in>set p. carries (sent_of W c) b" using assms(1,2) by (auto simp: send_inv_def frames_out_def)
  from frames_of_carried [OF this] assms(3) show ?thesis by blast
qed

text \<open>
  C5. Flow control, after any run: no more has been sent in total than the peer's MAX_DATA, on no stream more than its
  limit, and no STREAM frame of any packet goes past what the stream has counted.
\<close>

theorem flow_control_respected:
  assumes "sends c W"
  shows "bytes_sent c \<le> max_data_peer c \<and> (\<forall>s\<in>set (qstreams c). send_offset s \<le> send_max_data s)
    \<and> (\<forall>p\<in>set (sent_packets c). \<forall>sid off fin d. StreamFrame sid off fin d \<in> set (frames_of (concat p)) \<longrightarrow>
         unat off + length d \<le> sent_len c (unat sid))"
proof -
  note inv = sends_inv [OF assms]
  have "unat off + length d \<le> sent_len c (unat sid)"
    if "p \<in> set (sent_packets c)" "StreamFrame sid off fin d \<in> set (frames_of (concat p))" for p sid off fin d
    using packet_data [OF inv that] sent_of_len [OF inv, of "unat sid"] by simp
  then show ?thesis using inv by (auto simp: send_inv_def send_ok_def)
qed

definition example_sender :: quic_ctx where
  "example_sender = flush_packet (fst (quic_stream_write 0 1 [7] False None 0 (fst (quic_stream_open (example_ctx\<lparr>may_send := [True, True]\<rparr>)))))"

lemma short_ml_enc: "(n :: u64) \<le> 63 \<Longrightarrow> ml_enc n = [ucast n]"
  by (simp add: ml_enc_def quic_varint_encode_Some quic_varint_len_def unsigned_ucast_eq)

lemmas run_simps = quic_stream_write_def quic_stream_open_def Let_def example_ctx_def stream_find_or_create_def
  stream_find_def put_s_def new_stream_def sending_over_def send_buf_append_def consume_send_buf.simps stream_room_def
  conn_room_def chunk_size_def quic_frame_write_stream_def put_def u64of_def short_ml_enc length_of_def maybe_notify_writable_def
  queue_frames_def payload_len_def flush_packet_def ask_def peer_send_credit_def MAX_PAYLOAD_CHUNK_def QUIC_MAX_PAYLOAD_LEN_def
  QUIC_STREAM_SEND_HIGH_WATER_def

lemma example_sent: "sent_packets example_sender = [[[0x0e, 1, 0, 1, 7]]]"
  by (simp add: example_sender_def run_simps)

lemma example_sends: "sends example_sender ((\<lambda>_. [])(1 := [7]))"
proof -
  let ?c = "fst (quic_stream_open (example_ctx\<lparr>may_send := [True, True]\<rparr>))"
  obtain c' r where w: "quic_stream_write 0 1 [7] False None 0 ?c = (c', r)" by fastforce
  have "snd (quic_stream_write 0 1 [7] False None 0 ?c) = 0" by (simp add: run_simps)
  then have r: "r = 0" using w by simp
  have "sends (example_ctx\<lparr>may_send := [True, True]\<rparr>) (\<lambda>_. [])" by (rule sends.start) (simp_all add: example_ctx_def credit_ok_def)
  from sends.open_bidi [OF this] have c: "sends ?c (\<lambda>_. [])" .
  have u: "\<not> unopened ?c 1" by (simp add: unopened_def run_simps)
  have one: "(1 :: nat) < 2 ^ 62" by simp
  from sends.flush [OF sends.written [OF c u one w]] show ?thesis
    unfolding example_sender_def w fst_conv r by (simp only: if_True refl append_Nil)
qed

text \<open>One octet on a stream the server opened.\<close>

theorem flow_control_respected_witness:
  "bytes_sent example_sender \<le> max_data_peer example_sender \<and> sent_packets example_sender \<noteq> []"
  using flow_control_respected [OF example_sends] example_sent by simp

end
