(* ===== verification/Quic_End_To_End.thy ===== *)
theory Quic_End_To_End
  imports Quic_Send
begin

text \<open>
  Two connections: the packets one sends, taken by the other with all their frames. What each frame does to the
  receiving side of one stream is worked out first, a STREAM frame of that stream apart; a reset of the stream is the one frame
  that breaks the order of its octets, because the sender goes on sending what waits after it.
\<close>

section \<open>What leaves the receiving side of a stream alone\<close>

definition rx :: "quic_stream \<Rightarrow> nat \<times> nat \<times> (nat \<times> nat) list \<times> (nat \<Rightarrow> byte) option" where
  "rx s = (qs_id s, recv_offset s, gaps s, recv_buf s)"

definition rx_same :: "nat \<Rightarrow> quic_ctx \<Rightarrow> quic_ctx \<Rightarrow> bool" where
  "rx_same sid c c' \<longleftrightarrow> delivered sid (app_events c') = delivered sid (app_events c) \<and> rx (view c' sid) = rx (view c sid)"

definition stream_seen :: "(nat \<Rightarrow> nat \<Rightarrow> byte) \<Rightarrow> nat \<Rightarrow> quic_ctx \<Rightarrow> bool" where
  "stream_seen str sid c \<longleftrightarrow> seen (str sid) (app_events c) (view c sid)"

lemma rx_same_refl [simp]: "rx_same sid c c"
  by (simp add: rx_same_def)

lemma rx_same_trans [trans]: "rx_same sid a b \<Longrightarrow> rx_same sid b c \<Longrightarrow> rx_same sid a c"
  by (simp add: rx_same_def)

lemma rx_same_seen: "rx_same sid c c' \<Longrightarrow> stream_seen str sid c' = stream_seen str sid c"
  by (simp add: rx_same_def stream_seen_def seen_def rx_def)

lemma rx_same_covered: "rx_same sid c c' \<Longrightarrow> covered c' sid = covered c sid"
  by (simp add: rx_same_def covered_def rx_def)

lemma rx_view: "rx (view c sid) = (case stream_find c sid of None \<Rightarrow> (sid, 0, [], None) | Some s \<Rightarrow> rx s)"
  by (simp add: view_def rx_def new_stream_def split: option.split)

lemma rx_same_find:
  assumes "stream_find c' sid = stream_find c sid" "delivered sid (app_events c') = delivered sid (app_events c)"
  shows "rx_same sid c c'"
  using assms by (simp add: rx_same_def rx_view)

lemma rx_same_streams:
  assumes "qstreams c' = qstreams c" "delivered sid (app_events c') = delivered sid (app_events c)"
  shows "rx_same sid c c'"
  using rx_same_find [OF fun_cong [OF stream_find_app [OF assms(1)]] assms(2)] .

lemma rx_same_app: "same_app c c' \<Longrightarrow> rx_same sid c c'"
  by (rule rx_same_streams) (simp_all add: same_app_fields)

lemma rx_same_tell: "delivered sid es = [] \<Longrightarrow> rx_same sid c (tell es c)"
  by (rule rx_same_streams) simp_all

lemma rx_same_create:
  assumes "stream_find_or_create c j = (c1, s)"
  shows "rx_same sid c c1"
proof -
  note f = find_or_create_spec [OF assms]
  have "rx (view c1 sid) = rx (view c sid)"
  proof (cases "sid = j")
    case True
    then show ?thesis using f(1,7) by (simp add: rx_view) (simp add: rx_def new_stream_def split: option.split)
  qed (simp add: rx_view f(3))
  then show ?thesis by (simp add: rx_same_def f(4))
qed

text \<open>A stream put back with the receiving side it had.\<close>

lemma rx_same_put:
  assumes "stream_find c j = Some s" "rx s' = rx s"
  shows "rx_same sid c (put_s s' c)"
proof -
  have "qs_id s' = j" using assms stream_find_id [OF assms(1)] by (simp add: rx_def)
  then show ?thesis using assms by (simp add: rx_same_def rx_view find_put_s split: option.split)
qed

lemma rx_same_put_other: "qs_id s \<noteq> sid \<Longrightarrow> rx_same sid c (put_s s c)"
  by (rule rx_same_find) (simp_all add: find_put_s)

lemma rx_same_foldl: "(\<And>c x. rx_same sid c (f c x)) \<Longrightarrow> rx_same sid c (foldl f c xs)"
  by (induction xs arbitrary: c) (auto intro: rx_same_trans)

section \<open>Frames about the sending side\<close>

definition tx_step :: "quic_ctx \<Rightarrow> quic_stream \<Rightarrow> quic_ctx \<Rightarrow> quic_stream \<Rightarrow> bool" where
  "tx_step c s c' s' \<longleftrightarrow> qstreams c' = qstreams c \<and> (\<forall>j. delivered j (app_events c') = delivered j (app_events c)) \<and> rx s' = rx s"

lemma tx_step_trans: "tx_step a s b t \<Longrightarrow> tx_step b t c u \<Longrightarrow> tx_step a s c u"
  by (simp add: tx_step_def)

lemma tx_step_notify: "maybe_notify_writable c s = (c', s') \<Longrightarrow> tx_step c s c' s'"
  by (auto simp: maybe_notify_writable_def tx_step_def rx_def split: if_splits)

lemma queue_flush_fields [simp]: "qstreams (queue_flush c f) = qstreams c" "app_events (queue_flush c f) = app_events c"
  using same_app_fields(1,2) [OF same_app_queue_frames] by (simp_all add: queue_flush_def split: option.split)

lemma queue_frames_fields:
  assumes "queue_frames c f = (c1, ok)"
  shows "qstreams c1 = qstreams c" "app_events c1 = app_events c"
  using same_app_fields [OF same_app_queue_frames] assms by (metis fst_conv)+

lemma tx_step_blocked: "blocked f c s = (c', s') \<Longrightarrow> tx_step c s c' s'"
  using tx_step_notify [of "if send_blocked s then c else queue_flush c f" "s\<lparr>send_blocked := True\<rparr>" c' s']
  by (auto simp: blocked_def tx_step_def rx_def split: if_splits)

lemma tx_step_consume: "consume_send_buf c s = ((c', s'), r) \<Longrightarrow> tx_step c s c' s'"
proof (induction c s rule: consume_send_buf.induct)
  case (1 c s)
  let ?n = "chunk_size c s"
  let ?f = "quic_frame_write_stream 2048 (u64of (qs_id s)) (u64of (send_offset s)) (?n \<ge> length (send_buf s) \<and> send_buf_fin s) (take ?n (send_buf s))"
  note unf = "1.prems" [unfolded consume_send_buf.simps [of c s]]
  show ?case
  proof (cases "send_buf s = [] \<or> stream_room s = 0 \<or> conn_room c = 0")
    case True
    have "tx_step c s c' s'" if "maybe_notify_writable c (s\<lparr>send_buf_fin := False, send_blocked := False\<rparr>) = (c', s')"
      using tx_step_notify [OF that] by (simp add: tx_step_def rx_def)
    then show ?thesis using unf True tx_step_blocked by (auto split: if_splits)
  next
    case False
    show ?thesis
    proof (cases ?f)
      case None
      then show ?thesis using unf False by (simp add: Let_def tx_step_def)
    next
      case (Some f)
      obtain c1 ok where q: "queue_frames c f = (c1, ok)" by fastforce
      note qf = queue_frames_fields [OF q]
      show ?thesis
      proof (cases ok)
        case True
        let ?c = "c1\<lparr>bytes_sent := bytes_sent c1 + ?n\<rparr>"
        let ?s = "s\<lparr>send_offset := send_offset s + ?n, send_buf := drop ?n (send_buf s), send_blocked := False\<rparr>"
        have "tx_step ?c ?s c' s'"
          using "1.IH" [OF _ _ _ refl refl _ q [symmetric]] unf False Some q True by (simp add: Let_def)
        then show ?thesis using qf by (simp add: tx_step_def rx_def)
      next
        case nok: False
        then have "maybe_notify_writable c1 (s\<lparr>send_blocked := True\<rparr>) = (c', s')" using unf False Some q by (simp add: Let_def)
        from tx_step_notify [OF this] show ?thesis using qf by (simp add: tx_step_def rx_def)
      qed
    qed
  qed
qed

lemma delivered_expire [simp]: "delivered j (snd (expire now sid rs)) = []"
  by (induction now sid rs rule: expire.induct) (auto split: prod.splits)

lemma delivered_completed [simp]: "delivered j (snd (req_fire_completed sid n rs)) = []"
  by (induction sid n rs rule: req_fire_completed.induct) (auto split: prod.splits)

lemma delivered_fail_all [simp]: "delivered j (snd (req_fail_all e s)) = []"
  by (auto simp: delivered_def req_fail_all_def)

lemma tx_step_flush_one:
  assumes "flush_one now c s = (c', s')"
  shows "tx_step c s c' s'"
proof -
  obtain rs es where e: "expire now (qs_id s) (write_reqs s) = (rs, es)" by fastforce
  define c1 where "c1 = tell es c"
  define s1 where "s1 = s\<lparr>write_reqs := rs\<rparr>"
  obtain c2 s2 where m: "(if send_buf s1 \<noteq> [] then fst (consume_send_buf c1 s1) else maybe_notify_writable c1 s1) = (c2, s2)" by fastforce
  obtain rs2 es2 where f: "req_fire_completed (qs_id s2) (send_offset s2) (write_reqs s2) = (rs2, es2)" by fastforce
  have "tx_step c s c1 s1" using delivered_expire [of _ now "qs_id s" "write_reqs s"] e by (simp add: tx_step_def c1_def s1_def rx_def)
  moreover have "tx_step c1 s1 c2 s2"
  proof (cases "send_buf s1 \<noteq> []")
    case True
    then have "consume_send_buf c1 s1 = ((c2, s2), snd (consume_send_buf c1 s1))" using m by (simp add: prod_eq_iff)
    then show ?thesis by (rule tx_step_consume)
  qed (use m in \<open>simp add: tx_step_notify\<close>)
  moreover have "tx_step c2 s2 (tell es2 c2) (s2\<lparr>write_reqs := rs2\<rparr>)"
    using delivered_completed [of _ "qs_id s2" "send_offset s2" "write_reqs s2"] f by (simp add: tx_step_def rx_def)
  moreover have "tx_step (tell es2 c2) (s2\<lparr>write_reqs := rs2\<rparr>) c' s'"
    by (rule tx_step_notify) (rule assms [unfolded flush_one_def Let_def e prod.case, folded c1_def s1_def, unfolded m f prod.case])
  ultimately show ?thesis by (blast intro: tx_step_trans)
qed

lemma rx_same_flush_stream: "rx_same sid c (flush_stream now j c)"
proof (cases "stream_find c j")
  case (Some s)
  obtain c1 s1 where f: "flush_one now c s = (c1, s1)" by fastforce
  note t = tx_step_flush_one [OF f, unfolded tx_step_def]
  have q: "qstreams c1 = qstreams c" using t by blast
  have "rx_same sid c c1" by (rule rx_same_streams) (use t in blast)+
  moreover have "stream_find c1 j = Some s" using stream_find_app [OF q] Some by simp
  then have "rx_same sid c1 (put_s s1 c1)" using t by (intro rx_same_put) auto
  ultimately show ?thesis using Some f by (auto simp: flush_stream_def intro: rx_same_trans)
qed (simp add: flush_stream_def)

lemma rx_same_flush_pending: "rx_same sid c (quic_stream_flush_pending now c)"
  unfolding quic_stream_flush_pending_def by (rule rx_same_foldl) (rule rx_same_flush_stream)

lemma rx_same_max_data: "rx_same sid c (quic_stream_on_max_data m c)"
  by (rule rx_same_streams) (simp_all add: quic_stream_on_max_data_def)

lemma rx_same_max_stream_data: "rx_same sid c (quic_stream_on_max_stream_data j m c)"
proof -
  obtain c1 s where f: "stream_find_or_create c j = (c1, s)" by fastforce
  have "rx_same sid c1 (put_s (s\<lparr>send_max_data := m\<rparr>) c1)"
    by (rule rx_same_put [OF find_or_create_spec(1) [OF f]]) (simp add: rx_def)
  then show ?thesis using rx_same_create [OF f, of sid] f by (auto simp: quic_stream_on_max_stream_data_def intro: rx_same_trans)
qed

lemma rx_same_max_streams: "rx_same sid c (quic_stream_on_max_streams m bidi c)"
  by (rule rx_same_streams) (simp_all add: quic_stream_on_max_streams_def)

lemma rx_same_streams_blocked: "rx_same sid c (quic_stream_on_streams_blocked bidi c)"
  by (rule rx_same_streams) (simp_all add: quic_stream_on_streams_blocked_def quic_stream_grant_credit_def Let_def)

lemma rx_same_reset_sent: "rx_same sid c (fst (quic_stream_reset j e c))"
proof (cases "stream_find c j")
  case (Some s)
  define c1 where "c1 f = flush_packet (fst (queue_frames c f))" for f
  have fields: "qstreams (c1 f) = qstreams c" "app_events (c1 f) = app_events c" for f
    using same_app_fields(1,2) [OF same_app_queue_frames] by (simp_all add: c1_def)
  have "rx_same sid c (tell es (put_s s1 (c1 f)))" if "rx s1 = rx s" "delivered sid es = []" for es s1 f
  proof -
    have "rx_same sid c (c1 f)" by (rule rx_same_streams) (simp_all add: fields(1,2))
    moreover have "rx_same sid (c1 f) (put_s s1 (c1 f))"
      using Some that(1) by (intro rx_same_put) (simp_all add: stream_find_app [OF fields(1)])
    ultimately show ?thesis using rx_same_tell [OF that(2)] by (blast intro: rx_same_trans)
  qed
  moreover have "delivered sid (snd (req_fail_all (- sint (word_of_nat e :: u32)) (s\<lparr>send_state := SEND_RESET_SENT\<rparr>))) = []" by simp
  ultimately show ?thesis using Some
    by (auto simp: quic_stream_reset_def c1_def [symmetric] rx_def req_fail_all_def split: option.split)
qed (simp add: quic_stream_reset_def)

lemma rx_same_stop_sending: "rx_same sid c (quic_stream_on_stop_sending j c)"
  using rx_same_reset_sent by (auto simp: quic_stream_on_stop_sending_def split: option.split)

lemma rx_same_on_reset: "j \<noteq> sid \<Longrightarrow> rx_same sid c (quic_stream_on_reset j n e c)"
proof -
  assume j: "j \<noteq> sid"
  have t: "rx_same sid c (tell [StreamReset j e] c)" by (rule rx_same_tell) simp
  show ?thesis
    using j stream_find_id [of c j] rx_same_trans [OF t rx_same_put_other] t
    by (auto simp: quic_stream_on_reset_def Let_def split: option.split)
qed

section \<open>STREAM frames\<close>

lemma rx_same_recv_other: "j \<noteq> sid \<Longrightarrow> rx_same sid c (fst (quic_stream_on_recv j off fin d c))"
  using recv_other [of sid j] by (intro rx_same_find) simp_all

text \<open>What a frame brings to the stream \<open>sid\<close>, and whether it is the frame that resets it.\<close>

fun brings :: "nat \<Rightarrow> quic_frame \<Rightarrow> nat set" where
  "brings sid (StreamFrame i off fin d) = (if unat i = sid then {unat off..<unat off + length d} else {})"
| "brings sid f = {}"

fun resets :: "nat \<Rightarrow> quic_frame \<Rightarrow> bool" where
  "resets sid (ResetStream i code n) \<longleftrightarrow> unat i = sid"
| "resets sid f \<longleftrightarrow> False"

fun carried :: "(nat \<Rightarrow> nat \<Rightarrow> byte) \<Rightarrow> quic_frame \<Rightarrow> bool" where
  "carried str (StreamFrame i off fin d) \<longleftrightarrow> genuine str (unat i, unat off, fin, d)"
| "carried str f \<longleftrightarrow> True"

lemma handle_frame_receives:
  assumes "stream_seen str sid c" "carried str f" "\<not> resets sid f"
  shows "stream_seen str sid (handle_frame now f c) \<and> covered (handle_frame now f c) sid \<subseteq> covered c sid \<union> brings sid f"
proof -
  have alone: ?thesis if "rx_same sid c (handle_frame now f c)"
    using rx_same_seen [OF that] rx_same_covered [OF that] assms(1) by auto
  show ?thesis
  proof (cases f)
    case (StreamFrame i off fin d)
    show ?thesis
    proof (cases "unat i = sid")
      case True
      then have "genuine str (sid, unat off, fin, d)" using assms(2) StreamFrame by simp
      from recv_own [OF assms(1) [unfolded stream_seen_def] this] show ?thesis
        using True StreamFrame by (auto simp: handle_frame_def stream_seen_def simp del: kept_frame.simps split: if_splits)
    qed (rule alone, simp add: StreamFrame handle_frame_def rx_same_recv_other)
  next
    case (ResetStream i code n)
    then show ?thesis using assms(3) by (intro alone) (simp add: handle_frame_def rx_same_on_reset)
  qed (rule alone; auto simp: handle_frame_def intro: rx_same_flush_pending rx_same_trans [OF rx_same_max_data rx_same_flush_pending]
        rx_same_trans [OF rx_same_max_stream_data rx_same_flush_pending] rx_same_stop_sending rx_same_max_streams rx_same_streams_blocked)+
qed

lemma handle_frames_receive:
  "stream_seen str sid c \<Longrightarrow> \<forall>f\<in>set fs. carried str f \<and> \<not> resets sid f \<Longrightarrow>
   stream_seen str sid (foldl (\<lambda>c f. handle_frame now f c) c fs)
   \<and> covered (foldl (\<lambda>c f. handle_frame now f c) c fs) sid \<subseteq> covered c sid \<union> \<Union> (brings sid ` set fs)"
proof (induction fs arbitrary: c)
  case (Cons f fs)
  have 1: "stream_seen str sid (handle_frame now f c) \<and> covered (handle_frame now f c) sid \<subseteq> covered c sid \<union> brings sid f"
    using Cons.prems by (intro handle_frame_receives) simp_all
  then show ?case using Cons.IH [of "handle_frame now f c"] Cons.prems(2) by auto
qed simp

section \<open>Packets of one connection, taken by another\<close>

text \<open>Packets with the time each arrives at; \<open>handle_payload\<close> takes every frame of a packet.\<close>

fun take_packets :: "(nat \<times> octets list) list \<Rightarrow> quic_ctx \<Rightarrow> quic_ctx" where
  "take_packets [] c = c"
| "take_packets ((now, p) # ps) c = take_packets ps (handle_payload now (concat p) c)"

definition resets_in :: "nat \<Rightarrow> octets list \<Rightarrow> bool" where
  "resets_in sid p \<longleftrightarrow> list_ex (resets sid) (frames_of (concat p))"

lemma take_packets_receive:
  "stream_seen str sid c \<Longrightarrow> \<forall>p\<in>snd ` set ps. \<not> resets_in sid p \<and> (\<forall>f\<in>set (frames_of (concat p)). carried str f \<and> brings sid f \<subseteq> B) \<Longrightarrow>
   stream_seen str sid (take_packets ps c) \<and> covered (take_packets ps c) sid \<subseteq> covered c sid \<union> B"
proof (induction ps arbitrary: c)
  case (Cons x ps)
  obtain now p where x: "x = (now, p)" by fastforce
  have fs: "\<forall>f\<in>set (frames_of (concat p)). carried str f \<and> \<not> resets sid f" "\<Union> (brings sid ` set (frames_of (concat p))) \<subseteq> B"
    using Cons.prems(2) by (auto simp: x resets_in_def list_ex_iff)
  have 1: "stream_seen str sid (handle_payload now (concat p) c) \<and> covered (handle_payload now (concat p) c) sid \<subseteq> covered c sid \<union> B"
    using handle_frames_receive [OF Cons.prems(1) fs(1), of now] fs(2) unfolding handle_payload_def by blast
  then show ?case using Cons.IH [of "handle_payload now (concat p) c"] Cons.prems(2) by (auto simp: x)
qed simp

definition stream_of :: "(nat \<Rightarrow> octets) \<Rightarrow> nat \<Rightarrow> nat \<Rightarrow> byte" where
  "stream_of W sid i = (if i < length (W sid) then W sid ! i else 0)"

lemma packets_carry:
  assumes "send_inv W c" "p \<in> set (sent_packets c)" "f \<in> set (frames_of (concat p))"
  shows "carried (stream_of (sent_of W c)) f \<and> brings j f \<subseteq> {..<length (sent_of W c j)}"
proof (cases f)
  case (StreamFrame i off fin d)
  let ?S = "sent_of W c (unat i)"
  have *: "unat off + length d \<le> length ?S" "d = take (length d) (drop (unat off) ?S)"
    using packet_data [OF assms(1,2)] assms(3) StreamFrame by simp_all
  have "take (length d) (drop (unat off) ?S) = map (stream_of (sent_of W c) (unat i)) [unat off..<unat off + length d]"
    using *(1) by (intro nth_equalityI) (simp_all add: stream_of_def)
  then show ?thesis using * StreamFrame by auto
qed simp_all

text \<open>
  C4. End to end: a peer that gets any of the packets a run sent, in any order, any of them repeated and others lost, and
  takes all frames of each, hands its application a prefix of what was written to the stream, as long as no packet
  with a RESET_STREAM of that stream is among them.
\<close>

theorem end_to_end_prefix:
  assumes "sends c W" "snd ` set ps \<subseteq> set (sent_packets c)" "qstreams r = []" "app_events r = []"
    and "\<forall>p\<in>snd ` set ps. \<not> resets_in sid p"
  shows "\<exists>rest. W sid = delivered sid (app_events (take_packets ps r)) @ rest"
proof -
  let ?S = "sent_of W c" and ?c = "take_packets ps r"
  have "stream_seen (stream_of ?S) sid r" using all_seen_fresh [OF assms(3,4)] by (simp add: stream_seen_def all_seen_def)
  moreover have "\<forall>p\<in>snd ` set ps. \<not> resets_in sid p
      \<and> (\<forall>f\<in>set (frames_of (concat p)). carried (stream_of ?S) f \<and> brings sid f \<subseteq> {..<length (?S sid)})"
  proof
    fix p
    assume p: "p \<in> snd ` set ps"
    then have "p \<in> set (sent_packets c)" using assms(2) by blast
    from packets_carry [OF sends_inv [OF assms(1)] this] p assms(5)
    show "\<not> resets_in sid p \<and> (\<forall>f\<in>set (frames_of (concat p)). carried (stream_of ?S) f \<and> brings sid f \<subseteq> {..<length (?S sid)})"
      by blast
  qed
  ultimately have t: "stream_seen (stream_of ?S) sid ?c \<and> covered ?c sid \<subseteq> covered r sid \<union> {..<length (?S sid)}"
    by (rule take_packets_receive)
  then have seen: "stream_seen (stream_of ?S) sid ?c" by (rule conjunct1)
  have "stream_find r sid = None" by (simp add: stream_find_def assms(3))
  then have "covered r sid = {}" by (simp add: covered_def view_def new_stream_def)
  then have "covered ?c sid \<subseteq> {..<length (?S sid)}" using t by simp
  then have "{..<recv_offset (view ?c sid)} \<subseteq> {..<length (?S sid)}" by (simp add: covered_def)
  then have n: "recv_offset (view ?c sid) \<le> length (?S sid)" by simp
  have "delivered sid (app_events ?c) = map (stream_of ?S sid) [0..<recv_offset (view ?c sid)]"
    using seen by (simp add: stream_seen_def seen_def)
  also have "\<dots> = take (recv_offset (view ?c sid)) (?S sid)"
    using n by (intro nth_equalityI) (simp_all add: stream_of_def)
  finally have d: "delivered sid (app_events ?c) = take (recv_offset (view ?c sid)) (?S sid)" .
  show ?thesis
  proof (cases "?S sid = []")
    case False
    then obtain z where "W sid = ?S sid @ z" using sent_of_prefix by metis
    then have "W sid = take (recv_offset (view ?c sid)) (?S sid) @ drop (recv_offset (view ?c sid)) (?S sid) @ z" by simp
    with d show ?thesis by metis
  qed (simp add: d)
qed

text \<open>The packet of one octet, taken twice.\<close>

lemma example_no_reset: "\<not> resets_in 1 [[0x0e, 1, 0, 1, 7]]"
proof -
  have "next_frame [0x0e, 1, 0, 1, 7] = Some ([StreamFrame 1 0 False [7]], [])" by code_simp
  from frames_of_step [OF this] show ?thesis by (simp add: resets_in_def frames_of.simps [of "[]"])
qed

theorem end_to_end_prefix_witness:
  "\<exists>rest. [7] = delivered 1 (app_events (take_packets [(5, [[0x0e, 1, 0, 1, 7]]), (6, [[0x0e, 1, 0, 1, 7]])] example_ctx)) @ rest"
  using end_to_end_prefix [OF example_sends _ example_ctx_empty, of "[(5, [[0x0e, 1, 0, 1, 7]]), (6, [[0x0e, 1, 0, 1, 7]])]" 1]
  using example_no_reset by (simp add: example_sent)

end
