(* ===== verification/Quic_Shortfall.thy ===== *)
theory Quic_Shortfall
  imports Quic_Send
begin

text \<open>
  Where the sending side of a QUIC connection does less than its callers expect: the direct path cannot carry a message
  that fills a packet, a FIN of its own is lost when nothing waits, and a reset does not stop the data that waits.
\<close>

section \<open>Messages that fill a packet\<close>

lemma stream_frame_longer:
  "quic_frame_write_stream cap sid off fin d = Some f \<Longrightarrow> length d < length f"
  by (auto simp: quic_frame_write_stream_def put_def length_of_def split: if_splits)

lemma queue_frames_refuses: "length f > QUIC_MAX_PAYLOAD_LEN \<Longrightarrow> queue_frames c f = (c, False)"
  by (simp add: queue_frames_def)

lemma send_loop_refuses:
  assumes "1286 \<le> length d" "send_offset s + length d \<le> send_max_data s" "bytes_sent c + length d \<le> max_data_peer c"
  shows "send_loop d fin c s = ((c, s), False)"
proof -
  define n where "n = min (min (min (length d) SEND_CHUNK) (stream_room s)) (conn_room c)"
  have n: "1286 \<le> n" "n \<le> length d" using assms by (auto simp: n_def SEND_CHUNK_def stream_room_def conn_room_def)
  define w where "w = quic_frame_write_stream 2048 (u64of (qs_id s)) (u64of (send_offset s)) (length d \<le> n \<and> fin) (take n d)"
  have ref: "queue_frames c f = (c, False)" if "w = Some f" for f
    using stream_frame_longer [OF that [unfolded w_def]] n by (intro queue_frames_refuses) (simp add: QUIC_MAX_PAYLOAD_LEN_def)
  have "send_loop d fin c s = (if d = [] then ((c, s), True) else if stream_room s = 0 \<or> conn_room c = 0 then ((c, s), False)
      else case w of None \<Rightarrow> ((c, s), False) | Some f \<Rightarrow> (case queue_frames c f of (c1, ok) \<Rightarrow>
        if \<not> ok then ((c1, s), False)
        else send_loop (drop n d) fin (c1\<lparr>bytes_sent := bytes_sent c1 + n\<rparr>) (s\<lparr>send_offset := send_offset s + n\<rparr>)))"
    unfolding w_def n_def by (subst send_loop.simps) (simp only: Let_def)
  moreover have "d \<noteq> []" using assms(1) by auto
  ultimately show ?thesis using ref by (cases w) auto
qed

lemma direct_send_refuses:
  assumes "1286 \<le> length d"
  shows "snd (quic_stream_send sid d fin c) = -1"
proof (cases "stream_find c sid")
  case (Some s)
  have "d \<noteq> []" using assms by auto
  then show ?thesis
    using Some assms send_loop_refuses [of d s c fin] by (auto simp: quic_stream_send_def split: prod.splits)
qed (simp add: quic_stream_send_def)

text \<open>
  \<open>quic_stream_send\<close> cuts its data into chunks of 1300 octets, but no frame of more than 1286 is ever queued: a message of
  1286 octets or more is refused whatever the state and the credit, and so it will be each time it is tried again.
\<close>

theorem large_direct_send_fails:
  assumes "1286 \<le> length d"
  shows "snd (quic_stream_send sid d fin c) = -1"
  by (rule direct_send_refuses [OF assms])

text \<open>With credit for more than the message.\<close>

theorem large_direct_send_fails_witness:
  "snd (quic_stream_send 1 (replicate 1286 0) False
     (example_ctx\<lparr>max_data_peer := 5000, qstreams := [(new_stream example_ctx 1)\<lparr>send_max_data := 5000\<rparr>]\<rparr>)) = -1"
  using large_direct_send_fails [of "replicate 1286 0" 1 False] by simp

section \<open>A FIN of its own\<close>

text \<open>
  A write of no data with FIN, on a stream that has nothing waiting, returns success; no frame is made of it and the FIN
  is forgotten, so the peer's stream never ends.
\<close>

theorem lone_fin_is_lost:
  assumes "stream_find c sid = Some s" "\<not> sending_over s" "send_buf s = []"
  shows "snd (quic_stream_write now sid [] True None t c) = 0
    \<and> frames_out (fst (quic_stream_write now sid [] True None t c)) = frames_out c
    \<and> \<not> send_buf_fin (view (fst (quic_stream_write now sid [] True None t c)) sid)"
proof -
  have id: "qs_id s = sid" using stream_find_id [OF assms(1)] .
  define s4 where "s4 = (if send_state s = SEND_READY then s\<lparr>send_buf_fin := True, send_state := SEND_SEND\<rparr> else s\<lparr>send_buf_fin := True\<rparr>)"
  obtain c5 s5 where n: "maybe_notify_writable c (s4\<lparr>send_buf_fin := False, send_blocked := False\<rparr>) = (c5, s5)" by fastforce
  obtain c6 s6 where n2: "maybe_notify_writable c5 s5 = (c6, s6)" by fastforce
  have k: "consume_send_buf c s4 = ((c5, s5), 0)"
    using n assms(3) by (subst consume_send_buf.simps) (simp add: s4_def)
  have w: "quic_stream_write now sid [] True None t c = (put_s s6 c6, 0)"
    using assms k n2 by (simp add: quic_stream_write_def Let_def send_buf_append_def s4_def split: if_splits)
  have "frames_out c6 = frames_out c" "\<not> send_buf_fin s6" "qs_id s6 = sid" "stream_find c6 = stream_find c"
    using n n2 id by (auto simp: maybe_notify_writable_def tell_def frames_out_def s4_def stream_find_def fun_eq_iff split: if_splits)
  then show ?thesis using w assms(1) by (simp add: view_def find_put_s) (simp add: put_s_def frames_out_def)
qed

theorem lone_fin_is_lost_witness:
  "snd (quic_stream_write 0 1 [] True None 0 (example_ctx\<lparr>qstreams := [new_stream example_ctx 1]\<rparr>)) = 0
   \<and> frames_out (fst (quic_stream_write 0 1 [] True None 0 (example_ctx\<lparr>qstreams := [new_stream example_ctx 1]\<rparr>))) = []"
  using lone_fin_is_lost [of "example_ctx\<lparr>qstreams := [new_stream example_ctx 1]\<rparr>" 1 "new_stream example_ctx 1" 0 0]
  by (simp add: stream_find_def new_stream_def sending_over_def frames_out_def example_ctx_def)

section \<open>Data after a reset\<close>

definition blocked_writer :: "octets \<Rightarrow> quic_ctx" where
  "blocked_writer d = fst (quic_stream_write 0 1 d False None 0 (fst (quic_stream_open (example_ctx\<lparr>max_data_peer := 0\<rparr>))))"

text \<open>
  A stream is reset while data waits for credit: the data is kept, and once the peer raises its limit
  it goes out in a STREAM frame behind the RESET_STREAM frame that said the stream ended before it.
\<close>

theorem reset_does_not_stop_data:
  assumes "d \<noteq> []" "length d \<le> 60"
  shows "frames_out (handle_frame 0 (MaxData 1000) (fst (quic_stream_reset 1 5 (blocked_writer d))))
    = [[0x14, 0x00], [0x04, 0x01, 0x05, 0x00], [0x0e, 0x01, 0x00, of_nat (length d)] @ d]"
proof -
  have len: "(word_of_nat (length d) :: u64) \<le> 63" using assms(2) by (simp add: word_le_nat_alt unat_of_nat)
  have n: "length d < 500" "length d < 1000" "length d < 1200" "length d < 1270" using assms(2) by simp_all
  have u: "ucast (word_of_nat (length d) :: u64) = (word_of_nat (length d) :: byte)"
    using assms(2) by (simp add: word_eq_iff_unsigned [where ?'a = nat] unsigned_ucast_eq unat_of_nat take_bit_nat_eq_self)
  show ?thesis
    using assms n len u
    by (simp add: blocked_writer_def run_simps frames_out_def quic_stream_reset_def quic_frame_write_reset_stream_def
        quic_frame_write_data_blocked_def req_fail_all_def tell_def blocked_def queue_flush_def
        handle_frame_def quic_stream_on_max_data_def quic_stream_flush_pending_def flush_stream_def flush_one_def)
qed

theorem reset_does_not_stop_data_witness:
  "frames_out (handle_frame 0 (MaxData 1000) (fst (quic_stream_reset 1 5 (blocked_writer [7, 8]))))
    = [[0x14, 0x00], [0x04, 0x01, 0x05, 0x00], [0x0e, 0x01, 0x00, 0x02, 7, 8]]"
  using reset_does_not_stop_data [of "[7, 8]"] by simp

end
