(* ===== verification/Moq_Lite_Egress.thy ===== *)
theory Moq_Lite_Egress
  imports Media Quic_Stream
begin

text \<open>
  The writer of one moq-lite subscription, \<open>moq/moq_lite_egress.cpp\<close>: a media track becomes groups, one
  unidirectional stream each, of a GROUP header and FRAMEs. What backpressure refuses waits in a queue. The connection it
  writes to is the field \<open>conn\<close>; the GOP cache the code looks up is an argument. Log output and its rate limit are left out, the
  counters are kept. A C++ \<open>int64_t\<close> timestamp is an integer, cut to 64 bits where it is written.
\<close>

record pending_seg =
  seg_sid :: nat
  seg_data :: octets
  seg_fin :: bool

record egress =
  conn :: quic_ctx
  local_key :: string
  writer_id :: string
  is_video :: bool
  init_flag :: bool
  eg_closed :: bool
  subscribe_id :: u64
  sub_stream_id :: nat
  started :: bool
  group_sid :: nat
  group_seq :: u64
  group_frames :: nat
  group_prev_us :: int
  group_open_us :: int
  group_had_media :: bool
  last_frame_ts_us :: int
  pending :: "pending_seg list"
  pending_bytes :: nat
  dropped_segs :: nat
  base_ms :: int
  last_ts_ms :: int
  total_groups :: nat
  total_frames :: nat
  dropped_groups :: nat
  bad_payload :: nat
  no_credit :: nat

definition kUsPerMsLocal :: int where "kUsPerMsLocal = 1000"
definition kAudioGroupUs :: int where "kAudioGroupUs = 1000000"
definition kGopEdgeWindowMs :: int where "kGopEdgeWindowMs = 30000"
definition kRebaseJumpMs :: int where "kRebaseJumpMs = 5000"
definition kStaleGopMs :: int where "kStaleGopMs = 400"
definition kPendingCapBytes :: nat where "kPendingCapBytes = 2 * 1024 * 1024"

definition new_MoqLiteEgress :: "quic_ctx \<Rightarrow> string \<Rightarrow> string \<Rightarrow> bool \<Rightarrow> egress" where
  "new_MoqLiteEgress c key wid video =
     \<lparr>conn = c, local_key = key, writer_id = wid, is_video = video, init_flag = False, eg_closed = False, subscribe_id = 0,
      sub_stream_id = 0, started = False, group_sid = 0, group_seq = 0, group_frames = 0, group_prev_us = 0,
      group_open_us = 0, group_had_media = False, last_frame_ts_us = -1, pending = [], pending_bytes = 0, dropped_segs = 0,
      base_ms = -1, last_ts_ms = -1, total_groups = 0, total_frames = 0, dropped_groups = 0, bad_payload = 0, no_credit = 0\<rparr>"

text \<open>\<open>QuicConnectionStreamSendEx\<close> with no callback: the clock does not matter.\<close>

definition stream_write :: "nat \<Rightarrow> octets \<Rightarrow> bool \<Rightarrow> egress \<Rightarrow> egress \<times> int" where
  "stream_write sid d fin e = (case quic_stream_write 0 sid d fin None 0 (conn e) of (c, r) \<Rightarrow> (e\<lparr>conn := c\<rparr>, r))"

section \<open>Groups\<close>

definition OpenGroup :: "int \<Rightarrow> egress \<Rightarrow> egress \<times> bool" where
  "OpenGroup ts_us e =
     (case quic_stream_open_uni (conn e) of
        (c, None) \<Rightarrow> (e\<lparr>conn := c, no_credit := no_credit e + 1, dropped_groups := dropped_groups e + 1\<rparr>, False)
      | (c, Some sid) \<Rightarrow>
          let e1 = e\<lparr>conn := c\<rparr> in
          case MlBuildGroupHeader (MlAppendVarint [] 0) (subscribe_id e) (group_seq e) 0 of
            (_, False) \<Rightarrow> (e1\<lparr>conn := fst (quic_stream_reset sid 0 c)\<rparr>, False)
          | (out, True) \<Rightarrow>
              (case stream_write sid out False e1 of (e2, r) \<Rightarrow>
                 if r < 0 then (e2, False)
                 else (e2\<lparr>group_sid := sid, group_frames := 0, group_prev_us := 0, group_open_us := ts_us, group_had_media := False\<rparr>, True)))"

definition AbandonGroup :: "egress \<Rightarrow> egress" where
  "AbandonGroup e =
     (if group_sid e = 0 then e
      else e\<lparr>group_sid := 0, group_frames := 0, group_prev_us := 0, group_open_us := 0, group_had_media := False,
             group_seq := group_seq e + 1\<rparr>)"

section \<open>The queue\<close>

function FlushPending :: "egress \<Rightarrow> egress" where
  "FlushPending e = (case pending e of [] \<Rightarrow> e
     | g # gs \<Rightarrow>
         (case stream_write (seg_sid g) (seg_data g) (seg_fin g) e of (e1, r) \<Rightarrow>
            if r = 1 then e1
            else if r < 0 then
              let dead = takeWhile (\<lambda>h. seg_sid h = seg_sid g) (pending e);
                  e2 = e1\<lparr>pending := dropWhile (\<lambda>h. seg_sid h = seg_sid g) (pending e),
                          pending_bytes := pending_bytes e1 - sum_list (map (\<lambda>h. length (seg_data h)) dead)\<rparr> in
              FlushPending (if group_sid e2 = seg_sid g then AbandonGroup e2 else e2)
            else FlushPending (e1\<lparr>pending := gs, pending_bytes := pending_bytes e1 - length (seg_data g)\<rparr>)))"
  by auto
termination
by (relation "measure (\<lambda>e. length (pending e))") (auto simp: AbandonGroup_def less_Suc_eq_le length_dropWhile_le)

declare FlushPending.simps [simp del]

definition enqueue :: "octets \<Rightarrow> bool \<Rightarrow> egress \<Rightarrow> egress" where
  "enqueue d fin e =
     (if d \<noteq> [] \<and> \<not> fin \<and> pending_bytes e + length d > kPendingCapBytes then e\<lparr>dropped_segs := dropped_segs e + 1\<rparr>
      else e\<lparr>pending := pending e @ [\<lparr>seg_sid = group_sid e, seg_data = d, seg_fin = fin\<rparr>],
             pending_bytes := pending_bytes e + length d\<rparr>)"

definition Push :: "octets \<Rightarrow> bool \<Rightarrow> egress \<Rightarrow> egress" where
  "Push d fin e =
     (if group_sid e = 0 then e
      else
        let e1 = (if pending e \<noteq> [] then FlushPending e else e) in
        if pending e1 = [] \<and> group_sid e1 \<noteq> 0 then
          (case stream_write (group_sid e1) d fin e1 of (e2, r) \<Rightarrow>
             if r = 0 then e2 else if r < 0 then AbandonGroup e2 else enqueue d fin e2)
        else if group_sid e1 = 0 then e1
        else enqueue d fin e1)"

definition group_sentinel :: "egress \<Rightarrow> octets option" where
  "group_sentinel e =
     (case MlWriteVarint [] (word_of_int (if group_had_media e then group_prev_us e else group_open_us e)) of
        (_, False) \<Rightarrow> None
      | (p, True) \<Rightarrow> (case MlAppendFrame [] 0 p of (_, False) \<Rightarrow> None | (seg, True) \<Rightarrow> Some seg))"

definition CloseGroup :: "bool \<Rightarrow> egress \<Rightarrow> egress" where
  "CloseGroup clean_end e =
     (if group_sid e = 0 then e
      else
        let e1 = (case (if clean_end then group_sentinel e else None) of Some seg \<Rightarrow> Push seg True e | None \<Rightarrow> Push [] True e) in
        e1\<lparr>total_groups := total_groups e1 + 1, group_sid := 0, group_frames := 0, group_prev_us := 0, group_open_us := 0,
           group_had_media := False, group_seq := group_seq e1 + 1\<rparr>)"

section \<open>Timestamps\<close>

definition gop_origin :: "int \<Rightarrow> media_packet list \<Rightarrow> int" where
  "gop_origin last_v ps =
     foldl (\<lambda>origin p.
       if is_seq_hdr p \<or> dts p \<le> 0 then origin
       else if last_v \<ge> 0 \<and> av_type p = MEDIA_AUDIO_TYPE \<and> dts p > last_v + 40 then origin
       else if last_v \<ge> 0 \<and> dts p + kGopEdgeWindowMs < last_v then origin
       else if origin < 0 \<or> dts p < origin then dts p else origin) (-1) ps"

definition EnsureBase :: "gop_cache option \<Rightarrow> egress \<Rightarrow> egress" where
  "EnsureBase gp e = (case gp of None \<Rightarrow> e
     | Some g \<Rightarrow>
        if base_ms e \<ge> 0 then e
        else
          let last_v = foldl (\<lambda>l p. if av_type p = MEDIA_VIDEO_TYPE \<and> \<not> is_seq_hdr p \<and> dts p > 0 then dts p else l) (-1) (packets g);
              o1 = gop_origin last_v (packets g);
              origin = (if o1 < 0 \<and> last_v \<ge> 0 then last_v else o1) in
          if origin < 0 then e else e\<lparr>base_ms := origin\<rparr>)"

definition FrameTsUs :: "media_packet \<Rightarrow> egress \<Rightarrow> egress \<times> int" where
  "FrameTsUs pkt e =
     (let d = (if dts pkt < 0 then 0 else dts pkt) in
      if base_ms e < 0 \<and> d \<le> 0 then (e, 0)
      else
        let e1 = (if base_ms e < 0 then e\<lparr>base_ms := d\<rparr> else e);
            ts0 = (if d - base_ms e1 < 0 then 0 else d - base_ms e1) in
        case (if last_ts_ms e1 < 0 \<and> ts0 > kRebaseJumpMs then (e1\<lparr>base_ms := d\<rparr>, 0)
              else if last_ts_ms e1 \<ge> 0 \<and> ts0 > last_ts_ms e1 + kRebaseJumpMs then
                let b = d - (last_ts_ms e1 + 40) in
                (CloseGroup False (e1\<lparr>base_ms := b\<rparr>), if d - b < 0 then 0 else d - b)
              else (e1, ts0)) of
          (e2, ts) \<Rightarrow> (e2\<lparr>last_ts_ms := ts\<rparr>, ts * kUsPerMsLocal))"

section \<open>Packets\<close>

definition wanted :: "bool \<Rightarrow> media_packet \<Rightarrow> bool" where
  "wanted video pkt \<longleftrightarrow> av_type pkt = (if video then MEDIA_VIDEO_TYPE else MEDIA_AUDIO_TYPE)"

text \<open>Which group the frame goes to; \<open>None\<close> where the frame is dropped.\<close>

definition choose_group :: "bool \<Rightarrow> int \<Rightarrow> egress \<Rightarrow> egress \<times> bool" where
  "choose_group key ts_us e =
     (if is_video e then
        if key then OpenGroup ts_us (if group_sid e \<noteq> 0 then CloseGroup True e else e)
        else (e, group_sid e \<noteq> 0)
      else
        let e1 = (if group_sid e \<noteq> 0 \<and> (ts_us - group_open_us e \<ge> kAudioGroupUs \<or> ts_us < group_prev_us e)
                  then CloseGroup True e else e) in
        if group_sid e1 = 0 then OpenGroup ts_us e1 else (e1, True))"

definition not_avcc :: "octets \<Rightarrow> bool" where
  "not_avcc d \<longleftrightarrow> length d > 4 \<and> (let n = be_val (take 4 d) in n = 0 \<or> n + 4 > length d)"

definition frame_octets :: "int \<Rightarrow> int \<Rightarrow> octets \<Rightarrow> octets option" where
  "frame_octets prev ts_us codec =
     (case MlWriteVarint [] (word_of_int ts_us) of (_, False) \<Rightarrow> None
      | (p, True) \<Rightarrow> (case MlAppendFrame [] (word_of_int (ts_us - prev)) (p @ codec) of (_, False) \<Rightarrow> None | (seg, True) \<Rightarrow> Some seg))"

definition eg_WritePacket :: "egress \<Rightarrow> media_packet \<Rightarrow> egress \<times> int" where
  "eg_WritePacket e pkt =
     (if eg_closed e \<or> \<not> started e \<or> payload pkt = [] \<or> is_seq_hdr pkt \<or> \<not> wanted (is_video e) pkt then (e, 0)
      else case FrameTsUs pkt e of (e1, ts_us) \<Rightarrow>
        case choose_group (is_key_frame pkt) ts_us (e1\<lparr>last_frame_ts_us := ts_us\<rparr>) of (e2, ok) \<Rightarrow>
          let tag_hdr = (if is_video e2 then 5 else 2); codec = drop tag_hdr (payload pkt) in
          if \<not> ok \<or> length (payload pkt) \<le> tag_hdr then (e2, 0)
          else
            let e3 = (if is_video e2 \<and> not_avcc codec then e2\<lparr>bad_payload := bad_payload e2 + 1\<rparr> else e2) in
            case frame_octets (group_prev_us e3) ts_us codec of None \<Rightarrow> (e3, 0)
            | Some seg \<Rightarrow>
                (Push seg False (e3\<lparr>group_prev_us := ts_us, group_frames := group_frames e3 + 1, group_had_media := True,
                                    total_frames := total_frames e3 + 1\<rparr>), 0))"

definition last_dts :: "MEDIA_PKT_TYPE \<Rightarrow> media_packet list \<Rightarrow> int" where
  "last_dts t ps = foldl (\<lambda>l p. if \<not> is_seq_hdr p \<and> av_type p = t then dts p else l) (-1) ps"

definition SendGop :: "gop_cache option \<Rightarrow> egress \<Rightarrow> egress" where
  "SendGop gp e = (case gp of None \<Rightarrow> e
     | Some g \<Rightarrow>
        let e1 = EnsureBase gp e; v = last_dts MEDIA_VIDEO_TYPE (packets g); a = last_dts MEDIA_AUDIO_TYPE (packets g) in
        if is_video e1 \<and> v \<ge> 0 \<and> a \<ge> 0 \<and> a - v > kStaleGopMs then e1
        else foldl (\<lambda>e pkt. fst (eg_WritePacket e pkt)) e1
               (filter (\<lambda>p. \<not> is_seq_hdr p \<and> wanted (is_video e1) p \<and> \<not> (\<not> is_video e1 \<and> v \<ge> 0 \<and> dts p > v + 40)) (packets g)))"

section \<open>Start and stop\<close>

definition eg_Start :: "u64 \<Rightarrow> nat \<Rightarrow> gop_cache option \<Rightarrow> egress \<Rightarrow> egress" where
  "eg_Start sub_id sid gp e =
     (if eg_closed e \<or> started e \<or> sid = 0 then e
      else case MlBuildSubscribeStart [] 0 of (_, False) \<Rightarrow> e
      | (out, True) \<Rightarrow>
          (case quic_stream_send sid out False (conn e) of (c, r) \<Rightarrow>
             if r < 0 then e\<lparr>conn := c\<rparr>
             else SendGop gp (e\<lparr>conn := c, subscribe_id := sub_id, sub_stream_id := sid, started := True\<rparr>)))"

definition eg_Stop :: "egress \<Rightarrow> egress" where
  "eg_Stop e =
     (if eg_closed e then e
      else
        let e1 = e\<lparr>eg_closed := True, started := False, pending := [], pending_bytes := 0\<rparr>;
            e2 = (if group_sid e1 \<noteq> 0 then (fst (stream_write (group_sid e1) [] True e1))\<lparr>group_sid := 0\<rparr> else e1) in
        if sub_stream_id e2 \<noteq> 0
        then e2\<lparr>conn := fst (quic_stream_reset (sub_stream_id e2) 1 (conn e2)), sub_stream_id := 0\<rparr> else e2)"

definition egress_ops :: "egress av_ops" where
  "egress_ops = \<lparr>WritePacket = eg_WritePacket, GetKey = local_key, GetWriterId = writer_id, CloseWriter = eg_Stop,
     IsInited = init_flag, SetInitFlag = (\<lambda>e b. e\<lparr>init_flag := b\<rparr>)\<rparr>"

section \<open>The writer interface\<close>

text \<open>What no operation changes.\<close>

definition fixed_part :: "egress \<Rightarrow> string \<times> string \<times> bool \<times> bool" where
  "fixed_part e = (local_key e, writer_id e, init_flag e, is_video e)"

lemma fixed_stream_write [simp]: "fixed_part (fst (stream_write sid d fin e)) = fixed_part e"
  by (simp add: stream_write_def fixed_part_def split: prod.split)

lemma fixed_AbandonGroup [simp]: "fixed_part (AbandonGroup e) = fixed_part e"
  by (simp add: AbandonGroup_def fixed_part_def)

lemma fixed_OpenGroup [simp]: "fixed_part (fst (OpenGroup ts e)) = fixed_part e"
  by (auto simp: OpenGroup_def stream_write_def fixed_part_def Let_def split: prod.splits option.splits bool.splits)

lemma fixed_FlushPending [simp]: "fixed_part (FlushPending e) = fixed_part e"
proof (induction e rule: FlushPending.induct)
  case (1 e)
  show ?case
  proof (cases "pending e")
    case (Cons g gs)
    obtain e1 r where w: "stream_write (seg_sid g) (seg_data g) (seg_fin g) e = (e1, r)" by fastforce
    have "fixed_part e1 = fixed_part e" using fixed_stream_write [of "seg_sid g" "seg_data g" "seg_fin g" e] w by simp
    then show ?thesis
      using Cons "1.IH" [OF Cons w [symmetric]] w
      by (subst FlushPending.simps) (auto simp: Let_def fixed_part_def AbandonGroup_def split: if_splits)
  qed (simp add: FlushPending.simps [of e])
qed

lemma fixed_Push [simp]: "fixed_part (Push d fin e) = fixed_part e"
proof -
  have "fixed_part (fst p) = x" if "p = (e2, r)" "fixed_part e2 = x" for p :: "egress \<times> int" and e2 r x using that by simp
  define e1 where "e1 = (if pending e \<noteq> [] then FlushPending e else e)"
  have e1: "fixed_part e1 = fixed_part e" by (simp add: e1_def)
  obtain e2 r where w: "stream_write (group_sid e1) d fin e1 = (e2, r)" by fastforce
  then have e2: "fixed_part e2 = fixed_part e" using fixed_stream_write [of "group_sid e1" d fin e1] e1 by simp
  have q: "fixed_part (enqueue d fin x) = fixed_part x" for x by (simp add: enqueue_def fixed_part_def)
  show ?thesis using w e1 e2 by (simp add: Push_def Let_def e1_def [symmetric] q)
qed

lemma fixed_CloseGroup [simp]: "fixed_part (CloseGroup b e) = fixed_part e"
proof -
  have u: "fixed_part (x\<lparr>total_groups := n, group_sid := 0, group_frames := 0, group_prev_us := 0, group_open_us := 0,
    group_had_media := False, group_seq := q\<rparr>) = fixed_part x" for x n q by (simp add: fixed_part_def)
  show ?thesis by (simp add: CloseGroup_def Let_def u split: option.split)
qed

lemma fixed_updates [simp]: "fixed_part (e\<lparr>base_ms := b\<rparr>) = fixed_part e" "fixed_part (e\<lparr>last_ts_ms := b\<rparr>) = fixed_part e"
  "fixed_part (e\<lparr>last_frame_ts_us := b\<rparr>) = fixed_part e" "fixed_part (e\<lparr>bad_payload := n\<rparr>) = fixed_part e"
  "fixed_part (e\<lparr>conn := c\<rparr>) = fixed_part e"
  "fixed_part (e\<lparr>group_prev_us := b, group_frames := n, group_had_media := h, total_frames := t\<rparr>) = fixed_part e"
  by (simp_all add: fixed_part_def)

lemma fixed_FrameTsUs [simp]: "fixed_part (fst (FrameTsUs pkt e)) = fixed_part e"
  by (simp add: FrameTsUs_def Let_def)

lemma fixed_choose_group [simp]: "fixed_part (fst (choose_group key ts e)) = fixed_part e"
  by (simp add: choose_group_def Let_def)

lemma fixed_eg_WritePacket [simp]: "fixed_part (fst (eg_WritePacket e pkt)) = fixed_part e"
  by (simp add: eg_WritePacket_def Let_def case_prod_unfold split: option.split)

lemma fixed_eg_Stop [simp]: "fixed_part (eg_Stop e) = fixed_part e"
  by (auto simp: eg_Stop_def Let_def fixed_part_def stream_write_def split: prod.split)

lemma fixed_part_simps:
  "fixed_part e' = fixed_part e \<Longrightarrow> local_key e' = local_key e \<and> writer_id e' = writer_id e \<and> init_flag e' = init_flag e \<and> is_video e' = is_video e"
  by (simp add: fixed_part_def)

interpretation moq_egress: av_writer egress_ops
  by unfold_locales (simp_all add: egress_ops_def fixed_part_simps [OF fixed_eg_WritePacket] fixed_part_simps [OF fixed_eg_Stop])

end
