(* ===== verification/Moq_Lite_Egress_Facts.thy ===== *)
theory Moq_Lite_Egress_Facts
  imports Moq_Lite_Egress Quic_Send
begin

text \<open>
  What the writer of a subscription guarantees over a QUIC connection. The text of a stream is what was handed to the
  connection followed by what waits in the queue. However the connection pushes back, a segment is appended to the text of its
  stream, or counted as dropped, or the stream is dead; a group is its header and its frames, which a
  subscriber reads back with their timestamps; group numbers only grow.
\<close>

section \<open>Which streams can be written\<close>

definition over :: "quic_ctx \<Rightarrow> nat \<Rightarrow> bool" where
  "over c sid \<longleftrightarrow> (\<forall>s. stream_find c sid = Some s \<longrightarrow> sending_over s)"

lemma consume_keeps:
  "consume_send_buf c s = ((c', s'), r) \<Longrightarrow> send_core c' = send_core c \<and> qs_id s' = qs_id s \<and> send_state s' = send_state s"
proof (induction c s rule: consume_send_buf.induct)
  case (1 c s)
  have n: "send_core c2 = send_core c1 \<and> qs_id s2 = qs_id s1 \<and> send_state s2 = send_state s1"
    if "maybe_notify_writable c1 s1 = (c2, s2)" for c1 c2 s1 s2
    using that by (auto simp: maybe_notify_writable_def tell_def send_core_def split: if_splits)
  have b: "send_core c2 = send_core c \<and> qs_id s2 = qs_id s \<and> send_state s2 = send_state s"
    if "blocked f c s = (c2, s2)" for f c2 s2
    using n [OF that [unfolded blocked_def]] queue_frames_core [of c]
    by (auto simp: queue_flush_def split: if_splits option.splits)
  note unf = "1.prems" [unfolded consume_send_buf.simps [of c s]]
  consider "send_buf s = []" | "send_buf s \<noteq> []" "stream_room s = 0 \<or> conn_room c = 0"
    | (send) "send_buf s \<noteq> []" "stream_room s \<noteq> 0" "conn_room c \<noteq> 0" by blast
  then show ?case
  proof cases
    case 1
    then show ?thesis using unf n [of c "s\<lparr>send_buf_fin := False, send_blocked := False\<rparr>" c' s'] by simp
  next
    case 2
    then show ?thesis using unf b by (auto split: if_splits)
  next
    case send
    define m where "m = chunk_size c s"
    define is_last where "is_last = (m \<ge> length (send_buf s) \<and> send_buf_fin s)"
    define w where "w = quic_frame_write_stream 2048 (u64of (qs_id s)) (u64of (send_offset s)) is_last (take m (send_buf s))"
    have run: "(case w of None \<Rightarrow> ((c, s), -1) | Some f \<Rightarrow> (case queue_frames c f of (c1, ok) \<Rightarrow>
        if \<not> ok then (maybe_notify_writable c1 (s\<lparr>send_blocked := True\<rparr>), -1)
        else consume_send_buf (c1\<lparr>bytes_sent := bytes_sent c1 + m\<rparr>)
          (s\<lparr>send_offset := send_offset s + m, send_buf := drop m (send_buf s), send_blocked := False\<rparr>))) = ((c', s'), r)"
      using unf send unfolding w_def is_last_def m_def by (simp add: Let_def)
    show ?thesis
    proof (cases w)
      case (Some f)
      obtain c1 ok where q: "queue_frames c f = (c1, ok)" by fastforce
      have c1: "send_core c1 = send_core c" "send_core (c1\<lparr>bytes_sent := k\<rparr>) = send_core c" for k
        using queue_frames_core [of c f] q by (simp_all add: send_core_def)
      show ?thesis
      proof (cases ok)
        case True
        note IH = "1.IH" [OF send m_def is_last_def Some [unfolded w_def] q [symmetric]]
        show ?thesis using run Some q True IH c1 by simp
      next
        case False
        then show ?thesis using run Some q c1 n [of c1 "s\<lparr>send_blocked := True\<rparr>" c' s'] by simp
      qed
    qed (use run in simp)
  qed
qed

lemma put_s_over:
  assumes "stream_find c (qs_id s) = Some s0" "sending_over s = sending_over s0"
  shows "over (put_s s c) = over c" "(stream_find (put_s s c) j = None) = (stream_find c j = None)"
  using assms by (auto simp: over_def fun_eq_iff find_put_s)

lemma write_keeps:
  assumes "quic_stream_write now sid d fin cb t c = (c', r)"
  shows "over c' = over c" "(stream_find c' j = None) = (stream_find c j = None)"
    "next_local_uni_id c' = next_local_uni_id c" "r < 0 \<longleftrightarrow> over c sid" "r = 0 \<or> r = 1 \<or> r = -1"
proof -
  let ?concl = "over c' = over c \<and> ((stream_find c' j = None) = (stream_find c j = None)) \<and>
    next_local_uni_id c' = next_local_uni_id c \<and> (r < 0 \<longleftrightarrow> over c sid) \<and> (r = 0 \<or> r = 1 \<or> r = -1)"
  have told: ?concl if "c' = tell es c" "r = -1" "over c sid" for es
  proof -
    have "send_core c' = send_core c" using that(1) by (simp add: tell_def send_core_def)
    from core_eq(3) [OF this] have f: "stream_find c' = stream_find c" .
    then have "over c' = over c" by (simp add: over_def fun_eq_iff)
    then show ?thesis using f that by (simp add: tell_def)
  qed
  have ?concl
  proof (cases "stream_find c sid")
    case None
    then show ?thesis using assms by (intro told) (auto simp: quic_stream_write_def Let_def over_def)
  next
    case (Some s)
    have id: "qs_id s = sid" using stream_find_id [OF Some] .
    have o: "over c sid = sending_over s" using Some by (simp add: over_def)
    have put: ?concl if "c' = put_s s' c1" "send_core c1 = send_core c" "qs_id s' = sid" "sending_over s' = sending_over s"
      "\<not> sending_over s" "r = 0 \<or> r = 1" for s' c1
    proof -
      have f: "stream_find c1 = stream_find c" using core_eq(3) [OF that(2)] .
      have "over c1 = over c" using f by (simp add: over_def fun_eq_iff)
      moreover have "next_local_uni_id c1 = next_local_uni_id c" using that(2) by (simp add: send_core_def)
      moreover have "stream_find c1 (qs_id s') = Some s" using f Some that(3) by simp
      ultimately show ?thesis using put_s_over [OF _ that(4), of c1] that f o by (auto simp: put_s_def)
    qed
    show ?thesis
    proof (cases "sending_over s")
      case True
      then show ?thesis using assms Some o by (intro told) (auto simp: quic_stream_write_def Let_def)
    next
      case False
      note live = False
      show ?thesis
      proof (cases "d \<noteq> [] \<and> length (send_buf s) + length d > QUIC_STREAM_SEND_HIGH_WATER")
        case True
        then have "c' = put_s (s\<lparr>want_writable := True\<rparr>) c" "r = 1"
          using assms Some live by (simp_all add: quic_stream_write_def Let_def)
        then show ?thesis using live id by (intro put [of "s\<lparr>want_writable := True\<rparr>" c]) (simp_all add: sending_over_def)
      next
        case False
        obtain s4 where s4: "qs_id s4 = sid" "\<not> sending_over s4" and
          w: "(case consume_send_buf c s4 of ((c5, s5), _) \<Rightarrow> case maybe_notify_writable c5 s5 of (c6, s6) \<Rightarrow> (put_s s6 c6, 0)) = (c', r)"
        proof -
          define s1 where "s1 = (case cb of None \<Rightarrow> s | Some user \<Rightarrow>
            s\<lparr>write_reqs := req_insert \<lparr>start_offset = send_offset s + length (send_buf s), req_length = length d,
              deadline_ms = (if t \<noteq> 0 then now + t else 0), req_user = user\<rparr> (write_reqs s)\<rparr>)"
          define s3 where "s3 = (if fin then (send_buf_append d s1)\<lparr>send_buf_fin := True\<rparr> else send_buf_append d s1)"
          define s4 where "s4 = (if send_state s3 = SEND_READY then s3\<lparr>send_state := SEND_SEND\<rparr> else s3)"
          have "quic_stream_write now sid d fin cb t c = (case consume_send_buf c s4 of ((c5, s5), _) \<Rightarrow>
              case maybe_notify_writable c5 s5 of (c6, s6) \<Rightarrow> (put_s s6 c6, 0))"
            unfolding quic_stream_write_def Let_def s4_def s3_def s1_def by (simp only: Some live False option.case if_False)
          moreover have "qs_id s4 = sid" "\<not> sending_over s4"
            using id live by (auto simp: s4_def s3_def s1_def send_buf_append_def sending_over_def split: option.splits)
          ultimately show thesis using that assms by simp
        qed
        obtain c5 s5 r5 where k: "consume_send_buf c s4 = ((c5, s5), r5)" by (metis prod.exhaust)
        obtain c6 s6 where n: "maybe_notify_writable c5 s5 = (c6, s6)" by fastforce
        have "send_core c6 = send_core c" "qs_id s6 = sid" "send_state s6 = send_state s4"
          using consume_keeps [OF k] n s4 by (auto simp: maybe_notify_writable_def tell_def send_core_def split: if_splits)
        then show ?thesis using w k n s4 live by (intro put [of s6 c6]) (auto simp: sending_over_def)
      qed
    qed
  qed
  then show "over c' = over c" "(stream_find c' j = None) = (stream_find c j = None)"
    "next_local_uni_id c' = next_local_uni_id c" "r < 0 \<longleftrightarrow> over c sid" "r = 0 \<or> r = 1 \<or> r = -1" by blast+
qed

end
