(* ===== verification/Moqlite_Wire.thy ===== *)
theory Moqlite_Wire
  imports Moq_Lite_Wire
begin

text \<open>
  The wire helpers of the C client, \<open>moqlite/moq_lite_wire.c\<close>: a second implementation of what
  \<open>Moq_Lite_Wire\<close> models, on shifts where that one goes through the QUIC codec. A \<open>MoqBuf\<close> is its octets, an encoder returns it
  with the C result (0 or -1); the capacity and a failing \<open>realloc\<close> are left out. Shown: the two implementations
  are the same functions, failing encoders included.
\<close>

section \<open>Buffer and integers\<close>

definition moq_buf_append :: "octets \<Rightarrow> octets \<Rightarrow> octets \<times> int" where
  "moq_buf_append b p = (b @ p, 0)"

definition moq_varint_size :: "u64 \<Rightarrow> nat" where
  "moq_varint_size v = (if v \<le> 63 then 1 else if v \<le> 16383 then 2 else if v \<le> 1073741823 then 4 else 8)"

definition MOQ_VARINT_MAX :: u64 where "MOQ_VARINT_MAX = push_bit 62 1 - 1"

definition moq_varint_write :: "octets \<Rightarrow> u64 \<Rightarrow> octets \<times> int" where
  "moq_varint_write b v =
     (if v > MOQ_VARINT_MAX then (b, -1)
      else
        let n = moq_varint_size v in
        moq_buf_append b
          (if n = 1 then [ucast v]
           else if n = 2 then [ucast (0x40 OR drop_bit 8 v), ucast v]
           else if n = 4 then [ucast (0x80 OR drop_bit 24 v), ucast (drop_bit 16 v), ucast (drop_bit 8 v), ucast v]
           else [ucast (0xC0 OR drop_bit 56 v), ucast (drop_bit 48 v), ucast (drop_bit 40 v), ucast (drop_bit 32 v),
                 ucast (drop_bit 24 v), ucast (drop_bit 16 v), ucast (drop_bit 8 v), ucast v]))"

text \<open>\<open>None\<close> is the result -1; the offset moves with the value.\<close>

definition moq_varint_read :: "octets \<Rightarrow> nat \<Rightarrow> nat \<Rightarrow> (u64 \<times> nat) option" where
  "moq_varint_read p len off =
     (if off \<ge> len then None
      else
        let first = p ! off; n = 2 ^ unat (drop_bit 6 first) in
        if len - off < n then None
        else Some (foldl (\<lambda>v i. push_bit 8 v OR ucast (p ! (off + i))) (ucast first AND 0x3F) [1..<n], off + n))"

section \<open>Zigzag, strings and messages\<close>

definition moq_zigzag_encode :: "u64 \<Rightarrow> u64 option" where
  "moq_zigzag_encode v =
     (if sint v < - (2 ^ 61) \<or> sint v > 2 ^ 61 - 1 then None else Some (push_bit 1 v XOR signed_drop_bit 63 v))"

definition moq_zigzag_decode :: "u64 \<Rightarrow> u64" where
  "moq_zigzag_decode v = drop_bit 1 v XOR (- (v AND 1))"

definition moq_str_write_n :: "octets \<Rightarrow> octets \<Rightarrow> octets \<times> int" where
  "moq_str_write_n b p =
     (case moq_varint_write b (word_of_nat (length p)) of (b1, rc) \<Rightarrow> if rc < 0 then (b1, -1) else moq_buf_append b1 p)"

text \<open>0, -1 (the length is not there yet) or -2 (longer than what is left), the offset after it, and the string.\<close>

definition moq_str_read :: "octets \<Rightarrow> nat \<Rightarrow> nat \<Rightarrow> int \<times> nat \<times> octets" where
  "moq_str_read p len off =
     (case moq_varint_read p len off of None \<Rightarrow> (-1, off, [])
      | Some (n, o1) \<Rightarrow> if unat n > len - o1 then (-2, o1, []) else (0, o1 + unat n, take (unat n) (drop o1 p)))"

definition MOQ_MAX_MESSAGE_SIZE :: u64 where "MOQ_MAX_MESSAGE_SIZE = 64 * 1024 * 1024"

datatype MoqMsgStatus = MOQ_MSG_OK nat nat | MOQ_MSG_NEED_MORE | MOQ_MSG_TOO_LARGE

definition moq_msg_read :: "octets \<Rightarrow> nat \<Rightarrow> nat \<Rightarrow> MoqMsgStatus" where
  "moq_msg_read p len off =
     (case moq_varint_read p len off of None \<Rightarrow> MOQ_MSG_NEED_MORE
      | Some (n, o1) \<Rightarrow>
          if n > MOQ_MAX_MESSAGE_SIZE then MOQ_MSG_TOO_LARGE
          else if unat n > len - o1 then MOQ_MSG_NEED_MORE
          else MOQ_MSG_OK o1 (unat n))"

text \<open>\<open>then_put\<close> runs the next writer where the one before returned 0, as the \<open>if (rc == 0) rc = ...\<close> lines do.\<close>

definition then_put :: "octets \<times> int \<Rightarrow> (octets \<Rightarrow> octets \<times> int) \<Rightarrow> octets \<times> int" where
  "then_put x f = (if snd x = 0 then f (fst x) else x)"

definition moq_msg_build :: "octets \<Rightarrow> bool \<Rightarrow> u64 \<Rightarrow> octets \<Rightarrow> octets \<times> int" where
  "moq_msg_build out typed ty body =
     (case (if typed then moq_varint_write out ty else (out, 0)) of (out1, rc1) \<Rightarrow>
        if rc1 < 0 then (out1, -1)
        else (case moq_varint_write out1 (word_of_nat (length body)) of (out2, rc2) \<Rightarrow>
                if rc2 < 0 then (out2, -1) else moq_buf_append out2 body))"

definition moq_put_stream_type :: "octets \<Rightarrow> u64 \<Rightarrow> octets \<times> int" where
  "moq_put_stream_type out ty = moq_varint_write out ty"

section \<open>Messages of the publisher role\<close>

text \<open>A body that could not be encoded leaves \<open>out\<close> as it was.\<close>

definition build_from :: "octets \<Rightarrow> bool \<Rightarrow> u64 \<Rightarrow> octets \<times> int \<Rightarrow> octets \<times> int" where
  "build_from out typed ty body = (if snd body = 0 then moq_msg_build out typed ty (fst body) else (out, snd body))"

definition moq_wire_announce_ok :: "octets \<Rightarrow> u64 \<Rightarrow> u64 \<Rightarrow> octets \<times> int" where
  "moq_wire_announce_ok out origin active =
     build_from out False 0 (then_put (moq_varint_write [] origin) (\<lambda>b. moq_varint_write b active))"

definition moq_wire_announce_start :: "octets \<Rightarrow> octets \<Rightarrow> u64 \<Rightarrow> u64 \<Rightarrow> octets \<times> int" where
  "moq_wire_announce_start out suffix warm cold =
     build_from out True 0
       (then_put (then_put (then_put (moq_str_write_n [] suffix) (\<lambda>b. moq_varint_write b 0))
          (\<lambda>b. moq_varint_write b warm)) (\<lambda>b. moq_varint_write b cold))"

definition moq_wire_subscribe_start :: "octets \<Rightarrow> u64 \<Rightarrow> octets \<times> int" where
  "moq_wire_subscribe_start out grp = build_from out True 0 (moq_varint_write [] grp)"

definition moq_wire_subscribe_end :: "octets \<Rightarrow> u64 \<Rightarrow> octets \<times> int" where
  "moq_wire_subscribe_end out grp = build_from out True 1 (moq_varint_write [] grp)"

definition moq_wire_track_info :: "octets \<Rightarrow> byte \<Rightarrow> u64 \<Rightarrow> u64 \<Rightarrow> octets \<times> int" where
  "moq_wire_track_info out priority max_age_ms timescale =
     build_from out False 0
       (then_put (then_put (moq_buf_append [] [priority]) (\<lambda>b. moq_varint_write b max_age_ms)) (\<lambda>b. moq_varint_write b timescale))"

definition moq_wire_group_header :: "octets \<Rightarrow> u64 \<Rightarrow> u64 \<Rightarrow> u64 \<Rightarrow> octets \<times> int" where
  "moq_wire_group_header out sub_id sq frame_start =
     build_from out False 0
       (then_put (then_put (moq_varint_write [] sub_id) (\<lambda>b. moq_varint_write b sq)) (\<lambda>b. moq_varint_write b frame_start))"

definition moq_wire_frame :: "octets \<Rightarrow> u64 \<Rightarrow> octets \<Rightarrow> octets \<times> int" where
  "moq_wire_frame out ts_delta payload =
     (case moq_zigzag_encode ts_delta of None \<Rightarrow> (out, -1)
      | Some zz \<Rightarrow>
          (case moq_varint_write out zz of (out1, rc1) \<Rightarrow>
             if rc1 < 0 then (out1, -1)
             else (case moq_varint_write out1 (word_of_nat (length payload)) of (out2, rc2) \<Rightarrow>
                     if rc2 < 0 then (out2, -1) else moq_buf_append out2 payload)))"

section \<open>The same functions as the server's\<close>

lemma octet_of: "(ucast (drop_bit (8 * k) v) :: byte) = word_of_nat (unat v div 256 ^ k)" for v :: u64
proof -
  have "unat (ucast (drop_bit (8 * k) v) :: byte) = unat (drop_bit (8 * k) v) mod 256"
    by (simp add: unsigned_ucast_eq take_bit_eq_mod)
  also have "\<dots> = (unat v div 256 ^ k) mod 256" by (simp only: unat_drop_bit power_mult) simp
  finally show ?thesis by (simp add: word_eq_iff_unsigned [where ?'a = nat])
qed

lemma octets_at: "(ucast v :: byte) = word_of_nat (unat v)" "(ucast (drop_bit 8 v) :: byte) = word_of_nat (unat v div 256)"
  "(ucast (drop_bit 16 v) :: byte) = word_of_nat (unat v div 65536)"
  "(ucast (drop_bit 24 v) :: byte) = word_of_nat (unat v div 16777216)"
  "(ucast (drop_bit 32 v) :: byte) = word_of_nat (unat v div 4294967296)"
  "(ucast (drop_bit 40 v) :: byte) = word_of_nat (unat v div 1099511627776)"
  "(ucast (drop_bit 48 v) :: byte) = word_of_nat (unat v div 281474976710656)"
  "(ucast (drop_bit 56 v) :: byte) = word_of_nat (unat v div 72057594037927936)"
  for v :: u64
  using octet_of [of 0 v] octet_of [of 1 v] octet_of [of 2 v] octet_of [of 3 v] octet_of [of 4 v] octet_of [of 5 v]
    octet_of [of 6 v] octet_of [of 7 v] by simp_all

lemma ucast_or: "(ucast (t OR v) :: byte) = ucast v OR ucast t" for t v :: u64
  by (rule bit_word_eqI) (auto simp: bit_simps)

lemma moq_varint_write_eq: "moq_varint_write b v = (case MlWriteVarint b v of (out, ok) \<Rightarrow> (out, if ok then 0 else -1))"
proof -
  have e: "be_bytes 8 n = word_of_nat (n div 256 ^ 7) # word_of_nat (n div 256 ^ 6) # word_of_nat (n div 256 ^ 5)
      # word_of_nat (n div 256 ^ 4) # be_bytes 4 n" for n
  proof -
    have "be_bytes (Suc (Suc (Suc (Suc 4)))) n = word_of_nat (n div 256 ^ Suc (Suc (Suc 4))) # word_of_nat (n div 256 ^ Suc (Suc 4))
      # word_of_nat (n div 256 ^ Suc 4) # word_of_nat (n div 256 ^ 4) # be_bytes 4 n"
      by (simp only: be_bytes.simps)
    then show ?thesis by simp
  qed
  consider "v > kMlVarintMax" | "v \<le> kMlVarintMax" "v \<le> 63" | "v \<le> kMlVarintMax" "\<not> v \<le> 63" "v \<le> 16383"
    | "v \<le> kMlVarintMax" "\<not> v \<le> 63" "\<not> v \<le> 16383" "v \<le> 1073741823" | "v \<le> kMlVarintMax" "\<not> v \<le> 63" "\<not> v \<le> 16383" "\<not> v \<le> 1073741823"
    by fastforce
  then show ?thesis
    by cases (simp_all add: moq_varint_write_def MlWriteVarint_def MOQ_VARINT_MAX_def kMlVarintMax_def moq_varint_size_def
        quic_varint_len_def quic_varint_encode_def Let_def moq_buf_append_def ucast_or octets_at [symmetric] e be_bytes_numeral del: of_nat_div)
qed

lemma first_octet_bits: "drop_bit 6 b AND 0x3 = drop_bit 6 b" for b :: byte
proof -
  have "(0x3 :: byte) = mask 2" by (simp add: mask_eq_exp_minus_1)
  then have "drop_bit 6 b AND 0x3 = take_bit 2 (drop_bit 6 b)" by (simp only: take_bit_eq_mask)
  also have "\<dots> = drop_bit 6 b" by (rule bit_word_eqI) (auto simp: bit_simps dest: bit_imp_le_length)
  finally show ?thesis .
qed

lemma foldl_index:
  "off + n \<le> length p \<Longrightarrow> foldl (\<lambda>v i. f v (p ! (off + i))) a [1..<n] = foldl f a (take (n - 1) (drop (off + 1) p))"
proof -
  assume "off + n \<le> length p"
  then have "take (n - 1) (drop (off + 1) p) = map (\<lambda>i. p ! (off + i)) [1..<n]"
    by (intro nth_equalityI) (auto simp: ac_simps)
  then show ?thesis by (simp add: foldl_map)
qed

lemma moq_varint_read_eq:
  assumes "len \<le> length p"
  shows "moq_varint_read p len off = MlReadVarint p len off"
proof (cases "off < len")
  case True
  define first where "first = p ! off"
  define n :: nat where "n = 2 ^ unat (drop_bit 6 first)"
  let ?d = "take (len - off) (drop off p)"
  have d: "?d = first # take (len - off - 1) (drop (off + 1) p)"
    using True assms by (cases "len - off") (simp_all add: first_def Cons_nth_drop_Suc [symmetric])
  show ?thesis
  proof (cases "len - off < n")
    case True
    then show ?thesis using \<open>off < len\<close> assms d
      by (simp add: moq_varint_read_def MlReadVarint_def quic_varint_decode_def Let_def first_octet_bits
          first_def [symmetric] n_def [symmetric])
  next
    case False
    have n1: "1 \<le> n" by (simp add: n_def)
    define r0 where "r0 = take (n - 1) (drop (off + 1) p)"
    have r: "take (n - 1) (take (len - off - 1) (drop (off + 1) p)) = r0" using False by (simp add: r0_def min_def)
    have len_r: "length r0 = n - 1" using False \<open>off < len\<close> assms by (simp add: r0_def)
    have u: "unat (drop_bit 6 first) < 4"
      using unat_byte_less [of first] by (simp only: unat_drop_bit) (simp add: less_mult_imp_div_less)
    then have n8: "n \<le> 8"
    proof -
      have "(2::nat) ^ unat (drop_bit 6 first) \<le> 2 ^ 3" using u by (intro power_increasing) auto
      then show ?thesis by (simp add: n_def)
    qed
    have m: "unat (ucast first AND 0x3F :: u64) = unat first mod 64"
    proof -
      have "unat (ucast first AND (push_bit 6 1 - 1) :: u64) = unat (ucast first :: u64) mod 2 ^ 6" by (rule word_and_mask_unat)
      then show ?thesis by (simp add: unat_ucast_octet)
    qed
    have "unat (foldl (\<lambda>v b. push_bit 8 v OR ucast b) (ucast first AND 0x3F :: u64) r0) = unat first mod 64 * 256 ^ (n - 1) + be_val r0"
    proof (subst unat_accumulate)
      have "unat first mod 64 * 256 ^ (n - 1) + be_val r0 < (unat first mod 64 + 1) * 256 ^ (n - 1)"
        using be_val_less [of r0] len_r by simp
      also have "\<dots> \<le> 64 * 256 ^ 7" using n8 by (intro mult_mono power_increasing) auto
      finally show "unat (ucast first AND 0x3F :: u64) * 256 ^ length r0 + be_val r0 < 2 ^ 64" by (simp add: m len_r)
    qed (simp add: m len_r)
    then have v: "foldl (\<lambda>v b. push_bit 8 v OR ucast b) (ucast first AND 0x3F :: u64) r0
        = word_of_nat (be_val ((if n = 1 then first else first AND 0x3F) # r0))"
    proof -
      have "n = 1 \<Longrightarrow> unat first mod 64 = unat first"
      proof -
        assume "n = 1"
        then have "unat (drop_bit 6 first) = 0" by (simp add: n_def)
        then have "unat first div 64 = 0" by (simp only: unat_drop_bit) simp
        then show ?thesis by (simp add: div_eq_0_iff)
      qed
      then have "be_val ((if n = 1 then first else first AND 0x3F) # r0) = unat first mod 64 * 256 ^ (n - 1) + be_val r0"
        by (simp add: unat_and_0x3F len_r)
      with \<open>unat (foldl _ _ _) = _\<close> have "unat (foldl (\<lambda>v b. push_bit 8 v OR ucast b) (ucast first AND 0x3F :: u64) r0)
          = be_val ((if n = 1 then first else first AND 0x3F) # r0)" by (simp only:)
      from arg_cong [OF this, of "word_of_nat :: nat \<Rightarrow> u64"] show ?thesis by (simp only: of_nat_unat ucast_id)
    qed
    have "moq_varint_read p len off = Some (foldl (\<lambda>v b. push_bit 8 v OR ucast b) (ucast first AND 0x3F) r0, off + n)"
      using False \<open>off < len\<close> assms foldl_index [of off n p "\<lambda>v b. push_bit 8 v OR ucast b" "ucast first AND 0x3F :: u64"]
      by (simp add: moq_varint_read_def Let_def first_def [symmetric] n_def [symmetric] r0_def)
    moreover have "MlReadVarint p len off
        = Some (word_of_nat (be_val ((if n = 1 then first else first AND 0x3F) # r0)), off + n)"
      using False \<open>off < len\<close> assms d r
      by (simp add: MlReadVarint_def quic_varint_decode_def Let_def first_octet_bits n_def [symmetric] del: be_val.simps)
    ultimately show ?thesis by (simp only: v)
  qed
qed (simp add: moq_varint_read_def MlReadVarint_def)

text \<open>A C++ result flag as a C result code, and a C++ status as a C one.\<close>

definition as_rc :: "octets \<times> bool \<Rightarrow> octets \<times> int" where
  "as_rc x = (fst x, if snd x then 0 else -1)"

fun as_status :: "ml_msg_status \<Rightarrow> MoqMsgStatus" where
  "as_status (kMlMsgOk off n) = MOQ_MSG_OK off n"
| "as_status kMlMsgNeedMore = MOQ_MSG_NEED_MORE"
| "as_status kMlMsgTooLarge = MOQ_MSG_TOO_LARGE"

lemma moq_varint_write_rc: "moq_varint_write b v = as_rc (MlWriteVarint b v)"
  by (simp add: moq_varint_write_eq as_rc_def case_prod_unfold)

lemma as_rc_simps [simp]: "as_rc (out, True) = (out, 0)" "as_rc (out, False) = (out, -1)"
  by (simp_all add: as_rc_def)

lemma moq_msg_build_eq: "moq_msg_build out typed ty body = as_rc (MlBuildMessage out typed ty body)"
  by (auto simp: moq_msg_build_def MlBuildMessage_def moq_varint_write_rc moq_buf_append_def Let_def split: prod.split)

lemma build_from_eq:
  "build_from out typed ty (b, 0) = as_rc (MlBuildMessage out typed ty b)" "build_from out typed ty (b, -1) = (out, -1)"
  by (simp_all add: build_from_def moq_msg_build_eq)

lemma andthen_simps [simp]: "then_put (b, 0) f = f b" "then_put (b, -1) f = (b, -1)"
  by (simp_all add: then_put_def)

lemmas moq_encoder_defs = moq_wire_announce_ok_def moq_wire_announce_start_def moq_wire_subscribe_start_def
  moq_wire_subscribe_end_def moq_wire_track_info_def moq_wire_group_header_def moq_wire_frame_def moq_str_write_n_def
  moq_buf_append_def moq_zigzag_encode_def

lemmas Ml_encoder_defs = MlBuildAnnounceOk_def MlAppendAnnounceStart_def MlBuildSubscribeStart_def MlBuildSubscribeEnd_def
  MlBuildTrackInfo_def MlBuildGroupHeader_def MlAppendFrame_def MlWriteString_def MlZigzagEncode_def kMlZigzagMin_def kMlZigzagMax_def

lemma encoders_agree:
  "moq_wire_announce_ok out a b = as_rc (MlBuildAnnounceOk out a b)"
  "moq_wire_announce_start out sfx a b = as_rc (MlAppendAnnounceStart out sfx a b)"
  "moq_wire_subscribe_start out a = as_rc (MlBuildSubscribeStart out a)"
  "moq_wire_subscribe_end out a = as_rc (MlBuildSubscribeEnd out a)"
  "moq_wire_track_info out pr a b = as_rc (MlBuildTrackInfo out pr a b)"
  "moq_wire_group_header out a b c = as_rc (MlBuildGroupHeader out a b c)"
  "moq_wire_frame out a d = as_rc (MlAppendFrame out a d)"
  "moq_str_write_n out d = as_rc (MlWriteString out d)"
  by (simp_all add: moq_encoder_defs Ml_encoder_defs moq_varint_write_rc MlWriteVarint_eq Let_def build_from_eq)

lemma moq_msg_read_eq:
  assumes "len \<le> length p"
  shows "moq_msg_read p len off = as_status (MlReadMessage p len off)"
  by (simp add: moq_msg_read_def MlReadMessage_def moq_varint_read_eq [OF assms] MOQ_MAX_MESSAGE_SIZE_def kMlMaxMessageSize_def
      split: option.split)

text \<open>
  C18. The server's C++ codec and the client's C codec are the same functions: every encoder writes the same octets
  and fails in the same cases, every decoder gives the same value, offset and status.
\<close>

theorem two_codecs_agree:
  assumes "len \<le> length p"
  shows "moq_varint_write out a = as_rc (MlWriteVarint out a) \<and> moq_wire_announce_ok out a b = as_rc (MlBuildAnnounceOk out a b)
    \<and> moq_wire_announce_start out d a b = as_rc (MlAppendAnnounceStart out d a b)
    \<and> moq_wire_subscribe_start out a = as_rc (MlBuildSubscribeStart out a) \<and> moq_wire_subscribe_end out a = as_rc (MlBuildSubscribeEnd out a)
    \<and> moq_wire_track_info out pr a b = as_rc (MlBuildTrackInfo out pr a b)
    \<and> moq_wire_group_header out a b c = as_rc (MlBuildGroupHeader out a b c) \<and> moq_wire_frame out a d = as_rc (MlAppendFrame out a d)
    \<and> moq_varint_read p len off = MlReadVarint p len off \<and> moq_msg_read p len off = as_status (MlReadMessage p len off)
    \<and> moq_zigzag_decode a = MlZigzagDecode a
    \<and> (case moq_str_read p len off of (rc, o1, s) \<Rightarrow> MlReadString p len off = (if rc = 0 then Some s else None, o1))"
proof -
  have "moq_zigzag_decode a = MlZigzagDecode a" by (simp add: moq_zigzag_decode_def MlZigzagDecode_def)
  moreover have "case moq_str_read p len off of (rc, o1, s) \<Rightarrow> MlReadString p len off = (if rc = 0 then Some s else None, o1)"
    by (simp add: moq_str_read_def MlReadString_def moq_varint_read_eq [OF assms] split: option.split)
  ultimately show ?thesis
    by (simp only: encoders_agree moq_varint_write_rc moq_varint_read_eq [OF assms] moq_msg_read_eq [OF assms] simp_thms)
qed

theorem two_codecs_agree_witness:
  "moq_varint_read [0x40, 0x41] 2 0 = MlReadVarint [0x40, 0x41] 2 0 \<and> MlReadVarint [0x40, 0x41] 2 0 = Some (65, 2)"
proof -
  have "MlReadVarint [0x40, 0x41] 2 0 = Some (65, 2)" by code_simp
  then show ?thesis using two_codecs_agree [of 2 "[0x40, 0x41]"] by simp
qed

end
