(* ===== verification/Moqlite_Client.thy ===== *)
theory Moqlite_Client
  imports Moqlite_Wire
begin

text \<open>
  The C client, \<open>moqlite/moq_lite_client.c\<close>: its objects and tables, and the subscriber's side. The process-wide table \<open>g_ctx\<close> is
  a record; a pointer to an object is its slot, 0 (or \<open>None\<close>) where the code has \<open>NULL\<close>; a stream pointer of the transport is the stream's
  number. What the code asks of the transport and the callbacks it makes are the list \<open>g_out\<close>, in order. Not modelled: locks, allocation failure, callbacks that
  were not set or that call back into the library, log output, the error text.
\<close>

section \<open>Objects\<close>

datatype MoqStreamKind = kStreamSetup | kStreamAnnounce | kStreamGroup | kStreamSubscribe | kStreamTrack

record MoqStream =
  r_s :: nat
  r_kind :: MoqStreamKind
  r_done :: bool
  r_fin :: bool
  r_typed :: bool
  r_local :: bool
  r_uni :: bool
  r_buf :: octets
  r_sub :: nat
  hdr_done :: bool
  group_end_notified :: bool
  sub_id_in_group :: u64
  r_group :: u64
  r_frame_index :: u64
  ts_acc :: u64
  ann_ok_done :: bool
  ann_expect :: u64
  ann_next_id :: u64
  req_prefix :: "octets option"

datatype MoqSubPhase = kPhaseTrackReq | kPhaseSubReq | kPhaseFrames

record MoqSub =
  sub_slot :: nat
  sub_used :: bool
  sub_dead :: bool
  sub_sess :: nat
  sub_bc :: nat
  sub_id :: u64
  sub_track :: octets
  sub_stream :: "nat option"
  track_stream :: "nat option"
  sub_phase :: MoqSubPhase
  track_req_sent :: bool
  sub_req_sent :: bool
  sub_started :: bool
  sub_groups :: nat
  sub_frames :: nat

record MoqBc =
  bc_slot :: nat
  bc_used :: bool
  bc_dead :: bool
  bc_synthetic :: bool
  bc_sess :: nat
  bc_prefix :: octets
  bc_suffix :: octets
  bc_path :: octets
  ann_id :: u64

record ServeFrame =
  sf_ts_us :: u64
  sf_data :: octets

record MoqPubTrack =
  t_slot :: nat
  t_used :: bool
  t_dead :: bool
  t_is_video :: bool
  t_name :: octets
  t_codec :: octets
  t_config :: octets
  t_width :: nat
  t_height :: nat
  t_sample_rate :: nat
  t_channels :: nat
  t_bitrate :: nat
  hold :: "ServeFrame list"
  hold_bytes :: nat
  t_pub :: nat

record MoqPub =
  p_slot :: nat
  p_used :: bool
  p_dead :: bool
  p_path :: octets
  p_sess :: nat
  p_tracks :: "nat list"
  catalog :: octets
  announced :: bool

record MoqServeSub =
  ss_used :: bool
  ss_dead :: bool
  ss_sid :: u64
  ss_sub_stream :: nat
  ss_track :: nat
  ss_started :: bool
  ss_group_seq :: u64
  ss_uni :: "nat option"
  ss_group_prev_us :: u64
  ss_group_open_us :: u64
  ss_group_had_media :: bool
  next_audio_us :: u64
  ss_frames :: nat
  group_opening :: bool
  pend :: "ServeFrame list"
  cat_pub :: nat

datatype OpenKind = kOpenSetup | kOpenAnnounce | kOpenTrack | kOpenSubscribe | kOpenTrackGroup | kOpenAnnounceReply | kOpenTrackInfo

record PendingOpen =
  po_kind :: OpenKind
  po_sub :: nat
  po_box :: nat

text \<open>The objects behind \<open>serve_subs\<close> are never freed before the session: a box is a position in the list.\<close>

record MoqSession =
  s_slot :: nat
  s_used :: bool
  s_dead :: bool
  closing :: bool
  connecting :: bool
  connected :: bool
  s_path :: octets
  setup_stream :: "nat option"
  setup_sent :: bool
  announce_stream :: "nat option"
  announce_sent :: bool
  s_streams :: "MoqStream list"
  s_bcs :: "nat list"
  role :: nat
  s_pubs :: "nat list"
  serve_subs :: "MoqServeSub list"
  s_pending :: "PendingOpen list"

datatype action = OpenStream nat | OpenUniStream nat | StreamWrite nat nat octets bool | StreamReset nat nat nat
  | ClientConnect nat octets int | ClientClose nat
  | OnConnected nat int | OnAnnounce nat nat octets octets | OnAnnounceEnd nat nat | OnClose nat int
  | OnSubscribe nat u64 | OnFrame nat u64 u64 u64 octets | OnTrackInfo nat byte u64 u64 | OnSubscribeEnd nat u64
  | OnDrop nat u64 u64 u64 | OnGroupEnd nat u64

record MoqCtx =
  g_sessions :: "MoqSession option list"
  g_subs :: "MoqSub option list"
  g_bcs :: "MoqBc option list"
  g_pubs :: "MoqPub option list"
  g_tracks :: "MoqPubTrack option list"
  g_out :: "action list"

section \<open>Tables\<close>

definition at :: "'a option list \<Rightarrow> nat \<Rightarrow> 'a option" where
  "at xs i = (if i < length xs then xs ! i else None)"

definition alloc_slot :: "'a option list \<Rightarrow> 'a \<Rightarrow> 'a option list \<times> nat" where
  "alloc_slot xs x = (let ys = (if xs = [] then [None] else xs) in (ys @ [Some x], length ys))"

definition upd :: "nat \<Rightarrow> ('a \<Rightarrow> 'a) \<Rightarrow> 'a option list \<Rightarrow> 'a option list" where
  "upd i f xs = xs[i := map_option f (at xs i)]"

definition signal :: "action \<Rightarrow> MoqCtx \<Rightarrow> MoqCtx" where
  "signal a c = c\<lparr>g_out := g_out c @ [a]\<rparr>"

definition new_session :: MoqSession where
  "new_session = \<lparr>s_slot = 0, s_used = False, s_dead = False, closing = False, connecting = False, connected = False,
     s_path = [], setup_stream = None, setup_sent = False, announce_stream = None, announce_sent = False, s_streams = [],
     s_bcs = [], role = 0, s_pubs = [], serve_subs = [], s_pending = []\<rparr>"

text \<open>The session a callback or an object points at.\<close>

definition sess :: "MoqCtx \<Rightarrow> nat \<Rightarrow> MoqSession" where
  "sess c h = (case at (g_sessions c) h of Some s \<Rightarrow> s | None \<Rightarrow> new_session)"

definition on_sess :: "nat \<Rightarrow> (MoqSession \<Rightarrow> MoqSession) \<Rightarrow> MoqCtx \<Rightarrow> MoqCtx" where
  "on_sess h f c = c\<lparr>g_sessions := upd h f (g_sessions c)\<rparr>"

definition on_sub :: "nat \<Rightarrow> (MoqSub \<Rightarrow> MoqSub) \<Rightarrow> MoqCtx \<Rightarrow> MoqCtx" where
  "on_sub i f c = c\<lparr>g_subs := upd i f (g_subs c)\<rparr>"

definition on_bc :: "nat \<Rightarrow> (MoqBc \<Rightarrow> MoqBc) \<Rightarrow> MoqCtx \<Rightarrow> MoqCtx" where
  "on_bc i f c = c\<lparr>g_bcs := upd i f (g_bcs c)\<rparr>"

definition session_get :: "MoqCtx \<Rightarrow> nat \<Rightarrow> MoqSession option" where
  "session_get c h = (case at (g_sessions c) h of None \<Rightarrow> None
     | Some s \<Rightarrow> if s_used s \<and> \<not> s_dead s \<and> s_slot s = h then Some s else None)"

definition sub_get :: "MoqCtx \<Rightarrow> nat \<Rightarrow> MoqSub option" where
  "sub_get c h = (case at (g_subs c) h of None \<Rightarrow> None | Some s \<Rightarrow> if sub_used s \<and> sub_slot s = h then Some s else None)"

definition bc_get :: "MoqCtx \<Rightarrow> nat \<Rightarrow> MoqBc option" where
  "bc_get c h = (case at (g_bcs c) h of None \<Rightarrow> None
     | Some b \<Rightarrow> if bc_used b \<and> \<not> bc_dead b \<and> bc_slot b = h then Some b else None)"

definition pub_get :: "MoqCtx \<Rightarrow> nat \<Rightarrow> MoqPub option" where
  "pub_get c h = (if h = 0 then None else case at (g_pubs c) h of None \<Rightarrow> None
     | Some p \<Rightarrow> if p_used p \<and> \<not> p_dead p \<and> p_slot p = h then Some p else None)"

definition track_get :: "MoqCtx \<Rightarrow> nat \<Rightarrow> MoqPubTrack option" where
  "track_get c h = (if h = 0 then None else case at (g_tracks c) h of None \<Rightarrow> None
     | Some t \<Rightarrow> if t_used t \<and> \<not> t_dead t \<and> t_slot t = h then Some t else None)"

section \<open>Stream records\<close>

text \<open>\<open>quic_client_stream_is_uni\<close>: the second lowest bit of the number.\<close>

definition is_uni :: "nat \<Rightarrow> bool" where "is_uni st \<longleftrightarrow> st div 2 mod 2 = 1"

definition cl_stream_find :: "MoqSession \<Rightarrow> nat \<Rightarrow> MoqStream option" where
  "cl_stream_find s st = find (\<lambda>r. r_s r = st) (s_streams s)"

definition new_stream_record :: "nat \<Rightarrow> MoqStreamKind \<Rightarrow> bool \<Rightarrow> MoqStream" where
  "new_stream_record st k loc = \<lparr>r_s = st, r_kind = k, r_done = False, r_fin = False, r_typed = loc, r_local = loc,
     r_uni = is_uni st, r_buf = [], r_sub = 0, hdr_done = False, group_end_notified = False, sub_id_in_group = 0, r_group = 0,
     r_frame_index = 0, ts_acc = 0, ann_ok_done = False, ann_expect = 0, ann_next_id = 0, req_prefix = None\<rparr>"

definition stream_add :: "nat \<Rightarrow> MoqStream \<Rightarrow> MoqCtx \<Rightarrow> MoqCtx" where
  "stream_add h r = on_sess h (\<lambda>s. s\<lparr>s_streams := s_streams s @ [r]\<rparr>)"

text \<open>The hole takes the last record.\<close>

fun remove_swap :: "nat \<Rightarrow> MoqStream list \<Rightarrow> MoqStream list" where
  "remove_swap st [] = []"
| "remove_swap st (r # rs) = (if r_s r = st then (if rs = [] then [] else last rs # butlast rs) else r # remove_swap st rs)"

definition stream_remove :: "nat \<Rightarrow> nat \<Rightarrow> MoqCtx \<Rightarrow> MoqCtx" where
  "stream_remove h st = on_sess h (\<lambda>s. s\<lparr>s_streams := remove_swap st (s_streams s)\<rparr>)"

definition store_stream :: "nat \<Rightarrow> MoqStream \<Rightarrow> MoqCtx \<Rightarrow> MoqCtx" where
  "store_stream h r = on_sess h (\<lambda>s. s\<lparr>s_streams := map (\<lambda>q. if r_s q = r_s r then r else q) (s_streams s)\<rparr>)"

section \<open>Requests\<close>

definition kUniSetup :: u64 where "kUniSetup = 1"
definition kBidiAnnounce :: u64 where "kBidiAnnounce = 1"
definition kBidiSubscribe :: u64 where "kBidiSubscribe = 2"
definition kBidiTrack :: u64 where "kBidiTrack = 6"
definition kParamPath :: u64 where "kParamPath = 2"
definition kParamRole :: u64 where "kParamRole = 3"
definition kStreamInternalError :: nat where "kStreamInternalError = 0"
definition kStreamCancelled :: nat where "kStreamCancelled = 1"
definition MOQ_SUB_MAX_AGE_MS :: u64 where "MOQ_SUB_MAX_AGE_MS = 5000"
definition MOQ_MAX_HOPS :: u64 where "MOQ_MAX_HOPS = 32"
definition MOQ_MAX_RECV_BUF :: nat where "MOQ_MAX_RECV_BUF = 64 * 1024 * 1024 + 1024"

definition pending_push3 :: "nat \<Rightarrow> OpenKind \<Rightarrow> nat \<Rightarrow> nat \<Rightarrow> MoqCtx \<Rightarrow> MoqCtx" where
  "pending_push3 h k sub box = on_sess h (\<lambda>s. s\<lparr>s_pending := s_pending s @ [\<lparr>po_kind = k, po_sub = sub, po_box = box\<rparr>]\<rparr>)"

definition write_ctrl :: "nat \<Rightarrow> nat \<Rightarrow> u64 \<Rightarrow> octets \<Rightarrow> MoqCtx \<Rightarrow> MoqCtx \<times> bool" where
  "write_ctrl h st stream_type body c =
     (case then_put (moq_put_stream_type [] stream_type) (\<lambda>o1. moq_msg_build o1 False 0 body) of
        (out, rc) \<Rightarrow> if rc = 0 then (signal (StreamWrite h st out False) c, True) else (c, False))"

definition path_param :: "octets \<Rightarrow> octets \<times> int" where
  "path_param path =
     (case moq_str_write_n [] path of
        (v, rc) \<Rightarrow> if rc < 0 then ([], rc)
                  else then_put (then_put (moq_varint_write [] kParamPath) (\<lambda>p. moq_varint_write p (word_of_nat (length v))))
                         (\<lambda>p. moq_buf_append p v))"

definition setup_message :: "octets \<Rightarrow> nat \<Rightarrow> octets \<times> int" where
  "setup_message path rl =
     (let params = then_put (then_put (then_put (if path \<noteq> [] then path_param path else ([], 0))
                     (\<lambda>p. moq_varint_write p kParamRole)) (\<lambda>p. moq_varint_write p 1)) (\<lambda>p. moq_varint_write p (word_of_nat rl));
          body = then_put params (\<lambda>p. then_put (moq_varint_write [] (if path \<noteq> [] then 2 else 1)) (\<lambda>b. moq_buf_append b p)) in
      then_put body (\<lambda>b. then_put (moq_put_stream_type [] kUniSetup) (\<lambda>o1. moq_msg_build o1 False 0 b)))"

definition session_send_setup :: "nat \<Rightarrow> MoqCtx \<Rightarrow> MoqCtx" where
  "session_send_setup h c =
     (case setup_stream (sess c h) of None \<Rightarrow> c
      | Some st \<Rightarrow>
          if setup_sent (sess c h) then c
          else
            let c1 = on_sess h (\<lambda>s. s\<lparr>setup_sent := True\<rparr>) c in
            case setup_message (s_path (sess c h)) (role (sess c h)) of
              (out, rc) \<Rightarrow> if rc = 0 then signal (StreamWrite h st out True) c1 else c1)"

definition session_send_announce :: "nat \<Rightarrow> octets \<Rightarrow> MoqCtx \<Rightarrow> MoqCtx" where
  "session_send_announce h prefix c =
     (case announce_stream (sess c h) of None \<Rightarrow> c
      | Some st \<Rightarrow>
          if announce_sent (sess c h) then c
          else
            let c1 = (case cl_stream_find (sess c h) st of None \<Rightarrow> c | Some r \<Rightarrow> store_stream h (r\<lparr>req_prefix := Some prefix\<rparr>) c) in
            case moq_str_write_n [] prefix of
              (body, rc) \<Rightarrow>
                if rc < 0 then signal (StreamReset h st kStreamInternalError) c1
                else (case write_ctrl h st kBidiAnnounce body c1 of
                        (c2, ok) \<Rightarrow> if ok then on_sess h (\<lambda>s. s\<lparr>announce_sent := True\<rparr>) c2
                                   else signal (StreamReset h st kStreamInternalError) c2))"

definition join_path :: "octets \<Rightarrow> octets \<Rightarrow> octets" where
  "join_path a b = (if a = [] then b else if b = [] then a else a @ [0x2F] @ b)"

section \<open>Subscribing\<close>

definition sub_open_track :: "nat \<Rightarrow> MoqCtx \<Rightarrow> MoqCtx" where
  "sub_open_track i c = (case at (g_subs c) i of None \<Rightarrow> c
     | Some sub \<Rightarrow> if track_stream sub \<noteq> None \<or> sub_dead sub then c
                   else signal (OpenStream (sub_sess sub)) (pending_push3 (sub_sess sub) kOpenTrack i 0 c))"

definition sub_open_subscribe :: "nat \<Rightarrow> MoqCtx \<Rightarrow> MoqCtx" where
  "sub_open_subscribe i c = (case at (g_subs c) i of None \<Rightarrow> c
     | Some sub \<Rightarrow> if sub_stream sub \<noteq> None \<or> sub_dead sub then c
                   else signal (OpenStream (sub_sess sub)) (pending_push3 (sub_sess sub) kOpenSubscribe i 0 c))"

definition sub_path :: "MoqCtx \<Rightarrow> MoqSub \<Rightarrow> octets" where
  "sub_path c sub = (case at (g_bcs c) (sub_bc sub) of None \<Rightarrow> [] | Some b \<Rightarrow> bc_path b)"

definition subscribe_body :: "u64 \<Rightarrow> octets \<Rightarrow> octets \<Rightarrow> octets \<times> int" where
  "subscribe_body i path track =
     then_put (then_put (then_put (then_put (then_put (then_put (then_put (then_put (moq_varint_write [] i) (\<lambda>b. moq_str_write_n b path))
       (\<lambda>b. moq_str_write_n b track)) (\<lambda>b. moq_buf_append b [0])) (\<lambda>b. moq_varint_write b MOQ_SUB_MAX_AGE_MS))
       (\<lambda>b. moq_varint_write b 0)) (\<lambda>b. moq_varint_write b 0)) (\<lambda>b. moq_varint_write b 0)) (\<lambda>b. moq_varint_write b 0)"

definition sub_pump :: "nat \<Rightarrow> MoqCtx \<Rightarrow> MoqCtx" where
  "sub_pump i c = (case at (g_subs c) i of None \<Rightarrow> c
     | Some sub \<Rightarrow>
        if sub_dead sub \<or> s_dead (sess c (sub_sess sub)) then c
        else if sub_phase sub = kPhaseTrackReq then
          (case track_stream sub of None \<Rightarrow> c
           | Some st \<Rightarrow>
               if track_req_sent sub then c
               else case then_put (moq_str_write_n [] (sub_path c sub)) (\<lambda>b. moq_str_write_n b (sub_track sub)) of
                 (body, rc) \<Rightarrow>
                   (case (if rc = 0 then write_ctrl (sub_sess sub) st kBidiTrack body c else (c, False)) of
                      (c1, True) \<Rightarrow> on_sub i (\<lambda>s. s\<lparr>track_req_sent := True\<rparr>) c1
                    | (c1, False) \<Rightarrow> sub_open_subscribe i (on_sub i (\<lambda>s. s\<lparr>sub_phase := kPhaseSubReq\<rparr>)
                                       (signal (StreamReset (sub_sess sub) st kStreamInternalError) c1))))
        else if sub_phase sub = kPhaseSubReq then
          (case sub_stream sub of None \<Rightarrow> c
           | Some st \<Rightarrow>
               if sub_req_sent sub then c
               else case subscribe_body (sub_id sub) (sub_path c sub) (sub_track sub) of
                 (body, rc) \<Rightarrow>
                   (case (if rc = 0 then write_ctrl (sub_sess sub) st kBidiSubscribe body c else (c, False)) of
                      (c1, True) \<Rightarrow> on_sub i (\<lambda>s. s\<lparr>sub_req_sent := True, sub_phase := kPhaseFrames\<rparr>) c1
                    | (c1, False) \<Rightarrow> signal (StreamReset (sub_sess sub) st kStreamInternalError) c1))
        else c)"

section \<open>Frames\<close>

text \<open>The timestamp and the octets after it; \<open>None\<close> is \<open>MOQ_LITE_ERR_ARGS\<close>.\<close>

definition moq_lite_strip_container_ts :: "octets \<Rightarrow> (u64 \<times> octets) option" where
  "moq_lite_strip_container_ts payload =
     (if payload = [] then None
      else case moq_varint_read payload (length payload) 0 of None \<Rightarrow> None | Some (v, off) \<Rightarrow> Some (v, drop off payload))"

definition sub_deliver_frame :: "nat \<Rightarrow> u64 \<Rightarrow> u64 \<Rightarrow> u64 \<Rightarrow> octets \<Rightarrow> MoqCtx \<Rightarrow> MoqCtx" where
  "sub_deliver_frame i grp idx ts_delta payload c =
     (if payload = [] then c
      else case moq_varint_read payload (length payload) 0 of
        Some (_, off) \<Rightarrow> if off \<ge> length payload then c
                         else signal (OnFrame i grp idx ts_delta payload) (on_sub i (\<lambda>s. s\<lparr>sub_frames := sub_frames s + 1\<rparr>) c)
      | None \<Rightarrow> signal (OnFrame i grp idx ts_delta payload) (on_sub i (\<lambda>s. s\<lparr>sub_frames := sub_frames s + 1\<rparr>) c))"

definition session_sub_by_id :: "nat \<Rightarrow> u64 \<Rightarrow> MoqCtx \<Rightarrow> nat option" where
  "session_sub_by_id h i c = find (\<lambda>k. case at (g_subs c) k of None \<Rightarrow> False
     | Some sub \<Rightarrow> sub_used sub \<and> sub_sess sub = h \<and> sub_id sub = i) [0..<length (g_subs c)]"

text \<open>
  Messages stand back to back, each an integer (a type, or a time difference), a length and a body.
\<close>

datatype record_at = NoRecord | RecordTooLarge | RecordAt u64 octets octets

definition next_record :: "octets \<Rightarrow> record_at" where
  "next_record b =
     (case moq_varint_read b (length b) 0 of None \<Rightarrow> NoRecord
      | Some (v, off) \<Rightarrow>
          (case moq_msg_read b (length b) off of
             MOQ_MSG_TOO_LARGE \<Rightarrow> RecordTooLarge
           | MOQ_MSG_NEED_MORE \<Rightarrow> NoRecord
           | MOQ_MSG_OK boff blen \<Rightarrow> RecordAt v (take blen (drop boff b)) (drop (boff + blen) b)))"

lemma moq_varint_read_moves: "moq_varint_read p len off = Some (v, o1) \<Longrightarrow> off < o1 \<and> o1 \<le> len"
  by (auto simp: moq_varint_read_def Let_def split: if_splits)

lemma next_record_shorter: "next_record b = RecordAt v body rest \<Longrightarrow> length rest < length b"
  by (auto simp: next_record_def moq_msg_read_def dest!: moq_varint_read_moves split: option.splits if_splits) arith

text \<open>The first frame of a group decides, and the loop leaves a \<open>done\<close> stream behind where a length is too large.\<close>

function parse_frames :: "nat \<Rightarrow> MoqStream \<Rightarrow> MoqCtx \<Rightarrow> (MoqStream \<times> MoqCtx) \<times> bool" where
  "parse_frames h r c =
     (case next_record (r_buf r) of
        NoRecord \<Rightarrow> ((r, c), True)
      | RecordTooLarge \<Rightarrow> ((r\<lparr>r_done := True\<rparr>, signal (StreamReset h (r_s r) kStreamInternalError) c), False)
      | RecordAt zz body rest \<Rightarrow>
          parse_frames h (r\<lparr>ts_acc := ts_acc r + moq_zigzag_decode zz, r_buf := rest, r_frame_index := r_frame_index r + 1\<rparr>)
            (case session_sub_by_id h (sub_id_in_group r) c of None \<Rightarrow> c
             | Some i \<Rightarrow> sub_deliver_frame i (r_group r) (r_frame_index r) (moq_zigzag_decode zz) body c))"
  by auto
termination
by (relation "measure (\<lambda>(h, r, c). length (r_buf r))") (auto dest: next_record_shorter)

declare parse_frames.simps [simp del]

definition parse_group_fin :: "nat \<Rightarrow> MoqStream \<Rightarrow> MoqCtx \<Rightarrow> MoqStream \<times> MoqCtx" where
  "parse_group_fin h r c =
     (if \<not> r_fin r then (r, c)
      else if hdr_done r \<and> \<not> group_end_notified r
      then (r\<lparr>group_end_notified := True, r_done := True\<rparr>,
            case session_sub_by_id h (sub_id_in_group r) c of None \<Rightarrow> c | Some i \<Rightarrow> signal (OnGroupEnd i (r_group r)) c)
      else (r\<lparr>r_done := True\<rparr>, c))"

definition parse_group_body :: "nat \<Rightarrow> MoqStream \<Rightarrow> MoqCtx \<Rightarrow> MoqStream \<times> MoqCtx" where
  "parse_group_body h r c = (case parse_frames h r c of ((r1, c1), True) \<Rightarrow> parse_group_fin h r1 c1 | ((r1, c1), False) \<Rightarrow> (r1, c1))"

text \<open>The three integers of a group header that fill the message exactly.\<close>

definition group_header :: "octets \<Rightarrow> (u64 \<times> u64 \<times> u64) option" where
  "group_header b =
     (case moq_varint_read b (length b) 0 of None \<Rightarrow> None
      | Some (i, o1) \<Rightarrow> (case moq_varint_read b (length b) o1 of None \<Rightarrow> None
          | Some (sq, o2) \<Rightarrow> (case moq_varint_read b (length b) o2 of None \<Rightarrow> None
              | Some (fs, o3) \<Rightarrow> if o3 = length b then Some (i, sq, fs) else None)))"

definition parse_group :: "nat \<Rightarrow> MoqStream \<Rightarrow> MoqCtx \<Rightarrow> MoqStream \<times> MoqCtx" where
  "parse_group h r c =
     (if hdr_done r then parse_group_body h r c
      else case moq_msg_read (r_buf r) (length (r_buf r)) 0 of
        MOQ_MSG_TOO_LARGE \<Rightarrow> (r\<lparr>r_done := True\<rparr>, signal (StreamReset h (r_s r) kStreamInternalError) c)
      | MOQ_MSG_NEED_MORE \<Rightarrow> (if r_fin r then r\<lparr>r_done := True\<rparr> else r, c)
      | MOQ_MSG_OK off blen \<Rightarrow>
          (case group_header (take blen (drop off (r_buf r))) of
             None \<Rightarrow> (r\<lparr>r_done := True\<rparr>, signal (StreamReset h (r_s r) kStreamInternalError) c)
           | Some (i, sq, fs) \<Rightarrow>
               (case session_sub_by_id h i c of
                  None \<Rightarrow> (r\<lparr>r_done := True\<rparr>, signal (StreamReset h (r_s r) kStreamCancelled) c)
                | Some k \<Rightarrow>
                    parse_group_body h
                      (r\<lparr>hdr_done := True, sub_id_in_group := i, r_group := sq, r_frame_index := fs, ts_acc := 0,
                         r_buf := drop (off + blen) (r_buf r)\<rparr>)
                      (on_sub k (\<lambda>s. s\<lparr>sub_groups := sub_groups s + 1\<rparr>) c))))"

section \<open>Announcements\<close>

definition kAnnStart :: u64 where "kAnnStart = 0"
definition kAnnEnd :: u64 where "kAnnEnd = 1"

text \<open>The C string a string of the wire is copied to ends at its first zero octet.\<close>

definition c_str :: "octets \<Rightarrow> octets" where "c_str d = takeWhile (\<lambda>b. b \<noteq> 0) d"

fun skip_varints :: "nat \<Rightarrow> octets \<Rightarrow> nat \<Rightarrow> nat option" where
  "skip_varints 0 b pos = Some pos"
| "skip_varints (Suc n) b pos = (case moq_varint_read b (length b) pos of None \<Rightarrow> None | Some (_, o1) \<Rightarrow> skip_varints n b o1)"

definition announce_start_suffix :: "octets \<Rightarrow> octets option" where
  "announce_start_suffix body =
     (case moq_str_read body (length body) 0 of
        (rc, o1, suffix) \<Rightarrow>
          if rc \<noteq> 0 then None
          else (case moq_varint_read body (length body) o1 of None \<Rightarrow> None
            | Some (hops, o2) \<Rightarrow>
                if hops > MOQ_MAX_HOPS then None
                else (case skip_varints (unat hops + 2) body o2 of None \<Rightarrow> None
                  | Some pos \<Rightarrow> if pos = length body then Some suffix else None)))"

definition announce_start :: "nat \<Rightarrow> octets \<Rightarrow> octets \<Rightarrow> u64 \<Rightarrow> MoqCtx \<Rightarrow> MoqCtx" where
  "announce_start h prefix suffix i c =
     (case alloc_slot (g_bcs c) \<lparr>bc_slot = 0, bc_used = True, bc_dead = False, bc_synthetic = False, bc_sess = h,
          bc_prefix = c_str prefix, bc_suffix = c_str suffix, bc_path = join_path (c_str prefix) (c_str suffix), ann_id = i\<rparr> of
        (bcs, k) \<Rightarrow>
          signal (OnAnnounce h k (join_path (c_str prefix) (c_str suffix)) (c_str suffix))
            (on_sess h (\<lambda>s. s\<lparr>s_bcs := s_bcs s @ [k]\<rparr>) (c\<lparr>g_bcs := upd k (\<lambda>b. b\<lparr>bc_slot := k\<rparr>) bcs\<rparr>)))"

definition announce_end :: "nat \<Rightarrow> u64 \<Rightarrow> MoqCtx \<Rightarrow> MoqCtx" where
  "announce_end h i c =
     foldl (\<lambda>c k. case at (g_bcs c) k of None \<Rightarrow> c
        | Some b \<Rightarrow> if \<not> bc_dead b \<and> \<not> bc_synthetic b \<and> ann_id b = i
                    then signal (OnAnnounceEnd h k) (on_bc k (\<lambda>b. b\<lparr>bc_dead := True\<rparr>) c) else c) c (s_bcs (sess c h))"

text \<open>A message that does not parse resets the stream and stops, with the message still in the buffer.\<close>

function parse_announcements :: "nat \<Rightarrow> MoqStream \<Rightarrow> MoqCtx \<Rightarrow> (MoqStream \<times> MoqCtx) \<times> bool" where
  "parse_announcements h r c =
     (let bad = ((r, signal (StreamReset h (r_s r) kStreamInternalError) c), False) in
      case next_record (r_buf r) of
        NoRecord \<Rightarrow> ((r, c), True)
      | RecordTooLarge \<Rightarrow> bad
      | RecordAt ty body rest \<Rightarrow>
          if ty = kAnnStart then
            (case announce_start_suffix body of None \<Rightarrow> bad
             | Some suffix \<Rightarrow>
                 parse_announcements h
                   (r\<lparr>ann_next_id := ann_next_id r + 1, ann_expect := (if ann_expect r > 0 then ann_expect r - 1 else 0), r_buf := rest\<rparr>)
                   (announce_start h (case req_prefix r of None \<Rightarrow> [] | Some p \<Rightarrow> p) suffix (ann_next_id r) c))
          else if ty = kAnnEnd then
            (case moq_varint_read body (length body) 0 of
               Some (i, pos) \<Rightarrow> if pos = length body then parse_announcements h (r\<lparr>r_buf := rest\<rparr>) (announce_end h i c) else bad
             | None \<Rightarrow> bad)
          else parse_announcements h (r\<lparr>r_buf := rest\<rparr>) c)"
  by auto
termination
by (relation "measure (\<lambda>(h, r, c). length (r_buf r))") (auto dest: next_record_shorter)

declare parse_announcements.simps [simp del]

definition parse_announce_body :: "nat \<Rightarrow> MoqStream \<Rightarrow> MoqCtx \<Rightarrow> MoqStream \<times> MoqCtx" where
  "parse_announce_body h r c =
     (case parse_announcements h r c of
        ((r1, c1), True) \<Rightarrow> (if r_fin r1 then r1\<lparr>r_done := True\<rparr> else r1, c1)
      | ((r1, c1), False) \<Rightarrow> (r1, c1))"

definition parse_announce :: "nat \<Rightarrow> MoqStream \<Rightarrow> MoqCtx \<Rightarrow> MoqStream \<times> MoqCtx" where
  "parse_announce h r c =
     (if ann_ok_done r then parse_announce_body h r c
      else case moq_msg_read (r_buf r) (length (r_buf r)) 0 of
        MOQ_MSG_TOO_LARGE \<Rightarrow> (r, signal (StreamReset h (r_s r) kStreamInternalError) c)
      | MOQ_MSG_NEED_MORE \<Rightarrow> (if r_fin r then r\<lparr>r_done := True\<rparr> else r, c)
      | MOQ_MSG_OK off blen \<Rightarrow>
          (let b = take blen (drop off (r_buf r)); bad = (r, signal (StreamReset h (r_s r) kStreamInternalError) c) in
           case moq_varint_read b (length b) 0 of None \<Rightarrow> bad
           | Some (hop, o1) \<Rightarrow> (case moq_varint_read b (length b) o1 of None \<Rightarrow> bad
               | Some (active, o2) \<Rightarrow>
                   if o2 \<noteq> length b then bad
                   else parse_announce_body h (r\<lparr>ann_ok_done := True, ann_expect := active, r_buf := drop (off + blen) (r_buf r)\<rparr>) c)))"

section \<open>Answers to a subscription\<close>

definition kRespStart :: u64 where "kRespStart = 0"
definition kRespEnd :: u64 where "kRespEnd = 1"
definition kRespDrop :: u64 where "kRespDrop = 2"

text \<open>\<open>n\<close> integers that fill the octets exactly.\<close>

fun varints_from :: "nat \<Rightarrow> octets \<Rightarrow> nat \<Rightarrow> u64 list option" where
  "varints_from 0 b pos = (if pos = length b then Some [] else None)"
| "varints_from (Suc n) b pos = (case moq_varint_read b (length b) pos of None \<Rightarrow> None
     | Some (v, o1) \<Rightarrow> map_option ((#) v) (varints_from n b o1))"

text \<open>What one answer does to the subscription; \<open>None\<close> where it does not parse.\<close>

definition subscribe_answer :: "nat \<Rightarrow> u64 \<Rightarrow> octets \<Rightarrow> MoqCtx \<Rightarrow> MoqCtx option" where
  "subscribe_answer i ty body c =
     (let live = at (g_subs c) i \<noteq> None in
      if ty = kRespStart then
        (case varints_from 1 body 0 of
           Some [a] \<Rightarrow> Some (if live then signal (OnSubscribe i a) (on_sub i (\<lambda>s. s\<lparr>sub_started := True\<rparr>) c) else c)
         | _ \<Rightarrow> None)
      else if ty = kRespEnd then
        (case varints_from 1 body 0 of Some [a] \<Rightarrow> Some (if live then signal (OnSubscribeEnd i a) c else c) | _ \<Rightarrow> None)
      else if ty = kRespDrop then
        (case varints_from 3 body 0 of Some [a, b, e] \<Rightarrow> Some (if live then signal (OnDrop i a b e) c else c) | _ \<Rightarrow> None)
      else Some c)"

function parse_answers :: "nat \<Rightarrow> MoqStream \<Rightarrow> MoqCtx \<Rightarrow> (MoqStream \<times> MoqCtx) \<times> bool" where
  "parse_answers h r c =
     (case next_record (r_buf r) of
        NoRecord \<Rightarrow> ((r, c), True)
      | RecordTooLarge \<Rightarrow> ((r, signal (StreamReset h (r_s r) kStreamInternalError) c), False)
      | RecordAt ty body rest \<Rightarrow>
          (case subscribe_answer (r_sub r) ty body c of
             None \<Rightarrow> ((r\<lparr>r_buf := rest\<rparr>, signal (StreamReset h (r_s r) kStreamInternalError) c), False)
           | Some c1 \<Rightarrow> parse_answers h (r\<lparr>r_buf := rest\<rparr>) c1))"
  by auto
termination
by (relation "measure (\<lambda>(h, r, c). length (r_buf r))") (auto dest: next_record_shorter)

declare parse_answers.simps [simp del]

definition parse_subscribe :: "nat \<Rightarrow> MoqStream \<Rightarrow> MoqCtx \<Rightarrow> MoqStream \<times> MoqCtx" where
  "parse_subscribe h r c =
     (case parse_answers h r c of
        ((r1, c1), True) \<Rightarrow> (if r_fin r1 then r1\<lparr>r_done := True\<rparr> else r1, c1)
      | ((r1, c1), False) \<Rightarrow> (r1, c1))"

text \<open>Whatever came of the TRACK request, the subscription goes on to its second stream.\<close>

definition to_subscribe :: "nat \<Rightarrow> MoqCtx \<Rightarrow> MoqCtx" where
  "to_subscribe i c =
     (case at (g_subs c) i of None \<Rightarrow> c
      | Some sub \<Rightarrow> if sub_phase sub = kPhaseTrackReq then sub_open_subscribe i (on_sub i (\<lambda>s. s\<lparr>sub_phase := kPhaseSubReq\<rparr>) c) else c)"

definition track_info :: "octets \<Rightarrow> (byte \<times> u64 \<times> u64) option" where
  "track_info b =
     (case varints_from 2 b (if b = [] then 0 else 1) of
        Some [max_age, timescale] \<Rightarrow> Some (if b = [] then 0 else hd b, max_age, timescale) | _ \<Rightarrow> None)"

definition parse_track :: "nat \<Rightarrow> MoqStream \<Rightarrow> MoqCtx \<Rightarrow> MoqStream \<times> MoqCtx" where
  "parse_track h r c =
     (case moq_msg_read (r_buf r) (length (r_buf r)) 0 of
        MOQ_MSG_TOO_LARGE \<Rightarrow> (r, to_subscribe (r_sub r) c)
      | MOQ_MSG_NEED_MORE \<Rightarrow>
          (case at (g_subs c) (r_sub r) of
             Some sub \<Rightarrow> if r_fin r \<and> sub_phase sub = kPhaseTrackReq then (r\<lparr>r_done := True\<rparr>, to_subscribe (r_sub r) c) else (r, c)
           | None \<Rightarrow> (r, c))
      | MOQ_MSG_OK off blen \<Rightarrow>
          (let c1 = (case track_info (take blen (drop off (r_buf r))) of None \<Rightarrow> c
                     | Some (pr, age, ts) \<Rightarrow> if at (g_subs c) (r_sub r) = None then c else signal (OnTrackInfo (r_sub r) pr age ts) c);
               r1 = r\<lparr>r_buf := drop (off + blen) (r_buf r)\<rparr> in
           (if r_fin r then r1\<lparr>r_done := True\<rparr> else r1, to_subscribe (r_sub r) c1)))"

end
