(* ===== verification/Moqlite_Publish.thy ===== *)
theory Moqlite_Publish
  imports Moqlite_Client
begin

text \<open>
  The publisher's side of \<open>moqlite/moq_lite_client.c\<close>: broadcasts, tracks and the catalogue, the answers to a peer's
  requests, and the groups written for each of its subscriptions. A group stream is asked for and comes later, frames wait in
  \<open>pend\<close> meanwhile. A served subscription is its position in the session's list.
\<close>

section \<open>Constants and objects\<close>

definition kCatalogTrack :: octets where
  "kCatalogTrack = [0x63, 0x61, 0x74, 0x61, 0x6C, 0x6F, 0x67, 0x2E, 0x6A, 0x73, 0x6F, 0x6E]"
definition MOQ_SERVE_TIMESCALE :: u64 where "MOQ_SERVE_TIMESCALE = 1000000"
definition MOQ_SERVE_MAX_AGE_MS :: u64 where "MOQ_SERVE_MAX_AGE_MS = 5000"
definition MOQ_SERVE_PRIORITY :: byte where "MOQ_SERVE_PRIORITY = 0"
definition MOQ_SERVE_AUDIO_GROUP_US :: u64 where "MOQ_SERVE_AUDIO_GROUP_US = 1000 * 1000"
definition MOQ_MAX_PEND_FRAMES :: nat where "MOQ_MAX_PEND_FRAMES = 64"
definition MOQ_HOLD_MAX_BYTES :: nat where "MOQ_HOLD_MAX_BYTES = 8 * 1024 * 1024"
definition MOQ_MAX_PUB_TRACKS :: nat where "MOQ_MAX_PUB_TRACKS = 4"

definition on_pub :: "nat \<Rightarrow> (MoqPub \<Rightarrow> MoqPub) \<Rightarrow> MoqCtx \<Rightarrow> MoqCtx" where
  "on_pub i f c = c\<lparr>g_pubs := upd i f (g_pubs c)\<rparr>"

definition on_track :: "nat \<Rightarrow> (MoqPubTrack \<Rightarrow> MoqPubTrack) \<Rightarrow> MoqCtx \<Rightarrow> MoqCtx" where
  "on_track i f c = c\<lparr>g_tracks := upd i f (g_tracks c)\<rparr>"

definition ssub :: "MoqCtx \<Rightarrow> nat \<Rightarrow> nat \<Rightarrow> MoqServeSub" where
  "ssub c h k = serve_subs (sess c h) ! k"

definition on_ssub :: "nat \<Rightarrow> nat \<Rightarrow> (MoqServeSub \<Rightarrow> MoqServeSub) \<Rightarrow> MoqCtx \<Rightarrow> MoqCtx" where
  "on_ssub h k f = on_sess h (\<lambda>s. s\<lparr>serve_subs := (serve_subs s)[k := f (serve_subs s ! k)]\<rparr>)"

definition live_pub :: "MoqCtx \<Rightarrow> nat \<Rightarrow> MoqPub option" where
  "live_pub c i = (case at (g_pubs c) i of None \<Rightarrow> None | Some p \<Rightarrow> if p_used p \<and> \<not> p_dead p then Some p else None)"

section \<open>Finding tracks and paths\<close>

definition pub_track_named :: "MoqCtx \<Rightarrow> octets \<Rightarrow> MoqPub \<Rightarrow> nat option" where
  "pub_track_named c name p = find (\<lambda>i. case at (g_tracks c) i of None \<Rightarrow> False | Some t \<Rightarrow> \<not> t_dead t \<and> t_name t = name) (p_tracks p)"

fun pub_find_among :: "MoqCtx \<Rightarrow> octets \<Rightarrow> octets \<Rightarrow> nat list \<Rightarrow> nat option" where
  "pub_find_among c path name [] = None"
| "pub_find_among c path name (i # is) =
     (case live_pub c i of None \<Rightarrow> pub_find_among c path name is
      | Some p \<Rightarrow> if p_path p \<noteq> path then pub_find_among c path name is
                  else (case pub_track_named c name p of None \<Rightarrow> pub_find_among c path name is | Some k \<Rightarrow> Some k))"

definition pub_find_track :: "nat \<Rightarrow> octets \<Rightarrow> octets \<Rightarrow> MoqCtx \<Rightarrow> nat option" where
  "pub_find_track h path name c = pub_find_among c path name (s_pubs (sess c h))"

definition pub_suffix_for :: "octets \<Rightarrow> octets \<Rightarrow> octets option" where
  "pub_suffix_for prefix wire =
     (if prefix = [] then Some wire
      else if wire = prefix then Some []
      else if length wire > length prefix \<and> take (length prefix) wire = prefix \<and> wire ! length prefix = 0x2F
      then Some (drop (length prefix + 1) wire)
      else None)"

section \<open>Announcing\<close>

text \<open>The ANNOUNCE_START messages of the broadcasts in scope, and their number.\<close>

definition announce_starts :: "nat \<Rightarrow> octets \<Rightarrow> MoqCtx \<Rightarrow> octets \<times> nat" where
  "announce_starts h prefix c =
     foldl (\<lambda>(starts, n) i. case live_pub c i of None \<Rightarrow> (starts, n)
       | Some p \<Rightarrow>
           if p_tracks p = [] then (starts, n)
           else (case pub_suffix_for prefix (p_path p) of None \<Rightarrow> (starts, n)
             | Some suffix \<Rightarrow> (case moq_wire_announce_start starts suffix 0 0 of
                 (starts', rc) \<Rightarrow> (starts', if rc = 0 then n + 1 else n)))) ([], 0) (s_pubs (sess c h))"

definition serve_announce_write :: "nat \<Rightarrow> nat \<Rightarrow> octets \<Rightarrow> MoqCtx \<Rightarrow> MoqCtx \<times> bool" where
  "serve_announce_write h st prefix c =
     (case announce_starts h prefix c of (starts, n) \<Rightarrow>
        (case then_put (moq_wire_announce_ok [] 0 (word_of_nat n)) (\<lambda>out. moq_buf_append out starts) of
           (out, rc) \<Rightarrow> if rc \<noteq> 0 then (c, False) else (signal (StreamWrite h st out False) c, True)))"

definition serve_catalog_update :: "nat \<Rightarrow> nat \<Rightarrow> MoqCtx \<Rightarrow> MoqCtx" where
  "serve_catalog_update h p c =
     (if s_dead (sess c h) then c
      else foldl (\<lambda>c k. if ss_used (ssub c h k) \<and> \<not> ss_dead (ssub c h k) \<and> cat_pub (ssub c h k) = p
                        then signal (OpenUniStream h) (pending_push3 h kOpenTrackGroup 0 (k + 1) c) else c)
             c [0..<length (serve_subs (sess c h))])"

text \<open>The late ANNOUNCE_START of one broadcast, on every request stream whose prefix covers it.\<close>

definition reannounce_on :: "nat \<Rightarrow> octets \<Rightarrow> MoqCtx \<Rightarrow> MoqCtx \<times> bool" where
  "reannounce_on h path c =
     foldl (\<lambda>(c, sent) r.
       if r_done r \<or> r_local r \<or> r_kind r \<noteq> kStreamAnnounce then (c, sent)
       else (case pub_suffix_for (case req_prefix r of None \<Rightarrow> [] | Some p \<Rightarrow> p) path of None \<Rightarrow> (c, sent)
         | Some suffix \<Rightarrow> (case moq_wire_announce_start [] suffix 0 0 of
             (out, rc) \<Rightarrow> if rc = 0 then (signal (StreamWrite h (r_s r) out False) c, True) else (c, sent))))
       (c, False) (s_streams (sess c h))"

definition serve_reannounce :: "nat \<Rightarrow> MoqCtx \<Rightarrow> MoqCtx" where
  "serve_reannounce h c =
     (if s_dead (sess c h) then c
      else foldl (\<lambda>c i. case live_pub c i of None \<Rightarrow> c
        | Some p \<Rightarrow> if announced p \<or> p_tracks p = [] then c
                    else (case reannounce_on h (p_path p) c of (c1, sent) \<Rightarrow>
                            if sent then on_pub i (\<lambda>p. p\<lparr>announced := True\<rparr>) c1 else c1))
             c (s_pubs (sess c h)))"

definition serve_track_info_write :: "nat \<Rightarrow> nat \<Rightarrow> octets \<Rightarrow> MoqCtx \<Rightarrow> MoqCtx" where
  "serve_track_info_write h st reply c =
     (if reply = [] then signal (StreamReset h st kStreamCancelled) c else signal (StreamWrite h st reply True) c)"

section \<open>Groups\<close>

definition serve_frame_drop :: "nat \<Rightarrow> nat \<Rightarrow> MoqCtx \<Rightarrow> MoqCtx" where
  "serve_frame_drop h k = on_ssub h k (\<lambda>ss. ss\<lparr>pend := []\<rparr>)"

text \<open>The segment of one frame: the absolute time, the codec octets, and in front the difference to the frame before.\<close>

definition frame_segment :: "u64 \<Rightarrow> u64 \<Rightarrow> octets \<Rightarrow> octets \<times> int" where
  "frame_segment prev ts payload =
     then_put (then_put (moq_varint_write [] ts) (\<lambda>b. moq_buf_append b payload)) (\<lambda>b. moq_wire_frame [] (ts - prev) b)"

definition serve_write_one :: "nat \<Rightarrow> nat \<Rightarrow> u64 \<Rightarrow> octets \<Rightarrow> MoqCtx \<Rightarrow> MoqCtx" where
  "serve_write_one h k ts payload c =
     (let c1 = (case frame_segment (ss_group_prev_us (ssub c h k)) ts payload of
           (seg, rc) \<Rightarrow> (case ss_uni (ssub c h k) of Some st \<Rightarrow> if rc = 0 then signal (StreamWrite h st seg False) c else c | None \<Rightarrow> c)) in
      on_ssub h k (\<lambda>ss. ss\<lparr>ss_group_prev_us := ts, ss_group_had_media := True, ss_frames := ss_frames ss + 1\<rparr>) c1)"

definition serve_frame_buffer :: "nat \<Rightarrow> nat \<Rightarrow> u64 \<Rightarrow> octets \<Rightarrow> MoqCtx \<Rightarrow> MoqCtx" where
  "serve_frame_buffer h k ts payload c =
     (if length (pend (ssub c h k)) \<ge> MOQ_MAX_PEND_FRAMES then c
      else on_ssub h k (\<lambda>ss. ss\<lparr>pend := pend ss @ [\<lparr>sf_ts_us = ts, sf_data = payload\<rparr>]\<rparr>) c)"

definition serve_frame_flush :: "nat \<Rightarrow> nat \<Rightarrow> MoqCtx \<Rightarrow> MoqCtx" where
  "serve_frame_flush h k c =
     on_ssub h k (\<lambda>ss. ss\<lparr>pend := []\<rparr>)
       (foldl (\<lambda>c f. if ss_uni (ssub c h k) \<noteq> None then serve_write_one h k (sf_ts_us f) (sf_data f) c else c) c (pend (ssub c h k)))"

definition serve_group_open_on_stream :: "nat \<Rightarrow> nat \<Rightarrow> nat \<Rightarrow> MoqCtx \<Rightarrow> MoqCtx" where
  "serve_group_open_on_stream h k st c =
     (let c1 = on_ssub h k (\<lambda>ss. ss\<lparr>ss_uni := Some st\<rparr>) c;
          c2 = (if ss_started (ssub c h k) then c1
                else case moq_wire_subscribe_start [] 0 of
                  (ack, rc) \<Rightarrow> if rc = 0 then on_ssub h k (\<lambda>ss. ss\<lparr>ss_started := True\<rparr>)
                                 (signal (StreamWrite h (ss_sub_stream (ssub c h k)) ack False) c1) else c1) in
      case then_put (moq_put_stream_type [] 0) (\<lambda>o1. moq_wire_group_header o1 (ss_sid (ssub c2 h k)) (ss_group_seq (ssub c2 h k)) 0) of
        (out, rc) \<Rightarrow>
          if rc < 0 then on_ssub h k (\<lambda>ss. ss\<lparr>ss_uni := None\<rparr>) (signal (StreamReset h st kStreamInternalError) c2)
          else serve_frame_flush h k (on_ssub h k (\<lambda>ss. ss\<lparr>group_opening := False\<rparr>) (signal (StreamWrite h st out False) c2)))"

definition serve_catalog_on_stream :: "nat \<Rightarrow> nat \<Rightarrow> nat \<Rightarrow> MoqCtx \<Rightarrow> MoqCtx" where
  "serve_catalog_on_stream h k st c =
     (case at (g_pubs c) (cat_pub (ssub c h k)) of None \<Rightarrow> signal (StreamReset h st kStreamInternalError) c
      | Some p \<Rightarrow>
          if catalog p = [] then signal (StreamReset h st kStreamInternalError) c
          else case then_put (then_put (moq_put_stream_type [] 0)
                      (\<lambda>o1. moq_wire_group_header o1 (ss_sid (ssub c h k)) (ss_group_seq (ssub c h k)) 0))
                      (\<lambda>o1. moq_wire_frame o1 0 (catalog p)) of
            (out, rc) \<Rightarrow>
              if rc = 0 then on_ssub h k (\<lambda>ss. ss\<lparr>ss_group_seq := ss_group_seq ss + 1\<rparr>) (signal (StreamWrite h st out True) c)
              else signal (StreamReset h st kStreamInternalError) c)"

definition serve_group_close :: "nat \<Rightarrow> nat \<Rightarrow> MoqCtx \<Rightarrow> MoqCtx" where
  "serve_group_close h k c =
     (let ss = ssub c h k in
      case ss_uni ss of
        None \<Rightarrow> on_ssub h k (\<lambda>ss. ss\<lparr>group_opening := False\<rparr>) (if pend ss \<noteq> [] then serve_frame_drop h k c else c)
      | Some st \<Rightarrow>
          let seg = then_put (moq_varint_write [] (if ss_group_had_media ss then ss_group_prev_us ss else ss_group_open_us ss))
                      (\<lambda>p. moq_wire_frame [] 0 p);
              c1 = (if snd seg = 0 then signal (StreamWrite h st (fst seg) True) c else c) in
          on_ssub h k (\<lambda>ss. ss\<lparr>ss_uni := None, ss_group_had_media := False, ss_group_seq := ss_group_seq ss + 1\<rparr>) c1)"

definition serve_write_frame :: "nat \<Rightarrow> nat \<Rightarrow> u64 \<Rightarrow> octets \<Rightarrow> MoqCtx \<Rightarrow> MoqCtx" where
  "serve_write_frame h k ts payload c =
     (let ss = ssub c h k in
      if ss_dead ss then c
      else if ss_uni ss \<noteq> None then serve_write_one h k ts payload c
      else
        let c1 = (if group_opening ss then c
                  else signal (OpenUniStream h) (pending_push3 h kOpenTrackGroup 0 (k + 1)
                    (on_ssub h k (\<lambda>ss. ss\<lparr>group_opening := True, ss_group_open_us := ts, ss_group_prev_us := 0,
                       ss_group_had_media := False\<rparr>) c))) in
        serve_frame_buffer h k ts payload c1)"

definition serve_replay_hold :: "nat \<Rightarrow> nat \<Rightarrow> MoqPubTrack \<Rightarrow> MoqCtx \<Rightarrow> MoqCtx" where
  "serve_replay_hold h k t c = foldl (\<lambda>c f. serve_write_frame h k (sf_ts_us f) (sf_data f) c) c (hold t)"

section \<open>Requests of the peer\<close>

definition serve_parse_announce :: "nat \<Rightarrow> MoqStream \<Rightarrow> MoqCtx \<Rightarrow> MoqStream \<times> MoqCtx" where
  "serve_parse_announce h r c =
     (let bad = (r\<lparr>r_done := True\<rparr>, signal (StreamReset h (r_s r) kStreamInternalError) c) in
      case moq_msg_read (r_buf r) (length (r_buf r)) 0 of
        MOQ_MSG_NEED_MORE \<Rightarrow> (r, c)
      | MOQ_MSG_TOO_LARGE \<Rightarrow> bad
      | MOQ_MSG_OK off blen \<Rightarrow>
          (case moq_str_read (r_buf r) (off + blen) off of
             (rc, pos, prefix) \<Rightarrow>
               if rc \<noteq> 0 \<or> pos \<noteq> off + blen then bad
               else (r\<lparr>r_buf := drop (off + blen) (r_buf r), req_prefix := Some (c_str prefix)\<rparr>,
                     case serve_announce_write h (r_s r) (c_str prefix) c of
                       (c1, ok) \<Rightarrow> if ok then c1 else signal (StreamReset h (r_s r) kStreamInternalError) c1)))"

definition serve_parse_track :: "nat \<Rightarrow> MoqStream \<Rightarrow> MoqCtx \<Rightarrow> MoqStream \<times> MoqCtx" where
  "serve_parse_track h r c =
     (let bad = (r\<lparr>r_done := True\<rparr>, signal (StreamReset h (r_s r) kStreamInternalError) c) in
      case moq_msg_read (r_buf r) (length (r_buf r)) 0 of
        MOQ_MSG_NEED_MORE \<Rightarrow> (if r_fin r then r\<lparr>r_done := True\<rparr> else r, c)
      | MOQ_MSG_TOO_LARGE \<Rightarrow> bad
      | MOQ_MSG_OK off blen \<Rightarrow>
          (case moq_str_read (r_buf r) (off + blen) off of
             (rc1, o1, broadcast) \<Rightarrow>
               if rc1 \<noteq> 0 then bad
               else (case moq_str_read (r_buf r) (off + blen) o1 of
                  (rc2, o2, track) \<Rightarrow>
                    if rc2 \<noteq> 0 \<or> o2 \<noteq> off + blen then bad
                    else (r\<lparr>r_buf := drop (off + blen) (r_buf r), r_done := True\<rparr>,
                          serve_track_info_write h (r_s r)
                            (if pub_find_track h (c_str broadcast) (c_str track) c = None then []
                             else case moq_wire_track_info [] MOQ_SERVE_PRIORITY MOQ_SERVE_MAX_AGE_MS MOQ_SERVE_TIMESCALE of
                               (reply, rc) \<Rightarrow> if rc = 0 then reply else []) c))))"

text \<open>Subscribe id, broadcast and track of a SUBSCRIBE that fills its message exactly.\<close>

definition subscribe_request :: "octets \<Rightarrow> (u64 \<times> octets \<times> octets) option" where
  "subscribe_request b =
     (case moq_varint_read b (length b) 0 of None \<Rightarrow> None
      | Some (i, o1) \<Rightarrow> (case moq_str_read b (length b) o1 of (rc1, o2, broadcast) \<Rightarrow>
          if rc1 \<noteq> 0 then None
          else (case moq_str_read b (length b) o2 of (rc2, o3, track) \<Rightarrow>
            if rc2 \<noteq> 0 \<or> \<not> o3 < length b then None
            else (case varints_from 5 b (o3 + 1) of None \<Rightarrow> None | Some _ \<Rightarrow> Some (i, broadcast, track)))))"

definition new_serve_sub :: "u64 \<Rightarrow> nat \<Rightarrow> nat \<Rightarrow> nat \<Rightarrow> MoqServeSub" where
  "new_serve_sub i st track pub = \<lparr>ss_used = True, ss_dead = False, ss_sid = i, ss_sub_stream = st, ss_track = track,
     ss_started = False, ss_group_seq = 0, ss_uni = None, ss_group_prev_us = 0, ss_group_open_us = 0, ss_group_had_media = False,
     next_audio_us = 0, ss_frames = 0, group_opening = False, pend = [], cat_pub = pub\<rparr>"

definition add_serve_sub :: "nat \<Rightarrow> MoqServeSub \<Rightarrow> MoqCtx \<Rightarrow> MoqCtx" where
  "add_serve_sub h ss = on_sess h (\<lambda>s. s\<lparr>serve_subs := serve_subs s @ [ss]\<rparr>)"

definition pub_with_path :: "nat \<Rightarrow> octets \<Rightarrow> MoqCtx \<Rightarrow> nat option" where
  "pub_with_path h path c = find (\<lambda>i. case live_pub c i of None \<Rightarrow> False | Some p \<Rightarrow> p_path p = path) (s_pubs (sess c h))"

definition serve_subscription :: "nat \<Rightarrow> nat \<Rightarrow> u64 \<Rightarrow> octets \<Rightarrow> octets \<Rightarrow> MoqCtx \<Rightarrow> MoqCtx" where
  "serve_subscription h st i broadcast track c =
     (let k = length (serve_subs (sess c h)) in
      if track = kCatalogTrack \<and> pub_find_track h broadcast kCatalogTrack c = None then
        (case pub_with_path h broadcast c of
           None \<Rightarrow> signal (StreamReset h st kStreamCancelled) c
         | Some p \<Rightarrow>
             if (case at (g_pubs c) p of None \<Rightarrow> True | Some q \<Rightarrow> catalog q = []) then signal (StreamReset h st kStreamCancelled) c
             else
               let c1 = (case moq_wire_subscribe_start [] 0 of (ack, rc) \<Rightarrow> if rc = 0 then signal (StreamWrite h st ack False) c else c) in
               signal (OpenUniStream h) (pending_push3 h kOpenTrackGroup 0 (k + 1) (add_serve_sub h (new_serve_sub i st 0 p) c1)))
      else case pub_find_track h broadcast track c of
        None \<Rightarrow> signal (StreamReset h st kStreamCancelled) c
      | Some t \<Rightarrow>
          let c1 = add_serve_sub h (new_serve_sub i st t 0) c in
          (case at (g_tracks c) t of None \<Rightarrow> c1 | Some tr \<Rightarrow> serve_replay_hold h k tr c1))"

definition serve_parse_subscribe :: "nat \<Rightarrow> MoqStream \<Rightarrow> MoqCtx \<Rightarrow> MoqStream \<times> MoqCtx" where
  "serve_parse_subscribe h r c =
     (let bad = (r\<lparr>r_done := True\<rparr>, signal (StreamReset h (r_s r) kStreamInternalError) c) in
      case moq_msg_read (r_buf r) (length (r_buf r)) 0 of
        MOQ_MSG_NEED_MORE \<Rightarrow> (if r_fin r then r\<lparr>r_done := True\<rparr> else r, c)
      | MOQ_MSG_TOO_LARGE \<Rightarrow> bad
      | MOQ_MSG_OK off blen \<Rightarrow>
          (case subscribe_request (take blen (drop off (r_buf r))) of None \<Rightarrow> bad
           | Some (i, broadcast, track) \<Rightarrow>
               (r\<lparr>r_buf := drop (off + blen) (r_buf r), r_done := True\<rparr>,
                serve_subscription h (r_s r) i (c_str broadcast) (c_str track) c)))"

section \<open>The catalogue\<close>

definition octets_of :: "string \<Rightarrow> octets" where "octets_of s = map (\<lambda>ch. word_of_nat (of_char ch)) s"

definition hex_digit :: "nat \<Rightarrow> byte" where "hex_digit n = octets_of ''0123456789abcdef'' ! n"

definition hex_encode :: "octets \<Rightarrow> octets" where
  "hex_encode d = concat (map (\<lambda>b. [hex_digit (unat (drop_bit 4 b)), hex_digit (unat (b AND 0x0F))]) d)"

definition json_escape :: "byte \<Rightarrow> octets" where
  "json_escape b =
     (if b = 0x22 then [0x5C, 0x22] else if b = 0x5C then [0x5C, 0x5C] else if b = 0x0A then [0x5C, 0x6E]
      else if b = 0x0D then [0x5C, 0x72] else if b = 0x09 then [0x5C, 0x74]
      else if b < 0x20 then [0x5C, 0x75, 0x30, 0x30, hex_digit (unat (drop_bit 4 b)), hex_digit (unat (b AND 0x0F))]
      else [b])"

definition json_str :: "octets \<Rightarrow> octets" where "json_str s = [0x22] @ concat (map json_escape s) @ [0x22]"

text \<open>The \<open>%u\<close> of \<open>snprintf\<close>.\<close>

fun print_u32 :: "nat \<Rightarrow> octets" where
  "print_u32 n = (if n < 10 then [hex_digit n] else print_u32 (n div 10) @ [hex_digit (n mod 10)])"

declare print_u32.simps [simp del]

definition json_u32 :: "octets \<Rightarrow> nat \<Rightarrow> octets" where
  "json_u32 key v = [0x22] @ key @ [0x22, 0x3A] @ print_u32 v"

definition rendition_json :: "MoqPubTrack \<Rightarrow> octets" where
  "rendition_json t =
     json_str (t_name t) @ octets_of '':{'' @ [0x22] @ octets_of ''codec'' @ [0x22, 0x3A] @ json_str (t_codec t)
     @ (if t_config t \<noteq> [] then [0x2C, 0x22] @ octets_of ''description'' @ [0x22, 0x3A, 0x22] @ hex_encode (t_config t) @ [0x22] else [])
     @ [0x2C] @ (if t_is_video t then json_u32 (octets_of ''codedWidth'') (t_width t) @ [0x2C] @ json_u32 (octets_of ''codedHeight'') (t_height t)
        else json_u32 (octets_of ''sampleRate'') (t_sample_rate t) @ [0x2C] @ json_u32 (octets_of ''numberOfChannels'') (t_channels t))
     @ (if t_bitrate t \<noteq> 0 then [0x2C] @ json_u32 (octets_of ''bitrate'') (t_bitrate t) else []) @ [0x7D]"

fun comma_separated :: "octets list \<Rightarrow> octets" where
  "comma_separated [] = []"
| "comma_separated [x] = x"
| "comma_separated (x # y # xs) = x @ [0x2C] @ comma_separated (y # xs)"

definition kind_json :: "octets \<Rightarrow> MoqPubTrack list \<Rightarrow> octets list" where
  "kind_json kind ts =
     (if ts = [] then []
      else [[0x22] @ kind @ [0x22, 0x3A, 0x7B, 0x22] @ octets_of ''renditions'' @ [0x22, 0x3A, 0x7B]
            @ comma_separated (map rendition_json ts) @ [0x7D, 0x7D]])"

definition pub_build_catalog :: "MoqPubTrack list \<Rightarrow> octets" where
  "pub_build_catalog ts =
     [0x7B] @ comma_separated (kind_json (octets_of ''video'') (filter t_is_video ts)
                               @ kind_json (octets_of ''audio'') (filter (\<lambda>t. \<not> t_is_video t) ts))
     @ [0x2C, 0x22] @ octets_of ''clock'' @ [0x22, 0x3A, 0x7B, 0x22] @ octets_of ''wall'' @ [0x22, 0x3A, 0x30, 0x2C, 0x22]
     @ octets_of ''timescale'' @ [0x22, 0x3A] @ print_u32 (unat MOQ_SERVE_TIMESCALE) @ [0x7D, 0x7D]"

section \<open>Publishing\<close>

definition moq_lite_publish :: "nat \<Rightarrow> octets \<Rightarrow> MoqCtx \<Rightarrow> MoqCtx \<times> nat" where
  "moq_lite_publish h path c =
     (case session_get c h of None \<Rightarrow> (c, 0)
      | Some s \<Rightarrow>
          if \<not> connected s \<or> path = [] then (c, 0)
          else case alloc_slot (g_pubs c) \<lparr>p_slot = 0, p_used = True, p_dead = False, p_path = path, p_sess = h, p_tracks = [],
                 catalog = [], announced = False\<rparr> of
            (pubs, i) \<Rightarrow> (on_sess h (\<lambda>s. s\<lparr>s_pubs := s_pubs s @ [i]\<rparr>) (c\<lparr>g_pubs := upd i (\<lambda>p. p\<lparr>p_slot := i\<rparr>) pubs\<rparr>), i))"

record moq_lite_rendition_t =
  rd_name :: octets
  rd_codec :: octets
  rd_config :: octets
  rd_width :: nat
  rd_height :: nat
  rd_sample_rate :: nat
  rd_channels :: nat
  rd_bitrate :: nat

definition new_pub_track :: "bool \<Rightarrow> moq_lite_rendition_t \<Rightarrow> nat \<Rightarrow> MoqPubTrack" where
  "new_pub_track video r p = \<lparr>t_slot = 0, t_used = True, t_dead = False, t_is_video = video, t_name = rd_name r, t_codec = rd_codec r,
     t_config = rd_config r, t_width = rd_width r, t_height = rd_height r, t_sample_rate = rd_sample_rate r,
     t_channels = rd_channels r, t_bitrate = rd_bitrate r, hold = [], hold_bytes = 0, t_pub = p\<rparr>"

definition pub_tracks :: "MoqCtx \<Rightarrow> MoqPub \<Rightarrow> MoqPubTrack list" where
  "pub_tracks c p = map (\<lambda>i. the (at (g_tracks c) i)) (filter (\<lambda>i. at (g_tracks c) i \<noteq> None) (p_tracks p))"

definition moq_lite_publish_track :: "nat \<Rightarrow> bool \<Rightarrow> moq_lite_rendition_t \<Rightarrow> MoqCtx \<Rightarrow> MoqCtx \<times> nat" where
  "moq_lite_publish_track bh video r c =
     (case pub_get c bh of None \<Rightarrow> (c, 0)
      | Some p \<Rightarrow>
          if rd_name r = [] \<or> rd_codec r = [] \<or> length (p_tracks p) \<ge> MOQ_MAX_PUB_TRACKS then (c, 0)
          else case alloc_slot (g_tracks c) (new_pub_track video r bh) of
            (ts, i) \<Rightarrow>
              let c1 = on_pub bh (\<lambda>p. p\<lparr>p_tracks := p_tracks p @ [i]\<rparr>) (c\<lparr>g_tracks := upd i (\<lambda>t. t\<lparr>t_slot := i\<rparr>) ts\<rparr>);
                  c2 = on_pub bh (\<lambda>p. p\<lparr>catalog := pub_build_catalog (pub_tracks c1 p)\<rparr>) c1 in
              (serve_catalog_update (p_sess p) bh (serve_reannounce (p_sess p) c2), i))"

section \<open>Frames\<close>

definition hold_clear :: "MoqPubTrack \<Rightarrow> MoqPubTrack" where "hold_clear t = t\<lparr>hold := [], hold_bytes := 0\<rparr>"

definition hold_push :: "u64 \<Rightarrow> octets \<Rightarrow> MoqPubTrack \<Rightarrow> MoqPubTrack" where
  "hold_push ts payload t =
     t\<lparr>hold := hold t @ [\<lparr>sf_ts_us = ts, sf_data = payload\<rparr>], hold_bytes := hold_bytes t + length payload\<rparr>"

function hold_trim_audio :: "MoqPubTrack \<Rightarrow> MoqPubTrack" where
  "hold_trim_audio t =
     (case hold t of [] \<Rightarrow> t
      | f # fs \<Rightarrow> if sf_ts_us f + MOQ_SERVE_AUDIO_GROUP_US < sf_ts_us (last (f # fs))
                  then hold_trim_audio (t\<lparr>hold := fs, hold_bytes := hold_bytes t - length (sf_data f)\<rparr>) else t)"
  by auto
termination by (relation "measure (\<lambda>t. length (hold t))") auto

declare hold_trim_audio.simps [simp del]

definition hold_frame :: "u64 \<Rightarrow> octets \<Rightarrow> bool \<Rightarrow> MoqPubTrack \<Rightarrow> MoqPubTrack" where
  "hold_frame ts payload key t =
     (let t1 = (if t_is_video t then hold_push ts payload (if key then hold_clear t else t)
                else hold_trim_audio (hold_push ts payload t)) in
      if hold_bytes t1 > MOQ_HOLD_MAX_BYTES then hold_clear t1 else t1)"

text \<open>What one subscription of the track does with a frame. Times are compared as signed.\<close>

definition serve_frame :: "nat \<Rightarrow> nat \<Rightarrow> bool \<Rightarrow> u64 \<Rightarrow> octets \<Rightarrow> bool \<Rightarrow> MoqCtx \<Rightarrow> MoqCtx" where
  "serve_frame h k video ts payload key c =
     (let ss = ssub c h k; open = (ss_uni ss \<noteq> None \<or> group_opening ss) in
      if video then
        if key then serve_write_frame h k ts payload (if open then serve_group_close h k c else c)
        else if \<not> open then c
        else serve_write_frame h k ts payload c
      else
        let c1 = (if ss_uni ss \<noteq> None \<and> sint ts \<ge> sint (next_audio_us ss) then serve_group_close h k c else c);
            c2 = (if ss_uni (ssub c1 h k) = None \<and> \<not> group_opening (ssub c1 h k)
                  then on_ssub h k (\<lambda>ss. ss\<lparr>next_audio_us := ts + MOQ_SERVE_AUDIO_GROUP_US\<rparr>) c1 else c1) in
        serve_write_frame h k ts payload c2)"

definition moq_lite_track_frame :: "nat \<Rightarrow> u64 \<Rightarrow> octets \<Rightarrow> bool \<Rightarrow> MoqCtx \<Rightarrow> MoqCtx \<times> int" where
  "moq_lite_track_frame th ts payload key c =
     (case track_get c th of None \<Rightarrow> (c, -1)
      | Some t \<Rightarrow>
          if payload = [] then (c, -1)
          else (case at (g_pubs c) (t_pub t) of None \<Rightarrow> (c, -1)
            | Some p \<Rightarrow>
                let h = p_sess p;
                    c1 = foldl (\<lambda>c k. if ss_used (ssub c h k) \<and> \<not> ss_dead (ssub c h k) \<and> ss_track (ssub c h k) = th
                                      then serve_frame h k (t_is_video t) ts payload key c else c)
                           c [0..<length (serve_subs (sess c h))] in
                (on_track th (hold_frame ts payload key) c1, 0)))"

definition moq_lite_track_end :: "nat \<Rightarrow> MoqCtx \<Rightarrow> MoqCtx" where
  "moq_lite_track_end th c =
     (case track_get c th of None \<Rightarrow> c
      | Some t \<Rightarrow>
          (case at (g_pubs c) (t_pub t) of None \<Rightarrow> c
           | Some p \<Rightarrow>
               let h = p_sess p in
               on_track th (\<lambda>t. (hold_clear t)\<lparr>t_dead := True\<rparr>)
                 (foldl (\<lambda>c k. if ss_used (ssub c h k) \<and> \<not> ss_dead (ssub c h k) \<and> ss_track (ssub c h k) = th
                                then serve_group_close h k c else c) c [0..<length (serve_subs (sess c h))])))"

end
