(* ===== verification/Moqlite_Session.thy ===== *)
theory Moqlite_Session
  imports Moqlite_Publish
begin

text \<open>
  Sessions of \<open>moqlite/moq_lite_client.c\<close>: the dispatch of a stream's octets, the callbacks of the transport client and the public
  functions. A returned error code is negative; where the code casts one to a handle the model has the 32-bit value.
\<close>

section \<open>Dispatch\<close>

definition stream_kind :: "bool \<Rightarrow> u64 \<Rightarrow> MoqStreamKind option" where
  "stream_kind unidir ty =
     (if unidir then Some (if ty = kUniSetup then kStreamSetup else kStreamGroup)
      else if ty = kBidiAnnounce then Some kStreamAnnounce
      else if ty = kBidiSubscribe then Some kStreamSubscribe
      else if ty = kBidiTrack then Some kStreamTrack
      else None)"

text \<open>\<open>None\<close> in place of the stream's record: stop here.\<close>

definition read_stream_type :: "nat \<Rightarrow> MoqStream \<Rightarrow> MoqCtx \<Rightarrow> (MoqStream \<times> MoqCtx) \<times> bool" where
  "read_stream_type h r c =
     (if r_typed r then ((r, c), True)
      else case moq_varint_read (r_buf r) (length (r_buf r)) 0 of
        None \<Rightarrow> ((if r_fin r then r\<lparr>r_done := True\<rparr> else r, c), False)
      | Some (ty, off) \<Rightarrow>
          let r1 = r\<lparr>r_typed := True, r_buf := drop off (r_buf r)\<rparr> in
          (case stream_kind (r_uni r) ty of
             Some k \<Rightarrow> ((r1\<lparr>r_kind := k\<rparr>, c), True)
           | None \<Rightarrow> ((r1\<lparr>r_done := True\<rparr>, signal (StreamReset h (r_s r) kStreamCancelled) c), False)))"

definition parse_as :: "nat \<Rightarrow> MoqStream \<Rightarrow> MoqCtx \<Rightarrow> MoqStream \<times> MoqCtx" where
  "parse_as h r c =
     (if r_kind r = kStreamSetup then (r\<lparr>r_done := True\<rparr>, c)
      else if r_kind r = kStreamGroup then parse_group h r c
      else if \<not> r_local r then
        (if r_kind r = kStreamAnnounce then serve_parse_announce h r c
         else if r_kind r = kStreamSubscribe then serve_parse_subscribe h r c
         else serve_parse_track h r c)
      else if r_kind r = kStreamAnnounce then parse_announce h r c
      else if r_kind r = kStreamSubscribe then parse_subscribe h r c
      else parse_track h r c)"

definition stream_parse :: "nat \<Rightarrow> MoqStream \<Rightarrow> MoqCtx \<Rightarrow> MoqStream \<times> MoqCtx" where
  "stream_parse h r c =
     (if r_done r \<or> s_dead (sess c h) then (r, c)
      else case read_stream_type h r c of ((r1, c1), True) \<Rightarrow> parse_as h r1 c1 | ((r1, c1), False) \<Rightarrow> (r1, c1))"

section \<open>Callbacks of the transport\<close>

definition pending_pop_kind :: "nat \<Rightarrow> bool \<Rightarrow> MoqCtx \<Rightarrow> MoqCtx \<times> PendingOpen option" where
  "pending_pop_kind h unidir c =
     (let ps = s_pending (sess c h); wanted = (\<lambda>p. (po_kind p = kOpenTrackGroup) = unidir) in
      case find wanted ps of None \<Rightarrow> (c, None)
      | Some p \<Rightarrow> (on_sess h (\<lambda>s. s\<lparr>s_pending := takeWhile (\<lambda>q. \<not> wanted q) ps @ tl (dropWhile (\<lambda>q. \<not> wanted q) ps)\<rparr>) c, Some p))"

text \<open>\<open>alpn\<close> is the protocol the handshake settled on, in octets.\<close>

definition moq_lite_prefix :: octets where "moq_lite_prefix = [0x6D, 0x6F, 0x71, 0x2D, 0x6C, 0x69, 0x74, 0x65, 0x2D]"

definition on_session_connected :: "nat \<Rightarrow> int \<Rightarrow> octets \<Rightarrow> MoqCtx \<Rightarrow> MoqCtx" where
  "on_session_connected h status alpn c =
     (if s_dead (sess c h) then c
      else
        let c1 = on_sess h (\<lambda>s. s\<lparr>connecting := False, connected := (status = 0)\<rparr>) c in
        if status \<noteq> 0 then signal (OnConnected h status) c1
        else if take 9 alpn \<noteq> moq_lite_prefix then signal (OnConnected h (-100)) c1
        else signal (OnConnected h 0) (signal (OpenUniStream h) c1))"

definition serve_stream_opened :: "nat \<Rightarrow> nat \<Rightarrow> nat \<Rightarrow> MoqCtx \<Rightarrow> MoqCtx" where
  "serve_stream_opened h k st c =
     (if cat_pub (ssub c h k) \<noteq> 0 then serve_catalog_on_stream h k st c else serve_group_open_on_stream h k st c)"

definition on_session_uni_open :: "nat \<Rightarrow> nat \<Rightarrow> MoqCtx \<Rightarrow> MoqCtx" where
  "on_session_uni_open h st c =
     (if s_dead (sess c h) then c
      else case pending_pop_kind h True c of
        (c1, Some po) \<Rightarrow>
          (if po_box po = 0 \<or> ss_dead (ssub c1 h (po_box po - 1)) then signal (StreamReset h st kStreamInternalError) c1
           else serve_stream_opened h (po_box po - 1) st c1)
      | (c1, None) \<Rightarrow>
          session_send_setup h
            (stream_add h ((new_stream_record st kStreamSetup True)\<lparr>r_done := True\<rparr>) (on_sess h (\<lambda>s. s\<lparr>setup_stream := Some st\<rparr>) c1)))"

definition bidi_for_sub :: "nat \<Rightarrow> MoqStreamKind \<Rightarrow> nat \<Rightarrow> nat \<Rightarrow> MoqCtx \<Rightarrow> MoqCtx" where
  "bidi_for_sub h k i st c =
     (if (case at (g_subs c) i of None \<Rightarrow> True | Some sub \<Rightarrow> sub_dead sub) then signal (StreamReset h st kStreamInternalError) c
      else sub_pump i (stream_add h ((new_stream_record st k True)\<lparr>r_sub := i\<rparr>)
             (on_sub i (\<lambda>s. if k = kStreamTrack then s\<lparr>track_stream := Some st\<rparr> else s\<lparr>sub_stream := Some st\<rparr>) c)))"

definition on_session_bidi_open :: "nat \<Rightarrow> nat \<Rightarrow> MoqCtx \<Rightarrow> MoqCtx" where
  "on_session_bidi_open h st c =
     (if s_dead (sess c h) then c
      else case pending_pop_kind h False c of
        (c1, None) \<Rightarrow> signal (StreamReset h st kStreamInternalError) c1
      | (c1, Some po) \<Rightarrow>
          (if po_kind po = kOpenAnnounce then
             session_send_announce h []
               (stream_add h (new_stream_record st kStreamAnnounce True) (on_sess h (\<lambda>s. s\<lparr>announce_stream := Some st\<rparr>) c1))
           else if po_kind po = kOpenTrack then bidi_for_sub h kStreamTrack (po_sub po) st c1
           else if po_kind po = kOpenSubscribe then bidi_for_sub h kStreamSubscribe (po_sub po) st c1
           else signal (StreamReset h st kStreamInternalError) c1))"

text \<open>The record of the stream, made where the peer opened it just now.\<close>

definition find_or_add :: "nat \<Rightarrow> nat \<Rightarrow> MoqStreamKind \<Rightarrow> MoqCtx \<Rightarrow> MoqStream \<times> MoqCtx" where
  "find_or_add h st k c =
     (case cl_stream_find (sess c h) st of Some r \<Rightarrow> (r, c)
      | None \<Rightarrow> (let r = new_stream_record st k False in (r, stream_add h r c)))"

definition parse_and_keep :: "nat \<Rightarrow> MoqStream \<Rightarrow> MoqCtx \<Rightarrow> MoqCtx" where
  "parse_and_keep h r c =
     (case stream_parse h r c of (r1, c1) \<Rightarrow> if r_done r1 then stream_remove h (r_s r) c1 else store_stream h r1 c1)"

definition on_session_stream_data :: "nat \<Rightarrow> nat \<Rightarrow> octets \<Rightarrow> MoqCtx \<Rightarrow> MoqCtx" where
  "on_session_stream_data h st d c =
     (if s_dead (sess c h) then c
      else case find_or_add h st (if is_uni st then kStreamGroup else kStreamAnnounce) c of
        (r, c1) \<Rightarrow>
          if r_done r then c1
          else if d \<noteq> [] \<and> length (r_buf r) + length d > MOQ_MAX_RECV_BUF
          then store_stream h (r\<lparr>r_done := True, r_buf := []\<rparr>) (signal (StreamReset h st kStreamInternalError) c1)
          else parse_and_keep h (r\<lparr>r_buf := r_buf r @ d\<rparr>) c1)"

definition on_session_stream_fin :: "nat \<Rightarrow> nat \<Rightarrow> MoqCtx \<Rightarrow> MoqCtx" where
  "on_session_stream_fin h st c =
     (if s_dead (sess c h) then c
      else if cl_stream_find (sess c h) st = None \<and> is_uni st then c
      else case find_or_add h st kStreamAnnounce c of
        (r, c1) \<Rightarrow> if r_done r then c1 else parse_and_keep h (r\<lparr>r_fin := True\<rparr>) c1)"

definition on_session_stream_reset :: "nat \<Rightarrow> nat \<Rightarrow> u64 \<Rightarrow> MoqCtx \<Rightarrow> MoqCtx" where
  "on_session_stream_reset h st err c =
     (if s_dead (sess c h) then c
      else case find (\<lambda>k. case at (g_subs c) k of None \<Rightarrow> False
             | Some sub \<Rightarrow> sub_used sub \<and> sub_sess sub = h \<and> \<not> sub_dead sub \<and> (sub_stream sub = Some st \<or> track_stream sub = Some st))
           [0..<length (g_subs c)] of
        None \<Rightarrow> c
      | Some k \<Rightarrow> signal (OnDrop k 0 0 err) (on_sub k (\<lambda>s. s\<lparr>sub_dead := True\<rparr>) c))"

text \<open>The broadcasts of a session go with it.\<close>

definition kill_broadcasts :: "nat \<Rightarrow> MoqCtx \<Rightarrow> MoqCtx" where
  "kill_broadcasts h c = foldl (\<lambda>c k. on_bc k (\<lambda>b. b\<lparr>bc_dead := True\<rparr>) c) c (s_bcs (sess c h))"

definition on_session_close :: "nat \<Rightarrow> int \<Rightarrow> MoqCtx \<Rightarrow> MoqCtx" where
  "on_session_close h err c = signal (OnClose h err) (kill_broadcasts h (on_sess h (\<lambda>s. s\<lparr>s_dead := True\<rparr>) c))"

section \<open>Sessions\<close>

definition MOQ_LITE_ERR_ARGS :: int where "MOQ_LITE_ERR_ARGS = -1"
definition MOQ_LITE_ERR_URL :: int where "MOQ_LITE_ERR_URL = -2"
definition MOQ_LITE_ERR_STATE :: int where "MOQ_LITE_ERR_STATE = -4"
definition MOQ_LITE_DEFAULT_PORT :: int where "MOQ_LITE_DEFAULT_PORT = 4433"

text \<open>An error code cast to a 32-bit handle.\<close>

definition as_handle :: "int \<Rightarrow> nat" where "as_handle e = unat (word_of_int e :: u32)"

definition moq_lite_session_new :: "MoqCtx \<Rightarrow> MoqCtx \<times> nat" where
  "moq_lite_session_new c =
     (case alloc_slot (g_sessions c) (new_session\<lparr>s_used := True\<rparr>) of
        (ss, h) \<Rightarrow> (c\<lparr>g_sessions := upd h (\<lambda>s. s\<lparr>s_slot := h\<rparr>) ss\<rparr>, h))"

definition moq_lite_session_set_role :: "nat \<Rightarrow> nat \<Rightarrow> MoqCtx \<Rightarrow> MoqCtx \<times> int" where
  "moq_lite_session_set_role h rl c =
     (case session_get c h of None \<Rightarrow> (c, MOQ_LITE_ERR_ARGS)
      | Some s \<Rightarrow> if connecting s \<or> connected s then (c, MOQ_LITE_ERR_STATE)
                  else if rl > 2 then (c, MOQ_LITE_ERR_ARGS)
                  else (on_sess h (\<lambda>s. s\<lparr>role := rl\<rparr>) c, 0))"

definition moq_lite_session_announce :: "nat \<Rightarrow> MoqCtx \<Rightarrow> MoqCtx \<times> int" where
  "moq_lite_session_announce h c =
     (case session_get c h of None \<Rightarrow> (c, MOQ_LITE_ERR_ARGS)
      | Some s \<Rightarrow> if \<not> connected s \<or> announce_stream s \<noteq> None \<or> announce_sent s then (c, MOQ_LITE_ERR_STATE)
                  else (signal (OpenStream h) (pending_push3 h kOpenAnnounce 0 0 c), 0))"

definition moq_lite_session_close :: "nat \<Rightarrow> MoqCtx \<Rightarrow> MoqCtx" where
  "moq_lite_session_close h c =
     (case session_get c h of None \<Rightarrow> c
      | Some s \<Rightarrow> signal (ClientClose h) (kill_broadcasts h (on_sess h (\<lambda>s. s\<lparr>closing := True, s_dead := True\<rparr>) c)))"

definition clear_owned :: "('a \<Rightarrow> bool) \<Rightarrow> 'a option list \<Rightarrow> 'a option list" where
  "clear_owned owned = map (\<lambda>x. case x of None \<Rightarrow> None | Some a \<Rightarrow> if owned a then None else x)"

definition moq_lite_session_free :: "nat \<Rightarrow> MoqCtx \<Rightarrow> MoqCtx" where
  "moq_lite_session_free h c =
     (case session_get c h of None \<Rightarrow> c
      | Some s \<Rightarrow>
          if \<not> s_dead s then c
          else c\<lparr>g_subs := clear_owned (\<lambda>u. sub_sess u = h) (g_subs c),
                 g_bcs := clear_owned (\<lambda>b. bc_sess b = h) (g_bcs c),
                 g_tracks := clear_owned (\<lambda>t. case at (g_pubs c) (t_pub t) of None \<Rightarrow> False | Some p \<Rightarrow> p_sess p = h) (g_tracks c),
                 g_pubs := clear_owned (\<lambda>p. p_sess p = h) (g_pubs c),
                 g_sessions := (g_sessions c)[h := None]\<rparr>)"

section \<open>Connecting\<close>

definition starts_with :: "octets \<Rightarrow> octets \<Rightarrow> bool" where "starts_with p s \<longleftrightarrow> take (length p) s = p"

definition index_of :: "byte \<Rightarrow> octets \<Rightarrow> nat option" where
  "index_of ch s = find (\<lambda>i. s ! i = ch) [0..<length s]"

definition last_index_of :: "byte \<Rightarrow> octets \<Rightarrow> nat option" where
  "last_index_of ch s = find (\<lambda>i. s ! i = ch) (rev [0..<length s])"

text \<open>\<open>atoi\<close> of a string: blanks, a sign, digits. C leaves the result open where it does not fit an \<open>int\<close>; here it stays out of the range of ports.\<close>

definition is_space :: "byte \<Rightarrow> bool" where "is_space b \<longleftrightarrow> b = 0x20 \<or> (9 \<le> b \<and> b \<le> 13)"
definition is_digit :: "byte \<Rightarrow> bool" where "is_digit b \<longleftrightarrow> 0x30 \<le> b \<and> b \<le> 0x39"

definition digits_val :: "octets \<Rightarrow> int" where
  "digits_val d = foldl (\<lambda>v b. v * 10 + (uint b - 48)) 0 (takeWhile is_digit d)"

definition atoi :: "octets \<Rightarrow> int" where
  "atoi s = (let d = dropWhile is_space s in
     if d \<noteq> [] \<and> hd d = 0x2D then - digits_val (tl d) else if d \<noteq> [] \<and> hd d = 0x2B then digits_val (tl d) else digits_val d)"

text \<open>Host, port and path, or the error.\<close>

definition parse_url :: "octets \<Rightarrow> int + octets \<times> int \<times> octets" where
  "parse_url url =
     (let scheme = (if starts_with (octets_of ''moql://'') url then Some 7
                    else if starts_with (octets_of ''moq-lite://'') url then Some 11 else None) in
      case scheme of None \<Rightarrow> Inl MOQ_LITE_ERR_URL
      | Some n \<Rightarrow>
          let p = drop n url in
          if p = [] then Inl MOQ_LITE_ERR_URL
          else
            let host_part = takeWhile (\<lambda>b. b \<noteq> 0x2F) p; path = dropWhile (\<lambda>b. b \<noteq> 0x2F) p;
                colon = (if hd p = 0x5B then
                           (case index_of 0x5D host_part of None \<Rightarrow> Inl MOQ_LITE_ERR_URL
                            | Some rb \<Rightarrow> Inr (if rb + 1 < length host_part \<and> host_part ! (rb + 1) = 0x3A then Some (rb + 1) else None))
                         else Inr (last_index_of 0x3A host_part)) in
            (case colon of Inl e \<Rightarrow> Inl e
             | Inr co \<Rightarrow>
                 let hlen = (case co of None \<Rightarrow> length host_part | Some i \<Rightarrow> i) in
                 if hlen = 0 \<or> hlen > 255 then Inl MOQ_LITE_ERR_URL
                 else (case co of None \<Rightarrow> Inr (take hlen p, MOQ_LITE_DEFAULT_PORT, path)
                   | Some i \<Rightarrow> let v = atoi (drop (i + 1) p) in
                       if v \<le> 0 \<or> v > 65535 then Inl MOQ_LITE_ERR_URL else Inr (take hlen p, v, path))))"

definition moq_lite_session_connect :: "nat \<Rightarrow> octets \<Rightarrow> MoqCtx \<Rightarrow> MoqCtx \<times> int" where
  "moq_lite_session_connect h url c =
     (case session_get c h of None \<Rightarrow> (c, MOQ_LITE_ERR_ARGS)
      | Some s \<Rightarrow>
          if connecting s \<or> connected s then (c, MOQ_LITE_ERR_STATE)
          else (case parse_url url of Inl e \<Rightarrow> (c, e)
            | Inr (host, port, path) \<Rightarrow>
                (signal (ClientConnect h host port) (on_sess h (\<lambda>s. s\<lparr>s_path := path, connecting := True\<rparr>) c), 0)))"

section \<open>Broadcasts and subscriptions\<close>

definition bc_create_synthetic :: "nat \<Rightarrow> octets \<Rightarrow> MoqCtx \<Rightarrow> MoqCtx \<times> nat option" where
  "bc_create_synthetic h path c =
     (if s_dead (sess c h) \<or> path = [] then (c, None)
      else case alloc_slot (g_bcs c) \<lparr>bc_slot = 0, bc_used = True, bc_dead = False, bc_synthetic = True, bc_sess = h,
             bc_prefix = [], bc_suffix = path, bc_path = path, ann_id = -1\<rparr> of
        (bcs, k) \<Rightarrow> (on_sess h (\<lambda>s. s\<lparr>s_bcs := s_bcs s @ [k]\<rparr>) (c\<lparr>g_bcs := upd k (\<lambda>b. b\<lparr>bc_slot := k\<rparr>) bcs\<rparr>), Some k))"

definition sub_create :: "nat \<Rightarrow> MoqBc \<Rightarrow> octets \<Rightarrow> MoqCtx \<Rightarrow> MoqCtx \<times> nat" where
  "sub_create b bc track c =
     (if track = [] then (c, as_handle MOQ_LITE_ERR_ARGS)
      else case alloc_slot (g_subs c) \<lparr>sub_slot = 0, sub_used = True, sub_dead = False, sub_sess = bc_sess bc, sub_bc = b, sub_id = 0,
             sub_track = track, sub_stream = None, track_stream = None, sub_phase = kPhaseTrackReq, track_req_sent = False,
             sub_req_sent = False, sub_started = False, sub_groups = 0, sub_frames = 0\<rparr> of
        (subs, i) \<Rightarrow> (sub_open_track i (c\<lparr>g_subs := upd i (\<lambda>s. s\<lparr>sub_slot := i, sub_id := word_of_nat i\<rparr>) subs\<rparr>), i))"

definition moq_lite_subscribe :: "nat \<Rightarrow> octets \<Rightarrow> MoqCtx \<Rightarrow> MoqCtx \<times> nat" where
  "moq_lite_subscribe bh track c =
     (case bc_get c bh of None \<Rightarrow> (c, as_handle MOQ_LITE_ERR_ARGS)
      | Some bc \<Rightarrow> if s_dead (sess c (bc_sess bc)) then (c, as_handle MOQ_LITE_ERR_ARGS) else sub_create bh bc track c)"

definition moq_lite_broadcast_path :: "nat \<Rightarrow> octets \<Rightarrow> MoqCtx \<Rightarrow> MoqCtx \<times> nat" where
  "moq_lite_broadcast_path h path c =
     (case session_get c h of None \<Rightarrow> (c, as_handle MOQ_LITE_ERR_ARGS)
      | Some s \<Rightarrow>
          if \<not> connected s then (c, as_handle MOQ_LITE_ERR_STATE)
          else (case bc_create_synthetic h path c of (c1, None) \<Rightarrow> (c1, 0) | (c1, Some k) \<Rightarrow> (c1, k)))"

definition moq_lite_subscribe_path :: "nat \<Rightarrow> octets \<Rightarrow> octets \<Rightarrow> MoqCtx \<Rightarrow> MoqCtx \<times> nat" where
  "moq_lite_subscribe_path h broadcast track c =
     (case session_get c h of None \<Rightarrow> (c, as_handle MOQ_LITE_ERR_ARGS)
      | Some s \<Rightarrow>
          if \<not> connected s then (c, as_handle MOQ_LITE_ERR_STATE)
          else (case bc_create_synthetic h broadcast c of
              (c1, None) \<Rightarrow> (c1, 0)
            | (c1, Some k) \<Rightarrow> (case at (g_bcs c1) k of None \<Rightarrow> (c1, 0) | Some bc \<Rightarrow> sub_create k bc track c1)))"

definition moq_lite_unsubscribe :: "nat \<Rightarrow> MoqCtx \<Rightarrow> MoqCtx" where
  "moq_lite_unsubscribe i c =
     (case sub_get c i of None \<Rightarrow> c
      | Some sub \<Rightarrow>
          if sub_dead sub then c
          else
            let c1 = on_sub i (\<lambda>s. s\<lparr>sub_dead := True\<rparr>) c;
                c2 = (case sub_stream sub of None \<Rightarrow> c1 | Some st \<Rightarrow> signal (StreamReset (sub_sess sub) st kStreamCancelled) c1) in
            case track_stream sub of None \<Rightarrow> c2 | Some st \<Rightarrow> signal (StreamReset (sub_sess sub) st kStreamCancelled) c2)"

end
