(* ===== verification/Moqlite_Reading.thy ===== *)
theory Moqlite_Reading
  imports Moqlite_Session
begin

text \<open>
  What a subscriber of the C client is handed. The parser of a group stream can stop anywhere: octets that come in any
  pieces give the same callbacks as all at once. A group, a header and frames, is read back as exactly its frames, but for the markers
  the client drops.
\<close>

section \<open>More octets\<close>

lemma varint_more:
  "moq_varint_read b (length b) off = Some (v, o1) \<Longrightarrow> moq_varint_read (b @ x) (length (b @ x)) off = Some (v, o1)"
proof -
  assume a: "moq_varint_read b (length b) off = Some (v, o1)"
  define n :: nat where "n = 2 ^ unat (drop_bit 6 (b ! off))"
  have o: "off < length b" "off + n \<le> length b" "o1 = off + n"
    "v = foldl (\<lambda>v i. push_bit 8 v OR ucast (b ! (off + i))) (ucast (b ! off) AND 0x3F) [1..<n]"
    using a by (auto simp: moq_varint_read_def Let_def n_def split: if_splits)
  have "foldl (\<lambda>v i. push_bit 8 v OR ucast ((b @ x) ! (off + i))) w [1..<n]
      = foldl (\<lambda>v i. push_bit 8 v OR ucast (b ! (off + i))) w [1..<n]" for w :: u64
    using o(2) by (intro foldl_cong) (auto simp: nth_append)
  then show ?thesis using o by (simp add: moq_varint_read_def Let_def nth_append n_def)
qed

lemma msg_more:
  "moq_msg_read b (length b) off = MOQ_MSG_OK o1 n \<Longrightarrow> moq_msg_read (b @ x) (length (b @ x)) off = MOQ_MSG_OK o1 n"
  "moq_msg_read b (length b) off = MOQ_MSG_TOO_LARGE \<Longrightarrow> moq_msg_read (b @ x) (length (b @ x)) off = MOQ_MSG_TOO_LARGE"
  by (auto simp: moq_msg_read_def dest!: varint_more [of b off _ _ x] split: option.splits if_splits)

lemma msg_fits: "moq_msg_read b (length b) off = MOQ_MSG_OK o1 n \<Longrightarrow> o1 + n \<le> length b"
  by (auto simp: moq_msg_read_def dest!: moq_varint_read_moves split: option.splits if_splits)

lemma record_more:
  "next_record b = RecordAt v body rest \<Longrightarrow> next_record (b @ x) = RecordAt v body (rest @ x)"
  "next_record b = RecordTooLarge \<Longrightarrow> next_record (b @ x) = RecordTooLarge"
proof -
  assume "next_record b = RecordAt v body rest"
  then obtain off o1 n where p: "moq_varint_read b (length b) 0 = Some (v, off)" "moq_msg_read b (length b) off = MOQ_MSG_OK o1 n"
    "body = take n (drop o1 b)" "rest = drop (o1 + n) b"
    by (auto simp: next_record_def split: option.splits MoqMsgStatus.splits)
  show "next_record (b @ x) = RecordAt v body (rest @ x)"
    using varint_more [OF p(1), of x] msg_more(1) [OF p(2), of x] msg_fits [OF p(2)] p(3,4) by (simp add: next_record_def)
next
  assume "next_record b = RecordTooLarge"
  then obtain v off where p: "moq_varint_read b (length b) 0 = Some (v, off)" "moq_msg_read b (length b) off = MOQ_MSG_TOO_LARGE"
    by (auto simp: next_record_def split: option.splits MoqMsgStatus.splits)
  show "next_record (b @ x) = RecordTooLarge"
    using varint_more [OF p(1), of x] msg_more(2) [OF p(2), of x] by (simp add: next_record_def)
qed

definition ext :: "octets \<Rightarrow> MoqStream \<Rightarrow> MoqStream" where "ext x r = r\<lparr>r_buf := r_buf r @ x\<rparr>"

lemma ext_simps [simp]:
  "r_buf (ext x r) = r_buf r @ x" "r_s (ext x r) = r_s r" "r_done (ext x r) = r_done r" "r_fin (ext x r) = r_fin r"
  "hdr_done (ext x r) = hdr_done r" "r_typed (ext x r) = r_typed r" "r_kind (ext x r) = r_kind r" "r_uni (ext x r) = r_uni r"
  "sub_id_in_group (ext x r) = sub_id_in_group r" "r_group (ext x r) = r_group r" "r_frame_index (ext x r) = r_frame_index r"
  "ts_acc (ext x r) = ts_acc r"
  by (simp_all add: ext_def)

text \<open>One frame, handed over where the subscription is known.\<close>

definition hand :: "nat \<Rightarrow> MoqStream \<Rightarrow> u64 \<Rightarrow> octets \<Rightarrow> MoqCtx \<Rightarrow> MoqCtx" where
  "hand h r zz body c = (case session_sub_by_id h (sub_id_in_group r) c of None \<Rightarrow> c
     | Some i \<Rightarrow> sub_deliver_frame i (r_group r) (r_frame_index r) (moq_zigzag_decode zz) body c)"

definition after_frame :: "u64 \<Rightarrow> octets \<Rightarrow> MoqStream \<Rightarrow> MoqStream" where
  "after_frame zz rest r = r\<lparr>ts_acc := ts_acc r + moq_zigzag_decode zz, r_buf := rest, r_frame_index := r_frame_index r + 1\<rparr>"

lemma frames_step:
  "next_record (r_buf r) = RecordAt zz body rest \<Longrightarrow> parse_frames h r c = parse_frames h (after_frame zz rest r) (hand h r zz body c)"
  by (subst parse_frames.simps) (simp add: hand_def after_frame_def)

lemma frame_ext: "hand h (ext x r) zz body c = hand h r zz body c" "after_frame zz (rest @ x) (ext x r) = ext x (after_frame zz rest r)"
  by (simp_all add: hand_def after_frame_def ext_def split: option.split)

lemma parse_frames_more:
  "parse_frames h (ext x r) c = (case parse_frames h r c of
     ((r1, c1), ok) \<Rightarrow> if ok then parse_frames h (ext x r1) c1 else ((ext x r1, c1), False))"
proof (induction h r c rule: parse_frames.induct)
  case (1 h r c)
  show ?case
  proof (cases "next_record (r_buf r)")
    case NoRecord
    then show ?thesis by (subst (2) parse_frames.simps) simp
  next
    case RecordTooLarge
    have "parse_frames h (ext x r) c = (((ext x r)\<lparr>r_done := True\<rparr>, signal (StreamReset h (r_s r) kStreamInternalError) c), False)"
      by (subst parse_frames.simps) (simp add: record_more(2) [OF RecordTooLarge])
    moreover have "parse_frames h r c = ((r\<lparr>r_done := True\<rparr>, signal (StreamReset h (r_s r) kStreamInternalError) c), False)"
      by (subst parse_frames.simps) (simp add: RecordTooLarge)
    ultimately show ?thesis by (simp add: ext_def)
  next
    case (RecordAt zz body rest)
    from "1.IH" [OF RecordAt, folded hand_def after_frame_def] frames_step [OF RecordAt, of h c]
      frames_step [of "ext x r" zz body "rest @ x" h c] record_more(1) [OF RecordAt, of x]
    show ?thesis by (simp add: frame_ext)
  qed
qed

text \<open>What the frame loop leaves alone.\<close>

lemma hand_keeps: "g_sessions (sub_deliver_frame i g n d b c) = g_sessions c"
  by (auto simp: sub_deliver_frame_def signal_def on_sub_def split: option.splits)

lemma parse_frames_keeps:
  "parse_frames h r c = ((r1, c1), ok) \<Longrightarrow> g_sessions c1 = g_sessions c \<and> r_s r1 = r_s r \<and> hdr_done r1 = hdr_done r \<and> r_fin r1 = r_fin r
     \<and> r_typed r1 = r_typed r \<and> r_kind r1 = r_kind r \<and> r_uni r1 = r_uni r \<and> r_done r1 = (r_done r \<or> \<not> ok)
     \<and> group_end_notified r1 = group_end_notified r \<and> sub_id_in_group r1 = sub_id_in_group r \<and> r_group r1 = r_group r"
proof (induction h r c arbitrary: r1 c1 ok rule: parse_frames.induct)
  case (1 h r c)
  show ?case
  proof (cases "next_record (r_buf r)")
    case (RecordAt zz body rest)
    from "1.IH" [OF RecordAt, of r1 c1 ok] "1.prems" frames_step [OF RecordAt, of h c, unfolded hand_def after_frame_def] show ?thesis
      by (simp add: hand_keeps split: option.splits)
  qed (use "1.prems" in \<open>auto simp: parse_frames.simps [of h r c] signal_def\<close>)
qed

text \<open>A group stream the end of which has not come.\<close>

definition growing :: "MoqStream \<Rightarrow> bool" where
  "growing r \<longleftrightarrow> r_uni r \<and> \<not> r_fin r \<and> \<not> r_done r \<and> (r_typed r \<longrightarrow> r_kind r = kStreamGroup)"

lemma body_growing: "\<not> r_fin r \<Longrightarrow> parse_group_body h r c = fst (parse_frames h r c)"
proof -
  assume "\<not> r_fin r"
  obtain r1 c1 ok where p: "parse_frames h r c = ((r1, c1), ok)" by (metis prod.exhaust)
  have "\<not> r_fin r1" using parse_frames_keeps [OF p] \<open>\<not> r_fin r\<close> by simp
  then show ?thesis using p by (cases ok) (simp_all add: parse_group_body_def parse_group_fin_def)
qed

lemma parse_group_more:
  assumes "\<not> r_fin r" "\<not> r_done r"
  shows "parse_group h (ext x r) c = (case parse_group h r c of
     (r1, c1) \<Rightarrow> if r_done r1 then (ext x r1, c1) else parse_group h (ext x r1) c1)"
proof -
  have body: "parse_group_body h (ext x q) d = (case parse_group_body h q d of
     (r1, c1) \<Rightarrow> if r_done r1 then (ext x r1, c1) else parse_group h (ext x r1) c1)"
    if "\<not> r_fin q" "\<not> r_done q" "hdr_done q" for q d
  proof -
    obtain r1 c1 ok where p: "parse_frames h q d = ((r1, c1), ok)" by (metis prod.exhaust)
    note k = parse_frames_keeps [OF p]
    show ?thesis
      using that k p parse_frames_more [of h x q d] by (auto simp: body_growing parse_group_def)
  qed
  show ?thesis
  proof (cases "hdr_done r")
    case True
    then show ?thesis using body [of r c] assms by (simp add: parse_group_def)
  next
    case False
    show ?thesis
    proof (cases "moq_msg_read (r_buf r) (length (r_buf r)) 0")
      case (MOQ_MSG_OK off n)
      note fits = msg_fits [OF MOQ_MSG_OK]
      have t: "take n (drop off (r_buf r @ x)) = take n (drop off (r_buf r))"
        "drop (off + n) (r_buf r @ x) = drop (off + n) (r_buf r) @ x" using fits by simp_all
      have m: "moq_msg_read (r_buf r @ x) (length (r_buf r @ x)) 0 = MOQ_MSG_OK off n" using msg_more(1) [OF MOQ_MSG_OK] .
      let ?head = "\<lambda>q i s f. q\<lparr>hdr_done := True, sub_id_in_group := i, r_group := s, r_frame_index := f, ts_acc := 0,
        r_buf := drop (off + n) (r_buf q)\<rparr>"
      have step: "parse_group h q c = (case group_header (take n (drop off (r_buf r))) of
             None \<Rightarrow> (q\<lparr>r_done := True\<rparr>, signal (StreamReset h (r_s r) kStreamInternalError) c)
           | Some (i, s, f) \<Rightarrow> (case session_sub_by_id h i c of
               None \<Rightarrow> (q\<lparr>r_done := True\<rparr>, signal (StreamReset h (r_s r) kStreamCancelled) c)
             | Some k \<Rightarrow> parse_group_body h (?head q i s f) (on_sub k (\<lambda>s. s\<lparr>sub_groups := sub_groups s + 1\<rparr>) c)))"
        if "q = r \<or> q = ext x r" for q
        using that False MOQ_MSG_OK m t
        by (auto simp: parse_group_def simp del: take_append drop_append length_append split: option.split)
      have e: "?head (ext x r) i s f = ext x (?head r i s f)" for i s f
        using t by (simp add: ext_def del: drop_append)
      show ?thesis
      proof (cases "group_header (take n (drop off (r_buf r)))")
        case None
        then show ?thesis by (simp add: step) (simp add: ext_def)
      next
        case (Some g)
        obtain i s f where g: "g = (i, s, f)" by (cases g)
        show ?thesis
        proof (cases "session_sub_by_id h i c")
          case None
          then show ?thesis using Some g by (simp add: step) (simp add: ext_def)
        next
          case (Some k)
          have pg: "parse_group h q c = parse_group_body h (?head q i s f) (on_sub k (\<lambda>s. s\<lparr>sub_groups := sub_groups s + 1\<rparr>) c)"
            if "q = r \<or> q = ext x r" for q
            using step [OF that] Some \<open>group_header _ = Some g\<close> g by simp
          let ?d = "on_sub k (\<lambda>s. s\<lparr>sub_groups := sub_groups s + 1\<rparr>) c"
          have "parse_group h (ext x r) c = parse_group_body h (ext x (?head r i s f)) ?d"
            using pg [of "ext x r"] by (simp only: e simp_thms)
          moreover have "parse_group h r c = parse_group_body h (?head r i s f) ?d" using pg [of r] by (simp only: simp_thms)
          ultimately show ?thesis using body [of "?head r i s f" ?d] assms by simp
        qed
      qed
    next
      case MOQ_MSG_NEED_MORE
      then show ?thesis using False assms by (simp add: parse_group_def [of h r])
    next
      case MOQ_MSG_TOO_LARGE
      then show ?thesis using False msg_more(2) [OF MOQ_MSG_TOO_LARGE, of x] by (simp add: parse_group_def) (simp add: ext_def)
    qed
  qed
qed

lemma growing_uni: "growing r \<Longrightarrow> stream_kind (r_uni r) ty = Some (if ty = kUniSetup then kStreamSetup else kStreamGroup)"
  by (simp add: stream_kind_def growing_def)

lemma stream_parse_growing:
  assumes "growing r" "\<not> s_dead (sess c h)"
  shows "stream_parse h r c = (if r_typed r then parse_group h r c
    else case moq_varint_read (r_buf r) (length (r_buf r)) 0 of None \<Rightarrow> (r, c)
    | Some (ty, off) \<Rightarrow>
        if ty = kUniSetup then (r\<lparr>r_typed := True, r_buf := drop off (r_buf r), r_kind := kStreamSetup, r_done := True\<rparr>, c)
        else parse_group h (r\<lparr>r_typed := True, r_buf := drop off (r_buf r), r_kind := kStreamGroup\<rparr>) c)"
  using assms growing_uni [OF assms(1)]
  by (auto simp: stream_parse_def read_stream_type_def parse_as_def growing_def Let_def split: option.split)

lemma growing_ext [simp]: "growing (ext x r) = growing r"
  by (simp add: growing_def)

lemma parse_group_keeps:
  assumes "\<not> r_fin r" "\<not> r_done r" "parse_group h r c = (r1, c1)"
  shows "g_sessions c1 = g_sessions c \<and> r_s r1 = r_s r \<and> r_fin r1 = r_fin r \<and> r_typed r1 = r_typed r \<and> r_kind r1 = r_kind r \<and> r_uni r1 = r_uni r"
proof -
  have b: "g_sessions c1 = g_sessions d \<and> r_s r1 = r_s q \<and> r_fin r1 = r_fin q \<and> r_typed r1 = r_typed q \<and> r_kind r1 = r_kind q \<and> r_uni r1 = r_uni q"
    if "parse_group_body h q d = (r1, c1)" "\<not> r_fin q" for q d
  proof -
    have "fst (parse_frames h q d) = (r1, c1)" using that by (simp add: body_growing)
    then have "parse_frames h q d = ((r1, c1), snd (parse_frames h q d))" by (metis prod.collapse)
    from parse_frames_keeps [OF this] show ?thesis by simp
  qed
  show ?thesis
  proof (cases "\<exists>off n i s f k. \<not> hdr_done r \<and> moq_msg_read (r_buf r) (length (r_buf r)) 0 = MOQ_MSG_OK off n
      \<and> group_header (take n (drop off (r_buf r))) = Some (i, s, f) \<and> session_sub_by_id h i c = Some k")
    case True
    then obtain off n i s f k where a: "\<not> hdr_done r" "moq_msg_read (r_buf r) (length (r_buf r)) 0 = MOQ_MSG_OK off n"
      "group_header (take n (drop off (r_buf r))) = Some (i, s, f)" "session_sub_by_id h i c = Some k" by blast
    let ?q = "r\<lparr>hdr_done := True, sub_id_in_group := i, r_group := s, r_frame_index := f, ts_acc := 0, r_buf := drop (off + n) (r_buf r)\<rparr>"
    let ?d = "on_sub k (\<lambda>s. s\<lparr>sub_groups := sub_groups s + 1\<rparr>) c"
    have "parse_group_body h ?q ?d = (r1, c1)" using assms(3) a by (simp add: parse_group_def)
    from b [OF this] assms(1) show ?thesis by (simp add: on_sub_def)
  next
    case False
    show ?thesis
    proof (cases "hdr_done r")
      case True
      then show ?thesis using assms b [of r c] by (simp add: parse_group_def)
    next
      case nh: False
      then show ?thesis using assms False
        by (auto simp: parse_group_def signal_def split: if_splits MoqMsgStatus.splits option.splits)
    qed
  qed
qed

lemma stream_parse_keeps:
  assumes "growing r" "\<not> s_dead (sess c h)" "stream_parse h r c = (r1, c1)"
  shows "g_sessions c1 = g_sessions c \<and> r_s r1 = r_s r \<and> (r_done r1 \<or> growing r1)"
proof -
  have g: "g_sessions c1 = g_sessions c \<and> r_s r1 = r_s q \<and> (r_done r1 \<or> growing r1)"
    if "parse_group h q c = (r1, c1)" "growing q" for q
    using parse_group_keeps [OF _ _ that(1)] that(2) by (simp add: growing_def)
  show ?thesis
    using assms(1,3) g [of r] g [of "r\<lparr>r_typed := True, r_buf := _, r_kind := kStreamGroup\<rparr>"] unfolding stream_parse_growing [OF assms(1,2)]
    by (auto simp: growing_def split: if_splits option.splits)
qed

lemma sess_cong: "g_sessions c1 = g_sessions c \<Longrightarrow> sess c1 h = sess c h"
  by (simp add: sess_def)

lemma stream_parse_more:
  assumes "growing r" "\<not> s_dead (sess c h)"
  shows "stream_parse h (ext x r) c = (case stream_parse h r c of
     (r1, c1) \<Rightarrow> if r_done r1 then (ext x r1, c1) else stream_parse h (ext x r1) c1)"
proof -
  have nd: "\<not> r_done r" "\<not> r_fin r" using assms(1) by (simp_all add: growing_def)
  have pg: "parse_group h (ext x q) c = (case parse_group h q c of
     (r1, c1) \<Rightarrow> if r_done r1 then (ext x r1, c1) else stream_parse h (ext x r1) c1)" if "growing q" "r_typed q" for q
  proof -
    obtain r1 c1 where p: "parse_group h q c = (r1, c1)" by fastforce
    have k: "g_sessions c1 = g_sessions c" "r_typed r1" "r_done r1 \<or> growing r1"
      using parse_group_keeps [OF _ _ p] that by (simp_all add: growing_def)
    then show ?thesis
      using parse_group_more [of q h x c] that p assms(2) sess_cong [OF k(1)]
      by (auto simp: stream_parse_growing growing_def [of q])
  qed
  note sp = stream_parse_growing [OF assms] stream_parse_growing [of "ext x r", unfolded growing_ext, OF assms]
  show ?thesis
  proof (cases "r_typed r")
    case True
    then show ?thesis using pg [OF assms(1)] by (simp only: sp ext_simps if_True)
  next
    case False
    show ?thesis
    proof (cases "moq_varint_read (r_buf r) (length (r_buf r)) 0")
      case None
      then show ?thesis using False nd by (simp add: sp(1))
    next
      case (Some w)
      obtain ty off where w: "w = (ty, off)" by fastforce
      note more = varint_more [OF Some [unfolded w], of x]
      have off: "off \<le> length (r_buf r)" using moq_varint_read_moves [OF Some [unfolded w]] by simp
      let ?q = "r\<lparr>r_typed := True, r_buf := drop off (r_buf r), r_kind := kStreamGroup\<rparr>"
      have e: "(ext x r)\<lparr>r_typed := True, r_buf := drop off (r_buf r @ x), r_kind := k\<rparr>
        = ext x (r\<lparr>r_typed := True, r_buf := drop off (r_buf r), r_kind := k\<rparr>)" for k
        using off by (simp add: ext_def)
      have d: "(ext x q)\<lparr>r_done := True\<rparr> = ext x (q\<lparr>r_done := True\<rparr>)" for q by (simp add: ext_def)
      have "growing ?q" "r_typed ?q" using assms(1) by (simp_all add: growing_def)
      note q = pg [OF this]
      show ?thesis
        unfolding sp using False Some w more q by (simp add: e d del: drop_append length_append)
    qed
  qed
qed

section \<open>Pieces\<close>

text \<open>The parser of a group looks at no other stream.\<close>

definition in_sessions :: "MoqSession option list \<Rightarrow> MoqCtx \<Rightarrow> MoqCtx" where "in_sessions S c = c\<lparr>g_sessions := S\<rparr>"

lemma in_sessions_sub: "session_sub_by_id h i (in_sessions S c) = session_sub_by_id h i c"
  by (simp add: session_sub_by_id_def in_sessions_def)

lemma in_sessions_emit: "signal a (in_sessions S c) = in_sessions S (signal a c)" "on_sub i f (in_sessions S c) = in_sessions S (on_sub i f c)"
  by (simp_all add: signal_def on_sub_def in_sessions_def)

lemma in_sessions_hand: "hand h r zz b (in_sessions S c) = in_sessions S (hand h r zz b c)"
  by (simp add: hand_def in_sessions_sub sub_deliver_frame_def in_sessions_emit split: option.split)

lemma parse_frames_in: "parse_frames h r (in_sessions S c) = (case parse_frames h r c of ((r1, c1), ok) \<Rightarrow> ((r1, in_sessions S c1), ok))"
proof (induction h r c rule: parse_frames.induct)
  case (1 h r c)
  show ?case
  proof (cases "next_record (r_buf r)")
    case (RecordAt zz body rest)
    from "1.IH" [OF RecordAt, folded hand_def after_frame_def] show ?thesis by (simp add: frames_step [OF RecordAt] in_sessions_hand)
  qed (simp_all add: parse_frames.simps [of h r] in_sessions_emit)
qed

lemma parse_group_in:
  assumes "\<not> r_fin r"
  shows "parse_group h r (in_sessions S c) = (case parse_group h r c of (r1, c1) \<Rightarrow> (r1, in_sessions S c1))"
  using assms
  by (auto simp: parse_group_def body_growing parse_frames_in in_sessions_emit in_sessions_sub case_prod_unfold
      split: MoqMsgStatus.split option.split)

lemma stream_parse_in:
  assumes "growing r" "\<not> s_dead (sess c h)" "\<not> s_dead (sess (in_sessions S c) h)"
  shows "stream_parse h r (in_sessions S c) = (case stream_parse h r c of (r1, c1) \<Rightarrow> (r1, in_sessions S c1))"
  using assms(1)
  by (auto simp: stream_parse_growing assms growing_def parse_group_in split: option.split)

lemma parse_frames_shrinks: "length (r_buf (fst (fst (parse_frames h r c)))) \<le> length (r_buf r)"
proof (induction h r c rule: parse_frames.induct)
  case (1 h r c)
  show ?case
  proof (cases "next_record (r_buf r)")
    case (RecordAt zz body rest)
    from "1.IH" [OF RecordAt, folded hand_def after_frame_def] next_record_shorter [OF RecordAt] frames_step [OF RecordAt, of h c]
    show ?thesis by (simp add: after_frame_def)
  qed (simp_all add: parse_frames.simps [of h r])
qed

lemma parse_group_shrinks: "\<not> r_fin r \<Longrightarrow> length (r_buf (fst (parse_group h r c))) \<le> length (r_buf r)"
proof -
  assume nf: "\<not> r_fin r"
  have b: "length (r_buf (fst (parse_group_body h q d))) \<le> length (r_buf q)" if "\<not> r_fin q" for q d
    using parse_frames_shrinks [of h q d] that by (simp add: body_growing)
  show ?thesis
    using nf b [of r c] by (auto simp: parse_group_def split: MoqMsgStatus.split option.split intro!: order_trans [OF b])
qed

lemma stream_parse_shrinks:
  assumes "growing r" "\<not> s_dead (sess c h)"
  shows "length (r_buf (fst (stream_parse h r c))) \<le> length (r_buf r)"
proof -
  have "\<not> r_fin r" using assms(1) by (simp add: growing_def)
  then show ?thesis
    using parse_group_shrinks [of r h c]
    by (auto simp: stream_parse_growing [OF assms] split: option.split intro!: order_trans [OF parse_group_shrinks])
qed

definition alive :: "MoqCtx \<Rightarrow> nat \<Rightarrow> bool" where
  "alive c h \<longleftrightarrow> (\<exists>s. at (g_sessions c) h = Some s \<and> \<not> s_dead s)"

lemma sess_on_sess: "at (g_sessions c) h \<noteq> None \<Longrightarrow> sess (on_sess h f c) h = f (sess c h)"
  by (auto simp: sess_def on_sess_def upd_def at_def split: if_splits)

lemma alive_sess: "alive c h \<Longrightarrow> \<not> s_dead (sess c h) \<and> at (g_sessions c) h \<noteq> None"
  by (auto simp: alive_def sess_def)

lemma alive_cong: "g_sessions c1 = g_sessions c \<Longrightarrow> alive c1 h = alive c h"
  by (simp add: alive_def)

lemma put_stream_sess:
  assumes "alive c h"
  shows "sess (store_stream h r c) h = (sess c h)\<lparr>s_streams := map (\<lambda>q. if r_s q = r_s r then r else q) (s_streams (sess c h))\<rparr>"
    "alive (store_stream h r c) h"
proof -
  show s: "sess (store_stream h r c) h = (sess c h)\<lparr>s_streams := map (\<lambda>q. if r_s q = r_s r then r else q) (s_streams (sess c h))\<rparr>"
    using alive_sess [OF assms] by (simp add: store_stream_def sess_on_sess)
  show "alive (store_stream h r c) h"
    using assms by (auto simp: alive_def store_stream_def on_sess_def upd_def at_def split: if_splits)
qed

lemma find_put_stream:
  assumes "alive c h" "cl_stream_find (sess c h) (r_s r) = Some r0"
  shows "cl_stream_find (sess (store_stream h r c) h) (r_s r) = Some r"
proof -
  have "find (\<lambda>q. r_s q = r_s r) (map (\<lambda>q. if r_s q = r_s r then r else q) xs) = Some r"
    if "find (\<lambda>q. r_s q = r_s r) xs = Some r0" for xs
    using that by (induction xs) (auto split: if_splits)
  then show ?thesis using assms by (simp add: put_stream_sess cl_stream_find_def)
qed

lemma put_stream_twice: "r_s r = r_s q \<Longrightarrow> store_stream h r (in_sessions (g_sessions (store_stream h q c)) c) = store_stream h r c"
proof -
  assume a: "r_s r = r_s q"
  define g where "g = (\<lambda>(z :: MoqStream) (s :: MoqSession). s\<lparr>s_streams := map (\<lambda>p. if r_s p = r_s z then z else p) (s_streams s)\<rparr>)"
  have gg: "g r (g q s) = g r s" for s by (simp add: g_def a comp_def)
  have "upd h (g r) (upd h (g q) xs) = upd h (g r) xs" for xs
    using gg by (cases "h < length xs"; cases "xs ! h") (simp_all add: upd_def at_def)
  moreover have "store_stream h z = on_sess h (g z)" for z by (simp add: store_stream_def g_def)
  ultimately show ?thesis by (simp add: on_sess_def in_sessions_def)
qed

lemma put_stream_in: "store_stream h q c = in_sessions (g_sessions (store_stream h q c)) c"
  by (simp add: store_stream_def on_sess_def in_sessions_def)

lemma swap_removes: "distinct (map r_s rs) \<Longrightarrow> st \<notin> r_s ` set (remove_swap st rs)"
proof (induction rs)
  case (Cons r rs)
  then show ?case
    by (cases "rs = []") (auto simp: image_iff dest: in_set_butlastD last_in_set)
qed simp

text \<open>A peer's unidirectional stream of a live session: unknown yet, or a group that grows.\<close>

definition group_stream :: "nat \<Rightarrow> nat \<Rightarrow> MoqCtx \<Rightarrow> bool" where
  "group_stream h st c \<longleftrightarrow> is_uni st \<and> alive c h \<and> distinct (map r_s (s_streams (sess c h)))
     \<and> (case cl_stream_find (sess c h) st of None \<Rightarrow> True | Some r \<Rightarrow> growing r)"

definition buffered :: "nat \<Rightarrow> nat \<Rightarrow> MoqCtx \<Rightarrow> nat" where
  "buffered h st c = (case cl_stream_find (sess c h) st of None \<Rightarrow> 0 | Some r \<Rightarrow> length (r_buf r))"

lemma find_stream_id: "cl_stream_find s st = Some r \<Longrightarrow> r_s r = st"
  by (auto simp: cl_stream_find_def find_Some_iff)

lemma find_or_add_group:
  assumes "group_stream h st c" "find_or_add h st kStreamGroup c = (r, c0)"
  shows "growing r" "r_s r = st" "group_stream h st c0" "cl_stream_find (sess c0 h) st = Some r" "length (r_buf r) = buffered h st c"
    "g_subs c0 = g_subs c" "g_out c0 = g_out c"
proof -
  have al: "alive c h" "\<not> s_dead (sess c h)" "at (g_sessions c) h \<noteq> None" using assms(1) alive_sess [of c h] by (auto simp: group_stream_def)
  have "growing r \<and> r_s r = st \<and> group_stream h st c0 \<and> cl_stream_find (sess c0 h) st = Some r \<and> length (r_buf r) = buffered h st c
    \<and> g_subs c0 = g_subs c \<and> g_out c0 = g_out c"
  proof (cases "cl_stream_find (sess c h) st")
    case None
    then have r: "r = new_stream_record st kStreamGroup False" "c0 = stream_add h r c" using assms(2) by (auto simp: find_or_add_def Let_def)
    have s: "sess c0 h = (sess c h)\<lparr>s_streams := s_streams (sess c h) @ [r]\<rparr>" using al by (simp add: r stream_add_def sess_on_sess)
    have "alive c0 h" using al(1) by (auto simp: r(2) alive_def stream_add_def on_sess_def upd_def at_def split: if_splits)
    moreover have n: "st \<notin> r_s ` set (s_streams (sess c h))" using None by (auto simp: cl_stream_find_def find_None_iff)
    moreover have f: "cl_stream_find (sess c0 h) st = Some r"
    proof -
      have "find (\<lambda>q. r_s q = st) (xs @ [r]) = Some r" if "st \<notin> r_s ` set xs" for xs
        using that by (induction xs) (auto simp: r(1) new_stream_record_def)
      then show ?thesis using n by (simp add: s cl_stream_find_def)
    qed
    ultimately show ?thesis
      using assms(1) None by (auto simp: group_stream_def growing_def r(1) new_stream_record_def s buffered_def)
        (simp_all add: r(2) stream_add_def on_sess_def)
  next
    case (Some q)
    then show ?thesis using assms find_stream_id [OF Some] by (simp add: find_or_add_def group_stream_def buffered_def)
  qed
  then show "growing r" "r_s r = st" "group_stream h st c0" "cl_stream_find (sess c0 h) st = Some r" "length (r_buf r) = buffered h st c"
    "g_subs c0 = g_subs c" "g_out c0 = g_out c" by blast+
qed

text \<open>One arrival of octets, by what the parser makes of them.\<close>

lemma data_step:
  assumes "group_stream h st c" "find_or_add h st kStreamGroup c = (r, c0)" "buffered h st c + length d \<le> MOQ_MAX_RECV_BUF"
    "stream_parse h (ext d r) c0 = (r1, c1)"
  shows "on_session_stream_data h st d c = (if r_done r1 then stream_remove h st c1 else store_stream h r1 c1)"
    "\<not> r_done r1 \<Longrightarrow> group_stream h st (store_stream h r1 c1) \<and> cl_stream_find (sess (store_stream h r1 c1) h) st = Some r1
       \<and> length (r_buf r1) \<le> buffered h st c + length d"
    "r_done r1 \<Longrightarrow> cl_stream_find (sess (on_session_stream_data h st d c) h) st = None"
proof -
  note f = find_or_add_group [OF assms(1,2)]
  have nd: "\<not> s_dead (sess c h)" "is_uni st" using assms(1) alive_sess by (auto simp: group_stream_def)
  have al: "alive c0 h" using f(3) by (simp add: group_stream_def)
  note al' = alive_sess [OF al]
  have g: "growing (ext d r)" using f(1) by simp
  have k: "g_sessions c1 = g_sessions c0" "r_s r1 = st" "r_done r1 \<or> growing r1"
    using stream_parse_keeps [OF g _ assms(4)] al' f(2) by simp_all
  show data: "on_session_stream_data h st d c = (if r_done r1 then stream_remove h st c1 else store_stream h r1 c1)"
    using assms nd f by (simp add: on_session_stream_data_def parse_and_keep_def growing_def ext_def)
  have al1: "alive c1 h" using al alive_cong [OF k(1)] by simp
  have fc1: "cl_stream_find (sess c1 h) (r_s r1) = Some r" using f(4) sess_cong [OF k(1)] k(2) by simp
  show "group_stream h st (store_stream h r1 c1) \<and> cl_stream_find (sess (store_stream h r1 c1) h) st = Some r1
       \<and> length (r_buf r1) \<le> buffered h st c + length d" if "\<not> r_done r1"
  proof -
    have find: "cl_stream_find (sess (store_stream h r1 c1) h) st = Some r1" using find_put_stream [OF al1 fc1] k(2) by simp
    have "map r_s (s_streams (sess (store_stream h r1 c1) h)) = map r_s (s_streams (sess c1 h))"
      using put_stream_sess(1) [OF al1, of r1] by simp
    moreover have "distinct (map r_s (s_streams (sess c1 h)))" using f(3) sess_cong [OF k(1), of h] by (simp add: group_stream_def)
    ultimately have "group_stream h st (store_stream h r1 c1)"
      using nd find k(3) that put_stream_sess(2) [OF al1] by (simp add: group_stream_def)
    moreover have "length (r_buf r1) \<le> buffered h st c + length d"
      using stream_parse_shrinks [OF g, of c0 h] al' assms(4) f(5) by simp
    ultimately show ?thesis using find by blast
  qed
  show "cl_stream_find (sess (on_session_stream_data h st d c) h) st = None" if "r_done r1"
  proof -
    have "sess (stream_remove h st c1) h = (sess c1 h)\<lparr>s_streams := remove_swap st (s_streams (sess c1 h))\<rparr>"
      using alive_sess [OF al1] by (simp add: stream_remove_def sess_on_sess)
    moreover have "distinct (map r_s (s_streams (sess c1 h)))" using f(3) sess_cong [OF k(1), of h] by (simp add: group_stream_def)
    ultimately show ?thesis
      using data that swap_removes [of "s_streams (sess c1 h)" st] by (auto simp: cl_stream_find_def find_None_iff)
  qed
qed

lemma data_pieces:
  assumes "group_stream h st c" "buffered h st c + length (a @ b) \<le> MOQ_MAX_RECV_BUF"
    and "cl_stream_find (sess (on_session_stream_data h st (a @ b) c) h) st \<noteq> None"
  shows "on_session_stream_data h st b (on_session_stream_data h st a c) = on_session_stream_data h st (a @ b) c"
    "group_stream h st (on_session_stream_data h st a c)"
    "buffered h st (on_session_stream_data h st a c) \<le> buffered h st c + length a"
    "cl_stream_find (sess (on_session_stream_data h st a c) h) st \<noteq> None"
proof -
  obtain r c0 where f0: "find_or_add h st kStreamGroup c = (r, c0)" by fastforce
  note f = find_or_add_group [OF assms(1) f0]
  have al: "alive c0 h" using f(3) by (simp add: group_stream_def)
  have nd: "\<not> s_dead (sess c0 h)" using alive_sess [OF al] by simp
  obtain r1 c1 where p1: "stream_parse h (ext a r) c0 = (r1, c1)" by fastforce
  have g: "growing (ext a r)" using f(1) by simp
  have k: "g_sessions c1 = g_sessions c0" "r_s r1 = st" "r_done r1 \<or> growing r1"
    using stream_parse_keeps [OF g nd p1] f(2) by simp_all
  have "ext b (ext a r) = ext (a @ b) r" by (simp add: ext_def)
  then have whole: "stream_parse h (ext (a @ b) r) c0 = (if r_done r1 then (ext b r1, c1) else stream_parse h (ext b r1) c1)"
    using stream_parse_more [OF g nd, of b] p1 by simp
  obtain r2 c2 where p2: "stream_parse h (ext (a @ b) r) c0 = (r2, c2)" by fastforce
  note ab = data_step [OF assms(1) f0 assms(2) p2]
  have "buffered h st c + length a \<le> MOQ_MAX_RECV_BUF" using assms(2) by simp
  note da = data_step [OF assms(1) f0 this p1]
  have nd2: "\<not> r_done r2" using ab(3) assms(3) by blast
  have nd1: "\<not> r_done r1" using whole p2 nd2 by auto
  note da2 = da(2) [OF nd1]
  have p12: "stream_parse h (ext b r1) c1 = (r2, c2)" using whole p2 nd1 by simp
  have d1: "on_session_stream_data h st a c = store_stream h r1 c1" using da(1) nd1 by simp
  show g1: "group_stream h st (on_session_stream_data h st a c)" and fit: "buffered h st (on_session_stream_data h st a c) \<le> buffered h st c + length a"
    and "cl_stream_find (sess (on_session_stream_data h st a c) h) st \<noteq> None"
    using da2 d1 by (simp_all add: buffered_def)
  let ?p = "store_stream h r1 c1"
  have fp: "find_or_add h st kStreamGroup ?p = (r1, ?p)" using da2 by (simp add: find_or_add_def)
  have fitb: "buffered h st ?p + length b \<le> MOQ_MAX_RECV_BUF" using fit assms(2) d1 by simp
  have gr1: "growing (ext b r1)" using k(3) nd1 by simp
  have nd3: "\<not> s_dead (sess c1 h)" "\<not> s_dead (sess (in_sessions (g_sessions ?p) c1) h)"
    using nd sess_cong [OF k(1), of h] da2 alive_sess put_stream_in [of h r1 c1] by (auto simp: group_stream_def)
  have "stream_parse h (ext b r1) ?p = (r2, in_sessions (g_sessions ?p) c2)"
    using stream_parse_in [OF gr1 nd3] p12 put_stream_in [of h r1 c1] by simp
  from data_step(1) [OF g1 [unfolded d1] fp fitb this] nd2
  have "on_session_stream_data h st b ?p = store_stream h r2 (in_sessions (g_sessions ?p) c2)" by simp
  moreover have k2: "g_sessions c2 = g_sessions c1" "r_s r2 = st" using stream_parse_keeps [OF gr1 nd3(1) p12] k(2) by simp_all
  moreover have "g_sessions ?p = g_sessions (store_stream h r1 c2)" using k2(1) by (simp add: store_stream_def on_sess_def)
  ultimately show "on_session_stream_data h st b (on_session_stream_data h st a c) = on_session_stream_data h st (a @ b) c"
    using ab(1) nd2 d1 put_stream_twice [of r2 r1 h c2] k(2) by simp
qed

section \<open>A group is read back\<close>

lemma read_enc:
  "v \<le> kMlVarintMax \<Longrightarrow> moq_varint_read (p @ ml_enc v @ q) (length (p @ ml_enc v @ q)) (length p) = Some (v, length p + quic_varint_len v)"
  by (subst moq_varint_read_eq) (auto intro!: MlReadVarint_ml_enc simp: length_ml_enc)

lemmas read_enc_front = read_enc [of _ "[]", simplified]

text \<open>The octets of a list of frames, each a time difference and a body.\<close>

fun frames_text :: "(u64 \<times> octets) list \<Rightarrow> octets option" where
  "frames_text [] = Some []"
| "frames_text ((d, b) # fs) = (case MlAppendFrame [] d b of (seg, True) \<Rightarrow> map_option ((@) seg) (frames_text fs) | (_, False) \<Rightarrow> None)"

lemma append_frame_Some:
  assumes "MlAppendFrame [] d b = (seg, True)" "length b \<le> 2 ^ 26"
  shows "next_record (seg @ r) = RecordAt (zz_word d) b r" "moq_zigzag_decode (zz_word d) = d"
proof -
  have z: "zz_word d \<le> kMlVarintMax" "seg = ml_enc (zz_word d) @ ml_enc (word_of_nat (length b)) @ b"
    using assms zigzag_fits [of d] size_fits [of "length b"]
    by (auto simp: MlAppendFrame_def MlZigzagEncode_eq MlWriteVarint_eq split: if_splits)
  let ?w = "word_of_nat (length b) :: u64"
  have lt: "length b < 2 ^ 62" by (rule le_less_trans [OF assms(2)]) simp
  have u: "unat ?w = length b" using unat_size [OF lt] .
  have w: "?w \<le> kMlVarintMax" using size_fits [OF lt] .
  have m: "\<not> ?w > MOQ_MAX_MESSAGE_SIZE" using assms(2) u by (simp add: word_less_nat_alt MOQ_MAX_MESSAGE_SIZE_def)
  have "moq_varint_read (seg @ r) (length (seg @ r)) 0 = Some (zz_word d, quic_varint_len (zz_word d))"
    using read_enc_front [OF z(1), of "ml_enc ?w @ b @ r"] by (simp add: z(2))
  moreover have "moq_varint_read (seg @ r) (length (seg @ r)) (quic_varint_len (zz_word d))
      = Some (?w, quic_varint_len (zz_word d) + quic_varint_len ?w)"
    using read_enc [OF w, of "ml_enc (zz_word d)" "b @ r"] by (simp add: z(2) length_ml_enc)
  ultimately show "next_record (seg @ r) = RecordAt (zz_word d) b r"
    using m u by (simp add: next_record_def moq_msg_read_def z(2) length_ml_enc)
  show "moq_zigzag_decode (zz_word d) = d"
    using zigzag_decode_encode [of d] by (simp add: moq_zigzag_decode_def MlZigzagDecode_def)
qed

text \<open>Frames the client keeps from the application: empty ones, and those that are an integer and nothing after it.\<close>

definition shown :: "octets \<Rightarrow> bool" where
  "shown b \<longleftrightarrow> b \<noteq> [] \<and> (case moq_varint_read b (length b) 0 of Some (_, off) \<Rightarrow> off < length b | None \<Rightarrow> True)"

fun frame_calls :: "nat \<Rightarrow> u64 \<Rightarrow> u64 \<Rightarrow> (u64 \<times> octets) list \<Rightarrow> action list" where
  "frame_calls k g n [] = []"
| "frame_calls k g n ((d, b) # fs) = (if shown b then [OnFrame k g n d b] else []) @ frame_calls k g (n + 1) fs"

lemma at_upd: "at (upd i f xs) j = (if i = j then map_option f (at xs j) else at xs j)"
  by (auto simp: at_def upd_def)

lemma sub_by_id_cong:
  assumes "length (g_subs c') = length (g_subs c)"
    "\<And>j. map_option (\<lambda>s. (sub_used s, sub_sess s, sub_id s)) (at (g_subs c') j) = map_option (\<lambda>s. (sub_used s, sub_sess s, sub_id s)) (at (g_subs c) j)"
  shows "session_sub_by_id h i c' = session_sub_by_id h i c"
proof -
  have "(case at (g_subs c') j of None \<Rightarrow> False | Some s \<Rightarrow> sub_used s \<and> sub_sess s = h \<and> sub_id s = i)
      = (case at (g_subs c) j of None \<Rightarrow> False | Some s \<Rightarrow> sub_used s \<and> sub_sess s = h \<and> sub_id s = i)" for j
    using assms(2) [of j] by (auto split: option.splits)
  then show ?thesis by (simp only: session_sub_by_id_def assms(1))
qed

lemma sub_by_id_count: "session_sub_by_id h i (on_sub k (\<lambda>s. s\<lparr>sub_frames := f s\<rparr>) c) = session_sub_by_id h i c"
  "session_sub_by_id h i (on_sub k (\<lambda>s. s\<lparr>sub_groups := f s\<rparr>) c) = session_sub_by_id h i c"
  "session_sub_by_id h i (signal a c) = session_sub_by_id h i c"
  by (rule sub_by_id_cong; auto simp: on_sub_def signal_def at_upd option.map_comp comp_def; simp add: upd_def)+

lemma deliver_out:
  "g_out (sub_deliver_frame k g n d b c) = g_out c @ (if shown b then [OnFrame k g n d b] else [])"
  "session_sub_by_id h i (sub_deliver_frame k g n d b c) = session_sub_by_id h i c"
  by (auto simp: sub_deliver_frame_def shown_def sub_by_id_count split: option.splits) (simp_all add: signal_def on_sub_def)

lemma frames_read_back:
  assumes "frames_text fs = Some (r_buf r)" "\<forall>(d, b)\<in>set fs. length b \<le> 2 ^ 26" "session_sub_by_id h (sub_id_in_group r) c = Some k"
  shows "\<exists>r1 c1. parse_frames h r c = ((r1, c1), True) \<and> r_buf r1 = [] \<and> g_out c1 = g_out c @ frame_calls k (r_group r) (r_frame_index r) fs
    \<and> session_sub_by_id h (sub_id_in_group r) c1 = Some k"
  using assms
proof (induction fs arbitrary: r c)
  case Nil
  then have "next_record (r_buf r) = NoRecord" by (simp add: next_record_def moq_varint_read_def)
  with Nil show ?case by (subst parse_frames.simps) simp
next
  case (Cons f fs)
  obtain d b where f: "f = (d, b)" by fastforce
  from Cons.prems(1) f obtain seg t where s: "MlAppendFrame [] d b = (seg, True)" "frames_text fs = Some t" "r_buf r = seg @ t"
    by (auto split: prod.splits bool.splits)
  have b: "length b \<le> 2 ^ 26" using Cons.prems(2) f by simp
  note rec = append_frame_Some [OF s(1) b]
  let ?r = "after_frame (zz_word d) t r" and ?c = "hand h r (zz_word d) b c"
  have "parse_frames h r c = parse_frames h ?r ?c" using frames_step [of r] rec(1) [of t] s(3) by simp
  moreover have "g_out ?c = g_out c @ (if shown b then [OnFrame k (r_group r) (r_frame_index r) d b] else [])"
    "session_sub_by_id h (sub_id_in_group r) ?c = Some k"
    using Cons.prems(3) by (simp_all add: hand_def deliver_out rec(2))
  moreover have "r_buf ?r = t" "sub_id_in_group ?r = sub_id_in_group r" "r_group ?r = r_group r" "r_frame_index ?r = r_frame_index r + 1"
    by (simp_all add: after_frame_def)
  ultimately show ?case using Cons.IH [of ?r ?c] Cons.prems(2) s(2) by (simp add: f)
qed

text \<open>The octets a group stream starts with: its type, and the three integers as a message.\<close>

definition group_ids :: "u64 \<Rightarrow> u64 \<Rightarrow> u64 \<Rightarrow> octets" where "group_ids a b e = ml_enc a @ ml_enc b @ ml_enc e"

lemma group_head_built:
  assumes "MlBuildGroupHeader (MlAppendVarint [] 0) a b e = (hdr, True)"
  shows "hdr = [0] @ ml_enc (word_of_nat (length (group_ids a b e))) @ group_ids a b e"
    "a \<le> kMlVarintMax" "b \<le> kMlVarintMax" "e \<le> kMlVarintMax"
proof -
  have z: "MlAppendVarint [] 0 = [0]" by (simp add: MlAppendVarint_def MlWriteVarint_eq kMlVarintMax_def ml_enc_def quic_varint_encode_Some quic_varint_len_def)
  have l: "length (group_ids a b e) < 2 ^ 62"
  proof -
    have "length (group_ids a b e) \<le> 24" using quic_varint_len_le8 [of a] quic_varint_len_le8 [of b] quic_varint_len_le8 [of e]
      by (simp add: group_ids_def length_ml_enc)
    then show ?thesis by (rule le_less_trans) simp
  qed
  show "hdr = [0] @ ml_enc (word_of_nat (length (group_ids a b e))) @ group_ids a b e"
    "a \<le> kMlVarintMax" "b \<le> kMlVarintMax" "e \<le> kMlVarintMax"
    using assms size_fits [OF l]
    by (auto simp: MlBuildGroupHeader_def MlBuildMessage_def MlWriteVarint_eq write_varints_eq z group_ids_def split: if_splits)
qed

lemma group_header_ids:
  "a \<le> kMlVarintMax \<Longrightarrow> b \<le> kMlVarintMax \<Longrightarrow> e \<le> kMlVarintMax \<Longrightarrow> group_header (group_ids a b e) = Some (a, b, e)"
  using read_enc_front [of a "ml_enc b @ ml_enc e"] read_enc [of b "ml_enc a" "ml_enc e"] read_enc [of e "ml_enc a @ ml_enc b" "[]"]
  by (simp add: group_header_def group_ids_def length_ml_enc)

lemma group_opens:
  assumes "MlBuildGroupHeader (MlAppendVarint [] 0) a b e = (hdr, True)" "session_sub_by_id h a c = Some k" "is_uni st" "\<not> s_dead (sess c h)"
  shows "stream_parse h (ext (hdr @ t) (new_stream_record st kStreamGroup False)) c = fst (parse_frames h
      ((new_stream_record st kStreamGroup False)\<lparr>r_typed := True, hdr_done := True, sub_id_in_group := a, r_group := b, r_frame_index := e, r_buf := t\<rparr>)
      (on_sub k (\<lambda>s. s\<lparr>sub_groups := sub_groups s + 1\<rparr>) c))"
proof -
  note g = group_head_built [OF assms(1)]
  let ?n = "length (group_ids a b e)" and ?w = "word_of_nat (length (group_ids a b e)) :: u64" and ?m = "quic_varint_len (word_of_nat (length (group_ids a b e)))"
  let ?r = "new_stream_record st kStreamGroup False"
  have small: "?n \<le> 24" using quic_varint_len_le8 [of a] quic_varint_len_le8 [of b] quic_varint_len_le8 [of e]
    by (simp add: group_ids_def length_ml_enc)
  have lt: "?n < 2 ^ 62" by (rule le_less_trans [OF small]) simp
  have u: "unat ?w = ?n" using unat_size [OF lt] .
  have z: "ml_enc 0 = [0]" by (simp add: ml_enc_def quic_varint_encode_Some quic_varint_len_def)
  have gr: "growing (ext (hdr @ t) ?r)" using assms(3) by (simp add: growing_def new_stream_record_def)
  let ?msg = "ml_enc ?w @ group_ids a b e @ t"
  have ty: "moq_varint_read (hdr @ t) (length (hdr @ t)) 0 = Some (0, 1)"
    using read_enc_front [of 0 ?msg] by (simp add: g(1) z quic_varint_len_def kMlVarintMax_def)
  have msg: "moq_msg_read ?msg (length ?msg) 0 = MOQ_MSG_OK ?m ?n"
  proof -
    have "\<not> ?w > MOQ_MAX_MESSAGE_SIZE" using small u by (simp add: word_less_nat_alt MOQ_MAX_MESSAGE_SIZE_def)
    moreover have "moq_varint_read ?msg (length ?msg) 0 = Some (?w, ?m)"
      using read_enc_front [OF size_fits [OF lt], of "group_ids a b e @ t"] by simp
    ultimately show ?thesis using u by (simp add: moq_msg_read_def length_ml_enc)
  qed
  define q where "q = ?r\<lparr>r_typed := True, r_buf := ?msg, r_kind := kStreamGroup\<rparr>"
  have "(ext (hdr @ t) ?r)\<lparr>r_typed := True, r_buf := drop 1 (r_buf (ext (hdr @ t) ?r)), r_kind := kStreamGroup\<rparr> = q"
    by (simp add: ext_def new_stream_record_def g(1) q_def)
  moreover have "r_buf (ext (hdr @ t) ?r) = hdr @ t" "\<not> r_typed (ext (hdr @ t) ?r)" by (simp_all add: ext_def new_stream_record_def)
  ultimately have "stream_parse h (ext (hdr @ t) ?r) c = parse_group h q c"
    using stream_parse_growing [OF gr assms(4)] ty by (simp add: kUniSetup_def)
  also have "\<dots> = parse_group_body h (q\<lparr>hdr_done := True, sub_id_in_group := a, r_group := b, r_frame_index := e, ts_acc := 0, r_buf := t\<rparr>)
      (on_sub k (\<lambda>s. s\<lparr>sub_groups := sub_groups s + 1\<rparr>) c)"
  proof -
    have "\<not> hdr_done q" "r_buf q = ?msg" by (simp_all add: q_def new_stream_record_def)
    moreover have "take ?n (drop ?m ?msg) = group_ids a b e" "drop (?m + ?n) ?msg = t" by (simp_all add: length_ml_enc)
    ultimately show ?thesis using msg group_header_ids [OF g(2-4)] assms(2)
      by (simp add: parse_group_def del: take_append drop_append length_append)
  qed
  also have "q\<lparr>hdr_done := True, sub_id_in_group := a, r_group := b, r_frame_index := e, ts_acc := 0, r_buf := t\<rparr>
    = ?r\<lparr>r_typed := True, hdr_done := True, sub_id_in_group := a, r_group := b, r_frame_index := e, r_buf := t\<rparr>"
    by (simp add: q_def new_stream_record_def)
  finally show ?thesis by (simp add: body_growing new_stream_record_def)
qed

lemma pieces_at_once:
  assumes "group_stream h st c" "buffered h st c + length (concat ds) \<le> MOQ_MAX_RECV_BUF" "ds \<noteq> []"
    and "cl_stream_find (sess (on_session_stream_data h st (concat ds) c) h) st \<noteq> None"
  shows "foldl (\<lambda>c d. on_session_stream_data h st d c) c ds = on_session_stream_data h st (concat ds) c"
  using assms
proof (induction ds arbitrary: c)
  case (Cons d ds)
  show ?case
  proof (cases "ds = []")
    case False
    note p = data_pieces [OF Cons.prems(1), of d "concat ds"]
    have l: "buffered h st c + length (d @ concat ds) \<le> MOQ_MAX_RECV_BUF" using Cons.prems(2) by simp
    have o: "cl_stream_find (sess (on_session_stream_data h st (d @ concat ds) c) h) st \<noteq> None" using Cons.prems(4) by simp
    note p = p [OF l o]
    have "buffered h st (on_session_stream_data h st d c) + length (concat ds) \<le> MOQ_MAX_RECV_BUF" using p(3) l by simp
    from Cons.IH [OF p(2) this False] p(1) o show ?thesis by simp
  qed simp
qed simp

text \<open>The state after a whole group, and what was called until then.\<close>

lemma group_received:
  assumes "group_stream h st c" "cl_stream_find (sess c h) st = None" "session_sub_by_id h a c = Some k"
    and "MlBuildGroupHeader (MlAppendVarint [] 0) a b e = (hdr, True)" "frames_text fs = Some t" "\<forall>(d, x)\<in>set fs. length x \<le> 2 ^ 26"
    and "concat ds = hdr @ t" "length (hdr @ t) \<le> MOQ_MAX_RECV_BUF"
  obtains r where "g_out (foldl (\<lambda>c d. on_session_stream_data h st d c) c ds) = g_out c @ frame_calls k b e fs"
    "group_stream h st (foldl (\<lambda>c d. on_session_stream_data h st d c) c ds)"
    "cl_stream_find (sess (foldl (\<lambda>c d. on_session_stream_data h st d c) c ds) h) st = Some r"
    "r_buf r = []" "hdr_done r" "\<not> group_end_notified r" "r_typed r" "r_group r = b"
    "session_sub_by_id h (sub_id_in_group r) (foldl (\<lambda>c d. on_session_stream_data h st d c) c ds) = Some k"
proof -
  obtain r c0 where f0: "find_or_add h st kStreamGroup c = (r, c0)" by fastforce
  note f = find_or_add_group [OF assms(1) f0]
  have r: "r = new_stream_record st kStreamGroup False" using f0 assms(2) by (simp add: find_or_add_def Let_def)
  have u: "is_uni st" "\<not> s_dead (sess c0 h)" using f(3) alive_sess by (auto simp: group_stream_def)
  have k0: "session_sub_by_id h a c0 = Some k" using assms(3) f(6) by (simp add: session_sub_by_id_def)
  define q where "q = r\<lparr>r_typed := True, hdr_done := True, sub_id_in_group := a, r_group := b, r_frame_index := e, r_buf := t\<rparr>"
  define d0 where "d0 = on_sub k (\<lambda>s. s\<lparr>sub_groups := sub_groups s + 1\<rparr>) c0"
  have "frames_text fs = Some (r_buf q)" "session_sub_by_id h (sub_id_in_group q) d0 = Some k"
    using assms(5) k0 by (simp_all add: q_def d0_def sub_by_id_count)
  from frames_read_back [OF this(1) assms(6) this(2)] obtain r1 c1
    where p: "parse_frames h q d0 = ((r1, c1), True)" "r_buf r1 = []" "g_out c1 = g_out d0 @ frame_calls k (r_group q) (r_frame_index q) fs"
      "session_sub_by_id h (sub_id_in_group q) c1 = Some k" by blast
  note kf = parse_frames_keeps [OF p(1)]
  have sp: "stream_parse h (ext (concat ds) r) c0 = (r1, c1)"
    using group_opens [OF assms(4) k0 u, of t] p(1) by (simp add: assms(7) r q_def d0_def)
  have b0: "buffered h st c = 0" using assms(2) by (simp add: buffered_def)
  have fit: "buffered h st c + length (concat ds) \<le> MOQ_MAX_RECV_BUF" using assms(7,8) b0 by simp
  note s = data_step [OF assms(1) f0 fit sp]
  have nd: "\<not> r_done r1" using kf by (simp add: q_def r new_stream_record_def)
  let ?c = "store_stream h r1 c1"
  have ne: "ds \<noteq> []"
  proof
    assume "ds = []"
    then show False using assms(7) group_head_built(1) [OF assms(4)] by simp
  qed
  have one: "on_session_stream_data h st (concat ds) c = ?c" using s(1) nd by simp
  have "foldl (\<lambda>c d. on_session_stream_data h st d c) c ds = ?c"
    using pieces_at_once [OF assms(1) fit ne] one s(2) [OF nd] by simp
  moreover have "g_out ?c = g_out c @ frame_calls k b e fs"
    using p(3) f(7) by (simp add: store_stream_def on_sess_def d0_def on_sub_def q_def)
  moreover have "session_sub_by_id h (sub_id_in_group r1) ?c = Some k"
    using p(4) kf by (simp add: store_stream_def on_sess_def session_sub_by_id_def)
  moreover have "hdr_done r1" "\<not> group_end_notified r1" "r_typed r1" "r_group r1 = b"
    using kf by (simp_all add: q_def r new_stream_record_def)
  ultimately show ?thesis using that [of r1] s(2) [OF nd] p(2) by simp
qed

lemma group_read_back_calls:
  assumes "group_stream h st c" "cl_stream_find (sess c h) st = None" "session_sub_by_id h a c = Some k"
    and "MlBuildGroupHeader (MlAppendVarint [] 0) a b e = (hdr, True)" "frames_text fs = Some t" "\<forall>(d, x)\<in>set fs. length x \<le> 2 ^ 26"
    and "concat ds = hdr @ t" "length (hdr @ t) \<le> MOQ_MAX_RECV_BUF"
  shows "g_out (on_session_stream_fin h st (foldl (\<lambda>c d. on_session_stream_data h st d c) c ds))
    = g_out c @ frame_calls k b e fs @ [OnGroupEnd k b]"
proof -
  let ?c = "foldl (\<lambda>c d. on_session_stream_data h st d c) c ds"
  obtain r where r: "g_out ?c = g_out c @ frame_calls k b e fs" "group_stream h st ?c" "cl_stream_find (sess ?c h) st = Some r"
    "r_buf r = []" "hdr_done r" "\<not> group_end_notified r" "r_typed r" "r_group r = b" "session_sub_by_id h (sub_id_in_group r) ?c = Some k"
    using group_received [OF assms] .
  have al: "\<not> s_dead (sess ?c h)" "growing r" using r(2,3) alive_sess by (auto simp: group_stream_def)
  let ?r = "r\<lparr>r_fin := True\<rparr>"
  have "next_record (r_buf ?r) = NoRecord" using r(4) by (simp add: next_record_def moq_varint_read_def)
  then have pf: "parse_frames h ?r ?c = ((?r, ?c), True)" by (subst parse_frames.simps) simp
  have "parse_group h ?r ?c = (?r\<lparr>group_end_notified := True, r_done := True\<rparr>, signal (OnGroupEnd k b) ?c)"
    using r(5,6,8,9) pf by (simp add: parse_group_def parse_group_body_def parse_group_fin_def)
  moreover have "stream_parse h ?r ?c = parse_group h ?r ?c"
    using al r(7) by (simp add: stream_parse_def read_stream_type_def parse_as_def growing_def)
  ultimately have "on_session_stream_fin h st ?c = stream_remove h (r_s r) (signal (OnGroupEnd k b) ?c)"
    using al r(3) by (simp add: on_session_stream_fin_def find_or_add_def parse_and_keep_def growing_def)
  then show ?thesis using r(1) by (simp add: stream_remove_def on_sess_def signal_def)
qed

text \<open>
  C10. Reading a group: its octets may come in any pieces, then the end of the stream. The application is called for
  exactly the frames, in order, with their index, time difference and octets, but for those the client keeps back, and then
  once for the end of the group.
\<close>

theorem group_read_back:
  assumes "group_stream h st c" "cl_stream_find (sess c h) st = None" "session_sub_by_id h a c = Some k"
    and "MlBuildGroupHeader (MlAppendVarint [] 0) a b e = (hdr, True)" "frames_text fs = Some t" "\<forall>(d, x)\<in>set fs. length x \<le> 2 ^ 26"
    and "concat ds = hdr @ t" "length (hdr @ t) \<le> MOQ_MAX_RECV_BUF"
  shows "g_out (on_session_stream_fin h st (foldl (\<lambda>c d. on_session_stream_data h st d c) c ds))
    = g_out c @ frame_calls k b e fs @ [OnGroupEnd k b]"
  by (rule group_read_back_calls [OF assms])

text \<open>One session with one subscription.\<close>

definition example_client :: MoqCtx where
  "example_client = \<lparr>g_sessions = [None, Some (new_session\<lparr>s_slot := 1, s_used := True, connected := True\<rparr>)],
     g_subs = [None, Some \<lparr>sub_slot = 1, sub_used = True, sub_dead = False, sub_sess = 1, sub_bc = 0, sub_id = 1, sub_track = [0x61],
       sub_stream = Some 4, track_stream = Some 0, sub_phase = kPhaseFrames, track_req_sent = True, sub_req_sent = True,
       sub_started = True, sub_groups = 0, sub_frames = 0\<rparr>], g_bcs = [], g_pubs = [], g_tracks = [], g_out = []\<rparr>"

lemma example_client_facts: "group_stream 1 3 example_client" "cl_stream_find (sess example_client 1) 3 = None"
  "session_sub_by_id 1 1 example_client = Some 1"
  by (simp_all add: example_client_def group_stream_def alive_def is_uni_def at_def sess_def new_session_def cl_stream_find_def
      session_sub_by_id_def upt_conv_Cons)

theorem group_read_back_witness:
  "g_out (on_session_stream_fin 1 3 (on_session_stream_data 1 3 [2, 5, 9] (on_session_stream_data 1 3 [0, 3, 1, 7, 0, 20] example_client)))
    = [OnFrame 1 7 0 10 [5, 9], OnGroupEnd 1 7]"
proof -
  have hdr: "MlBuildGroupHeader (MlAppendVarint [] 0) 1 7 0 = ([0, 3, 1, 7, 0], True)" by code_simp
  have fr: "MlAppendFrame [] 10 [5, 9] = ([20, 2, 5, 9], True)" by code_simp
  have sh: "shown [5, 9]" by code_simp
  have "frames_text [(10, [5, 9])] = Some [20, 2, 5, 9]" by (simp add: fr)
  from group_read_back [OF example_client_facts hdr this, of "[[0, 3, 1, 7, 0, 20], [2, 5, 9]]"] sh
  show ?thesis by (simp add: MOQ_MAX_RECV_BUF_def example_client_def)
qed

end
