(* ===== verification/Moqlite_Publishing.thy ===== *)
theory Moqlite_Publishing
  imports Moqlite_Reading
begin

text \<open>
  What the C client publishes. A group is one stream: the header, every frame in order with what came before the stream was there,
  a marker with the end of the stream; and a subscriber of the same library is called for exactly the frames that were published.
\<close>

section \<open>Served subscriptions\<close>

definition served :: "MoqCtx \<Rightarrow> nat \<Rightarrow> nat \<Rightarrow> bool" where
  "served c h k \<longleftrightarrow> at (g_sessions c) h \<noteq> None \<and> k < length (serve_subs (sess c h))"

lemma served_on_ssub [simp]: "served (on_ssub h k f c) h j = served c h j"
  by (auto simp: served_def on_ssub_def on_sess_def sess_def at_upd split: option.split)

lemma served_emit [simp]: "served (signal a c) h k = served c h k" "ssub (signal a c) h k = ssub c h k" "sess (signal a c) h = sess c h"
  by (simp_all add: served_def signal_def sess_def ssub_def)

lemma ssub_on_ssub: "served c h k \<Longrightarrow> ssub (on_ssub h k f c) h k = f (ssub c h k)"
  by (auto simp: served_def ssub_def on_ssub_def sess_on_sess)

lemma served_pending [simp]: "served (pending_push3 h q a b c) h k = served c h k"
  and ssub_pending [simp]: "ssub (pending_push3 h q a b c) h k = ssub c h k"
  by (auto simp: served_def ssub_def pending_push3_def on_sess_def sess_def at_upd split: option.split)

lemma sess_keep: "s_dead (sess (on_ssub h k f c) h) = s_dead (sess c h)" "s_pending (sess (on_ssub h k f c) h) = s_pending (sess c h)"
  by (auto simp: on_ssub_def on_sess_def sess_def at_upd split: option.split)

lemma out_keep [simp]: "g_out (on_ssub h k f c) = g_out c" "g_out (pending_push3 h q a b c) = g_out c" "g_out (signal z c) = g_out c @ [z]"
  by (simp_all add: on_ssub_def on_sess_def pending_push3_def signal_def)

text \<open>What was written to one stream, with the end-of-stream flags.\<close>

fun stream_writes :: "nat \<Rightarrow> nat \<Rightarrow> action list \<Rightarrow> (octets \<times> bool) list" where
  "stream_writes h st [] = []"
| "stream_writes h st (StreamWrite h' st' d fin # as) = (if h' = h \<and> st' = st then [(d, fin)] else []) @ stream_writes h st as"
| "stream_writes h st (a # as) = stream_writes h st as"

lemma stream_writes_append [simp]: "stream_writes h st (as @ bs) = stream_writes h st as @ stream_writes h st bs"
  by (induction as rule: stream_writes.induct) auto

section \<open>Frames\<close>

text \<open>The frames of a group as the wire has them: the difference to the frame before, then the time and the codec octets.\<close>

fun paced :: "u64 \<Rightarrow> (u64 \<times> octets) list \<Rightarrow> (u64 \<times> octets) list" where
  "paced prev [] = []"
| "paced prev ((t, x) # fs) = (t - prev, ml_enc t @ x) # paced t fs"

lemma segment_eq: "t \<le> kMlVarintMax \<Longrightarrow> frame_segment prev t x = as_rc (MlAppendFrame [] (t - prev) (ml_enc t @ x))"
  by (simp add: frame_segment_def moq_varint_write_rc MlWriteVarint_eq moq_buf_append_def encoders_agree)

definition writing :: "nat \<Rightarrow> nat \<Rightarrow> nat \<Rightarrow> u64 \<Rightarrow> u64 \<Rightarrow> MoqCtx \<Rightarrow> bool" where
  "writing h k st sq prev c \<longleftrightarrow> served c h k \<and> ss_uni (ssub c h k) = Some st \<and> ss_group_prev_us (ssub c h k) = prev
     \<and> ss_group_seq (ssub c h k) = sq \<and> \<not> ss_dead (ssub c h k)"

lemma write_one:
  assumes "writing h k st sq prev c" "t \<le> kMlVarintMax" "MlAppendFrame [] (t - prev) (ml_enc t @ x) = (seg, True)"
  shows "writing h k st sq t (serve_write_one h k t x c)" "g_out (serve_write_one h k t x c) = g_out c @ [StreamWrite h st seg False]"
    "ss_group_had_media (ssub (serve_write_one h k t x c) h k)"
  using assms by (simp_all add: serve_write_one_def writing_def segment_eq ssub_on_ssub)

lemma write_every_frame:
  assumes "writing h k st sq prev c" "\<forall>(t, x)\<in>set fs. t \<le> kMlVarintMax" "frames_text (paced prev fs) = Some tx" "fs \<noteq> []"
  shows "\<exists>segs. writing h k st sq (fst (last fs)) (foldl (\<lambda>c (t, x). serve_write_one h k t x c) c fs)
    \<and> g_out (foldl (\<lambda>c (t, x). serve_write_one h k t x c) c fs) = g_out c @ map (\<lambda>s. StreamWrite h st s False) segs \<and> concat segs = tx
    \<and> ss_group_had_media (ssub (foldl (\<lambda>c (t, x). serve_write_one h k t x c) c fs) h k)"
  using assms
proof (induction fs arbitrary: prev c tx)
  case (Cons f fs)
  obtain t x where f: "f = (t, x)" by fastforce
  obtain seg tx' where s: "MlAppendFrame [] (t - prev) (ml_enc t @ x) = (seg, True)" "frames_text (paced t fs) = Some tx'" "tx = seg @ tx'"
    using Cons.prems(3) f by (auto split: prod.splits bool.splits)
  have t: "t \<le> kMlVarintMax" using Cons.prems(2) f by auto
  note one = write_one [OF Cons.prems(1) t s(1)]
  show ?case
  proof (cases "fs = []")
    case True
    then show ?thesis using one s f by (intro exI [of _ "[seg]"]) auto
  next
    case False
    then obtain segs where "writing h k st sq (fst (last fs)) (foldl (\<lambda>c (t, x). serve_write_one h k t x c) (serve_write_one h k t x c) fs)"
      "g_out (foldl (\<lambda>c (t, x). serve_write_one h k t x c) (serve_write_one h k t x c) fs)
        = g_out (serve_write_one h k t x c) @ map (\<lambda>s. StreamWrite h st s False) segs" "concat segs = tx'"
      "ss_group_had_media (ssub (foldl (\<lambda>c (t, x). serve_write_one h k t x c) (serve_write_one h k t x c) fs) h k)"
      using Cons.IH [OF one(1) _ s(2)] Cons.prems(2) by auto
    then show ?thesis using one(2) s f False by (intro exI [of _ "seg # segs"]) auto
  qed
qed simp

section \<open>A group from its key frame to its end\<close>

text \<open>A subscription between two groups of a live session, no stream under way.\<close>

definition between_groups :: "nat \<Rightarrow> nat \<Rightarrow> MoqCtx \<Rightarrow> bool" where
  "between_groups h k c \<longleftrightarrow> served c h k \<and> \<not> s_dead (sess c h) \<and> (\<forall>p\<in>set (s_pending (sess c h)). po_kind p \<noteq> kOpenTrackGroup)
     \<and> ss_uni (ssub c h k) = None \<and> \<not> group_opening (ssub c h k) \<and> pend (ssub c h k) = [] \<and> \<not> ss_dead (ssub c h k) \<and> cat_pub (ssub c h k) = 0"

lemma key_frame_asks:
  assumes "between_groups h k c"
  shows "serve_frame h k True t x True c = on_ssub h k (\<lambda>ss. ss\<lparr>pend := pend ss @ [\<lparr>sf_ts_us = t, sf_data = x\<rparr>]\<rparr>)
    (signal (OpenUniStream h) (pending_push3 h kOpenTrackGroup 0 (k + 1) (on_ssub h k (\<lambda>ss. ss\<lparr>group_opening := True, ss_group_open_us := t,
       ss_group_prev_us := 0, ss_group_had_media := False\<rparr>) c)))"
  using assms
  by (simp add: serve_frame_def serve_write_frame_def serve_frame_buffer_def between_groups_def Let_def ssub_on_ssub MOQ_MAX_PEND_FRAMES_def)

text \<open>Frames that come while the stream does not yet exist only wait.\<close>

lemma sess_pending: "at (g_sessions c) h \<noteq> None \<Longrightarrow> s_pending (sess (pending_push3 h q a b c) h) = s_pending (sess c h) @ [\<lparr>po_kind = q, po_sub = a, po_box = b\<rparr>]"
  "s_dead (sess (pending_push3 h q a b c) h) = s_dead (sess c h)"
  by (auto simp: pending_push3_def sess_on_sess) (auto simp: on_sess_def sess_def at_upd split: option.split)

lemma stream_comes:
  assumes "between_groups h k c" "c1 = serve_frame h k True t x True c" "sq = ss_group_seq (ssub c h k)" "st \<noteq> ss_sub_stream (ssub c h k)"
    and "MlBuildGroupHeader (MlAppendVarint [] 0) (ss_sid (ssub c h k)) sq 0 = (hdr, True)"
    and "t \<le> kMlVarintMax" "MlAppendFrame [] t (ml_enc t @ x) = (seg, True)"
  shows "writing h k st sq t (on_session_uni_open h st c1)"
    "stream_writes h st (g_out (on_session_uni_open h st c1)) = stream_writes h st (g_out c) @ [(hdr, False), (seg, False)]"
    "ss_group_had_media (ssub (on_session_uni_open h st c1) h k)"
proof -
  note b = assms(1) [unfolded between_groups_def]
  have k0: "at (g_sessions c) h \<noteq> None" using b by (simp add: served_def)
  let ?new = "\<lambda>ss. ss\<lparr>group_opening := True, ss_group_open_us := t, ss_group_prev_us := 0, ss_group_had_media := False, pend := [\<lparr>sf_ts_us = t, sf_data = x\<rparr>]\<rparr>"
  define ca where "ca = on_ssub h k (\<lambda>ss. ss\<lparr>group_opening := True, ss_group_open_us := t, ss_group_prev_us := 0, ss_group_had_media := False\<rparr>) c"
  have c1: "c1 = on_ssub h k (\<lambda>ss. ss\<lparr>pend := pend ss @ [\<lparr>sf_ts_us = t, sf_data = x\<rparr>]\<rparr>) (signal (OpenUniStream h) (pending_push3 h kOpenTrackGroup 0 (k + 1) ca))"
    using key_frame_asks [OF assms(1)] assms(2) by (simp add: ca_def)
  have sca: "served ca h k" using b by (simp add: ca_def)
  then have ka: "at (g_sessions ca) h \<noteq> None" by (simp add: served_def)
  have ss1: "served c1 h k" "ssub c1 h k = ?new (ssub c h k)" using b sca by (simp_all add: c1 ssub_on_ssub) (simp add: ca_def ssub_on_ssub)
  have d1: "\<not> s_dead (sess c1 h)" "s_pending (sess c1 h) = s_pending (sess c h) @ [\<lparr>po_kind = kOpenTrackGroup, po_sub = 0, po_box = k + 1\<rparr>]"
    using b sess_pending(1) [OF ka, of kOpenTrackGroup 0 "k + 1"] sess_pending(2) [of h kOpenTrackGroup 0 "k + 1" ca] by (simp_all add: c1 sess_keep ca_def)
  define wanted where "wanted = (\<lambda>p :: PendingOpen. (po_kind p = kOpenTrackGroup) = True)"
  define po where "po = \<lparr>po_kind = kOpenTrackGroup, po_sub = 0, po_box = k + 1\<rparr>"
  define c1' where "c1' = on_sess h (\<lambda>s. s\<lparr>s_pending := s_pending (sess c h)\<rparr>) c1"
  have no: "\<forall>p\<in>set ps. po_kind p \<noteq> kOpenTrackGroup \<Longrightarrow> find wanted (ps @ [po]) = Some po
      \<and> takeWhile (\<lambda>q. \<not> wanted q) (ps @ [po]) @ tl (dropWhile (\<lambda>q. \<not> wanted q) (ps @ [po])) = ps" for ps
    by (induction ps) (auto simp: wanted_def po_def)
  have pop: "pending_pop_kind h True c1 = (c1', Some po)"
    unfolding pending_pop_kind_def Let_def wanted_def [symmetric] d1(2) po_def [symmetric] using no [of "s_pending (sess c h)"] b by (simp add: c1'_def)
  have ss1': "served c1' h k" "ssub c1' h k = ?new (ssub c h k)" "g_out c1' = g_out c1"
    using ss1 by (auto simp: c1'_def served_def ssub_def sess_on_sess) (auto simp: on_sess_def upd_def at_def split: if_splits)
  have "on_session_uni_open h st c1 = serve_group_open_on_stream h k st c1'"
    using d1(1) pop ss1' b by (simp add: on_session_uni_open_def po_def serve_stream_opened_def)
  moreover have "writing h k st sq t (serve_group_open_on_stream h k st c1')
    \<and> stream_writes h st (g_out (serve_group_open_on_stream h k st c1')) = stream_writes h st (g_out c) @ [(hdr, False), (seg, False)]
    \<and> ss_group_had_media (ssub (serve_group_open_on_stream h k st c1') h k)"
  proof -
    define c2 where "c2 = (if ss_started (ssub c1' h k) then on_ssub h k (\<lambda>ss. ss\<lparr>ss_uni := Some st\<rparr>) c1'
      else on_ssub h k (\<lambda>ss. ss\<lparr>ss_started := True\<rparr>) (signal (StreamWrite h (ss_sub_stream (ssub c1' h k)) [0, 1, 0] False)
        (on_ssub h k (\<lambda>ss. ss\<lparr>ss_uni := Some st\<rparr>) c1')))"
    have ack: "moq_wire_subscribe_start [] 0 = ([0, 1, 0], 0)" by code_simp
    have c2: "served c2 h k" "ssub c2 h k = (?new (ssub c h k))\<lparr>ss_uni := Some st, ss_started := True\<rparr>"
      "stream_writes h st (g_out c2) = stream_writes h st (g_out c)"
      using ss1' assms(4) b by (auto simp: c2_def ssub_on_ssub c1 ca_def)
    have z: "MlAppendVarint [] 0 = [0]" "moq_put_stream_type [] 0 = ([0], 0)"
      by (simp_all add: MlAppendVarint_def moq_put_stream_type_def moq_varint_write_rc MlWriteVarint_eq kMlVarintMax_def ml_enc_def
          quic_varint_encode_Some quic_varint_len_def)
    have hdr: "then_put (moq_put_stream_type [] 0) (\<lambda>o1. moq_wire_group_header o1 (ss_sid (ssub c2 h k)) (ss_group_seq (ssub c2 h k)) 0) = (hdr, 0)"
      using assms(3,5) c2(2) by (simp add: z encoders_agree)
    define c3 where "c3 = on_ssub h k (\<lambda>ss. ss\<lparr>group_opening := False\<rparr>) (signal (StreamWrite h st hdr False) c2)"
    have "serve_group_open_on_stream h k st c1' = serve_frame_flush h k c3"
      unfolding serve_group_open_on_stream_def Let_def c2_def [symmetric] ack prod.case
      using hdr by (simp add: c2_def [symmetric] c3_def if_distrib cong: if_cong)
    moreover have w3: "writing h k st sq 0 c3" "pend (ssub c3 h k) = [\<lparr>sf_ts_us = t, sf_data = x\<rparr>]" "ss_uni (ssub c3 h k) = Some st"
      using c2 b assms(3) by (simp_all add: writing_def c3_def ssub_on_ssub)
    have seg: "MlAppendFrame [] (t - 0) (ml_enc t @ x) = (seg, True)" using assms(7) by simp
    note one = write_one [OF w3(1) assms(6) seg]
    have "serve_frame_flush h k c3 = on_ssub h k (\<lambda>ss. ss\<lparr>pend := []\<rparr>) (serve_write_one h k t x c3)"
      using w3 by (simp add: serve_frame_flush_def)
    moreover have "writing h k st sq t (on_ssub h k (\<lambda>ss. ss\<lparr>pend := []\<rparr>) (serve_write_one h k t x c3))"
      "ss_group_had_media (ssub (on_ssub h k (\<lambda>ss. ss\<lparr>pend := []\<rparr>) (serve_write_one h k t x c3)) h k)"
      using one by (simp_all add: writing_def ssub_on_ssub)
    ultimately show ?thesis using one(2) c2(3) by (simp add: c3_def)
  qed
  ultimately show "writing h k st sq t (on_session_uni_open h st c1)"
    "stream_writes h st (g_out (on_session_uni_open h st c1)) = stream_writes h st (g_out c) @ [(hdr, False), (seg, False)]"
    "ss_group_had_media (ssub (on_session_uni_open h st c1) h k)" by simp_all
qed

lemma next_frame_goes_out: "writing h k st sq prev c \<Longrightarrow> serve_frame h k True t x False c = serve_write_one h k t x c"
  by (simp add: serve_frame_def serve_write_frame_def writing_def Let_def)

lemma next_frames_written:
  assumes "writing h k st sq prev c" "\<forall>(t, x)\<in>set fs. t \<le> kMlVarintMax" "frames_text (paced prev fs) = Some tx"
  shows "foldl (\<lambda>c (t, x). serve_frame h k True t x False c) c fs = foldl (\<lambda>c (t, x). serve_write_one h k t x c) c fs"
  using assms
proof (induction fs arbitrary: prev c tx)
  case (Cons f fs)
  obtain t x where f: "f = (t, x)" by fastforce
  obtain seg tx' where s: "MlAppendFrame [] (t - prev) (ml_enc t @ x) = (seg, True)" "frames_text (paced t fs) = Some tx'"
    using Cons.prems(3) f by (auto split: prod.splits bool.splits)
  have t: "t \<le> kMlVarintMax" using Cons.prems(2) f by auto
  show ?case using Cons.IH [OF write_one(1) [OF Cons.prems(1) t s(1)] _ s(2)] Cons.prems(2) next_frame_goes_out [OF Cons.prems(1)] f by simp
qed simp

text \<open>The marker that ends a group, and the end of the stream with it.\<close>

definition end_marker :: "u64 \<Rightarrow> octets" where "end_marker t = fst (MlAppendFrame [] 0 (ml_enc t))"

lemma zero_zigzag: "MlZigzagEncode 0 = Some 0"
  by (simp add: MlZigzagEncode_def kMlZigzagMin_def kMlZigzagMax_def)

lemma end_marker_built: "MlAppendFrame [] 0 (ml_enc t) = (end_marker t, True)" "length (ml_enc t) \<le> 2 ^ 26"
proof -
  have l: "length (ml_enc t) \<le> 8" using quic_varint_len_le8 [of t] by (simp add: length_ml_enc)
  then show "length (ml_enc t) \<le> 2 ^ 26" by simp
  have "length (ml_enc t) < 2 ^ 62" using l by simp
  from size_fits [OF this] have "snd (MlAppendFrame [] 0 (ml_enc t))"
    by (simp add: MlAppendFrame_def zero_zigzag MlWriteVarint_eq kMlVarintMax_def)
  then show "MlAppendFrame [] 0 (ml_enc t) = (end_marker t, True)" by (cases "MlAppendFrame [] 0 (ml_enc t)") (simp add: end_marker_def)
qed

lemma group_closes:
  assumes "writing h k st sq prev c" "ss_group_had_media (ssub c h k)" "prev \<le> kMlVarintMax"
  shows "g_out (serve_group_close h k c) = g_out c @ [StreamWrite h st (end_marker prev) True]"
proof -
  have "then_put (moq_varint_write [] prev) (\<lambda>p. moq_wire_frame [] 0 p) = (end_marker prev, 0)"
    using assms(3) end_marker_built(1) [of prev] by (simp add: moq_varint_write_rc MlWriteVarint_eq encoders_agree)
  then show ?thesis using assms(1,2) by (simp add: serve_group_close_def writing_def Let_def)
qed

lemma group_published:
  assumes "between_groups h k c" "sq = ss_group_seq (ssub c h k)" "st \<noteq> ss_sub_stream (ssub c h k)"
    and "MlBuildGroupHeader (MlAppendVarint [] 0) (ss_sid (ssub c h k)) sq 0 = (hdr, True)"
    and "\<forall>(t, x)\<in>set ((t0, x0) # fs). t \<le> kMlVarintMax" "frames_text (paced 0 ((t0, x0) # fs)) = Some tx"
  shows "\<exists>ws. stream_writes h st (g_out (serve_group_close h k (foldl (\<lambda>c (t, x). serve_frame h k True t x False c)
      (on_session_uni_open h st (serve_frame h k True t0 x0 True c)) fs))) = stream_writes h st (g_out c) @ map (\<lambda>d. (d, False)) ws
        @ [(end_marker (fst (last ((t0, x0) # fs))), True)] \<and> concat ws = hdr @ tx"
proof -
  have t0: "t0 \<le> kMlVarintMax" and ts: "\<forall>(t, x)\<in>set fs. t \<le> kMlVarintMax" using assms(5) by auto
  obtain seg tx' where s: "MlAppendFrame [] t0 (ml_enc t0 @ x0) = (seg, True)" "frames_text (paced t0 fs) = Some tx'" "tx = seg @ tx'"
    using assms(6) by (auto split: prod.splits bool.splits)
  let ?c2 = "on_session_uni_open h st (serve_frame h k True t0 x0 True c)"
  note o = stream_comes [OF assms(1) refl assms(2,3,4) t0 s(1)]
  have l: "fst (last ((t0, x0) # fs)) \<le> kMlVarintMax" using assms(5) last_in_set [of "(t0, x0) # fs"] by fastforce
  show ?thesis
  proof (cases "fs = []")
    case True
    then show ?thesis using group_closes [OF o(1,3) t0] o(2) s by (intro exI [of _ "[hdr, seg]"]) simp
  next
    case False
    obtain segs where w: "writing h k st sq (fst (last fs)) (foldl (\<lambda>c (t, x). serve_write_one h k t x c) ?c2 fs)"
      "g_out (foldl (\<lambda>c (t, x). serve_write_one h k t x c) ?c2 fs) = g_out ?c2 @ map (\<lambda>s. StreamWrite h st s False) segs" "concat segs = tx'"
      "ss_group_had_media (ssub (foldl (\<lambda>c (t, x). serve_write_one h k t x c) ?c2 fs) h k)"
      using write_every_frame [OF o(1) ts s(2) False] by blast
    have m: "stream_writes h st (map (\<lambda>s. StreamWrite h st s False) ss) = map (\<lambda>d. (d, False)) ss" for ss by (induction ss) auto
    have "fst (last fs) \<le> kMlVarintMax" using l False by simp
    from group_closes [OF w(1,4) this] w(2) o(2) w(3) s(3) False show ?thesis
      by (intro exI [of _ "hdr # seg # segs"]) (simp add: next_frames_written [OF o(1) ts s(2)] m)
  qed
qed

lemma frames_text_append: "frames_text fs = Some a \<Longrightarrow> frames_text gs = Some b \<Longrightarrow> frames_text (fs @ gs) = Some (a @ b)"
  by (induction fs arbitrary: a) (auto split: prod.splits bool.splits)

lemma frame_calls_append: "frame_calls k g n (fs @ gs) = frame_calls k g n fs @ frame_calls k g (n + word_of_nat (length fs)) gs"
  by (induction fs arbitrary: n) (auto simp: ac_simps)

lemma marker_hidden: "t \<le> kMlVarintMax \<Longrightarrow> \<not> shown (ml_enc t)"
  using read_enc_front [of t "[]"] by (simp add: shown_def length_ml_enc)

text \<open>
  C9. From publisher to subscriber: a key frame opens a group, other frames follow and the group is closed; the stream asked for comes after
  the first frame. What was written to it, cut in any pieces, makes a subscriber call its application for exactly these frames, in
  order, with index, time difference, time and octets, and then for the end of the group with the publisher's number.
\<close>

theorem publisher_to_subscriber:
  assumes "between_groups h k c" "sq = ss_group_seq (ssub c h k)" "st \<noteq> ss_sub_stream (ssub c h k)"
    and "MlBuildGroupHeader (MlAppendVarint [] 0) (ss_sid (ssub c h k)) sq 0 = (hdr, True)"
    and "\<forall>(t, x)\<in>set ((t0, x0) # fs). t \<le> kMlVarintMax \<and> length (ml_enc t @ x) \<le> 2 ^ 26" "frames_text (paced 0 ((t0, x0) # fs)) = Some tx"
    and "c' = serve_group_close h k (foldl (\<lambda>c (t, x). serve_frame h k True t x False c)
           (on_session_uni_open h st (serve_frame h k True t0 x0 True c)) fs)"
    and "stream_writes h st (g_out c) = []" "concat ds = concat (map fst (stream_writes h st (g_out c')))"
    and "group_stream h' st' s" "cl_stream_find (sess s h') st' = None" "session_sub_by_id h' (ss_sid (ssub c h k)) s = Some k'"
    and "length (concat ds) \<le> MOQ_MAX_RECV_BUF"
  shows "g_out (on_session_stream_fin h' st' (foldl (\<lambda>s d. on_session_stream_data h' st' d s) s ds))
      = g_out s @ frame_calls k' sq 0 (paced 0 ((t0, x0) # fs)) @ [OnGroupEnd k' sq] \<and>
    (\<exists>ws. stream_writes h st (g_out c') = ws @ [(end_marker (fst (last ((t0, x0) # fs))), True)] \<and> (\<forall>(d, fin)\<in>set ws. \<not> fin))"
proof -
  let ?fs = "(t0, x0) # fs"
  let ?l = "fst (last ?fs)"
  have ts: "\<forall>(t, x)\<in>set ?fs. t \<le> kMlVarintMax" using assms(5) by auto
  have l: "?l \<le> kMlVarintMax" using ts last_in_set [of ?fs] by fastforce
  obtain ws where w: "stream_writes h st (g_out c') = map (\<lambda>d. (d, False)) ws @ [(end_marker ?l, True)]" "concat ws = hdr @ tx"
    using group_published [OF assms(1-4) ts assms(6)] assms(7,8) by auto
  then have closed: "\<exists>ws. stream_writes h st (g_out c') = ws @ [(end_marker ?l, True)] \<and> (\<forall>(d, fin)\<in>set ws. \<not> fin)" by auto
  have "frames_text [(0, ml_enc ?l)] = Some (end_marker ?l)" using end_marker_built(1) [of ?l] by simp
  from frames_text_append [OF assms(6) this] have ft: "frames_text (paced 0 ?fs @ [(0, ml_enc ?l)]) = Some (tx @ end_marker ?l)" .
  have "\<forall>(d, x)\<in>set (paced p gs). length x \<le> 2 ^ 26" if "\<forall>(t, x)\<in>set gs. length (ml_enc t @ x) \<le> 2 ^ 26" for p gs
    using that by (induction p gs rule: paced.induct) auto
  from this [of ?fs 0] have ls: "\<forall>(d, x)\<in>set (paced 0 ?fs @ [(0, ml_enc ?l)]). length x \<le> 2 ^ 26"
    using assms(5) end_marker_built(2) [of ?l] by fastforce
  have "concat (map fst (map (\<lambda>d. (d, False)) ws)) = concat ws" by (simp add: comp_def)
  then have ds: "concat ds = hdr @ tx @ end_marker ?l" using assms(9) w by simp
  have fit: "length (hdr @ tx @ end_marker ?l) \<le> MOQ_MAX_RECV_BUF" using assms(13) by (simp only: ds)
  have "g_out (on_session_stream_fin h' st' (foldl (\<lambda>s d. on_session_stream_data h' st' d s) s ds))
      = g_out s @ frame_calls k' sq 0 (paced 0 ?fs) @ [OnGroupEnd k' sq]"
    using group_read_back_calls [OF assms(10-12,4) ft ls ds fit] marker_hidden [OF l] by (simp only: frame_calls_append) simp
  with closed show ?thesis by blast
qed

definition example_publisher :: MoqCtx where
  "example_publisher = \<lparr>g_sessions = [None, Some (new_session\<lparr>s_slot := 1, s_used := True, connected := True,
       serve_subs := [new_serve_sub 1 4 1 0]\<rparr>)], g_subs = [], g_bcs = [], g_pubs = [], g_tracks = [], g_out = []\<rparr>"

lemma example_publisher_facts: "between_groups 1 0 example_publisher" "ss_group_seq (ssub example_publisher 1 0) = 0"
  "ss_sub_stream (ssub example_publisher 1 0) = 4" "ss_sid (ssub example_publisher 1 0) = 1" "g_out example_publisher = []"
  by (simp_all add: between_groups_def served_def example_publisher_def at_def sess_def new_session_def ssub_def new_serve_sub_def)

text \<open>A key frame at 10 and a frame at 30 microseconds.\<close>

theorem publisher_to_subscriber_witness:
  "\<exists>ds. g_out (on_session_stream_fin 1 3 (foldl (\<lambda>s d. on_session_stream_data 1 3 d s) example_client ds))
     = [OnFrame 1 0 0 10 [10, 5], OnFrame 1 0 1 20 [30, 6], OnGroupEnd 1 0]"
proof -
  define c' where "c' = serve_group_close 1 0 (foldl (\<lambda>c (t, x). serve_frame 1 0 True t x False c)
    (on_session_uni_open 1 3 (serve_frame 1 0 True 10 [5] True example_publisher)) [(30, [6])])"
  note f = example_publisher_facts
  have hdr: "MlBuildGroupHeader (MlAppendVarint [] 0) (ss_sid (ssub example_publisher 1 0)) 0 0 = ([0, 3, 1, 0, 0], True)"
    unfolding f(4) by code_simp
  have e: "ml_enc 10 = [10]" "ml_enc 30 = [30]" by (simp_all add: ml_enc_def quic_varint_encode_Some quic_varint_len_def)
  have fr: "MlAppendFrame [] 10 [10, 5] = ([20, 2, 10, 5], True)" "MlAppendFrame [] 20 [30, 6] = ([40, 2, 30, 6], True)" by code_simp+
  have tx: "frames_text (paced 0 [(10, [5]), (30, [6])]) = Some [20, 2, 10, 5, 40, 2, 30, 6]" by (simp add: e fr)
  have bound: "\<forall>(t, x)\<in>set [(10, [5]), (30, [6] :: octets)]. t \<le> kMlVarintMax \<and> length (ml_enc t @ x) \<le> 2 ^ 26"
    by (simp add: e kMlVarintMax_def)
  have st: "3 \<noteq> ss_sub_stream (ssub example_publisher 1 0)" unfolding f by simp
  have seq: "0 = ss_group_seq (ssub example_publisher 1 0)" unfolding f by simp
  have w0: "stream_writes 1 3 (g_out example_publisher) = []" unfolding f by simp
  let ?d = "concat (map fst (stream_writes 1 3 (g_out c')))"
  have m: "end_marker 30 = [0, 1, 30]" unfolding end_marker_def e by code_simp
  obtain ws where ws: "stream_writes 1 3 (g_out c') = map (\<lambda>d. (d, False)) ws @ [([0, 1, 30], True)]"
    "concat ws = [0, 3, 1, 0, 0] @ [20, 2, 10, 5, 40, 2, 30, 6]"
    using group_published [OF f(1) seq st hdr _ tx] bound w0 m by (auto simp: c'_def)
  have "concat (map fst (map (\<lambda>d. (d, False)) ws)) = concat ws" by (simp add: comp_def)
  then have len: "length (concat [?d]) \<le> MOQ_MAX_RECV_BUF" using ws by (simp add: MOQ_MAX_RECV_BUF_def)
  have sub: "session_sub_by_id 1 (ss_sid (ssub example_publisher 1 0)) example_client = Some 1"
    unfolding f using example_client_facts(3) .
  have sh: "shown [10, 5]" "shown [30, 6]" by code_simp+
  have "g_out example_client = []" by (simp add: example_client_def)
  with publisher_to_subscriber [THEN conjunct1, OF f(1) seq st hdr bound tx c'_def w0 _ example_client_facts(1,2) sub, of "[?d]"] len sh
  have "g_out (on_session_stream_fin 1 3 (foldl (\<lambda>s d. on_session_stream_data 1 3 d s) example_client [?d]))
     = [OnFrame 1 0 0 10 [10, 5], OnFrame 1 0 1 20 [30, 6], OnGroupEnd 1 0]" by (simp add: e)
  then show ?thesis by blast
qed

end
