(* ===== verification/Moqlite_Defects.thy ===== *)
theory Moqlite_Defects
  imports Moqlite_Publishing
begin

text \<open>
  What the C client does where its comments promise something else: sessions that are never freed, error codes taken for handles, a
  role that is not the default it is said to be, frames after an unsubscribe, octets of a refused stream read as a new one, a
  broadcast announced twice, two streams for one group.
\<close>

section \<open>Sessions and handles\<close>

text \<open>
  \<open>moq_lite_session_free\<close> does nothing, whatever the session's state: the lookup it starts with refuses the closed sessions
  it is meant for, and an open one it refuses itself.
\<close>

theorem session_free_never_frees: "moq_lite_session_free h c = c"
  by (auto simp: moq_lite_session_free_def session_get_def split: option.splits)

lemma as_handle_args: "as_handle MOQ_LITE_ERR_ARGS = 4294967295" "as_handle MOQ_LITE_ERR_STATE = 4294967292"
  by (simp_all add: as_handle_def MOQ_LITE_ERR_ARGS_def MOQ_LITE_ERR_STATE_def unsigned_minus_1_eq_mask mask_eq_exp_minus_1)

text \<open>
  A subscription that fails is not reported as the handle 0 the interface promises: the negative error code
  comes back as a handle above four billion, for a broadcast that is gone, an empty track name and a session that is not connected.
\<close>

theorem failed_subscription_handle:
  "(bc_get c b = None \<longrightarrow> moq_lite_subscribe b track c = (c, 4294967295))
   \<and> sub_create b bc [] c = (c, 4294967295)
   \<and> (session_get c h = Some s \<and> \<not> connected s \<longrightarrow> moq_lite_subscribe_path h path track c = (c, 4294967292))"
  by (simp add: moq_lite_subscribe_def sub_create_def moq_lite_subscribe_path_def as_handle_args)

theorem failed_subscription_handle_witness:
  "moq_lite_subscribe 1 [0x61] example_client = (example_client, 4294967295)"
proof -
  have "bc_get example_client 1 = None" by (simp add: bc_get_def example_client_def at_def)
  with failed_subscription_handle [of example_client 1 "[0x61]"] show ?thesis by blast
qed

text \<open>
  The role of a new session is 0, both directions, where the interface names the subscriber, 2, as the default: that is what its SETUP
  tells the server.
\<close>

theorem default_role_is_both:
  "role (sess (fst (moq_lite_session_new c)) (snd (moq_lite_session_new c))) = 0
   \<and> setup_message [] 0 = ([1, 4, 1, 3, 1, 0], 0)"
proof -
  have "setup_message [] 0 = ([1, 4, 1, 3, 1, 0], 0)" by code_simp
  moreover have "role (sess (fst (moq_lite_session_new c)) (snd (moq_lite_session_new c))) = 0"
  proof -
    have "at (xs @ [y]) (length xs) = y" for xs and y :: "MoqSession option" by (simp add: at_def)
    from this [of "[None]"] this [of "g_sessions c"] show ?thesis
      by (simp add: moq_lite_session_new_def alloc_slot_def Let_def sess_def at_upd new_session_def)
  qed
  ultimately show ?thesis by blast
qed

section \<open>Streams that are over\<close>

lemma sub_by_id_dead: "session_sub_by_id h i (on_sub k (\<lambda>s. s\<lparr>sub_dead := True\<rparr>) c) = session_sub_by_id h i c"
  by (rule sub_by_id_cong; auto simp: on_sub_def at_upd option.map_comp comp_def; simp add: upd_def)

lemma unsubscribe_keeps: "session_sub_by_id h i (moq_lite_unsubscribe j c) = session_sub_by_id h i c"
  "g_sessions (moq_lite_unsubscribe j c) = g_sessions c"
  by (auto simp: moq_lite_unsubscribe_def Let_def sub_by_id_dead sub_by_id_count split: option.split)
    (auto simp: on_sub_def signal_def)

text \<open>
  After \<open>moq_lite_unsubscribe\<close> the groups of the subscription are still handed to the application, frame by frame, where a comment in
  the parser says they are reset as cancelled.
\<close>

theorem frames_after_unsubscribe:
  assumes "group_stream h st c" "cl_stream_find (sess c h) st = None" "session_sub_by_id h a c = Some k"
    and "MlBuildGroupHeader (MlAppendVarint [] 0) a b e = (hdr, True)" "frames_text fs = Some t" "\<forall>(d, x)\<in>set fs. length x \<le> 2 ^ 26"
    and "length (hdr @ t) \<le> MOQ_MAX_RECV_BUF"
  shows "g_out (on_session_stream_data h st (hdr @ t) (moq_lite_unsubscribe k c)) = g_out (moq_lite_unsubscribe k c) @ frame_calls k b e fs"
proof -
  have s: "sess (moq_lite_unsubscribe k c) h = sess c h" using sess_cong [OF unsubscribe_keeps(2)] .
  have "group_stream h st (moq_lite_unsubscribe k c)" using assms(1) s alive_cong [OF unsubscribe_keeps(2)] by (simp add: group_stream_def)
  moreover have "cl_stream_find (sess (moq_lite_unsubscribe k c) h) st = None" using assms(2) s by simp
  moreover have "session_sub_by_id h a (moq_lite_unsubscribe k c) = Some k" using assms(3) unsubscribe_keeps(1) by simp
  ultimately obtain r where "g_out (foldl (\<lambda>c d. on_session_stream_data h st d c) (moq_lite_unsubscribe k c) [hdr @ t])
      = g_out (moq_lite_unsubscribe k c) @ frame_calls k b e fs"
    using group_received [of h st "moq_lite_unsubscribe k c" a k b e hdr fs t "[hdr @ t]"] assms(4-7) by auto
  then show ?thesis by simp
qed

theorem frames_after_unsubscribe_witness:
  "g_out (on_session_stream_data 1 3 [0, 3, 1, 7, 0, 20, 2, 5, 9] (moq_lite_unsubscribe 1 example_client))
    = g_out (moq_lite_unsubscribe 1 example_client) @ [OnFrame 1 7 0 10 [5, 9]]"
proof -
  have hdr: "MlBuildGroupHeader (MlAppendVarint [] 0) 1 7 0 = ([0, 3, 1, 7, 0], True)" by code_simp
  have fr: "MlAppendFrame [] 10 [5, 9] = ([20, 2, 5, 9], True)" by code_simp
  have sh: "shown [5, 9]" by code_simp
  have "frames_text [(10, [5, 9])] = Some [20, 2, 5, 9]" by (simp add: fr)
  from frames_after_unsubscribe [OF example_client_facts hdr this] sh show ?thesis by (simp add: MOQ_MAX_RECV_BUF_def)
qed

lemma refused_group:
  assumes "group_stream h st c" "cl_stream_find (sess c h) st = None" "session_sub_by_id h a c = None"
    and "MlBuildGroupHeader (MlAppendVarint [] 0) a b e = (hdr, True)" "length (hdr @ t) \<le> MOQ_MAX_RECV_BUF"
  shows "g_out (on_session_stream_data h st (hdr @ t) c) = g_out c @ [StreamReset h st kStreamCancelled]"
    "cl_stream_find (sess (on_session_stream_data h st (hdr @ t) c) h) st = None"
    "group_stream h st (on_session_stream_data h st (hdr @ t) c)"
    "g_subs (on_session_stream_data h st (hdr @ t) c) = g_subs c"
proof -
  obtain r c0 where f0: "find_or_add h st kStreamGroup c = (r, c0)" by fastforce
  note f = find_or_add_group [OF assms(1) f0]
  have r: "r = new_stream_record st kStreamGroup False" using f0 assms(2) by (simp add: find_or_add_def Let_def)
  have u: "is_uni st" "\<not> s_dead (sess c0 h)" "alive c0 h" using f(3) alive_sess by (auto simp: group_stream_def)
  have k0: "session_sub_by_id h a c0 = None" using assms(3) f(6) by (simp add: session_sub_by_id_def)
  note g = group_head_built [OF assms(4)]
  let ?ids = "group_ids a b e" and ?w = "word_of_nat (length (group_ids a b e)) :: u64"
  let ?msg = "ml_enc ?w @ group_ids a b e @ t"
  have small: "length ?ids \<le> 24" using quic_varint_len_le8 [of a] quic_varint_len_le8 [of b] quic_varint_len_le8 [of e]
    by (simp add: group_ids_def length_ml_enc)
  have lt: "length ?ids < 2 ^ 62" by (rule le_less_trans [OF small]) simp
  have z: "ml_enc 0 = [0]" by (simp add: ml_enc_def quic_varint_encode_Some quic_varint_len_def)
  have ty: "moq_varint_read (hdr @ t) (length (hdr @ t)) 0 = Some (0, 1)"
    using read_enc_front [of 0 ?msg] by (simp add: g(1) z quic_varint_len_def kMlVarintMax_def)
  have msg: "moq_msg_read ?msg (length ?msg) 0 = MOQ_MSG_OK (quic_varint_len ?w) (length ?ids)"
  proof -
    have "\<not> ?w > MOQ_MAX_MESSAGE_SIZE" using small unat_size [OF lt] by (simp add: word_less_nat_alt MOQ_MAX_MESSAGE_SIZE_def)
    moreover have "moq_varint_read ?msg (length ?msg) 0 = Some (?w, quic_varint_len ?w)"
      using read_enc_front [OF size_fits [OF lt], of "?ids @ t"] by simp
    ultimately show ?thesis using unat_size [OF lt] by (simp add: moq_msg_read_def length_ml_enc)
  qed
  have gr: "growing (ext (hdr @ t) r)" using f(1) by simp
  have buf: "r_buf (ext (hdr @ t) r) = hdr @ t" "\<not> r_typed (ext (hdr @ t) r)" by (simp_all add: r ext_def new_stream_record_def)
  obtain q where q: "stream_parse h (ext (hdr @ t) r) c0 = (q, signal (StreamReset h st kStreamCancelled) c0)" "r_done q"
  proof -
    define r1 where "r1 = (ext (hdr @ t) r)\<lparr>r_typed := True, r_buf := drop 1 (hdr @ t), r_kind := kStreamGroup\<rparr>"
    have b1: "r_buf r1 = ?msg" "\<not> hdr_done r1" "r_s r1 = st" by (simp_all add: r1_def g(1) r ext_def new_stream_record_def)
    have "stream_parse h (ext (hdr @ t) r) c0 = parse_group h r1 c0"
      using stream_parse_growing [OF gr u(2)] ty buf by (simp add: kUniSetup_def r1_def)
    also have "\<dots> = (r1\<lparr>r_done := True\<rparr>, signal (StreamReset h st kStreamCancelled) c0)"
      using b1 msg group_header_ids [OF g(2-4)] k0 by (simp add: parse_group_def length_ml_enc)
    finally show thesis by (rule that) simp
  qed
  have fit: "buffered h st c + length (hdr @ t) \<le> MOQ_MAX_RECV_BUF" using assms(2,5) by (simp add: buffered_def)
  note d = data_step [OF assms(1) f0 fit q(1)]
  let ?e = "signal (StreamReset h st kStreamCancelled) c0" and ?n = "on_session_stream_data h st (hdr @ t) c"
  have n: "?n = stream_remove h st ?e" using d(1) q(2) by simp
  then show "g_out ?n = g_out c @ [StreamReset h st kStreamCancelled]" "g_subs ?n = g_subs c"
    using f(6,7) by (simp_all add: stream_remove_def on_sess_def signal_def)
  show find: "cl_stream_find (sess ?n h) st = None" using d(3) q(2) by blast
  have al: "alive ?e h" using u(3) by (simp add: alive_def signal_def)
  have "sess ?n h = (sess c0 h)\<lparr>s_streams := remove_swap st (s_streams (sess c0 h))\<rparr>"
    using alive_sess [OF al] by (simp add: n stream_remove_def sess_on_sess)
  moreover have "distinct (map r_s (remove_swap st rs))" if "distinct (map r_s rs)" for rs
    using that
  proof (induction rs)
    case (Cons q rs)
    have "r_s ` set (remove_swap st rs) \<subseteq> r_s ` set rs"
      by (induction rs) (auto dest: in_set_butlastD last_in_set split: if_splits)
    moreover have "distinct (map r_s (last rs # butlast rs))" if "rs \<noteq> []"
      using Cons.prems that by (cases rs rule: rev_cases) auto
    ultimately show ?case using Cons by auto
  qed simp
  moreover have "alive ?n h" using al by (auto simp: n alive_def stream_remove_def on_sess_def upd_def at_def split: if_splits)
  ultimately show "group_stream h st ?n" using f(3) find by (simp add: group_stream_def)
qed

text \<open>
  A group of an unknown subscription is reset and its record dropped, but the peer need not stop at once (see
  \<open>reset_does_not_stop_data\<close>): the next octets of the same stream are read as a new stream from its type on. If they happen to
  look like a group of a known subscription, its application is called with frames that nobody sent.
\<close>

theorem refused_stream_is_read_anew:
  assumes "group_stream h st c" "cl_stream_find (sess c h) st = None" "session_sub_by_id h u c = None" "session_sub_by_id h a c = Some k"
    and "MlBuildGroupHeader (MlAppendVarint [] 0) u n e' = (refused, True)" "length (refused @ x) \<le> MOQ_MAX_RECV_BUF"
    and "MlBuildGroupHeader (MlAppendVarint [] 0) a b e = (hdr, True)" "frames_text fs = Some t" "\<forall>(d, x)\<in>set fs. length x \<le> 2 ^ 26"
    and "length (hdr @ t) \<le> MOQ_MAX_RECV_BUF"
  shows "g_out (on_session_stream_data h st (hdr @ t) (on_session_stream_data h st (refused @ x) c))
    = g_out c @ [StreamReset h st kStreamCancelled] @ frame_calls k b e fs"
proof -
  let ?c = "on_session_stream_data h st (refused @ x) c"
  note r = refused_group [OF assms(1-3) assms(5,6)]
  have "session_sub_by_id h a ?c = Some k" using assms(4) r(4) by (simp add: session_sub_by_id_def)
  then obtain q where "g_out (foldl (\<lambda>c d. on_session_stream_data h st d c) ?c [hdr @ t]) = g_out ?c @ frame_calls k b e fs"
    using group_received [OF r(3,2) _ assms(7-9), of k "[hdr @ t]"] assms(10) by auto
  then show ?thesis using r(1) by simp
qed

theorem refused_stream_is_read_anew_witness:
  "g_out (on_session_stream_data 1 3 [0, 3, 1, 7, 0, 20, 2, 5, 9] (on_session_stream_data 1 3 [0, 3, 9, 2, 0, 1] example_client))
    = [StreamReset 1 3 1, OnFrame 1 7 0 10 [5, 9]]"
proof -
  have rf: "MlBuildGroupHeader (MlAppendVarint [] 0) 9 2 0 = ([0, 3, 9, 2, 0], True)" by code_simp
  have hdr: "MlBuildGroupHeader (MlAppendVarint [] 0) 1 7 0 = ([0, 3, 1, 7, 0], True)" by code_simp
  have fr: "MlAppendFrame [] 10 [5, 9] = ([20, 2, 5, 9], True)" by code_simp
  have sh: "shown [5, 9]" by code_simp
  have un: "session_sub_by_id 1 9 example_client = None" by (simp add: session_sub_by_id_def example_client_def at_def upt_conv_Cons)
  have t: "frames_text [(10, [5, 9])] = Some [20, 2, 5, 9]" by (simp add: fr)
  from refused_stream_is_read_anew [OF example_client_facts(1,2) un example_client_facts(3) rf _ hdr t, of "[1]"] sh
  show ?thesis by (simp add: MOQ_MAX_RECV_BUF_def example_client_def kStreamCancelled_def)
qed

section \<open>Publishing\<close>

text \<open>
  A second key frame while the stream of the first is still asked for asks for another: both streams become streams of the same
  group, with the same number. The first one carries the frame and is never ended, the second one is empty but for the end marker.
\<close>

theorem two_streams_for_one_group:
  "let c = serve_group_close 1 0 (on_session_uni_open 1 7 (on_session_uni_open 1 3
       (serve_frame 1 0 True 20 [6] True (serve_frame 1 0 True 10 [5] True example_publisher)))) in
   stream_writes 1 3 (g_out c) = [([0, 3, 1, 0, 0], False), ([40, 2, 20, 6], False)]
   \<and> stream_writes 1 7 (g_out c) = [([0, 3, 1, 0, 0], False), ([0, 1, 20], True)]"
  by code_simp

text \<open>
  Answering a peer's ANNOUNCE_REQUEST does not mark the broadcasts as announced: the next track that is declared announces
  the broadcast again on the same stream, where the flag is there to send the message once.
\<close>

theorem broadcast_announced_twice:
  assumes "\<not> s_dead (sess c h)" "s_pubs (sess c h) = [i]" "live_pub c i = Some p" "\<not> announced p" "p_tracks p \<noteq> []"
    and "s_streams (sess c h) = [r]" "r_kind r = kStreamAnnounce" "\<not> r_local r" "\<not> r_done r" "req_prefix r = Some prefix"
    and "pub_suffix_for prefix (p_path p) = Some suffix" "moq_wire_announce_start [] suffix 0 0 = (start, 0)"
  shows "\<exists>ok. stream_writes h (r_s r) (g_out (serve_reannounce h (fst (serve_announce_write h (r_s r) prefix c))))
    = stream_writes h (r_s r) (g_out c) @ [(ok @ start, False), (start, False)]"
proof -
  have n: "announce_starts h prefix c = (start, 1)"
    using assms(2,3,5,11,12) by (simp add: announce_starts_def)
  obtain ok where ok: "moq_wire_announce_ok [] 0 1 = (ok, 0)"
  proof -
    have "moq_wire_announce_ok [] 0 1 = ([2, 0, 1], 0)" by code_simp
    then show thesis by (rule that)
  qed
  have w: "serve_announce_write h (r_s r) prefix c = (signal (StreamWrite h (r_s r) (ok @ start) False) c, True)"
    using n ok by (simp add: serve_announce_write_def moq_buf_append_def)
  let ?c = "signal (StreamWrite h (r_s r) (ok @ start) False) c"
  have l: "live_pub ?c i = Some p" using assms(3) by (simp add: live_pub_def signal_def)
  have "reannounce_on h (p_path p) ?c = (signal (StreamWrite h (r_s r) start False) ?c, True)"
    using assms(6-12) by (simp add: reannounce_on_def)
  then have "serve_reannounce h ?c = on_pub i (\<lambda>p. p\<lparr>announced := True\<rparr>) (signal (StreamWrite h (r_s r) start False) ?c)"
    using assms(1,2,4,5) l by (simp add: serve_reannounce_def)
  then show ?thesis by (intro exI [of _ ok]) (simp add: w on_pub_def)
qed

definition example_announcer :: MoqCtx where
  "example_announcer = \<lparr>g_sessions = [None, Some (new_session\<lparr>s_slot := 1, s_used := True, connected := True, s_pubs := [1],
       s_streams := [(new_stream_record 1 kStreamAnnounce False)\<lparr>r_typed := True, req_prefix := Some []\<rparr>]\<rparr>)], g_subs = [], g_bcs = [],
     g_pubs = [None, Some \<lparr>p_slot = 1, p_used = True, p_dead = False, p_path = [0x61], p_sess = 1, p_tracks = [1], catalog = [],
       announced = False\<rparr>], g_tracks = [], g_out = []\<rparr>"

theorem broadcast_announced_twice_witness:
  "\<exists>ok. stream_writes 1 1 (g_out (serve_reannounce 1 (fst (serve_announce_write 1 1 [] example_announcer))))
    = [(ok @ [0, 5, 1, 0x61, 0, 0, 0], False), ([0, 5, 1, 0x61, 0, 0, 0], False)]"
proof -
  let ?r = "(new_stream_record 1 kStreamAnnounce False)\<lparr>r_typed := True, req_prefix := Some []\<rparr>"
  let ?p = "\<lparr>p_slot = 1, p_used = True, p_dead = False, p_path = [0x61], p_sess = 1, p_tracks = [1], catalog = [], announced = False\<rparr>"
  have s: "moq_wire_announce_start [] [0x61] 0 0 = ([0, 5, 1, 0x61, 0, 0, 0], 0)" by code_simp
  have l: "live_pub example_announcer 1 = Some ?p" by (simp add: live_pub_def example_announcer_def at_def)
  have ss: "\<not> s_dead (sess example_announcer 1)" "s_pubs (sess example_announcer 1) = [1]" "s_streams (sess example_announcer 1) = [?r]"
    by (simp_all add: example_announcer_def sess_def at_def new_session_def)
  have "r_s ?r = 1" "stream_writes 1 1 (g_out example_announcer) = []" by (simp_all add: new_stream_record_def example_announcer_def)
  with broadcast_announced_twice [OF ss(1,2) l _ _ ss(3), of "[]" "[0x61]"] s show ?thesis
    by (simp add: new_stream_record_def pub_suffix_for_def)
qed

end
