(* ===== verification/Moq_Session.thy ===== *)
theory Moq_Session
  imports Moq_Lite_Egress Stream_Manager Flv "HOL-Library.List_Lexorder" "HOL-Library.Char_ord"
begin

text \<open>
  The moq-lite side of the server, \<open>moq/moq_lite_session.cpp\<close>: the state of the sessions and what they do as
  publishers, for a peer that asks for announcements, tracks and subscriptions.

  All sessions stand in one state with the stream manager, because one session's media reaches the others through it. A
  session is named by the number of its connection. A player of the manager is the egress writer of one
  subscription; writers of one session share its connection, so the object behind the manager's pointer
  is a mailbox, and what lands in it is handed to the writer at once, in the order of the players.
  The JSON parser (vendored) and the callback that pulls a missing stream from the cluster are parameters kept in the state;
  members of an object come in the order of their keys, numbers are integers.
\<close>

section \<open>State\<close>

datatype json = JNull | JBool bool | JNum int | JStr string | JArr "json list" | JObj "(string \<times> json) list"

record recv_stream =
  rs_buf :: octets
  rs_type :: u64
  rs_typed :: bool
  rs_local :: bool
  rs_fin :: bool
  rs_done :: bool
  rs_reset_sent :: bool
  rs_running :: bool
  rs_expect :: u64
  rs_ann_next_id :: u64
  rs_sub_id :: u64
  rs_req_path :: string
  rs_req_track :: string
  rs_group_hdr_done :: bool
  rs_sub_id_in_group :: u64
  rs_group :: u64
  rs_frame_index :: u64
  rs_ts_acc :: u64
  rs_key_pending :: bool

definition new_RecvStream :: recv_stream where
  "new_RecvStream = \<lparr>rs_buf = [], rs_type = 0, rs_typed = False, rs_local = False, rs_fin = False, rs_done = False, rs_reset_sent = False,
     rs_running = False, rs_expect = 0, rs_ann_next_id = 0, rs_sub_id = 0, rs_req_path = [], rs_req_track = [], rs_group_hdr_done = False,
     rs_sub_id_in_group = 0, rs_group = 0, rs_frame_index = 0, rs_ts_acc = 0, rs_key_pending = False\<rparr>"

record lite_track =
  lt_name :: string
  lt_kind :: string
  lt_codec :: string
  lt_codec_config :: octets
  lt_width :: u32
  lt_height :: u32
  lt_sample_rate :: u32
  lt_channels :: u32
  lt_subscribe_id :: u64
  lt_started :: bool
  lt_groups :: nat
  lt_frames :: nat
  m3_usable :: bool
  seq_hdr_sent :: bool
  lt_delivered :: nat

definition new_MoqLiteTrack :: lite_track where
  "new_MoqLiteTrack = \<lparr>lt_name = [], lt_kind = [], lt_codec = [], lt_codec_config = [], lt_width = 0, lt_height = 0, lt_sample_rate = 0,
     lt_channels = 0, lt_subscribe_id = 0, lt_started = False, lt_groups = 0, lt_frames = 0, m3_usable = False, seq_hdr_sent = False,
     lt_delivered = 0\<rparr>"

record serve_sub =
  sv_sid :: nat
  sv_broadcast :: string
  sv_key :: string
  sv_track :: string
  sv_priority :: byte
  sv_max_age_ms :: u64
  sv_start_group :: u64
  sv_end_group :: u64
  sv_start_frame :: u64
  sv_end_frame :: u64
  sv_catalog_group :: u64
  sv_catalog_rev :: nat

record pending_sub =
  pp_sid :: nat
  pp_sub_id :: u64
  pp_broadcast :: string
  pp_track :: string
  pp_key :: string
  pp_priority :: byte
  pp_max_age_ms :: u64
  pp_start_group :: u64
  pp_end_group_raw :: u64
  pp_start_frame :: u64
  pp_end_frame_raw :: u64
  deadline_ms :: int

record peer_announce =
  pa_prefix :: string
  pa_next_id :: u64
  pa_ids :: "(string \<times> u64) list"

record lite_session =
  ls_conn :: quic_ctx
  ls_closed :: "u64 option"
  ls_remote :: string
  ls_dead :: bool
  recv_streams :: "(nat \<times> recv_stream) list"
  peer_setup_done :: bool
  saw_peer_setup :: bool
  path_only :: string
  query :: string
  routed_path :: string
  subs :: "(u64 \<times> string) list"
  tracks :: "(string \<times> lite_track) list"
  broadcast :: string
  next_subscribe_id :: u64
  discovery_started :: bool
  catalog_subscribed :: bool
  clock_wall :: u64
  clock_timescale :: u64
  ls_stream_key :: string
  stream_app :: string
  stream_name :: string
  owner_id :: string
  stream_claimed :: bool
  catalog_json_raw :: string
  peer_role :: u64
  publisher_armed :: bool
  lite_serve_subs :: "(u64 \<times> serve_sub) list"
  egresses :: "(u64 \<times> ptr \<times> egress) list"
  peer_announces :: "(nat \<times> peer_announce) list"
  pending_subs :: "(u64 \<times> pending_sub) list"

record player =
  pl_key :: string
  pl_id :: string
  pl_init :: bool
  pl_box :: "media_packet list"

record lite_world =
  mgr :: "player manager"
  sessions :: "lite_session option list"
  next_ptr :: ptr
  paths :: "string list"
  default_path :: string
  remote_wires :: "string list option"
  missing :: "string \<Rightarrow> string \<Rightarrow> bool"
  deferred_ms :: int
  parse_json :: "octets \<Rightarrow> json option"

section \<open>Access\<close>

text \<open>A \<open>std::map\<close> is kept in the order of its keys.\<close>

fun map_put :: "'k::linorder \<Rightarrow> 'v \<Rightarrow> ('k \<times> 'v) list \<Rightarrow> ('k \<times> 'v) list" where
  "map_put k v [] = [(k, v)]"
| "map_put k v ((j, u) # m) = (if k < j then (k, v) # (j, u) # m else if k = j then (k, v) # m else (j, u) # map_put k v m)"

definition str :: "octets \<Rightarrow> string" where "str d = map (\<lambda>b. char_of (unat b)) d"
definition oct :: "string \<Rightarrow> octets" where "oct s = map (\<lambda>ch. word_of_nat (of_char ch)) s"

definition lite :: "lite_world \<Rightarrow> nat \<Rightarrow> lite_session option" where
  "lite w i = (if i < length (sessions w) then sessions w ! i else None)"

definition on_lite :: "nat \<Rightarrow> (lite_session \<Rightarrow> lite_session) \<Rightarrow> lite_world \<Rightarrow> lite_world" where
  "on_lite i f w = w\<lparr>sessions := (sessions w)[i := map_option f (lite w i)]\<rparr>"

text \<open>A member of session \<open>i\<close>; \<open>d\<close> where the session is gone.\<close>

definition the_lite :: "'a \<Rightarrow> (lite_session \<Rightarrow> 'a) \<Rightarrow> lite_world \<Rightarrow> nat \<Rightarrow> 'a" where
  "the_lite d f w i = (case lite w i of None \<Rightarrow> d | Some s \<Rightarrow> f s)"

definition rs :: "lite_world \<Rightarrow> nat \<Rightarrow> nat \<Rightarrow> recv_stream" where
  "rs w i sid = (case the_lite None (\<lambda>s. map_of (recv_streams s) sid) w i of None \<Rightarrow> new_RecvStream | Some r \<Rightarrow> r)"

definition on_rs :: "nat \<Rightarrow> nat \<Rightarrow> (recv_stream \<Rightarrow> recv_stream) \<Rightarrow> lite_world \<Rightarrow> lite_world" where
  "on_rs i sid f w = on_lite i (\<lambda>s. s\<lparr>recv_streams := map_put sid (f (rs w i sid)) (recv_streams s)\<rparr>) w"

definition is_dead :: "lite_world \<Rightarrow> nat \<Rightarrow> bool" where "is_dead w i = the_lite True ls_dead w i"

section \<open>QUIC\<close>

definition on_conn :: "nat \<Rightarrow> (quic_ctx \<Rightarrow> quic_ctx \<times> 'a) \<Rightarrow> 'a \<Rightarrow> lite_world \<Rightarrow> lite_world \<times> 'a" where
  "on_conn i f d w = (case lite w i of None \<Rightarrow> (w, d)
     | Some s \<Rightarrow> (case f (ls_conn s) of (c, r) \<Rightarrow> (on_lite i (\<lambda>s. s\<lparr>ls_conn := c\<rparr>) w, r)))"

definition send :: "nat \<Rightarrow> nat \<Rightarrow> octets \<Rightarrow> bool \<Rightarrow> lite_world \<Rightarrow> lite_world \<times> int" where
  "send i sid d fin w = on_conn i (quic_stream_send sid d fin) (-1) w"

definition send_ex :: "nat \<Rightarrow> nat \<Rightarrow> octets \<Rightarrow> bool \<Rightarrow> lite_world \<Rightarrow> lite_world \<times> int" where
  "send_ex i sid d fin w = on_conn i (quic_stream_write 0 sid d fin None 0) (-1) w"

definition reset_quic :: "nat \<Rightarrow> nat \<Rightarrow> nat \<Rightarrow> lite_world \<Rightarrow> lite_world" where
  "reset_quic i sid ec w = fst (on_conn i (quic_stream_reset sid ec) (-1) w)"

definition ResetStream :: "nat \<Rightarrow> nat \<Rightarrow> nat \<Rightarrow> lite_world \<Rightarrow> lite_world" where
  "ResetStream i sid ec w = reset_quic i sid ec (on_rs i sid (\<lambda>r. r\<lparr>rs_reset_sent := True\<rparr>) w)"

definition kStreamInternal :: nat where "kStreamInternal = 0"
definition kStreamCancel :: nat where "kStreamCancel = 1"
definition kSessionInternalError :: u64 where "kSessionInternalError = 1"
definition kSessionUnauthorized :: u64 where "kSessionUnauthorized = 2"
definition kSessionProtocolViolation :: u64 where "kSessionProtocolViolation = 3"

text \<open>The request is refused: reset, done, the octets forgotten.\<close>

definition refuse :: "nat \<Rightarrow> nat \<Rightarrow> nat \<Rightarrow> lite_world \<Rightarrow> lite_world" where
  "refuse i sid ec w = on_rs i sid (\<lambda>r. r\<lparr>rs_done := True, rs_buf := []\<rparr>) (ResetStream i sid ec w)"

definition finish :: "nat \<Rightarrow> nat \<Rightarrow> lite_world \<Rightarrow> lite_world" where
  "finish i sid w = on_rs i sid (\<lambda>r. r\<lparr>rs_done := True, rs_buf := []\<rparr>) w"

section \<open>Names\<close>

definition kFallbackApp :: string where "kFallbackApp = ''moqlite''"
definition kCatalogName :: string where "kCatalogName = ''catalog.json''"

definition JoinPath :: "string \<Rightarrow> string \<Rightarrow> string" where
  "JoinPath a b = (if a = [] then b else if b = [] then a else a @ ''/'' @ b)"

definition NormalizePath :: "string \<Rightarrow> string" where
  "NormalizePath s = (if s \<noteq> [] \<and> hd s = CHR ''/'' then tl s else s)"

definition AnnounceSuffixOf :: "string \<Rightarrow> string \<Rightarrow> string option" where
  "AnnounceSuffixOf wire prefix =
     (if prefix = [] then Some wire
      else if wire = prefix then Some []
      else if length wire > length prefix \<and> take (length prefix) wire = prefix \<and> wire ! length prefix = CHR ''/''
      then Some (drop (length prefix + 1) wire) else None)"

definition AnnounceWireOf :: "string \<Rightarrow> string \<Rightarrow> string" where
  "AnnounceWireOf routed key =
     (let prefix = routed @ ''/'' in
      if routed \<noteq> [] \<and> length key > length prefix \<and> take (length prefix) key = prefix then drop (length prefix) key else key)"

definition serve_app :: "string \<Rightarrow> string" where "serve_app routed = (if routed = [] then kFallbackApp else routed)"

section \<open>Catalogues\<close>

definition member_of :: "string \<Rightarrow> json \<Rightarrow> json option" where
  "member_of k j = (case j of JObj m \<Rightarrow> map_of m k | _ \<Rightarrow> None)"

definition is_object :: "json \<Rightarrow> bool" where "is_object j = (case j of JObj _ \<Rightarrow> True | _ \<Rightarrow> False)"

text \<open>The renditions of one kind; \<open>None\<close> where they are missing or not objects.\<close>

definition renditions :: "json \<Rightarrow> string \<Rightarrow> (string \<times> json) list option" where
  "renditions j kind =
     (case member_of kind j of Some (JObj m) \<Rightarrow>
        (case map_of m ''renditions'' of Some (JObj r) \<Rightarrow> Some r | _ \<Rightarrow> None) | _ \<Rightarrow> None)"

text \<open>The key under which the manager has the broadcast, with the catalogue.\<close>

definition resolve_key :: "lite_world \<Rightarrow> string \<Rightarrow> string \<Rightarrow> (string \<times> string) option" where
  "resolve_key w routed bc =
     (case (if CHR ''/'' \<in> set bc then GetCatalogJson (mgr w) bc else None) of
        Some (json, _) \<Rightarrow> Some (bc, json)
      | None \<Rightarrow> map_option (\<lambda>(json, _). (serve_app routed @ ''/'' @ bc, json))
                  (GetCatalogJson (mgr w) (serve_app routed @ ''/'' @ bc)))"

definition ResolveServeTrack :: "nat \<Rightarrow> string \<Rightarrow> string \<Rightarrow> lite_world \<Rightarrow> (string \<times> string) option" where
  "ResolveServeTrack i bc tr w =
     (if bc = [] \<or> tr = [] then None
      else case resolve_key w (the_lite [] routed_path w i) bc of None \<Rightarrow> None
      | Some (key, json) \<Rightarrow>
          if tr = kCatalogName then Some (key, ''catalog'')
          else (case parse_json w (oct json) of None \<Rightarrow> None
            | Some j \<Rightarrow>
                if \<not> is_object j then None
                else map_option (\<lambda>kind. (key, kind))
                  (find (\<lambda>kind. case renditions j kind of None \<Rightarrow> False | Some r \<Rightarrow> map_of r tr \<noteq> None) [''video'', ''audio''])))"

section \<open>Players\<close>

definition player_ops :: "player av_ops" where
  "player_ops = \<lparr>WritePacket = (\<lambda>p pkt. (p\<lparr>pl_box := pl_box p @ [pkt]\<rparr>, 0)), GetKey = pl_key, GetWriterId = pl_id,
     CloseWriter = id, IsInited = pl_init, SetInitFlag = (\<lambda>p b. p\<lparr>pl_init := b\<rparr>)\<rparr>"

interpretation moq_player: av_writer player_ops
  by unfold_locales (simp_all add: player_ops_def)

text \<open>A writer of session \<open>i\<close> runs on the session's connection.\<close>

definition on_egress :: "nat \<Rightarrow> u64 \<Rightarrow> (egress \<Rightarrow> egress) \<Rightarrow> lite_world \<Rightarrow> lite_world" where
  "on_egress i sub f w =
     (case lite w i of None \<Rightarrow> w
      | Some s \<Rightarrow> (case map_of (egresses s) sub of None \<Rightarrow> w
          | Some (p, e) \<Rightarrow>
              let e1 = f (e\<lparr>conn := ls_conn s\<rparr>) in
              on_lite i (\<lambda>s. s\<lparr>ls_conn := conn e1, egresses := map_put sub (p, e1) (egresses s)\<rparr>) w))"

definition egress_of :: "ptr \<Rightarrow> lite_world \<Rightarrow> (nat \<times> u64) option" where
  "egress_of p w =
     map_option (\<lambda>i. (i, fst (the (find (\<lambda>(_, q, _). q = p) (the_lite [] egresses w i)))))
       (find (\<lambda>i. find (\<lambda>(_, q, _). q = p) (the_lite [] egresses w i) \<noteq> None) [0..<length (sessions w)])"

text \<open>What is in the mailbox of \<open>p\<close> goes to its writer.\<close>

definition hand_over :: "lite_world \<Rightarrow> ptr \<Rightarrow> lite_world" where
  "hand_over w p =
     (let box = pl_box (heap (mgr w) p); w1 = w\<lparr>mgr := set_writer p ((heap (mgr w) p)\<lparr>pl_box := []\<rparr>) (mgr w)\<rparr> in
      case egress_of p w of None \<Rightarrow> w1
      | Some (i, sub) \<Rightarrow> on_egress i sub (\<lambda>e. foldl (\<lambda>e pkt. fst (eg_WritePacket e pkt)) e box) w1)"

definition write_media :: "int \<Rightarrow> media_packet \<Rightarrow> lite_world \<Rightarrow> lite_world" where
  "write_media now pkt w =
     (let m = fst (WriterMediaPacket player_ops now (Some pkt) (mgr w)) in
      foldl hand_over (w\<lparr>mgr := m\<rparr>)
        (case find_stream m (pkt_key (packet_key pkt)) of None \<Rightarrow> [] | Some s \<Rightarrow> map snd (writer_map s)))"

definition gop_of :: "lite_world \<Rightarrow> string \<Rightarrow> gop_cache option" where
  "gop_of w k = map_option gop (find_stream (mgr w) k)"

definition TeardownEgress :: "nat \<Rightarrow> lite_world \<Rightarrow> lite_world" where
  "TeardownEgress i w =
     (let w1 = foldl (\<lambda>w (sub, p, _). let w2 = on_egress i sub eg_Stop w in w2\<lparr>mgr := RemovePlayer player_ops p (mgr w2)\<rparr>)
                 w (the_lite [] egresses w i) in
      on_lite i (\<lambda>s. s\<lparr>egresses := []\<rparr>) w1)"

section \<open>Announcing\<close>

text \<open>The set a peer is told: streams with a catalogue and those of the cluster, sorted, each once.\<close>

definition announced_wires :: "nat \<Rightarrow> lite_world \<Rightarrow> string list" where
  "announced_wires i w =
     sort (remdups (map (AnnounceWireOf (the_lite [] routed_path w i))
        (filter (\<lambda>k. AnnounceWireOf (the_lite [] routed_path w i) k \<noteq> [] \<and> GetCatalogJson (mgr w) k \<noteq> None) (ListPublisherKeys (mgr w)))
      @ (case remote_wires w of None \<Rightarrow> [] | Some ws \<Rightarrow> ws)))"

definition grid_items :: "string list \<Rightarrow> string \<Rightarrow> (string \<times> string) list" where
  "grid_items wires prefix = List.map_filter (\<lambda>wire. map_option (\<lambda>suffix. (wire, suffix)) (AnnounceSuffixOf wire prefix)) wires"

fun append_starts :: "octets \<Rightarrow> (string \<times> string) list \<Rightarrow> octets option" where
  "append_starts out [] = Some out"
| "append_starts out ((_, suffix) # items) =
     (case MlAppendAnnounceStart out (oct suffix) 0 0 of (_, False) \<Rightarrow> None | (out1, True) \<Rightarrow> append_starts out1 items)"

definition grid_octets :: "(string \<times> string) list \<Rightarrow> octets option" where
  "grid_octets items = (case MlBuildAnnounceOk [] 0 (word_of_nat (length items)) of (_, False) \<Rightarrow> None
     | (out, True) \<Rightarrow> append_starts out items)"

fun number_wires :: "u64 \<Rightarrow> (string \<times> string) list \<Rightarrow> (string \<times> u64) list" where
  "number_wires n [] = []"
| "number_wires n ((wire, _) # items) = (wire, n) # number_wires (n + 1) items"

definition AnnounceGrid :: "nat \<Rightarrow> nat \<Rightarrow> string \<Rightarrow> lite_world \<Rightarrow> lite_world" where
  "AnnounceGrid i sid prefix w =
     (let items = grid_items (announced_wires i w) prefix in
      case grid_octets items of None \<Rightarrow> ResetStream i sid kStreamInternal w
      | Some out \<Rightarrow>
          fst (send i sid out False
            (on_lite i (\<lambda>s. s\<lparr>peer_announces := map_put sid \<lparr>pa_prefix = prefix, pa_next_id = word_of_nat (length items),
               pa_ids = number_wires 0 items\<rparr> (peer_announces s)\<rparr>) w)))"

definition on_pa :: "nat \<Rightarrow> nat \<Rightarrow> peer_announce \<Rightarrow> lite_world \<Rightarrow> lite_world" where
  "on_pa i sid pa = on_lite i (\<lambda>s. s\<lparr>peer_announces := map_put sid pa (peer_announces s)\<rparr>)"

definition announce_added :: "nat \<Rightarrow> string \<Rightarrow> nat \<Rightarrow> peer_announce \<Rightarrow> lite_world \<Rightarrow> lite_world" where
  "announce_added i wire sid pa w =
     (if map_of (pa_ids pa) wire \<noteq> None then w
      else case AnnounceSuffixOf wire (pa_prefix pa) of None \<Rightarrow> w
      | Some suffix \<Rightarrow> (case MlAppendAnnounceStart [] (oct suffix) 0 0 of (_, False) \<Rightarrow> w
          | (out, True) \<Rightarrow> (case send i sid out False w of (w1, r) \<Rightarrow>
              if r < 0 then w1
              else on_pa i sid (pa\<lparr>pa_ids := (wire, pa_next_id pa) # pa_ids pa, pa_next_id := pa_next_id pa + 1\<rparr>) w1)))"

definition announce_removed :: "nat \<Rightarrow> string \<Rightarrow> nat \<Rightarrow> peer_announce \<Rightarrow> lite_world \<Rightarrow> lite_world" where
  "announce_removed i wire sid pa w =
     (case map_of (pa_ids pa) wire of None \<Rightarrow> w
      | Some k \<Rightarrow> (case MlAppendAnnounceEnd [] k of (_, False) \<Rightarrow> w
          | (out, True) \<Rightarrow> on_pa i sid (pa\<lparr>pa_ids := AList.delete wire (pa_ids pa)\<rparr>) (fst (send i sid out False w))))"

definition AnnounceBroadcast :: "nat \<Rightarrow> string \<Rightarrow> bool \<Rightarrow> lite_world \<Rightarrow> lite_world" where
  "AnnounceBroadcast i wire added w =
     (if is_dead w i \<or> wire = [] then w
      else foldl (\<lambda>w (sid, pa). if added then announce_added i wire sid pa w else announce_removed i wire sid pa w)
             w (the_lite [] peer_announces w i))"

section \<open>Serving a subscription\<close>

definition catalog_group_octets :: "u64 \<Rightarrow> u64 \<Rightarrow> string \<Rightarrow> octets option" where
  "catalog_group_octets sub sq json =
     (case MlBuildGroupHeader (MlAppendVarint [] 0) sub sq 0 of (_, False) \<Rightarrow> None
      | (out, True) \<Rightarrow> (case MlAppendFrame out 0 (oct json) of (_, False) \<Rightarrow> None | (out1, True) \<Rightarrow> Some out1))"

definition SendCatalogGroup :: "nat \<Rightarrow> u64 \<Rightarrow> u64 \<Rightarrow> string \<Rightarrow> lite_world \<Rightarrow> lite_world \<times> bool" where
  "SendCatalogGroup i sub sq json w =
     (case on_conn i quic_stream_open_uni None w of
        (w1, None) \<Rightarrow> (w1, False)
      | (w1, Some usid) \<Rightarrow>
          (case catalog_group_octets sub sq json of None \<Rightarrow> (reset_quic i usid 0 w1, False)
           | Some out \<Rightarrow> (case send_ex i usid out True w1 of (w2, r) \<Rightarrow> (w2, \<not> r < 0))))"

definition on_serve :: "nat \<Rightarrow> u64 \<Rightarrow> (serve_sub \<Rightarrow> serve_sub) \<Rightarrow> lite_world \<Rightarrow> lite_world" where
  "on_serve i sub f w = on_lite i (\<lambda>s. s\<lparr>lite_serve_subs := map (\<lambda>(k, v). (k, if k = sub then f v else v)) (lite_serve_subs s)\<rparr>) w"

definition ServeCatalog :: "nat \<Rightarrow> nat \<Rightarrow> u64 \<Rightarrow> string \<Rightarrow> lite_world \<Rightarrow> lite_world" where
  "ServeCatalog i sid sub key w =
     (case GetCatalogJson (mgr w) key of None \<Rightarrow> ResetStream i sid kStreamCancel w
      | Some (json, rv) \<Rightarrow>
          (case MlBuildSubscribeStart [] 0 of (_, False) \<Rightarrow> w
           | (out, True) \<Rightarrow>
               (case send i sid out False w of (w1, r) \<Rightarrow>
                  if r < 0 then w1
                  else case SendCatalogGroup i sub 0 json w1 of (w2, ok) \<Rightarrow>
                    if ok then on_serve i sub (\<lambda>v. v\<lparr>sv_catalog_group := 0, sv_catalog_rev := rv\<rparr>) w2 else w2)))"

definition nat_text :: "nat \<Rightarrow> string" where
  "nat_text n = (if n = 0 then ''0'' else rev (map (\<lambda>k. char_of (48 + n div 10 ^ k mod 10)) (filter (\<lambda>k. 10 ^ k \<le> n) [0..<20])))"

definition serve_of :: "pending_sub \<Rightarrow> string \<Rightarrow> serve_sub" where
  "serve_of p key = \<lparr>sv_sid = pp_sid p, sv_broadcast = pp_broadcast p, sv_key = key, sv_track = pp_track p, sv_priority = pp_priority p,
     sv_max_age_ms = pp_max_age_ms p, sv_start_group = pp_start_group p,
     sv_end_group = (if pp_end_group_raw p = 0 then 0 else pp_end_group_raw p - 1), sv_start_frame = pp_start_frame p,
     sv_end_frame = (if pp_end_frame_raw p = 0 then 0 else pp_end_frame_raw p - 1), sv_catalog_group = 0, sv_catalog_rev = 0\<rparr>"

text \<open>The writer of a media track: registered with the manager, then started.\<close>

definition start_egress :: "nat \<Rightarrow> u64 \<Rightarrow> nat \<Rightarrow> string \<Rightarrow> bool \<Rightarrow> lite_world \<Rightarrow> lite_world" where
  "start_egress i sub sid key video w =
     (case lite w i of None \<Rightarrow> w
      | Some s \<Rightarrow>
          let p = next_ptr w; wid = owner_id s @ ''#'' @ nat_text (unat sub);
              w1 = on_lite i (\<lambda>s. s\<lparr>egresses := map_put sub (p, new_MoqLiteEgress (ls_conn s) key wid video\<lparr>init_flag := True\<rparr>) (egresses s)\<rparr>)
                     (w\<lparr>next_ptr := p + 1\<rparr>);
              m = set_writer p \<lparr>pl_key = key, pl_id = wid, pl_init = True, pl_box = []\<rparr> (mgr w1);
              w2 = w1\<lparr>mgr := fst (AddPlayer player_ops (Some p) m)\<rparr> in
          on_egress i sub (eg_Start sub sid (gop_of w2 key)) w2)"

definition AttachPeerSubscribe :: "nat \<Rightarrow> pending_sub \<Rightarrow> lite_world \<Rightarrow> lite_world" where
  "AttachPeerSubscribe i p w =
     (if the_lite None (\<lambda>s. map_of (recv_streams s) (pp_sid p)) w i = None \<or> rs_reset_sent (rs w i (pp_sid p)) then w
      else case ResolveServeTrack i (pp_broadcast p) (pp_track p) w of None \<Rightarrow> w
      | Some (key, kind) \<Rightarrow>
          let w1 = on_lite i (\<lambda>s. s\<lparr>lite_serve_subs := map_put (pp_sub_id p) (serve_of p key) (lite_serve_subs s)\<rparr>) w in
          if kind = ''catalog'' then ServeCatalog i (pp_sid p) (pp_sub_id p) key w1
          else start_egress i (pp_sub_id p) (pp_sid p) key (kind = ''video'') w1)"

definition drop_pending :: "nat \<Rightarrow> u64 \<Rightarrow> lite_world \<Rightarrow> lite_world" where
  "drop_pending i sub = on_lite i (\<lambda>s. s\<lparr>pending_subs := AList.delete sub (pending_subs s)\<rparr>)"

definition retry_one :: "nat \<Rightarrow> lite_world \<Rightarrow> u64 \<times> pending_sub \<Rightarrow> lite_world" where
  "retry_one i w kp = (case kp of (sub, p) \<Rightarrow>
     if the_lite None (\<lambda>s. map_of (recv_streams s) (pp_sid p)) w i = None \<or> rs_reset_sent (rs w i (pp_sid p)) then drop_pending i sub w
     else if ResolveServeTrack i (pp_broadcast p) (pp_track p) w = None then w
     else AttachPeerSubscribe i p (drop_pending i sub w))"

definition RetryPendingPeerSubscribes :: "nat \<Rightarrow> string \<Rightarrow> lite_world \<Rightarrow> lite_world" where
  "RetryPendingPeerSubscribes i key w =
     foldl (retry_one i) w (filter (\<lambda>(_, p). pp_key p = key) (the_lite [] pending_subs w i))"

definition SweepPendingPeerSubscribes :: "int \<Rightarrow> nat \<Rightarrow> lite_world \<Rightarrow> lite_world" where
  "SweepPendingPeerSubscribes now i w =
     (if is_dead w i then w
      else foldl (\<lambda>w (sub, p).
        if now < deadline_ms p then w
        else drop_pending i sub
          (if the_lite None (\<lambda>s. map_of (recv_streams s) (pp_sid p)) w i \<noteq> None then ResetStream i (pp_sid p) kStreamCancel w
           else reset_quic i (pp_sid p) kStreamCancel w)) w (the_lite [] pending_subs w i))"

text \<open>A new revision of the catalogue: the next group to each of its subscribers that is behind.\<close>

definition catalog_target :: "string \<Rightarrow> nat \<Rightarrow> serve_sub \<Rightarrow> bool" where
  "catalog_target key r v \<longleftrightarrow> sv_track v = kCatalogName \<and> sv_key v = key \<and> sv_catalog_rev v < r"

definition next_catalog :: "nat \<Rightarrow> string \<Rightarrow> nat \<Rightarrow> lite_world \<Rightarrow> u64 \<times> serve_sub \<Rightarrow> lite_world" where
  "next_catalog i json r w kv = (case kv of (sub, v) \<Rightarrow>
     (case SendCatalogGroup i sub (sv_catalog_group v + 1) json w of (w1, ok) \<Rightarrow>
        if ok then on_serve i sub (\<lambda>v. v\<lparr>sv_catalog_group := sv_catalog_group v + 1, sv_catalog_rev := r\<rparr>) w1 else w1))"

definition OnCatalogUpdated :: "string \<Rightarrow> nat \<Rightarrow> nat \<Rightarrow> lite_world \<Rightarrow> lite_world" where
  "OnCatalogUpdated key rv i w =
     (if is_dead w i \<or> key = [] then w
      else case GetCatalogJson (mgr w) key of None \<Rightarrow> w
      | Some (json, cur) \<Rightarrow>
          let r = min cur rv;
              w1 = foldl (next_catalog i json r) w (filter (\<lambda>(_, v). catalog_target key r v) (the_lite [] lite_serve_subs w i));
              w2 = AnnounceBroadcast i (AnnounceWireOf (the_lite [] routed_path w1 i) key) True w1 in
          RetryPendingPeerSubscribes i key w2)"

end
