(* ===== verification/Moq_Ingest.thy ===== *)
theory Moq_Ingest
  imports Moq_Session
begin

text \<open>
  The rest of \<open>moq/moq_lite_session.cpp\<close>: streams taken apart, the discovery of what a publishing peer offers, its
  media on the way into the stream manager, and the server \<open>moq/moq_lite_server.cpp\<close> around the sessions.
\<close>

section \<open>Calls of the manager that notify\<close>

text \<open>The manager's callbacks run inside its operations, as the last thing these do: the events it emitted are handled at once.\<close>

definition kLiteServer :: nat where "kLiteServer = 0"

definition NotifyRemoteAnnounce :: "string \<Rightarrow> bool \<Rightarrow> lite_world \<Rightarrow> lite_world" where
  "NotifyRemoteAnnounce wire added w =
     (if wire = [] then w else foldl (\<lambda>w i. AnnounceBroadcast i wire added w) w [0..<length (sessions w)])"

definition OnUnpublish_lite :: "string \<Rightarrow> string \<Rightarrow> lite_world \<Rightarrow> lite_world" where
  "OnUnpublish_lite a n w =
     (let wire = (if a \<in> set (paths w) then n else a @ ''/'' @ n) in
      if wire \<in> set (case remote_wires w of None \<Rightarrow> [] | Some ws \<Rightarrow> ws) then w else NotifyRemoteAnnounce wire False w)"

definition server_OnCatalogUpdated :: "string \<Rightarrow> nat \<Rightarrow> lite_world \<Rightarrow> lite_world" where
  "server_OnCatalogUpdated key r w = foldl (\<lambda>w i. OnCatalogUpdated key r i w) w [0..<length (sessions w)]"

fun handle_event :: "lite_world \<Rightarrow> event \<Rightarrow> lite_world" where
  "handle_event w (CatalogUpdated cb key r) = (if cb = kLiteServer then server_OnCatalogUpdated key r w else w)"
| "handle_event w (OnUnpublish cb a n) = (if cb = kLiteServer then OnUnpublish_lite a n w else w)"
| "handle_event w e = w"

definition on_manager :: "(player manager \<Rightarrow> player manager \<times> 'a) \<Rightarrow> lite_world \<Rightarrow> lite_world \<times> 'a" where
  "on_manager f w = (case f (mgr w) of (m, r) \<Rightarrow>
     (foldl handle_event (w\<lparr>mgr := m\<rparr>) (drop (length (events (mgr w))) (events m)), r))"

section \<open>Ownership\<close>

definition ReleaseStream :: "nat \<Rightarrow> lite_world \<Rightarrow> lite_world" where
  "ReleaseStream i w =
     (case lite w i of None \<Rightarrow> w
      | Some s \<Rightarrow>
          if \<not> stream_claimed s then w
          else let w1 = on_lite i (\<lambda>s. s\<lparr>stream_claimed := False\<rparr>) w in
            if ls_stream_key s = [] then w1 else fst (on_manager (ReleasePublisher (ls_stream_key s) (owner_id s)) w1))"

definition CloseSession :: "nat \<Rightarrow> u64 \<Rightarrow> lite_world \<Rightarrow> lite_world" where
  "CloseSession i ec w =
     (if is_dead w i then w
      else on_lite i (\<lambda>s. s\<lparr>ls_closed := (case ls_closed s of None \<Rightarrow> Some ec | Some e \<Rightarrow> Some e)\<rparr>)
             (ReleaseStream i (on_lite i (\<lambda>s. s\<lparr>ls_dead := True\<rparr>) w)))"

definition PushCatalogToManager :: "nat \<Rightarrow> lite_world \<Rightarrow> lite_world" where
  "PushCatalogToManager i w =
     (case lite w i of None \<Rightarrow> w
      | Some s \<Rightarrow> if catalog_json_raw s = [] \<or> \<not> stream_claimed s \<or> ls_stream_key s = [] then w
                  else fst (on_manager (SetCatalogJson (ls_stream_key s) (owner_id s) (catalog_json_raw s)) w))"

definition BuildStreamKey :: "nat \<Rightarrow> lite_world \<Rightarrow> lite_world" where
  "BuildStreamKey i = on_lite i (\<lambda>s.
     if broadcast s = [] \<or> ls_stream_key s \<noteq> [] then s
     else let key = serve_app (routed_path s) @ ''/'' @ broadcast s in
       (case GetAppStreamname key of None \<Rightarrow> s\<lparr>ls_stream_key := key\<rparr>
        | Some (a, n) \<Rightarrow> s\<lparr>ls_stream_key := key, stream_app := a, stream_name := n\<rparr>))"

definition EnsureStreamClaimed :: "int \<Rightarrow> nat \<Rightarrow> lite_world \<Rightarrow> lite_world \<times> bool" where
  "EnsureStreamClaimed now i w =
     (case lite w i of None \<Rightarrow> (w, False)
      | Some s \<Rightarrow>
          if stream_claimed s then (w, True)
          else if ls_dead s \<or> ls_stream_key s = [] then (w, False)
          else case on_manager (ClaimPublisher now (ls_stream_key s) (owner_id s)) (on_lite i (\<lambda>s. s\<lparr>stream_claimed := True\<rparr>) w) of
            (w1, action, _) \<Rightarrow>
              if action = kRejected then (CloseSession i kSessionInternalError w1, False)
              else (PushCatalogToManager i w1, True))"

definition IsStreamOwner :: "nat \<Rightarrow> lite_world \<Rightarrow> bool" where
  "IsStreamOwner i w = the_lite False (\<lambda>s. ls_stream_key s \<noteq> [] \<and> owner_id s \<noteq> [] \<and>
     IsPublisherOwner (mgr w) (ls_stream_key s) (owner_id s)) w i"

definition Deliver :: "int \<Rightarrow> nat \<Rightarrow> media_packet \<Rightarrow> lite_world \<Rightarrow> lite_world \<times> bool" where
  "Deliver now i pkt w = (if IsStreamOwner i w then (write_media now pkt w, True) else (w, False))"

section \<open>Media\<close>

definition flv_packet :: "lite_session \<Rightarrow> bool \<Rightarrow> int \<Rightarrow> bool \<Rightarrow> bool \<Rightarrow> octets \<Rightarrow> media_packet" where
  "flv_packet s video ts sq key d =
     new_Media_Packet\<lparr>av_type := (if video then MEDIA_VIDEO_TYPE else MEDIA_AUDIO_TYPE),
       codec_type := (if video then MEDIA_CODEC_H264 else MEDIA_CODEC_AAC), fmt_type := MEDIA_FORMAT_FLV, dts := ts, pts := ts,
       is_seq_hdr := sq, is_key_frame := (if video then \<not> sq \<and> key else sq), app := stream_app s, streamname := stream_name s,
       pkt_key := ls_stream_key s,
       payload := (if video then [if sq \<or> key then FLV_VIDEO_KEY_FLAG OR FLV_VIDEO_H264_CODEC else FLV_VIDEO_INTER_FLAG OR FLV_VIDEO_H264_CODEC,
                                  if sq then FLV_VIDEO_AVC_SEQHDR else FLV_VIDEO_AVC_NALU, 0, 0, 0]
                   else [FLV_AUDIO_AAC_CODEC OR 0x0F, if sq then 0 else 1]) @ d\<rparr>"

definition on_lite_track :: "nat \<Rightarrow> string \<Rightarrow> (lite_track \<Rightarrow> lite_track) \<Rightarrow> lite_world \<Rightarrow> lite_world" where
  "on_lite_track i name f = on_lite i (\<lambda>s. s\<lparr>tracks := map (\<lambda>(k, t). (k, if k = name then f t else t)) (tracks s)\<rparr>)"

definition EmitFlvFrame :: "int \<Rightarrow> nat \<Rightarrow> string \<Rightarrow> bool \<Rightarrow> int \<Rightarrow> bool \<Rightarrow> bool \<Rightarrow> octets \<Rightarrow> lite_world \<Rightarrow> lite_world" where
  "EmitFlvFrame now i name video ts sq key d w =
     (case lite w i of None \<Rightarrow> w
      | Some s \<Rightarrow> (case Deliver now i (flv_packet s video ts sq key d) w of (w1, ok) \<Rightarrow>
          if ok \<and> \<not> sq then on_lite_track i name (\<lambda>t. t\<lparr>lt_delivered := lt_delivered t + 1\<rparr>) w1 else w1))"

definition EmitFlvSeqHdr :: "int \<Rightarrow> nat \<Rightarrow> string \<Rightarrow> bool \<Rightarrow> int \<Rightarrow> octets \<Rightarrow> lite_world \<Rightarrow> lite_world" where
  "EmitFlvSeqHdr now i name video ts config w =
     (if config = [] then w else EmitFlvFrame now i name video ts True video config w)"

text \<open>A frame of a media track, its timestamp taken off.\<close>

definition deliver_frame :: "int \<Rightarrow> nat \<Rightarrow> nat \<Rightarrow> string \<Rightarrow> lite_track \<Rightarrow> u64 \<Rightarrow> octets \<Rightarrow> lite_world \<Rightarrow> lite_world" where
  "deliver_frame now i sid name t inner_us d w =
     (let video = (lt_kind t = ''video''); ts = int (unat inner_us div 1000); key = video \<and> rs_key_pending (rs w i sid);
          w1 = on_rs i sid (\<lambda>r. r\<lparr>rs_key_pending := False\<rparr>) w in
      case EnsureStreamClaimed now i w1 of
        (w2, False) \<Rightarrow> w2
      | (w2, True) \<Rightarrow>
          let w3 = (if seq_hdr_sent t then w2
                    else EmitFlvSeqHdr now i name video ts (lt_codec_config t) (on_lite_track i name (\<lambda>t. t\<lparr>seq_hdr_sent := True\<rparr>) w2)) in
          EmitFlvFrame now i name video ts False key d w3)"

section \<open>Control streams\<close>

definition kTypeGroup :: u64 where "kTypeGroup = 0"
definition kTypeSetup :: u64 where "kTypeSetup = 1"
definition kTypeAnnounce :: u64 where "kTypeAnnounce = 1"
definition kTypeSubscribe :: u64 where "kTypeSubscribe = 2"
definition kTypeFetch :: u64 where "kTypeFetch = 3"
definition kTypeProbe :: u64 where "kTypeProbe = 4"
definition kTypeGoaway :: u64 where "kTypeGoaway = 5"
definition kTypeTrack :: u64 where "kTypeTrack = 6"
definition kSubMaxAgeMs :: u64 where "kSubMaxAgeMs = 5000"
definition kSubPriorityCatalog :: u64 where "kSubPriorityCatalog = 100"
definition kSubPriorityAudio :: u64 where "kSubPriorityAudio = 80"
definition kSubPriorityVideo :: u64 where "kSubPriorityVideo = 60"

definition OpenCtrlStream :: "nat \<Rightarrow> u64 \<Rightarrow> lite_world \<Rightarrow> lite_world \<times> nat option" where
  "OpenCtrlStream i stream_type w =
     (case on_conn i quic_stream_open None w of
        (w1, None) \<Rightarrow> (w1, None)
      | (w1, Some sid) \<Rightarrow>
          (case write_varints [] [stream_type] of None \<Rightarrow> (reset_quic i sid kStreamInternal w1, None)
           | Some t \<Rightarrow> (case send i sid t False w1 of (w2, r) \<Rightarrow>
               if r < 0 then (reset_quic i sid kStreamInternal w2, None) else (w2, Some sid))))"

definition WriteMessage :: "nat \<Rightarrow> nat \<Rightarrow> octets \<Rightarrow> lite_world \<Rightarrow> lite_world \<times> bool" where
  "WriteMessage i sid body w =
     (case MlBuildMessage [] False 0 body of (_, False) \<Rightarrow> (w, False)
      | (out, True) \<Rightarrow> (case send i sid out False w of (w1, r) \<Rightarrow> (w1, \<not> r < 0)))"

definition StartAnnounce :: "nat \<Rightarrow> string \<Rightarrow> lite_world \<Rightarrow> lite_world" where
  "StartAnnounce i prefix w =
     (case OpenCtrlStream i kTypeAnnounce w of
        (w1, None) \<Rightarrow> w1
      | (w1, Some sid) \<Rightarrow>
          let w2 = on_rs i sid (\<lambda>r. r\<lparr>rs_local := True, rs_typed := True, rs_type := kTypeAnnounce, rs_running := False, rs_req_path := prefix\<rparr>) w1 in
          (case MlWriteString [] (oct prefix) of (_, False) \<Rightarrow> ResetStream i sid kStreamInternal w2
           | (body, True) \<Rightarrow> (case WriteMessage i sid body w2 of (w3, ok) \<Rightarrow> if ok then w3 else ResetStream i sid kStreamInternal w3)))"

definition subscribe_octets :: "u64 \<Rightarrow> string \<Rightarrow> string \<Rightarrow> u64 \<Rightarrow> octets option" where
  "subscribe_octets sub bc tr priority =
     (case MlWriteVarint [] sub of (_, False) \<Rightarrow> None
      | (b1, True) \<Rightarrow> (case MlWriteString b1 (oct bc) of (_, False) \<Rightarrow> None
          | (b2, True) \<Rightarrow> (case MlWriteString b2 (oct tr) of (_, False) \<Rightarrow> None
              | (b3, True) \<Rightarrow>
                  Some (foldl MlAppendVarint (b3 @ [if priority > 0xFF then 0xFF else ucast priority]) [kSubMaxAgeMs, 0, 0, 0, 0]))))"

definition Subscribe :: "nat \<Rightarrow> string \<Rightarrow> string \<Rightarrow> u64 \<Rightarrow> lite_world \<Rightarrow> lite_world" where
  "Subscribe i bc tr priority w =
     (case OpenCtrlStream i kTypeSubscribe w of
        (w1, None) \<Rightarrow> w1
      | (w1, Some sid) \<Rightarrow>
          let sub = the_lite 0 next_subscribe_id w1 i;
              w2 = on_rs i sid (\<lambda>r. r\<lparr>rs_local := True, rs_typed := True, rs_type := kTypeSubscribe, rs_running := False, rs_sub_id := sub,
                     rs_req_path := bc, rs_req_track := tr\<rparr>) w1;
              w3 = on_lite i (\<lambda>s. s\<lparr>next_subscribe_id := sub + 1, subs := map_put sub tr (subs s)\<rparr>) w2;
              w4 = (if tr = kCatalogName then w3 else on_lite_track i tr (\<lambda>t. t\<lparr>lt_subscribe_id := sub, lt_started := False\<rparr>) w3) in
          (case subscribe_octets sub bc tr priority of None \<Rightarrow> ResetStream i sid kStreamInternal w4
           | Some body \<Rightarrow> (case WriteMessage i sid body w4 of (w5, ok) \<Rightarrow> if ok then w5 else ResetStream i sid kStreamInternal w5)))"

definition OnAnnounceRoute :: "nat \<Rightarrow> string \<Rightarrow> string \<Rightarrow> lite_world \<Rightarrow> lite_world" where
  "OnAnnounceRoute i prefix suffix w =
     (if the_lite [] broadcast w i \<noteq> [] then w
      else
        let w1 = BuildStreamKey i (on_lite i (\<lambda>s. s\<lparr>broadcast := JoinPath prefix suffix\<rparr>) w) in
        if the_lite True catalog_subscribed w1 i then w1
        else Subscribe i (the_lite [] broadcast w1 i) kCatalogName kSubPriorityCatalog (on_lite i (\<lambda>s. s\<lparr>catalog_subscribed := True\<rparr>) w1))"

text \<open>Messages stand back to back: an integer, a length, a body.\<close>

datatype message_at = NoMessage | MessageTooLarge | MessageAt u64 octets octets

definition next_message :: "octets \<Rightarrow> message_at" where
  "next_message b =
     (case MlReadVarint b (length b) 0 of None \<Rightarrow> NoMessage
      | Some (v, off) \<Rightarrow>
          (case MlReadMessage b (length b) off of
             kMlMsgTooLarge \<Rightarrow> MessageTooLarge
           | kMlMsgNeedMore \<Rightarrow> NoMessage
           | kMlMsgOk boff blen \<Rightarrow> MessageAt v (take blen (drop boff b)) (drop (boff + blen) b)))"

lemma varint_decode_within: "quic_varint_decode b = Some (v, n) \<Longrightarrow> 0 < n \<and> n \<le> length b"
  by (auto simp: quic_varint_decode_def Let_def split: if_splits list.splits)

lemma MlReadVarint_moves: "MlReadVarint p len off = Some (v, o1) \<Longrightarrow> off < o1 \<and> o1 \<le> len"
  by (fastforce simp: MlReadVarint_def dest!: varint_decode_within split: if_splits option.splits)

lemma next_message_shorter: "next_message b = MessageAt v body rest \<Longrightarrow> length rest < length b"
  by (auto simp: next_message_def MlReadMessage_def dest!: MlReadVarint_moves split: option.splits if_splits) arith

section \<open>Discovery\<close>

definition kMaxHops :: u64 where "kMaxHops = 32"

text \<open>The string and the integers of an announcement that fill the body exactly.\<close>

definition exactly :: "octets \<Rightarrow> nat \<Rightarrow> nat \<Rightarrow> bool" where
  "exactly body off n \<longleftrightarrow> (case read_varints body (length body) off n of None \<Rightarrow> False | Some (_, o1) \<Rightarrow> o1 = length body)"

definition announce_route :: "octets \<Rightarrow> octets option" where
  "announce_route body =
     (case MlReadString body (length body) 0 of (None, _) \<Rightarrow> None
      | (Some suffix, o1) \<Rightarrow> (case MlReadVarint body (length body) o1 of None \<Rightarrow> None
          | Some (hops, o2) \<Rightarrow> if hops > kMaxHops then None else if exactly body o2 (unat hops + 2) then Some suffix else None))"

text \<open>\<open>None\<close> where the message is malformed, which ends the session.\<close>

definition ParseAnnounceBody :: "nat \<Rightarrow> nat \<Rightarrow> u64 \<Rightarrow> octets \<Rightarrow> lite_world \<Rightarrow> lite_world option" where
  "ParseAnnounceBody i sid type body w =
     (if type = 0 then
        (case announce_route body of None \<Rightarrow> None
         | Some suffix \<Rightarrow>
             Some (OnAnnounceRoute i (rs_req_path (rs w i sid)) (str suffix)
               (on_rs i sid (\<lambda>r. r\<lparr>rs_ann_next_id := rs_ann_next_id r + 1, rs_expect := (if rs_expect r > 0 then rs_expect r - 1 else 0)\<rparr>) w)))
      else if type = 1 then
        (case MlReadVarint body (length body) 0 of None \<Rightarrow> None
         | Some (k, pos) \<Rightarrow> if pos \<noteq> length body \<or> k \<ge> rs_ann_next_id (rs w i sid) then None else Some w)
      else if type = 2 then
        (case read_varints body (length body) 0 2 of
           Some ([k, hops], pos) \<Rightarrow> if hops > kMaxHops \<or> k \<ge> rs_ann_next_id (rs w i sid) \<or> \<not> exactly body pos (unat hops + 2) then None else Some w
         | _ \<Rightarrow> None)
      else Some w)"

function announce_loop :: "nat \<Rightarrow> nat \<Rightarrow> octets \<Rightarrow> lite_world \<Rightarrow> lite_world \<times> bool" where
  "announce_loop i sid buf w =
     (case next_message buf of
        NoMessage \<Rightarrow> (w, True)
      | MessageTooLarge \<Rightarrow> (ResetStream i sid kStreamInternal w, False)
      | MessageAt type body rest \<Rightarrow>
          (case ParseAnnounceBody i sid type body w of
             None \<Rightarrow> (CloseSession i kSessionProtocolViolation (on_rs i sid (\<lambda>r. r\<lparr>rs_buf := rest\<rparr>) w), False)
           | Some w1 \<Rightarrow> announce_loop i sid rest (on_rs i sid (\<lambda>r. r\<lparr>rs_buf := rest\<rparr>) w1)))"
  by auto
termination
by (relation "measure (\<lambda>(i, sid, buf, w). length buf)") (auto dest: next_message_shorter)

declare announce_loop.simps [simp del]

definition done_at_fin :: "nat \<Rightarrow> nat \<Rightarrow> lite_world \<Rightarrow> lite_world" where
  "done_at_fin i sid w = (if rs_fin (rs w i sid) then on_rs i sid (\<lambda>r. r\<lparr>rs_done := True\<rparr>) w else w)"

definition announce_messages :: "nat \<Rightarrow> nat \<Rightarrow> lite_world \<Rightarrow> lite_world" where
  "announce_messages i sid w = (case announce_loop i sid (rs_buf (rs w i sid)) w of (w1, True) \<Rightarrow> done_at_fin i sid w1 | (w1, False) \<Rightarrow> w1)"

definition ParseAnnounceStream :: "nat \<Rightarrow> nat \<Rightarrow> lite_world \<Rightarrow> lite_world" where
  "ParseAnnounceStream i sid w =
     (let b = rs_buf (rs w i sid) in
      if rs_running (rs w i sid) then announce_messages i sid w
      else case MlReadMessage b (length b) 0 of
        kMlMsgTooLarge \<Rightarrow> ResetStream i sid kStreamInternal w
      | kMlMsgNeedMore \<Rightarrow> done_at_fin i sid w
      | kMlMsgOk off blen \<Rightarrow>
          (case read_varints b (off + blen) off 2 of
             Some ([hop, active], pos) \<Rightarrow>
               if pos \<noteq> off + blen then CloseSession i kSessionProtocolViolation w
               else announce_messages i sid
                      (on_rs i sid (\<lambda>r. r\<lparr>rs_running := True, rs_expect := active, rs_buf := drop (off + blen) b\<rparr>) w)
           | _ \<Rightarrow> CloseSession i kSessionProtocolViolation w))"

text \<open>Answers to a subscription: START 0, END 1, DROP 2; others are passed over.\<close>

function subscribe_loop :: "nat \<Rightarrow> nat \<Rightarrow> octets \<Rightarrow> lite_world \<Rightarrow> lite_world \<times> bool" where
  "subscribe_loop i sid buf w =
     (case next_message buf of
        NoMessage \<Rightarrow> (w, True)
      | MessageTooLarge \<Rightarrow> (ResetStream i sid kStreamInternal w, False)
      | MessageAt type body rest \<Rightarrow>
          let ok = (if type = 0 \<or> type = 1 then exactly body 0 1 else if type = 2 then exactly body 0 3 else True);
              w1 = (if ok \<and> type = 0 then on_lite_track i (rs_req_track (rs w i sid)) (\<lambda>t. t\<lparr>lt_started := True\<rparr>)
                                            (on_rs i sid (\<lambda>r. r\<lparr>rs_running := True\<rparr>) w)
                    else if ok \<and> type = 1 then on_rs i sid (\<lambda>r. r\<lparr>rs_done := True\<rparr>) w else w);
              w2 = on_rs i sid (\<lambda>r. r\<lparr>rs_buf := rest\<rparr>) w1 in
          if \<not> ok then (CloseSession i kSessionProtocolViolation w2, False)
          else if rs_done (rs w2 i sid) then (w2, True) else subscribe_loop i sid rest w2)"
  by auto
termination
by (relation "measure (\<lambda>(i, sid, buf, w). length buf)") (auto dest: next_message_shorter)

declare subscribe_loop.simps [simp del]

definition ParseSubscribeStream :: "nat \<Rightarrow> nat \<Rightarrow> lite_world \<Rightarrow> lite_world" where
  "ParseSubscribeStream i sid w =
     (case subscribe_loop i sid (rs_buf (rs w i sid)) w of (w1, True) \<Rightarrow> done_at_fin i sid w1 | (w1, False) \<Rightarrow> w1)"

end
