(* ===== verification/Moq_Lite_Server.thy ===== *)
theory Moq_Lite_Server
  imports Moq_Ingest
begin

text \<open>
  The rest of \<open>moq/moq_lite_session.cpp\<close>: catalogues, groups, the requests of a subscribing peer, the setup message and the
  dispatch of stream data, and the server \<open>moq/moq_lite_server.cpp\<close> that owns the sessions.
\<close>

section \<open>Catalogues\<close>

text \<open>
  The members of a catalogue as \<open>value\<close> of the JSON library reads them: the default where the member is missing, an
  exception (\<open>None\<close>) where it has the wrong type. A boolean converts to 32 bits but not to 64.
\<close>

definition u64_member :: "string \<Rightarrow> (string \<times> json) list \<Rightarrow> u64 option" where
  "u64_member k m = (case map_of m k of None \<Rightarrow> Some 0 | Some (JNum n) \<Rightarrow> Some (word_of_int n) | _ \<Rightarrow> None)"

definition u32_member :: "string \<Rightarrow> (string \<times> json) list \<Rightarrow> u32 option" where
  "u32_member k m = (case map_of m k of None \<Rightarrow> Some 0 | Some (JNum n) \<Rightarrow> Some (word_of_int n)
     | Some (JBool b) \<Rightarrow> Some (if b then 1 else 0) | _ \<Rightarrow> None)"

definition string_member :: "string \<Rightarrow> (string \<times> json) list \<Rightarrow> string option" where
  "string_member k m = (case map_of m k of None \<Rightarrow> Some [] | Some (JStr s) \<Rightarrow> Some s | _ \<Rightarrow> None)"

definition hex_nibble :: "char \<Rightarrow> nat option" where
  "hex_nibble ch = (let n = of_char ch :: nat in
     if 48 \<le> n \<and> n \<le> 57 then Some (n - 48) else if 97 \<le> n \<and> n \<le> 102 then Some (n - 87)
     else if 65 \<le> n \<and> n \<le> 70 then Some (n - 55) else None)"

fun hex_octets :: "string \<Rightarrow> octets option" where
  "hex_octets [] = Some []"
| "hex_octets [a] = None"
| "hex_octets (a # b # s) = (case (hex_nibble a, hex_nibble b, hex_octets s) of
     (Some hi, Some lo, Some d) \<Rightarrow> Some (word_of_nat (16 * hi + lo) # d) | _ \<Rightarrow> None)"

definition HexDecode :: "string \<Rightarrow> octets option" where
  "HexDecode s = (if length s mod 2 \<noteq> 0 then None else hex_octets s)"

definition usable_codec :: "string \<Rightarrow> string \<Rightarrow> bool" where
  "usable_codec kind codec \<longleftrightarrow> (kind = ''video'' \<and> take 5 codec = ''avc1.'') \<or> (kind = ''audio'' \<and> take 8 codec = ''mp4a.40.'')"

text \<open>What a rendition makes of the track of its name.\<close>

definition rendition_track :: "string \<Rightarrow> string \<Rightarrow> (string \<times> json) list \<Rightarrow> lite_track \<Rightarrow> lite_track option" where
  "rendition_track name kind m t =
     (case (string_member ''codec'' m, u32_member ''codedWidth'' m, u32_member ''codedHeight'' m, u32_member ''sampleRate'' m,
            u32_member ''numberOfChannels'' m) of
        (Some codec, Some wd, Some ht, Some sr, Some ch) \<Rightarrow>
          Some (t\<lparr>lt_name := name, lt_kind := kind, lt_codec := codec, lt_width := wd, lt_height := ht, lt_sample_rate := sr,
                  lt_channels := ch, m3_usable := usable_codec kind codec,
                  lt_codec_config := (case map_of m ''description'' of Some (JStr s) \<Rightarrow>
                     (case HexDecode s of Some d \<Rightarrow> d | None \<Rightarrow> lt_codec_config t) | _ \<Rightarrow> lt_codec_config t)\<rparr>)
      | _ \<Rightarrow> None)"

definition take_rendition :: "nat \<Rightarrow> string \<Rightarrow> string \<Rightarrow> json \<Rightarrow> lite_world \<Rightarrow> fault + lite_world" where
  "take_rendition i kind name j w =
     (case j of JObj m \<Rightarrow>
        let t = (case the_lite None (\<lambda>s. map_of (tracks s) name) w i of None \<Rightarrow> new_MoqLiteTrack | Some t \<Rightarrow> t) in
        (case rendition_track name kind m t of None \<Rightarrow> Inl UncaughtException
         | Some t1 \<Rightarrow>
             let w1 = on_lite i (\<lambda>s. s\<lparr>tracks := AList.update name t1 (tracks s)\<rparr>) w in
             Inr (if lt_subscribe_id t1 = 0
                  then Subscribe i (the_lite [] broadcast w1 i) name (if kind = ''audio'' then kSubPriorityAudio else kSubPriorityVideo) w1
                  else w1))
      | _ \<Rightarrow> Inr w)"

fun take_renditions :: "nat \<Rightarrow> string \<Rightarrow> (string \<times> json) list \<Rightarrow> lite_world \<Rightarrow> fault + lite_world" where
  "take_renditions i kind [] w = Inr w"
| "take_renditions i kind ((name, j) # js) w =
     (case take_rendition i kind name j w of Inl e \<Rightarrow> Inl e | Inr w1 \<Rightarrow> take_renditions i kind js w1)"

definition take_clock :: "nat \<Rightarrow> json \<Rightarrow> lite_world \<Rightarrow> fault + lite_world" where
  "take_clock i j w =
     (case member_of ''clock'' j of Some (JObj m) \<Rightarrow>
        (case (u64_member ''wall'' m, u64_member ''timescale'' m) of
           (Some wl, Some ts) \<Rightarrow> Inr (on_lite i (\<lambda>s. s\<lparr>clock_wall := wl, clock_timescale := ts\<rparr>) w)
         | _ \<Rightarrow> Inl UncaughtException)
      | _ \<Rightarrow> Inr w)"

text \<open>The payload is tried as it is and, when that is no JSON, behind a leading integer.\<close>

definition catalog_text :: "lite_world \<Rightarrow> octets \<Rightarrow> (octets \<times> json) option" where
  "catalog_text w d =
     (case parse_json w d of Some j \<Rightarrow> Some (d, j)
      | None \<Rightarrow> (case MlSkipVarint d (length d) 0 of None \<Rightarrow> None
          | Some off \<Rightarrow> map_option (Pair (drop off d)) (parse_json w (drop off d))))"

definition kind_renditions :: "nat \<Rightarrow> json \<Rightarrow> string \<Rightarrow> lite_world \<Rightarrow> fault + lite_world" where
  "kind_renditions i j kind w = (case renditions j kind of None \<Rightarrow> Inr w | Some r \<Rightarrow> take_renditions i kind r w)"

definition OnCatalogFrame :: "nat \<Rightarrow> octets \<Rightarrow> lite_world \<Rightarrow> fault + lite_world" where
  "OnCatalogFrame i d w =
     (case catalog_text w d of None \<Rightarrow> Inr w
      | Some (raw, j) \<Rightarrow>
          if \<not> is_object j then Inr w
          else
            (case take_clock i j (PushCatalogToManager i (on_lite i (\<lambda>s. s\<lparr>catalog_json_raw := str raw\<rparr>) w)) of
               Inl e \<Rightarrow> Inl e
             | Inr w1 \<Rightarrow> (case kind_renditions i j ''video'' w1 of Inl e \<Rightarrow> Inl e | Inr w2 \<Rightarrow> kind_renditions i j ''audio'' w2)))"

section \<open>Groups\<close>

definition OnMediaFrame :: "int \<Rightarrow> nat \<Rightarrow> nat \<Rightarrow> octets \<Rightarrow> lite_world \<Rightarrow> fault + lite_world" where
  "OnMediaFrame now i sid d w =
     (case the_lite None (\<lambda>s. map_of (subs s) (rs_sub_id_in_group (rs w i sid))) w i of None \<Rightarrow> Inr w
      | Some name \<Rightarrow>
          if name = kCatalogName then OnCatalogFrame i d w
          else (case the_lite None (\<lambda>s. map_of (tracks s) name) w i of None \<Rightarrow> Inr w
            | Some t \<Rightarrow>
                let w1 = on_lite_track i name (\<lambda>t. t\<lparr>lt_frames := lt_frames t + 1\<rparr>) w in
                (case MlReadVarint d (length d) 0 of None \<Rightarrow> Inr w1
                 | Some (inner_us, off) \<Rightarrow>
                     if off \<ge> length d \<or> \<not> m3_usable t then Inr w1
                     else Inr (deliver_frame now i sid name t inner_us (drop off d) w1))))"

function group_frames_loop :: "int \<Rightarrow> nat \<Rightarrow> nat \<Rightarrow> octets \<Rightarrow> lite_world \<Rightarrow> fault + lite_world \<times> bool" where
  "group_frames_loop now i sid buf w =
     (case next_message buf of
        NoMessage \<Rightarrow> Inr (w, True)
      | MessageTooLarge \<Rightarrow> Inr (ResetStream i sid kStreamInternal w, False)
      | MessageAt zz body rest \<Rightarrow>
          (case OnMediaFrame now i sid body (on_rs i sid (\<lambda>r. r\<lparr>rs_ts_acc := rs_ts_acc r + MlZigzagDecode zz\<rparr>) w) of
             Inl e \<Rightarrow> Inl e
           | Inr w1 \<Rightarrow> group_frames_loop now i sid rest
               (on_rs i sid (\<lambda>r. r\<lparr>rs_buf := rest, rs_frame_index := rs_frame_index r + 1\<rparr>) w1)))"
  by auto
termination
by (relation "measure (\<lambda>(now, i, sid, buf, w). length buf)") (auto dest: next_message_shorter)

declare group_frames_loop.simps [simp del]

definition group_body :: "int \<Rightarrow> nat \<Rightarrow> nat \<Rightarrow> lite_world \<Rightarrow> fault + lite_world" where
  "group_body now i sid w =
     (case group_frames_loop now i sid (rs_buf (rs w i sid)) w of
        Inl e \<Rightarrow> Inl e
      | Inr (w1, False) \<Rightarrow> Inr w1
      | Inr (w1, True) \<Rightarrow> Inr (if rs_fin (rs w1 i sid) then finish i sid w1 else w1))"

definition group_started :: "u64 \<Rightarrow> u64 \<Rightarrow> u64 \<Rightarrow> octets \<Rightarrow> recv_stream \<Rightarrow> recv_stream" where
  "group_started sub sq fs rest r = r\<lparr>rs_group_hdr_done := True, rs_sub_id_in_group := sub, rs_group := sq, rs_frame_index := fs,
     rs_key_pending := (fs = 0), rs_ts_acc := 0, rs_buf := rest\<rparr>"

definition ParseGroupStream :: "int \<Rightarrow> nat \<Rightarrow> nat \<Rightarrow> lite_world \<Rightarrow> fault + lite_world" where
  "ParseGroupStream now i sid w =
     (let r = rs w i sid; b = rs_buf r in
      if rs_done r then Inr (on_rs i sid (\<lambda>r. r\<lparr>rs_buf := []\<rparr>) w)
      else if rs_group_hdr_done r then group_body now i sid w
      else case MlReadMessage b (length b) 0 of
        kMlMsgTooLarge \<Rightarrow> Inr (ResetStream i sid kStreamInternal w)
      | kMlMsgNeedMore \<Rightarrow> Inr (if rs_fin r then finish i sid w else w)
      | kMlMsgOk off blen \<Rightarrow>
          (case read_varints b (off + blen) off 3 of
             Some ([sub, sq, fs], pos) \<Rightarrow>
               if pos \<noteq> off + blen then Inr (ResetStream i sid kStreamInternal w)
               else (case the_lite None (\<lambda>s. map_of (subs s) sub) w i of
                  None \<Rightarrow> Inr (ResetStream i sid kStreamCancel w)
                | Some name \<Rightarrow>
                    group_body now i sid
                      ((if name = kCatalogName then id else on_lite_track i name (\<lambda>t. t\<lparr>lt_groups := lt_groups t + 1\<rparr>))
                         (on_rs i sid (group_started sub sq fs (drop (off + blen) b)) w)))
           | _ \<Rightarrow> Inr (ResetStream i sid kStreamInternal w)))"

section \<open>Requests of a subscribing peer\<close>

definition kServeTimescale :: u64 where "kServeTimescale = 1000000"
definition kServeMaxAgeMs :: u64 where "kServeMaxAgeMs = 5000"
definition kServePriority :: byte where "kServePriority = 0"

text \<open>What all three requests have in common: \<open>Some\<close> the body when it is complete, or the state in which to wait or to give up.\<close>

definition peer_request :: "nat \<Rightarrow> nat \<Rightarrow> lite_world \<Rightarrow> lite_world + (octets \<times> octets)" where
  "peer_request i sid w =
     (let b = rs_buf (rs w i sid) in
      if \<not> the_lite False publisher_armed w i then Inl (refuse i sid kStreamCancel w)
      else case MlReadMessage b (length b) 0 of
        kMlMsgTooLarge \<Rightarrow> Inl (refuse i sid kStreamInternal w)
      | kMlMsgNeedMore \<Rightarrow> Inl (if rs_fin (rs w i sid) then finish i sid w else w)
      | kMlMsgOk off blen \<Rightarrow> Inr (take blen (drop off b), drop (off + blen) b))"

definition two_strings :: "octets \<Rightarrow> (string \<times> string) option" where
  "two_strings body =
     (case MlReadString body (length body) 0 of (None, _) \<Rightarrow> None
      | (Some a, o1) \<Rightarrow> (case MlReadString body (length body) o1 of (None, _) \<Rightarrow> None
          | (Some b, o2) \<Rightarrow> if o2 = length body then Some (str a, str b) else None))"

definition track_known :: "nat \<Rightarrow> string \<Rightarrow> string \<Rightarrow> lite_world \<Rightarrow> bool" where
  "track_known i bc tr w \<longleftrightarrow> ResolveServeTrack i bc tr w \<noteq> None \<or> missing w (serve_app (the_lite [] routed_path w i) @ ''/'' @ bc) bc"

definition ParsePeerTrack :: "nat \<Rightarrow> nat \<Rightarrow> lite_world \<Rightarrow> lite_world" where
  "ParsePeerTrack i sid w =
     (if rs_done (rs w i sid) then on_rs i sid (\<lambda>r. r\<lparr>rs_buf := []\<rparr>) w
      else case peer_request i sid w of Inl w1 \<Rightarrow> w1
      | Inr (body, rest) \<Rightarrow>
          (case two_strings body of None \<Rightarrow> refuse i sid kStreamInternal w
           | Some (bc, tr) \<Rightarrow>
               let w1 = on_rs i sid (\<lambda>r. r\<lparr>rs_done := True, rs_buf := rest\<rparr>) w in
               if \<not> track_known i bc tr w1 then ResetStream i sid kStreamCancel w1
               else (case MlBuildTrackInfo [] kServePriority kServeMaxAgeMs kServeTimescale of
                  (_, False) \<Rightarrow> ResetStream i sid kStreamCancel w1
                | (out, True) \<Rightarrow> fst (send i sid out True w1))))"

definition ParsePeerAnnounce :: "nat \<Rightarrow> nat \<Rightarrow> lite_world \<Rightarrow> lite_world" where
  "ParsePeerAnnounce i sid w =
     (if rs_done (rs w i sid) then on_rs i sid (\<lambda>r. r\<lparr>rs_buf := []\<rparr>) w
      else if rs_running (rs w i sid) then (if rs_buf (rs w i sid) \<noteq> [] then refuse i sid kStreamInternal w else w)
      else case peer_request i sid w of Inl w1 \<Rightarrow> w1
      | Inr (body, rest) \<Rightarrow>
          (case MlReadString body (length body) 0 of
             (Some prefix, pos) \<Rightarrow>
               if pos \<noteq> length body then refuse i sid kStreamInternal w
               else AnnounceGrid i sid (str prefix)
                      (on_rs i sid (\<lambda>r. r\<lparr>rs_buf := rest, rs_req_path := str prefix, rs_running := True\<rparr>) w)
           | (None, _) \<Rightarrow> refuse i sid kStreamInternal w))"

definition peer_subscription :: "nat \<Rightarrow> octets \<Rightarrow> pending_sub option" where
  "peer_subscription sid body =
     (case MlReadVarint body (length body) 0 of None \<Rightarrow> None
      | Some (sub, o1) \<Rightarrow> (case MlReadString body (length body) o1 of (None, _) \<Rightarrow> None
          | (Some bc, o2) \<Rightarrow> (case MlReadString body (length body) o2 of (None, _) \<Rightarrow> None
              | (Some tr, o3) \<Rightarrow>
                  if o3 \<ge> length body then None
                  else (case read_varints body (length body) (o3 + 1) 5 of
                    Some ([age, sg, eg, sf, ef], pos) \<Rightarrow>
                      if pos \<noteq> length body then None
                      else Some \<lparr>pp_sid = sid, pp_sub_id = sub, pp_broadcast = str bc, pp_track = str tr, pp_key = [], pp_priority = body ! o3,
                        pp_max_age_ms = age, pp_start_group = sg, pp_end_group_raw = eg, pp_start_frame = sf, pp_end_frame_raw = ef, deadline_ms = 0\<rparr>
                  | _ \<Rightarrow> None))))"

definition ParsePeerSubscribe :: "int \<Rightarrow> nat \<Rightarrow> nat \<Rightarrow> lite_world \<Rightarrow> lite_world" where
  "ParsePeerSubscribe now i sid w =
     (if rs_done (rs w i sid) then on_rs i sid (\<lambda>r. r\<lparr>rs_buf := []\<rparr>) w
      else case peer_request i sid w of Inl w1 \<Rightarrow> w1
      | Inr (body, rest) \<Rightarrow>
          (case peer_subscription sid body of None \<Rightarrow> refuse i sid kStreamInternal w
           | Some p \<Rightarrow>
               let w1 = on_rs i sid (\<lambda>r. r\<lparr>rs_done := True, rs_buf := rest\<rparr>) w;
                   key = serve_app (the_lite [] routed_path w1 i) @ ''/'' @ pp_broadcast p in
               if the_lite None (\<lambda>s. map_of (lite_serve_subs s) (pp_sub_id p)) w1 i \<noteq> None
                  \<or> the_lite None (\<lambda>s. map_of (pending_subs s) (pp_sub_id p)) w1 i \<noteq> None
               then CloseSession i kSessionProtocolViolation w1
               else if ResolveServeTrack i (pp_broadcast p) (pp_track p) w1 \<noteq> None then AttachPeerSubscribe i p w1
               else if missing w1 key (pp_broadcast p)
               then on_lite i (\<lambda>s. s\<lparr>pending_subs := map_put (pp_sub_id p) (p\<lparr>pp_key := key, deadline_ms := now + deferred_ms w1\<rparr>) (pending_subs s)\<rparr>) w1
               else ResetStream i sid kStreamCancel w1))"

section \<open>The setup message\<close>

definition SendSetup :: "nat \<Rightarrow> lite_world \<Rightarrow> lite_world" where
  "SendSetup i w =
     (case on_conn i quic_stream_open_uni None w of
        (w1, None) \<Rightarrow> CloseSession i kSessionInternalError w1
      | (w1, Some sid) \<Rightarrow>
          (case write_varints [] [kTypeSetup, 1, 0] of None \<Rightarrow> CloseSession i kSessionInternalError w1
           | Some out \<Rightarrow> (case send i sid out True w1 of (w2, r) \<Rightarrow> if r < 0 then CloseSession i kSessionInternalError w2 else w2)))"

definition split_query :: "string \<Rightarrow> string \<times> string" where
  "split_query s = (takeWhile (\<lambda>ch. ch \<noteq> CHR ''?'') s, tl (dropWhile (\<lambda>ch. ch \<noteq> CHR ''?'') s))"

text \<open>
  Path 2, Probe 1, Role 3, Cost 4, Hop 5; others are passed over. The function reports a malformed value by setting
  \<open>*bad_format\<close>, for which the caller passes the address of \<open>ok\<close>, which is set already: the value is passed over too.
\<close>

definition OnSetupParam :: "u64 \<Rightarrow> octets \<Rightarrow> lite_session \<Rightarrow> lite_session" where
  "OnSetupParam pid val s =
     (if pid = 2 then
        (case MlReadString val (length val) 0 of
           (Some d, pos) \<Rightarrow>
             if pos \<noteq> length val then s
             else if CHR ''?'' \<in> set (str d)
             then s\<lparr>path_only := NormalizePath (fst (split_query (str d))), query := snd (split_query (str d))\<rparr>
             else s\<lparr>path_only := NormalizePath (str d)\<rparr>
         | (None, _) \<Rightarrow> s)
      else if pid = 3 then
        (case MlReadVarint val (length val) 0 of None \<Rightarrow> s | Some (v, _) \<Rightarrow> s\<lparr>peer_role := (if v = 1 \<or> v = 2 then v else 0)\<rparr>)
      else s)"

text \<open>The parameters, with the session as far as they changed it; \<open>None\<close> for the position where they do not add up.\<close>

fun setup_params :: "nat \<Rightarrow> octets \<Rightarrow> nat \<Rightarrow> u64 list \<Rightarrow> lite_session \<Rightarrow> lite_session \<times> nat option" where
  "setup_params 0 b pos seen s = (s, Some pos)"
| "setup_params (Suc n) b pos seen s =
     (case read_varints b (length b) pos 2 of
        Some ([pid, plen], p1) \<Rightarrow>
          if unat plen > length b - p1 \<or> pid \<in> set seen then (s, None)
          else setup_params n b (p1 + unat plen) (pid # seen) (OnSetupParam pid (take (unat plen) (drop p1 b)) s)
      | _ \<Rightarrow> (s, None))"

definition RouteTo :: "nat \<Rightarrow> lite_world \<Rightarrow> lite_world \<times> bool" where
  "RouteTo i w =
     (let p0 = the_lite [] path_only w i; p = (if p0 = [] then default_path w else p0) in
      if p \<in> set (paths w) then (on_lite i (\<lambda>s. s\<lparr>routed_path := p\<rparr>) w, True) else (w, False))"

definition ArmPublisher :: "nat \<Rightarrow> lite_world \<Rightarrow> lite_world" where
  "ArmPublisher i w = (if is_dead w i then w else on_lite i (\<lambda>s. s\<lparr>publisher_armed := True\<rparr>) w)"

definition StartDiscovery :: "nat \<Rightarrow> lite_world \<Rightarrow> lite_world" where
  "StartDiscovery i w =
     (if is_dead w i \<or> the_lite True discovery_started w i then w
      else
        let w1 = StartAnnounce i [] (on_lite i (\<lambda>s. s\<lparr>discovery_started := True\<rparr>) w) in
        if the_lite [] routed_path w1 i = [] then w1 else StartAnnounce i (the_lite [] routed_path w1 i) w1)"

definition setup_done :: "nat \<Rightarrow> lite_world \<Rightarrow> lite_world" where
  "setup_done i w =
     (case RouteTo i (on_lite i (\<lambda>s. s\<lparr>peer_setup_done := True\<rparr>) w) of
        (w1, False) \<Rightarrow> CloseSession i kSessionUnauthorized w1
      | (w1, True) \<Rightarrow>
          if the_lite 0 peer_role w1 i = 1 then StartDiscovery i w1
          else if the_lite 0 peer_role w1 i = 2 then ArmPublisher i w1
          else ArmPublisher i (StartDiscovery i w1))"

definition ParseSetupStream :: "nat \<Rightarrow> nat \<Rightarrow> lite_world \<Rightarrow> lite_world" where
  "ParseSetupStream i sid w =
     (let r = rs w i sid; b = rs_buf r; bad = CloseSession i kSessionProtocolViolation in
      if rs_done r then w
      else case MlReadVarint b (length b) 0 of None \<Rightarrow> (if rs_fin r then bad w else w)
      | Some (len, o1) \<Rightarrow>
          if length b < o1 + unat len then (if rs_fin r then bad w else w)
          else
            let body = take (o1 + unat len) b; w1 = on_lite i (\<lambda>s. s\<lparr>saw_peer_setup := True\<rparr>) w in
            (case MlReadVarint body (length body) o1 of None \<Rightarrow> bad w1
             | Some (n, o2) \<Rightarrow>
                 (case the_lite (None, None) (\<lambda>s. map_prod Some id (setup_params (unat n) body o2 [] s)) w1 i of
                    (s', pos) \<Rightarrow>
                      let w2 = (case s' of None \<Rightarrow> w1 | Some s \<Rightarrow> on_lite i (\<lambda>_. s) w1) in
                      if pos \<noteq> Some (length body) then bad w2
                      else setup_done i (on_rs i sid (\<lambda>r. r\<lparr>rs_buf := drop (o1 + unat len) b, rs_done := True\<rparr>) w2))))"

section \<open>Stream data\<close>

definition uni_stream :: "nat \<Rightarrow> bool" where "uni_stream sid \<longleftrightarrow> sid div 2 mod 2 = 1"

definition known_type :: "u64 \<Rightarrow> bool \<Rightarrow> bool" where
  "known_type type uni \<longleftrightarrow> type \<in> (if uni then {kTypeGroup, kTypeSetup}
     else {kTypeAnnounce, kTypeSubscribe, kTypeFetch, kTypeProbe, kTypeGoaway, kTypeTrack})"

definition OnStreamTypeSeen :: "nat \<Rightarrow> nat \<Rightarrow> lite_world \<Rightarrow> lite_world" where
  "OnStreamTypeSeen i sid w =
     (let type = rs_type (rs w i sid) in
      if \<not> known_type type (uni_stream sid) then ResetStream i sid kStreamInternal w
      else if uni_stream sid \<and> type = kTypeSetup then
        (if the_lite False saw_peer_setup w i then CloseSession i kSessionProtocolViolation w
         else on_lite i (\<lambda>s. s\<lparr>saw_peer_setup := True\<rparr>) w)
      else w)"

text \<open>GOAWAY and whatever else comes on a stream of the peer is passed over.\<close>

definition ParseBidiStream :: "nat \<Rightarrow> nat \<Rightarrow> lite_world \<Rightarrow> lite_world" where
  "ParseBidiStream i sid w = finish i sid w"

definition parse_by_type :: "int \<Rightarrow> nat \<Rightarrow> nat \<Rightarrow> lite_world \<Rightarrow> fault + lite_world" where
  "parse_by_type now i sid w =
     (let type = rs_type (rs w i sid) in
      if rs_local (rs w i sid) then
        Inr (if type = kTypeAnnounce then ParseAnnounceStream i sid w
             else if type = kTypeSubscribe then ParseSubscribeStream i sid w else ParseBidiStream i sid w)
      else if uni_stream sid then
        (if type = kTypeSetup then Inr (ParseSetupStream i sid w) else ParseGroupStream now i sid w)
      else Inr (if type = kTypeAnnounce then ParsePeerAnnounce i sid w
                else if type = kTypeSubscribe then ParsePeerSubscribe now i sid w
                else if type = kTypeTrack then ParsePeerTrack i sid w
                else if type = kTypeFetch \<or> type = kTypeProbe then refuse i sid kStreamCancel w
                else ParseBidiStream i sid w))"

definition Parse_typed :: "int \<Rightarrow> nat \<Rightarrow> nat \<Rightarrow> lite_world \<Rightarrow> fault + lite_world" where
  "Parse_typed now i sid w =
     (case parse_by_type now i sid w of Inl e \<Rightarrow> Inl e
      | Inr w1 \<Rightarrow> Inr (if rs_done (rs w1 i sid) then on_rs i sid (\<lambda>r. r\<lparr>rs_buf := []\<rparr>) w1 else w1))"

definition Parse :: "int \<Rightarrow> nat \<Rightarrow> nat \<Rightarrow> lite_world \<Rightarrow> fault + lite_world" where
  "Parse now i sid w =
     (let r = rs w i sid in
      if rs_typed r then Parse_typed now i sid w
      else case MlReadVarint (rs_buf r) (length (rs_buf r)) 0 of
        None \<Rightarrow> Inr (if rs_fin r then ResetStream i sid kStreamInternal w else w)
      | Some (type, off) \<Rightarrow>
          let w1 = OnStreamTypeSeen i sid (on_rs i sid (\<lambda>r. r\<lparr>rs_type := type, rs_typed := True, rs_buf := drop off (rs_buf r)\<rparr>) w) in
          if rs_reset_sent (rs w1 i sid) \<or> is_dead w1 i then Inr w1 else Parse_typed now i sid w1)"

definition kMaxRecvBuf :: nat where "kMaxRecvBuf = 64 * 1024 * 1024 + 1024"

definition HandleStreamData :: "int \<Rightarrow> nat \<Rightarrow> nat \<Rightarrow> octets \<Rightarrow> bool \<Rightarrow> lite_world \<Rightarrow> fault + lite_world" where
  "HandleStreamData now i sid d fin w =
     (if is_dead w i then Inr w
      else
        let w0 = on_rs i sid id w in
        if rs_reset_sent (rs w0 i sid) then Inr w0
        else
          let w1 = on_rs i sid (\<lambda>r. r\<lparr>rs_buf := rs_buf r @ d, rs_fin := rs_fin r \<or> fin\<rparr>) w0 in
          if length (rs_buf (rs w1 i sid)) > kMaxRecvBuf
          then Inr (on_rs i sid (\<lambda>r. r\<lparr>rs_buf := []\<rparr>) (ResetStream i sid kStreamInternal w1))
          else Parse now i sid w1)"

section \<open>The server\<close>

definition Handles :: "string \<Rightarrow> bool" where "Handles alpn \<longleftrightarrow> take 9 alpn = ''moq-lite-''"

definition AddPath :: "string \<Rightarrow> lite_world \<Rightarrow> lite_world" where
  "AddPath path w =
     (let key = NormalizePath path in
      w\<lparr>default_path := (if default_path w = [] then key else default_path w), paths := List.insert key (paths w)\<rparr>)"

text \<open>\<open>serial\<close>, the running number of sessions, and the peer's address make the owner's name.\<close>

definition new_MoqLiteSession :: "quic_ctx \<Rightarrow> nat \<Rightarrow> string \<Rightarrow> lite_session" where
  "new_MoqLiteSession c serial remote =
     \<lparr>ls_conn = c, ls_closed = None, ls_remote = remote, ls_dead = False, recv_streams = [], peer_setup_done = False, saw_peer_setup = False,
      path_only = [], query = [], routed_path = [], subs = [], tracks = [], broadcast = [], next_subscribe_id = 1, discovery_started = False,
      catalog_subscribed = False, clock_wall = 0, clock_timescale = 0, ls_stream_key = [], stream_app = [], stream_name = [],
      owner_id = ''moqlite-'' @ nat_text serial @ ''/'' @ remote, stream_claimed = False, catalog_json_raw = [], peer_role = 0,
      publisher_armed = False, lite_serve_subs = [], egresses = [], peer_announces = [], pending_subs = []\<rparr>"

text \<open>A connection is refused, or becomes the next session; the result is its number.\<close>

definition OnConnection :: "quic_ctx \<Rightarrow> string \<Rightarrow> string \<Rightarrow> lite_world \<Rightarrow> lite_world \<times> nat option" where
  "OnConnection c alpn remote w =
     (if \<not> Handles alpn \<or> paths w = [] then (w, None)
      else let i = length (sessions w) in
        (SendSetup i (w\<lparr>sessions := sessions w @ [Some (new_MoqLiteSession c (i + 1) remote)]\<rparr>), Some i))"

definition OnTimer_lite :: "int \<Rightarrow> lite_world \<Rightarrow> lite_world" where
  "OnTimer_lite now w = foldl (\<lambda>w i. SweepPendingPeerSubscribes now i w) w [0..<length (sessions w)]"

text \<open>The connection is gone: the session is taken out of the table and destroyed.\<close>

definition OnCloseTrampoline :: "nat \<Rightarrow> lite_world \<Rightarrow> lite_world" where
  "OnCloseTrampoline i w =
     (if lite w i = None then w
      else
        let w1 = ReleaseStream i (TeardownEgress i (on_lite i (\<lambda>s. s\<lparr>ls_dead := True\<rparr>) w)) in
        w1\<lparr>sessions := (sessions w1)[i := None]\<rparr>)"

end
