(* ===== verification/Moq_Lite_Server_Facts.thy ===== *)
theory Moq_Lite_Server_Facts
  imports Moq_Lite_Server Moqlite_Reading Quic_Receive
begin

text \<open>
  What the server takes in over moq-lite. The loop over a group stream is a fold over the messages its octets hold, which
  does not depend on the pieces they came in; the manager is handed the FLV packets of exactly these frames, in order.
\<close>

section \<open>Access\<close>

lemma map_of_map_put [simp]: "map_of (map_put k v m) = (map_of m)(k \<mapsto> v)"
  by (induction k v m rule: map_put.induct) (auto simp: fun_eq_iff)

lemma lite_on_lite [simp]: "lite (on_lite i f w) j = (if i = j then map_option f (lite w j) else lite w j)"
  by (auto simp: on_lite_def lite_def)

lemma on_lite_fields [simp]:
  "mgr (on_lite i f w) = mgr w" "length (sessions (on_lite i f w)) = length (sessions w)" "parse_json (on_lite i f w) = parse_json w"
  "next_ptr (on_lite i f w) = next_ptr w" "paths (on_lite i f w) = paths w" "mgr (on_rs i sid g w) = mgr w"
  by (simp_all add: on_lite_def on_rs_def)

lemma the_lite_on_lite [simp]:
  "the_lite d f (on_lite i g w) j = (if i = j then the_lite d (f \<circ> g) w j else the_lite d f w j)"
  by (simp add: the_lite_def option.case_eq_if option.map_sel)

lemma rs_on_rs [simp]: "lite w i \<noteq> None \<Longrightarrow> rs (on_rs i sid f w) i k = (if k = sid then f (rs w i sid) else rs w i k)"
  by (auto simp: rs_def on_rs_def the_lite_def)

text \<open>What depends on neither the connection nor the writers of a session.\<close>

definition calm :: "(lite_session \<Rightarrow> 'a) \<Rightarrow> bool" where
  "calm f \<longleftrightarrow> (\<forall>s c e. f (s\<lparr>ls_conn := c, egresses := e\<rparr>) = f s)"

lemma on_egress_keeps [simp]: "calm f \<Longrightarrow> map_option f (lite (on_egress i sub g w) j) = map_option f (lite w j)"
  by (auto simp: on_egress_def calm_def Let_def split: option.split)

lemma on_egress_mgr [simp]: "mgr (on_egress i sub g w) = mgr w"
  by (auto simp: on_egress_def Let_def split: option.split)

lemma lite_mgr [simp]: "lite (w\<lparr>mgr := m\<rparr>) j = lite w j"
  by (simp add: lite_def)

lemma hand_over_keeps [simp]: "calm f \<Longrightarrow> map_option f (lite (hand_over w p) j) = map_option f (lite w j)"
  by (simp add: hand_over_def Let_def split: option.split)

lemma hand_over_mgr [simp]: "mgr (hand_over w p) = set_writer p ((heap (mgr w) p)\<lparr>pl_box := []\<rparr>) (mgr w)"
  by (simp add: hand_over_def Let_def split: option.split)

lemma write_media_keeps [simp]:
  assumes "calm f"
  shows "map_option f (lite (write_media now pkt w) j) = map_option f (lite w j)"
proof -
  have "map_option f (lite (foldl hand_over v ps) j) = map_option f (lite v j)" for v ps
    using assms by (induction ps arbitrary: v) simp_all
  then show ?thesis by (simp add: write_media_def Let_def)
qed

section \<open>The manager and a packet\<close>

definition empty_box :: "player manager \<Rightarrow> ptr \<Rightarrow> player manager" where
  "empty_box m p = set_writer p ((heap m p)\<lparr>pl_box := []\<rparr>) m"

definition take_in :: "int \<Rightarrow> media_packet \<Rightarrow> player manager \<Rightarrow> player manager" where
  "take_in now pkt m = (let m1 = fst (WriterMediaPacket player_ops now (Some pkt) m) in
     foldl empty_box m1 (case find_stream m1 (pkt_key (packet_key pkt)) of None \<Rightarrow> [] | Some s \<Rightarrow> map snd (writer_map s)))"

lemma write_media_mgr: "mgr (write_media now pkt w) = take_in now pkt (mgr w)"
proof -
  have "mgr (foldl hand_over v ps) = foldl empty_box (mgr v) ps" for v ps
    by (induction ps arbitrary: v) (simp_all add: empty_box_def)
  then show ?thesis by (simp add: write_media_def take_in_def Let_def)
qed

lemma empty_boxes_find [simp]: "find_stream (foldl empty_box m ps) k = find_stream m k"
  by (induction ps arbitrary: m) (simp_all add: empty_box_def table)

definition published_by :: "string \<Rightarrow> string \<Rightarrow> player manager \<Rightarrow> bool" where
  "published_by o_id k m \<longleftrightarrow> (\<exists>s. find_stream m k = Some s \<and> publisher_exist s \<and> publisher_id s = o_id)"

lemma published_RemovePlayer: "published_by o_id k m \<Longrightarrow> published_by o_id k (RemovePlayer V p m)"
  by (auto simp: published_by_def RemovePlayer_def table Let_def split: option.splits if_splits)

lemma published_removals: "published_by o_id k m \<Longrightarrow> published_by o_id k (foldl (\<lambda>m p. RemovePlayer V p m) m ps)"
  by (induction ps arbitrary: m) (auto intro: published_RemovePlayer)

lemma take_in_owner:
  assumes "IsPublisherOwner m k o_id" "pkt_key pkt = k" "k \<noteq> []"
  shows "IsPublisherOwner (take_in now pkt m) k o_id"
proof -
  have k: "packet_key pkt = pkt" using assms(2,3) by (simp add: packet_key_def)
  obtain m1 s where 1: "AddPublisher k m = (m1, s)" by force
  obtain s1 q where 2: "NormalizeDts now s pkt = (s1, q)" by force
  have id: "publisher_exist s" "publisher_id s = [] \<or> publisher_id s = o_id"
    using assms(1) 1 by (auto simp: AddPublisher_def IsPublisherOwner_def Let_def split: option.splits)
  let ?s2 = "s1\<lparr>gop := fst (InsertPacket (gop s1) (Some q))\<rparr>"
  have "published_by (publisher_id s) k ((put_stream k ?s2 m1)\<lparr>heap := h\<rparr>)" for h
    using id(1) NormalizeDts_keeps [OF 2] by (simp add: published_by_def table)
  from published_removals [OF this]
  have "published_by (publisher_id s) k (fst (WriterMediaPacket player_ops now (Some pkt) m))"
    by (simp add: WriterMediaPacket_def Let_def k assms(2) 1 2 split: prod.split)
  then show ?thesis
    using id(2) by (auto simp: published_by_def take_in_def IsPublisherOwner_def Let_def)
qed

section \<open>A frame\<close>

definition core :: "lite_session \<Rightarrow> string \<times> string \<times> string \<times> string \<times> bool \<times> bool \<times> (u64 \<times> string) list" where
  "core s = (ls_stream_key s, owner_id s, stream_app s, stream_name s, stream_claimed s, ls_dead s, subs s)"

text \<open>Session \<open>i\<close> takes in the track: it owns its stream, and the track is as it was, but for what is counted.\<close>

definition takes_in :: "lite_session \<Rightarrow> string \<Rightarrow> lite_track \<Rightarrow> nat \<Rightarrow> bool \<Rightarrow> lite_world \<Rightarrow> bool" where
  "takes_in s0 name t0 i sent w \<longleftrightarrow> (\<exists>s t. lite w i = Some s \<and> core s = core s0 \<and> map_of (tracks s) name = Some t
     \<and> (lt_kind t, lt_codec_config t, m3_usable t, seq_hdr_sent t) = (lt_kind t0, lt_codec_config t0, True, sent))
     \<and> IsPublisherOwner (mgr w) (ls_stream_key s0) (owner_id s0) \<and> stream_claimed s0 \<and> \<not> ls_dead s0
     \<and> ls_stream_key s0 \<noteq> [] \<and> owner_id s0 \<noteq> []"

text \<open>The packets of the frames: what comes before the first one is the sequence header, unless it was sent.\<close>

fun flv_of :: "lite_session \<Rightarrow> lite_track \<Rightarrow> bool \<Rightarrow> bool \<Rightarrow> (u64 \<times> octets) list \<Rightarrow> media_packet list" where
  "flv_of s t sent key [] = []"
| "flv_of s t sent key ((zz, body) # ms) =
     (case MlReadVarint body (length body) 0 of
        None \<Rightarrow> flv_of s t sent key ms
      | Some (us, off) \<Rightarrow>
          if off \<ge> length body then flv_of s t sent key ms
          else let video = (lt_kind t = ''video''); ts = int (unat us div 1000) in
            (if sent \<or> lt_codec_config t = [] then [] else [flv_packet s video ts True video (lt_codec_config t)])
              @ flv_packet s video ts False (video \<and> key) (drop off body) # flv_of s t True False ms)"

definition media :: "int \<Rightarrow> media_packet list \<Rightarrow> player manager \<Rightarrow> player manager" where
  "media now pkts m = foldl (\<lambda>m p. take_in now p m) m pkts"

lemma media_simps [simp]:
  "media now [] m = m" "media now (p # ps) m = media now ps (take_in now p m)" "media now (ps @ qs) m = media now qs (media now ps m)"
  by (simp_all add: media_def)

lemma media_mgr: "mgr (foldl (\<lambda>w p. write_media now p w) w pkts) = media now pkts (mgr w)"
  by (induction pkts arbitrary: w) (simp_all add: write_media_mgr)

lemma calm_parts [simp]: "calm core" "calm (\<lambda>s. map_of (recv_streams s) sid)" "calm (\<lambda>s. map_of (tracks s) name)"
  by (simp_all add: calm_def core_def)

lemma the_lite_keeps:
  assumes "map_option f (lite v j) = map_option f (lite w j)"
  shows "the_lite d f v j = the_lite d f w j"
  using assms by (auto simp: the_lite_def split: option.splits)

lemma rs_write_media [simp]: "rs (write_media now pkt w) i sid = rs w i sid"
  using the_lite_keeps [OF write_media_keeps [of "\<lambda>s. map_of (recv_streams s) sid" now pkt w i]] by (simp add: rs_def)

lemma rs_on_lite_track [simp]: "rs (on_lite_track i name f w) j sid = rs w j sid"
  by (cases "lite w j") (simp_all add: rs_def on_lite_track_def the_lite_def)

lemma mgr_on_lite_track [simp]: "mgr (on_lite_track i name f w) = mgr w"
  by (simp add: on_lite_track_def)

lemma map_of_only: "map_of (map (\<lambda>(k, t). (k, if k = name then f t else t)) xs) j = (if j = name then map_option f (map_of xs j) else map_of xs j)"
  by (induction xs) auto

lemma takes_in_alive: "takes_in s0 name t0 i sent w \<Longrightarrow> lite w i \<noteq> None \<and> \<not> is_dead w i"
  by (auto simp: takes_in_def is_dead_def the_lite_def core_def)

lemma takes_in_on_rs [simp]: "takes_in s0 name t0 i sent (on_rs i sid f w) = takes_in s0 name t0 i sent w"
  by (auto simp: takes_in_def on_rs_def core_def)

lemma takes_in_track:
  assumes "takes_in s0 name t0 i sent w"
    "\<And>t. (lt_kind (f t), lt_codec_config (f t), m3_usable (f t)) = (lt_kind t, lt_codec_config t, m3_usable t)"
  shows "takes_in s0 name t0 i sent' (on_lite_track i name f w) \<longleftrightarrow> (\<forall>s t. lite w i = Some s \<longrightarrow> map_of (tracks s) name = Some t \<longrightarrow> seq_hdr_sent (f t) = sent')"
  using assms by (auto simp: takes_in_def on_lite_track_def core_def map_of_only)

lemma takes_in_write_media:
  assumes "takes_in s0 name t0 i sent w" "pkt_key pkt = ls_stream_key s0"
  shows "takes_in s0 name t0 i sent (write_media now pkt w)"
proof -
  obtain s t where s: "lite w i = Some s" "core s = core s0" "map_of (tracks s) name = Some t"
    "(lt_kind t, lt_codec_config t, m3_usable t, seq_hdr_sent t) = (lt_kind t0, lt_codec_config t0, True, sent)"
    using assms(1) by (auto simp: takes_in_def)
  let ?f = "\<lambda>s. (core s, map_of (tracks s) name)"
  have "calm ?f" by (simp add: calm_def core_def)
  from write_media_keeps [OF this, of now pkt w i] s(1) obtain s' where
    "lite (write_media now pkt w) i = Some s'" "core s' = core s" "map_of (tracks s') name = map_of (tracks s) name"
    by auto
  then show ?thesis
    using assms s take_in_owner [of "mgr w" "ls_stream_key s0" "owner_id s0" pkt now]
    by (auto simp: takes_in_def write_media_mgr)
qed

lemma flv_packet_cong: "core s = core s0 \<Longrightarrow> flv_packet s = flv_packet s0" "pkt_key (flv_packet s v ts q k d) = ls_stream_key s"
  by (auto simp: flv_packet_def core_def fun_eq_iff)

lemma Emit_takes_in:
  assumes "takes_in s0 name t0 i sent w"
  shows "takes_in s0 name t0 i sent (EmitFlvFrame now i name v ts q k d w) \<and> rs (EmitFlvFrame now i name v ts q k d w) i sid = rs w i sid
    \<and> mgr (EmitFlvFrame now i name v ts q k d w) = take_in now (flv_packet s0 v ts q k d) (mgr w)"
proof -
  obtain s where s: "lite w i = Some s" "core s = core s0" using assms by (auto simp: takes_in_def)
  have o: "IsStreamOwner i w" using assms s by (auto simp: takes_in_def IsStreamOwner_def the_lite_def core_def)
  have k: "pkt_key (flv_packet s0 v ts q k d) = ls_stream_key s0" by (simp add: flv_packet_cong(2))
  have t: "takes_in s0 name t0 i sent (write_media now (flv_packet s0 v ts q k d) w)" using takes_in_write_media [OF assms k] .
  moreover have "takes_in s0 name t0 i sent (on_lite_track i name (\<lambda>t. t\<lparr>lt_delivered := lt_delivered t + 1\<rparr>) v)"
    if "takes_in s0 name t0 i sent v" for v
    using that by (subst takes_in_track [OF that]) (auto simp: takes_in_def)
  moreover have "EmitFlvFrame now i name v ts q k d w = (let w1 = write_media now (flv_packet s0 v ts q k d) w in
      if q then w1 else on_lite_track i name (\<lambda>t. t\<lparr>lt_delivered := lt_delivered t + 1\<rparr>) w1)"
    using s o by (simp add: EmitFlvFrame_def Deliver_def flv_packet_cong(1) [OF s(2)] Let_def)
  ultimately show ?thesis by (cases q) (simp_all add: write_media_mgr Let_def)
qed

text \<open>One frame, whatever its body.\<close>

lemma frame_taken:
  assumes "takes_in s0 name t0 i sent w" "map_of (subs s0) (rs_sub_id_in_group (rs w i sid)) = Some name" "name \<noteq> kCatalogName"
    and key: "rs_key_pending (rs w i sid) = key"
  shows "\<exists>w1 sent1 key1. OnMediaFrame now i sid body w = Inr w1 \<and> takes_in s0 name t0 i sent1 w1
    \<and> rs w1 i sid = (rs w i sid)\<lparr>rs_key_pending := key1\<rparr>
    \<and> (\<forall>zz ms. flv_of s0 t0 sent key ((zz, body) # ms) = flv_of s0 t0 sent key [(zz, body)] @ flv_of s0 t0 sent1 key1 ms)
    \<and> mgr w1 = media now (flv_of s0 t0 sent key [(0, body)]) (mgr w)"
proof -
  obtain s t where s: "lite w i = Some s" "core s = core s0" "map_of (tracks s) name = Some t"
    "lt_kind t = lt_kind t0" "lt_codec_config t = lt_codec_config t0" "m3_usable t" "seq_hdr_sent t = sent"
    using assms(1) by (auto simp: takes_in_def)
  define w1 where "w1 = on_lite_track i name (\<lambda>t. t\<lparr>lt_frames := lt_frames t + 1\<rparr>) w"
  have w1: "takes_in s0 name t0 i sent w1" "rs w1 i sid = rs w i sid" "mgr w1 = mgr w"
    using assms(1) s by (simp_all add: w1_def takes_in_track)
  have named: "map_of (subs s) (rs_sub_id_in_group (rs w i sid)) = Some name" using assms(2) s(2) by (simp add: core_def)
  note on = named assms(3) s(1,3,6)
  show ?thesis
  proof (cases "MlReadVarint body (length body) 0")
    case None
    have "OnMediaFrame now i sid body w = Inr w1" using on None by (simp add: OnMediaFrame_def the_lite_def w1_def)
    moreover have "rs w1 i sid = (rs w i sid)\<lparr>rs_key_pending := key\<rparr>" using key by (simp add: w1)
    ultimately show ?thesis using w1 None by (intro exI conjI) (assumption | simp)+
  next
    case (Some u)
    obtain us off where u: "u = (us, off)" by force
    show ?thesis
    proof (cases "off \<ge> length body")
      case True
      have "OnMediaFrame now i sid body w = Inr w1" using on Some u True by (simp add: OnMediaFrame_def the_lite_def w1_def)
      moreover have "rs w1 i sid = (rs w i sid)\<lparr>rs_key_pending := key\<rparr>" using key by (simp add: w1)
      ultimately show ?thesis using w1 Some u True by (intro exI conjI) (assumption | simp)+
    next
      case False
      let ?v = "lt_kind t0 = ''video''" and ?ts = "int (unat us div 1000)" and ?key = "key"
      define w2 where "w2 = on_rs i sid (\<lambda>r. r\<lparr>rs_key_pending := False\<rparr>) w1"
      have al: "lite w1 i \<noteq> None" using takes_in_alive [OF w1(1)] by simp
      have w2: "takes_in s0 name t0 i sent w2" "rs w2 i sid = (rs w i sid)\<lparr>rs_key_pending := False\<rparr>" "mgr w2 = mgr w"
        using w1 al by (simp_all add: w2_def)
      have cl: "EnsureStreamClaimed now i w2 = (w2, True)"
        using w2(1) by (auto simp: EnsureStreamClaimed_def takes_in_def core_def)
      define w3 where "w3 = (if sent then w2 else EmitFlvSeqHdr now i name ?v ?ts (lt_codec_config t0) (on_lite_track i name (\<lambda>t. t\<lparr>seq_hdr_sent := True\<rparr>) w2))"
      have w2': "takes_in s0 name t0 i True (on_lite_track i name (\<lambda>t. t\<lparr>seq_hdr_sent := True\<rparr>) w2)"
        by (subst takes_in_track [OF w2(1)]) auto
      have w3: "takes_in s0 name t0 i True w3 \<and> rs w3 i sid = (rs w i sid)\<lparr>rs_key_pending := False\<rparr>
        \<and> mgr w3 = media now (if sent \<or> lt_codec_config t0 = [] then [] else [flv_packet s0 ?v ?ts True ?v (lt_codec_config t0)]) (mgr w)"
        using w2 w2' Emit_takes_in [OF w2', of now ?v ?ts True ?v "lt_codec_config t0" sid]
        by (cases sent; cases "lt_codec_config t0 = []") (simp_all add: w3_def EmitFlvSeqHdr_def)
      let ?w4 = "EmitFlvFrame now i name ?v ?ts False (?v \<and> ?key) (drop off body) w3"
      have "OnMediaFrame now i sid body w = Inr (deliver_frame now i sid name t us (drop off body) w1)"
        using on Some u False by (simp add: OnMediaFrame_def the_lite_def w1_def)
      moreover have "deliver_frame now i sid name t us (drop off body) w1 = ?w4"
        using cl s(4,5,7) w1(2) key by (simp add: deliver_frame_def Let_def w2_def [symmetric] w3_def)
      moreover have "takes_in s0 name t0 i True ?w4 \<and> rs ?w4 i sid = (rs w i sid)\<lparr>rs_key_pending := False\<rparr>
        \<and> mgr ?w4 = take_in now (flv_packet s0 ?v ?ts False (?v \<and> ?key) (drop off body)) (mgr w3)"
        using Emit_takes_in [of s0 name t0 i True w3 now ?v ?ts False "?v \<and> ?key" "drop off body" sid] w3 by simp
      ultimately show ?thesis using w3 Some u False
        by (intro exI [of _ ?w4] exI [of _ True] exI [of _ False]) (simp add: Let_def)
    qed
  qed
qed

section \<open>The frames of a group\<close>

text \<open>The complete messages at the front of the octets, and what is left.\<close>

function messages :: "octets \<Rightarrow> (u64 \<times> octets) list \<times> octets" where
  "messages b = (case next_message b of
     MessageAt v body rest \<Rightarrow> (case messages rest of (ms, r) \<Rightarrow> ((v, body) # ms, r)) | _ \<Rightarrow> ([], b))"
  by auto
termination
by (relation "measure length") (auto dest: next_message_shorter)

declare messages.simps [simp del]

lemma messages_step: "next_message b = MessageAt v body rest \<Longrightarrow> messages b = ((v, body) # fst (messages rest), snd (messages rest))"
  by (subst messages.simps) (simp add: case_prod_beta)

lemma messages_stop: "\<nexists>v body rest. next_message b = MessageAt v body rest \<Longrightarrow> messages b = ([], b)"
  by (subst messages.simps) (auto split: message_at.split)

lemma next_message_record:
  "next_message b = (case next_record b of NoRecord \<Rightarrow> NoMessage | RecordTooLarge \<Rightarrow> MessageTooLarge | RecordAt v x r \<Rightarrow> MessageAt v x r)"
  by (auto simp: next_message_def next_record_def moq_varint_read_eq moq_msg_read_eq split: option.split ml_msg_status.split)

lemma next_message_more:
  "next_message b = MessageAt v body rest \<Longrightarrow> next_message (b @ x) = MessageAt v body (rest @ x)"
  "next_message b = MessageTooLarge \<Longrightarrow> next_message (b @ x) = MessageTooLarge"
  using record_more(1) [of b _ _ _ x] record_more(2) [of b x]
  by (auto simp: next_message_record split: record_at.splits)

text \<open>More octets: the messages so far stay, and the rest is taken apart with what comes.\<close>

lemma messages_more: "messages (b @ x) = (fst (messages b) @ fst (messages (snd (messages b) @ x)), snd (messages (snd (messages b) @ x)))"
proof (induction b rule: messages.induct)
  case (1 b)
  show ?case
  proof (cases "\<exists>v body rest. next_message b = MessageAt v body rest")
    case True
    then obtain v body rest where n: "next_message b = MessageAt v body rest" by blast
    from 1 [OF n] show ?thesis by (simp add: messages_step [OF n] messages_step [OF next_message_more(1) [OF n]])
  qed (simp add: messages_stop)
qed

lemma messages_shrink: "length (snd (messages b)) \<le> length b"
proof (induction b rule: messages.induct)
  case (1 b)
  then show ?case by (cases "next_message b") (fastforce simp: messages_step messages_stop dest: next_message_shorter)+
qed

definition in_time :: "octets \<Rightarrow> bool" where "in_time b \<longleftrightarrow> next_message (snd (messages b)) \<noteq> MessageTooLarge"

lemma in_time_front: "in_time (b @ x) \<Longrightarrow> in_time b"
  using next_message_more(2) [of "snd (messages b)" x] messages_more [of b x] messages_stop [of "snd (messages b) @ x"]
  by (auto simp: in_time_def)

lemma messages_rest: "next_message (snd (messages b)) = MessageTooLarge \<or> next_message (snd (messages b)) = NoMessage"
proof (induction b rule: messages.induct)
  case (1 b)
  then show ?case
    by (cases "next_message b") (auto simp: messages_step messages_stop)
qed

definition loop_state :: "octets \<Rightarrow> bool \<Rightarrow> recv_stream \<Rightarrow> recv_stream \<Rightarrow> bool" where
  "loop_state b key r r1 \<longleftrightarrow> (\<exists>acc ix. r1 = r\<lparr>rs_ts_acc := acc, rs_frame_index := ix, rs_key_pending := key, rs_buf := b\<rparr>)"

lemma frames_taken:
  assumes "takes_in s0 name t0 i sent w" "map_of (subs s0) (rs_sub_id_in_group (rs w i sid)) = Some name" "name \<noteq> kCatalogName"
    "rs_buf (rs w i sid) = b" "in_time b"
  shows "\<exists>w1 sent1 key1. group_frames_loop now i sid b w = Inr (w1, True) \<and> takes_in s0 name t0 i sent1 w1
    \<and> loop_state (snd (messages b)) key1 (rs w i sid) (rs w1 i sid)
    \<and> mgr w1 = media now (flv_of s0 t0 sent (rs_key_pending (rs w i sid)) (fst (messages b))) (mgr w)
    \<and> (\<forall>ms. flv_of s0 t0 sent (rs_key_pending (rs w i sid)) (fst (messages b) @ ms)
          = flv_of s0 t0 sent (rs_key_pending (rs w i sid)) (fst (messages b)) @ flv_of s0 t0 sent1 key1 ms)"
  using assms
proof (induction b arbitrary: w sent rule: messages.induct)
  case (1 b)
  let ?key = "rs_key_pending (rs w i sid)"
  show ?case
  proof (cases "\<exists>v body rest. next_message b = MessageAt v body rest")
    case False
    then have nm: "next_message b = NoMessage" "messages b = ([], b)" using 1 messages_rest [of b] by (auto simp: in_time_def messages_stop)
    have "loop_state b ?key (rs w i sid) (rs w i sid)"
      unfolding loop_state_def using "1.prems"(4) by (intro exI [of _ "rs_ts_acc (rs w i sid)"] exI [of _ "rs_frame_index (rs w i sid)"]) simp
    then show ?thesis using nm "1.prems"(1) by (subst group_frames_loop.simps) (intro exI conjI, auto)
  next
    case True
    then obtain zz body rest where n: "next_message b = MessageAt zz body rest" by blast
    define w0 where "w0 = on_rs i sid (\<lambda>r. r\<lparr>rs_ts_acc := rs_ts_acc r + MlZigzagDecode zz\<rparr>) w"
    have al: "lite w i \<noteq> None" using takes_in_alive [OF "1.prems"(1)] by simp
    have w0: "takes_in s0 name t0 i sent w0" "rs w0 i sid = (rs w i sid)\<lparr>rs_ts_acc := rs_ts_acc (rs w i sid) + MlZigzagDecode zz\<rparr>" "mgr w0 = mgr w"
      using "1.prems"(1) al by (simp_all add: w0_def)
    obtain w1 sent1 key1 where f: "OnMediaFrame now i sid body w0 = Inr w1" "takes_in s0 name t0 i sent1 w1"
      "rs w1 i sid = (rs w0 i sid)\<lparr>rs_key_pending := key1\<rparr>" "mgr w1 = media now (flv_of s0 t0 sent ?key [(0, body)]) (mgr w)"
      "\<And>zz ms. flv_of s0 t0 sent ?key ((zz, body) # ms) = flv_of s0 t0 sent ?key [(zz, body)] @ flv_of s0 t0 sent1 key1 ms"
    proof -
      have "map_of (subs s0) (rs_sub_id_in_group (rs w0 i sid)) = Some name" "rs_key_pending (rs w0 i sid) = ?key"
        using "1.prems"(2) w0(2) by simp_all
      from frame_taken [OF w0(1) this(1) "1.prems"(3) this(2), of now body] show ?thesis using that w0(3) by metis
    qed
    define w2 where "w2 = on_rs i sid (\<lambda>r. r\<lparr>rs_buf := rest, rs_frame_index := rs_frame_index r + 1\<rparr>) w1"
    have w2: "takes_in s0 name t0 i sent1 w2" "rs w2 i sid = (rs w i sid)\<lparr>rs_ts_acc := rs_ts_acc (rs w i sid) + MlZigzagDecode zz,
      rs_key_pending := key1, rs_buf := rest, rs_frame_index := rs_frame_index (rs w i sid) + 1\<rparr>" "mgr w2 = mgr w1"
      using f(2,3) w0(2) takes_in_alive [OF f(2)] by (simp_all add: w2_def)
    have it: "in_time rest" using "1.prems"(5) by (simp add: in_time_def messages_step [OF n])
    have g: "group_frames_loop now i sid b w = group_frames_loop now i sid rest w2"
      using n f(1) by (subst group_frames_loop.simps) (simp add: w0_def [symmetric] w2_def)
    have a: "map_of (subs s0) (rs_sub_id_in_group (rs w2 i sid)) = Some name" "rs_buf (rs w2 i sid) = rest" "rs_key_pending (rs w2 i sid) = key1"
      using "1.prems"(2) w2(2) by simp_all
    have "\<exists>w3 sent3 key3. group_frames_loop now i sid rest w2 = Inr (w3, True) \<and> takes_in s0 name t0 i sent3 w3
      \<and> loop_state (snd (messages rest)) key3 (rs w2 i sid) (rs w3 i sid)
      \<and> mgr w3 = media now (flv_of s0 t0 sent1 key1 (fst (messages rest))) (mgr w1)
      \<and> (\<forall>ms. flv_of s0 t0 sent1 key1 (fst (messages rest) @ ms)
            = flv_of s0 t0 sent1 key1 (fst (messages rest)) @ flv_of s0 t0 sent3 key3 ms)"
      using "1.IH" [OF n w2(1) a(1) "1.prems"(3) a(2) it] unfolding a(3) w2(3) .
    then obtain w3 sent3 key3 where l: "group_frames_loop now i sid rest w2 = Inr (w3, True)" "takes_in s0 name t0 i sent3 w3"
      "loop_state (snd (messages rest)) key3 (rs w2 i sid) (rs w3 i sid)"
      "mgr w3 = media now (flv_of s0 t0 sent1 key1 (fst (messages rest))) (mgr w1)"
      "\<And>ms. flv_of s0 t0 sent1 key1 (fst (messages rest) @ ms)
            = flv_of s0 t0 sent1 key1 (fst (messages rest)) @ flv_of s0 t0 sent3 key3 ms" by blast
    have z: "flv_of s0 t0 sent ?key [(0, body)] = flv_of s0 t0 sent ?key [(zz, body)]" by simp
    have ls: "loop_state (snd (messages b)) key3 (rs w i sid) (rs w3 i sid)"
      using l(3) w2(2) by (auto simp: loop_state_def messages_step [OF n])
    have e: "flv_of s0 t0 sent ?key (fst (messages b) @ ms)
        = flv_of s0 t0 sent ?key [(zz, body)] @ flv_of s0 t0 sent1 key1 (fst (messages rest) @ ms)" for ms
      unfolding messages_step [OF n] fst_conv append_Cons by (rule f(5))
    have m: "mgr w3 = media now (flv_of s0 t0 sent ?key (fst (messages b))) (mgr w)"
      unfolding e [of "[]", unfolded append_Nil2] media_simps l(4) f(4) z ..
    have "\<forall>ms. flv_of s0 t0 sent ?key (fst (messages b) @ ms)
        = flv_of s0 t0 sent ?key (fst (messages b)) @ flv_of s0 t0 sent3 key3 ms"
      by (simp only: e l(5) e [of "[]", unfolded append_Nil2] append_assoc simp_thms)
    then show ?thesis using g l(1,2) ls m by (intro exI [of _ w3] exI [of _ sent3] exI [of _ key3] conjI) simp_all
  qed
qed

section \<open>A group in pieces\<close>

text \<open>The header of a group: with a part of it missing the reader waits, with all of it there it finds the three numbers.\<close>

definition group_msg :: "u64 \<Rightarrow> u64 \<Rightarrow> u64 \<Rightarrow> octets" where
  "group_msg a b e = ml_enc (word_of_nat (length (group_ids a b e))) @ group_ids a b e"

lemma group_ids_small: "length (group_ids a b e) \<le> 24"
  using quic_varint_len_le8 [of a] quic_varint_len_le8 [of b] quic_varint_len_le8 [of e] by (simp add: group_ids_def length_ml_enc)

lemma group_msg_short:
  assumes "k < length (group_msg a b e)"
  shows "MlReadMessage (take k (group_msg a b e)) k 0 = kMlMsgNeedMore"
proof -
  have lt: "length (group_ids a b e) < 2 ^ 62" by (rule le_less_trans [OF group_ids_small]) simp
  have m: "fst (MlBuildMessage [] False 0 (group_ids a b e)) = group_msg a b e"
    using lt by (simp add: MlBuildMessage_eq kMlVarintMax_def group_msg_def)
  have "\<not> 2 ^ 26 < length (group_ids a b e)" using group_ids_small [of a b e] by simp
  then show ?thesis using ml_message_status [OF lt, of k "[]"] assms by (simp add: m Let_def split: if_splits)
qed

lemma group_msg_read:
  assumes "a \<le> kMlVarintMax" "b \<le> kMlVarintMax" "e \<le> kMlVarintMax"
  obtains off n where "MlReadMessage (group_msg a b e @ t) (length (group_msg a b e @ t)) 0 = kMlMsgOk off n"
    "read_varints (group_msg a b e @ t) (off + n) off 3 = Some ([a, b, e], off + n)" "off + n = length (group_msg a b e)"
proof -
  let ?ids = "group_ids a b e" and ?p = "group_msg a b e @ t"
  let ?w = "word_of_nat (length ?ids) :: u64" and ?xs = "[a, b, e]"
  have lt: "length ?ids < 2 ^ 62" by (rule le_less_trans [OF group_ids_small]) simp
  have c: "concat (map ml_enc ?xs) = ?ids" by (simp add: group_ids_def)
  have d: "drop 0 ?p = ml_enc ?w @ ?ids @ t" by (simp add: group_msg_def)
  have m: "MlReadMessage ?p (length ?p) 0 = kMlMsgOk (quic_varint_len ?w) (length ?ids)"
    using group_ids_small [of a b e] by (simp only: MlReadMessage_ml_enc [OF d lt]) simp
  have "read_varints ?p (quic_varint_len ?w + length ?ids) (quic_varint_len ?w) (length ?xs) = Some (?xs, quic_varint_len ?w + length ?ids)"
    unfolding c [symmetric] using assms drop_after_ml_enc [OF d] c
    by (intro read_varints_ml_enc) simp_all
  then have "read_varints ?p (quic_varint_len ?w + length ?ids) (quic_varint_len ?w) 3 = Some (?xs, quic_varint_len ?w + length ?ids)"
    by (simp only: list.size(3,4) One_nat_def add_Suc_right add_0_right numeral_3_eq_3)
  then show ?thesis using m by (intro that [of "quic_varint_len ?w" "length ?ids"]) (simp_all add: group_msg_def length_ml_enc)
qed

text \<open>The record of a group stream, before and after its header.\<close>

definition stream_opening :: "octets \<Rightarrow> recv_stream" where
  "stream_opening q = new_RecvStream\<lparr>rs_typed := True, rs_type := kTypeGroup, rs_buf := q\<rparr>"

definition in_group :: "u64 \<Rightarrow> bool \<Rightarrow> octets \<Rightarrow> recv_stream \<Rightarrow> bool" where
  "in_group a key b r \<longleftrightarrow> rs_typed r \<and> rs_type r = kTypeGroup \<and> rs_buf r = b \<and> rs_group_hdr_done r \<and> rs_sub_id_in_group r = a
     \<and> rs_key_pending r = key \<and> \<not> rs_fin r \<and> \<not> rs_done r \<and> \<not> rs_reset_sent r \<and> \<not> rs_local r"

lemma in_group_loop: "in_group a key b r \<Longrightarrow> loop_state b1 key1 r r1 \<Longrightarrow> in_group a key1 b1 r1"
  by (auto simp: in_group_def loop_state_def)

lemma in_group_more: "in_group a key b r \<Longrightarrow> in_group a key (b @ d) (r\<lparr>rs_buf := rs_buf r @ d\<rparr>)"
  by (simp add: in_group_def)

text \<open>How far the session is after the octets \<open>t\<close> behind the header.\<close>

definition reached :: "int \<Rightarrow> lite_session \<Rightarrow> lite_track \<Rightarrow> bool \<Rightarrow> bool \<Rightarrow> player manager \<Rightarrow> octets \<Rightarrow> bool \<Rightarrow> bool \<Rightarrow> player manager \<Rightarrow> bool" where
  "reached now s0 t0 sent0 key0 m0 t sent1 key1 m \<longleftrightarrow> m = media now (flv_of s0 t0 sent0 key0 (fst (messages t))) m0
     \<and> (\<forall>ms. flv_of s0 t0 sent0 key0 (fst (messages t) @ ms) = flv_of s0 t0 sent0 key0 (fst (messages t)) @ flv_of s0 t0 sent1 key1 ms)"

lemma messages_Nil [simp]: "messages [] = ([], [])"
  by (rule messages_stop) (simp add: next_message_def MlReadVarint_def)

lemma reached_start: "reached now s0 t0 sent0 key0 m [] sent0 key0 m"
  by (simp add: reached_def)

lemma group_goes_on:
  assumes "takes_in s0 name t0 i sent w" "in_group a key (snd (messages t) @ d) (rs w i sid)" "map_of (subs s0) a = Some name" "name \<noteq> kCatalogName"
    "in_time (t @ d)" "reached now s0 t0 sent0 key0 m0 t sent key (mgr w)"
  shows "\<exists>w1 sent1 key1. group_body now i sid w = Inr w1 \<and> takes_in s0 name t0 i sent1 w1
    \<and> in_group a key1 (snd (messages (t @ d))) (rs w1 i sid) \<and> reached now s0 t0 sent0 key0 m0 (t @ d) sent1 key1 (mgr w1)"
proof -
  let ?b = "snd (messages t) @ d"
  note r = assms(2) [unfolded in_group_def]
  have "in_time ?b" using assms(5) messages_more [of t d] by (simp add: in_time_def)
  moreover have "map_of (subs s0) (rs_sub_id_in_group (rs w i sid)) = Some name" "rs_buf (rs w i sid) = ?b" "rs_key_pending (rs w i sid) = key"
    using assms(3) r by simp_all
  ultimately obtain w1 sent1 key1 where l: "group_frames_loop now i sid ?b w = Inr (w1, True)" "takes_in s0 name t0 i sent1 w1"
    "loop_state (snd (messages ?b)) key1 (rs w i sid) (rs w1 i sid)"
    "mgr w1 = media now (flv_of s0 t0 sent key (fst (messages ?b))) (mgr w)"
    "\<forall>ms. flv_of s0 t0 sent key (fst (messages ?b) @ ms) = flv_of s0 t0 sent key (fst (messages ?b)) @ flv_of s0 t0 sent1 key1 ms"
    using frames_taken [OF assms(1) _ assms(4), of sid ?b now] by blast
  have m: "fst (messages (t @ d)) = fst (messages t) @ fst (messages ?b)" "snd (messages (t @ d)) = snd (messages ?b)"
    by (simp_all add: messages_more [of t d])
  have g: "in_group a key1 (snd (messages (t @ d))) (rs w1 i sid)" using in_group_loop [OF assms(2) l(3)] by (simp add: m)
  have "reached now s0 t0 sent0 key0 m0 (t @ d) sent1 key1 (mgr w1)"
    using assms(6) l(4,5) by (simp add: reached_def m)
  moreover have "group_body now i sid w = Inr w1"
    using l(1) r g by (simp add: group_body_def in_group_def)
  ultimately show ?thesis using l(2) g by blast
qed

lemma typed_group:
  assumes "uni_stream sid" "\<not> rs_local (rs w i sid)" "rs_type (rs w i sid) = kTypeGroup"
  shows "Parse_typed now i sid w = (case ParseGroupStream now i sid w of Inl e \<Rightarrow> Inl e
    | Inr w1 \<Rightarrow> Inr (if rs_done (rs w1 i sid) then on_rs i sid (\<lambda>r. r\<lparr>rs_buf := []\<rparr>) w1 else w1))"
  using assms by (simp add: Parse_typed_def parse_by_type_def Let_def kTypeGroup_def kTypeSetup_def)

lemma stream_opening_simps [simp]:
  "rs_typed (stream_opening q)" "rs_type (stream_opening q) = kTypeGroup" "rs_buf (stream_opening q) = q" "\<not> rs_done (stream_opening q)"
  "\<not> rs_fin (stream_opening q)" "\<not> rs_group_hdr_done (stream_opening q)" "\<not> rs_local (stream_opening q)" "\<not> rs_reset_sent (stream_opening q)"
  by (simp_all add: stream_opening_def new_RecvStream_def)

lemma group_opens_short:
  assumes "takes_in s0 name t0 i sent w" "uni_stream sid" "rs w i sid = stream_opening (take k (group_msg a b e))" "k < length (group_msg a b e)"
  shows "Parse_typed now i sid w = Inr w"
  using assms(2-) group_msg_short [OF assms(4)] by (simp add: typed_group ParseGroupStream_def Let_def min_def)

lemma group_opens_full:
  assumes "takes_in s0 name t0 i sent0 w" "uni_stream sid" "rs w i sid = stream_opening (group_msg a b e @ t)" "in_time t"
    "a \<le> kMlVarintMax" "b \<le> kMlVarintMax" "e \<le> kMlVarintMax" "map_of (subs s0) a = Some name" "name \<noteq> kCatalogName"
  shows "\<exists>w1 sent1 key1. Parse_typed now i sid w = Inr w1 \<and> takes_in s0 name t0 i sent1 w1
    \<and> in_group a key1 (snd (messages t)) (rs w1 i sid) \<and> reached now s0 t0 sent0 (e = 0) (mgr w) t sent1 key1 (mgr w1)"
proof -
  obtain off n where h: "MlReadMessage (group_msg a b e @ t) (length (group_msg a b e @ t)) 0 = kMlMsgOk off n"
    "read_varints (group_msg a b e @ t) (off + n) off 3 = Some ([a, b, e], off + n)" "off + n = length (group_msg a b e)"
    using group_msg_read [OF assms(5-7)] .
  define w0 where "w0 = on_rs i sid (group_started a b e t) w"
  define w1 where "w1 = on_lite_track i name (\<lambda>t. t\<lparr>lt_groups := lt_groups t + 1\<rparr>) w0"
  have al: "lite w i \<noteq> None" using takes_in_alive [OF assms(1)] by simp
  have w0: "takes_in s0 name t0 i sent0 w0" "rs w0 i sid = group_started a b e t (stream_opening (group_msg a b e @ t))" "mgr w0 = mgr w"
    using assms(1,3) al by (simp_all add: w0_def)
  have w1: "takes_in s0 name t0 i sent0 w1" "rs w1 i sid = rs w0 i sid" "mgr w1 = mgr w"
    using w0 by (simp_all add: w1_def) (subst takes_in_track [OF w0(1)]; auto simp: takes_in_def)
  have "in_group a (e = 0) (snd (messages []) @ t) (rs w1 i sid)"
    using w0(2) w1(2) by (simp add: in_group_def group_started_def)
  moreover have "in_time ([] @ t)" using assms(4) by simp
  ultimately have "\<exists>w2 sent2 key2. group_body now i sid w1 = Inr w2 \<and> takes_in s0 name t0 i sent2 w2
      \<and> in_group a key2 (snd (messages ([] @ t))) (rs w2 i sid) \<and> reached now s0 t0 sent0 (e = 0) (mgr w1) ([] @ t) sent2 key2 (mgr w2)"
    using group_goes_on [OF w1(1) _ assms(8,9) _ reached_start] by blast
  then obtain w2 sent2 key2
    where g: "group_body now i sid w1 = Inr w2" "takes_in s0 name t0 i sent2 w2" "in_group a key2 (snd (messages t)) (rs w2 i sid)"
      "reached now s0 t0 sent0 (e = 0) (mgr w) t sent2 key2 (mgr w2)" by (auto simp: w1(3))
  have "the_lite None (\<lambda>s. map_of (subs s) a) w i = Some name"
    using assms(1,8) by (auto simp: takes_in_def the_lite_def core_def)
  then have "ParseGroupStream now i sid w = group_body now i sid w1"
    using h assms(3,9) by (simp add: ParseGroupStream_def Let_def w1_def w0_def)
  then have "Parse_typed now i sid w = Inr w2"
    using assms(2,3) g(1,3) by (simp add: typed_group in_group_def)
  then show ?thesis using g by blast
qed

lemma group_stays_open:
  assumes "takes_in s0 name t0 i sent w" "uni_stream sid" "in_group a key (snd (messages t) @ d) (rs w i sid)" "map_of (subs s0) a = Some name"
    "name \<noteq> kCatalogName" "in_time (t @ d)" "reached now s0 t0 sent0 key0 m0 t sent key (mgr w)"
  shows "\<exists>w1 sent1 key1. Parse_typed now i sid w = Inr w1 \<and> takes_in s0 name t0 i sent1 w1
    \<and> in_group a key1 (snd (messages (t @ d))) (rs w1 i sid) \<and> reached now s0 t0 sent0 key0 m0 (t @ d) sent1 key1 (mgr w1)"
proof -
  obtain w1 sent1 key1 where g: "group_body now i sid w = Inr w1" "takes_in s0 name t0 i sent1 w1"
    "in_group a key1 (snd (messages (t @ d))) (rs w1 i sid)" "reached now s0 t0 sent0 key0 m0 (t @ d) sent1 key1 (mgr w1)"
    using group_goes_on [OF assms(1,3-7)] by blast
  have "ParseGroupStream now i sid w = Inr w1" using assms(3) g(1) by (simp add: ParseGroupStream_def in_group_def Let_def)
  then have "Parse_typed now i sid w = Inr w1" using assms(2,3) g(3) by (simp add: typed_group in_group_def)
  then show ?thesis using g by blast
qed

text \<open>Where the session is after the octets \<open>p\<close> of a group stream.\<close>

definition group_stage :: "int \<Rightarrow> lite_session \<Rightarrow> string \<Rightarrow> lite_track \<Rightarrow> nat \<Rightarrow> nat \<Rightarrow> bool \<Rightarrow> u64 \<Rightarrow> u64 \<Rightarrow> u64 \<Rightarrow> player manager \<Rightarrow> octets \<Rightarrow> lite_world \<Rightarrow> bool" where
  "group_stage now s0 name t0 i sid sent0 a b e m0 p w \<longleftrightarrow>
     (p = [] \<and> takes_in s0 name t0 i sent0 w \<and> rs w i sid = new_RecvStream \<and> mgr w = m0)
     \<or> (\<exists>k<length (group_msg a b e). p = 0 # take k (group_msg a b e) \<and> takes_in s0 name t0 i sent0 w
          \<and> rs w i sid = stream_opening (take k (group_msg a b e)) \<and> mgr w = m0)
     \<or> (\<exists>t sent key. p = 0 # group_msg a b e @ t \<and> takes_in s0 name t0 i sent w \<and> in_group a key (snd (messages t)) (rs w i sid)
          \<and> reached now s0 t0 sent0 (e = 0) m0 t sent key (mgr w))"

lemma data_comes:
  assumes "takes_in s0 name t0 i sent w" "\<not> rs_reset_sent (rs w i sid)" "length (rs_buf (rs w i sid) @ d) \<le> kMaxRecvBuf"
    "\<not> rs_fin (rs w i sid)"
  obtains w1 where "HandleStreamData now i sid d False w = Parse now i sid w1" "takes_in s0 name t0 i sent w1"
    "rs w1 i sid = (rs w i sid)\<lparr>rs_buf := rs_buf (rs w i sid) @ d\<rparr>" "mgr w1 = mgr w"
proof -
  define w1 where "w1 = on_rs i sid (\<lambda>r. r\<lparr>rs_buf := rs_buf r @ d, rs_fin := rs_fin r \<or> False\<rparr>) (on_rs i sid id w)"
  have al: "lite w i \<noteq> None" "\<not> is_dead w i" using takes_in_alive [OF assms(1)] by auto
  then have al1: "lite (on_rs i sid id w) i \<noteq> None" by (simp add: on_rs_def)
  have r: "rs w1 i sid = (rs w i sid)\<lparr>rs_buf := rs_buf (rs w i sid) @ d\<rparr>"
    using al al1 assms(4) by (simp add: w1_def)
  have "HandleStreamData now i sid d False w = Parse now i sid w1"
    using al assms(2,3) r by (simp add: HandleStreamData_def Let_def w1_def)
  then show ?thesis using that [of w1] assms(1) r by (simp add: w1_def)
qed

lemma type_read: "MlReadVarint (0 # q) (length (0 # q)) 0 = Some (kTypeGroup, 1)"
  using MlReadVarint_ml_enc [of 0 "0 # q" 0 q "length (0 # q)"]
  by (simp add: kTypeGroup_def ml_enc_def quic_varint_encode_Some quic_varint_len_def kMlVarintMax_def)

lemma stage_opening:
  assumes "takes_in s0 name t0 i sent0 w" "rs w i sid = stream_opening q" "q @ x = group_msg a b e @ t" "uni_stream sid" "in_time t"
    "a \<le> kMlVarintMax" "b \<le> kMlVarintMax" "e \<le> kMlVarintMax" "map_of (subs s0) a = Some name" "name \<noteq> kCatalogName"
  shows "\<exists>w1. Parse_typed now i sid w = Inr w1 \<and> group_stage now s0 name t0 i sid sent0 a b e (mgr w) (0 # q) w1"
proof (cases "length q < length (group_msg a b e)")
  case True
  then have "q = take (length q) (group_msg a b e)" using arg_cong [OF assms(3), of "take (length q)"] by simp
  then obtain k where k: "k < length (group_msg a b e)" "q = take k (group_msg a b e)" using True by blast
  have "Parse_typed now i sid w = Inr w" using group_opens_short [OF assms(1,4) _ k(1)] assms(2) k(2) by simp
  then show ?thesis using k assms(1,2) by (auto simp: group_stage_def)
next
  case False
  then have "take (length (group_msg a b e)) q = group_msg a b e"
    using arg_cong [OF assms(3), of "take (length (group_msg a b e))"] by simp
  then have q: "q = group_msg a b e @ drop (length (group_msg a b e)) q" by (metis append_take_drop_id)
  then obtain t1 where q: "q = group_msg a b e @ t1" "t1 @ x = t"
    using assms(3) by (metis append.assoc same_append_eq)
  have "in_time t1" using assms(5) q(2) in_time_front by blast
  from group_opens_full [OF assms(1,4) _ this assms(6-10)] assms(2) q(1) obtain w1 sent1 key1
    where "Parse_typed now i sid w = Inr w1" "takes_in s0 name t0 i sent1 w1" "in_group a key1 (snd (messages t1)) (rs w1 i sid)"
      "reached now s0 t0 sent0 (e = 0) (mgr w) t1 sent1 key1 (mgr w1)" by blast
  then show ?thesis unfolding group_stage_def q(1) by blast
qed

lemma stage_step:
  assumes "group_stage now s0 name t0 i sid sent0 a b e m0 p w" "p @ d @ x = 0 # group_msg a b e @ t" "uni_stream sid" "in_time t"
    "a \<le> kMlVarintMax" "b \<le> kMlVarintMax" "e \<le> kMlVarintMax" "map_of (subs s0) a = Some name" "name \<noteq> kCatalogName"
    "length (0 # group_msg a b e @ t) \<le> kMaxRecvBuf"
  shows "\<exists>w1. HandleStreamData now i sid d False w = Inr w1 \<and> group_stage now s0 name t0 i sid sent0 a b e m0 (p @ d) w1"
proof -
  have len: "length p + length d \<le> kMaxRecvBuf" using arg_cong [OF assms(2), of length] assms(10) by simp
  consider (fresh) "p = []" "takes_in s0 name t0 i sent0 w" "rs w i sid = new_RecvStream" "mgr w = m0"
    | (start) k where "k < length (group_msg a b e)" "p = 0 # take k (group_msg a b e)" "takes_in s0 name t0 i sent0 w"
        "rs w i sid = stream_opening (take k (group_msg a b e))" "mgr w = m0"
    | (body) t1 sent key where "p = 0 # group_msg a b e @ t1" "takes_in s0 name t0 i sent w" "in_group a key (snd (messages t1)) (rs w i sid)"
        "reached now s0 t0 sent0 (e = 0) m0 t1 sent key (mgr w)"
    using assms(1) by (auto simp: group_stage_def)
  then show ?thesis
  proof cases
    case fresh
    obtain w1 where w1: "HandleStreamData now i sid d False w = Parse now i sid w1" "takes_in s0 name t0 i sent0 w1"
      "rs w1 i sid = (rs w i sid)\<lparr>rs_buf := rs_buf (rs w i sid) @ d\<rparr>" "mgr w1 = mgr w"
      using data_comes [OF fresh(2), of sid d now] fresh(1,3) len by (auto simp: new_RecvStream_def)
    have r: "rs w1 i sid = new_RecvStream\<lparr>rs_buf := d\<rparr>" using w1(3) fresh(3) by (simp add: new_RecvStream_def)
    show ?thesis
    proof (cases d)
      case Nil
      have "Parse now i sid w1 = Inr w1" using r Nil by (simp add: Parse_def new_RecvStream_def MlReadVarint_def)
      then show ?thesis using w1 fresh Nil r by (auto simp: group_stage_def new_RecvStream_def)
    next
      case (Cons c q)
      have c: "c = 0" "q @ x = group_msg a b e @ t" using assms(2) fresh(1) Cons by auto
      define w2 where "w2 = on_rs i sid (\<lambda>r. r\<lparr>rs_type := kTypeGroup, rs_typed := True, rs_buf := drop 1 (rs_buf r)\<rparr>) w1"
      have al: "lite w1 i \<noteq> None" using takes_in_alive [OF w1(2)] by simp
      have w2: "takes_in s0 name t0 i sent0 w2" "rs w2 i sid = stream_opening q" "mgr w2 = m0"
        using w1(2,4) r al fresh(4) Cons by (simp_all add: w2_def stream_opening_def new_RecvStream_def)
      have seen: "OnStreamTypeSeen i sid w2 = w2"
        using w2(2) assms(3) by (simp add: OnStreamTypeSeen_def known_type_def Let_def kTypeGroup_def kTypeSetup_def)
      have d: "rs_buf (rs w1 i sid) = 0 # q" "\<not> rs_typed (rs w1 i sid)" using r Cons c by (simp_all add: new_RecvStream_def)
      have "Parse now i sid w1 = Parse_typed now i sid w2"
        using seen w2(2) d takes_in_alive [OF w2(1)] type_read [of q]
        by (simp add: Parse_def Let_def w2_def)
      with stage_opening [OF w2(1,2) c(2) assms(3-9), of now] w1(1) w2(3) fresh(1) Cons c(1) show ?thesis by simp
    qed
  next
    case start
    obtain w1 where w1: "HandleStreamData now i sid d False w = Parse now i sid w1" "takes_in s0 name t0 i sent0 w1"
      "rs w1 i sid = (rs w i sid)\<lparr>rs_buf := rs_buf (rs w i sid) @ d\<rparr>" "mgr w1 = mgr w"
      using data_comes [OF start(3), of sid d now] start(2,4) len by auto
    have r: "rs w1 i sid = stream_opening (take k (group_msg a b e) @ d)" using w1(3) start(4) by (simp add: stream_opening_def)
    have q: "(take k (group_msg a b e) @ d) @ x = group_msg a b e @ t" using assms(2) start(2) by simp
    have "Parse now i sid w1 = Parse_typed now i sid w1" using r by (simp add: Parse_def)
    with stage_opening [OF w1(2) r q assms(3-9), of now] w1(1,4) start(2,5) show ?thesis by simp
  next
    case body
    have r: "\<not> rs_reset_sent (rs w i sid)" "\<not> rs_fin (rs w i sid)" "rs_buf (rs w i sid) = snd (messages t1)"
      using body(3) by (simp_all add: in_group_def)
    have "length (snd (messages t1)) \<le> length t1" by (rule messages_shrink)
    then obtain w1 where w1: "HandleStreamData now i sid d False w = Parse now i sid w1" "takes_in s0 name t0 i sent w1"
      "rs w1 i sid = (rs w i sid)\<lparr>rs_buf := rs_buf (rs w i sid) @ d\<rparr>" "mgr w1 = mgr w"
      using data_comes [OF body(2) r(1) _ r(2), of d now] r(3) len body(1) by auto
    have g: "in_group a key (snd (messages t1) @ d) (rs w1 i sid)" using in_group_more [OF body(3), of d] by (simp only: w1(3))
    have "(t1 @ d) @ x = t" using assms(2) body(1) by simp
    then have it: "in_time (t1 @ d)" using assms(4) in_time_front by blast
    have "Parse now i sid w1 = Parse_typed now i sid w1" using g by (simp add: Parse_def in_group_def)
    with group_stays_open [OF w1(2) assms(3) g assms(8,9) it] body(4) w1(1,4) body(1) show ?thesis
      unfolding group_stage_def by (metis append_Cons append_assoc)
  qed
qed

section \<open>What the manager gets\<close>

fun receive_pieces :: "int \<Rightarrow> nat \<Rightarrow> nat \<Rightarrow> octets list \<Rightarrow> lite_world \<Rightarrow> fault + lite_world" where
  "receive_pieces now i sid [] w = Inr w"
| "receive_pieces now i sid (d # ds) w =
     (case HandleStreamData now i sid d False w of Inl e \<Rightarrow> Inl e | Inr w1 \<Rightarrow> receive_pieces now i sid ds w1)"

lemma stage_pieces:
  assumes "group_stage now s0 name t0 i sid sent0 a b e m0 p w" "p @ concat ds = 0 # group_msg a b e @ t" "uni_stream sid" "in_time t"
    "a \<le> kMlVarintMax" "b \<le> kMlVarintMax" "e \<le> kMlVarintMax" "map_of (subs s0) a = Some name" "name \<noteq> kCatalogName"
    "length (0 # group_msg a b e @ t) \<le> kMaxRecvBuf"
  shows "\<exists>w1. receive_pieces now i sid ds w = Inr w1 \<and> group_stage now s0 name t0 i sid sent0 a b e m0 (p @ concat ds) w1"
  using assms(1,2)
proof (induction ds arbitrary: p w)
  case (Cons d ds)
  have "p @ d @ concat ds = 0 # group_msg a b e @ t" using Cons.prems(2) by simp
  from stage_step [OF Cons.prems(1) this assms(3-)] obtain w1 where w1: "HandleStreamData now i sid d False w = Inr w1"
    "group_stage now s0 name t0 i sid sent0 a b e m0 (p @ d) w1" by blast
  with Cons.IH [OF w1(2)] Cons.prems(2) show ?case by simp
qed simp

lemma frames_messages:
  assumes "frames_text fs = Some t" "\<forall>(d, x)\<in>set fs. length x \<le> 2 ^ 26"
  shows "messages t = (map (\<lambda>(d, x). (zz_word d, x)) fs, [])"
  using assms
proof (induction fs arbitrary: t)
  case (Cons f fs)
  obtain d x where f: "f = (d, x)" by (cases f)
  then obtain seg r where s: "MlAppendFrame [] d x = (seg, True)" "frames_text fs = Some r" "t = seg @ r"
    using Cons.prems(1) by (auto split: prod.splits bool.splits)
  have "next_message t = MessageAt (zz_word d) x r"
    using append_frame_Some(1) [OF s(1), of r] Cons.prems(2) f s(3) by (simp add: next_message_record)
  then show ?case using Cons.IH [OF s(2)] Cons.prems(2) f by (simp add: messages_step)
qed simp

lemma flv_of_bodies: "flv_of s t sent key (map (\<lambda>(d, x). (g d, x)) fs) = flv_of s t sent key fs"
  by (induction s t sent key fs rule: flv_of.induct) (auto simp: Let_def split: option.split)

text \<open>
  C11. A group of a subscribed track, cut into any pieces: the session that owns the stream hands the manager exactly the
  FLV packets of its frames, in order: first the sequence header, unless it was sent, then one packet per frame that holds
  a timestamp and something behind it, marked as key frame only when it opens a video group that starts at its first frame.
\<close>

theorem group_reaches_manager:
  assumes "takes_in s0 name t0 i sent w" "rs w i sid = new_RecvStream" "uni_stream sid"
    and "map_of (subs s0) a = Some name" "name \<noteq> kCatalogName"
    and "MlBuildGroupHeader (MlAppendVarint [] 0) a b e = (hdr, True)" "frames_text fs = Some t" "\<forall>(d, x)\<in>set fs. length x \<le> 2 ^ 26"
    and "concat ds = hdr @ t" "length (hdr @ t) \<le> kMaxRecvBuf"
  shows "\<exists>w1. receive_pieces now i sid ds w = Inr w1
    \<and> mgr w1 = mgr (foldl (\<lambda>w p. write_media now p w) w (flv_of s0 t0 sent (e = 0) fs))"
proof -
  note h = group_head_built [OF assms(6)]
  have hdr: "hdr = 0 # group_msg a b e" using h(1) by (simp add: group_msg_def)
  note ms = frames_messages [OF assms(7,8)]
  have it: "in_time t" by (simp add: in_time_def ms next_message_def MlReadVarint_def)
  have "group_stage now s0 name t0 i sid sent a b e (mgr w) [] w" using assms(1,2) by (simp add: group_stage_def)
  from stage_pieces [OF this _ assms(3) it h(2-4) assms(4,5)] obtain w1
    where w1: "receive_pieces now i sid ds w = Inr w1" "group_stage now s0 name t0 i sid sent a b e (mgr w) (0 # group_msg a b e @ t) w1"
    using assms(9,10) hdr by force
  have "mgr w1 = media now (flv_of s0 t0 sent (e = 0) (fst (messages t))) (mgr w)"
    using w1(2) by (auto simp: group_stage_def reached_def dest: arg_cong [of _ _ length])
  then show ?thesis using w1(1) by (simp add: media_mgr ms flv_of_bodies)
qed

text \<open>One session that publishes one video track.\<close>

definition example_track :: lite_track where
  "example_track = new_MoqLiteTrack\<lparr>lt_name := ''v'', lt_kind := ''video'', lt_codec_config := [1, 2], lt_subscribe_id := 1, m3_usable := True\<rparr>"

definition example_lite :: lite_session where
  "example_lite = (new_MoqLiteSession example_ctx 1 ''p'')\<lparr>subs := [(1, ''v'')], tracks := [(''v'', example_track)], ls_stream_key := ''a/s'',
     stream_app := ''a'', stream_name := ''s'', owner_id := ''o'', stream_claimed := True\<rparr>"

definition example_world :: lite_world where
  "example_world = \<lparr>mgr = \<lparr>streams = [(''a/s'', new_MediaStream\<lparr>publisher_exist := True, publisher_id := ''o'', stream_key := ''a/s''\<rparr>)],
       cb_vec = [], catalog_updated_cbs = [], hls_writer = None, r2r_writer = None, play_cb = False,
       heap = (\<lambda>_. \<lparr>pl_key = [], pl_id = [], pl_init = False, pl_box = []\<rparr>), events = []\<rparr>,
     sessions = [Some example_lite], next_ptr = 0, paths = [''a''], default_path = ''a'', remote_wires = None, missing = (\<lambda>_ _. False),
     deferred_ms = 3000, parse_json = (\<lambda>_. None)\<rparr>"

lemma example_world_facts:
  "takes_in example_lite ''v'' example_track 0 False example_world" "rs example_world 0 3 = new_RecvStream" "uni_stream 3"
  by (simp_all add: takes_in_def example_world_def example_lite_def example_track_def lite_def rs_def the_lite_def uni_stream_def
      new_MoqLiteTrack_def new_MoqLiteSession_def IsPublisherOwner_def find_stream_def)

theorem group_reaches_manager_witness:
  "\<exists>w1. receive_pieces 5 0 3 [[0, 3], [1, 7, 0, 0], [2, 5, 9]] example_world = Inr w1
    \<and> mgr w1 = mgr (foldl (\<lambda>w p. write_media 5 p w) example_world
        [flv_packet example_lite True 0 True True [1, 2], flv_packet example_lite True 0 False True [9]])"
proof -
  have hdr: "MlBuildGroupHeader (MlAppendVarint [] 0) 1 7 0 = ([0, 3, 1, 7, 0], True)" by code_simp
  have "MlAppendFrame [] 0 [5, 9] = ([0, 2, 5, 9], True)" by code_simp
  then have t: "frames_text [(0, [5, 9])] = Some [0, 2, 5, 9]" by simp
  have "MlReadVarint [5, 9] (Suc (Suc 0)) 0 = Some (5, Suc 0)" by code_simp
  then have f: "flv_of example_lite example_track False True [(0, [5, 9])]
      = [flv_packet example_lite True 0 True True [1, 2], flv_packet example_lite True 0 False True [9]]"
    by (simp add: example_track_def)
  have n: "map_of (subs example_lite) 1 = Some ''v''" "''v'' \<noteq> kCatalogName" by (simp_all add: example_lite_def kCatalogName_def)
  have "\<forall>(d, x)\<in>set [(0 :: u64, [5 :: byte, 9])]. length x \<le> 2 ^ 26" "concat [[0, 3], [1, 7, 0, 0], [2, 5, 9]] = [0, 3, 1, 7, 0] @ [0, 2, 5, 9 :: byte]"
    "length ([0, 3, 1, 7, 0] @ [0, 2, 5, 9 :: byte]) \<le> kMaxRecvBuf" by (simp_all add: kMaxRecvBuf_def)
  from group_reaches_manager [OF example_world_facts n hdr t this, of 5] show ?thesis by (simp only: f simp_thms)
qed

end
