(* ===== verification/Moq_Lite_Superseded.thy ===== *)
theory Moq_Lite_Superseded
  imports Moq_Lite_Server_Facts
begin

text \<open>
  The publisher that lost its stream to another one. Whatever comes on its group streams, headers, frames of media tracks
  and catalogues, goes through the same code as before; what it reaches is the session itself, never the manager or another session.
\<close>

section \<open>What a session may do to itself\<close>

definition superseded :: "nat \<Rightarrow> lite_world \<Rightarrow> bool" where
  "superseded i w \<longleftrightarrow> the_lite False (\<lambda>s. stream_claimed s \<and> \<not> IsPublisherOwner (mgr w) (ls_stream_key s) (owner_id s)) w i"

definition owner_tag :: "lite_session \<Rightarrow> string \<times> string \<times> bool" where
  "owner_tag s = (ls_stream_key s, owner_id s, stream_claimed s)"

text \<open>
  Nothing happened outside session \<open>i\<close>, and it is the same publisher as before; with \<open>c\<close> it also has the same subscriptions.
\<close>

definition silent :: "bool \<Rightarrow> nat \<Rightarrow> lite_world \<Rightarrow> lite_world \<Rightarrow> bool" where
  "silent c i w w1 \<longleftrightarrow> mgr w1 = mgr w \<and> (\<forall>j. j \<noteq> i \<longrightarrow> lite w1 j = lite w j)
     \<and> map_option owner_tag (lite w1 i) = map_option owner_tag (lite w i)
     \<and> (c \<longrightarrow> map_option subs (lite w1 i) = map_option subs (lite w i))"

lemma silent_refl [simp]: "silent c i w w"
  by (simp add: silent_def)

lemma silent_trans [trans]: "silent c i w w1 \<Longrightarrow> silent c i w1 w2 \<Longrightarrow> silent c i w w2"
  by (simp add: silent_def)

lemma silent_on_lite:
  assumes "\<And>s. owner_tag (f s) = owner_tag s" "\<And>s. c \<Longrightarrow> subs (f s) = subs s"
  shows "silent c i w (on_lite i f w)"
  using assms by (cases "lite w i") (simp_all add: silent_def)

lemma silent_parts [simp]:
  "silent c i w (on_rs i sid f w)" "silent c i w (on_lite_track i name g w)" "silent c i w (finish i sid w)"
  "silent c i w (fst (on_conn i h d w))"
  unfolding on_rs_def on_lite_track_def finish_def on_conn_def
  by (auto intro!: silent_on_lite simp: owner_tag_def split: option.split prod.split)

lemma silent_send: "send i sid d fin w = (w1, r) \<Longrightarrow> silent c i w w1"
  using silent_parts(4) [of c i w] by (metis fst_conv send_def)

lemma silent_reset [simp]: "silent c i w (reset_quic i sid ec w)" "silent c i w (ResetStream i sid ec w)"
proof -
  show "silent c i v (reset_quic i sid ec v)" for v by (simp add: reset_quic_def)
  then show "silent c i w (ResetStream i sid ec w)" unfolding ResetStream_def by (rule silent_trans [OF silent_parts(1)])
qed

lemma superseded_alive: "superseded i w \<Longrightarrow> lite w i \<noteq> None"
  by (cases "lite w i") (simp_all add: superseded_def the_lite_def)

lemma superseded_silent: "silent c i w w1 \<Longrightarrow> superseded i w \<Longrightarrow> superseded i w1"
  by (cases "lite w i"; cases "lite w1 i") (auto simp: silent_def superseded_def the_lite_def owner_tag_def)

text \<open>A session that never subscribed a catalogue, and the flag that goes with it.\<close>

definition no_catalog :: "nat \<Rightarrow> lite_world \<Rightarrow> bool" where
  "no_catalog i w \<longleftrightarrow> kCatalogName \<notin> ran (map_of (the_lite [] subs w i))"

lemma no_catalog_silent: "silent True i w w1 \<Longrightarrow> no_catalog i w \<Longrightarrow> no_catalog i w1"
  by (cases "lite w i"; cases "lite w1 i") (auto simp: silent_def no_catalog_def the_lite_def)

text \<open>
  What every step of the session's parser does to a superseded session: it is silent, or, when it subscribed a catalogue,
  the exception of the JSON library leaves it. The contract composes like the code does.
\<close>

definition harmless :: "bool \<Rightarrow> nat \<Rightarrow> lite_world \<Rightarrow> fault + lite_world \<Rightarrow> bool" where
  "harmless c i w x \<longleftrightarrow> (case x of Inr w1 \<Rightarrow> silent c i w w1 | Inl e \<Rightarrow> e = UncaughtException \<and> \<not> c)"

definition lost :: "bool \<Rightarrow> nat \<Rightarrow> lite_world \<Rightarrow> bool" where
  "lost c i w \<longleftrightarrow> superseded i w \<and> (c \<longrightarrow> no_catalog i w)"

lemma lost_silent: "silent c i w w1 \<Longrightarrow> lost c i w \<Longrightarrow> lost c i w1"
  using superseded_silent no_catalog_silent by (cases c) (auto simp: lost_def)

lemma harmless_simps [simp]: "harmless c i w (Inr w1) = silent c i w w1" "harmless c i w (Inl e) = (e = UncaughtException \<and> \<not> c)"
  by (simp_all add: harmless_def)

lemma harmless_after: "silent c i w w1 \<Longrightarrow> harmless c i w1 x \<Longrightarrow> harmless c i w x"
  by (auto simp: harmless_def intro: silent_trans split: sum.splits)

lemma harmless_then:
  assumes "harmless c i w x" "\<And>w1. x = Inr w1 \<Longrightarrow> silent c i w w1 \<Longrightarrow> harmless c i w1 (f w1)"
  shows "harmless c i w (case x of Inl e \<Rightarrow> Inl e | Inr w1 \<Rightarrow> f w1)"
  using assms by (cases x) (auto intro: harmless_after)

section \<open>Catalogues of a superseded session\<close>

lemma silent_Subscribe: "silent False i w (Subscribe i bc tr pr w)"
proof -
  have o: "silent c i w w1" if "OpenCtrlStream i ty w = (w1, r)" for w1 ty r and c
  proof -
    obtain v s where v: "on_conn i quic_stream_open None w = (v, s)" by force
    have "silent c i w v" using silent_parts(4) [of c i w quic_stream_open None] v by simp
    then show ?thesis
      using that v by (auto simp: OpenCtrlStream_def split: option.splits prod.splits if_splits
          dest!: silent_send [where c = c] intro: silent_trans silent_reset)
  qed
  have wm: "silent c i v w1" if "WriteMessage i sid b v = (w1, r)" for v w1 sid b r c
    using that by (auto simp: WriteMessage_def split: prod.splits bool.splits dest: silent_send [where c = c])
  obtain w1 s where s: "OpenCtrlStream i kTypeSubscribe w = (w1, s)" by force
  show ?thesis
  proof (cases s)
    case None
    then show ?thesis using o [OF s] s by (simp add: Subscribe_def)
  next
    case (Some sid)
    define sub where "sub = the_lite 0 next_subscribe_id w1 i"
    define w3 where "w3 = on_lite i (\<lambda>s. s\<lparr>next_subscribe_id := sub + 1, subs := map_put sub tr (subs s)\<rparr>)
      (on_rs i sid (\<lambda>r. r\<lparr>rs_local := True, rs_typed := True, rs_type := kTypeSubscribe, rs_running := False, rs_sub_id := sub,
                     rs_req_path := bc, rs_req_track := tr\<rparr>) w1)"
    define w4 where "w4 = (if tr = kCatalogName then w3 else on_lite_track i tr (\<lambda>t. t\<lparr>lt_subscribe_id := sub, lt_started := False\<rparr>) w3)"
    have "silent False i w1 w3" unfolding w3_def
      by (rule silent_trans [OF silent_parts(1)], rule silent_on_lite) (simp_all add: owner_tag_def)
    then have "silent False i w w3" using o [OF s] by (rule silent_trans [rotated])
    then have 4: "silent False i w w4" unfolding w4_def using silent_trans [OF _ silent_parts(2)] by simp
    show ?thesis
    proof (cases "subscribe_octets sub bc tr pr")
      case None
      then have "Subscribe i bc tr pr w = ResetStream i sid kStreamInternal w4"
        using s Some by (simp add: Subscribe_def Let_def sub_def w3_def w4_def)
      then show ?thesis using silent_trans [OF 4 silent_reset(2)] by simp
    next
      case (Some body)
      obtain w5 ok where w5: "WriteMessage i sid body w4 = (w5, ok)" by force
      have 5: "silent False i w w5" using silent_trans [OF 4 wm [OF w5]] .
      have "Subscribe i bc tr pr w = (if ok then w5 else ResetStream i sid kStreamInternal w5)"
        unfolding Subscribe_def s \<open>s = Some sid\<close> prod.case option.case Let_def
          sub_def [symmetric] w3_def [symmetric] w4_def [symmetric] Some w5 by (rule refl)
      then show ?thesis using 5 silent_trans [OF 5 silent_reset(2)] by simp
    qed
  qed
qed

text \<open>The manager refuses the catalogue of somebody who does not own the stream, and tells nobody.\<close>

lemma superseded_push:
  assumes "superseded i w"
  shows "PushCatalogToManager i w = w"
proof -
  have "SetCatalogJson k o_id js m = (m, False)" if "\<not> IsPublisherOwner m k o_id" for k o_id js and m :: "player manager"
    using that by (auto simp: SetCatalogJson_def IsPublisherOwner_def split: option.splits)
  then show ?thesis using assms
    by (auto simp: PushCatalogToManager_def superseded_def the_lite_def on_manager_def split: option.splits)
qed

lemma take_rendition_harmless: "harmless False i w (take_rendition i kind name j w)"
proof (cases j)
  case (JObj m)
  define t where "t = (case the_lite None (\<lambda>s. map_of (tracks s) name) w i of None \<Rightarrow> new_MoqLiteTrack | Some t \<Rightarrow> t)"
  show ?thesis
  proof (cases "rendition_track name kind m t")
    case (Some t1)
    define w1 where "w1 = on_lite i (\<lambda>s. s\<lparr>tracks := AList.update name t1 (tracks s)\<rparr>) w"
    have "silent False i w w1" unfolding w1_def by (rule silent_on_lite) (simp_all add: owner_tag_def)
    then show ?thesis using JObj Some silent_trans [OF _ silent_Subscribe]
      by (simp add: take_rendition_def Let_def t_def [symmetric] w1_def [symmetric])
  qed (simp add: take_rendition_def Let_def t_def [symmetric] JObj)
qed (simp_all add: take_rendition_def)

lemma take_renditions_harmless: "harmless False i w (take_renditions i kind js w)"
proof (induction js arbitrary: w)
  case (Cons x js)
  obtain name j where x: "x = (name, j)" by force
  show ?case using Cons.IH unfolding x take_renditions.simps by (intro harmless_then [OF take_rendition_harmless])
qed simp

lemma OnCatalogFrame_harmless:
  assumes "superseded i w"
  shows "harmless False i w (OnCatalogFrame i d w)"
proof (cases "catalog_text w d")
  case (Some rj)
  obtain raw j where rj: "rj = (raw, j)" by force
  define w1 where "w1 = on_lite i (\<lambda>s. s\<lparr>catalog_json_raw := str raw\<rparr>) w"
  have 1: "silent False i w w1" unfolding w1_def by (rule silent_on_lite) (simp_all add: owner_tag_def)
  have p: "PushCatalogToManager i w1 = w1" using superseded_push [OF superseded_silent [OF 1 assms]] .
  have clock: "harmless False i v (take_clock i j v)" for v
    by (auto simp: take_clock_def owner_tag_def intro!: silent_on_lite split: option.split json.split)
  have kind: "harmless False i v (kind_renditions i j k v)" for v k
    using take_renditions_harmless by (simp add: kind_renditions_def split: option.split)
  have "harmless False i w1 (case take_clock i j w1 of Inl e \<Rightarrow> Inl e
      | Inr w1 \<Rightarrow> (case kind_renditions i j ''video'' w1 of Inl e \<Rightarrow> Inl e | Inr w2 \<Rightarrow> kind_renditions i j ''audio'' w2))"
    by (intro harmless_then clock kind)
  from harmless_after [OF 1 this] show ?thesis
    using Some by (simp add: OnCatalogFrame_def rj w1_def [symmetric] p)
qed (simp add: OnCatalogFrame_def)

section \<open>Frames and groups\<close>

lemma superseded_emit: "superseded i w \<Longrightarrow> EmitFlvFrame now i name v ts q k d w = w"
  by (auto simp: EmitFlvFrame_def Deliver_def superseded_def IsStreamOwner_def the_lite_def split: option.split)

lemma superseded_claimed: "superseded i w \<Longrightarrow> EnsureStreamClaimed now i w = (w, True)"
  by (cases "lite w i") (auto simp: superseded_def the_lite_def EnsureStreamClaimed_def)

lemma deliver_frame_silent:
  assumes "superseded i w"
  shows "silent c i w (deliver_frame now i sid name t us d w)"
proof -
  define w1 where "w1 = on_rs i sid (\<lambda>r. r\<lparr>rs_key_pending := False\<rparr>) w"
  have 1: "silent c i w w1" by (simp add: w1_def)
  have 2: "silent c i w (on_lite_track i name g w1)" for g using silent_trans [OF 1 silent_parts(2)] .
  have "superseded i w1" "superseded i (on_lite_track i name g w1)" for g
    using superseded_silent [OF 1 assms] superseded_silent [OF 2 assms] by simp_all
  then show ?thesis using 1 2
    by (simp add: deliver_frame_def Let_def w1_def [symmetric] superseded_claimed EmitFlvSeqHdr_def superseded_emit)
qed

lemma OnMediaFrame_harmless:
  assumes "lost c i w"
  shows "harmless c i w (OnMediaFrame now i sid d w)"
proof (cases "the_lite None (\<lambda>s. map_of (subs s) (rs_sub_id_in_group (rs w i sid))) w i")
  case (Some name)
  show ?thesis
  proof (cases "name = kCatalogName")
    case True
    then have "\<not> no_catalog i w" using Some by (auto simp: no_catalog_def the_lite_def ran_def split: option.splits)
    then show ?thesis using assms OnCatalogFrame_harmless [of i w d] True Some by (auto simp: lost_def OnMediaFrame_def)
  next
    case False
    let ?t = "on_lite_track i name (\<lambda>t. t\<lparr>lt_frames := lt_frames t + 1\<rparr>) w"
    have "silent c i w (deliver_frame now i sid name t us x ?t)" for t us x
      using silent_trans [OF silent_parts(2) deliver_frame_silent] superseded_silent [OF silent_parts(2)] assms by (simp add: lost_def)
    then show ?thesis using Some False by (auto simp: OnMediaFrame_def Let_def split: option.split)
  qed
qed (simp add: OnMediaFrame_def)

lemma group_frames_harmless:
  assumes "lost c i w"
  shows "harmless c i w (map_sum id fst (group_frames_loop now i sid buf w))"
  using assms
proof (induction buf arbitrary: w rule: messages.induct)
  case (1 b)
  show ?case
  proof (cases "next_message b")
    case (MessageAt zz body rest)
    define w0 where "w0 = on_rs i sid (\<lambda>r. r\<lparr>rs_ts_acc := rs_ts_acc r + MlZigzagDecode zz\<rparr>) w"
    have 0: "silent c i w w0" by (simp add: w0_def)
    have f: "harmless c i w (OnMediaFrame now i sid body w0)"
      using harmless_after [OF 0 OnMediaFrame_harmless [OF lost_silent [OF 0 "1.prems"]]] .
    show ?thesis
    proof (cases "OnMediaFrame now i sid body w0")
      case (Inl e)
      then show ?thesis using f MessageAt by (subst group_frames_loop.simps) (simp add: w0_def [symmetric])
    next
      case (Inr w1)
      define w2 where "w2 = on_rs i sid (\<lambda>r. r\<lparr>rs_buf := rest, rs_frame_index := rs_frame_index r + 1\<rparr>) w1"
      have 2: "silent c i w w2" using f Inr silent_trans [OF _ silent_parts(1)] by (simp add: w2_def)
      have "group_frames_loop now i sid b w = group_frames_loop now i sid rest w2"
        using MessageAt Inr by (subst group_frames_loop.simps) (simp add: w0_def [symmetric] w2_def)
      then show ?thesis using harmless_after [OF 2 "1.IH" [OF MessageAt lost_silent [OF 2 "1.prems"]]] by simp
    qed
  qed (subst group_frames_loop.simps, simp)+
qed

lemma group_body_harmless:
  assumes "lost c i w"
  shows "harmless c i w (group_body now i sid w)"
  using group_frames_harmless [OF assms, of now sid "rs_buf (rs w i sid)"] silent_trans [OF _ silent_parts(3), of c i w]
  by (auto simp: group_body_def split: sum.split bool.split)

lemma ParseGroupStream_harmless:
  assumes "lost c i w"
  shows "harmless c i w (ParseGroupStream now i sid w)"
proof -
  have b: "harmless c i w (group_body now i sid v)" if "silent c i w v" for v
    using harmless_after [OF that group_body_harmless [OF lost_silent [OF that assms]]] .
  have "silent c i w (on_lite_track i name g (on_rs i sid f w))" for name g f
    using silent_trans [OF silent_parts(1) silent_parts(2)] .
  then show ?thesis using b
    by (auto simp: ParseGroupStream_def Let_def split: ml_msg_status.split option.split list.split)
qed

section \<open>Stream data\<close>

text \<open>Everything but the setup stream that a peer can open towards the server in one direction is read as a group.\<close>

definition group_data :: "nat \<Rightarrow> nat \<Rightarrow> octets \<Rightarrow> lite_world \<Rightarrow> bool" where
  "group_data i sid d w \<longleftrightarrow> uni_stream sid \<and> \<not> rs_local (rs w i sid)
     \<and> (let r = rs w i sid; b = rs_buf r @ d in
        if rs_typed r then rs_type r \<noteq> kTypeSetup
        else \<forall>off. MlReadVarint b (length b) 0 \<noteq> Some (kTypeSetup, off))"

lemma Parse_typed_harmless:
  assumes "lost c i w" "uni_stream sid" "\<not> rs_local (rs w i sid)" "rs_type (rs w i sid) \<noteq> kTypeSetup"
  shows "harmless c i w (Parse_typed now i sid w)"
proof -
  have "parse_by_type now i sid w = ParseGroupStream now i sid w" using assms(2-4) by (simp add: parse_by_type_def Let_def)
  moreover have "harmless c i v (Inr (if rs_done (rs v i sid) then on_rs i sid (\<lambda>r. r\<lparr>rs_buf := []\<rparr>) v else v))" for v by simp
  ultimately show ?thesis
    unfolding Parse_typed_def using ParseGroupStream_harmless [OF assms(1), of now sid] by (simp only:) (rule harmless_then)
qed

lemma Parse_harmless:
  assumes "lost c i w" "group_data i sid [] w"
  shows "harmless c i w (Parse now i sid w)"
proof (cases "rs_typed (rs w i sid)")
  case True
  then show ?thesis using assms Parse_typed_harmless by (simp add: Parse_def group_data_def Let_def)
next
  case False
  note u = assms(2) [unfolded group_data_def Let_def, simplified False, simplified]
  show ?thesis
  proof (cases "MlReadVarint (rs_buf (rs w i sid)) (length (rs_buf (rs w i sid))) 0")
    case None
    then show ?thesis using False by (simp add: Parse_def Let_def)
  next
    case (Some to)
    obtain type off where to: "to = (type, off)" by force
    define w0 where "w0 = on_rs i sid (\<lambda>r. r\<lparr>rs_type := type, rs_typed := True, rs_buf := drop off (rs_buf r)\<rparr>) w"
    have al: "lite w i \<noteq> None" using assms(1) superseded_alive by (simp add: lost_def)
    have type: "type \<noteq> kTypeSetup" using u Some to by auto
    have r0: "rs w0 i sid = (rs w i sid)\<lparr>rs_type := type, rs_typed := True, rs_buf := drop off (rs_buf (rs w i sid))\<rparr>"
      using al by (simp add: w0_def)
    define w1 where "w1 = OnStreamTypeSeen i sid w0"
    have w1: "w1 = w0 \<or> w1 = ResetStream i sid kStreamInternal w0" using type r0 by (auto simp: w1_def OnStreamTypeSeen_def Let_def)
    then have 1: "silent c i w w1" using silent_trans [of c i w w0 w1] by (auto simp: w0_def)
    have al0: "lite w0 i \<noteq> None" using al by (simp add: w0_def on_rs_def)
    have "rs w1 i sid = rs w0 i sid \<or> rs w1 i sid = (rs w0 i sid)\<lparr>rs_reset_sent := True\<rparr>"
    proof -
      have "rs (ResetStream i sid ec w0) i sid = (rs w0 i sid)\<lparr>rs_reset_sent := True\<rparr>" for ec
        using al0 by (auto simp: ResetStream_def reset_quic_def on_conn_def rs_def the_lite_def on_rs_def split: option.split prod.split)
      then show ?thesis using w1 by auto
    qed
    then have "\<not> rs_local (rs w1 i sid)" "rs_type (rs w1 i sid) \<noteq> kTypeSetup" using r0 type u by auto
    from harmless_after [OF 1 Parse_typed_harmless [OF lost_silent [OF 1 assms(1)] _ this]] u 1 show ?thesis
      using False Some by (simp add: Parse_def Let_def to w0_def [symmetric] w1_def [symmetric])
  qed
qed

lemma HandleStreamData_harmless:
  assumes "lost c i w" "group_data i sid d w"
  shows "harmless c i w (HandleStreamData now i sid d fin w)"
proof -
  have al: "lite w i \<noteq> None" using assms(1) superseded_alive by (simp add: lost_def)
  define w1 where "w1 = on_rs i sid (\<lambda>r. r\<lparr>rs_buf := rs_buf r @ d, rs_fin := rs_fin r \<or> fin\<rparr>) (on_rs i sid id w)"
  have 1: "silent c i w w1" unfolding w1_def using silent_trans [OF silent_parts(1) silent_parts(1)] .
  have al1: "lite (on_rs i sid id w) i \<noteq> None" using al by (simp add: on_rs_def)
  have "rs w1 i sid = (rs w i sid)\<lparr>rs_buf := rs_buf (rs w i sid) @ d, rs_fin := rs_fin (rs w i sid) \<or> fin\<rparr>"
    using al al1 by (simp add: w1_def)
  then have "group_data i sid [] w1" using assms(2) by (auto simp: group_data_def Let_def split: if_splits)
  from harmless_after [OF 1 Parse_harmless [OF lost_silent [OF 1 assms(1)] this]]
  have "harmless c i w (Parse now i sid w1)" .
  moreover have "silent c i w (on_rs i sid g (ResetStream i sid ec w1))" for g ec
    using silent_trans [OF 1 silent_trans [OF silent_reset(2) silent_parts(1)]] .
  ultimately show ?thesis by (simp add: HandleStreamData_def Let_def w1_def [symmetric])
qed

text \<open>
  C23. A session that lost its stream to another publisher changes nothing any more. Whatever octets come on one of its
  group streams, opened before or after the take-over, its header read or not, of a media track, of the catalogue or of
  no track it subscribed: the stream manager and every other session stay as they are, and the session stays without its stream.
  The one other way out is the exception of a catalogue whose members have the wrong type, which a session can only
  raise that subscribed a catalogue.
\<close>

theorem superseded_group_is_dropped:
  assumes "superseded i w" "group_data i sid d w"
  shows "case HandleStreamData now i sid d fin w of
      Inr w1 \<Rightarrow> mgr w1 = mgr w \<and> (\<forall>j. j \<noteq> i \<longrightarrow> lite w1 j = lite w j) \<and> superseded i w1
    | Inl e \<Rightarrow> e = UncaughtException \<and> (\<exists>a. map_of (the_lite [] subs w i) a = Some kCatalogName)"
proof -
  have "lost (no_catalog i w) i w" using assms(1) by (simp add: lost_def)
  from HandleStreamData_harmless [OF this assms(2), of now fin] show ?thesis
    using superseded_silent [OF _ assms(1)] by (auto simp: harmless_def silent_def no_catalog_def ran_def split: sum.splits)
qed

text \<open>The stream of the session above belongs to someone else; a new group of its track opens, and brings one frame.\<close>

definition lost_world :: lite_world where
  "lost_world = example_world\<lparr>
     mgr := (mgr example_world)\<lparr>streams := [(''a/s'', new_MediaStream\<lparr>publisher_exist := True, publisher_id := ''q'', stream_key := ''a/s''\<rparr>)]\<rparr>\<rparr>"

theorem superseded_group_is_dropped_witness:
  "\<exists>w1. HandleStreamData 5 0 3 [0, 3, 1, 7, 0, 0, 2, 5, 9] False lost_world = Inr w1 \<and> mgr w1 = mgr lost_world
    \<and> lite w1 1 = lite lost_world 1"
proof -
  have 1: "superseded 0 lost_world" "map_of (the_lite [] subs lost_world 0) a \<noteq> Some kCatalogName" for a
    by (simp_all add: lost_world_def example_world_def example_lite_def superseded_def the_lite_def lite_def
      new_MoqLiteSession_def kCatalogName_def IsPublisherOwner_def find_stream_def)
  have r: "rs lost_world 0 3 = new_RecvStream" by (simp add: lost_world_def example_world_def example_lite_def new_MoqLiteSession_def rs_def the_lite_def lite_def)
  have "MlReadVarint [0, 3, 1, 7, 0, 0, 2, 5, 9] (Suc (Suc (Suc (Suc (Suc (Suc (Suc (Suc (Suc 0))))))))) 0 = Some (0, 1)" by code_simp
  then have "group_data 0 3 [0, 3, 1, 7, 0, 0, 2, 5, 9] lost_world"
    using r by (simp add: group_data_def new_RecvStream_def uni_stream_def kTypeSetup_def)
  from superseded_group_is_dropped [OF 1(1) this, of 5 False] 1(2) show ?thesis
    by (auto split: sum.splits)
qed

end
