(* ===== verification/Moq_Lite_Server_Defects.thy ===== *)
theory Moq_Lite_Server_Defects
  imports Moq_Lite_Server_Facts Flv_Catalog
begin

text \<open>
  Sessions that close, the configuration record on its way through a catalogue, and inputs on which the server of moq-lite fails.
\<close>

section \<open>Closing\<close>

lemma send_mgr [simp]: "mgr (fst (send i sid d fin w)) = mgr w" "mgr (reset_quic i sid ec w) = mgr w" "mgr (on_pa i sid pa w) = mgr w"
  by (auto simp: send_def reset_quic_def on_conn_def on_pa_def split: option.split prod.split)

lemma send_mgrD: "send i sid d fin w = (v, r) \<Longrightarrow> mgr v = mgr w"
  using send_mgr(1) [of i sid d fin w] by simp

lemma announce_mgr [simp]: "mgr (announce_added i wire sid pa w) = mgr w" "mgr (announce_removed i wire sid pa w) = mgr w"
  by (auto simp: announce_added_def announce_removed_def dest: send_mgrD split: option.splits prod.splits bool.splits)

lemma foldl_mgr: "(\<And>w x. mgr (f w x) = mgr w) \<Longrightarrow> mgr (foldl f w xs) = mgr w"
  by (induction xs arbitrary: w) simp_all

lemma AnnounceBroadcast_mgr [simp]: "mgr (AnnounceBroadcast i wire added w) = mgr w"
  by (auto simp: AnnounceBroadcast_def intro!: foldl_mgr)

lemma unpublish_mgr [simp]: "mgr (OnUnpublish_lite a n w) = mgr w"
  by (auto simp: OnUnpublish_lite_def NotifyRemoteAnnounce_def Let_def intro!: foldl_mgr)

lemma Release_events:
  "\<exists>a n cbs. events (fst (ReleasePublisher k o_id m)) = events m @ map (\<lambda>cb. OnUnpublish cb a n) cbs"
  by (auto simp: ReleasePublisher_def RemovePublisher_def notify_unpublish_def emit_def put_stream_def erase_stream_def Let_def
      split: option.split prod.split intro: exI [of _ "[]"])

lemma handle_unpublish_mgr: "mgr (foldl handle_event w (map (\<lambda>cb. OnUnpublish cb a n) cbs)) = mgr w"
  by (induction cbs arbitrary: w) simp_all

lemma ReleaseStream_mgr:
  assumes "lite w i = Some s" "stream_claimed s" "ls_stream_key s \<noteq> []"
  shows "mgr (ReleaseStream i w) = fst (ReleasePublisher (ls_stream_key s) (owner_id s) (mgr w))"
proof -
  let ?r = "ReleasePublisher (ls_stream_key s) (owner_id s) (mgr w)"
  obtain a n cbs where e: "events (fst ?r) = events (mgr w) @ map (\<lambda>cb. OnUnpublish cb a n) cbs" using Release_events by blast
  have "mgr (ReleaseStream i w) = mgr (foldl handle_event ((on_lite i (\<lambda>s. s\<lparr>stream_claimed := False\<rparr>) w)\<lparr>mgr := fst ?r\<rparr>)
      (drop (length (events (mgr w))) (events (fst ?r))))"
    using assms by (simp add: ReleaseStream_def on_manager_def Let_def split: prod.split)
  then show ?thesis by (simp add: e handle_unpublish_mgr)
qed

text \<open>What stands in a session besides its connection and what it announced.\<close>

definition same_flags :: "lite_world \<Rightarrow> lite_world \<Rightarrow> bool" where
  "same_flags w w1 \<longleftrightarrow> (\<forall>j. map_option (\<lambda>s. (ls_dead s, peer_setup_done s, core s)) (lite w1 j) = map_option (\<lambda>s. (ls_dead s, peer_setup_done s, core s)) (lite w j))"

lemma same_flags_refl [simp]: "same_flags w w" and same_flags_mgr [simp]: "same_flags w (w\<lparr>mgr := m\<rparr>)"
  and same_flags_trans: "same_flags w w1 \<Longrightarrow> same_flags w1 w2 \<Longrightarrow> same_flags w w2"
  by (simp_all add: same_flags_def)

lemma same_flags_on_lite: "(\<And>s. ls_dead (f s) = ls_dead s \<and> peer_setup_done (f s) = peer_setup_done s \<and> core (f s) = core s) \<Longrightarrow> same_flags w (on_lite i f w)"
  by (auto simp: same_flags_def option.map_comp comp_def intro: option.map_cong)

lemma same_flags_foldl: "(\<And>w x. same_flags w (f w x)) \<Longrightarrow> same_flags w (foldl f w xs)"
  by (induction xs arbitrary: w) (auto intro: same_flags_trans)

lemma same_flags_conn: "on_conn i f d w = (v, r) \<Longrightarrow> same_flags w v"
  by (auto simp: on_conn_def core_def split: option.splits prod.splits intro!: same_flags_on_lite)

lemma same_flags_pa: "same_flags w v \<Longrightarrow> same_flags w (on_pa i sid pa v)"
  unfolding on_pa_def by (rule same_flags_trans [OF _ same_flags_on_lite]) (simp_all add: core_def)

lemma same_flags_send: "send i sid d fin w = (v, r) \<Longrightarrow> same_flags w v"
  by (simp add: send_def same_flags_conn)

lemma same_flags_announce: "same_flags w (announce_added i wire sid pa w)" "same_flags w (announce_removed i wire sid pa w)"
  using same_flags_send [OF surjective_pairing, of w i sid]
  by (auto simp: announce_added_def announce_removed_def intro: same_flags_pa same_flags_send split: option.split prod.split bool.split)

lemma same_flags_broadcast: "same_flags w (AnnounceBroadcast i wire added w)"
  by (auto simp: AnnounceBroadcast_def intro!: same_flags_foldl same_flags_announce split: prod.split)

lemma same_flags_unpublish: "same_flags w (foldl handle_event w (map (\<lambda>cb. OnUnpublish cb a n) cbs))"
proof -
  have "same_flags v (OnUnpublish_lite a n v)" for v
    by (auto simp: OnUnpublish_lite_def NotifyRemoteAnnounce_def Let_def intro!: same_flags_foldl same_flags_broadcast)
  then show ?thesis by (induction cbs arbitrary: w) (auto intro: same_flags_trans)
qed

lemma ReleaseStream_dead: "is_dead w i \<Longrightarrow> is_dead (ReleaseStream i w) i"
proof -
  assume d: "is_dead w i"
  have keep: "is_dead v i = is_dead u i" if "same_flags u v" for u v
    using that by (cases "lite u i"; cases "lite v i") (auto simp: same_flags_def is_dead_def the_lite_def dest: spec [of _ i])
  show ?thesis
  proof (cases "lite w i")
    case (Some s)
    define w1 where "w1 = on_lite i (\<lambda>s. s\<lparr>stream_claimed := False\<rparr>) w"
    have d1: "is_dead w1 i" using d by (cases "lite w i") (simp_all add: w1_def is_dead_def the_lite_def)
    obtain a n cbs where e: "events (fst (ReleasePublisher (ls_stream_key s) (owner_id s) (mgr w)))
        = events (mgr w) @ map (\<lambda>cb. OnUnpublish cb a n) cbs" using Release_events by blast
    have m: "mgr w1 = mgr w" by (simp add: w1_def)
    have "is_dead (foldl handle_event (w1\<lparr>mgr := fst (ReleasePublisher (ls_stream_key s) (owner_id s) (mgr w))\<rparr>)
        (map (\<lambda>cb. OnUnpublish cb a n) cbs)) i"
      using keep [OF same_flags_unpublish] keep [OF same_flags_mgr] d1 by blast
    then show ?thesis
      using Some d d1 by (simp add: ReleaseStream_def on_manager_def Let_def w1_def [symmetric] m e split: prod.split)
        (metis append_eq_conv_conj e fst_conv)
  qed (use d in \<open>simp add: ReleaseStream_def\<close>)
qed

text \<open>
  C24. Closing a session that publishes: the session is dead, no stream is left with it as publisher, another publisher that took the
  stream over keeps it, and no other stream is touched.
\<close>

theorem closing_gives_up_stream:
  assumes "lite w i = Some s" "stream_claimed s" "ls_stream_key s \<noteq> []" "owner_id s \<noteq> []" "\<not> ls_dead s"
  shows "is_dead (CloseSession i ec w) i
    \<and> (\<forall>st. find_stream (mgr (CloseSession i ec w)) (ls_stream_key s) = Some st \<longrightarrow> publisher_id st \<noteq> owner_id s)
    \<and> (\<forall>st. find_stream (mgr w) (ls_stream_key s) = Some st \<longrightarrow> publisher_id st \<notin> {[], owner_id s}
          \<longrightarrow> find_stream (mgr (CloseSession i ec w)) (ls_stream_key s) = Some st)
    \<and> (\<forall>k. k \<noteq> ls_stream_key s \<longrightarrow> find_stream (mgr (CloseSession i ec w)) k = find_stream (mgr w) k)"
proof -
  define w0 where "w0 = on_lite i (\<lambda>s. s\<lparr>ls_dead := True\<rparr>) w"
  have w0: "lite w0 i = Some (s\<lparr>ls_dead := True\<rparr>)" "mgr w0 = mgr w" using assms(1) by (simp_all add: w0_def)
  have m: "mgr (CloseSession i ec w) = fst (ReleasePublisher (ls_stream_key s) (owner_id s) (mgr w))"
    using ReleaseStream_mgr [OF w0(1)] assms by (simp add: CloseSession_def is_dead_def the_lite_def w0(2) w0_def [symmetric])
  have "is_dead (ReleaseStream i w0) i" using w0(1) by (intro ReleaseStream_dead) (simp add: is_dead_def the_lite_def)
  then have "is_dead (CloseSession i ec w) i"
    using assms by (simp add: CloseSession_def is_dead_def the_lite_def w0_def [symmetric] option.case_eq_if option.map_sel)
  moreover have "find_stream (fst (ReleasePublisher (ls_stream_key s) (owner_id s) (mgr w))) k
      = (if k = ls_stream_key s then (case find_stream (mgr w) k of None \<Rightarrow> None | Some st \<Rightarrow>
           if publisher_id st \<noteq> [] \<and> publisher_id st \<noteq> owner_id s then Some st
           else if writer_map st = [] then None
           else Some (st\<lparr>publisher_exist := False, publisher_id := [], clock_reset_pending := True, gop := Clear (gop st)\<rparr>))
         else find_stream (mgr w) k)" for k
    by (auto simp: ReleasePublisher_def RemovePublisher_def table Let_def split: option.split)
  ultimately show ?thesis
    using assms(4) by (auto simp: m split: option.splits if_splits)
qed

definition owner_world :: lite_world where
  "owner_world = example_world\<lparr>sessions := [Some example_lite]\<rparr>"

theorem closing_gives_up_stream_witness:
  "is_dead (CloseSession 0 1 owner_world) 0
    \<and> map_option publisher_id (find_stream (mgr (CloseSession 0 1 owner_world)) ''a/s'') \<noteq> Some ''o''"
  using closing_gives_up_stream [of owner_world 0 example_lite 1]
  by (auto simp: owner_world_def example_world_def lite_def example_lite_def new_MoqLiteSession_def)

section \<open>The configuration record through a catalogue\<close>

lemma hex_nibble_digit: "n < 16 \<Longrightarrow> hex_nibble (kHex ! n) = Some n"
proof -
  assume "n < 16"
  then have "n \<in> set [0..<16]" by simp
  then show ?thesis by (auto simp: upt_conv_Cons hex_nibble_def kHex_def Let_def)
qed

lemma unat_and_0xF: "unat (b AND 0xF :: byte) = unat b mod 16"
  using word_and_mask_unat [of b 4] by (simp add: mask_eq_exp_minus_1)

lemma hex_octets_ToHex: "hex_octets (ToHex d) = Some d"
proof (induction d)
  case (Cons b d)
  have u: "unat (drop_bit 4 b) = unat b div 16" using Prelude.unat_drop_bit [of 4 b] by simp
  have h: "unat (drop_bit 4 b) < 16" "unat (b AND 0xF) < 16"
    unfolding u unat_and_0xF using unat_byte_less [of b] by (simp_all add: less_mult_imp_div_less)
  have "(word_of_nat (16 * unat (drop_bit 4 b) + unat (b AND 0xF)) :: byte) = b"
    unfolding u unat_and_0xF by simp
  with Cons h show ?case by (simp add: ToHex_def hex_digits_def hex_nibble_digit)
qed (simp add: ToHex_def)

lemma length_ToHex: "length (ToHex d) = 2 * length d"
  by (induction d) (simp_all add: ToHex_def hex_digits_def)

text \<open>
  C29. The codec configuration that the catalogue of a publisher carries as hexadecimal digits is what a session takes out of it.
\<close>

theorem description_round_trip: "HexDecode (ToHex d) = Some d"
  by (simp add: HexDecode_def hex_octets_ToHex length_ToHex)

section \<open>A value of the wrong type\<close>

lemma on_rs_keeps [simp]: "the_lite [] subs (on_rs i sid g w) j = the_lite [] subs w j" "parse_json (on_rs i sid g w) = parse_json w"
  "lite (on_rs i sid g w) j = None \<longleftrightarrow> lite w j = None"
  by (cases "lite w j"; simp add: on_rs_def the_lite_def)+

text \<open>
  A catalogue in which the codec of a rendition is a number: the JSON library throws, nothing catches, and the server ends.
\<close>

theorem wrong_type_ends_server:
  assumes "\<not> is_dead w i" "uni_stream sid" "map_of (the_lite [] recv_streams w i) sid = Some r" "in_group a key [] r"
    and "map_of (the_lite [] subs w i) a = Some kCatalogName" "MlAppendFrame [] 0 d = (seg, True)" "length d \<le> 2 ^ 26" "length seg \<le> kMaxRecvBuf"
    and "parse_json w d = Some (JObj m)" "map_of m ''clock'' = None" "renditions (JObj m) ''video'' = Some ((name, JObj q) # js)"
    and "map_of q ''codec'' = Some (JNum n)"
  shows "HandleStreamData now i sid seg False w = Inl UncaughtException"
proof -
  obtain s where s: "lite w i = Some s" using assms(1) by (auto simp: is_dead_def the_lite_def split: option.splits)
  have r: "rs w i sid = r" using assms(3) s by (simp add: rs_def the_lite_def)
  define w1 where "w1 = on_rs i sid (\<lambda>r. r\<lparr>rs_buf := rs_buf r @ seg, rs_fin := rs_fin r \<or> False\<rparr>) (on_rs i sid id w)"
  have al: "lite (on_rs i sid id w) i \<noteq> None" "lite w i \<noteq> None" using s by (simp_all add: on_rs_def)
  have w1: "rs w1 i sid = r\<lparr>rs_buf := seg\<rparr>" "parse_json w1 = parse_json w" "the_lite [] subs w1 i = the_lite [] subs w i" "lite w1 i \<noteq> None"
    using al r assms(4) s by (simp_all add: w1_def in_group_def)
  have next_m: "next_message seg = MessageAt (zz_word 0) d []"
    using append_frame_Some(1) [OF assms(6,7), of "[]"] by (simp add: next_message_record)
  have bad: "OnCatalogFrame i d v = Inl UncaughtException" if "parse_json v = parse_json w" for v
    using assms(9-12) that
    by (simp add: OnCatalogFrame_def catalog_text_def is_object_def take_clock_def member_of_def kind_renditions_def take_rendition_def
        rendition_track_def string_member_def split: option.split)
  define w2 where "w2 = on_rs i sid (\<lambda>r. r\<lparr>rs_ts_acc := rs_ts_acc r + MlZigzagDecode (zz_word 0)\<rparr>) w1"
  have w2: "rs w2 i sid = (r\<lparr>rs_buf := seg\<rparr>)\<lparr>rs_ts_acc := rs_ts_acc r + MlZigzagDecode (zz_word 0)\<rparr>" "parse_json w2 = parse_json w"
    "the_lite [] subs w2 i = the_lite [] subs w i" "lite w2 i \<noteq> None"
    using w1 by (simp_all add: w2_def)
  have "OnMediaFrame now i sid d w2 = Inl UncaughtException"
    using w2 bad assms(4,5) by (auto simp: OnMediaFrame_def in_group_def the_lite_def)
  then have "group_frames_loop now i sid seg w1 = Inl UncaughtException"
    using next_m by (subst group_frames_loop.simps) (simp add: w2_def)
  then have "Parse now i sid w1 = Inl UncaughtException"
    using w1(1) assms(2,4) by (simp add: Parse_def typed_group in_group_def ParseGroupStream_def group_body_def Let_def)
  then show ?thesis
    using assms(1,4,8) r w1(1) al by (simp add: HandleStreamData_def Let_def w1_def in_group_def)
qed

text \<open>The octet 1 stands for a text in which the codec of the track is 5.\<close>

definition catalog_world :: lite_world where
  "catalog_world = example_world\<lparr>
     sessions := [Some (example_lite\<lparr>subs := [(1, kCatalogName)],
       recv_streams := [(3, new_RecvStream\<lparr>rs_typed := True, rs_type := kTypeGroup, rs_group_hdr_done := True, rs_sub_id_in_group := 1\<rparr>)]\<rparr>)],
     parse_json := (\<lambda>d. if d = [1] then Some (JObj [(''video'', JObj [(''renditions'', JObj [(''v'', JObj [(''codec'', JNum 5)])])])]) else None)\<rparr>"

theorem wrong_type_ends_server_witness: "HandleStreamData 5 0 3 [0, 1, 1] False catalog_world = Inl UncaughtException"
proof -
  have "MlAppendFrame [] 0 [1] = ([0, 1, 1], True)" by code_simp
  then show ?thesis
    by (rule wrong_type_ends_server [where a = 1 and r = "new_RecvStream\<lparr>rs_typed := True, rs_type := kTypeGroup, rs_group_hdr_done := True,
        rs_sub_id_in_group := 1\<rparr>" and js = "[]" and name = "''v''" and q = "[(''codec'', JNum 5)]" and n = 5 and key = False
        and m = "[(''video'', JObj [(''renditions'', JObj [(''v'', JObj [(''codec'', JNum 5)])])])]", rotated 5])
      (simp_all add: catalog_world_def example_world_def example_lite_def new_MoqLiteSession_def is_dead_def the_lite_def lite_def uni_stream_def
        in_group_def new_RecvStream_def kMaxRecvBuf_def renditions_def member_of_def)
qed

section \<open>A configuration that changes\<close>

lemma no_header_again: "p \<in> set (flv_of s t True key fs) \<Longrightarrow> \<not> is_seq_hdr p"
  by (induction fs arbitrary: key) (auto simp: Let_def flv_packet_def split: option.splits if_splits)

text \<open>
  A publisher changes the configuration of a codec in its catalogue after the sequence header went out: the session takes the
  new record over but not once more does it send a sequence header, whatever groups of the track come.
\<close>

theorem changed_configuration_is_never_sent:
  assumes "takes_in s0 name t0 i True w" "take_rendition i (lt_kind t0) name (JObj m) w = Inr w1"
    and "map_of m ''description'' = Some (JStr (ToHex c))" "map_of m ''codec'' = Some (JStr codec)" "usable_codec (lt_kind t0) codec"
    and "the_lite None (\<lambda>s. map_of (tracks s) name) w i = Some t" "lt_subscribe_id t \<noteq> 0"
  shows "takes_in s0 name (t0\<lparr>lt_codec_config := c\<rparr>) i True w1
    \<and> (\<forall>key fs p. p \<in> set (flv_of s0 (t0\<lparr>lt_codec_config := c\<rparr>) True key fs) \<longrightarrow> \<not> is_seq_hdr p)"
proof -
  have hex: "HexDecode (ToHex c) = Some c"
    using hex_octets_ToHex [of c] length_ToHex [of c] by (simp add: HexDecode_def)
  obtain t1 where t1: "rendition_track name (lt_kind t0) m t = Some t1" "w1 = on_lite i (\<lambda>s. s\<lparr>tracks := AList.update name t1 (tracks s)\<rparr>) w"
    "lt_kind t1 = lt_kind t0" "lt_codec_config t1 = c" "m3_usable t1" "seq_hdr_sent t1 = seq_hdr_sent t"
    using assms(2-7) by (auto simp: take_rendition_def rendition_track_def string_member_def hex Let_def split: option.splits if_splits)
  have "takes_in s0 name (t0\<lparr>lt_codec_config := c\<rparr>) i True w1"
    using assms(1,6) t1 by (auto simp: takes_in_def core_def update_conv the_lite_def)
  then show ?thesis using no_header_again by blast
qed

theorem changed_configuration_is_never_sent_witness:
  "\<exists>w w1. takes_in example_lite ''v'' example_track 0 True w
    \<and> take_rendition 0 ''video'' ''v'' (JObj [(''codec'', JStr ''avc1.42c01e''), (''description'', JStr (ToHex [3, 4]))]) w = Inr w1
    \<and> takes_in example_lite ''v'' (example_track\<lparr>lt_codec_config := [3, 4]\<rparr>) 0 True w1"
proof -
  define w where "w = on_lite_track 0 ''v'' (\<lambda>t. t\<lparr>seq_hdr_sent := True\<rparr>) example_world"
  let ?m = "[(''codec'', JStr ''avc1.42c01e''), (''description'', JStr (ToHex [3, 4]))]"
  have w: "takes_in example_lite ''v'' example_track 0 True w"
    unfolding w_def by (subst takes_in_track [OF example_world_facts(1)]) auto
  have t: "the_lite None (\<lambda>s. map_of (tracks s) ''v'') w 0 = Some (example_track\<lparr>seq_hdr_sent := True\<rparr>)"
    by (simp add: w_def on_lite_track_def comp_def) (simp add: the_lite_def example_world_def lite_def example_lite_def)
  have k: "lt_kind example_track = ''video''" "lt_subscribe_id (example_track\<lparr>seq_hdr_sent := True\<rparr>) \<noteq> 0" by (simp_all add: example_track_def)
  obtain w1 where "take_rendition 0 (lt_kind example_track) ''v'' (JObj ?m) w = Inr w1"
    using t k by (auto simp: take_rendition_def rendition_track_def string_member_def u32_member_def Let_def split: option.split)
  with changed_configuration_is_never_sent [OF w this _ _ _ t k(2), of "[3, 4]" "''avc1.42c01e''"] w k(1) show ?thesis
    by (auto simp: usable_codec_def)
qed

section \<open>Two streams under one name\<close>

text \<open>
  A stream \<open>app/n\<close>, published on the path \<open>app\<close>, and another with key \<open>n\<close> are announced under the same name; who subscribes
  to it is always given the second.
\<close>

theorem two_streams_one_name:
  assumes "app' \<noteq> []" "CHR ''/'' \<in> set n" "take (length app' + 1) n \<noteq> app' @ ''/''"
    and "GetCatalogJson (mgr w) (app' @ ''/'' @ n) = Some (j1, r1)" "GetCatalogJson (mgr w) n = Some (j2, r2)"
  shows "AnnounceWireOf app' (app' @ ''/'' @ n) = n \<and> AnnounceWireOf app' n = n \<and> resolve_key w app' n = Some (n, j2)"
  using assms by (auto simp: AnnounceWireOf_def resolve_key_def Let_def)

theorem two_streams_one_name_witness:
  "\<exists>w. resolve_key w ''live'' (AnnounceWireOf ''live'' ''live/a/b'') = Some (''a/b'', ''two'')
     \<and> GetCatalogJson (mgr w) ''live/a/b'' = Some (''one'', 1)"
proof -
  define w where "w = example_world\<lparr>mgr := (mgr example_world)\<lparr>streams := [(''live/a/b'', new_MediaStream\<lparr>catalog_json := ''one'', catalog_rev := 1\<rparr>),
    (''a/b'', new_MediaStream\<lparr>catalog_json := ''two'', catalog_rev := 1\<rparr>)]\<rparr>\<rparr>"
  have g: "GetCatalogJson (mgr w) (''live'' @ ''/'' @ ''a/b'') = Some (''one'', 1)" "GetCatalogJson (mgr w) ''a/b'' = Some (''two'', 1)"
    by (simp_all add: w_def GetCatalogJson_def find_stream_def)
  from two_streams_one_name [OF _ _ _ g] g show ?thesis by (intro exI [of _ w]) simp
qed

section \<open>A setup message that is not well formed\<close>

lemma same_flags_rs: "same_flags w v \<Longrightarrow> same_flags w (on_rs i sid f v)"
  unfolding on_rs_def by (rule same_flags_trans [OF _ same_flags_on_lite]) (simp_all add: core_def)

lemma same_flags_reset: "same_flags w v \<Longrightarrow> same_flags w (ResetStream i sid ec v)"
proof -
  have "same_flags v (reset_quic i sid ec v)" for v
    unfolding reset_quic_def by (rule same_flags_conn [OF surjective_pairing])
  then show "same_flags w v \<Longrightarrow> same_flags w (ResetStream i sid ec v)"
    unfolding ResetStream_def using same_flags_trans same_flags_rs by blast
qed

lemma same_flags_StartAnnounce: "same_flags w (StartAnnounce i prefix w)"
proof -
  have o: "same_flags w v" if "OpenCtrlStream i ty w = (v, r)" for ty v r w
    using that unfolding OpenCtrlStream_def reset_quic_def
    by (auto split: prod.splits option.splits if_splits dest!: same_flags_conn same_flags_send intro: same_flags_trans)
      (metis prod.collapse same_flags_conn same_flags_trans)+
  have m: "same_flags w v" if "WriteMessage i sid b w = (v, r)" for sid b v r w
    using that by (auto simp: WriteMessage_def split: prod.splits bool.splits dest: same_flags_send)
  show ?thesis
    unfolding StartAnnounce_def Let_def
    by (auto split: prod.split option.split bool.split intro!: same_flags_reset
        dest!: o m intro: same_flags_rs same_flags_trans)
qed

lemma same_flags_Discovery: "same_flags w (StartDiscovery i w)"
proof -
  have "same_flags w (on_lite i (\<lambda>s. s\<lparr>discovery_started := True\<rparr>) w)" by (rule same_flags_on_lite) (simp add: core_def)
  then show ?thesis
    using same_flags_trans [OF _ same_flags_StartAnnounce] by (auto simp: StartDiscovery_def Let_def)
qed

lemma same_flags_get: "same_flags w v \<Longrightarrow> is_dead v i = is_dead w i \<and> the_lite False peer_setup_done v i = the_lite False peer_setup_done w i"
  by (cases "lite w i"; cases "lite v i") (auto simp: same_flags_def is_dead_def the_lite_def dest: spec [of _ i])

text \<open>A setup message of one parameter, the role, the value of which is the first half of an integer.\<close>

definition bad_role :: octets where "bad_role = [4, 1, 3, 1, 0x40]"

lemma bad_role_read [simp]:
  "length bad_role = 5" "take 5 bad_role = bad_role" "take (Suc 0) (drop 4 bad_role) = [0x40]"
  "MlReadVarint bad_role 5 0 = Some (4, Suc 0)" "MlReadVarint bad_role 5 (Suc 0) = Some (1, 2)" "read_varints bad_role 5 2 2 = Some ([3, 1], 4)"
  "MlReadVarint [0x40] (Suc 0) 0 = None" "MlReadVarint (1 # bad_role) 6 0 = Some (1, Suc 0)"
  unfolding bad_role_def by code_simp+

lemma one_bad_role: "setup_params 1 bad_role 2 [] s = (s, Some 5)"
  by (simp add: OnSetupParam_def)

lemma on_lite_paths [simp]: "default_path (on_lite i f w) = default_path w" "default_path (on_rs i sid g w) = default_path w" "paths (on_rs i sid g w) = paths w"
  by (simp_all add: on_lite_def on_rs_def)

lemma flags_of: "same_flags w v \<Longrightarrow> lite w i = Some s \<Longrightarrow> \<not> ls_dead s \<Longrightarrow> peer_setup_done s \<Longrightarrow> \<not> is_dead v i \<and> the_lite False peer_setup_done v i"
  using same_flags_get [of w v i] by (simp add: is_dead_def the_lite_def)

lemma setup_is_done:
  assumes "lite w i = Some s" "\<not> ls_dead s" "path_only s = []" "default_path w \<in> set (paths w)"
  shows "\<not> is_dead (setup_done i w) i \<and> the_lite False peer_setup_done (setup_done i w) i"
proof -
  define w1 where "w1 = on_lite i (\<lambda>s. s\<lparr>routed_path := default_path w\<rparr>) (on_lite i (\<lambda>s. s\<lparr>peer_setup_done := True\<rparr>) w)"
  have w1: "lite w1 i = Some (s\<lparr>peer_setup_done := True, routed_path := default_path w\<rparr>)" using assms(1) by (simp add: w1_def)
  have r: "RouteTo i (on_lite i (\<lambda>s. s\<lparr>peer_setup_done := True\<rparr>) w) = (w1, True)"
    using assms by (simp add: RouteTo_def w1_def Let_def the_lite_def)
  have arm: "same_flags v (ArmPublisher i v)" for v
    unfolding ArmPublisher_def by (auto intro: same_flags_on_lite simp: core_def)
  have "same_flags w1 (setup_done i w)"
    unfolding setup_done_def r using same_flags_Discovery [of w1 i] arm [of w1] same_flags_trans [OF same_flags_Discovery arm] by auto
  from flags_of [OF this w1] assms(2) show ?thesis by simp
qed

lemma bad_role_parsed:
  assumes "lite w i = Some s" "\<not> ls_dead s" "path_only s = []" "default_path w \<in> set (paths w)"
    and "rs_buf (rs w i sid) = bad_role" "\<not> rs_done (rs w i sid)"
  shows "\<not> is_dead (ParseSetupStream i sid w) i \<and> the_lite False peer_setup_done (ParseSetupStream i sid w) i"
proof -
  let ?m = "bad_role"
  define w1 where "w1 = on_lite i (\<lambda>s. s\<lparr>saw_peer_setup := True\<rparr>) w"
  define w2 where "w2 = on_rs i sid (\<lambda>r. r\<lparr>rs_buf := drop 5 ?m, rs_done := True\<rparr>) (on_lite i (\<lambda>_. s\<lparr>saw_peer_setup := True\<rparr>) w1)"
  have p: "the_lite (None, None) (\<lambda>s. map_prod Some id (setup_params 1 ?m 2 [] s)) w1 i = (Some (s\<lparr>saw_peer_setup := True\<rparr>), Some 5)"
    using assms(1) by (simp only: w1_def one_bad_role) (simp add: the_lite_def)
  have "ParseSetupStream i sid w = setup_done i w2"
    using assms(5,6) p
    by (simp del: setup_params.simps add: ParseSetupStream_def Let_def w1_def [symmetric] w2_def)
  moreover have "lite w2 i = Some (s\<lparr>saw_peer_setup := True, recv_streams := recv_streams s\<rparr>\<lparr>recv_streams := map_put sid
      ((rs (on_lite i (\<lambda>_. s\<lparr>saw_peer_setup := True\<rparr>) w1) i sid)\<lparr>rs_buf := drop 5 ?m, rs_done := True\<rparr>) (recv_streams s)\<rparr>)"
    using assms(1) by (simp add: w2_def w1_def on_rs_def)
  moreover have "default_path w2 = default_path w" "paths w2 = paths w" by (simp_all add: w2_def w1_def)
  ultimately show ?thesis using setup_is_done [of w2 i] assms by simp
qed

text \<open>
  A setup message whose role is not even an integer: the check reports it by setting the flag that means all is well, so the
  session takes the message for good and starts to work.
\<close>

theorem malformed_setup_is_accepted:
  assumes "lite w i = Some s" "\<not> ls_dead s" "\<not> saw_peer_setup s" "rs w i sid = new_RecvStream" "uni_stream sid"
    and "path_only s = []" "default_path w \<in> set (paths w)"
  shows "\<exists>w1. HandleStreamData now i sid (1 # bad_role) False w = Inr w1 \<and> \<not> is_dead w1 i \<and> the_lite False peer_setup_done w1 i"
proof -
  let ?m = "bad_role"
  define w1 where "w1 = on_rs i sid (\<lambda>r. r\<lparr>rs_buf := rs_buf r @ (1 # ?m), rs_fin := rs_fin r \<or> False\<rparr>) (on_rs i sid id w)"
  define w2 where "w2 = on_lite i (\<lambda>s. s\<lparr>saw_peer_setup := True\<rparr>) (on_rs i sid (\<lambda>r. r\<lparr>rs_type := 1, rs_typed := True, rs_buf := drop 1 (rs_buf r)\<rparr>) w1)"
  have al: "lite w i \<noteq> None" using assms(1) by simp
  have r1: "rs w1 i sid = new_RecvStream\<lparr>rs_buf := 1 # ?m\<rparr>" using al assms(4) by (simp add: w1_def new_RecvStream_def)
  obtain x where w1: "lite w1 i = Some (s\<lparr>recv_streams := x\<rparr>)" using assms(1) by (simp add: w1_def on_rs_def)
  obtain y where w2: "lite w2 i = Some (s\<lparr>recv_streams := y, saw_peer_setup := True\<rparr>)" using w1 by (simp add: w2_def on_rs_def)
  have rs2: "rs (on_lite i (\<lambda>s. s\<lparr>saw_peer_setup := True\<rparr>) v) i sid = rs v i sid" for v
    by (cases "lite v i") (simp_all add: rs_def the_lite_def)
  have r2: "rs w2 i sid = new_RecvStream\<lparr>rs_type := 1, rs_typed := True, rs_buf := ?m\<rparr>" using w1 r1 by (simp add: w2_def rs2 new_RecvStream_def)
  have seen: "OnStreamTypeSeen i sid (on_rs i sid (\<lambda>r. r\<lparr>rs_type := 1, rs_typed := True, rs_buf := drop 1 (rs_buf r)\<rparr>) w1) = w2"
    using w1 r1 assms(3,5) by (simp add: OnStreamTypeSeen_def Let_def known_type_def kTypeSetup_def w2_def) (simp add: on_rs_def the_lite_def)
  have paths: "default_path w2 = default_path w" "paths w2 = paths w" by (simp_all add: w2_def w1_def)
  define w3 where "w3 = ParseSetupStream i sid w2"
  have w3: "\<not> is_dead w3 i \<and> the_lite False peer_setup_done w3 i"
    unfolding w3_def using bad_role_parsed [OF w2] r2 assms(2,6,7) paths by (simp add: new_RecvStream_def)
  have "HandleStreamData now i sid (1 # ?m) False w = Parse now i sid w1"
    using assms(1,2,4) r1 al by (simp add: HandleStreamData_def Let_def w1_def is_dead_def the_lite_def new_RecvStream_def kMaxRecvBuf_def)
  also have "\<dots> = Parse_typed now i sid w2"
    using r1 r2 seen w2 assms(2) by (simp add: Parse_def Let_def new_RecvStream_def is_dead_def the_lite_def)
  also have "\<dots> = Inr (if rs_done (rs w3 i sid) then on_rs i sid (\<lambda>r. r\<lparr>rs_buf := []\<rparr>) w3 else w3)"
    using r2 assms(5) by (simp add: Parse_typed_def parse_by_type_def Let_def w3_def kTypeSetup_def new_RecvStream_def)
  finally have h: "HandleStreamData now i sid (1 # ?m) False w = Inr (if rs_done (rs w3 i sid) then on_rs i sid (\<lambda>r. r\<lparr>rs_buf := []\<rparr>) w3 else w3)" .
  have "same_flags w3 (on_rs i sid (\<lambda>r. r\<lparr>rs_buf := []\<rparr>) w3)" by (rule same_flags_rs) simp
  from same_flags_get [OF this, of i] w3 h show ?thesis by auto
qed

theorem malformed_setup_is_accepted_witness:
  "\<exists>w1. HandleStreamData 5 0 3 (1 # bad_role) False example_world = Inr w1 \<and> \<not> is_dead w1 0 \<and> the_lite False peer_setup_done w1 0"
  by (rule malformed_setup_is_accepted [where s = example_lite])
    (simp_all add: example_world_def lite_def example_lite_def new_MoqLiteSession_def rs_def the_lite_def uni_stream_def)

end
