(* ===== verification/Quic_Congestion.thy ===== *)
theory Quic_Congestion
  imports Prelude
begin

text \<open>
  The congestion controllers' interface, \<open>quic/congestion_control/quic_cc.h\<close>, and the NewReno controller behind it,
  \<open>quic_cc_newreno.c\<close>. The table of function pointers is a record of functions on a controller's private state; only
  \<open>get_cwnd\<close> may change the state it reads (BBR's does), so it returns it too. All counters are 64-bit words. Logging and
  the report structure \<open>quic_cc_info\<close> but for the pacing rate are left out.
\<close>

lemma unat_add_small: "unat a + unat b < 2 ^ 64 \<Longrightarrow> unat (a + b) = unat a + unat b" for a b :: u64
  by (simp add: unat_word_ariths)

lemma unat_sub_le: "b \<le> a \<Longrightarrow> unat (a - b) = unat a - unat b" for a b :: u64
  by (rule unat_sub)

section \<open>The interface\<close>

definition QUIC_MIN_PKT_SIZE :: u64 where "QUIC_MIN_PKT_SIZE = 1200"

record 'cc quic_cc_ops =
  cc_on_packet_sent :: "u64 \<Rightarrow> u64 \<Rightarrow> u64 \<Rightarrow> 'cc \<Rightarrow> 'cc"
  cc_on_packet_acked :: "u64 \<Rightarrow> u64 \<Rightarrow> u64 \<Rightarrow> u64 \<Rightarrow> 'cc \<Rightarrow> 'cc"
  cc_on_congestion_event :: "u64 \<Rightarrow> 'cc \<Rightarrow> 'cc"
  cc_on_persistent_congestion :: "u64 \<Rightarrow> 'cc \<Rightarrow> 'cc"
  cc_get_cwnd :: "u64 \<Rightarrow> 'cc \<Rightarrow> u64 \<times> 'cc"

definition quic_cc_can_send :: "'cc quic_cc_ops \<Rightarrow> u64 \<Rightarrow> u64 \<Rightarrow> 'cc \<Rightarrow> bool \<times> 'cc" where
  "quic_cc_can_send ops now in_flight cc =
     (case cc_get_cwnd ops now cc of (cwnd, cc1) \<Rightarrow>
        (if in_flight < cwnd then True else in_flight < cwnd + QUIC_MIN_PKT_SIZE, cc1))"

section \<open>NewReno\<close>

record newreno =
  nr_cwnd :: u64
  nr_ssthresh :: u64
  nr_bytes_acked_ca :: u64

definition quic_cc_newreno_create :: newreno where
  "quic_cc_newreno_create = \<lparr>nr_cwnd = 256 * QUIC_MIN_PKT_SIZE, nr_ssthresh = -1, nr_bytes_acked_ca = 0\<rparr>"

definition nr_on_packet_sent :: "u64 \<Rightarrow> u64 \<Rightarrow> u64 \<Rightarrow> newreno \<Rightarrow> newreno" where
  "nr_on_packet_sent pn bytes now nr = nr"

text \<open>
  With a window of zero the loop of the code would not end; the model then leaves the state as it is. The window is never
  zero (\<open>newreno_window_bounds\<close>), so the second disjunct below is the loop's only exit.
\<close>

function nr_grow :: "newreno \<Rightarrow> newreno" where
  "nr_grow nr =
     (if nr_cwnd nr = 0 \<or> nr_bytes_acked_ca nr < nr_cwnd nr then nr
      else nr_grow (nr\<lparr>nr_bytes_acked_ca := nr_bytes_acked_ca nr - nr_cwnd nr, nr_cwnd := nr_cwnd nr + QUIC_MIN_PKT_SIZE\<rparr>))"
  by auto
termination
proof (relation "measure (\<lambda>nr. unat (nr_bytes_acked_ca nr))")
  fix nr :: newreno
  assume a: "\<not> (nr_cwnd nr = 0 \<or> nr_bytes_acked_ca nr < nr_cwnd nr)"
  then have "unat (nr_bytes_acked_ca nr - nr_cwnd nr) = unat (nr_bytes_acked_ca nr) - unat (nr_cwnd nr)" "0 < unat (nr_cwnd nr)"
    "unat (nr_cwnd nr) \<le> unat (nr_bytes_acked_ca nr)"
    by (simp_all add: unat_sub_le not_less unat_gt_0 word_le_nat_alt)
  then show "(nr\<lparr>nr_bytes_acked_ca := nr_bytes_acked_ca nr - nr_cwnd nr, nr_cwnd := nr_cwnd nr + QUIC_MIN_PKT_SIZE\<rparr>, nr)
      \<in> measure (\<lambda>nr. unat (nr_bytes_acked_ca nr))" by simp
qed simp

declare nr_grow.simps [simp del]

definition nr_on_packet_acked :: "u64 \<Rightarrow> u64 \<Rightarrow> u64 \<Rightarrow> u64 \<Rightarrow> newreno \<Rightarrow> newreno" where
  "nr_on_packet_acked pn bytes rtt_us now nr =
     (if nr_cwnd nr < nr_ssthresh nr then nr\<lparr>nr_cwnd := nr_cwnd nr + bytes\<rparr>
      else nr_grow (nr\<lparr>nr_bytes_acked_ca := nr_bytes_acked_ca nr + bytes\<rparr>))"

definition nr_on_congestion_event :: "u64 \<Rightarrow> newreno \<Rightarrow> newreno" where
  "nr_on_congestion_event now nr =
     (let half = nr_cwnd nr div 2; s = (if half < 2 * QUIC_MIN_PKT_SIZE then 2 * QUIC_MIN_PKT_SIZE else half) in
      nr\<lparr>nr_ssthresh := s, nr_cwnd := s, nr_bytes_acked_ca := 0\<rparr>)"

definition nr_on_persistent_congestion :: "u64 \<Rightarrow> newreno \<Rightarrow> newreno" where
  "nr_on_persistent_congestion now nr =
     nr\<lparr>nr_cwnd := 2 * QUIC_MIN_PKT_SIZE, nr_ssthresh := 2 * QUIC_MIN_PKT_SIZE, nr_bytes_acked_ca := 0\<rparr>"

definition nr_get_cwnd :: "u64 \<Rightarrow> newreno \<Rightarrow> u64 \<times> newreno" where "nr_get_cwnd now nr = (nr_cwnd nr, nr)"

definition nr_ops :: "newreno quic_cc_ops" where
  "nr_ops = \<lparr>cc_on_packet_sent = nr_on_packet_sent, cc_on_packet_acked = nr_on_packet_acked,
     cc_on_congestion_event = nr_on_congestion_event, cc_on_persistent_congestion = nr_on_persistent_congestion,
     cc_get_cwnd = nr_get_cwnd\<rparr>"

section \<open>What a controller promises\<close>

text \<open>
  \<open>good n cc\<close> is a controller's invariant after at most \<open>n\<close> acknowledged packets, none of more than 1500 octets: every
  operation keeps it. A controller whose window is never under two packets promises more.
\<close>

locale controller_invariant =
  fixes ops :: "'cc quic_cc_ops" and good :: "nat \<Rightarrow> 'cc \<Rightarrow> bool"
  assumes sent: "good n cc \<Longrightarrow> good n (cc_on_packet_sent ops pn bytes now cc)"
    and acked: "good n cc \<Longrightarrow> n < 2 ^ 50 \<Longrightarrow> unat bytes \<le> 1500 \<Longrightarrow> good (Suc n) (cc_on_packet_acked ops pn bytes rtt now cc)"
    and later: "good n cc \<Longrightarrow> good (Suc n) cc"
    and event: "good n cc \<Longrightarrow> good n (cc_on_congestion_event ops now cc)"
    and persistent: "good n cc \<Longrightarrow> good n (cc_on_persistent_congestion ops now cc)"
    and asked: "good n cc \<Longrightarrow> good n (snd (cc_get_cwnd ops now cc))"
begin

lemma can_send_keeps: "good n cc \<Longrightarrow> good n (snd (quic_cc_can_send ops now in_flight cc))"
  using asked [of n cc now] by (auto simp: quic_cc_can_send_def split: prod.split)

end

locale congestion_controller = controller_invariant +
  assumes window: "good n cc \<Longrightarrow> 2 * QUIC_MIN_PKT_SIZE \<le> fst (cc_get_cwnd ops now cc)"
begin

lemma can_send_idle: "good n cc \<Longrightarrow> in_flight < 2 * QUIC_MIN_PKT_SIZE \<Longrightarrow> fst (quic_cc_can_send ops now in_flight cc)"
  using window [of n cc now] by (auto simp: quic_cc_can_send_def split: prod.split)

end

text \<open>What holds of every controller: the invariant that says nothing.\<close>

interpretation any_cc: controller_invariant ops "\<lambda>_ _. True" for ops :: "'cc quic_cc_ops"
  by unfold_locales simp_all

section \<open>NewReno keeps it\<close>

text \<open>
  The octets of the window and those counted towards its next step grow by what is acknowledged at most, because a step takes
  a window's worth of the count and gives one packet for it; congestion only lowers them.
\<close>

definition nr_good :: "nat \<Rightarrow> newreno \<Rightarrow> bool" where
  "nr_good n nr \<longleftrightarrow> 2400 \<le> unat (nr_cwnd nr) \<and> unat (nr_cwnd nr) + unat (nr_bytes_acked_ca nr) \<le> 307200 + 1500 * n"

lemma nr_grow_keeps:
  assumes "2400 \<le> unat (nr_cwnd nr)" "unat (nr_cwnd nr) + unat (nr_bytes_acked_ca nr) \<le> b" "b < 2 ^ 63"
  shows "2400 \<le> unat (nr_cwnd (nr_grow nr)) \<and> unat (nr_cwnd (nr_grow nr)) + unat (nr_bytes_acked_ca (nr_grow nr)) \<le> b"
  using assms(1,2)
proof (induction nr rule: nr_grow.induct)
  case (1 nr)
  show ?case
  proof (cases "nr_cwnd nr = 0 \<or> nr_bytes_acked_ca nr < nr_cwnd nr")
    case True
    then show ?thesis using 1 by (subst (1 2 3) nr_grow.simps) simp
  next
    case False
    then have le: "unat (nr_cwnd nr) \<le> unat (nr_bytes_acked_ca nr)" by (simp add: not_less word_le_nat_alt)
    have w: "unat (nr_cwnd nr + QUIC_MIN_PKT_SIZE) = unat (nr_cwnd nr) + 1200"
      using 1(3) assms(3) by (simp add: QUIC_MIN_PKT_SIZE_def unat_add_small)
    have s: "unat (nr_bytes_acked_ca nr - nr_cwnd nr) = unat (nr_bytes_acked_ca nr) - unat (nr_cwnd nr)"
      using le by (simp add: unat_sub word_le_nat_alt)
    show ?thesis using 1(1) [OF False] 1(2,3) le w s False by (subst (1 2 3) nr_grow.simps) simp
  qed
qed

interpretation nr: congestion_controller nr_ops nr_good
proof
  fix n nr and bytes pn rtt now :: u64
  assume g: "nr_good n nr"
  then have c: "2400 \<le> unat (nr_cwnd nr)" by (simp add: nr_good_def)
  show "nr_good n (cc_on_packet_sent nr_ops pn bytes now nr)" using g by (simp add: nr_ops_def nr_on_packet_sent_def)
  show "nr_good (Suc n) nr" using g by (simp add: nr_good_def)
  show "nr_good n (cc_on_persistent_congestion nr_ops now nr)"
    using g by (simp add: nr_good_def nr_ops_def nr_on_persistent_congestion_def QUIC_MIN_PKT_SIZE_def)
  show "nr_good n (cc_on_congestion_event nr_ops now nr)"
    using g by (auto simp: nr_good_def nr_ops_def nr_on_congestion_event_def QUIC_MIN_PKT_SIZE_def Let_def unat_div word_less_nat_alt)
  show "2 * QUIC_MIN_PKT_SIZE \<le> fst (cc_get_cwnd nr_ops now nr)" "nr_good n (snd (cc_get_cwnd nr_ops now nr))"
    using g by (simp_all add: nr_good_def nr_ops_def nr_get_cwnd_def QUIC_MIN_PKT_SIZE_def word_le_nat_alt)
  assume n: "n < 2 ^ 50" and b: "unat bytes \<le> 1500"
  show "nr_good (Suc n) (cc_on_packet_acked nr_ops pn bytes rtt now nr)"
  proof (cases "nr_cwnd nr < nr_ssthresh nr")
    case True
    then show ?thesis using g n b
      by (simp add: nr_good_def nr_ops_def nr_on_packet_acked_def unat_add_small)
  next
    case False
    have "unat (nr_bytes_acked_ca nr + bytes) = unat (nr_bytes_acked_ca nr) + unat bytes"
      using g n b by (simp add: nr_good_def unat_add_small)
    then show ?thesis
      using nr_grow_keeps [of "nr\<lparr>nr_bytes_acked_ca := nr_bytes_acked_ca nr + bytes\<rparr>" "307200 + 1500 * Suc n"] g n b False
      by (simp add: nr_good_def nr_ops_def nr_on_packet_acked_def)
  qed
qed

end
