(* ===== verification/Quic_Recovery.thy ===== *)
theory Quic_Recovery
  imports Quic_Frame Quic_Congestion
begin

text \<open>
  Loss recovery of a QUIC connection, \<open>quic/quic_recovery.c\<close>, first part: the state, the RTT estimate, the ring of sent
  packets, the table of chunks (what a packet carried, to be sent again), acknowledgements and the bookkeeping of a packet
  that was sent. The ring is the array of the code, a function from its indices, with the head and the count; the
  table is the live prefix of \<open>chunks_\<close>. Packet numbers, octet counts and milliseconds are 64-bit words, the two statistics counters natural numbers. A payload pointer is
  \<open>None\<close> for NULL; allocation does not fail. Fields that only steer logging are left out. \<open>now\<close> is \<open>uv_now\<close>.
\<close>

section \<open>State\<close>

definition QUIC_RECOVERY_MAX_SENT_PACKETS :: nat where "QUIC_RECOVERY_MAX_SENT_PACKETS = 4096"
definition QUIC_RECOVERY_MAX_CHUNKS :: nat where "QUIC_RECOVERY_MAX_CHUNKS = 512"
definition QUIC_INITIAL_PTO_MS :: u64 where "QUIC_INITIAL_PTO_MS = 200"
definition QUIC_MIN_PTO_MS :: u64 where "QUIC_MIN_PTO_MS = 10"
definition QUIC_PKT_INITIAL :: int where "QUIC_PKT_INITIAL = 0"
definition QUIC_PKT_HANDSHAKE :: int where "QUIC_PKT_HANDSHAKE = 2"
definition QUIC_TLS_LEVEL_NONE :: nat where "QUIC_TLS_LEVEL_NONE = 0"
definition QUIC_TLS_LEVEL_HANDSHAKE :: nat where "QUIC_TLS_LEVEL_HANDSHAKE = 2"
definition QUIC_TLS_LEVEL_APPLICATION :: nat where "QUIC_TLS_LEVEL_APPLICATION = 3"
definition no_chunk :: u64 where "no_chunk = -1"

lemmas recovery_consts = QUIC_RECOVERY_MAX_SENT_PACKETS_def QUIC_RECOVERY_MAX_CHUNKS_def

datatype chunk_state = ChunkSending | ChunkLost | ChunkAcked

record chunk =
  ck_id :: u64
  ck_state :: chunk_state
  ck_first_sent_ms :: u64
  ck_bytes :: u64
  ck_frames :: "octets option"
  ck_retrans_count :: nat
  ck_pkt_type :: int
  ck_last_retrans_ms :: u64

record sent_packet =
  sp_pn :: u64
  sp_chunk_id :: u64
  sp_time_sent_ms :: u64
  sp_bytes_sent :: u64
  sp_ack_eliciting :: bool
  sp_acknowledged :: bool
  sp_lost :: bool
  sp_pkt_type :: int
  sp_frames :: "octets option"

record 'cc recovery =
  ring :: "nat \<Rightarrow> sent_packet"
  sent_head :: nat
  sent_count :: nat
  chunks :: "chunk list"
  next_chunk_id :: u64
  current_retrans_chunk_id :: u64
  min_rtt :: u64
  smoothed_rtt :: u64
  latest_rtt :: u64
  rttvar :: u64
  jitter_ms :: u64
  prev_rtt_sample :: u64
  packets_lost :: nat
  packets_acked :: nat
  rtt_initialized :: bool
  pto_count :: u64
  pto_base :: u64
  loss_epoch_start_ms :: u64
  persistent_congestion_detected :: bool
  last_progress_ms :: u64
  congestion :: "'cc option"
  bytes_in_flight :: u64
  largest_acked_pn :: "nat \<Rightarrow> u64"
  pto_timer :: "u64 option"
  last_keepalive_ms :: u64

definition empty_packet :: sent_packet where
  "empty_packet = \<lparr>sp_pn = 0, sp_chunk_id = 0, sp_time_sent_ms = 0, sp_bytes_sent = 0, sp_ack_eliciting = False,
     sp_acknowledged = False, sp_lost = False, sp_pkt_type = 0, sp_frames = None\<rparr>"

definition quic_recovery_init :: "'cc \<Rightarrow> 'cc recovery" where
  "quic_recovery_init cc = \<lparr>ring = (\<lambda>_. empty_packet), sent_head = 0, sent_count = 0, chunks = [], next_chunk_id = 0,
     current_retrans_chunk_id = no_chunk, min_rtt = 0, smoothed_rtt = 0, latest_rtt = 0, rttvar = 0, jitter_ms = 0,
     prev_rtt_sample = 0, packets_lost = 0, packets_acked = 0, rtt_initialized = False, pto_count = 0,
     pto_base = QUIC_INITIAL_PTO_MS, loss_epoch_start_ms = 0, persistent_congestion_detected = False,
     last_progress_ms = 0, congestion = Some cc, bytes_in_flight = 0, largest_acked_pn = (\<lambda>_. 0), pto_timer = None,
     last_keepalive_ms = 0\<rparr>"

definition pkt_type_to_level :: "int \<Rightarrow> nat" where
  "pkt_type_to_level t =
     (if t = QUIC_PKT_INITIAL then QUIC_TLS_LEVEL_NONE
      else if t = QUIC_PKT_HANDSHAKE then QUIC_TLS_LEVEL_HANDSHAKE
      else QUIC_TLS_LEVEL_APPLICATION)"

definition slot_oldest_to_newest :: "('cc, 'z) recovery_scheme \<Rightarrow> nat \<Rightarrow> nat" where
  "slot_oldest_to_newest r i =
     nat ((int (sent_head r) - int (sent_count r) + int i + int QUIC_RECOVERY_MAX_SENT_PACKETS)
          mod int QUIC_RECOVERY_MAX_SENT_PACKETS)"

definition packet_at :: "('cc, 'z) recovery_scheme \<Rightarrow> nat \<Rightarrow> sent_packet" where
  "packet_at r i = ring r (slot_oldest_to_newest r i)"

definition on_packet :: "nat \<Rightarrow> (sent_packet \<Rightarrow> sent_packet) \<Rightarrow> ('cc, 'z) recovery_scheme \<Rightarrow> ('cc, 'z) recovery_scheme" where
  "on_packet idx f r = r\<lparr>ring := (ring r)(idx := f (ring r idx))\<rparr>"

definition quic_recovery_cleanup :: "('cc, 'z) recovery_scheme \<Rightarrow> ('cc, 'z) recovery_scheme" where
  "quic_recovery_cleanup r =
     (fold (\<lambda>i r. on_packet (slot_oldest_to_newest r i) (\<lambda>p. p\<lparr>sp_frames := None\<rparr>) r) [0..<sent_count r] (r\<lparr>pto_timer := None\<rparr>))
       \<lparr>sent_count := 0, chunks := [], congestion := None\<rparr>"

definition with_cc :: "('cc \<Rightarrow> 'cc) \<Rightarrow> ('cc, 'z) recovery_scheme \<Rightarrow> ('cc, 'z) recovery_scheme" where
  "with_cc f r = r\<lparr>congestion := map_option f (congestion r)\<rparr>"

definition inflight_sub :: "u64 \<Rightarrow> ('cc, 'z) recovery_scheme \<Rightarrow> ('cc, 'z) recovery_scheme" where
  "inflight_sub n r = r\<lparr>bytes_in_flight := (if bytes_in_flight r < n then 0 else bytes_in_flight r - n)\<rparr>"

section \<open>Round-trip time\<close>

definition abs_diff :: "u64 \<Rightarrow> u64 \<Rightarrow> u64" where "abs_diff a b = word_of_int \<bar>sint a - sint b\<bar>"

text \<open>Division of \<open>int64_t\<close> rounds towards zero.\<close>

definition jitter_step :: "u64 \<Rightarrow> u64 \<Rightarrow> u64" where
  "jitter_step jit ad =
     (let d = sint ad - sint jit; j = sint jit + sgn d * (\<bar>d\<bar> div 16) in if j < 0 then 0 else word_of_int j)"

definition update_rtt :: "u64 \<Rightarrow> ('cc, 'z) recovery_scheme \<Rightarrow> ('cc, 'z) recovery_scheme" where
  "update_rtt s r0 =
     (let r = r0\<lparr>latest_rtt := s\<rparr>;
          r1 = (if \<not> rtt_initialized r
                then r\<lparr>min_rtt := s, smoothed_rtt := s, rttvar := s div 2, jitter_ms := 0, prev_rtt_sample := s, rtt_initialized := True\<rparr>
                else r\<lparr>rttvar := (3 * rttvar r + abs_diff (smoothed_rtt r) s) div 4,
                       smoothed_rtt := (7 * smoothed_rtt r + s) div 8,
                       min_rtt := (if s < min_rtt r then s else min_rtt r),
                       jitter_ms := jitter_step (jitter_ms r) (abs_diff s (prev_rtt_sample r)),
                       prev_rtt_sample := s\<rparr>);
          base = smoothed_rtt r1 + 4 * rttvar r1 in
      r1\<lparr>pto_base := (if base < QUIC_MIN_PTO_MS then QUIC_MIN_PTO_MS else base)\<rparr>)"

section \<open>Chunks\<close>

text \<open>\<open>chunk_find\<close> as the index the pointer stands for: the first entry with the id.\<close>

fun chunk_find :: "chunk list \<Rightarrow> u64 \<Rightarrow> nat option" where
  "chunk_find [] cid = None"
| "chunk_find (c # cs) cid = (if ck_id c = cid then Some 0 else map_option Suc (chunk_find cs cid))"

definition on_chunk :: "nat option \<Rightarrow> (chunk \<Rightarrow> chunk) \<Rightarrow> ('cc, 'z) recovery_scheme \<Rightarrow> ('cc, 'z) recovery_scheme" where
  "on_chunk ci f r = (case ci of None \<Rightarrow> r | Some j \<Rightarrow> r\<lparr>chunks := (chunks r)[j := f (chunks r ! j)]\<rparr>)"

definition chunk_is :: "chunk_state \<Rightarrow> nat option \<Rightarrow> ('cc, 'z) recovery_scheme \<Rightarrow> bool" where
  "chunk_is st ci r \<longleftrightarrow> (case ci of None \<Rightarrow> False | Some j \<Rightarrow> ck_state (chunks r ! j) = st)"

definition fresh_chunk :: "u64 \<Rightarrow> u64 \<Rightarrow> chunk" where
  "fresh_chunk cid now = \<lparr>ck_id = cid, ck_state = ChunkSending, ck_first_sent_ms = now, ck_bytes = 0, ck_frames = None,
     ck_retrans_count = 0, ck_pkt_type = 0, ck_last_retrans_ms = now\<rparr>"

text \<open>The entry given up when the table is full of chunks not yet acknowledged: the first with the highest score.\<close>

definition victim_score :: "chunk \<Rightarrow> nat" where
  "victim_score c = ck_retrans_count c + (if ck_state c = ChunkLost then 1000000 else 0)"

fun victim_from :: "nat \<Rightarrow> chunk list \<Rightarrow> (nat \<times> nat) option \<Rightarrow> (nat \<times> nat) option" where
  "victim_from i [] best = best"
| "victim_from i (c # cs) best =
     victim_from (Suc i) cs
       (if ck_state c = ChunkAcked then best
        else case best of None \<Rightarrow> Some (i, victim_score c)
             | Some (j, s) \<Rightarrow> if victim_score c > s then Some (i, victim_score c) else best)"

definition add_chunk :: "u64 \<Rightarrow> chunk list \<Rightarrow> ('cc, 'z) recovery_scheme \<Rightarrow> ('cc, 'z) recovery_scheme \<times> nat option" where
  "add_chunk now cs r =
     (r\<lparr>chunks := cs @ [fresh_chunk (next_chunk_id r) now], next_chunk_id := next_chunk_id r + 1\<rparr>, Some (length cs))"

definition chunk_alloc :: "u64 \<Rightarrow> ('cc, 'z) recovery_scheme \<Rightarrow> ('cc, 'z) recovery_scheme \<times> nat option" where
  "chunk_alloc now r =
     (if length (chunks r) < QUIC_RECOVERY_MAX_CHUNKS then add_chunk now (chunks r) r
      else let kept = filter (\<lambda>c. ck_state c \<noteq> ChunkAcked) (chunks r) in
        if length kept < QUIC_RECOVERY_MAX_CHUNKS then add_chunk now kept r
        else case victim_from 0 kept None of
            Some (v, s) \<Rightarrow> add_chunk now (take v kept @ drop (Suc v) kept) r
          | None \<Rightarrow> (r\<lparr>chunks := kept\<rparr>, None))"

section \<open>Acknowledgements\<close>

definition ack_slot :: "sent_packet \<Rightarrow> sent_packet" where "ack_slot p = p\<lparr>sp_acknowledged := True, sp_frames := None\<rparr>"

text \<open>Whether a packet still counts as being on its way.\<close>

definition counted :: "sent_packet \<Rightarrow> bool" where "counted p \<longleftrightarrow> sp_ack_eliciting p \<and> \<not> sp_lost p"

definition ack_by_chunk :: "u64 \<Rightarrow> nat \<Rightarrow> ('cc, 'z) recovery_scheme \<Rightarrow> ('cc, 'z) recovery_scheme" where
  "ack_by_chunk cid i r =
     (let idx = slot_oldest_to_newest r i; p = ring r idx in
      if sp_chunk_id p = cid \<and> \<not> sp_acknowledged p
      then on_packet idx ack_slot (if counted p then inflight_sub (sp_bytes_sent p) r else r)
      else r)"

definition chunk_mark_acked :: "u64 \<Rightarrow> ('cc, 'z) recovery_scheme \<Rightarrow> ('cc, 'z) recovery_scheme" where
  "chunk_mark_acked cid r =
     (let ci = chunk_find (chunks r) cid in
      if ci = None \<or> chunk_is ChunkAcked ci r then r
      else fold (ack_by_chunk cid) [0..<sent_count r]
             (on_chunk ci (\<lambda>c. c\<lparr>ck_state := ChunkAcked, ck_frames := None\<rparr>) r))"

text \<open>The locals of \<open>process_ack_ranges\<close> are passed along: how many packets are newly acknowledged, and the largest of them.\<close>

definition ack_match :: "u64 \<Rightarrow> nat \<Rightarrow> sent_packet \<Rightarrow> bool" where
  "ack_match pn level p \<longleftrightarrow> sp_pn p = pn \<and> \<not> sp_acknowledged p \<and> pkt_type_to_level (sp_pkt_type p) = level"

definition mark_pn_acked ::
  "'cc quic_cc_ops \<Rightarrow> u64 \<Rightarrow> nat \<Rightarrow> u64 \<Rightarrow> ('cc, 'z) recovery_scheme \<times> nat \<times> u64 \<Rightarrow> ('cc, 'z) recovery_scheme \<times> nat \<times> u64" where
  "mark_pn_acked ops now level pn st =
     (case st of (r, count, largest) \<Rightarrow>
        (case find (\<lambda>i. ack_match pn level (packet_at r i)) [0..<sent_count r] of
           None \<Rightarrow> st
         | Some i \<Rightarrow>
             let idx = slot_oldest_to_newest r i; p = ring r idx; rtt = now - sp_time_sent_ms p;
                 r1 = on_packet idx (\<lambda>p. p\<lparr>sp_acknowledged := True\<rparr>) (r\<lparr>packets_acked := Suc (packets_acked r)\<rparr>);
                 sample = (counted p \<and> pn > largest);
                 r2 = (if sample then update_rtt rtt r1 else r1);
                 r3 = (if counted p then
                         let r3 = inflight_sub (sp_bytes_sent p) r2 in
                         if sp_pkt_type p = -1
                         then with_cc (cc_on_packet_acked ops pn (sp_bytes_sent p) (rtt * 1000) now) r3 else r3
                       else r2) in
             (chunk_mark_acked (sp_chunk_id p) r3, Suc count, if sample then pn else largest)))"

text \<open>
  The loop over a range counts a 64-bit number up to and including its end: when the end is the largest such number the
  comparison always holds and the loop does not return, which is the value \<open>None\<close>.
\<close>

partial_function (option) mark_range ::
  "'cc quic_cc_ops \<Rightarrow> u64 \<Rightarrow> nat \<Rightarrow> u64 \<Rightarrow> u64 \<Rightarrow> ('cc, 'z) recovery_scheme \<times> nat \<times> u64
     \<Rightarrow> (('cc, 'z) recovery_scheme \<times> nat \<times> u64) option" where
  "mark_range ops now level pn range_end st =
     (if pn \<le> range_end then mark_range ops now level (pn + 1) range_end (mark_pn_acked ops now level pn st) else Some st)"

fun mark_ranges ::
  "'cc quic_cc_ops \<Rightarrow> u64 \<Rightarrow> nat \<Rightarrow> u64 \<Rightarrow> (u64 \<times> u64) list \<Rightarrow> ('cc, 'z) recovery_scheme \<times> nat \<times> u64
     \<Rightarrow> (('cc, 'z) recovery_scheme \<times> nat \<times> u64) option" where
  "mark_ranges ops now level prev [] st = Some st"
| "mark_ranges ops now level prev ((gap, len) # rs) st =
     (let r_end = prev - gap - 2; r_start = r_end - len in
      case mark_range ops now level r_start r_end st of
        None \<Rightarrow> None
      | Some st1 \<Rightarrow> mark_ranges ops now level r_start rs st1)"

definition process_ack_ranges ::
  "'cc quic_cc_ops \<Rightarrow> u64 \<Rightarrow> nat \<Rightarrow> QuicAckFrame \<Rightarrow> ('cc, 'z) recovery_scheme \<Rightarrow> (('cc, 'z) recovery_scheme \<times> bool) option" where
  "process_ack_ranges ops now level ack r =
     (let r1 = (if largest_acknowledged ack > largest_acked_pn r level
                then r\<lparr>largest_acked_pn := (largest_acked_pn r)(level := largest_acknowledged ack)\<rparr> else r);
          range_start = largest_acknowledged ack - first_ack_range ack in
      case mark_range ops now level range_start (largest_acknowledged ack) (r1, 0, 0) of
        None \<Rightarrow> None
      | Some st \<Rightarrow>
          (case mark_ranges ops now level range_start (ack_ranges ack) st of
             None \<Rightarrow> None
           | Some (r2, count, _) \<Rightarrow> Some (r2, count > 0)))"

section \<open>The ring and the timer\<close>

definition compact_sent_packets :: "('cc, 'z) recovery_scheme \<Rightarrow> ('cc, 'z) recovery_scheme" where
  "compact_sent_packets r =
     (let kept = filter (\<lambda>p. \<not> sp_acknowledged p) (map (packet_at r) [0..<sent_count r]); n = length kept in
      if n < sent_count r
      then r\<lparr>ring := (\<lambda>i. if i < n then kept ! i else ring r i), sent_count := n, sent_head := n\<rparr>
      else r)"

definition arm_pto_timer :: "u64 \<Rightarrow> ('cc, 'z) recovery_scheme \<Rightarrow> ('cc, 'z) recovery_scheme" where
  "arm_pto_timer now r =
     (if \<not> list_ex (\<lambda>i. \<not> sp_acknowledged (packet_at r i) \<and> sp_ack_eliciting (packet_at r i)) [0..<sent_count r]
      then r\<lparr>pto_timer := None\<rparr>
      else let n = (if pto_count r > 3 then 3 else pto_count r) in
        r\<lparr>pto_count := n, pto_timer := Some (now + pto_base r * 2 ^ unat n)\<rparr>)"

definition recovery_clear_space :: "int \<Rightarrow> ('cc, 'z) recovery_scheme \<Rightarrow> ('cc, 'z) recovery_scheme" where
  "recovery_clear_space t r =
     (let r1 = fold (\<lambda>i r. let idx = slot_oldest_to_newest r i; p = ring r idx in
            if sp_acknowledged p \<or> sp_pkt_type p \<noteq> t then r
            else on_packet idx ack_slot (if counted p then inflight_sub (sp_bytes_sent p) r else r)) [0..<sent_count r] r in
      r1\<lparr>chunks := map (\<lambda>c. if ck_state c = ChunkAcked \<or> ck_pkt_type c \<noteq> t then c
                            else c\<lparr>ck_state := ChunkAcked, ck_frames := None\<rparr>) (chunks r1)\<rparr>)"

definition quic_recovery_handshake_done :: "u64 \<Rightarrow> ('cc, 'z) recovery_scheme \<Rightarrow> ('cc, 'z) recovery_scheme" where
  "quic_recovery_handshake_done now r = arm_pto_timer now (recovery_clear_space QUIC_PKT_INITIAL r)"

definition quic_recovery_clear_handshake :: "u64 \<Rightarrow> ('cc, 'z) recovery_scheme \<Rightarrow> ('cc, 'z) recovery_scheme" where
  "quic_recovery_clear_handshake now r = arm_pto_timer now (recovery_clear_space QUIC_PKT_HANDSHAKE r)"

definition quic_recovery_reset_pto :: "('cc, 'z) recovery_scheme \<Rightarrow> ('cc, 'z) recovery_scheme" where
  "quic_recovery_reset_pto r = r\<lparr>pto_timer := None, pto_count := 0\<rparr>"

definition quic_recovery_can_send :: "'cc quic_cc_ops \<Rightarrow> u64 \<Rightarrow> ('cc, 'z) recovery_scheme \<Rightarrow> bool \<times> ('cc, 'z) recovery_scheme" where
  "quic_recovery_can_send ops now r =
     (case congestion r of None \<Rightarrow> (False, r)
      | Some cc \<Rightarrow> (case quic_cc_can_send ops now (bytes_in_flight r) cc of (ok, cc1) \<Rightarrow> (ok, r\<lparr>congestion := Some cc1\<rparr>)))"

section \<open>A packet was sent\<close>

text \<open>The slot the next packet takes: a free one, or, when the ring is full even without the acknowledged, the oldest.\<close>

definition take_slot :: "('cc, 'z) recovery_scheme \<Rightarrow> ('cc, 'z) recovery_scheme \<times> nat" where
  "take_slot r0 =
     (let r = (if sent_count r0 \<ge> QUIC_RECOVERY_MAX_SENT_PACKETS then compact_sent_packets r0 else r0) in
      if sent_count r \<ge> QUIC_RECOVERY_MAX_SENT_PACKETS then
        let oldest = slot_oldest_to_newest r 0; old = ring r oldest in
        (if counted old \<and> \<not> sp_acknowledged old then inflight_sub (sp_bytes_sent old) r else r, oldest)
      else (r\<lparr>sent_count := Suc (sent_count r)\<rparr>, sent_head r))"

definition fill_chunk :: "u64 \<Rightarrow> u64 \<Rightarrow> octets \<Rightarrow> int \<Rightarrow> chunk \<Rightarrow> chunk" where
  "fill_chunk now bytes frames t c =
     c\<lparr>ck_state := ChunkSending, ck_first_sent_ms := now, ck_bytes := bytes, ck_pkt_type := t, ck_frames := Some frames\<rparr>"

text \<open>
  A packet that carries a chunk again keeps the chunk's id; any other gets a chunk of its own. \<open>stored\<close> is what the slot
  keeps of the payload.
\<close>

definition chunk_for :: "u64 \<Rightarrow> u64 \<Rightarrow> octets \<Rightarrow> int \<Rightarrow> ('cc, 'z) recovery_scheme \<Rightarrow> ('cc, 'z) recovery_scheme \<times> nat option \<times> octets option" where
  "chunk_for now bytes frames t r0 =
     (let found = (if current_retrans_chunk_id r0 \<noteq> no_chunk then chunk_find (chunks r0) (current_retrans_chunk_id r0) else None);
          r = r0\<lparr>current_retrans_chunk_id := no_chunk\<rparr>; stored = (if frames = [] then None else Some frames) in
      case found of
        Some j \<Rightarrow> (on_chunk (Some j) (\<lambda>c. if ck_state c = ChunkSending then c\<lparr>ck_state := ChunkLost\<rparr> else c) r, Some j, stored)
      | None \<Rightarrow> (case chunk_alloc now r of
                    (r1, None) \<Rightarrow> (r1, None, None)
                  | (r1, ci) \<Rightarrow> ((if frames = [] then r1 else on_chunk ci (fill_chunk now bytes frames t) r1), ci, stored)))"

definition quic_recovery_on_packet_sent ::
  "'cc quic_cc_ops \<Rightarrow> u64 \<Rightarrow> bool \<Rightarrow> u64 \<Rightarrow> octets \<Rightarrow> int \<Rightarrow> u64 \<Rightarrow> ('cc, 'z) recovery_scheme \<Rightarrow> ('cc, 'z) recovery_scheme" where
  "quic_recovery_on_packet_sent ops pn ack_eliciting bytes frames t now r =
     (case take_slot r of (r1, idx) \<Rightarrow>
        (case chunk_for now bytes frames t r1 of (r2, ci, stored) \<Rightarrow>
           let p = empty_packet\<lparr>sp_pn := pn, sp_time_sent_ms := now, sp_bytes_sent := bytes, sp_pkt_type := t,
                     sp_ack_eliciting := ack_eliciting, sp_frames := stored,
                     sp_chunk_id := (case ci of None \<Rightarrow> no_chunk | Some j \<Rightarrow> ck_id (chunks r2 ! j))\<rparr>;
               r3 = on_packet idx (\<lambda>_. p) r2;
               r4 = (if ack_eliciting then r3\<lparr>bytes_in_flight := bytes_in_flight r3 + bytes\<rparr> else r3);
               r5 = (if t = -1 then with_cc (cc_on_packet_sent ops pn bytes now) r4 else r4);
               r6 = r5\<lparr>sent_head := (idx + 1) mod QUIC_RECOVERY_MAX_SENT_PACKETS\<rparr> in
           if ack_eliciting \<and> pto_timer r6 = None then arm_pto_timer now r6 else r6))"

end
