(* ===== verification/Quic_Loss.thy ===== *)
theory Quic_Loss
  imports Quic_Recovery
begin

text \<open>
  Loss recovery of a QUIC connection, second part: the connection's sending side (\<open>quic/quic_connection.c\<close>), which recovery
  calls back into while it walks its tables, and what calls it: loss detection, acknowledgements and the probe timer
  of \<open>quic/quic_recovery.c\<close>. A connection extends the recovery state, which it holds. Packet protection (OpenSSL) is the field
  \<open>build_size\<close>: the length of the packet made of a type, a number and a payload, or \<open>None\<close> when building fails. \<open>wire\<close> lists
  the packets handed to the socket; the pacer's answers are a list, as in \<open>Quic_Stream\<close>; the timers other than the probe timer are left out.
\<close>

section \<open>Sending\<close>

record 'cc conn = "'cc recovery" +
  next_pn :: "nat \<Rightarrow> u64"
  keys_ready :: "nat \<Rightarrow> bool"
  build_size :: "int \<Rightarrow> u64 \<Rightarrow> octets \<Rightarrow> u64 option"
  udp_shared :: bool
  peer_address_validated :: bool
  bytes_recv_addr_val :: u64
  bytes_sent_addr_val :: u64
  conn_closing :: bool
  close_ec :: u64
  close_reason :: octets
  recovery_paused :: bool
  probe_size :: u64
  probe_pn :: u64
  pkts_sent_with_key :: u64
  wire :: "(int \<times> u64 \<times> octets) list"
  payload :: octets
  may_pace :: "bool list"
  keepalive_frames :: "octets list"

definition QUIC_MAX_PAYLOAD :: nat where "QUIC_MAX_PAYLOAD = 1286"
definition QUIC_ERR_NO_VIABLE_PATH :: u64 where "QUIC_ERR_NO_VIABLE_PATH = 0x10"
definition QUIC_PERSISTENT_CONGESTION_THRESHOLD :: u64 where "QUIC_PERSISTENT_CONGESTION_THRESHOLD = 3"
definition QUIC_LOSS_RETRANSMIT_PER_PASS :: nat where "QUIC_LOSS_RETRANSMIT_PER_PASS = 4"
definition QUIC_PTO_PROBES_PER_TIMER :: nat where "QUIC_PTO_PROBES_PER_TIMER = 4"
definition QUIC_RECOVERY_NO_PROGRESS_MS :: u64 where "QUIC_RECOVERY_NO_PROGRESS_MS = 15000"

text \<open>A server must not send more than three times what it got before the client's address is validated.\<close>

definition amplification_allows :: "int \<Rightarrow> u64 \<Rightarrow> 'cc conn \<Rightarrow> bool" where
  "amplification_allows t sz c \<longleftrightarrow>
     \<not> (udp_shared c \<and> \<not> peer_address_validated c \<and> t \<noteq> QUIC_PKT_HANDSHAKE) \<or>
     bytes_sent_addr_val c + sz \<le> bytes_recv_addr_val c * 3"

definition account_amplification :: "int \<Rightarrow> u64 \<Rightarrow> 'cc conn \<Rightarrow> 'cc conn" where
  "account_amplification t sz c =
     (if udp_shared c \<and> \<not> peer_address_validated c \<and> t \<noteq> QUIC_PKT_HANDSHAKE
      then c\<lparr>bytes_sent_addr_val := bytes_sent_addr_val c + sz\<rparr> else c)"

definition send_quic_packet :: "'cc quic_cc_ops \<Rightarrow> u64 \<Rightarrow> int \<Rightarrow> octets \<Rightarrow> 'cc conn \<Rightarrow> 'cc conn \<times> int" where
  "send_quic_packet ops now t frames c0 =
     (let level = pkt_type_to_level t; pn = next_pn c0 level; c = c0\<lparr>next_pn := (next_pn c0)(level := pn + 1)\<rparr> in
      if \<not> keys_ready c level then (c, -1)
      else case build_size c t pn frames of
          None \<Rightarrow> (c, -1)
        | Some sz \<Rightarrow>
            if \<not> amplification_allows t sz c then (c, -1)
            else
              let c1 = account_amplification t sz c;
                  c2 = c1\<lparr>wire := wire c1 @ [(t, pn, frames)]\<rparr>;
                  c3 = (if t = -1 \<and> probe_size c2 > 0 then c2\<lparr>probe_pn := pn\<rparr> else c2) in
              if \<not> conn_closing c3 \<and> \<not> recovery_paused c3 \<and> payload_ack_eliciting frames then
                let c4 = quic_recovery_on_packet_sent ops pn True (word_of_nat (length frames)) frames t now c3 in
                (if t = -1 then c4\<lparr>pkts_sent_with_key := pkts_sent_with_key c4 + 1\<rparr> else c4, 0)
              else (c3, 0))"

definition QuicConnectionSendImmediate :: "'cc quic_cc_ops \<Rightarrow> u64 \<Rightarrow> int \<Rightarrow> octets \<Rightarrow> 'cc conn \<Rightarrow> 'cc conn" where
  "QuicConnectionSendImmediate ops now t frames c = fst (send_quic_packet ops now t frames c)"

definition pacing_answer :: "'cc conn \<Rightarrow> bool \<times> 'cc conn" where
  "pacing_answer c = (case may_pace c of [] \<Rightarrow> (False, c) | b # bs \<Rightarrow> (b, c\<lparr>may_pace := bs\<rparr>))"

definition quic_conn_flush_packet :: "'cc quic_cc_ops \<Rightarrow> u64 \<Rightarrow> 'cc conn \<Rightarrow> 'cc conn" where
  "quic_conn_flush_packet ops now c =
     (if payload c = [] then c
      else case quic_recovery_can_send ops now c of
          (False, c1) \<Rightarrow> c1
        | (True, c1) \<Rightarrow>
            (case pacing_answer c1 of
               (False, c2) \<Rightarrow> c2
             | (True, c2) \<Rightarrow> (fst (send_quic_packet ops now (-1) (payload c2) c2))\<lparr>payload := []\<rparr>))"

definition quic_conn_queue_frames :: "'cc quic_cc_ops \<Rightarrow> u64 \<Rightarrow> octets \<Rightarrow> 'cc conn \<Rightarrow> 'cc conn" where
  "quic_conn_queue_frames ops now f c =
     (let add = (\<lambda>c. c\<lparr>payload := payload c @ f\<rparr>) in
      if length f > QUIC_MAX_PAYLOAD then c
      else if length (payload c) + length f > QUIC_MAX_PAYLOAD \<and> payload c \<noteq> [] then
        (case quic_recovery_can_send ops now c of
           (False, c1) \<Rightarrow> c1
         | (True, c1) \<Rightarrow> let c2 = quic_conn_flush_packet ops now c1 in
             if length (payload c2) + length f > QUIC_MAX_PAYLOAD then c2 else add c2)
      else add c)"

text \<open>The window updates the keep-alive queues are the connection's \<open>keepalive_frames\<close>: MAX_DATA and one MAX_STREAM_DATA per open stream.\<close>

definition pto_keepalive_cb :: "'cc quic_cc_ops \<Rightarrow> u64 \<Rightarrow> 'cc conn \<Rightarrow> 'cc conn" where
  "pto_keepalive_cb ops now c =
     (if conn_closing c then c
      else quic_conn_flush_packet ops now (fold (quic_conn_queue_frames ops now) (keepalive_frames c) c))"

definition close_level :: "'cc conn \<Rightarrow> nat" where
  "close_level c =
     (if keys_ready c QUIC_TLS_LEVEL_APPLICATION then QUIC_TLS_LEVEL_APPLICATION
      else if keys_ready c QUIC_TLS_LEVEL_HANDSHAKE then QUIC_TLS_LEVEL_HANDSHAKE else QUIC_TLS_LEVEL_NONE)"

definition close_type :: "nat \<Rightarrow> int" where
  "close_type level = (if level = QUIC_TLS_LEVEL_APPLICATION then -1
     else if level = QUIC_TLS_LEVEL_HANDSHAKE then QUIC_PKT_HANDSHAKE else QUIC_PKT_INITIAL)"

definition QuicConnectionClose :: "u64 \<Rightarrow> octets \<Rightarrow> 'cc conn \<Rightarrow> 'cc conn" where
  "QuicConnectionClose ec reason c0 =
     (if conn_closing c0 then c0
      else let c = c0\<lparr>close_ec := ec, close_reason := reason\<rparr>;
               close = (\<lambda>c. c\<lparr>conn_closing := True, pto_timer := None\<rparr>) in
        case quic_frame_write_connection_close 512 ec reason of
          None \<Rightarrow> close c
        | Some f \<Rightarrow>
            let level = close_level c; t = close_type level in
            if \<not> keys_ready c level then c
            else let pn = next_pn c level; c1 = c\<lparr>next_pn := (next_pn c)(level := pn + 1)\<rparr> in
              close (if build_size c1 t pn f = None then c1 else c1\<lparr>wire := wire c1 @ [(t, pn, f)]\<rparr>))"

definition no_viable_path :: octets where
  "no_viable_path = [0x6e, 0x6f, 0x20, 0x76, 0x69, 0x61, 0x62, 0x6c, 0x65, 0x20, 0x70, 0x61, 0x74, 0x68]"

definition recovery_conn_dead_cb :: "'cc conn \<Rightarrow> 'cc conn" where
  "recovery_conn_dead_cb = QuicConnectionClose QUIC_ERR_NO_VIABLE_PATH no_viable_path"

section \<open>Loss detection\<close>

text \<open>The locals of a pass: whether anything was lost, whether of the application's packets, and how many were sent again at once.\<close>

record loss_pass =
  loss_detected :: bool
  fast_retx :: nat
  app_loss_detected :: bool

definition time_threshold :: "('cc, 'z) recovery_scheme \<Rightarrow> u64" where
  "time_threshold r =
     (let a = (if smoothed_rtt r > latest_rtt r then smoothed_rtt r else latest_rtt r);
          b = (if a < pto_base r then pto_base r else a); t = (9 * b) div 8 in
      if t < 1 then 1 else t)"

definition seems_lost :: "u64 \<Rightarrow> u64 \<Rightarrow> ('cc, 'z) recovery_scheme \<Rightarrow> sent_packet \<Rightarrow> bool" where
  "seems_lost now threshold r p \<longleftrightarrow>
     (3 \<le> sint (largest_acked_pn r (pkt_type_to_level (sp_pkt_type p))) - sint (sp_pn p)
      \<or> now - sp_time_sent_ms p > threshold)
     \<and> sp_ack_eliciting p \<and> sp_frames p \<noteq> None"

definition resend_at_once :: "'cc quic_cc_ops \<Rightarrow> u64 \<Rightarrow> sent_packet \<Rightarrow> nat option \<Rightarrow> 'cc conn \<Rightarrow> 'cc conn" where
  "resend_at_once ops now p ci c =
     on_chunk ci (\<lambda>k. k\<lparr>ck_retrans_count := Suc (ck_retrans_count k), ck_last_retrans_ms := now\<rparr>)
       (QuicConnectionSendImmediate ops now (sp_pkt_type p) (case sp_frames p of None \<Rightarrow> [] | Some f \<Rightarrow> f)
          (c\<lparr>current_retrans_chunk_id := sp_chunk_id p\<rparr>))"

text \<open>One turn of the loop. The slot stays the same while the packet is sent again, so what is subtracted and freed after is what that slot holds then.\<close>

definition drop_frames :: "sent_packet \<Rightarrow> sent_packet" where "drop_frames p = p\<lparr>sp_frames := None\<rparr>"

definition lose_packet :: "'cc quic_cc_ops \<Rightarrow> u64 \<Rightarrow> nat \<Rightarrow> 'cc conn \<times> loss_pass \<Rightarrow> 'cc conn \<times> loss_pass" where
  "lose_packet ops now idx st =
     (case st of (c, l) \<Rightarrow>
        let p = ring c idx; ci = chunk_find (chunks c) (sp_chunk_id p) in
        if chunk_is ChunkLost ci c then
          (on_packet idx (\<lambda>p. p\<lparr>sp_lost := True, sp_frames := None\<rparr>)
             (if counted p then inflight_sub (sp_bytes_sent p) c else c), l)
        else
          let c1 = (on_packet idx (\<lambda>p. p\<lparr>sp_lost := True\<rparr>) c)\<lparr>packets_lost := Suc (packets_lost c)\<rparr>;
              l1 = l\<lparr>loss_detected := True, app_loss_detected := app_loss_detected l \<or> sp_pkt_type p = -1\<rparr>;
              now_too = (fast_retx l1 < QUIC_LOSS_RETRANSMIT_PER_PASS);
              c2 = (if now_too then resend_at_once ops now p ci c1 else c1);
              c3 = on_packet idx drop_frames (inflight_sub (sp_bytes_sent (ring c2 idx)) c2) in
          (on_chunk ci (\<lambda>k. k\<lparr>ck_state := ChunkLost\<rparr>) c3,
           if now_too then l1\<lparr>fast_retx := Suc (fast_retx l1)\<rparr> else l1))"

definition loss_step :: "'cc quic_cc_ops \<Rightarrow> u64 \<Rightarrow> u64 \<Rightarrow> nat \<Rightarrow> 'cc conn \<times> loss_pass \<Rightarrow> 'cc conn \<times> loss_pass" where
  "loss_step ops now threshold i st =
     (let idx = slot_oldest_to_newest (fst st) i; p = ring (fst st) idx in
      if sp_acknowledged p \<or> sp_lost p \<or> \<not> seems_lost now threshold (fst st) p then st
      else lose_packet ops now idx st)"

text \<open>
  Packets sent again join the ring during the walk, and the loop's bound is read anew each time. The count never exceeds the
  ring's size, so the second condition never ends the loop.
\<close>

function loss_loop :: "'cc quic_cc_ops \<Rightarrow> u64 \<Rightarrow> u64 \<Rightarrow> nat \<Rightarrow> 'cc conn \<times> loss_pass \<Rightarrow> 'cc conn \<times> loss_pass" where
  "loss_loop ops now threshold i st =
     (if i < sent_count (fst st) \<and> i < QUIC_RECOVERY_MAX_SENT_PACKETS
      then loss_loop ops now threshold (Suc i) (loss_step ops now threshold i st) else st)"
  by auto
termination by (relation "measure (\<lambda>(ops, now, threshold, i, st). QUIC_RECOVERY_MAX_SENT_PACKETS - i)") auto

declare loss_loop.simps [simp del]

definition after_losses :: "'cc quic_cc_ops \<Rightarrow> u64 \<Rightarrow> 'cc conn \<times> loss_pass \<Rightarrow> 'cc conn" where
  "after_losses ops now st =
     (case st of (c, l) \<Rightarrow>
        if loss_detected l then
          let c1 = (if loss_epoch_start_ms c = 0 then c\<lparr>loss_epoch_start_ms := now\<rparr> else c);
              c2 = (if app_loss_detected l \<and> \<not> persistent_congestion_detected c1
                       \<and> now - loss_epoch_start_ms c1 \<ge> pto_base c1 * QUIC_PERSISTENT_CONGESTION_THRESHOLD
                       \<and> pto_count c1 \<ge> QUIC_PERSISTENT_CONGESTION_THRESHOLD
                    then with_cc (cc_on_persistent_congestion ops now) (c1\<lparr>persistent_congestion_detected := True\<rparr>) else c1);
              c3 = (if app_loss_detected l then with_cc (cc_on_congestion_event ops now) c2 else c2) in
          quic_conn_flush_packet ops now c3
        else c\<lparr>loss_epoch_start_ms := 0, persistent_congestion_detected := False\<rparr>)"

definition detect_losses :: "'cc quic_cc_ops \<Rightarrow> u64 \<Rightarrow> 'cc conn \<Rightarrow> 'cc conn" where
  "detect_losses ops now c =
     after_losses ops now
       (loss_loop ops now (time_threshold c) 0 (c, \<lparr>loss_detected = False, fast_retx = 0, app_loss_detected = False\<rparr>))"

definition quic_recovery_check_losses :: "'cc quic_cc_ops \<Rightarrow> u64 \<Rightarrow> 'cc conn \<Rightarrow> 'cc conn" where
  "quic_recovery_check_losses ops now c = compact_sent_packets (detect_losses ops now c)"

definition quic_recovery_on_ack_received :: "'cc quic_cc_ops \<Rightarrow> QuicAckFrame \<Rightarrow> u64 \<Rightarrow> nat \<Rightarrow> 'cc conn \<Rightarrow> 'cc conn option" where
  "quic_recovery_on_ack_received ops ack now level c =
     (case process_ack_ranges ops now level ack c of
        None \<Rightarrow> None
      | Some (c1, progress) \<Rightarrow>
          let c2 = compact_sent_packets (detect_losses ops now c1);
              c3 = (if progress then c2\<lparr>pto_count := 0, last_progress_ms := now\<rparr> else c2) in
          Some (arm_pto_timer now c3))"

section \<open>The probe timer\<close>

text \<open>Whether a chunk that was sent again twenty times means the path is gone: only when nothing was acknowledged for a while.\<close>

definition path_is_dead :: "u64 \<Rightarrow> chunk \<Rightarrow> ('cc, 'z) recovery_scheme \<Rightarrow> bool" where
  "path_is_dead now k r \<longleftrightarrow> ck_retrans_count k \<ge> 20 \<and> ck_pkt_type k = -1
     \<and> \<not> (last_progress_ms r \<noteq> 0 \<and> now - last_progress_ms r \<le> QUIC_RECOVERY_NO_PROGRESS_MS)"

definition too_early :: "u64 \<Rightarrow> chunk \<Rightarrow> ('cc, 'z) recovery_scheme \<Rightarrow> bool" where
  "too_early now k r \<longleftrightarrow> ck_retrans_count k = 0 \<and> now - ck_first_sent_ms k < pto_base r
     \<or> now - ck_last_retrans_ms k < pto_base r"

definition probe :: "'cc quic_cc_ops \<Rightarrow> u64 \<Rightarrow> nat \<Rightarrow> 'cc conn \<Rightarrow> 'cc conn" where
  "probe ops now j c =
     (let k = chunks c ! j in
      on_chunk (Some j) (\<lambda>k. k\<lparr>ck_retrans_count := Suc (ck_retrans_count k), ck_last_retrans_ms := now\<rparr>)
        (QuicConnectionSendImmediate ops now (ck_pkt_type k) (case ck_frames k of None \<Rightarrow> [] | Some f \<Rightarrow> f)
           (c\<lparr>current_retrans_chunk_id := ck_id k\<rparr>)))"

text \<open>The flag says that the path was given up and the timer's handler returns at once.\<close>

function pto_loop :: "'cc quic_cc_ops \<Rightarrow> u64 \<Rightarrow> nat \<Rightarrow> nat \<Rightarrow> 'cc conn \<Rightarrow> 'cc conn \<times> bool" where
  "pto_loop ops now j probes c =
     (if j < length (chunks c) \<and> j < QUIC_RECOVERY_MAX_CHUNKS then
        let k = chunks c ! j in
        if ck_state k = ChunkAcked \<or> ck_frames k = None then pto_loop ops now (Suc j) probes c
        else if probes \<ge> QUIC_PTO_PROBES_PER_TIMER then (c, False)
        else if path_is_dead now k c then (recovery_conn_dead_cb c, True)
        else if too_early now k c then pto_loop ops now (Suc j) probes c
        else pto_loop ops now (Suc j) (Suc probes) (probe ops now j c)
      else (c, False))"
  by auto
termination by (relation "measure (\<lambda>(ops, now, j, probes, c). QUIC_RECOVERY_MAX_CHUNKS - j)") auto

declare pto_loop.simps [simp del]

definition pto_reset_stale :: "'cc quic_cc_ops \<Rightarrow> u64 \<Rightarrow> 'cc conn \<Rightarrow> 'cc conn" where
  "pto_reset_stale ops now c =
     (if sent_count c = 0 \<and> bytes_in_flight c > 0
      then (pto_keepalive_cb ops now (c\<lparr>bytes_in_flight := 0\<rparr>))\<lparr>last_keepalive_ms := now\<rparr> else c)"

definition pto_keepalive :: "'cc quic_cc_ops \<Rightarrow> u64 \<Rightarrow> 'cc conn \<Rightarrow> 'cc conn" where
  "pto_keepalive ops now c =
     (if now - last_keepalive_ms c > 5000
      then (quic_conn_flush_packet ops now (pto_keepalive_cb ops now c))\<lparr>last_keepalive_ms := now\<rparr> else c)"

text \<open>The timer has been taken off the wheel when its handler runs.\<close>

definition on_pto_timer :: "'cc quic_cc_ops \<Rightarrow> u64 \<Rightarrow> 'cc conn \<Rightarrow> 'cc conn" where
  "on_pto_timer ops now c0 =
     (let c = pto_reset_stale ops now (compact_sent_packets (detect_losses ops now (c0\<lparr>pto_timer := None\<rparr>))) in
      case pto_loop ops now 0 0 c of
        (c1, True) \<Rightarrow> c1
      | (c1, False) \<Rightarrow> let c2 = pto_keepalive ops now c1 in arm_pto_timer now (c2\<lparr>pto_count := pto_count c2 + 1\<rparr>))"

end
