(* ===== verification/Quic_Recovery_Facts.thy ===== *)
theory Quic_Recovery_Facts
  imports Quic_Loss
begin

text \<open>
  What loss recovery keeps true: the ring's slots, the octets in flight as the sum over the packets on their way, through
  every operation, and the congestion controller's invariant along with it.
\<close>

section \<open>Slots of the ring\<close>

lemma slot_bound: "slot_oldest_to_newest r i < QUIC_RECOVERY_MAX_SENT_PACKETS"
  by (simp add: slot_oldest_to_newest_def recovery_consts nat_less_iff)

lemma slot_inj:
  assumes "slot_oldest_to_newest r i = slot_oldest_to_newest r j" "i < 4096" "j < 4096"
  shows "i = j"
proof -
  let ?a = "int (sent_head r) - int (sent_count r) + 4096"
  have "(?a + int i) mod 4096 = (?a + int j) mod 4096"
    using assms(1) by (simp add: slot_oldest_to_newest_def recovery_consts eq_nat_nat_iff algebra_simps)
  then have "4096 dvd int i - int j" by (simp add: mod_eq_dvd_iff)
  then have "int i - int j = 0" using dvd_imp_le_int [of "int i - int j" 4096] assms(2,3) by (cases "int i - int j = 0") auto
  then show ?thesis by simp
qed

lemma slot_cong: "sent_head r' = sent_head r \<Longrightarrow> sent_count r' = sent_count r \<Longrightarrow> slot_oldest_to_newest r' = slot_oldest_to_newest r"
  by (simp add: slot_oldest_to_newest_def fun_eq_iff)

section \<open>Octets in flight\<close>

definition flight :: "sent_packet \<Rightarrow> nat" where
  "flight p = (if counted p \<and> \<not> sp_acknowledged p then unat (sp_bytes_sent p) else 0)"

definition in_flight_sum :: "('cc, 'z) recovery_scheme \<Rightarrow> nat" where
  "in_flight_sum r = (\<Sum>i\<in>{..< sent_count r}. flight (packet_at r i))"

definition ring_ok :: "('cc, 'z) recovery_scheme \<Rightarrow> bool" where
  "ring_ok r \<longleftrightarrow> sent_count r \<le> QUIC_RECOVERY_MAX_SENT_PACKETS \<and> sent_head r < QUIC_RECOVERY_MAX_SENT_PACKETS
     \<and> (\<forall>i < sent_count r. unat (sp_bytes_sent (packet_at r i)) \<le> 1500)"

text \<open>\<open>accounted d r\<close>: the counter holds what is on its way and \<open>d\<close> octets that are still to be taken off it.\<close>

definition accounted :: "nat \<Rightarrow> ('cc, 'z) recovery_scheme \<Rightarrow> bool" where
  "accounted d r \<longleftrightarrow> ring_ok r \<and> unat (bytes_in_flight r) = in_flight_sum r + d"

lemma same_ring:
  assumes "ring r' = ring r" "sent_head r' = sent_head r" "sent_count r' = sent_count r"
  shows "packet_at r' = packet_at r" "ring_ok r' = ring_ok r" "in_flight_sum r' = in_flight_sum r"
  using assms slot_cong [OF assms(2,3)] by (simp_all add: packet_at_def ring_ok_def in_flight_sum_def fun_eq_iff)

lemma accounted_same:
  assumes "accounted d r" "ring r' = ring r" "sent_head r' = sent_head r" "sent_count r' = sent_count r"
    and "bytes_in_flight r' = bytes_in_flight r"
  shows "accounted d r'"
  using assms(1,5) same_ring [OF assms(2-4)] by (simp add: accounted_def)

lemma accounted_count: "accounted d r \<Longrightarrow> sent_count r \<le> 4096"
  by (simp add: accounted_def ring_ok_def recovery_consts)

lemma on_packet_parts [simp]:
  "sent_head (on_packet idx f r) = sent_head r" "sent_count (on_packet idx f r) = sent_count r"
  "bytes_in_flight (on_packet idx f r) = bytes_in_flight r" "chunks (on_packet idx f r) = chunks r"
  "congestion (on_packet idx f r) = congestion r" "packets_acked (on_packet idx f r) = packets_acked r"
  by (simp_all add: on_packet_def)

lemma inflight_sub_parts [simp]:
  "ring (inflight_sub n r) = ring r" "sent_head (inflight_sub n r) = sent_head r" "sent_count (inflight_sub n r) = sent_count r"
  "chunks (inflight_sub n r) = chunks r" "congestion (inflight_sub n r) = congestion r"
  "packets_acked (inflight_sub n r) = packets_acked r"
  by (simp_all add: inflight_sub_def)

lemma packet_at_on_packet:
  assumes "i < 4096" "j < 4096"
  shows "packet_at (on_packet (slot_oldest_to_newest r i) f r) j = (if j = i then f (packet_at r i) else packet_at r j)"
  using slot_inj [OF _ assms, of r]
  by (auto simp: packet_at_def on_packet_def slot_oldest_to_newest_def)

lemma sum_on_packet:
  assumes "sent_count r \<le> 4096" "i < sent_count r"
  shows "in_flight_sum (on_packet (slot_oldest_to_newest r i) f r) + flight (packet_at r i) = in_flight_sum r + flight (f (packet_at r i))"
proof -
  let ?r = "on_packet (slot_oldest_to_newest r i) f r"
  have "in_flight_sum ?r = flight (f (packet_at r i)) + (\<Sum>j\<in>{..< sent_count r} - {i}. flight (packet_at r j))"
    using assms by (simp add: in_flight_sum_def sum.remove [of "{..< sent_count r}" i] packet_at_on_packet)
  moreover have "in_flight_sum r = flight (packet_at r i) + (\<Sum>j\<in>{..< sent_count r} - {i}. flight (packet_at r j))"
    using assms by (simp add: in_flight_sum_def sum.remove [of "{..< sent_count r}" i])
  ultimately show ?thesis by simp
qed

lemma ring_ok_on_packet:
  assumes "ring_ok r" "i < sent_count r" "unat (sp_bytes_sent (f (packet_at r i))) \<le> 1500"
  shows "ring_ok (on_packet (slot_oldest_to_newest r i) f r)"
  using assms by (auto simp: ring_ok_def recovery_consts packet_at_on_packet)

text \<open>A packet that stops counting leaves its octets as a debt; taking them off the counter settles it.\<close>

lemma accounted_drop:
  assumes "accounted d r" "i < sent_count r" "flight (f (packet_at r i)) = 0"
    and "sp_bytes_sent (f (packet_at r i)) = sp_bytes_sent (packet_at r i)"
  shows "accounted (d + flight (packet_at r i)) (on_packet (slot_oldest_to_newest r i) f r)"
proof -
  have ok: "ring_ok r" and c: "sent_count r \<le> 4096" using assms(1) by (auto simp: accounted_def ring_ok_def recovery_consts)
  have "ring_ok (on_packet (slot_oldest_to_newest r i) f r)"
    using ring_ok_on_packet [of r i f] ok assms(2,4) by (simp add: ring_ok_def)
  then show ?thesis using sum_on_packet [OF c assms(2), of f] assms(1,3) by (simp add: accounted_def)
qed

lemma accounted_settle: "accounted (d + unat n) r \<Longrightarrow> accounted d (inflight_sub n r)"
proof -
  assume a: "accounted (d + unat n) r"
  then have "n \<le> bytes_in_flight r" by (simp add: accounted_def word_le_nat_alt)
  then have b: "unat (bytes_in_flight (inflight_sub n r)) = unat (bytes_in_flight r) - unat n"
    by (simp add: inflight_sub_def unat_sub_le not_less)
  have "ring_ok (inflight_sub n r) = ring_ok r" "in_flight_sum (inflight_sub n r) = in_flight_sum r"
    by (rule same_ring; simp)+
  then show "accounted d (inflight_sub n r)" using a b by (simp add: accounted_def)
qed

lemma on_packet_inflight_sub: "on_packet idx f (inflight_sub n r) = inflight_sub n (on_packet idx f r)"
  by (simp add: on_packet_def inflight_sub_def)

lemma accounted_release:
  assumes "accounted d r" "i < sent_count r" "flight (f (packet_at r i)) = 0"
    and "sp_bytes_sent (f (packet_at r i)) = sp_bytes_sent (packet_at r i)" "\<not> sp_acknowledged (packet_at r i)"
  shows "accounted d (on_packet (slot_oldest_to_newest r i) f (if counted (packet_at r i) then inflight_sub (sp_bytes_sent (packet_at r i)) r else r))"
proof (cases "counted (packet_at r i)")
  case True
  then show ?thesis
    using accounted_drop [where f = f, OF assms(1-4)] assms(5) by (simp add: on_packet_inflight_sub accounted_settle flight_def)
next
  case False
  then show ?thesis using accounted_drop [where f = f, OF assms(1-4)] by (simp add: flight_def)
qed

section \<open>The ring as a queue\<close>

text \<open>The packets of the ring from the oldest to the newest: what the code walks through with \<open>slot_oldest_to_newest\<close>.\<close>

definition ring_view :: "('cc, 'z) recovery_scheme \<Rightarrow> sent_packet list" where
  "ring_view r = map (packet_at r) [0..<sent_count r]"

lemma length_view [simp]: "length (ring_view r) = sent_count r"
  by (simp add: ring_view_def)

lemma view_same:
  "ring r' = ring r \<Longrightarrow> sent_head r' = sent_head r \<Longrightarrow> sent_count r' = sent_count r \<Longrightarrow> ring_view r' = ring_view r"
  unfolding ring_view_def by (simp add: same_ring(1) [of r' r])

lemma in_flight_view: "in_flight_sum r = sum_list (map flight (ring_view r))"
proof -
  have "sum_list (map flight (ring_view r)) = sum_list (map (\<lambda>i. flight (packet_at r i)) [0..<sent_count r])"
    by (simp add: ring_view_def comp_def)
  also have "\<dots> = sum (\<lambda>i. flight (packet_at r i)) (set [0..<sent_count r])"
    by (rule interv_sum_list_conv_sum_set_nat)
  also have "set [0..<sent_count r] = {..< sent_count r}" by auto
  finally show ?thesis by (simp only: in_flight_sum_def)
qed

lemma ring_ok_view:
  "ring_ok r \<longleftrightarrow> length (ring_view r) \<le> 4096 \<and> sent_head r < 4096 \<and> (\<forall>p\<in>set (ring_view r). unat (sp_bytes_sent p) \<le> 1500)"
  by (auto simp: ring_ok_def recovery_consts ring_view_def)

lemma sum_flight_le: "\<forall>p\<in>set ps. unat (sp_bytes_sent p) \<le> 1500 \<Longrightarrow> sum_list (map flight ps) \<le> 1500 * length ps"
  by (induction ps) (auto simp: flight_def)

lemma in_flight_le: "ring_ok r \<Longrightarrow> in_flight_sum r \<le> 1500 * 4096"
  using sum_flight_le [of "ring_view r"] by (force simp: ring_ok_view in_flight_view)

lemma sum_flight_unacked: "sum_list (map flight (filter (\<lambda>p. \<not> sp_acknowledged p) ps)) = sum_list (map flight ps)"
  by (induction ps) (auto simp: flight_def)

lemma slot_from_zero: "sent_head r = sent_count r \<Longrightarrow> i < 4096 \<Longrightarrow> slot_oldest_to_newest r i = i"
  by (simp add: slot_oldest_to_newest_def recovery_consts nat_add_distrib)

lemma view_compact:
  assumes "sent_count r \<le> 4096"
  shows "ring_view (compact_sent_packets r) = filter (\<lambda>p. \<not> sp_acknowledged p) (ring_view r)"
proof -
  define kept where "kept = filter (\<lambda>p. \<not> sp_acknowledged p) (ring_view r)"
  show ?thesis
  proof (cases "length kept < sent_count r")
    case True
    define r' where "r' = r\<lparr>ring := (\<lambda>i. if i < length kept then kept ! i else ring r i), sent_count := length kept, sent_head := length kept\<rparr>"
    have "ring_view r' = map (\<lambda>i. kept ! i) [0..<length kept]"
      unfolding ring_view_def using True assms slot_from_zero [of r'] by (auto simp: r'_def packet_at_def intro!: map_cong)
    then have "ring_view r' = kept" by (simp add: map_nth)
    moreover have "compact_sent_packets r = r'"
      using True by (simp add: compact_sent_packets_def Let_def r'_def flip: ring_view_def kept_def)
    ultimately show ?thesis by (simp add: kept_def)
  next
    case False
    then have "kept = ring_view r"
      using length_filter_less by (metis kept_def filter_True length_view)
    moreover have "compact_sent_packets r = r" using False by (simp add: compact_sent_packets_def Let_def flip: ring_view_def kept_def)
    ultimately show ?thesis by (simp add: kept_def)
  qed
qed

lemma head_compact: "sent_count r \<le> 4096 \<Longrightarrow> sent_head r < 4096 \<Longrightarrow> sent_head (compact_sent_packets r) < 4096"
  by (auto simp: compact_sent_packets_def Let_def)

lemma accounted_view:
  "accounted d r \<longleftrightarrow> length (ring_view r) \<le> 4096 \<and> sent_head r < 4096 \<and> (\<forall>p\<in>set (ring_view r). unat (sp_bytes_sent p) \<le> 1500)
     \<and> unat (bytes_in_flight r) = sum_list (map flight (ring_view r)) + d"
  by (auto simp: accounted_def ring_ok_view in_flight_view)

lemma bif_compact [simp]: "bytes_in_flight (compact_sent_packets r) = bytes_in_flight r"
  "congestion (compact_sent_packets r) = congestion r" "packets_acked (compact_sent_packets r) = packets_acked r"
  "chunks (compact_sent_packets r) = chunks r"
  by (simp_all add: compact_sent_packets_def Let_def)

lemma accounted_compact: "accounted d r \<Longrightarrow> accounted d (compact_sent_packets r)"
  using length_filter_le [of "\<lambda>p. \<not> sp_acknowledged p" "ring_view r"]
  by (auto simp: accounted_view view_compact head_compact sum_flight_unacked le_trans)

text \<open>A packet put into the slot after the newest, or into the oldest one of a full ring.\<close>

lemma slot_int: "int (slot_oldest_to_newest r i) = (int (sent_head r) - int (sent_count r) + int i) mod 4096"
  by (simp add: slot_oldest_to_newest_def recovery_consts)

lemma slot_next:
  assumes "sent_head r' = (sent_head r + 1) mod 4096" "sent_count r' = sent_count r + 1"
  shows "slot_oldest_to_newest r' i = slot_oldest_to_newest r i"
proof -
  have "int (slot_oldest_to_newest r' i) = ((int (sent_head r) + 1) mod 4096 - (int (sent_count r) + 1) + int i) mod 4096"
    by (simp add: slot_int assms zmod_int add.commute)
  also have "\<dots> = ((int (sent_head r) + 1) mod 4096 + (int i - int (sent_count r) - 1)) mod 4096" by (simp add: algebra_simps)
  also have "\<dots> = ((int (sent_head r) + 1) + (int i - int (sent_count r) - 1)) mod 4096" by (rule mod_add_left_eq)
  also have "\<dots> = int (slot_oldest_to_newest r i)" by (simp add: slot_int algebra_simps)
  finally show ?thesis by simp
qed

lemma slot_rotate:
  assumes "sent_head r' = (sent_head r + 1) mod 4096" "sent_count r' = sent_count r"
  shows "slot_oldest_to_newest r' i = slot_oldest_to_newest r (Suc i)"
proof -
  have "int (slot_oldest_to_newest r' i) = ((int (sent_head r) + 1) mod 4096 - int (sent_count r) + int i) mod 4096"
    by (simp add: slot_int assms zmod_int add.commute)
  also have "\<dots> = ((int (sent_head r) + 1) mod 4096 + (int i - int (sent_count r))) mod 4096" by (simp add: algebra_simps)
  also have "\<dots> = ((int (sent_head r) + 1) + (int i - int (sent_count r))) mod 4096" by (rule mod_add_left_eq)
  also have "\<dots> = int (slot_oldest_to_newest r (Suc i))" by (simp add: slot_int algebra_simps)
  finally show ?thesis by simp
qed

lemma slot_end: "sent_head r < 4096 \<Longrightarrow> slot_oldest_to_newest r (sent_count r) = sent_head r"
  using slot_int [of r "sent_count r"] by simp

lemma slot_full: "sent_head r < 4096 \<Longrightarrow> sent_count r = 4096 \<Longrightarrow> slot_oldest_to_newest r 0 = sent_head r"
proof -
  assume h: "sent_head r < 4096" "sent_count r = 4096"
  have "int (slot_oldest_to_newest r 0) = (int (sent_head r) - 4096) mod 4096" using slot_int [of r 0] h(2) by simp
  also have "\<dots> = int (sent_head r) mod 4096" by (rule minus_mod_self2)
  finally show ?thesis using h(1) by simp
qed

lemma view_push:
  assumes "sent_head r < 4096" "sent_count r < 4096" "ring r' = (ring r)(sent_head r := p)"
    and "sent_head r' = (sent_head r + 1) mod 4096" "sent_count r' = sent_count r + 1"
  shows "ring_view r' = ring_view r @ [p]"
proof -
  note s = slot_next [OF assms(4,5)]
  have "packet_at r' i = packet_at r i" if "i < sent_count r" for i
    using slot_inj [of r i "sent_count r"] that assms(1-3) by (auto simp: packet_at_def s slot_end)
  moreover have "packet_at r' (sent_count r) = p" using assms(1,3) by (simp add: packet_at_def s slot_end)
  ultimately show ?thesis using assms(5) by (simp add: ring_view_def)
qed

lemma view_push_full:
  assumes "sent_head r < 4096" "sent_count r = 4096" "ring r' = (ring r)(sent_head r := p)"
    and "sent_head r' = (sent_head r + 1) mod 4096" "sent_count r' = sent_count r"
  shows "ring_view r' = tl (ring_view r) @ [p]"
proof (rule nth_equalityI)
  show "length (ring_view r') = length (tl (ring_view r) @ [p])" using assms(2,5) by simp
  fix i assume "i < length (ring_view r')"
  then have i: "i < 4096" using assms(2,5) by simp
  note s = slot_rotate [OF assms(4,5)]
  show "ring_view r' ! i = (tl (ring_view r) @ [p]) ! i"
  proof (cases "i = 4095")
    case True
    then have "packet_at r' i = p" using slot_end [OF assms(1)] assms(2,3) by (simp add: packet_at_def s)
    then show ?thesis using True assms(2,5) by (simp add: ring_view_def nth_append)
  next
    case False
    then have j: "Suc i < 4096" using i by simp
    then have "slot_oldest_to_newest r (Suc i) \<noteq> sent_head r"
      using slot_inj [of r "Suc i" 0] slot_full [OF assms(1,2)] by auto
    then have "packet_at r' i = packet_at r (Suc i)" using assms(3) by (simp add: packet_at_def s)
    then show ?thesis using i j False assms(2,5) by (simp add: ring_view_def nth_append nth_tl)
  qed
qed

section \<open>Recording a packet\<close>

text \<open>What the ring promises: a queue of at most 4096 packets that lets go of the acknowledged ones first and then of the oldest.\<close>

definition ring_put :: "sent_packet list \<Rightarrow> sent_packet \<Rightarrow> sent_packet list" where
  "ring_put v p =
     (let u = (if length v < QUIC_RECOVERY_MAX_SENT_PACKETS then v else filter (\<lambda>p. \<not> sp_acknowledged p) v) in
      (if length u < QUIC_RECOVERY_MAX_SENT_PACKETS then u else tl u) @ [p])"

definition same_flight :: "('cc, 'z) recovery_scheme \<Rightarrow> ('cc, 'z) recovery_scheme \<Rightarrow> bool" where
  "same_flight r r' \<longleftrightarrow> ring r' = ring r \<and> sent_head r' = sent_head r \<and> sent_count r' = sent_count r
     \<and> bytes_in_flight r' = bytes_in_flight r"

lemma same_flight_trans: "same_flight r r' \<Longrightarrow> same_flight r' r'' \<Longrightarrow> same_flight r r''"
  by (simp add: same_flight_def)

lemma same_flight_accounted: "same_flight r r' \<Longrightarrow> accounted d r \<Longrightarrow> accounted d r'"
  by (rule accounted_same) (simp_all add: same_flight_def)

lemma same_flight_view: "same_flight r r' \<Longrightarrow> ring_view r' = ring_view r"
  by (rule view_same) (simp_all add: same_flight_def)

lemma same_flight_on_chunk [simp]: "same_flight r (on_chunk ci f r)"
  by (simp add: same_flight_def on_chunk_def split: option.split)

lemma same_flight_with_cc [simp]: "same_flight r (with_cc f r)"
  by (simp add: same_flight_def with_cc_def)

lemma same_flight_arm [simp]: "same_flight r (arm_pto_timer now r)"
  by (simp add: same_flight_def arm_pto_timer_def Let_def)

lemma same_flight_update_rtt [simp]: "same_flight r (update_rtt s r)"
  by (simp add: same_flight_def update_rtt_def Let_def)

lemma same_flight_chunk_alloc: "chunk_alloc now r = (r', ci) \<Longrightarrow> same_flight r r'"
  by (auto simp: same_flight_def chunk_alloc_def add_chunk_def Let_def split: if_splits option.splits)

lemma same_flight_chunk_for: "chunk_for now bytes frames t r = (r', ci, stored) \<Longrightarrow> same_flight r r'"
  by (auto simp: chunk_for_def Let_def split: option.splits prod.splits if_splits
      dest!: same_flight_chunk_alloc) (auto simp: same_flight_def on_chunk_def split: option.splits)

text \<open>The slot's old content was let go of; what counts is the view and the counter.\<close>

lemma take_slot_spec:
  fixes r :: "('cc, 'z) recovery_scheme"
  assumes "accounted d r" "take_slot r = (r1, idx)"
  shows "idx = sent_head r1 \<and> idx < 4096
    \<and> (\<exists>u. length u < 4096 \<and> u @ [p] = ring_put (ring_view r) p
          \<and> (\<forall>r' :: ('cc, 'z) recovery_scheme. ring r' = (ring r1)(idx := p) \<longrightarrow> sent_head r' = (idx + 1) mod 4096 \<longrightarrow> sent_count r' = sent_count r1 \<longrightarrow> ring_view r' = u @ [p])
          \<and> set u \<subseteq> set (ring_view r)
          \<and> unat (bytes_in_flight r1) = sum_list (map flight u) + d)"
proof -
  define q where "q = (if sent_count r \<ge> 4096 then compact_sent_packets r else r)"
  define v where "v = ring_view q"
  have q: "accounted d q" using assms(1) accounted_compact [OF assms(1)] by (simp add: q_def)
  have cnt: "sent_count r \<le> 4096" using accounted_count [OF assms(1)] .
  have vq: "v = (if length (ring_view r) < 4096 then ring_view r else filter (\<lambda>p. \<not> sp_acknowledged p) (ring_view r))"
    using view_compact [OF cnt] by (simp add: v_def q_def)
  have sub: "set v \<subseteq> set (ring_view r)" by (auto simp: vq)
  have h: "sent_head q < 4096" and c: "sent_count q \<le> 4096" and b: "unat (bytes_in_flight q) = sum_list (map flight v) + d"
    using q accounted_count [OF q] by (auto simp: accounted_view v_def)
  have enq: "ring_put (ring_view r) p = (if length v < 4096 then v else tl v) @ [p]"
    by (simp add: ring_put_def recovery_consts Let_def vq)
  have len: "length v = sent_count q" by (simp add: v_def)
  show ?thesis
  proof (cases "sent_count q < 4096")
    case True
    then have r1: "r1 = q\<lparr>sent_count := Suc (sent_count q)\<rparr>" "idx = sent_head q"
      using assms(2) by (auto simp: take_slot_def Let_def recovery_consts q_def split: if_splits)
    have "ring_view r' = v @ [p]" if "ring r' = (ring r1)(idx := p)" "sent_head r' = (idx + 1) mod 4096" "sent_count r' = sent_count r1" for r' :: "('cc, 'z) recovery_scheme"
      using view_push [of q r' p] that h True by (simp add: r1 v_def)
    then show ?thesis using True enq h b sub len by (intro conjI exI [of _ v]) (auto simp: r1)
  next
    case False
    then have full: "sent_count q = 4096" using c by simp
    define old where "old = packet_at q 0"
    have r1: "r1 = (if counted old \<and> \<not> sp_acknowledged old then inflight_sub (sp_bytes_sent old) q else q)" "idx = sent_head q"
      using assms(2) full slot_full [OF h full] by (auto simp: take_slot_def Let_def recovery_consts q_def old_def packet_at_def split: if_splits)
    have "v = old # tl v" using full by (simp add: v_def ring_view_def old_def upt_rec [of 0 4096])
    then have sum: "sum_list (map flight v) = flight old + sum_list (map flight (tl v))" by (metis list.simps(9) sum_list.Cons)
    have fl: "flight old = (if counted old \<and> \<not> sp_acknowledged old then unat (sp_bytes_sent old) else 0)" by (simp add: flight_def)
    have bif: "unat (bytes_in_flight r1) = sum_list (map flight (tl v)) + d"
      using b sum fl by (auto simp: r1 inflight_sub_def unat_sub_le word_less_nat_alt word_le_nat_alt not_less)
    have "ring_view r' = tl v @ [p]" if "ring r' = (ring r1)(idx := p)" "sent_head r' = (idx + 1) mod 4096" "sent_count r' = sent_count r1" for r' :: "('cc, 'z) recovery_scheme"
      using view_push_full [of q r' p] that h full by (simp add: r1 v_def split: if_splits)
    moreover have "set (tl v) \<subseteq> set (ring_view r)" using sub by (cases v) auto
    ultimately show ?thesis using full enq h bif len by (intro conjI exI [of _ "tl v"]) (auto simp: r1)
  qed
qed

lemma packet_sent:
  fixes r :: "('cc, 'z) recovery_scheme"
  assumes "accounted d r" "d \<le> 1500" "unat bytes \<le> 1500"
  shows "\<exists>p. ring_view (quic_recovery_on_packet_sent ops pn True bytes frames t now r) = ring_put (ring_view r) p
    \<and> sp_pn p = pn \<and> sp_bytes_sent p = bytes \<and> sp_ack_eliciting p \<and> \<not> sp_acknowledged p \<and> \<not> sp_lost p \<and> sp_pkt_type p = t
    \<and> sp_time_sent_ms p = now \<and> accounted d (quic_recovery_on_packet_sent ops pn True bytes frames t now r)"
proof -
  obtain r1 idx where ts: "take_slot r = (r1, idx)" by fastforce
  obtain r2 ci stored where cf: "chunk_for now bytes frames t r1 = (r2, ci, stored)" using prod_cases3 by blast
  define p where "p = empty_packet\<lparr>sp_pn := pn, sp_time_sent_ms := now, sp_bytes_sent := bytes, sp_pkt_type := t,
    sp_ack_eliciting := True, sp_frames := stored, sp_chunk_id := (case ci of None \<Rightarrow> no_chunk | Some j \<Rightarrow> ck_id (chunks r2 ! j))\<rparr>"
  define r4 where "r4 = (on_packet idx (\<lambda>_. p) r2)\<lparr>bytes_in_flight := bytes_in_flight r2 + bytes\<rparr>"
  define r6 where "r6 = (if t = -1 then with_cc (cc_on_packet_sent ops pn bytes now) r4 else r4)\<lparr>sent_head := (idx + 1) mod 4096\<rparr>"
  have sent: "quic_recovery_on_packet_sent ops pn True bytes frames t now r = (if pto_timer r6 = None then arm_pto_timer now r6 else r6)"
    by (auto simp: quic_recovery_on_packet_sent_def ts cf Let_def p_def r4_def r6_def recovery_consts with_cc_def)
  have sf: "same_flight r1 r2" by (rule same_flight_chunk_for [OF cf])
  have idx: "idx < 4096" using take_slot_spec [OF assms(1) ts] by blast
  obtain u where u4: "length u < 4096" and u5: "u @ [p] = ring_put (ring_view r) p"
    and v: "\<forall>r' :: ('cc, 'z) recovery_scheme. ring r' = (ring r1)(idx := p) \<longrightarrow> sent_head r' = (idx + 1) mod 4096 \<longrightarrow> sent_count r' = sent_count r1 \<longrightarrow> ring_view r' = u @ [p]"
    and u2: "set u \<subseteq> set (ring_view r)" and u3: "unat (bytes_in_flight r1) = sum_list (map flight u) + d"
    using take_slot_spec [OF assms(1) ts, of p] by (elim exE conjE) (rule that)
  have parts: "ring r6 = (ring r1)(idx := p)" "sent_head r6 = (idx + 1) mod 4096" "sent_count r6 = sent_count r1"
    "bytes_in_flight r6 = bytes_in_flight r1 + bytes"
    using sf by (simp_all add: r6_def r4_def on_packet_def with_cc_def same_flight_def)
  have v6: "ring_view r6 = u @ [p]" using v parts(1-3) by simp
  have small: "\<forall>q\<in>set u. unat (sp_bytes_sent q) \<le> 1500" using assms(1) u2 by (auto simp: accounted_view)
  then have "sum_list (map flight u) \<le> 1500 * 4096" using sum_flight_le [OF small] u4 by simp
  then have "unat (bytes_in_flight r6) = sum_list (map flight u) + d + unat bytes"
    using assms(2,3) u3 parts(4) by (simp add: unat_add_small)
  then have "accounted d r6"
    using small u4 v6 parts(2) assms(3) by (auto simp: accounted_view p_def flight_def counted_def empty_packet_def)
  moreover have sf7: "same_flight r6 (if pto_timer r6 = None then arm_pto_timer now r6 else r6)"
    using same_flight_arm [of r6 now] by (simp add: same_flight_def)
  ultimately have a7: "accounted d (quic_recovery_on_packet_sent ops pn True bytes frames t now r)"
    unfolding sent by (rule same_flight_accounted [rotated])
  have v7: "ring_view (quic_recovery_on_packet_sent ops pn True bytes frames t now r) = ring_put (ring_view r) p"
    unfolding sent same_flight_view [OF sf7] using v6 u5 by simp
  show ?thesis
    by (intro exI [of _ p] conjI v7 a7) (simp_all add: p_def empty_packet_def)
qed

section \<open>Acknowledging\<close>

lemma flight_ack_slot [simp]: "flight (ack_slot p) = 0" "sp_bytes_sent (ack_slot p) = sp_bytes_sent p"
  by (simp_all add: flight_def ack_slot_def)

lemma fold_release:
  fixes r :: "('cc, 'z) recovery_scheme"
  assumes "accounted d r" "\<forall>i\<in>set xs. i < sent_count r"
    and step: "\<And>i s :: ('cc, 'z) recovery_scheme. step i s = (let idx = slot_oldest_to_newest s i; p = ring s idx in
      if sel p \<and> \<not> sp_acknowledged p then on_packet idx ack_slot (if counted p then inflight_sub (sp_bytes_sent p) s else s) else s)"
  shows "accounted d (fold step xs r) \<and> sent_count (fold step xs r) = sent_count r"
  using assms(1,2)
proof (induction xs arbitrary: r)
  case (Cons i xs)
  have "accounted d (step i r)"
    using accounted_release [OF Cons(2), of i ack_slot, unfolded packet_at_def] Cons(2,3) by (auto simp: step Let_def)
  moreover have "sent_count (step i r) = sent_count r" by (simp add: step Let_def)
  ultimately show ?case using Cons by simp
qed simp

lemma accounted_chunk_mark_acked: "accounted d r \<Longrightarrow> accounted d (chunk_mark_acked cid r)"
proof -
  assume a: "accounted d r"
  define r1 where "r1 = on_chunk (chunk_find (chunks r) cid) (\<lambda>c. c\<lparr>ck_state := ChunkAcked, ck_frames := None\<rparr>) r"
  have "same_flight r r1" by (simp add: r1_def)
  then have "accounted d r1" "sent_count r1 = sent_count r"
    using a same_flight_accounted by (auto simp: same_flight_def)
  then have "accounted d (fold (ack_by_chunk cid) [0..<sent_count r] r1)"
    using fold_release [of d r1 "[0..<sent_count r]" "ack_by_chunk cid" "\<lambda>p. sp_chunk_id p = cid"]
    by (simp add: ack_by_chunk_def Let_def)
  then show ?thesis using a by (simp add: chunk_mark_acked_def Let_def r1_def)
qed

lemma count_chunk_mark_acked: "sent_count (chunk_mark_acked cid r) = sent_count r"
proof -
  have "sent_count (fold (ack_by_chunk cid) xs s) = sent_count s" for xs and s :: "('a, 'b) recovery_scheme"
    by (induction xs arbitrary: s) (simp_all add: ack_by_chunk_def Let_def)
  then show ?thesis by (simp add: chunk_mark_acked_def Let_def on_chunk_def split: option.split)
qed

lemma accounted_mark_pn_acked:
  fixes r :: "('cc, 'z) recovery_scheme"
  assumes "accounted d r"
  shows "accounted d (fst (mark_pn_acked ops now level pn (r, n, largest)))"
proof (cases "find (\<lambda>i. ack_match pn level (packet_at r i)) [0..<sent_count r]")
  case (Some i)
  define idx where "idx = slot_oldest_to_newest r i"
  define p where "p = ring r idx"
  define rtt where "rtt = now - sp_time_sent_ms p"
  define r1 where "r1 = on_packet idx (\<lambda>p. p\<lparr>sp_acknowledged := True\<rparr>) (r\<lparr>packets_acked := Suc (packets_acked r)\<rparr>)"
  define r2 where "r2 = (if counted p \<and> pn > largest then update_rtt rtt r1 else r1)"
  define r3 where "r3 = (if counted p then let r3 = inflight_sub (sp_bytes_sent p) r2 in
      if sp_pkt_type p = -1 then with_cc (cc_on_packet_acked ops pn (sp_bytes_sent p) (rtt * 1000) now) r3 else r3 else r2)"
  have i: "i < sent_count r" "ack_match pn level (packet_at r i)"
    using Some by (auto simp: find_Some_iff)
  have p: "p = packet_at r i" "\<not> sp_acknowledged p" using i(2) by (simp_all add: p_def idx_def packet_at_def ack_match_def)
  have "accounted (d + flight p) (on_packet idx (\<lambda>p. p\<lparr>sp_acknowledged := True\<rparr>) r)"
    unfolding p(1) idx_def by (rule accounted_drop [OF assms i(1)]) (simp_all add: flight_def)
  then have "accounted (d + flight p) r1"
    by (rule accounted_same) (simp_all add: r1_def on_packet_def)
  then have r2: "accounted (d + flight p) r2"
    by (auto simp: r2_def intro: same_flight_accounted [OF same_flight_update_rtt])
  have "accounted d (inflight_sub (sp_bytes_sent p) r2)" if "counted p"
    by (rule accounted_settle) (use r2 that p(2) in \<open>simp add: flight_def\<close>)
  then have "accounted d r3"
    using r2 by (auto simp: r3_def Let_def flight_def intro: same_flight_accounted [OF same_flight_with_cc])
  moreover have "mark_pn_acked ops now level pn (r, n, largest)
      = (chunk_mark_acked (sp_chunk_id p) r3, Suc n, if counted p \<and> pn > largest then pn else largest)"
    by (simp add: mark_pn_acked_def Some Let_def r1_def r2_def r3_def idx_def p_def rtt_def)
  ultimately show ?thesis by (simp add: accounted_chunk_mark_acked)
qed (simp add: assms mark_pn_acked_def)

section \<open>Ranges\<close>

text \<open>The packet numbers a range covers; a range that ends at the largest 64-bit number is not walked to its end.\<close>

definition pns_between :: "u64 \<Rightarrow> u64 \<Rightarrow> u64 list" where
  "pns_between a b = map word_of_nat [unat a..<Suc (unat b)]"

lemma mark_range_ends: "mark_range ops now level pn e st = Some y \<Longrightarrow> e \<noteq> -1"
  by (rule mark_range.raw_induct [where P = "\<lambda>ops now level pn e st y. e \<noteq> -1"]) (auto split: if_splits simp del: split_paired_All split_paired_all)

lemma mark_range_endless: "mark_range ops now level pn (-1) st = None"
proof (rule ccontr)
  assume "mark_range ops now level pn (-1) st \<noteq> None"
  then obtain y where "mark_range ops now level pn (-1) st = Some y" by blast
  from mark_range_ends [OF this] show False by simp
qed

lemma covered_next: "a \<le> b \<Longrightarrow> b \<noteq> -1 \<Longrightarrow> pns_between a b = a # pns_between (a + 1) b"
proof -
  assume a: "a \<le> b" "b \<noteq> -1"
  then have "a \<noteq> -1" using word_order.extremum_unique by auto
  then have "unat (a + 1) = Suc (unat a)" using unatSuc [of a] by (metis add.commute add_eq_0_iff2)
  moreover have "unat a < Suc (unat b)" using a(1) by (simp add: word_le_nat_alt)
  ultimately show ?thesis by (simp add: pns_between_def upt_conv_Cons del: upt_Suc)
qed

lemma covered_none: "b < a \<Longrightarrow> pns_between a b = []"
  by (simp add: pns_between_def word_less_nat_alt del: upt_Suc)

lemma mark_range_fold:
  assumes "b \<noteq> -1"
  shows "mark_range ops now level a b st = Some (fold (mark_pn_acked ops now level) (pns_between a b) st)"
proof (induction "length (pns_between a b)" arbitrary: a st)
  case 0
  then have "\<not> a \<le> b" using covered_next [of a b] assms by auto
  then show ?case by (subst mark_range.simps) (simp add: covered_none)
next
  case (Suc n)
  then have "a \<le> b" using covered_none [of b a] by (cases "a \<le> b") auto
  then show ?case using Suc(1) [of "a + 1"] Suc(2) covered_next [OF _ assms, of a] by (subst mark_range.simps) simp
qed

lemma accounted_mark_fold:
  fixes st :: "('cc, 'z) recovery_scheme \<times> nat \<times> u64"
  shows "accounted d (fst st) \<Longrightarrow> accounted d (fst (fold (mark_pn_acked ops now level) pns st))"
proof (induction pns arbitrary: st)
  case (Cons pn pns)
  have "accounted d (fst (mark_pn_acked ops now level pn st))"
    using accounted_mark_pn_acked Cons(2) by (cases st) simp
  then show ?case using Cons(1) by simp
qed simp

lemma accounted_mark_range:
  "mark_range ops now level a b st = Some st1 \<Longrightarrow> accounted d (fst st) \<Longrightarrow> accounted d (fst st1)"
  using mark_range_ends [of ops now level a b st st1] mark_range_fold [of b ops now level a st] accounted_mark_fold by fastforce

lemma accounted_mark_ranges:
  "mark_ranges ops now level prev rs st = Some st1 \<Longrightarrow> accounted d (fst st) \<Longrightarrow> accounted d (fst st1)"
  by (induction ops now level prev rs st rule: mark_ranges.induct)
     (auto simp: Let_def split: option.splits dest: accounted_mark_range)

lemma accounted_process_ack_ranges:
  assumes "process_ack_ranges ops now level ack r = Some (r1, progress)" "accounted d r"
  shows "accounted d r1"
proof -
  define r0 where "r0 = (if largest_acknowledged ack > largest_acked_pn r level
    then r\<lparr>largest_acked_pn := (largest_acked_pn r)(level := largest_acknowledged ack)\<rparr> else r)"
  have "accounted d r0" by (rule accounted_same [OF assms(2)]) (simp_all add: r0_def)
  then show ?thesis using assms(1)
    by (auto simp: process_ack_ranges_def Let_def simp flip: r0_def split: option.splits
        dest!: accounted_mark_range accounted_mark_ranges)
qed

end
