(* ===== verification/Quic_Recovery_Invariant.thy ===== *)
theory Quic_Recovery_Invariant
  imports Quic_Recovery_Facts
begin

text \<open>
  The connection's invariant: the octets in flight are those of the packets on their way, and the congestion controller
  keeps its own invariant, through every operation of recovery, the packets that are sent in the middle of it included.
\<close>

section \<open>What an operation leaves alone\<close>

definition steady :: "'cc conn \<Rightarrow> 'cc conn \<Rightarrow> bool" where
  "steady c c' \<longleftrightarrow> build_size c' = build_size c \<and> congestion c' = congestion c \<and> packets_acked c' = packets_acked c"

lemma steady_trans: "steady a b \<Longrightarrow> steady b c \<Longrightarrow> steady a c"
  by (simp add: steady_def)

lemma steady_refl [simp]: "steady c c"
  by (simp add: steady_def)

lemma steady_on_packet [simp]: "steady c (on_packet idx f c)"
  by (simp add: steady_def on_packet_def)

lemma steady_inflight_sub [simp]: "steady c (inflight_sub n c)"
  by (simp add: steady_def inflight_sub_def)

lemma steady_release [simp]: "steady c (on_packet idx f (inflight_sub n c))"
  by (simp add: steady_def on_packet_def inflight_sub_def)

lemma steady_on_chunk [simp]: "steady c (on_chunk ci f c)"
  by (simp add: steady_def on_chunk_def split: option.split)

lemma steady_arm [simp]: "steady c (arm_pto_timer now c)"
  by (simp add: steady_def arm_pto_timer_def Let_def)

lemma steady_update_rtt [simp]: "steady c (update_rtt s c)"
  by (simp add: steady_def update_rtt_def Let_def)

lemma steady_compact [simp]: "steady c (compact_sent_packets c)"
  by (simp add: steady_def compact_sent_packets_def Let_def)

lemma steady_fold: "(\<And>i s. steady s (f i s)) \<Longrightarrow> steady c (fold f xs c)"
  by (induction xs arbitrary: c) (auto intro: steady_trans)

lemma steady_ack_by_chunk [simp]: "steady c (ack_by_chunk cid i c)"
  by (simp add: ack_by_chunk_def Let_def)

lemma steady_chunk_mark_acked [simp]: "steady c (chunk_mark_acked cid c)"
proof -
  have "steady c1 (fold (ack_by_chunk cid) xs c1)" for c1 :: "'a conn" and xs by (rule steady_fold) simp
  then have "steady c (fold (ack_by_chunk cid) xs (on_chunk ci f c))" for xs ci f by (rule steady_trans [OF steady_on_chunk])
  then show ?thesis by (simp add: chunk_mark_acked_def Let_def)
qed

lemma steady_chunk_alloc: "chunk_alloc now c = (c', ci) \<Longrightarrow> steady c c'"
  by (auto simp: steady_def chunk_alloc_def add_chunk_def Let_def split: if_splits option.splits)

lemma steady_chunk_for:
  assumes "chunk_for now bytes frames t c = (c', ci, stored)"
  shows "steady c c'"
proof -
  have s: "steady c (c\<lparr>current_retrans_chunk_id := no_chunk\<rparr>)" by (simp add: steady_def)
  show ?thesis using assms
    by (auto simp: chunk_for_def Let_def split: option.splits prod.splits if_splits
        intro: steady_trans [OF s] steady_trans [OF steady_trans [OF s steady_chunk_alloc]])
qed

lemma steady_take_slot:
  assumes "take_slot c = (c', idx)"
  shows "steady c c'"
proof -
  define r where "r = (if sent_count c \<ge> QUIC_RECOVERY_MAX_SENT_PACKETS then compact_sent_packets c else c)"
  have r: "steady c r" by (simp add: r_def)
  have "c' \<in> {r, inflight_sub (sp_bytes_sent (ring r (slot_oldest_to_newest r 0))) r, r\<lparr>sent_count := Suc (sent_count r)\<rparr>}"
    using assms unfolding take_slot_def r_def [symmetric] Let_def by (auto split: if_splits)
  then have "steady r c'" by (elim insertE) (simp_all add: steady_def inflight_sub_def)
  then show ?thesis by (rule steady_trans [OF r])
qed

lemma steady_clear_space: "steady c (recovery_clear_space t c)"
proof -
  let ?f = "\<lambda>i r. let idx = slot_oldest_to_newest r i; p = ring r idx in
            if sp_acknowledged p \<or> sp_pkt_type p \<noteq> t then r
            else on_packet idx ack_slot (if counted p then inflight_sub (sp_bytes_sent p) r else r)"
  have "steady c (fold ?f [0..<sent_count c] c)"
    by (rule steady_fold) (simp add: Let_def)
  then show ?thesis by (simp add: recovery_clear_space_def Let_def steady_def)
qed

section \<open>The invariant\<close>

definition sound :: "(nat \<Rightarrow> 'cc \<Rightarrow> bool) \<Rightarrow> nat \<Rightarrow> 'cc conn \<Rightarrow> bool" where
  "sound good d c \<longleftrightarrow> accounted d c \<and> (\<forall>t pn f. build_size c t pn f \<noteq> None \<longrightarrow> length f \<le> 1500)
     \<and> (\<forall>cc. congestion c = Some cc \<longrightarrow> packets_acked c < 2 ^ 50 \<longrightarrow> good (packets_acked c) cc)"

lemma sound_steady: "sound good d c \<Longrightarrow> steady c c' \<Longrightarrow> accounted d' c' \<Longrightarrow> sound good d' c'"
  by (simp add: sound_def steady_def)

lemma sound_same:
  assumes "sound good d c" "same_flight c c'" "steady c c'"
  shows "sound good d c'"
  using assms sound_steady same_flight_accounted by (metis sound_def)

lemma sound_accounted: "sound good d c \<Longrightarrow> accounted d c"
  by (simp add: sound_def)

lemma sound_compact: "sound good d c \<Longrightarrow> sound good d (compact_sent_packets c)"
  by (rule sound_steady [OF _ steady_compact]) (auto intro: accounted_compact sound_accounted)

lemma sound_arm: "sound good d c \<Longrightarrow> sound good d (arm_pto_timer now c)"
  by (rule sound_same [of _ _ c]) simp_all

lemma sound_chunk_mark_acked: "sound good d c \<Longrightarrow> sound good d (chunk_mark_acked cid c)"
  by (rule sound_steady [OF _ steady_chunk_mark_acked]) (auto intro: accounted_chunk_mark_acked sound_accounted)

lemma sound_on_chunk: "sound good d c \<Longrightarrow> sound good d (on_chunk ci f c)"
  by (rule sound_same [of _ _ c]) simp_all

lemma accounted_clear_space: "accounted d r \<Longrightarrow> accounted d (recovery_clear_space t r)"
proof -
  assume a: "accounted d r"
  let ?f = "\<lambda>i r. let idx = slot_oldest_to_newest r i; p = ring r idx in
            if sp_acknowledged p \<or> sp_pkt_type p \<noteq> t then r
            else on_packet idx ack_slot (if counted p then inflight_sub (sp_bytes_sent p) r else r)"
  have "accounted d (fold ?f [0..<sent_count r] r) \<and> sent_count (fold ?f [0..<sent_count r] r) = sent_count r"
    by (rule fold_release [OF a, where sel = "\<lambda>p. sp_pkt_type p = t"]) (auto simp: Let_def)
  then show ?thesis unfolding recovery_clear_space_def Let_def by (auto intro: accounted_same)
qed

lemma sound_clear_space: "sound good d c \<Longrightarrow> sound good d (recovery_clear_space t c)"
  by (rule sound_steady [OF _ steady_clear_space]) (auto intro: accounted_clear_space sound_accounted)

text \<open>What the ring does while packets are added to it: the packets that were there keep their slots.\<close>

definition grown :: "('cc, 'z) recovery_scheme \<Rightarrow> ('cc, 'z) recovery_scheme \<Rightarrow> bool" where
  "grown r r' \<longleftrightarrow> sent_count r \<le> sent_count r' \<and> sent_count r' \<le> Suc (sent_count r)
     \<and> (\<forall>i < sent_count r. slot_oldest_to_newest r' i = slot_oldest_to_newest r i \<and> packet_at r' i = packet_at r i)"

lemma same_flight_grown: "same_flight r r' \<Longrightarrow> grown r r'"
  using slot_cong [of r' r] by (simp add: same_flight_def grown_def packet_at_def)

lemma packet_sent_grown:
  fixes r :: "('cc, 'z) recovery_scheme"
  assumes "sent_head r < 4096" "sent_count r < 4096"
  shows "grown r (quic_recovery_on_packet_sent ops pn e bytes frames t now r)"
proof -
  obtain r2 ci stored where cf: "chunk_for now bytes frames t (r\<lparr>sent_count := Suc (sent_count r)\<rparr>) = (r2, ci, stored)"
    using prod_cases3 by blast
  let ?r = "quic_recovery_on_packet_sent ops pn e bytes frames t now r"
  have sf: "same_flight (r\<lparr>sent_count := Suc (sent_count r)\<rparr>) r2" by (rule same_flight_chunk_for [OF cf])
  have ts: "take_slot r = (r\<lparr>sent_count := Suc (sent_count r)\<rparr>, sent_head r)"
    using assms by (simp add: take_slot_def Let_def recovery_consts)
  have "\<exists>p. ring ?r = (ring r)(sent_head r := p)" "sent_head ?r = (sent_head r + 1) mod 4096" "sent_count ?r = sent_count r + 1"
    using sf by (auto simp: quic_recovery_on_packet_sent_def ts cf Let_def same_flight_def on_packet_def with_cc_def arm_pto_timer_def recovery_consts)
  then obtain p where r: "ring ?r = (ring r)(sent_head r := p)" "sent_head ?r = (sent_head r + 1) mod 4096" "sent_count ?r = sent_count r + 1"
    by blast
  note s = slot_next [OF r(2,3)]
  have "packet_at ?r i = packet_at r i" if "i < sent_count r" for i
    using slot_inj [of r i "sent_count r"] that assms r(1) by (auto simp: packet_at_def s slot_end)
  then show ?thesis using r(3) s by (simp add: grown_def)
qed

section \<open>With a controller that keeps its invariant\<close>

context controller_invariant
begin

lemma sound_with_sent: "sound good d c \<Longrightarrow> sound good d (with_cc (cc_on_packet_sent ops pn bytes now) c)"
  using same_flight_accounted [OF same_flight_with_cc] by (auto simp: sound_def with_cc_def sent)

lemma sound_packet_sent:
  assumes "sound good d c" "d \<le> 1500" "length frames \<le> 1500"
  shows "sound good d (quic_recovery_on_packet_sent ops pn True (word_of_nat (length frames)) frames t now c)"
proof -
  let ?b = "word_of_nat (length frames) :: u64"
  let ?c = "quic_recovery_on_packet_sent ops pn True ?b frames t now c"
  obtain c1 idx where ts: "take_slot c = (c1, idx)" by fastforce
  obtain c2 ci stored where cf: "chunk_for now ?b frames t c1 = (c2, ci, stored)" using prod_cases3 by blast
  have st: "steady c c2" using steady_trans [OF steady_take_slot [OF ts] steady_chunk_for [OF cf]] .
  have "unat ?b \<le> 1500" using assms(3) by (simp add: unat_of_nat)
  then have a: "accounted d ?c" using packet_sent [OF sound_accounted [OF assms(1)] assms(2)] by blast
  have "build_size ?c = build_size c2" "packets_acked ?c = packets_acked c2"
    "congestion ?c = (if t = -1 then map_option (cc_on_packet_sent ops pn ?b now) (congestion c2) else congestion c2)"
    by (simp_all add: quic_recovery_on_packet_sent_def ts cf Let_def on_packet_def with_cc_def arm_pto_timer_def)
  then show ?thesis using assms(1) st a sent by (auto simp: sound_def steady_def)
qed

lemma sound_fields:
  assumes "sound good d c" "ring c' = ring c" "sent_head c' = sent_head c" "sent_count c' = sent_count c"
    "bytes_in_flight c' = bytes_in_flight c" "build_size c' = build_size c" "congestion c' = congestion c" "packets_acked c' = packets_acked c"
  shows "sound good d c'"
  by (rule sound_same [OF assms(1)]) (simp_all add: same_flight_def steady_def assms)

lemma send_quic_packet_spec:
  assumes "sound good d c" "d \<le> 1500"
  shows "sound good d (fst (send_quic_packet ops now t frames c))
    \<and> (sent_count c < 4096 \<longrightarrow> grown c (fst (send_quic_packet ops now t frames c)))"
proof -
  define pn where "pn = next_pn c (pkt_type_to_level t)"
  define c0 where "c0 = c\<lparr>next_pn := (next_pn c)(pkt_type_to_level t := pn + 1)\<rparr>"
  have 0: "sound good d c0" by (rule sound_fields [OF assms(1)]) (simp_all add: c0_def)
  have g0: "grown c c0" by (rule same_flight_grown) (simp add: same_flight_def c0_def)
  show ?thesis
  proof (cases "keys_ready c0 (pkt_type_to_level t)")
    case keys: True
    show ?thesis
    proof (cases "build_size c0 t pn frames")
      case (Some sz)
      show ?thesis
      proof (cases "amplification_allows t sz c0")
        case True
        define c1 where "c1 = account_amplification t sz c0"
        define c2 where "c2 = c1\<lparr>wire := wire c1 @ [(t, pn, frames)]\<rparr>"
        define c3 where "c3 = (if t = -1 \<and> probe_size c2 > 0 then c2\<lparr>probe_pn := pn\<rparr> else c2)"
        define c4 where "c4 = quic_recovery_on_packet_sent ops pn True (word_of_nat (length frames)) frames t now c3"
        define c5 where "c5 = (if t = -1 then c4\<lparr>pkts_sent_with_key := pkts_sent_with_key c4 + 1\<rparr> else c4)"
        have sends: "fst (send_quic_packet ops now t frames c) = (if \<not> conn_closing c3 \<and> \<not> recovery_paused c3 \<and> payload_ack_eliciting frames then c5 else c3)"
          using keys Some True by (simp add: send_quic_packet_def Let_def pn_def c0_def c1_def c2_def c3_def c4_def c5_def)
        have eqs: "ring c3 = ring c0" "sent_head c3 = sent_head c0" "sent_count c3 = sent_count c0" "bytes_in_flight c3 = bytes_in_flight c0"
          "build_size c3 = build_size c0" "congestion c3 = congestion c0" "packets_acked c3 = packets_acked c0"
          by (simp_all add: c3_def c2_def c1_def account_amplification_def)
        have 3: "sound good d c3" by (rule sound_fields [OF 0 eqs])
        have "length frames \<le> 1500" using 0 Some unfolding sound_def by (metis option.distinct(1))
        then have 4: "sound good d c4" unfolding c4_def by (rule sound_packet_sent [OF 3 assms(2)])
        have 5: "sound good d c5" by (rule sound_fields [OF 4]) (simp_all add: c5_def)
        have h: "sent_head c3 < 4096" using sound_accounted [OF 3] by (simp add: accounted_view)
        have g3: "grown c c3" by (rule same_flight_grown) (simp add: same_flight_def eqs c0_def)
        have g5: "grown c c5" if "sent_count c < 4096"
        proof -
          have "grown c3 c4" unfolding c4_def using h that eqs by (intro packet_sent_grown) (simp_all add: c0_def)
          then show ?thesis using g3 slot_cong [of c5 c4] slot_cong [of c3 c] eqs
            by (auto simp: grown_def c5_def c0_def packet_at_def split: if_splits)
        qed
        show ?thesis unfolding sends using 3 5 g3 g5 by simp
      qed (use 0 g0 keys Some in \<open>simp add: send_quic_packet_def Let_def pn_def c0_def\<close>)
    qed (use 0 g0 keys in \<open>simp add: send_quic_packet_def Let_def pn_def c0_def\<close>)
  qed (use 0 g0 in \<open>simp add: send_quic_packet_def Let_def pn_def c0_def\<close>)
qed

lemmas sound_send = send_quic_packet_spec [THEN conjunct1]

end

end
