(* ===== verification/Quic_Loss_Facts.thy ===== *)
theory Quic_Loss_Facts
  imports Quic_Recovery_Invariant
begin

text \<open>
  The invariant through loss detection and the probe timer, and what it gives for every connection whose ring kept some room: an
  exact count of the octets in flight, and a window that never shuts on a connection with nothing in flight.
\<close>

context controller_invariant
begin

section \<open>Flushing and closing\<close>

lemma sound_can_send:
  assumes "sound good d c" "quic_recovery_can_send ops now c = (ok, c1)"
  shows "sound good d c1 \<and> same_flight c c1"
proof (cases "congestion c")
  case (Some cc)
  then have c1: "c1 = c\<lparr>congestion := Some (snd (quic_cc_can_send ops now (bytes_in_flight c) cc))\<rparr>"
    using assms(2) by (auto simp: quic_recovery_can_send_def split: prod.splits)
  then have sf: "same_flight c c1" by (simp add: same_flight_def)
  have "good (packets_acked c) (snd (quic_cc_can_send ops now (bytes_in_flight c) cc))" if "packets_acked c < 2 ^ 50"
    using assms(1) Some that can_send_keeps by (auto simp: sound_def)
  then show ?thesis using assms(1) same_flight_accounted [OF sf] sf by (auto simp: sound_def c1)
qed (use assms in \<open>auto simp: quic_recovery_can_send_def same_flight_def\<close>)

lemma sound_flush:
  assumes "sound good 0 c"
  shows "sound good 0 (quic_conn_flush_packet ops now c)"
proof (cases "payload c = []")
  case False
  obtain ok c1 where cs: "quic_recovery_can_send ops now c = (ok, c1)" by fastforce
  obtain paced c2 where pa: "pacing_answer c1 = (paced, c2)" by fastforce
  have 1: "sound good 0 c1" using sound_can_send [OF assms cs] by simp
  have 2: "sound good 0 c2" by (rule sound_fields [OF 1]) (use pa in \<open>auto simp: pacing_answer_def split: list.splits\<close>)
  have "sound good 0 ((fst (send_quic_packet ops now (-1) (payload c2) c2))\<lparr>payload := []\<rparr>)"
    by (rule sound_fields [OF sound_send [OF 2]]) simp_all
  then show ?thesis using False 1 2 by (auto simp: quic_conn_flush_packet_def cs pa split: bool.split)
qed (use assms in \<open>simp add: quic_conn_flush_packet_def\<close>)

lemma sound_payload: "sound good d c \<Longrightarrow> sound good d (c\<lparr>payload := x\<rparr>)"
  by (rule sound_fields) simp_all

lemma sound_queue:
  assumes "sound good 0 c"
  shows "sound good 0 (quic_conn_queue_frames ops now f c)"
proof -
  obtain ok c1 where cs: "quic_recovery_can_send ops now c = (ok, c1)" by fastforce
  have 1: "sound good 0 c1" using sound_can_send [OF assms cs] by simp
  show ?thesis using assms 1 sound_flush [OF 1]
    by (auto simp: quic_conn_queue_frames_def cs Let_def sound_payload split: bool.split)
qed

lemma sound_keepalive:
  assumes "sound good 0 c"
  shows "sound good 0 (pto_keepalive_cb ops now c)"
proof -
  have "sound good 0 (fold (quic_conn_queue_frames ops now) fs s)" if "sound good 0 s" for fs s
    using that by (induction fs arbitrary: s) (auto intro: sound_queue)
  then show ?thesis using assms by (auto simp: pto_keepalive_cb_def intro: sound_flush)
qed

lemma sound_close: "sound good d c \<Longrightarrow> sound good d (QuicConnectionClose ec reason c)"
  by (rule sound_fields [of d c]) (simp_all add: QuicConnectionClose_def Let_def split: option.split)

section \<open>Losing packets\<close>

text \<open>A packet is sent again while its octets are a debt; the ring has room, so its slot is still its own afterwards.\<close>

lemma sound_resend:
  assumes "sound good d c" "d \<le> 1500" "sent_count c < 4096"
  shows "sound good d (resend_at_once ops now p ci c) \<and> grown c (resend_at_once ops now p ci c)"
proof -
  define c1 where "c1 = c\<lparr>current_retrans_chunk_id := sp_chunk_id p\<rparr>"
  define c2 where "c2 = fst (send_quic_packet ops now (sp_pkt_type p) (case sp_frames p of None \<Rightarrow> [] | Some f \<Rightarrow> f) c1)"
  have 1: "sound good d c1" by (rule sound_fields [OF assms(1)]) (simp_all add: c1_def)
  have s: "same_flight c c1" by (simp add: same_flight_def c1_def)
  have 2: "sound good d c2" "grown c1 c2"
    using send_quic_packet_spec [OF 1 assms(2)] assms(3) by (simp_all add: c2_def) (simp add: c1_def)
  have r: "resend_at_once ops now p ci c = on_chunk ci (\<lambda>k. k\<lparr>ck_retrans_count := Suc (ck_retrans_count k), ck_last_retrans_ms := now\<rparr>) c2"
    by (simp add: resend_at_once_def QuicConnectionSendImmediate_def c1_def c2_def)
  have "same_flight c2 (resend_at_once ops now p ci c)" by (simp add: r)
  then have "grown c (resend_at_once ops now p ci c)"
    using 2(2) s slot_cong [of c1 c] slot_cong [of "resend_at_once ops now p ci c" c2]
    by (auto simp: grown_def same_flight_def packet_at_def)
  then show ?thesis using 2(1) by (simp add: r sound_on_chunk)
qed

definition resend_room :: "loss_pass \<Rightarrow> ('a, 'z) recovery_scheme \<Rightarrow> bool" where
  "resend_room l r \<longleftrightarrow> sent_count r + (QUIC_LOSS_RETRANSMIT_PER_PASS - fast_retx l) \<le> QUIC_RECOVERY_MAX_SENT_PACKETS"

lemma sound_lose:
  assumes "sound good 0 c" "i < sent_count c" "resend_room l c" "\<not> sp_acknowledged (packet_at c i)" "counted (packet_at c i)"
  shows "sound good 0 (fst (lose_packet ops now (slot_oldest_to_newest c i) (c, l)))
    \<and> resend_room (snd (lose_packet ops now (slot_oldest_to_newest c i) (c, l))) (fst (lose_packet ops now (slot_oldest_to_newest c i) (c, l)))"
proof -
  define idx where "idx = slot_oldest_to_newest c i"
  define p where "p = packet_at c i"
  define ci where "ci = chunk_find (chunks c) (sp_chunk_id p)"
  have p: "ring c idx = p" by (simp add: p_def idx_def packet_at_def)
  note acc = sound_accounted [OF assms(1)]
  have i: "i < 4096" using assms(2) accounted_count [OF acc] by simp
  show ?thesis
  proof (cases "chunk_is ChunkLost ci c")
    case True
    define c1 where "c1 = on_packet idx (\<lambda>p. p\<lparr>sp_lost := True, sp_frames := None\<rparr>) (inflight_sub (sp_bytes_sent p) c)"
    have a: "accounted 0 c1" unfolding c1_def idx_def p_def
      using accounted_release [OF acc assms(2), of "\<lambda>p. p\<lparr>sp_lost := True, sp_frames := None\<rparr>"] assms(4,5)
      by (simp add: flight_def counted_def)
    have "sound good 0 c1" by (rule sound_steady [OF assms(1) _ a]) (simp add: c1_def)
    moreover have "lose_packet ops now idx (c, l) = (c1, l)"
      using True assms(5) by (simp add: lose_packet_def Let_def p ci_def c1_def flip: p_def)
    ultimately show ?thesis using assms(3) by (simp add: idx_def resend_room_def c1_def)
  next
    case False
    define c1 where "c1 = (on_packet idx (\<lambda>p. p\<lparr>sp_lost := True\<rparr>) c)\<lparr>packets_lost := Suc (packets_lost c)\<rparr>"
    define l1 where "l1 = l\<lparr>loss_detected := True, app_loss_detected := app_loss_detected l \<or> sp_pkt_type p = -1\<rparr>"
    define now_too where "now_too \<longleftrightarrow> fast_retx l1 < QUIC_LOSS_RETRANSMIT_PER_PASS"
    define c2 where "c2 = (if now_too then resend_at_once ops now p ci c1 else c1)"
    define c3 where "c3 = on_packet idx drop_frames (inflight_sub (sp_bytes_sent (ring c2 idx)) c2)"
    have lose: "lose_packet ops now idx (c, l) = (on_chunk ci (\<lambda>k. k\<lparr>ck_state := ChunkLost\<rparr>) c3,
        if now_too then l1\<lparr>fast_retx := Suc (fast_retx l1)\<rparr> else l1)"
      using False by (simp add: lose_packet_def Let_def p ci_def c1_def l1_def now_too_def c2_def c3_def)
    have "accounted (0 + flight p) (on_packet idx (\<lambda>p. p\<lparr>sp_lost := True\<rparr>) c)"
      unfolding idx_def p_def by (rule accounted_drop [OF acc assms(2)]) (simp_all add: flight_def counted_def)
    then have a1: "accounted (flight p) c1" by (intro accounted_same [of _ "on_packet idx (\<lambda>p. p\<lparr>sp_lost := True\<rparr>) c" c1]) (simp_all add: c1_def)
    have 1: "sound good (flight p) c1"
      by (rule sound_steady [OF assms(1) _ a1]) (simp add: c1_def steady_def on_packet_def)
    have fl: "flight p = unat (sp_bytes_sent p)" using assms(4,5) by (simp add: flight_def p_def)
    have small: "flight p \<le> 1500" unfolding fl using acc assms(2) by (auto simp: p_def accounted_def ring_ok_def)
    have cnt: "sent_count c1 = sent_count c" by (simp add: c1_def)
    have at1: "packet_at c1 i = p\<lparr>sp_lost := True\<rparr>"
      using packet_at_on_packet [OF i i, of c "\<lambda>p. p\<lparr>sp_lost := True\<rparr>"] same_ring(1) [of c1 "on_packet idx (\<lambda>p. p\<lparr>sp_lost := True\<rparr>) c"]
      by (simp add: c1_def idx_def p_def)
    have sl1: "slot_oldest_to_newest c1 i = idx" using slot_cong [of c1 c] by (simp add: c1_def idx_def)
    have 2: "sound good (flight p) c2 \<and> grown c1 c2"
    proof (cases now_too)
      case True
      then have "sent_count c1 < 4096"
        using assms(3) cnt by (simp add: now_too_def l1_def resend_room_def recovery_consts QUIC_LOSS_RETRANSMIT_PER_PASS_def)
      then show ?thesis using sound_resend [OF 1 small] True by (simp add: c2_def)
    qed (use 1 same_flight_grown [of c1 c1] in \<open>simp add: c2_def same_flight_def\<close>)
    have sl2: "slot_oldest_to_newest c2 i = idx" and at2: "packet_at c2 i = p\<lparr>sp_lost := True\<rparr>" and i2: "i < sent_count c2"
      using 2 sl1 at1 assms(2) cnt by (auto simp: grown_def)
    have r2: "ring c2 idx = p\<lparr>sp_lost := True\<rparr>" using at2 sl2 by (simp add: packet_at_def)
    have "accounted 0 (inflight_sub (sp_bytes_sent (ring c2 idx)) c2)"
      by (rule accounted_settle) (use 2 in \<open>simp add: r2 fl sound_def\<close>)
    then have "accounted (0 + flight (packet_at (inflight_sub (sp_bytes_sent (ring c2 idx)) c2) i)) c3"
      using accounted_drop [of 0 "inflight_sub (sp_bytes_sent (ring c2 idx)) c2" i drop_frames] i2 at2 sl2
        slot_cong [of "inflight_sub (sp_bytes_sent (ring c2 idx)) c2" c2] same_ring(1) [of "inflight_sub (sp_bytes_sent (ring c2 idx)) c2" c2]
      by (simp add: c3_def drop_frames_def flight_def counted_def)
    then have a3: "accounted 0 c3"
      using at2 same_ring(1) [of "inflight_sub (sp_bytes_sent (ring c2 idx)) c2" c2] by (simp add: flight_def counted_def)
    have "sound good 0 c3" by (rule sound_steady [OF 2 [THEN conjunct1] _ a3]) (simp add: c3_def)
    then have 4: "sound good 0 (on_chunk ci (\<lambda>k. k\<lparr>ck_state := ChunkLost\<rparr>) c3)" by (rule sound_on_chunk)
    have cnt3: "sent_count (on_chunk ci f c3) = sent_count c2" for f
      using same_flight_on_chunk [of c3 ci f] by (simp add: same_flight_def c3_def)
    have "resend_room (if now_too then l1\<lparr>fast_retx := Suc (fast_retx l1)\<rparr> else l1) (on_chunk ci (\<lambda>k. k\<lparr>ck_state := ChunkLost\<rparr>) c3)"
    proof (cases now_too)
      case True
      moreover have "sent_count c2 \<le> Suc (sent_count c)" using 2 cnt by (simp add: grown_def)
      ultimately show ?thesis using assms(3)
        by (simp add: resend_room_def cnt3 now_too_def l1_def QUIC_LOSS_RETRANSMIT_PER_PASS_def)
    next
      case False
      then show ?thesis using assms(3) cnt by (simp add: resend_room_def cnt3 l1_def c2_def)
    qed
    then show ?thesis using 4 lose by (simp add: idx_def)
  qed
qed

lemma sound_loss_step:
  assumes "sound good 0 (fst st)" "i < sent_count (fst st)" "resend_room (snd st) (fst st)"
  shows "sound good 0 (fst (loss_step ops now th i st)) \<and> resend_room (snd (loss_step ops now th i st)) (fst (loss_step ops now th i st))"
proof (cases st)
  case (Pair c l)
  show ?thesis
  proof (cases "sp_acknowledged (packet_at c i) \<or> sp_lost (packet_at c i) \<or> \<not> seems_lost now th c (packet_at c i)")
    case False
    then have "counted (packet_at c i)" by (simp add: counted_def seems_lost_def)
    then show ?thesis using sound_lose [of c i l] assms False by (simp add: loss_step_def Let_def Pair packet_at_def)
  qed (use assms in \<open>simp add: loss_step_def Let_def Pair packet_at_def\<close>)
qed

lemma sound_loss_loop:
  "sound good 0 (fst st) \<Longrightarrow> resend_room (snd st) (fst st) \<Longrightarrow> sound good 0 (fst (loss_loop ops now th i st))"
proof (induction "4096 - i" arbitrary: i st)
  case 0
  then show ?case by (subst loss_loop.simps) (simp add: recovery_consts)
next
  case (Suc n)
  show ?case
  proof (cases "i < sent_count (fst st)")
    case True
    have "sound good 0 (fst (loss_loop ops now th (Suc i) (loss_step ops now th i st)))"
      using Suc(1) [of "Suc i" "loss_step ops now th i st"] Suc(2-4) True sound_loss_step by auto
    moreover have "i < 4096" using Suc(2) by simp
    ultimately show ?thesis using True by (subst loss_loop.simps) (simp add: recovery_consts)
  qed (use Suc in \<open>subst loss_loop.simps, simp\<close>)
qed

lemma sound_event: "sound good d c \<Longrightarrow> sound good d (with_cc (cc_on_congestion_event ops now) c)"
  using same_flight_accounted [OF same_flight_with_cc] by (auto simp: sound_def with_cc_def event)

lemma sound_persistent: "sound good d c \<Longrightarrow> sound good d (with_cc (cc_on_persistent_congestion ops now) c)"
  using same_flight_accounted [OF same_flight_with_cc] by (auto simp: sound_def with_cc_def persistent)

lemma sound_after_losses:
  assumes "sound good 0 c"
  shows "sound good 0 (after_losses ops now (c, l))"
proof -
  have u: "sound good 0 (s\<lparr>loss_epoch_start_ms := x\<rparr>)" "sound good 0 (s\<lparr>persistent_congestion_detected := b\<rparr>)"
    if "sound good 0 s" for s x b
    by (rule sound_fields [OF that]; simp)+
  show ?thesis using assms by (auto simp: after_losses_def Let_def intro!: sound_flush sound_event sound_persistent u)
qed

lemma sound_detect_losses:
  assumes "sound good 0 c" "sent_count c \<le> 4092"
  shows "sound good 0 (detect_losses ops now c)"
proof -
  let ?st = "loss_loop ops now (time_threshold c) 0 (c, \<lparr>loss_detected = False, fast_retx = 0, app_loss_detected = False\<rparr>)"
  have "sound good 0 (fst ?st)"
    using assms by (intro sound_loss_loop) (simp_all add: resend_room_def recovery_consts QUIC_LOSS_RETRANSMIT_PER_PASS_def)
  then show ?thesis using sound_after_losses [of "fst ?st" now "snd ?st"] by (simp add: detect_losses_def)
qed

section \<open>Acknowledgements\<close>

lemma good_mark_pn_acked:
  assumes "sound good d r"
  shows "sound good d (fst (mark_pn_acked ops now level pn (r, n, largest)))"
proof (cases "find (\<lambda>i. ack_match pn level (packet_at r i)) [0..<sent_count r]")
  case (Some i)
  define idx where "idx = slot_oldest_to_newest r i"
  define p where "p = ring r idx"
  define rtt where "rtt = now - sp_time_sent_ms p"
  define r1 where "r1 = on_packet idx (\<lambda>p. p\<lparr>sp_acknowledged := True\<rparr>) (r\<lparr>packets_acked := Suc (packets_acked r)\<rparr>)"
  define r2 where "r2 = (if counted p \<and> pn > largest then update_rtt rtt r1 else r1)"
  define r3 where "r3 = (if counted p then let r3 = inflight_sub (sp_bytes_sent p) r2 in
      if sp_pkt_type p = -1 then with_cc (cc_on_packet_acked ops pn (sp_bytes_sent p) (rtt * 1000) now) r3 else r3 else r2)"
  have m: "mark_pn_acked ops now level pn (r, n, largest)
      = (chunk_mark_acked (sp_chunk_id p) r3, Suc n, if counted p \<and> pn > largest then pn else largest)"
    by (simp add: mark_pn_acked_def Some Let_def r1_def r2_def r3_def idx_def p_def rtt_def)
  have i: "i < sent_count r" using Some by (auto simp: find_Some_iff)
  have b: "unat (sp_bytes_sent p) \<le> 1500"
    using assms i by (auto simp: sound_def accounted_def ring_ok_def p_def idx_def packet_at_def)
  have s2: "build_size r2 = build_size r" "congestion r2 = congestion r" "packets_acked r2 = Suc (packets_acked r)"
    by (simp_all add: r2_def r1_def update_rtt_def Let_def on_packet_def)
  have s3: "build_size r3 = build_size r" "packets_acked r3 = Suc (packets_acked r)"
    "congestion r3 = congestion r \<or> congestion r3 = map_option (cc_on_packet_acked ops pn (sp_bytes_sent p) (rtt * 1000) now) (congestion r)"
    using s2 by (simp_all add: r3_def Let_def with_cc_def inflight_sub_def)
  have g: "good (packets_acked r3) cc" if "congestion r3 = Some cc" "packets_acked r3 < 2 ^ 50" for cc
    using assms that s3(2,3) b acked later by (cases "congestion r") (auto simp: sound_def)
  have "steady r3 (chunk_mark_acked (sp_chunk_id p) r3)" by simp
  then show ?thesis using assms accounted_mark_pn_acked [OF sound_accounted [OF assms], of ops now level pn n largest] g s3(1)
    by (auto simp: sound_def steady_def m)
qed (simp add: assms mark_pn_acked_def)

lemma sound_mark_fold: "sound good d (fst st) \<Longrightarrow> sound good d (fst (fold (mark_pn_acked ops now level) pns st))"
proof (induction pns arbitrary: st)
  case (Cons pn pns)
  have "sound good d (fst (mark_pn_acked ops now level pn st))" using good_mark_pn_acked Cons(2) by (cases st) simp
  then show ?case using Cons(1) by simp
qed simp

lemma sound_mark_range: "mark_range ops now level a b st = Some st1 \<Longrightarrow> sound good d (fst st) \<Longrightarrow> sound good d (fst st1)"
  using mark_range_ends [of ops now level a b st st1] mark_range_fold [of b ops now level a st] sound_mark_fold by fastforce

lemma sound_mark_ranges: "mark_ranges ops now level prev rs st = Some st1 \<Longrightarrow> sound good d (fst st) \<Longrightarrow> sound good d (fst st1)"
proof (induction rs arbitrary: prev st)
  case (Cons x rs)
  then show ?case by (cases x) (auto simp: Let_def split: option.splits dest: sound_mark_range)
qed simp

lemma sound_process_ack_ranges:
  assumes "process_ack_ranges ops now level ack c = Some (c1, progress)" "sound good d c"
  shows "sound good d c1"
proof -
  define c0 where "c0 = (if largest_acknowledged ack > largest_acked_pn c level
    then c\<lparr>largest_acked_pn := (largest_acked_pn c)(level := largest_acknowledged ack)\<rparr> else c)"
  have "sound good d c0" by (rule sound_fields [OF assms(2)]) (simp_all add: c0_def)
  then show ?thesis using assms(1)
    by (auto simp: process_ack_ranges_def Let_def simp flip: c0_def split: option.splits dest!: sound_mark_range sound_mark_ranges)
qed

lemma sound_check_losses: "sound good 0 c \<Longrightarrow> sent_count c \<le> 4092 \<Longrightarrow> sound good 0 (quic_recovery_check_losses ops now c)"
  by (simp add: quic_recovery_check_losses_def sound_compact sound_detect_losses)

lemma count_process_ack_ranges:
  assumes "process_ack_ranges ops now level ack r = Some (r1, progress)"
  shows "sent_count r1 = sent_count r"
proof -
  have m: "sent_count (fst (mark_pn_acked ops now level pn st)) = sent_count (fst st)" for pn and st :: "('cc, 'z) recovery_scheme \<times> nat \<times> u64"
    by (cases st) (auto simp: mark_pn_acked_def Let_def count_chunk_mark_acked with_cc_def update_rtt_def split: option.splits)
  have f: "sent_count (fst (fold (mark_pn_acked ops now level) pns st)) = sent_count (fst st)" for pns and st :: "('cc, 'z) recovery_scheme \<times> nat \<times> u64"
    by (induction pns arbitrary: st) (simp_all add: m)
  have r: "sent_count (fst st1) = sent_count (fst st)" if "mark_range ops now level a b st = Some st1" for a b and st st1 :: "('cc, 'z) recovery_scheme \<times> nat \<times> u64"
    using mark_range_ends [OF that] mark_range_fold [of b ops now level a st] that f by fastforce
  have rs: "sent_count (fst st1) = sent_count (fst st)" if "mark_ranges ops now level prev xs st = Some st1" for prev xs and st st1 :: "('cc, 'z) recovery_scheme \<times> nat \<times> u64"
    using that
  proof (induction xs arbitrary: prev st)
    case (Cons x xs)
    then show ?case by (cases x) (auto simp: Let_def split: option.splits dest!: r)
  qed simp
  show ?thesis using assms by (auto simp: process_ack_ranges_def Let_def split: option.splits if_splits dest!: r rs)
qed

lemma sound_ack_received:
  assumes "quic_recovery_on_ack_received ops ack now level c = Some c'" "sound good 0 c" "sent_count c \<le> 4092"
  shows "sound good 0 c'"
proof -
  obtain c1 progress where pa: "process_ack_ranges ops now level ack c = Some (c1, progress)"
    using assms(1) by (auto simp: quic_recovery_on_ack_received_def split: option.splits)
  define c2 where "c2 = compact_sent_packets (detect_losses ops now c1)"
  define c3 where "c3 = (if progress then c2\<lparr>pto_count := 0, last_progress_ms := now\<rparr> else c2)"
  have "sound good 0 c2" unfolding c2_def
    using sound_process_ack_ranges [OF pa assms(2)] count_process_ack_ranges [OF pa] assms(3) by (intro sound_compact sound_detect_losses) auto
  then have "sound good 0 c3" by (rule sound_fields) (simp_all add: c3_def)
  moreover have "c' = arm_pto_timer now c3" using assms(1) pa by (auto simp: quic_recovery_on_ack_received_def Let_def c2_def c3_def)
  ultimately show ?thesis by (simp add: sound_arm)
qed

section \<open>The probe timer\<close>

text \<open>The timer's repair of a counter that is left over when the ring is empty has nothing to repair.\<close>

lemma pto_reset_stale_idle: "accounted 0 c \<Longrightarrow> pto_reset_stale ops now c = c"
  using unat_eq_0 [of "bytes_in_flight c"] by (auto simp: pto_reset_stale_def accounted_def in_flight_sum_def word_gt_0)

lemma sound_probe:
  assumes "sound good 0 c"
  shows "sound good 0 (probe ops now j c)"
proof -
  have 1: "sound good 0 (c\<lparr>current_retrans_chunk_id := x\<rparr>)" for x by (rule sound_fields [OF assms]) simp_all
  show ?thesis unfolding probe_def Let_def QuicConnectionSendImmediate_def
    by (intro sound_on_chunk sound_send [OF 1]) simp
qed

lemma sound_pto_loop: "sound good 0 c \<Longrightarrow> sound good 0 (fst (pto_loop ops now j probes c))"
proof (induction "512 - j" arbitrary: j probes c)
  case 0
  then show ?case by (subst pto_loop.simps) (simp add: recovery_consts)
next
  case (Suc n)
  have j: "j < 512" "n = 512 - Suc j" using Suc(2) by simp_all
  have ih: "sound good 0 (fst (pto_loop ops now (Suc j) ps s))" if "sound good 0 s" for ps s
    using Suc(1) [OF j(2) that] .
  show ?case using Suc(3) j(1)
    by (subst pto_loop.simps) (auto simp: Let_def recovery_consts recovery_conn_dead_cb_def intro!: ih sound_close sound_probe)
qed

lemma sound_pto_timer:
  assumes "sound good 0 c" "sent_count c \<le> 4092"
  shows "sound good 0 (on_pto_timer ops now c)"
proof -
  have u: "sound good 0 (s\<lparr>last_keepalive_ms := x\<rparr>)" "sound good 0 (s\<lparr>pto_count := y\<rparr>)" "sound good 0 (s\<lparr>pto_timer := z\<rparr>)"
    if "sound good 0 s" for s x y z
    by (rule sound_fields [OF that]; simp)+
  define c1 where "c1 = compact_sent_packets (detect_losses ops now (c\<lparr>pto_timer := None\<rparr>))"
  have 1: "sound good 0 c1" unfolding c1_def using assms by (intro sound_compact sound_detect_losses u) simp_all
  have "pto_reset_stale ops now c1 = c1" by (rule pto_reset_stale_idle [OF sound_accounted [OF 1]])
  moreover have "sound good 0 (fst (pto_loop ops now 0 0 c1))" by (rule sound_pto_loop [OF 1])
  moreover have "sound good 0 (pto_keepalive ops now s)" if "sound good 0 s" for s
    using that by (auto simp: pto_keepalive_def intro!: u sound_flush sound_keepalive)
  ultimately show ?thesis
    by (auto simp: on_pto_timer_def Let_def simp flip: c1_def split: prod.splits bool.splits intro!: sound_arm u)
qed

end

section \<open>Runs of a connection\<close>

text \<open>
  What happens to a connection's recovery, in any order: packets are sent, frames queued and flushed, ACK frames arrive, losses are
  looked for, the probe timer fires, packet number spaces are cleared, the connection is closed; and the rest of the
  connection changes whatever it wants of its own fields (\<open>outside\<close>).
\<close>

definition outside :: "'cc conn \<Rightarrow> 'cc conn \<Rightarrow> bool" where
  "outside c c' \<longleftrightarrow> recovery.truncate c' = recovery.truncate c \<and> build_size c' = build_size c"

inductive recovery_step :: "'cc quic_cc_ops \<Rightarrow> 'cc conn \<Rightarrow> 'cc conn \<Rightarrow> bool" for ops where
  sends: "recovery_step ops c (fst (send_quic_packet ops now t frames c))"
| queues: "recovery_step ops c (quic_conn_queue_frames ops now frames c)"
| flushes: "recovery_step ops c (quic_conn_flush_packet ops now c)"
| acknowledged: "quic_recovery_on_ack_received ops ack now level c = Some c' \<Longrightarrow> recovery_step ops c c'"
| checks: "recovery_step ops c (quic_recovery_check_losses ops now c)"
| probes: "recovery_step ops c (on_pto_timer ops now c)"
| initial_done: "recovery_step ops c (quic_recovery_handshake_done now c)"
| handshake_cleared: "recovery_step ops c (quic_recovery_clear_handshake now c)"
| pto_reset: "recovery_step ops c (quic_recovery_reset_pto c)"
| closes: "recovery_step ops c (QuicConnectionClose ec reason c)"
| elsewhere: "outside c c' \<Longrightarrow> recovery_step ops c c'"

text \<open>A run lists the states the connection went through before the one it is in.\<close>

inductive conn_run :: "'cc quic_cc_ops \<Rightarrow> 'cc conn \<Rightarrow> 'cc conn list \<Rightarrow> 'cc conn \<Rightarrow> bool" for ops c0 where
  start: "conn_run ops c0 [] c0"
| onwards: "conn_run ops c0 cs c \<Longrightarrow> recovery_step ops c c' \<Longrightarrow> conn_run ops c0 (cs @ [c]) c'"

text \<open>
  The packets one pass of loss detection sends again still find a free entry in the ring: no more than 4092 of its 4096 are used.
  Beyond that the pass takes the octets of one packet for those of another, because the packet it holds a pointer to
  is moved or overwritten while it is sent again.
\<close>

definition ring_has_room :: "('cc, 'z) recovery_scheme \<Rightarrow> bool" where
  "ring_has_room r \<longleftrightarrow> sent_count r + QUIC_LOSS_RETRANSMIT_PER_PASS \<le> QUIC_RECOVERY_MAX_SENT_PACKETS"

lemma ring_has_room_count: "ring_has_room r \<longleftrightarrow> sent_count r \<le> 4092"
  by (simp add: ring_has_room_def recovery_consts QUIC_LOSS_RETRANSMIT_PER_PASS_def)

text \<open>A connection as it is made: recovery as \<open>quic_recovery_init\<close> leaves it, and a builder whose packets fit its buffer of 1500 octets.\<close>

definition opened :: "'cc \<Rightarrow> 'cc conn \<Rightarrow> bool" where
  "opened cc c \<longleftrightarrow> recovery.truncate c = quic_recovery_init cc \<and> (\<forall>t pn f. build_size c t pn f \<noteq> None \<longrightarrow> length f \<le> 1500)"

lemma truncate_fields:
  assumes "recovery.truncate c = r"
  shows "ring c = ring r" "sent_head c = sent_head r" "sent_count c = sent_count r" "bytes_in_flight c = bytes_in_flight r"
    "congestion c = congestion r" "packets_acked c = packets_acked r"
  using assms by (auto simp: recovery.truncate_def)

context controller_invariant
begin

lemma sound_step: "recovery_step ops c c' \<Longrightarrow> ring_has_room c \<Longrightarrow> sound good 0 c \<Longrightarrow> sound good 0 c'"
proof (induction rule: recovery_step.induct)
  case (elsewhere c c')
  then show ?case
    using truncate_fields [of c' "recovery.truncate c"] truncate_fields [of c "recovery.truncate c"]
    by (intro sound_fields [OF elsewhere(3), of c']) (simp_all add: outside_def)
next
  case (pto_reset c)
  then show ?case by (intro sound_fields [OF pto_reset(2)]) (simp_all add: quic_recovery_reset_pto_def)
qed (auto simp: ring_has_room_count quic_recovery_handshake_done_def quic_recovery_clear_handshake_def
  intro: sound_send sound_queue sound_flush sound_ack_received sound_check_losses sound_pto_timer sound_arm sound_clear_space sound_close)

lemma sound_opened: "opened cc c \<Longrightarrow> good 0 cc \<Longrightarrow> sound good 0 c"
  using truncate_fields [of c "quic_recovery_init cc"]
  by (simp add: opened_def sound_def accounted_def ring_ok_def in_flight_sum_def recovery_consts quic_recovery_init_def)

lemma sound_reached:
  "conn_run ops c0 cs c \<Longrightarrow> \<forall>s\<in>set cs. ring_has_room s \<Longrightarrow> opened cc c0 \<Longrightarrow> good 0 cc \<Longrightarrow> sound good 0 c"
  by (induction rule: conn_run.induct) (auto intro: sound_opened sound_step)

end

context congestion_controller
begin

text \<open>With nothing on its way the window lets a packet through.\<close>

lemma idle_may_send:
  assumes "conn_run ops c0 cs c" "\<forall>s\<in>set cs. ring_has_room s" "opened cc c0" "good 0 cc" "congestion c \<noteq> None" "packets_acked c < 2 ^ 50"
    and "\<forall>p\<in>set (ring_view c). sp_acknowledged p \<or> sp_lost p"
  shows "fst (quic_recovery_can_send ops now c)"
proof -
  have s: "sound good 0 c" by (rule sound_reached [OF assms(1-4)])
  then have "unat (bytes_in_flight c) = sum_list (map flight (ring_view c))" by (simp add: sound_def accounted_view)
  moreover have "sum_list (map flight (ring_view c)) = 0" using assms(7) by (auto simp: flight_def counted_def sum_list_eq_0_iff)
  ultimately have z: "bytes_in_flight c = 0" by (simp add: unat_eq_0)
  obtain cc1 where cc: "congestion c = Some cc1" using assms(5) by blast
  have "good (packets_acked c) cc1" using s cc assms(6) by (simp add: sound_def)
  then have "fst (quic_cc_can_send ops now 0 cc1)" by (rule can_send_idle) (simp add: QUIC_MIN_PKT_SIZE_def)
  then show ?thesis by (auto simp: quic_recovery_can_send_def cc z split: prod.split)
qed

end

end
