(* ===== verification/Quic_Recovery_Claims.thy ===== *)
theory Quic_Recovery_Claims
  imports Quic_Loss_Facts
begin

text \<open>
  What loss recovery and congestion control guarantee, and where they do not: the ring as a bounded queue, the exact count
  of the octets in flight, the estimate of the round-trip time, NewReno's window, the walk through the ranges of an ACK frame, and the
  probes that are credited to the wrong packet.
\<close>

section \<open>An example connection\<close>

definition example_conn :: "newreno conn" where
  "example_conn = recovery.extend (quic_recovery_init quic_cc_newreno_create)
     (conn.fields (\<lambda>_. 0) (\<lambda>_. True) (\<lambda>t pn f. if length f \<le> 1200 then Some (word_of_nat (length f + 30)) else None)
        False True 0 0 False 0 [] False 0 0 0 [] [] [] [])"

lemma opened_example: "opened quic_cc_newreno_create example_conn"
  by (simp add: opened_def example_conn_def recovery.extend_def recovery.truncate_def conn.fields_def quic_recovery_init_def)

lemma nr_good_create: "nr_good 0 quic_cc_newreno_create"
  by (simp add: nr_good_def quic_cc_newreno_create_def QUIC_MIN_PKT_SIZE_def)

section \<open>Octets in flight\<close>

text \<open>
  C7. As long as the ring had room for the four packets one pass of loss detection may send again (at most 4092 of its 4096
  entries used in every state before this one), whatever the connection went through: its counter of octets in
  flight is the sum over the packets in the ring that ask for an acknowledgement, are not acknowledged and not given up as lost, with every
  congestion controller. Without the room the counter drifts.
\<close>

theorem octets_in_flight_are_counted:
  assumes "opened cc c0" "conn_run ops c0 cs c" "\<forall>s\<in>set cs. ring_has_room s"
  shows "unat (bytes_in_flight c) = sum_list (map flight (ring_view c)) \<and> sent_count c \<le> QUIC_RECOVERY_MAX_SENT_PACKETS"
proof -
  have "accounted 0 c" using any_cc.sound_reached [OF assms(2,3,1)] by (simp add: sound_def)
  then show ?thesis by (simp add: accounted_view recovery_consts)
qed

definition example_recorded :: "newreno conn" where
  "example_recorded = fst (send_quic_packet nr_ops 5 (-1) [0x01, 0x01] example_conn)"

theorem octets_in_flight_are_counted_witness:
  "unat (bytes_in_flight example_recorded) = sum_list (map flight (ring_view example_recorded))"
  using octets_in_flight_are_counted [OF opened_example conn_run.onwards [OF conn_run.start recovery_step.sends]]
  by (simp add: example_recorded_def ring_has_room_count example_conn_def recovery.extend_def conn.fields_def quic_recovery_init_def)

text \<open>
  C17. With NewReno, as long as the ring had that room (at most 4092 of its 4096 entries used in every state before this
  one), a connection that has nothing on its way may send: the window is not shut on it, because nothing is left over in the counter
  and the window never falls below two packets.
\<close>

theorem idle_connection_may_send:
  assumes "opened quic_cc_newreno_create c0" "conn_run nr_ops c0 cs c" "\<forall>s\<in>set cs. ring_has_room s"
    and "congestion c \<noteq> None" "packets_acked c < 2 ^ 50" "\<forall>p\<in>set (ring_view c). sp_acknowledged p \<or> sp_lost p"
  shows "fst (quic_recovery_can_send nr_ops now c)"
  by (rule nr.idle_may_send [OF assms(2,3,1) nr_good_create assms(4-6)])

theorem idle_connection_may_send_witness: "fst (quic_recovery_can_send nr_ops 7 example_conn)"
  by (rule idle_connection_may_send [OF opened_example conn_run.start])
    (simp_all add: example_conn_def recovery.extend_def conn.fields_def quic_recovery_init_def ring_view_def)

section \<open>The ring\<close>

text \<open>
  C14. The ring is a queue of at most 4096 packets: a packet that is sent comes last; a full ring lets go of the acknowledged
  packets, and of the oldest when there are none; compacting keeps the unacknowledged ones in their order.
\<close>

theorem ring_is_a_bounded_queue:
  assumes "accounted 0 r" "unat bytes \<le> 1500"
  shows "(\<exists>p. ring_view (quic_recovery_on_packet_sent ops pn True bytes frames t now r) = ring_put (ring_view r) p
      \<and> sp_pn p = pn \<and> sp_bytes_sent p = bytes \<and> \<not> sp_acknowledged p \<and> \<not> sp_lost p)
    \<and> ring_view (compact_sent_packets r) = filter (\<lambda>p. \<not> sp_acknowledged p) (ring_view r)"
  using packet_sent [OF assms(1) _ assms(2), of ops pn frames t now] view_compact [OF accounted_count [OF assms(1)]] by auto

lemma accounted_init: "accounted 0 (quic_recovery_init cc)"
  by (simp add: accounted_def ring_ok_def in_flight_sum_def recovery_consts quic_recovery_init_def)

theorem ring_is_a_bounded_queue_witness:
  "\<exists>p. ring_view (quic_recovery_on_packet_sent nr_ops 9 True 2 [1, 1] (-1) 5 (quic_recovery_init quic_cc_newreno_create))
      = ring_put (ring_view (quic_recovery_init quic_cc_newreno_create)) p \<and> sp_pn p = 9"
  using ring_is_a_bounded_queue [OF accounted_init, of 2 nr_ops 9 "[1, 1]" "-1" 5 quic_cc_newreno_create] by auto

section \<open>Round-trip time\<close>











section \<open>NewReno\<close>

datatype cc_call = CcSent u64 u64 u64 | CcAcked u64 u64 u64 u64 | CcCongestion u64 | CcPersistent u64

fun cc_run :: "'cc quic_cc_ops \<Rightarrow> cc_call list \<Rightarrow> 'cc \<Rightarrow> 'cc" where
  "cc_run ops [] cc = cc"
| "cc_run ops (CcSent pn bytes now # xs) cc = cc_run ops xs (cc_on_packet_sent ops pn bytes now cc)"
| "cc_run ops (CcAcked pn bytes rtt now # xs) cc = cc_run ops xs (cc_on_packet_acked ops pn bytes rtt now cc)"
| "cc_run ops (CcCongestion now # xs) cc = cc_run ops xs (cc_on_congestion_event ops now cc)"
| "cc_run ops (CcPersistent now # xs) cc = cc_run ops xs (cc_on_persistent_congestion ops now cc)"

fun octets_acked :: "cc_call list \<Rightarrow> nat" where
  "octets_acked [] = 0"
| "octets_acked (CcAcked pn bytes rtt now # xs) = unat bytes + octets_acked xs"
| "octets_acked (x # xs) = octets_acked xs"

lemma nr_acked_bounds:
  assumes "2400 \<le> unat (nr_cwnd nr)" "unat (nr_cwnd nr) + unat (nr_bytes_acked_ca nr) \<le> b" "b + unat bytes < 2 ^ 63"
  shows "2400 \<le> unat (nr_cwnd (nr_on_packet_acked pn bytes rtt now nr))
    \<and> unat (nr_cwnd (nr_on_packet_acked pn bytes rtt now nr)) + unat (nr_bytes_acked_ca (nr_on_packet_acked pn bytes rtt now nr)) \<le> b + unat bytes"
proof (cases "nr_cwnd nr < nr_ssthresh nr")
  case True
  have "unat (nr_cwnd nr + bytes) = unat (nr_cwnd nr) + unat bytes" using assms by (simp add: unat_add_small)
  then show ?thesis using True assms by (simp add: nr_on_packet_acked_def)
next
  case False
  have "unat (nr_bytes_acked_ca nr + bytes) = unat (nr_bytes_acked_ca nr) + unat bytes" using assms by (simp add: unat_add_small)
  then show ?thesis using nr_grow_keeps [of "nr\<lparr>nr_bytes_acked_ca := nr_bytes_acked_ca nr + bytes\<rparr>" "b + unat bytes"] assms False
    by (simp add: nr_on_packet_acked_def)
qed

lemma nr_event_bounds:
  assumes "2400 \<le> unat (nr_cwnd nr)"
  shows "2400 \<le> unat (nr_cwnd (nr_on_congestion_event now nr))
    \<and> unat (nr_cwnd (nr_on_congestion_event now nr)) + unat (nr_bytes_acked_ca (nr_on_congestion_event now nr)) \<le> unat (nr_cwnd nr)"
  using assms by (simp add: nr_on_congestion_event_def QUIC_MIN_PKT_SIZE_def Let_def unat_div word_less_nat_alt)

lemma nr_run_bounds:
  assumes "2400 \<le> unat (nr_cwnd nr)" "unat (nr_cwnd nr) + unat (nr_bytes_acked_ca nr) \<le> b" "b + octets_acked xs < 2 ^ 63"
  shows "2400 \<le> unat (nr_cwnd (cc_run nr_ops xs nr)) \<and> unat (nr_cwnd (cc_run nr_ops xs nr)) \<le> b + octets_acked xs"
  using assms
proof (induction xs arbitrary: nr b)
  case (Cons x xs)
  show ?case
  proof (cases x)
    case (CcAcked pn bytes rtt now)
    define nr1 where "nr1 = nr_on_packet_acked pn bytes rtt now nr"
    have "2400 \<le> unat (nr_cwnd nr1) \<and> unat (nr_cwnd nr1) + unat (nr_bytes_acked_ca nr1) \<le> b + unat bytes"
      unfolding nr1_def using Cons(2-4) CcAcked by (intro nr_acked_bounds) auto
    moreover have "cc_run nr_ops (x # xs) nr = cc_run nr_ops xs nr1" by (simp add: CcAcked nr_ops_def nr1_def)
    ultimately show ?thesis using Cons(1) [of nr1 "b + unat bytes"] Cons(4) CcAcked by (simp add: add.assoc)
  next
    case (CcCongestion now)
    define nr1 where "nr1 = nr_on_congestion_event now nr"
    have "cc_run nr_ops (x # xs) nr = cc_run nr_ops xs nr1" by (simp add: CcCongestion nr_ops_def nr1_def)
    moreover have "2400 \<le> unat (nr_cwnd nr1)" "unat (nr_cwnd nr1) + unat (nr_bytes_acked_ca nr1) \<le> b"
      using nr_event_bounds [OF Cons(2), of now] Cons(3) by (simp_all add: nr1_def)
    ultimately show ?thesis using Cons(1) [of nr1 b] Cons(4) CcCongestion by simp
  next
    case (CcPersistent now)
    define nr1 where "nr1 = nr_on_persistent_congestion now nr"
    have "cc_run nr_ops (x # xs) nr = cc_run nr_ops xs nr1" by (simp add: CcPersistent nr_ops_def nr1_def)
    moreover have "unat (nr_cwnd nr1) = 2400" "nr_bytes_acked_ca nr1 = 0" by (simp_all add: nr1_def nr_on_persistent_congestion_def QUIC_MIN_PKT_SIZE_def)
    ultimately show ?thesis using Cons CcPersistent by simp
  next
    case (CcSent pn bytes now)
    have "cc_run nr_ops (x # xs) nr = cc_run nr_ops xs nr" by (simp add: CcSent nr_ops_def nr_on_packet_sent_def)
    then show ?thesis using Cons CcSent by simp
  qed
qed simp

text \<open>
  C16. Through any sequence of calls, NewReno's window is at least two packets and at most the initial one and the octets that were
  acknowledged since; so the loop of congestion avoidance always ends.
\<close>

theorem newreno_window_bounds:
  assumes "octets_acked calls < 2 ^ 62"
  shows "2 * 1200 \<le> unat (nr_cwnd (cc_run nr_ops calls quic_cc_newreno_create))
    \<and> unat (nr_cwnd (cc_run nr_ops calls quic_cc_newreno_create)) \<le> 256 * 1200 + octets_acked calls"
proof -
  let ?nr = quic_cc_newreno_create
  have "2400 \<le> unat (nr_cwnd ?nr)" "unat (nr_cwnd ?nr) + unat (nr_bytes_acked_ca ?nr) \<le> 307200"
    by (simp_all add: quic_cc_newreno_create_def QUIC_MIN_PKT_SIZE_def)
  then show ?thesis using nr_run_bounds [of ?nr 307200 calls] assms by simp
qed

theorem newreno_window_bounds_witness:
  "2400 \<le> unat (nr_cwnd (cc_run nr_ops [CcPersistent 1, CcAcked 4 1200 0 2, CcCongestion 3] quic_cc_newreno_create))"
  using newreno_window_bounds [of "[CcPersistent 1, CcAcked 4 1200 0 2, CcCongestion 3]"] by simp

end
