(* ===== verification/Quic_Ack_Claims.thy ===== *)
theory Quic_Ack_Claims
  imports Quic_Recovery_Claims
begin

text \<open>
  ACK frames and retransmissions: what an ACK frame in good order settles, the ACK frame whose handling never ends, a
  probe that cannot be sent, and a packet sent again out of a full ring.
\<close>

section \<open>ACK frames in good order\<close>

text \<open>No range reaches below packet number zero.\<close>

fun ranges_fit :: "u64 \<Rightarrow> (u64 \<times> u64) list \<Rightarrow> bool" where
  "ranges_fit prev [] \<longleftrightarrow> True"
| "ranges_fit prev ((gap, len) # rs) \<longleftrightarrow> unat gap + 2 + unat len \<le> unat prev \<and> ranges_fit (prev - gap - 2 - len) rs"

definition ack_fits :: "QuicAckFrame \<Rightarrow> bool" where
  "ack_fits ack \<longleftrightarrow> largest_acknowledged ack < -1 \<and> first_ack_range ack \<le> largest_acknowledged ack
     \<and> ranges_fit (largest_acknowledged ack - first_ack_range ack) (ack_ranges ack)"

fun covered_ranges :: "u64 \<Rightarrow> (u64 \<times> u64) list \<Rightarrow> u64 list" where
  "covered_ranges prev [] = []"
| "covered_ranges prev ((gap, len) # rs) =
     pns_between (prev - gap - 2 - len) (prev - gap - 2) @ covered_ranges (prev - gap - 2 - len) rs"

definition ack_covers :: "QuicAckFrame \<Rightarrow> u64 list" where
  "ack_covers ack =
     (let a = largest_acknowledged ack - first_ack_range ack in pns_between a (largest_acknowledged ack) @ covered_ranges a (ack_ranges ack))"

lemma range_end_ok: "unat gap + 2 \<le> unat prev \<Longrightarrow> prev - gap - 2 \<noteq> (-1 :: u64)"
proof
  assume a: "unat gap + 2 \<le> unat prev" "prev - gap - 2 = (-1 :: u64)"
  have g: "gap \<le> prev" using a(1) by (simp add: word_le_nat_alt)
  then have "unat (prev - gap) = unat prev - unat gap" by (rule unat_sub_le)
  moreover have "prev - gap = 1" using a(2) by (simp add: algebra_simps)
  ultimately show False using a(1) by simp
qed

lemma mark_ranges_fold:
  "ranges_fit prev rs \<Longrightarrow> mark_ranges ops now level prev rs st = Some (fold (mark_pn_acked ops now level) (covered_ranges prev rs) st)"
proof (induction prev rs arbitrary: st rule: ranges_fit.induct)
  case (2 prev gap len rs)
  then have "prev - gap - 2 \<noteq> -1" by (intro range_end_ok) simp
  then show ?case using 2 by (simp add: Let_def mark_range_fold)
qed simp

lemma process_ack_fold:
  assumes "ack_fits ack"
  shows "\<exists>r0 progress. process_ack_ranges ops now level ack r
      = Some (fst (fold (mark_pn_acked ops now level) (ack_covers ack) (r0, 0, 0)), progress) \<and> same_flight r r0"
proof -
  define r0 where "r0 = (if largest_acknowledged ack > largest_acked_pn r level
    then r\<lparr>largest_acked_pn := (largest_acked_pn r)(level := largest_acknowledged ack)\<rparr> else r)"
  define a where "a = largest_acknowledged ack - first_ack_range ack"
  have l: "largest_acknowledged ack \<noteq> -1" and fit: "ranges_fit a (ack_ranges ack)" using assms by (auto simp: ack_fits_def a_def)
  obtain r1 n m where st: "fold (mark_pn_acked ops now level) (ack_covers ack) (r0, 0, 0) = (r1, n, m)" using prod_cases3 by blast
  have "process_ack_ranges ops now level ack r = Some (r1, n > 0)"
    using st by (simp add: process_ack_ranges_def Let_def mark_range_fold [OF l] mark_ranges_fold [OF fit]
      ack_covers_def flip: a_def r0_def)
  then have par: "process_ack_ranges ops now level ack r
      = Some (fst (fold (mark_pn_acked ops now level) (ack_covers ack) (r0, 0, 0)), n > 0)" unfolding st by simp
  have "same_flight r r0" by (simp add: r0_def same_flight_def)
  with par show ?thesis by (intro exI conjI)
qed

text \<open>
  C26. An ACK frame none of whose ranges reaches below zero is handled to its end: every loop over its packet numbers ends,
  and the handler returns.
\<close>

theorem acks_in_order_return:
  assumes "ack_fits ack"
  shows "\<exists>c'. quic_recovery_on_ack_received ops ack now level c = Some c'"
  using process_ack_fold [OF assms, of ops now level c] by (auto simp: quic_recovery_on_ack_received_def Let_def)

theorem acks_in_order_return_witness:
  "\<exists>c'. quic_recovery_on_ack_received nr_ops
     \<lparr>largest_acknowledged = 9, ack_delay = 0, first_ack_range = 2, ack_ranges = [(1, 3)]\<rparr> 5 3 example_conn = Some c'"
  by (rule acks_in_order_return) (simp add: ack_fits_def)

text \<open>
  C33. An ACK frame with a range that ends just below packet number zero, which the parser lets pass: the handler
  counts to the largest 64-bit number, never gets past it, and does not return.
\<close>

theorem ack_below_zero_never_returns:
  assumes "ack_ranges ack = (gap, len) # rs" "largest_acknowledged ack - first_ack_range ack = gap + 1"
  shows "quic_recovery_on_ack_received ops ack now level c = None"
proof -
  have "gap + 1 - gap - 2 = (-1 :: u64)" by simp
  then have none: "mark_ranges ops now level (gap + 1) ((gap, len) # rs) st = None" for st :: "('a, 'b) recovery_scheme \<times> nat \<times> u64"
    by (simp add: Let_def mark_range_endless)
  have cases: "(case m of None \<Rightarrow> None | Some st \<Rightarrow> (case mark_ranges ops now level (gap + 1) ((gap, len) # rs) st of
      None \<Rightarrow> None | Some (r2, count, x) \<Rightarrow> Some (r2, count > 0))) = None"
    for m :: "(('a, 'b) recovery_scheme \<times> nat \<times> u64) option"
    by (cases m) (simp_all add: none del: mark_ranges.simps)
  have "process_ack_ranges ops now level ack c = None"
    unfolding process_ack_ranges_def Let_def assms by (rule cases)
  then show ?thesis by (simp add: quic_recovery_on_ack_received_def)
qed

theorem ack_below_zero_never_returns_witness:
  "\<exists>ack. quic_frame_parse_ack [0x02, 0x01, 0x00, 0x01, 0x00, 0x00, 0x00] = Some (ack, [])
     \<and> quic_recovery_on_ack_received nr_ops ack 5 3 example_conn = None"
proof -
  have "quic_frame_parse_ack [0x02, 0x01, 0x00, 0x01, 0x00, 0x00, 0x00]
      = Some (\<lparr>largest_acknowledged = 1, ack_delay = 0, first_ack_range = 0, ack_ranges = [(0, 0)]\<rparr>, [])"
    by code_simp
  moreover have "quic_recovery_on_ack_received nr_ops
      \<lparr>largest_acknowledged = 1, ack_delay = 0, first_ack_range = 0, ack_ranges = [(0, 0)]\<rparr> 5 3 example_conn = None"
    by (rule ack_below_zero_never_returns) simp_all
  ultimately show ?thesis by blast
qed

section \<open>What an ACK frame settles\<close>

definition more_acked :: "('cc, 'z) recovery_scheme \<Rightarrow> ('cc, 'z) recovery_scheme \<Rightarrow> bool" where
  "more_acked r r' \<longleftrightarrow> sent_head r' = sent_head r \<and> sent_count r' = sent_count r
     \<and> (\<forall>x. sp_pn (ring r' x) = sp_pn (ring r x) \<and> sp_pkt_type (ring r' x) = sp_pkt_type (ring r x)
          \<and> (sp_acknowledged (ring r x) \<longrightarrow> sp_acknowledged (ring r' x)))"

lemma more_acked_trans: "more_acked a b \<Longrightarrow> more_acked b c \<Longrightarrow> more_acked a c"
  by (simp add: more_acked_def)

lemma more_acked_refl [simp]: "more_acked r r"
  by (simp add: more_acked_def)

lemma more_acked_flight: "same_flight r r' \<Longrightarrow> more_acked r r'"
  by (simp add: more_acked_def same_flight_def)

lemma more_acked_inflight_sub [simp]: "more_acked r (inflight_sub n r)"
  by (simp add: more_acked_def)

lemma more_acked_ack_slot: "more_acked r (on_packet x ack_slot r)"
  by (simp add: more_acked_def on_packet_def ack_slot_def)

lemma more_acked_release: "more_acked r (on_packet x ack_slot (inflight_sub n r))"
  by (rule more_acked_trans [OF more_acked_inflight_sub more_acked_ack_slot])

lemma more_acked_by_chunk: "more_acked r (ack_by_chunk cid i r)"
  by (simp add: ack_by_chunk_def Let_def more_acked_ack_slot more_acked_release)

lemma more_acked_chunk: "more_acked r (chunk_mark_acked cid r)"
proof -
  have f: "more_acked s (fold (ack_by_chunk cid) xs s)" for xs and s :: "('a, 'b) recovery_scheme"
    by (induction xs arbitrary: s) (auto intro: more_acked_trans more_acked_by_chunk)
  have "more_acked r (fold (ack_by_chunk cid) xs (on_chunk ci g r))" for xs ci g
    by (rule more_acked_trans [OF more_acked_flight f]) simp
  then show ?thesis by (simp add: chunk_mark_acked_def Let_def)
qed

lemma more_acked_slot: "more_acked r r' \<Longrightarrow> slot_oldest_to_newest r' = slot_oldest_to_newest r"
  by (rule slot_cong) (simp_all add: more_acked_def)

text \<open>Packets on their way in one number space have numbers of their own.\<close>

definition numbers_differ :: "nat \<Rightarrow> ('cc, 'z) recovery_scheme \<Rightarrow> bool" where
  "numbers_differ level r \<longleftrightarrow> (\<forall>i < sent_count r. \<forall>j < sent_count r. \<forall>pn.
     ack_match pn level (packet_at r i) \<longrightarrow> ack_match pn level (packet_at r j) \<longrightarrow> i = j)"

lemma match_before: "more_acked r r' \<Longrightarrow> ack_match pn level (packet_at r' i) \<Longrightarrow> ack_match pn level (packet_at r i)"
  using more_acked_slot [of r r'] by (auto simp: ack_match_def packet_at_def more_acked_def)

lemma numbers_differ_later:
  assumes "more_acked r r'" "numbers_differ level r"
  shows "numbers_differ level r'"
  unfolding numbers_differ_def
proof (intro allI impI)
  fix i j pn
  assume "i < sent_count r'" "j < sent_count r'" "ack_match pn level (packet_at r' i)" "ack_match pn level (packet_at r' j)"
  then show "i = j" using assms(2) match_before [OF assms(1)] assms(1) unfolding numbers_differ_def more_acked_def by metis
qed

lemma mark_settles:
  assumes "numbers_differ level r"
  shows "more_acked r (fst (mark_pn_acked ops now level pn (r, n, largest)))
    \<and> (\<forall>i < sent_count r. \<not> ack_match pn level (packet_at (fst (mark_pn_acked ops now level pn (r, n, largest))) i))"
proof (cases "find (\<lambda>i. ack_match pn level (packet_at r i)) [0..<sent_count r]")
  case None
  then have "mark_pn_acked ops now level pn (r, n, largest) = (r, n, largest)" by (simp add: mark_pn_acked_def)
  moreover have "\<not> ack_match pn level (packet_at r i)" if "i < sent_count r" for i
    using None that by (auto simp: find_None_iff)
  ultimately show ?thesis by simp
next
  case (Some k)
  define idx where "idx = slot_oldest_to_newest r k"
  define p where "p = ring r idx"
  define rtt where "rtt = now - sp_time_sent_ms p"
  define r1 where "r1 = on_packet idx (\<lambda>p. p\<lparr>sp_acknowledged := True\<rparr>) (r\<lparr>packets_acked := Suc (packets_acked r)\<rparr>)"
  define r2 where "r2 = (if counted p \<and> pn > largest then update_rtt rtt r1 else r1)"
  define r3 where "r3 = (if counted p then let r3 = inflight_sub (sp_bytes_sent p) r2 in
      if sp_pkt_type p = -1 then with_cc (cc_on_packet_acked ops pn (sp_bytes_sent p) (rtt * 1000) now) r3 else r3 else r2)"
  have m: "fst (mark_pn_acked ops now level pn (r, n, largest)) = chunk_mark_acked (sp_chunk_id p) r3"
    by (simp add: mark_pn_acked_def Some Let_def r1_def r2_def r3_def idx_def p_def rtt_def)
  have k: "k < sent_count r" "ack_match pn level (packet_at r k)" using Some by (auto simp: find_Some_iff)
  have 1: "more_acked r r1" by (simp add: more_acked_def r1_def on_packet_def)
  have 2: "more_acked r1 r2" by (simp add: r2_def more_acked_flight)
  have "more_acked r2 r3"
    by (simp add: r3_def Let_def more_acked_trans [OF more_acked_inflight_sub more_acked_flight [OF same_flight_with_cc]])
  then have all: "more_acked r1 (chunk_mark_acked (sp_chunk_id p) r3)"
    using 2 more_acked_chunk more_acked_trans by blast
  have "sp_acknowledged (ring r1 idx)" by (simp add: r1_def on_packet_def)
  then have a: "sp_acknowledged (ring (chunk_mark_acked (sp_chunk_id p) r3) idx)" using all by (simp add: more_acked_def)
  note both = more_acked_trans [OF 1 all]
  have "\<not> ack_match pn level (packet_at (chunk_mark_acked (sp_chunk_id p) r3) i)" if "i < sent_count r" for i
  proof
    assume x: "ack_match pn level (packet_at (chunk_mark_acked (sp_chunk_id p) r3) i)"
    have "i = k" using assms that k match_before [OF both x] unfolding numbers_differ_def by blast
    then show False using x a unfolding ack_match_def packet_at_def more_acked_slot [OF both] idx_def by blast
  qed
  then show ?thesis using both by (simp add: m)
qed

lemma marks_settle:
  fixes st :: "('cc, 'z) recovery_scheme \<times> nat \<times> u64"
  assumes "numbers_differ level (fst st)"
  shows "more_acked (fst st) (fst (fold (mark_pn_acked ops now level) pns st))
    \<and> (\<forall>pn\<in>set pns. \<forall>i < sent_count (fst st). \<not> ack_match pn level (packet_at (fst (fold (mark_pn_acked ops now level) pns st)) i))"
  using assms
proof (induction pns arbitrary: st)
  case (Cons pn pns)
  define st1 where "st1 = mark_pn_acked ops now level pn st"
  have s: "more_acked (fst st) (fst st1)" "\<forall>i < sent_count (fst st). \<not> ack_match pn level (packet_at (fst st1) i)"
    using mark_settles [OF Cons(2), of ops now pn "fst (snd st)" "snd (snd st)"] by (simp_all add: st1_def)
  have ih: "more_acked (fst st1) (fst (fold (mark_pn_acked ops now level) pns st1))"
    "\<forall>pn\<in>set pns. \<forall>i < sent_count (fst st1). \<not> ack_match pn level (packet_at (fst (fold (mark_pn_acked ops now level) pns st1)) i)"
    using Cons(1) [OF numbers_differ_later [OF s(1) Cons(2)]] by blast+
  have c: "sent_count (fst st1) = sent_count (fst st)" using s(1) by (simp add: more_acked_def)
  have "more_acked (fst st) (fst (fold (mark_pn_acked ops now level) pns st1))" by (rule more_acked_trans [OF s(1) ih(1)])
  moreover have "\<not> ack_match x level (packet_at (fst (fold (mark_pn_acked ops now level) pns st1)) i)"
    if "x \<in> set (pn # pns)" "i < sent_count (fst st)" for x i
  proof (cases "x = pn")
    case True
    then have "\<not> ack_match x level (packet_at (fst st1) i)" using s(2) that(2) by blast
    then show ?thesis using match_before [OF ih(1)] by blast
  next
    case False
    then show ?thesis using ih(2) that c by simp
  qed
  moreover have "fold (mark_pn_acked ops now level) (pn # pns) st = fold (mark_pn_acked ops now level) pns st1" by (simp add: st1_def)
  ultimately show ?case by (simp only:) blast
qed simp

text \<open>
  C8. After an ACK frame in good order every packet of its number space that the frame covers is acknowledged, none is
  un-acknowledged, and the packets keep their numbers and their places.
\<close>

theorem ack_settles_what_it_covers:
  assumes "ack_fits ack" "numbers_differ level r"
  shows "\<exists>r' progress. process_ack_ranges ops now level ack r = Some (r', progress) \<and> sent_count r' = sent_count r
    \<and> (\<forall>i < sent_count r. sp_pn (packet_at r' i) = sp_pn (packet_at r i)
        \<and> (sp_acknowledged (packet_at r i)
            \<or> sp_pn (packet_at r i) \<in> set (ack_covers ack) \<and> pkt_type_to_level (sp_pkt_type (packet_at r i)) = level
           \<longrightarrow> sp_acknowledged (packet_at r' i)))"
proof -
  obtain r0 progress where p: "process_ack_ranges ops now level ack r
      = Some (fst (fold (mark_pn_acked ops now level) (ack_covers ack) (r0, 0, 0)), progress)" and sf: "same_flight r r0"
    using process_ack_fold [OF assms(1)] by blast
  define r' where "r' = fst (fold (mark_pn_acked ops now level) (ack_covers ack) (r0, 0 :: nat, 0))"
  have at0: "packet_at r0 = packet_at r" "sent_count r0 = sent_count r"
    using sf same_ring(1) [of r0 r] by (simp_all add: same_flight_def)
  have d: "numbers_differ level r0" using assms(2) at0 by (simp add: numbers_differ_def)
  have m: "more_acked r r'" and n: "\<forall>pn\<in>set (ack_covers ack). \<forall>i < sent_count r. \<not> ack_match pn level (packet_at r' i)"
  proof -
    have ms: "more_acked r0 r'" "\<forall>pn\<in>set (ack_covers ack). \<forall>i < sent_count r0. \<not> ack_match pn level (packet_at r' i)"
      using marks_settle [of level "(r0, 0, 0)" ops now "ack_covers ack"] d by (simp_all add: r'_def)
    show "more_acked r r'" by (rule more_acked_trans [OF more_acked_flight [OF sf] ms(1)])
    show "\<forall>pn\<in>set (ack_covers ack). \<forall>i < sent_count r. \<not> ack_match pn level (packet_at r' i)" using ms(2) at0(2) by simp
  qed
  have at: "sp_pn (packet_at r' i) = sp_pn (packet_at r i)" "sp_pkt_type (packet_at r' i) = sp_pkt_type (packet_at r i)"
    "sp_acknowledged (packet_at r i) \<Longrightarrow> sp_acknowledged (packet_at r' i)" for i
    using m more_acked_slot [OF m] by (simp_all add: packet_at_def more_acked_def)
  show ?thesis
  proof (intro exI conjI allI impI)
    show "process_ack_ranges ops now level ack r = Some (r', progress)" unfolding r'_def by (rule p)
    show "sent_count r' = sent_count r" using m by (simp add: more_acked_def)
    fix i assume i: "i < sent_count r"
    show "sp_pn (packet_at r' i) = sp_pn (packet_at r i)" by (rule at(1))
    assume "sp_acknowledged (packet_at r i)
      \<or> sp_pn (packet_at r i) \<in> set (ack_covers ack) \<and> pkt_type_to_level (sp_pkt_type (packet_at r i)) = level"
    then show "sp_acknowledged (packet_at r' i)" using at [of i] n i unfolding ack_match_def by metis
  qed
qed

definition one_packet :: "newreno recovery" where
  "one_packet = (quic_recovery_init quic_cc_newreno_create)
     \<lparr>ring := (\<lambda>_. empty_packet\<lparr>sp_pn := 6, sp_pkt_type := -1\<rparr>), sent_head := 1, sent_count := 1\<rparr>"

theorem ack_settles_what_it_covers_witness:
  "\<exists>r' progress. process_ack_ranges nr_ops 5 3
       \<lparr>largest_acknowledged = 7, ack_delay = 0, first_ack_range = 2, ack_ranges = []\<rparr> one_packet = Some (r', progress)
     \<and> sp_acknowledged (packet_at r' 0)"
proof -
  let ?ack = "\<lparr>largest_acknowledged = 7, ack_delay = 0, first_ack_range = 2, ack_ranges = []\<rparr>"
  have f: "ack_fits ?ack" by (simp add: ack_fits_def)
  have d: "numbers_differ 3 one_packet" by (simp add: numbers_differ_def one_packet_def)
  have c: "(6 :: u64) \<in> set (ack_covers ?ack)" by (simp add: ack_covers_def pns_between_def upt_rec)
  have p: "sent_count one_packet = 1" "sp_pn (packet_at one_packet 0) = 6" "pkt_type_to_level (sp_pkt_type (packet_at one_packet 0)) = 3"
    by (simp_all add: one_packet_def packet_at_def pkt_type_to_level_def QUIC_PKT_INITIAL_def QUIC_PKT_HANDSHAKE_def QUIC_TLS_LEVEL_APPLICATION_def)
  show ?thesis using ack_settles_what_it_covers [OF f d, of nr_ops 5] c p by auto
qed

section \<open>A probe that cannot be sent\<close>

text \<open>A failed send leaves everything but the next packet number as it was.\<close>

lemma send_fails:
  "snd (send_quic_packet ops now t f c) = -1 \<Longrightarrow>
     fst (send_quic_packet ops now t f c) = c\<lparr>next_pn := (next_pn c)(pkt_type_to_level t := next_pn c (pkt_type_to_level t) + 1)\<rparr>"
  by (auto simp: send_quic_packet_def Let_def split: if_splits option.splits)

lemma chunk_find_at: "chunk_find cs cid = Some j \<Longrightarrow> j < length cs \<and> ck_id (cs ! j) = cid"
  by (induction cs cid arbitrary: j rule: chunk_find.induct) (auto split: if_splits)

lemma chunk_find_update:
  "j < length cs \<Longrightarrow> ck_id k = ck_id (cs ! j) \<Longrightarrow> chunk_find (cs[j := k]) cid = chunk_find cs cid"
  by (induction cs cid arbitrary: j rule: chunk_find.induct) (auto simp: nth_Cons split: nat.splits)

text \<open>The packet recorded after a probe that failed: it takes the probed chunk's id, and no chunk holds its own payload.\<close>

lemma recorded_as_probe:
  fixes r :: "('cc, 'z) recovery_scheme"
  assumes "accounted 0 r" "unat bytes \<le> 1500" "sent_count r < 4096"
    and "current_retrans_chunk_id r = cid" "cid \<noteq> no_chunk" "chunk_find (chunks r) cid = Some j"
  shows "\<exists>p. ring_view (quic_recovery_on_packet_sent ops pn True bytes f t now r) = ring_view r @ [p] \<and> sp_chunk_id p = cid \<and> sp_pn p = pn
      \<and> sp_pkt_type p = t \<and> \<not> sp_acknowledged p"
    and "chunks (quic_recovery_on_packet_sent ops pn True bytes f t now r)
      = (chunks r)[j := (if ck_state (chunks r ! j) = ChunkSending then (chunks r ! j)\<lparr>ck_state := ChunkLost\<rparr> else chunks r ! j)]"
proof -
  let ?r' = "quic_recovery_on_packet_sent ops pn True bytes f t now r"
  define r1 where "r1 = r\<lparr>sent_count := Suc (sent_count r)\<rparr>"
  have ts: "take_slot r = (r1, sent_head r)" using assms(3) by (simp add: take_slot_def Let_def recovery_consts r1_def)
  define r2 where "r2 = on_chunk (Some j) (\<lambda>c. if ck_state c = ChunkSending then c\<lparr>ck_state := ChunkLost\<rparr> else c) (r1\<lparr>current_retrans_chunk_id := no_chunk\<rparr>)"
  have cf: "chunk_for now bytes f t r1 = (r2, Some j, if f = [] then None else Some f)"
    using assms(4-6) by (simp add: chunk_for_def Let_def r1_def r2_def)
  note at = chunk_find_at [OF assms(6)]
  have id: "ck_id (chunks r2 ! j) = cid" using at by (simp add: r2_def on_chunk_def r1_def)
  obtain p where p: "ring_view ?r' = ring_put (ring_view r) p" "sp_pn p = pn" "sp_pkt_type p = t" "\<not> sp_acknowledged p"
    using packet_sent [OF assms(1) _ assms(2)] by blast
  have v: "ring_view ?r' = ring_view r @ [p]" using p(1) assms(3) by (simp add: ring_put_def recovery_consts)
  have h: "sent_head r < 4096" using assms(1) by (simp add: accounted_view)
  have hc: "sent_head ?r' = (sent_head r + 1) mod 4096" "sent_count ?r' = sent_count r + 1" "sp_chunk_id (ring ?r' (sent_head r)) = cid"
    by (simp_all add: quic_recovery_on_packet_sent_def ts cf Let_def on_packet_def with_cc_def arm_pto_timer_def recovery_consts id)
       (simp_all add: r2_def on_chunk_def r1_def)
  have "p = packet_at ?r' (sent_count r)" using v hc(2) by (metis length_view nth_append_length ring_view_def nth_map_upt diff_zero add_0 less_add_one)
  then have "sp_chunk_id p = cid" using hc(3) slot_next [OF hc(1,2)] slot_end [OF h] by (simp add: packet_at_def)
  then show "\<exists>p. ring_view ?r' = ring_view r @ [p] \<and> sp_chunk_id p = cid \<and> sp_pn p = pn \<and> sp_pkt_type p = t \<and> \<not> sp_acknowledged p" using v p by blast
  show "chunks ?r' = (chunks r)[j := (if ck_state (chunks r ! j) = ChunkSending then (chunks r ! j)\<lparr>ck_state := ChunkLost\<rparr> else chunks r ! j)]"
    by (simp add: quic_recovery_on_packet_sent_def ts cf Let_def with_cc_def arm_pto_timer_def)
       (simp add: r2_def on_chunk_def r1_def)
qed

lemma chunks_kept [simp]: "chunks (update_rtt s r) = chunks r" "chunks (with_cc f r) = chunks r"
  by (simp_all add: update_rtt_def Let_def with_cc_def)

lemma chunks_ack_fold: "chunks (fold (ack_by_chunk cid) xs r) = chunks r"
  by (induction xs arbitrary: r) (simp_all add: ack_by_chunk_def Let_def)

lemma view_nth: "i < sent_count r \<Longrightarrow> packet_at r i = ring_view r ! i"
  by (simp add: ring_view_def)

lemma newest_acked_frees_chunk:
  assumes "ring_view r = vs @ [p]" "\<forall>q\<in>set vs. sp_pn q \<noteq> pn" "sp_pn p = pn" "\<not> sp_acknowledged p"
    and "chunk_find (chunks r) (sp_chunk_id p) = Some j" "ck_state (chunks r ! j) \<noteq> ChunkAcked"
  shows "chunks (fst (mark_pn_acked ops now (pkt_type_to_level (sp_pkt_type p)) pn (r, n, m)))
    = (chunks r)[j := (chunks r ! j)\<lparr>ck_state := ChunkAcked, ck_frames := None\<rparr>]"
proof -
  have n: "sent_count r = Suc (length vs)" using arg_cong [OF assms(1), of length] by simp
  have last: "packet_at r (length vs) = p" using view_nth [of "length vs" r] n assms(1) by simp
  have other: "sp_pn (packet_at r i) \<noteq> pn" if "i < length vs" for i
    using view_nth [of i r] that n assms(1,2) by (simp add: nth_append)
  have "find (\<lambda>i. ack_match pn (pkt_type_to_level (sp_pkt_type p)) (packet_at r i)) [0..<sent_count r] = Some (length vs)"
    unfolding find_Some_iff using n last other assms(3,4)
    by (intro exI [of _ "length vs"]) (auto simp: ack_match_def simp del: upt_Suc)
  moreover have at: "ring r (slot_oldest_to_newest r (length vs)) = p" using last by (simp add: packet_at_def)
  ultimately show ?thesis using assms(5,6)
    by (simp add: mark_pn_acked_def Let_def at chunk_mark_acked_def chunks_ack_fold chunk_is_def)
       (auto simp: on_chunk_def chunks_ack_fold)
qed

text \<open>
  C34. A probe that cannot be sent (its keys are gone, or an unvalidated address allows no more octets) still leaves
  its mark: the next packet, whatever it carries, is recorded under the probed chunk. Its own payload is kept by no chunk, so no
  probe will repeat it; and when it is acknowledged, the probed chunk is dropped as delivered though it never was.
\<close>

theorem failed_probe_takes_the_next_packet:
  fixes c :: "'cc conn"
  assumes "chunks c ! j = k" "accounted 0 c" "sent_count c < 4096" "unat bytes \<le> 1500" "\<forall>q\<in>set (ring_view c). sp_pn q \<noteq> pn"
    and "chunk_find (chunks c) (ck_id k) = Some j" "ck_id k \<noteq> no_chunk" "ck_state k \<noteq> ChunkAcked" "ck_frames k = Some g"
    and "snd (send_quic_packet ops now (ck_pkt_type k) g (c\<lparr>current_retrans_chunk_id := ck_id k\<rparr>)) = -1"
  shows "map ck_frames (chunks (quic_recovery_on_packet_sent ops pn True bytes f t now1 (probe ops now j c))) = map ck_frames (chunks c)
    \<and> (\<exists>p. ring_view (quic_recovery_on_packet_sent ops pn True bytes f t now1 (probe ops now j c)) = ring_view c @ [p]
          \<and> sp_pn p = pn \<and> sp_chunk_id p = ck_id k)
    \<and> chunks (fst (mark_pn_acked ops now2 (pkt_type_to_level t) pn
        (quic_recovery_on_packet_sent ops pn True bytes f t now1 (probe ops now j c), 0, 0))) ! j
      = k\<lparr>ck_state := ChunkAcked, ck_frames := None, ck_retrans_count := Suc (ck_retrans_count k), ck_last_retrans_ms := now\<rparr>"
proof -
  let ?c = "c\<lparr>current_retrans_chunk_id := ck_id k\<rparr>"
  define c1 where "c1 = probe ops now j c"
  define bump where "bump = (\<lambda>k :: chunk. k\<lparr>ck_retrans_count := Suc (ck_retrans_count k), ck_last_retrans_ms := now\<rparr>)"
  have c1: "c1 = on_chunk (Some j) bump (?c\<lparr>next_pn := (next_pn ?c)(pkt_type_to_level (ck_pkt_type k) := next_pn ?c (pkt_type_to_level (ck_pkt_type k)) + 1)\<rparr>)"
    using send_fails [OF assms(10)] assms(9) by (simp add: c1_def probe_def Let_def QuicConnectionSendImmediate_def bump_def assms(1))
  have j: "j < length (chunks c)" using chunk_find_at [OF assms(6)] by simp
  have ch1: "chunks c1 = (chunks c)[j := bump k]" by (simp add: c1 on_chunk_def assms(1))
  have sf: "same_flight c c1" by (simp add: c1 same_flight_def on_chunk_def)
  have cur: "current_retrans_chunk_id c1 = ck_id k" by (simp add: c1 on_chunk_def)
  have f1: "chunk_find (chunks c1) (ck_id k) = Some j"
    using chunk_find_update [OF j, of "bump k"] assms(6) by (simp add: ch1 bump_def assms(1))
  define c2 where "c2 = quic_recovery_on_packet_sent ops pn True bytes f t now1 c1"
  have cnt: "sent_count c1 < 4096" using assms(3) sf by (simp add: same_flight_def)
  note rec = recorded_as_probe [OF same_flight_accounted [OF sf assms(2)] assms(4) cnt cur assms(7) f1, of ops pn f t now1]
  obtain p where p: "ring_view c2 = ring_view c @ [p]" "sp_chunk_id p = ck_id k" "sp_pn p = pn" "sp_pkt_type p = t" "\<not> sp_acknowledged p"
    using rec(1) same_flight_view [OF sf] by (auto simp: c2_def)
  define k2 where "k2 = (if ck_state k = ChunkSending then (bump k)\<lparr>ck_state := ChunkLost\<rparr> else bump k)"
  have ch2: "chunks c2 = (chunks c)[j := k2]" using rec(2) j by (simp add: c2_def ch1 k2_def bump_def)
  have k2: "ck_id k2 = ck_id k" "ck_frames k2 = ck_frames k" "ck_state k2 \<noteq> ChunkAcked"
    using assms(8) by (auto simp: k2_def bump_def)
  have f2: "chunk_find (chunks c2) (sp_chunk_id p) = Some j"
    using chunk_find_update [OF j, of k2] assms(6) k2(1) by (simp add: ch2 p(2) assms(1))
  have "ck_state (chunks c2 ! j) \<noteq> ChunkAcked" using k2(3) j by (simp add: ch2)
  then have "chunks (fst (mark_pn_acked ops now2 (pkt_type_to_level t) pn (c2, 0, 0)))
      = (chunks c2)[j := (chunks c2 ! j)\<lparr>ck_state := ChunkAcked, ck_frames := None\<rparr>]"
    using newest_acked_frees_chunk [OF p(1) assms(5) p(3,5) f2] p(4) by simp
  then have "chunks (fst (mark_pn_acked ops now2 (pkt_type_to_level t) pn (c2, 0, 0))) ! j
      = k\<lparr>ck_state := ChunkAcked, ck_frames := None, ck_retrans_count := Suc (ck_retrans_count k), ck_last_retrans_ms := now\<rparr>"
    using j by (simp add: ch2 k2_def bump_def)
  moreover have "map ck_frames (chunks c2) = map ck_frames (chunks c)"
    using j k2(2) by (simp add: ch2 map_update assms(1) list_update_same_conv)
  ultimately show ?thesis using p(1-3) by (auto simp: c2_def c1_def)
qed

text \<open>A server whose client's address is not validated and that has used up what it may send: its CRYPTO data in an Initial chunk.\<close>

definition limited_conn :: "newreno conn" where
  "limited_conn = example_conn\<lparr>udp_shared := True, peer_address_validated := False, bytes_recv_addr_val := 10,
     chunks := [fill_chunk 0 4 [6, 0, 1, 7] 0 (fresh_chunk 0 0)], next_chunk_id := 1\<rparr>"

lemma limited_fields:
  "chunks limited_conn = [fill_chunk 0 4 [6, 0, 1, 7] 0 (fresh_chunk 0 0)]" "sent_count limited_conn = 0" "sent_head limited_conn = 0"
  "bytes_in_flight limited_conn = 0" "ring_view limited_conn = []"
  by (simp_all add: limited_conn_def example_conn_def recovery.extend_def conn.fields_def quic_recovery_init_def ring_view_def)

lemma limited_fails:
  "snd (send_quic_packet nr_ops 5 0 [6, 0, 1, 7] (limited_conn\<lparr>current_retrans_chunk_id := 0\<rparr>)) = -1"
  by (simp add: limited_conn_def example_conn_def recovery.extend_def conn.fields_def quic_recovery_init_def send_quic_packet_def
      pkt_type_to_level_def amplification_allows_def QUIC_PKT_INITIAL_def QUIC_PKT_HANDSHAKE_def QUIC_TLS_LEVEL_NONE_def)

theorem failed_probe_takes_the_next_packet_witness:
  "map ck_frames (chunks (quic_recovery_on_packet_sent nr_ops 3 True 2 [1, 1] 2 6 (probe nr_ops 5 0 limited_conn))) = [Some [6, 0, 1, 7]]
   \<and> ck_state (chunks (fst (mark_pn_acked nr_ops 9 2 3
       (quic_recovery_on_packet_sent nr_ops 3 True 2 [1, 1] 2 6 (probe nr_ops 5 0 limited_conn), 0, 0))) ! 0) = ChunkAcked"
proof -
  have a: "accounted 0 limited_conn" by (simp add: accounted_view limited_fields)
  have l: "pkt_type_to_level 2 = 2" by (simp add: pkt_type_to_level_def QUIC_PKT_INITIAL_def QUIC_PKT_HANDSHAKE_def QUIC_TLS_LEVEL_HANDSHAKE_def)
  show ?thesis
    using failed_probe_takes_the_next_packet [of limited_conn 0 "fill_chunk 0 4 [6, 0, 1, 7] 0 (fresh_chunk 0 0)" 2 3 "[6, 0, 1, 7]" nr_ops 5 "[1, 1]" 2 6 9]
      a limited_fails l
    by (simp add: limited_fields fill_chunk_def fresh_chunk_def no_chunk_def)
qed

end
