(* ===== verification/Spec2Isabelle.thy ===== *)
theory Spec2Isabelle
  imports Prelude Byte_Stream Moq_Varint Moq_Lite_Wire Data_Buffer Media Stream_Manager Flv Amf0 Rtmp_Chunk Nal Flv_Catalog Rtmp_Writer Rtmp_Command Rtmp_Session Rtmp_Server_Facts Rtmp_Delivery Rtmp_Invariant Quic_Frame Quic_Stream Quic_Receive Quic_Send Quic_End_To_End Quic_Shortfall
    Moq_Lite_Egress Moq_Lite_Egress_Facts Moqlite_Wire Moqlite_Client Moqlite_Publish Moqlite_Session Moqlite_Reading Moqlite_Publishing Moqlite_Defects
    Moq_Session Moq_Ingest Moq_Lite_Server Moq_Lite_Server_Facts Moq_Lite_Superseded Moq_Lite_Server_Defects
    Quic_Congestion Quic_Recovery Quic_Loss Quic_Recovery_Facts Quic_Recovery_Invariant Quic_Loss_Facts Quic_Recovery_Claims Quic_Ack_Claims
begin

text \<open>
  A model of the live-streaming server \<open>moqlivecast\<close> (C++ and C, under \<open>src/\<close>), and what makes it correct.

  \<^bold>\<open>The program.\<close> A publisher sends audio and video over RTMP (\<open>net/rtmp\<close>) or over moq-lite on QUIC (\<open>moq\<close>, \<open>quic\<close>); the
  stream manager (\<open>utils/av/media_stream_manager\<close>) keeps the table of live streams, decides who owns a stream,
  brings timestamps onto one clock, caches the current group of pictures (\<open>gop_cache\<close>) and hands every packet
  to the stream's players through the writer interface (\<open>utils/av/media_packet.hpp\<close>). Containers and codec headers are
  read and written by \<open>format/flv\<close>, \<open>format/amf\<close>, \<open>format/h264_h265_header\<close>; integers on the wire are the varints of
  \<open>moq/moq_varint.hpp\<close>, \<open>moq/moq_lite_wire.hpp\<close> and \<open>quic/quic_packet.c\<close>.

  \<^bold>\<open>The theories.\<close>
  \<^item> \<open>Prelude\<close>: machine integers, faults, big-endian octets, the parser steps \<open>give\<close>, \<open>chain\<close>, \<open>reads\<close>.
  \<^item> \<open>Byte_Stream\<close>: \<open>utils/byte_stream.hpp\<close>. \<open>Data_Buffer\<close>: the growable buffer \<open>utils/data_buffer.hpp\<close> as an allocation with a window,
    and its refinement to a byte queue (locale \<open>byte_fifo\<close>).
  \<^item> \<open>Moq_Varint\<close>, \<open>Moq_Lite_Wire\<close>: the integer codecs and messages of moq-lite.
  \<^item> \<open>Media\<close>: media packets, the writer interface (record \<open>av_ops\<close>, locale \<open>av_writer\<close>) and the GOP cache.
  \<^item> \<open>Stream_Manager\<close>: the table of live streams, with its invariant as an inductive reachability relation.
  \<^item> \<open>Flv\<close>, \<open>Flv_Catalog\<close>, \<open>Amf0\<close>, \<open>Nal\<close>: FLV tags, the catalogue of a publisher, AMF0, NAL units and parameter sets.
  \<^item> \<open>Rtmp_Chunk\<close>: chunk streams and the session reader. \<open>Rtmp_Command\<close>: one session, the answers and arguments of its
    commands. \<open>Rtmp_Writer\<close>: the player side, which interprets \<open>av_writer\<close>. \<open>Rtmp_Session\<close>: the server, composed of all of these.
  \<^item> \<open>Rtmp_Server_Facts\<close>, \<open>Rtmp_Delivery\<close>, \<open>Rtmp_Invariant\<close>: what is proved of the server.
  \<^item> \<open>Quic_Frame\<close>: packet numbers and the frames of \<open>quic/quic_packet.c\<close>. \<open>Quic_Stream\<close>: the stream layer \<open>quic/quic_stream.c\<close> with the
    packet it writes into. \<open>Quic_Receive\<close>, \<open>Quic_Send\<close>, \<open>Quic_End_To_End\<close>, \<open>Quic_Shortfall\<close>: what is proved of the receiver, of the
    sender and of both together (the peer takes every frame of the packets that arrive), and where it falls short.
  \<^item> \<open>Quic_Congestion\<close>: the interface of the congestion controllers (record \<open>quic_cc_ops\<close>, locales \<open>controller_invariant\<close> and
    \<open>congestion_controller\<close>) and NewReno, which interprets both. \<open>Quic_Recovery\<close>, \<open>Quic_Loss\<close>: loss recovery, \<open>quic/quic_recovery.c\<close>, with
    the sending side of the connection it calls back into. \<open>Quic_Recovery_Facts\<close>, \<open>Quic_Recovery_Invariant\<close>, \<open>Quic_Loss_Facts\<close>:
    the ring as a queue and the invariant, proved for every controller in the locale. \<open>Quic_Recovery_Claims\<close>, \<open>Quic_Ack_Claims\<close>: what follows.
  \<^item> \<open>Moq_Lite_Egress\<close>, \<open>Moq_Lite_Egress_Facts\<close>: the writer that serves one subscription (\<open>moq/moq_lite_egress.cpp\<close>), over \<open>Quic_Stream\<close>;
    it interprets \<open>av_writer\<close>.
  \<^item> \<open>Moqlite_Wire\<close>: the C codec \<open>moqlite/moq_lite_wire.c\<close>, shown equal to \<open>Moq_Lite_Wire\<close>. \<open>Moqlite_Client\<close> (objects, subscribing, parsing),
    \<open>Moqlite_Publish\<close> (publishing) and \<open>Moqlite_Session\<close> (callbacks of the QUIC client and public functions): \<open>moqlite/moq_lite_client.c\<close>.
    \<open>Moqlite_Reading\<close>, \<open>Moqlite_Publishing\<close>, \<open>Moqlite_Defects\<close>: what is proved of it.
  \<^item> \<open>Moq_Session\<close>, \<open>Moq_Ingest\<close>, \<open>Moq_Lite_Server\<close>: the server's end of moq-lite, \<open>moq/moq_lite_session.cpp\<close> and
    \<open>moq/moq_lite_server.cpp\<close>: the sessions in one state with the stream manager, what they serve, what they take in, the dispatch
    of stream data and the server around them.
    \<open>Moq_Lite_Server_Facts\<close>, \<open>Moq_Lite_Superseded\<close>, \<open>Moq_Lite_Server_Defects\<close>: what is proved of it.

  \<^bold>\<open>State and effects.\<close> A class is a record with its members, a method a function that returns the record updated; enumerations are
  datatypes, 8- to 64-bit unsigned integers are words, \<open>int64_t\<close> timestamps are integers (they stay far from their
  bounds). A \<open>std::map\<close> is an association list. Pointers to writers are numbers with a heap in the manager. The clock is
  an argument. Callbacks are recorded as events and octets handed to a socket in lists, in order. Where the code reads
  past its data, divides by zero, fails an \<open>assert\<close> or uses a deleted object the model stops with a \<open>fault\<close>; where it never
  comes back, with \<open>NoReturn\<close>. Error codes and refusals are ordinary values.

  \<^bold>\<open>What is shown.\<close> Round trips of every codec (varints, messages, FLV headers and bodies, chunks, emulation prevention);
  functional correctness of the parsers of codec headers against encoders (for the H.264 picture size against the standard, with the
  exact error of cropped field-coded streams); the buffer refines a queue and the cache equals
  its specification; ownership: after a claim one owner, a superseded session is harmless, take-overs are bounded; the table
  of streams stays well formed in every reachable state of the manager and of the whole RTMP server; packets reach
  every player; the loop over the values of a command ends exactly when no value starts with an octet above 13. QUIC streams deliver what was
  written, in order, whatever the network does to the
  packets, unless the stream was reset, and stay within the credit of the peer. Loss recovery counts the octets in flight exactly as long as
  the ring of sent packets has room for the four packets a pass sends again (a fuller ring miscounts), and its estimates and NewReno's window stay within bounds; but one short ACK frame never lets its handler return. A group published by the C client, cut into any pieces, calls a
  subscriber's application for exactly its frames; sent to the server it gives the stream manager exactly the FLV packets of these
  frames, unless the session lost its stream, in which case nothing changes outside the session, catalogues included. Theorems of kind \<open>error\<close> show inputs on which the code fails.

  \<^bold>\<open>Fuel.\<close> \<open>Decode\<close> (AMF0) takes twice the input length plus two, shown sufficient by \<open>Decode_total\<close>; the command loop one round
  per octet plus one, and \<open>decode_command_fuel\<close> shows that running out means never ending; the chunk reader one
  round per octet plus two (\<open>OnRead_returns\<close>; its result is \<open>NoReturn\<close> where a command loop never ends). The loops over the ring and the chunks of loss recovery are bounded by the
  sizes of their arrays; the loop over the packet numbers of an ACK range is a partial function, \<open>None\<close> when it never ends. Other loops recurse on their input.

  In \<open>Quic_Stream\<close> the answers of congestion control and pacing are the list \<open>may_send\<close>, timers calls with a clock, packets a
  list. In the C client a handle is an index, a pointer to a session, subscription, broadcast or track is its
  index too, \<open>0\<close> the null pointer; calls of the QUIC client and of the application are recorded in \<open>g_out\<close>, so that the
  application does not call back from within a callback. \<open>quic_client_stream_is_uni\<close> reads the number of the stream.

  In \<open>Moq_Session\<close> and its successors a session is the number of its connection, and sessions are visited in the order of
  these numbers (the code: of the addresses). A writer of a subscription runs on its session's connection: what the manager hands to it
  goes through a mailbox that is emptied at once, in the order of the players. The callbacks of the manager run when the
  operation that made them returns. The sum of the
  timestamp differences of a group, which the code only logs, is kept modulo 2^64. The JSON parser, the pull of a missing stream from the cluster and the names the cluster announces
  are parameters in the state.

  \<^bold>\<open>Not modelled.\<close> Sockets, timers and the event loop, loggers, configuration; cryptography (the RTMP handshake's digests and the
  packet protection of QUIC are parameters or left out); floating-point arithmetic (BBR, CUBIC, the pacer); vendored libraries (\<open>json.hpp\<close>, libuv, OpenSSL); failing
  allocations, locks, error texts. Not yet modelled: \<open>moq_push\<close>, MP4, QUIC headers and
  handshake, HTTP/3.
\<close>

end
